(* ===== verification/Prelude.thy ===== *)
theory Prelude
  imports Main "HOL-Library.Char_ord" "HOL-Library.List_Lexorder" "HOL-Library.AList"
    "HOL-Library.FSet"
begin

text \<open>
  What every component shares: the errors, the DIDs, Go's maps, the functions of Go's
  \<open>strings\<close> package the sources call, and the lemmas about them. The collection
  \<open>hilt_simps\<close> holds the unfolding equations the component proofs use.

  Strings are byte strings (Go's), a list of \<open>char\<close>; the order is the bytewise one
  (\<open>List_Lexorder\<close> over \<open>Char_ord\<close>), which is Go's. Case mapping and white space are
  modelled on ASCII.
\<close>

named_theorems hilt_simps \<open>unfolding equations of the model's operations\<close>

subsection \<open>Errors\<close>

text \<open>
  The sentinel errors of \<open>pkg/store\<close>, \<open>pkg/vault\<close>, \<open>pkg/rpc/service/auth\<close>,
  \<open>pkg/rpc/service/bucket\<close>, \<open>pkg/api/service\<close> and \<open>pkg/rpc/admin.go\<close>. The code
  wraps a sentinel with context (\<open>%w\<close>) and tests it with \<open>errors.Is\<close>; an error of the
  model is the sentinel it wraps.
\<close>

datatype (plugins only: code) store_err =
    ErrRecordExists | ErrRecordNotFound | ErrInvalidArgument | ErrPreconditionFailed
  | ErrLockTimeout | ErrConflictingFilters | ErrKeyNotFound

datatype (plugins only: code) auth_err =
    ErrMalformedSignature | ErrInvalidAccessKeyID | ErrUnknownAccessKey | ErrSignatureMismatch
  | ErrSignatureExpired | ErrAccessKeyExpired | ErrTenantDisabled | ErrIssuerForbidden
  | ErrRegionNotServed | ErrUnsupportedOperation | ErrConflictingQuery "string list"
  | ErrOperationNotPermitted | ErrUnknownBucket | ErrForeignBucket | ErrBucketNotPermitted
  | ErrUnsignedHeader string | ErrInvalidBody | ErrTemporarilyUnavailable
  | BucketRegionMismatchError string string

datatype (plugins only: code) api_err =
    ErrInvalidPolicy | ErrTenantNotFound | ErrBucketNotFound | ErrPolicyNotFound
  | ErrPrincipalNotFound | ErrInvalidPrecondition | ErrPolicyPreconditionFailed
  | ErrConcurrentChange | ErrInvalidPrincipalID | ErrNamedAgain
  | ErrInvalidName | ErrNoPermissions | ErrInvalidPermission string | ErrNoSuchBucket string
  | ErrNameConflict | ErrAccessKeyNotFound | ErrPrincipalScoped | ErrUnknownPrincipal
  | ErrInvalidStatus | ErrTenantNotDisabled | ErrDIDRegistration | ErrUploadRegistration
  | ErrDIDDeactivation | ErrInvalidTenantID | ErrInvalidRange | ErrInvalidWindow

datatype (plugins only: code) rpc_err =
    ErrOperationMismatch | ErrBucketExists | ErrBucketAlreadyOwned | ErrBucketNotEmpty
  | ErrBucketUnknown | ErrKeyUnknown | ErrInvalidParameter
  | ErrProviderExists | ErrProviderNotFound | ErrInvalidNodes

text \<open>
  \<open>DeadlineExceeded\<close> is \<open>context.DeadlineExceeded\<close>, the error of a context whose
  deadline ran out; \<open>Upstream\<close> is a failure another service answered under a name of its
  own; \<open>Internal\<close> is a failure that wraps no sentinel.
\<close>

datatype (plugins only: code) err =
  Store store_err | Auth auth_err | Api api_err | Rpc rpc_err | DeadlineExceeded | Upstream string | Internal string

text \<open>A step that threads a state: its error or its value, and the state it leaves.\<close>

definition and_then :: "(err + 'a) \<times> 's \<Rightarrow> ('a \<Rightarrow> 's \<Rightarrow> (err + 'b) \<times> 's) \<Rightarrow> (err + 'b) \<times> 's" where
  "and_then r k = (case r of (Inl e, s) \<Rightarrow> (Inl e, s) | (Inr x, s) \<Rightarrow> k x s)"

lemma and_then_simps [simp]:
  "and_then (Inl e, s) k = (Inl e, s)" "and_then (Inr x, s) k = k x s"
  by (simp_all add: and_then_def)

lemma and_then_InrD:
  assumes "and_then r k = (Inr y, s')"
  obtains x s where "r = (Inr x, s)" "k x s = (Inr y, s')"
  using assms by (auto simp: and_then_def split: sum.splits prod.splits)

text \<open>A step that threads no state.\<close>

definition on_ok :: "err + 'a \<Rightarrow> ('a \<Rightarrow> err + 'b) \<Rightarrow> err + 'b" where
  "on_ok r k = (case r of Inl e \<Rightarrow> Inl e | Inr x \<Rightarrow> k x)"

lemma on_ok_simps [simp]: "on_ok (Inl e) k = Inl e" "on_ok (Inr x) k = k x"
  by (simp_all add: on_ok_def)

lemma on_ok_Inr_iff: "on_ok r k = Inr y \<longleftrightarrow> (\<exists>x. r = Inr x \<and> k x = Inr y)"
  by (cases r) simp_all

lemma on_ok_InrD:
  assumes "on_ok r k = Inr y"
  obtains x where "r = Inr x" "k x = Inr y"
  using assms by (auto simp: on_ok_Inr_iff)

lemma on_ok_cong [fundef_cong]:
  "r = r' \<Longrightarrow> (\<And>x. r' = Inr x \<Longrightarrow> k x = k' x) \<Longrightarrow> on_ok r k = on_ok r' k'"
  by (cases r') simp_all

definition check :: "bool \<Rightarrow> err \<Rightarrow> err + unit" where
  "check b e = (if b then Inr () else Inl e)"

lemma check_simps [simp]: "check b e = Inr u \<longleftrightarrow> b" "check True e = Inr ()" "check False e = Inl e"
  by (simp_all add: check_def)

subsection \<open>DIDs\<close>

text \<open>
  \<open>did.DID\<close>: the undefined DID (\<open>did.Undef\<close>) and the defined ones, by their string form.
\<close>

datatype did = Undef | Did string

fun did_string :: "did \<Rightarrow> string" where
  "did_string Undef = []"
| "did_string (Did s) = s"

definition defined :: "did \<Rightarrow> bool" where
  "defined d \<longleftrightarrow> d \<noteq> Undef"

lemma defined_simps [simp]: "\<not> defined Undef" "defined (Did s)"
  by (simp_all add: defined_def)

instantiation did :: linorder
begin

fun less_did :: "did \<Rightarrow> did \<Rightarrow> bool" where
  "less_did Undef Undef = False"
| "less_did Undef (Did _) = True"
| "less_did (Did _) Undef = False"
| "less_did (Did s) (Did t) = (s < t)"

definition less_eq_did :: "did \<Rightarrow> did \<Rightarrow> bool" where
  "less_eq_did d e \<longleftrightarrow> d < e \<or> d = e"

instance
proof
  fix x y z :: did
  show "x < y \<longleftrightarrow> x \<le> y \<and> \<not> y \<le> x"
    by (cases x; cases y) (auto simp: less_eq_did_def)
  show "x \<le> x" by (simp add: less_eq_did_def)
  show "x \<le> y \<Longrightarrow> y \<le> z \<Longrightarrow> x \<le> z"
    by (cases x; cases y; cases z) (auto simp: less_eq_did_def)
  show "x \<le> y \<Longrightarrow> y \<le> x \<Longrightarrow> x = y"
    by (cases x; cases y) (auto simp: less_eq_did_def)
  show "x \<le> y \<or> y \<le> x"
    by (cases x; cases y) (auto simp: less_eq_did_def)
qed

end

subsection \<open>Go's maps\<close>

text \<open>
  A Go map that the code ranges over is an association list with distinct keys: its order
  stands for the unspecified iteration order. Lookup is \<open>map_of\<close>, assignment
  \<open>AList.update\<close>, \<open>delete\<close> is \<open>AList.delete\<close>.
\<close>

type_synonym ('k, 'v) gomap = "('k \<times> 'v) list"

definition wf_gomap :: "('k, 'v) gomap \<Rightarrow> bool" where
  "wf_gomap m \<longleftrightarrow> distinct (map fst m)"

lemma wf_gomap_Nil [simp, intro]: "wf_gomap []"
  by (simp add: wf_gomap_def)

lemma wf_gomap_update [simp, intro]: "wf_gomap m \<Longrightarrow> wf_gomap (AList.update k v m)"
  by (simp add: wf_gomap_def distinct_update)

lemma wf_gomap_delete [simp, intro]: "wf_gomap m \<Longrightarrow> wf_gomap (AList.delete k m)"
  by (simp add: wf_gomap_def distinct_delete)

lemma wf_gomap_filter [simp, intro]: "wf_gomap m \<Longrightarrow> wf_gomap (filter P m)"
  by (simp add: wf_gomap_def distinct_map_filter)

lemma gomap_in_iff: "wf_gomap m \<Longrightarrow> (k, v) \<in> set m \<longleftrightarrow> map_of m k = Some v"
  by (simp add: wf_gomap_def)

lemma set_update_gomap:
  assumes "wf_gomap m"
  shows "set (AList.update k v m) = insert (k, v) {p \<in> set m. fst p \<noteq> k}"
proof -
  have "(k', w) \<in> set (AList.update k v m) \<longleftrightarrow> (k', w) \<in> insert (k, v) {p \<in> set m. fst p \<noteq> k}"
    for k' w
    using assms by (auto simp: gomap_in_iff update_conv')
  then show ?thesis by (auto simp del: insert_iff)
qed

lemma map_of_delete_gomap [simp]: "map_of (AList.delete k m) = (map_of m)(k := None)"
  by (simp add: delete_conv')

lemma set_delete_gomap: "set (AList.delete k m) = {p \<in> set m. fst p \<noteq> k}"
  by (auto simp: AList.delete_eq)

end
