(* ===== verification/S3perm.thy ===== *)
theory S3perm
  imports Prelude
begin

text \<open>
  \<open>pkg/s3perm\<close>: the Forge commands each S3 permission needs, and the deduplicated set for
  a list of permissions. The lemmas give the set a declarative reading (first occurrences
  of the concatenated command lists), bound it, and show it monotone.
\<close>

subsection \<open>Forge commands\<close>

text \<open>
  The commands the code names come from libforge's bound command types, one constructor per
  identifier the source uses, and \<open>Top\<close> is ucantone's \<open>command.Top()\<close>. The code
  identifies a command by its string; distinct libforge commands have distinct strings.
\<close>

datatype (plugins only: code) command =
  Top | Content_Retrieve | Blob_Add | Blob_Abort | Blob_Remove | Index_Add | Upload_Add | Upload_Remove

definition cmdsRetrieve :: "command list" where
  "cmdsRetrieve = [Content_Retrieve]"

definition cmdsCatalogWrite :: "command list" where
  "cmdsCatalogWrite = [Blob_Add, Index_Add, Content_Retrieve]"

definition cmdsAdd :: "command list" where
  "cmdsAdd = [Upload_Add, Upload_Remove, Blob_Abort, Blob_Remove] @ cmdsCatalogWrite"

definition cmdsDeleteObject :: "command list" where
  "cmdsDeleteObject = [Blob_Remove, Upload_Add, Upload_Remove] @ cmdsCatalogWrite"

definition cmdsDeleteObjectVersion :: "command list" where
  "cmdsDeleteObjectVersion = [Blob_Remove, Upload_Remove] @ cmdsCatalogWrite"

definition cmdsLockState :: "command list" where
  "cmdsLockState = cmdsCatalogWrite"

definition cmdsTagState :: "command list" where
  "cmdsTagState = cmdsCatalogWrite"

definition cmdsAbort :: "command list" where
  "cmdsAbort = [Blob_Abort, Blob_Remove]"

definition cmdsDeleteBucket :: "command list" where
  "cmdsDeleteBucket = [Blob_Abort, Blob_Remove, Upload_Remove]"

lemmas command_sets = cmdsRetrieve_def cmdsCatalogWrite_def cmdsAdd_def cmdsDeleteObject_def
  cmdsDeleteObjectVersion_def cmdsLockState_def cmdsTagState_def cmdsAbort_def
  cmdsDeleteBucket_def

subsection \<open>The permission table\<close>

definition permissionCommands :: "(string, command list) gomap" where
  "permissionCommands = [
    (''s3:GetObject'', cmdsRetrieve),
    (''s3:GetObjectVersion'', cmdsRetrieve),
    (''s3:GetObjectRetention'', cmdsRetrieve),
    (''s3:GetObjectLegalHold'', cmdsRetrieve),
    (''s3:ListBucket'', cmdsRetrieve),
    (''s3:ListBucketVersions'', cmdsRetrieve),
    (''s3:PutObject'', cmdsAdd),
    (''s3:PutObjectRetention'', cmdsLockState),
    (''s3:PutObjectLegalHold'', cmdsLockState),
    (''s3:DeleteObject'', cmdsDeleteObject),
    (''s3:DeleteObjectVersion'', cmdsDeleteObjectVersion),
    (''s3:CreateBucket'', []),
    (''s3:ListAllMyBuckets'', []),
    (''s3:DeleteBucket'', cmdsDeleteBucket),
    (''s3:GetBucketPolicy'', []),
    (''s3:PutBucketPolicy'', []),
    (''s3:DeleteBucketPolicy'', []),
    (''s3:GetBucketPolicyStatus'', []),
    (''s3:GetEncryptionConfiguration'', []),
    (''s3:PutEncryptionConfiguration'', []),
    (''s3:GetBucketLocation'', []),
    (''s3:GetBucketAcl'', []),
    (''s3:GetBucketCORS'', []),
    (''s3:PutBucketCORS'', []),
    (''s3:GetBucketTagging'', []),
    (''s3:PutBucketTagging'', []),
    (''s3:GetBucketVersioning'', []),
    (''s3:PutBucketVersioning'', []),
    (''s3:GetBucketObjectLockConfiguration'', []),
    (''s3:PutBucketObjectLockConfiguration'', []),
    (''s3:BypassGovernanceRetention'', []),
    (''s3:GetObjectTagging'', cmdsRetrieve),
    (''s3:PutObjectTagging'', cmdsTagState),
    (''s3:DeleteObjectTagging'', cmdsTagState),
    (''s3:GetObjectAttributes'', cmdsRetrieve),
    (''s3:AbortMultipartUpload'', cmdsAbort),
    (''s3:ListMultipartUploadParts'', cmdsRetrieve),
    (''s3:ListBucketMultipartUploads'', cmdsRetrieve)]"

definition valid_permission :: "string \<Rightarrow> bool" where
  "valid_permission p \<longleftrightarrow> map_of permissionCommands p \<noteq> None"

text \<open>Indexing the map with an absent permission gives Go's zero value, the nil slice.\<close>

definition commandsOf :: "string \<Rightarrow> command list" where
  "commandsOf p = (case map_of permissionCommands p of None \<Rightarrow> [] | Some cs \<Rightarrow> cs)"

subsection \<open>CommandsFor\<close>

text \<open>The two nested loops, over the map of commands seen and the result under construction.\<close>

fun addCommand :: "command \<Rightarrow> command list \<times> command list \<Rightarrow> command list \<times> command list" where
  "addCommand c (seen, cmds) = (if c \<in> set seen then (seen, cmds) else (c # seen, cmds @ [c]))"

definition commandsFor :: "string list \<Rightarrow> command list" where
  "commandsFor permissions =
     snd (fold (\<lambda>p st. fold addCommand (commandsOf p) st) permissions ([], []))"

text \<open>The reading: keep each command at its first occurrence.\<close>

fun firsts :: "'a list \<Rightarrow> 'a list" where
  "firsts [] = []"
| "firsts (x # xs) = x # filter (\<lambda>y. y \<noteq> x) (firsts xs)"

lemma set_firsts [simp]: "set (firsts xs) = set xs"
  by (induction xs) auto

lemma distinct_firsts [simp]: "distinct (firsts xs)"
  by (induction xs) auto

lemma filter_firsts_comm: "firsts (filter P xs) = filter P (firsts xs)"
  by (induction xs) (auto simp: filter_filter conj_commute intro: filter_cong)

lemma firsts_append: "firsts (xs @ ys) = firsts xs @ filter (\<lambda>y. y \<notin> set xs) (firsts ys)"
proof (induction xs)
  case (Cons x xs)
  then show ?case by (simp add: filter_filter) (rule filter_cong, auto)
qed simp

lemma fold_addCommand:
  "set seen = set cmds \<Longrightarrow> fold addCommand cs (seen, cmds) = (seen', cmds') \<Longrightarrow>
   set seen' = set cmds' \<and> cmds' = cmds @ filter (\<lambda>c. c \<notin> set cmds) (firsts cs)"
proof (induction cs arbitrary: seen cmds)
  case (Cons c cs)
  show ?case
  proof (cases "c \<in> set cmds")
    case True
    with Cons.prems Cons.IH[of seen cmds] show ?thesis
      by (auto simp: filter_filter intro!: filter_cong)
  next
    case False
    with Cons.prems Cons.IH[of "c # seen" "cmds @ [c]"] show ?thesis
      by (auto simp: filter_filter intro!: filter_cong)
  qed
qed simp

lemma fold_commandsOf:
  "set seen = set cmds \<Longrightarrow>
   fold (\<lambda>p st. fold addCommand (commandsOf p) st) ps (seen, cmds) = (seen', cmds') \<Longrightarrow>
   cmds' = cmds @ filter (\<lambda>c. c \<notin> set cmds) (firsts (concat (map commandsOf ps)))"
proof (induction ps arbitrary: seen cmds)
  case (Cons p ps)
  obtain s1 c1 where 1: "fold addCommand (commandsOf p) (seen, cmds) = (s1, c1)"
    by fastforce
  from fold_addCommand[OF Cons.prems(1) 1]
  have s1: "set s1 = set c1" and c1: "c1 = cmds @ filter (\<lambda>c. c \<notin> set cmds) (firsts (commandsOf p))"
    by auto
  from Cons.prems(2) 1 have "fold (\<lambda>p st. fold addCommand (commandsOf p) st) ps (s1, c1) = (seen', cmds')"
    by simp
  from Cons.IH[OF s1 this] show ?case
    by (auto simp: c1 firsts_append filter_filter intro!: filter_cong)
qed simp

lemma commandsFor_eq: "commandsFor ps = firsts (concat (map commandsOf ps))"
proof -
  obtain s c where st: "fold (\<lambda>p st. fold addCommand (commandsOf p) st) ps ([], []) = (s, c)"
    by fastforce
  have "c = [] @ filter (\<lambda>c. c \<notin> set []) (firsts (concat (map commandsOf ps)))"
    by (rule fold_commandsOf[OF refl st])
  with st show ?thesis by (simp add: commandsFor_def)
qed

lemma set_commandsFor [simp]: "set (commandsFor ps) = (\<Union>p\<in>set ps. set (commandsOf p))"
  by (simp add: commandsFor_eq)

lemma distinct_commandsFor [simp]: "distinct (commandsFor ps)"
  by (simp add: commandsFor_eq)

lemma commandsFor_Nil [simp]: "commandsFor [] = []"
  by (simp add: commandsFor_eq)

lemma commandsFor_single: "commandsFor [p] = firsts (commandsOf p)"
  by (simp add: commandsFor_eq)

lemma commandsOf_invalid: "\<not> valid_permission p \<Longrightarrow> commandsOf p = []"
  by (simp add: commandsOf_def valid_permission_def)

lemma Top_notin_commandsOf: "Top \<notin> set (commandsOf p)"
proof (cases "map_of permissionCommands p")
  case (Some cs)
  then have "(p, cs) \<in> set permissionCommands" by (rule map_of_SomeD)
  then have "Top \<notin> set cs" by (auto simp: permissionCommands_def command_sets)
  with Some show ?thesis by (simp add: commandsOf_def)
qed (simp add: commandsOf_def)

text \<open>
  \<open>CommandsFor\<close> returns each Forge command of the given permissions exactly once, at the
  position of its first occurrence: the list has no duplicates, its members are the commands
  of the permissions, and the list for a longer argument extends the list for a prefix.
\<close>

theorem commandsFor_first_seen:
  "distinct (commandsFor ps) \<and>
   set (commandsFor ps) = (\<Union>p\<in>set ps. set (commandsOf p)) \<and>
   (\<exists>rest. commandsFor (ps @ qs) = commandsFor ps @ rest \<and>
      set rest = (\<Union>q\<in>set qs. set (commandsOf q)) - set (commandsFor ps))"
proof -
  have "commandsFor (ps @ qs) =
      commandsFor ps @ filter (\<lambda>y. y \<notin> set (concat (map commandsOf ps))) (commandsFor qs)"
    by (simp add: commandsFor_eq firsts_append)
  then show ?thesis by auto
qed

end
