(* ===== verification/Go_Strings.thy ===== *)
theory Go_Strings
  imports Prelude "HOL-Library.Sublist"
begin

text \<open>
  The functions of Go's \<open>strings\<close>, \<open>strconv\<close>, \<open>net/url\<close>, \<open>net/textproto\<close> and
  \<open>net\<close> packages the sources call, as executable definitions on byte strings, with the
  lemmas the components use. \<open>url.Parse\<close> itself is an argument of the model (see
  \<open>url\<close> below).
\<close>

subsection \<open>Characters\<close>

definition byte :: "char \<Rightarrow> nat" where
  "byte c = of_char c"

definition is_upper :: "char \<Rightarrow> bool" where
  "is_upper c \<longleftrightarrow> 65 \<le> byte c \<and> byte c \<le> 90"

definition is_lower :: "char \<Rightarrow> bool" where
  "is_lower c \<longleftrightarrow> 97 \<le> byte c \<and> byte c \<le> 122"

definition is_digit :: "char \<Rightarrow> bool" where
  "is_digit c \<longleftrightarrow> 48 \<le> byte c \<and> byte c \<le> 57"

definition is_space :: "char \<Rightarrow> bool" where
  "is_space c \<longleftrightarrow> byte c = 32 \<or> 9 \<le> byte c \<and> byte c \<le> 13"

definition lower_char :: "char \<Rightarrow> char" where
  "lower_char c = (if is_upper c then char_of (byte c + 32) else c)"

definition upper_char :: "char \<Rightarrow> char" where
  "upper_char c = (if is_lower c then char_of (byte c - 32) else c)"

lemmas char_class = byte_def is_upper_def is_lower_def is_digit_def is_space_def

lemma byte_char_of [simp]: "n < 256 \<Longrightarrow> byte (char_of n) = n"
  by (simp add: byte_def)

lemma char_of_byte [simp]: "char_of (byte c) = c"
  by (simp add: byte_def)

lemma byte_less [simp]: "byte c < 256"
  by (simp add: byte_def)

lemma byte_inject [simp]: "byte c = byte d \<longleftrightarrow> c = d"
  by (simp add: byte_def)

lemma lower_char_idem [simp]: "lower_char (lower_char c) = lower_char c"
  by (simp add: lower_char_def is_upper_def)

subsection \<open>The strings package\<close>

definition toLower :: "string \<Rightarrow> string" where
  "toLower s = map lower_char s"

definition toUpper :: "string \<Rightarrow> string" where
  "toUpper s = map upper_char s"

definition equalFold :: "string \<Rightarrow> string \<Rightarrow> bool" where
  "equalFold s t \<longleftrightarrow> toLower s = toLower t"

lemma toLower_idem [simp]: "toLower (toLower s) = toLower s"
  by (simp add: toLower_def)

lemma equalFold_refl [simp]: "equalFold s s"
  by (simp add: equalFold_def)

fun cut :: "string \<Rightarrow> string \<Rightarrow> string \<times> string \<times> bool" where
  "cut [] sep = (if sep = [] then ([], [], True) else ([], [], False))"
| "cut (c # cs) sep =
     (if prefix sep (c # cs) then ([], drop (length sep) (c # cs), True)
      else (let (before, after, found) = cut cs sep in (c # before, after, found)))"

lemma cut_found: "cut s sep = (b, a, True) \<Longrightarrow> s = b @ sep @ a"
  by (induction s sep arbitrary: b a rule: cut.induct)
     (auto simp: Let_def prefix_def split: if_splits prod.splits)

lemma cut_not_found: "cut s sep = (b, a, False) \<Longrightarrow> b = s \<and> a = []"
  by (induction s sep arbitrary: b a rule: cut.induct)
     (auto simp: Let_def split: if_splits prod.splits)

definition trimPrefix :: "string \<Rightarrow> string \<Rightarrow> string" where
  "trimPrefix s p = (if prefix p s then drop (length p) s else s)"

fun splitOn :: "char \<Rightarrow> string \<Rightarrow> string list" where
  "splitOn sep [] = [[]]"
| "splitOn sep (c # cs) =
     (if c = sep then [] # splitOn sep cs
      else (case splitOn sep cs of [] \<Rightarrow> [[c]] | p # ps \<Rightarrow> (c # p) # ps))"

lemma splitOn_not_Nil [simp]: "splitOn sep s \<noteq> []"
  by (induction s) (auto split: list.splits)

fun join :: "string \<Rightarrow> string list \<Rightarrow> string" where
  "join sep [] = []"
| "join sep [s] = s"
| "join sep (s # t # ts) = s @ sep @ join sep (t # ts)"

lemma join_Cons: "ts \<noteq> [] \<Longrightarrow> join sep (s # ts) = s @ sep @ join sep ts"
  by (cases ts) auto

lemma splitOn_no_sep: "sep \<notin> set s \<Longrightarrow> splitOn sep s = [s]"
  by (induction s) auto

lemma splitOn_append: "splitOn sep (s @ sep # t) =
   butlast (splitOn sep s) @ [last (splitOn sep s)] @ splitOn sep t"
  by (induction s) (auto split: list.splits)

lemma splitOn_join:
  assumes "ps \<noteq> []" and "\<forall>p\<in>set ps. sep \<notin> set p"
  shows "splitOn sep (join [sep] ps) = ps"
  using assms
proof (induction ps)
  case (Cons p ps)
  then show ?case
    by (cases "ps = []") (auto simp: splitOn_no_sep join_Cons splitOn_append)
qed simp

lemma splitOn_parts: "p \<in> set (splitOn sep s) \<Longrightarrow> sep \<notin> set p"
  by (induction s arbitrary: p) (auto split: if_splits list.splits)

lemma splitOn_join_drop:
  assumes "n < length (splitOn sep s)"
  shows "splitOn sep (join [sep] (drop n (splitOn sep s))) = drop n (splitOn sep s)"
  using assms by (intro splitOn_join) (auto dest!: in_set_dropD splitOn_parts)

lemma join_splitOn: "join [sep] (splitOn sep s) = s"
proof (induction s)
  case (Cons c s)
  then show ?case
    by (cases "splitOn sep s") (auto simp: join_Cons, (metis append_Cons join.simps(2) join_Cons)?)
qed simp

definition trimSpace :: "string \<Rightarrow> string" where
  "trimSpace s = rev (dropWhile is_space (rev (dropWhile is_space s)))"

fun fieldsAux :: "string \<Rightarrow> string \<Rightarrow> string list" where
  "fieldsAux cur [] = (if cur = [] then [] else [rev cur])"
| "fieldsAux cur (c # cs) =
     (if is_space c then (if cur = [] then fieldsAux [] cs else rev cur # fieldsAux [] cs)
      else fieldsAux (c # cur) cs)"

definition strFields :: "string \<Rightarrow> string list" where
  "strFields s = fieldsAux [] s"

definition trimSet :: "char list \<Rightarrow> string \<Rightarrow> string" where
  "trimSet cs s = rev (dropWhile (\<lambda>c. c \<in> set cs) (rev (dropWhile (\<lambda>c. c \<in> set cs) s)))"

subsection \<open>strconv\<close>

definition digitsValue :: "string \<Rightarrow> nat" where
  "digitsValue s = foldl (\<lambda>n c. 10 * n + (byte c - 48)) 0 s"

text \<open>
  \<open>strconv.Atoi\<close>: the value and whether the parse succeeded; a syntax error gives 0, a value
  out of the 64-bit range is clamped to its end, both with an error.
\<close>

definition atoi :: "string \<Rightarrow> int \<times> bool" where
  "atoi s =
     (let neg = (case s of c # _ \<Rightarrow> c = CHR ''-'' | [] \<Rightarrow> False);
          body = (case s of c # cs \<Rightarrow> if c = CHR ''-'' \<or> c = CHR ''+'' then cs else s | [] \<Rightarrow> [])
      in if body = [] \<or> \<not> list_all is_digit body then (0, False)
         else let n = int (digitsValue body); v = (if neg then - n else n)
              in if v > 2 ^ 63 - 1 then (2 ^ 63 - 1, False)
                 else if v < - (2 ^ 63) then (- (2 ^ 63), False) else (v, True))"

subsection \<open>net/url\<close>

text \<open>
  What the sources read of a parsed URL: its scheme, its host, its escaped path and its raw
  query. \<open>url.Parse\<close> is an argument of the definitions that call it, \<open>None\<close> its error.
\<close>

record url =
  url_scheme :: string
  url_host :: string
  url_path :: string
  url_query :: string

type_synonym url_parser = "string \<Rightarrow> url option"

definition hexValue :: "char \<Rightarrow> nat option" where
  "hexValue c =
     (if is_digit c then Some (byte c - 48)
      else if 97 \<le> byte c \<and> byte c \<le> 102 then Some (byte c - 87)
      else if 65 \<le> byte c \<and> byte c \<le> 70 then Some (byte c - 55)
      else None)"

fun queryUnescape :: "string \<Rightarrow> string option" where
  "queryUnescape [] = Some []"
| "queryUnescape (c # cs) =
     (if c = CHR ''%'' then
        (case cs of a # b # rest \<Rightarrow>
           (case (hexValue a, hexValue b) of
              (Some x, Some y) \<Rightarrow> map_option (Cons (char_of (16 * x + y))) (queryUnescape rest)
            | _ \<Rightarrow> None)
         | _ \<Rightarrow> None)
      else map_option (Cons (if c = CHR ''+'' then CHR '' '' else c)) (queryUnescape cs))"

type_synonym url_values = "(string, string list) gomap"

definition addValue :: "string \<Rightarrow> string \<Rightarrow> url_values \<Rightarrow> url_values" where
  "addValue k v q = AList.update k ((case map_of q k of None \<Rightarrow> [] | Some vs \<Rightarrow> vs) @ [v]) q"

text \<open>\<open>URL.Query\<close>: the pairs that parse, in order; the malformed ones are dropped.\<close>

fun parsePairs :: "string list \<Rightarrow> url_values \<Rightarrow> url_values" where
  "parsePairs [] q = q"
| "parsePairs (p # ps) q =
     (if CHR '';'' \<in> set p \<or> p = [] then parsePairs ps q
      else (let (k, v, _) = cut p ''='' in
            case (queryUnescape k, queryUnescape v) of
              (Some k, Some v) \<Rightarrow> parsePairs ps (addValue k v q)
            | _ \<Rightarrow> parsePairs ps q))"

definition parseQuery :: "string \<Rightarrow> url_values" where
  "parseQuery raw = parsePairs (splitOn (CHR ''&'') raw) []"

definition queryGet :: "url_values \<Rightarrow> string \<Rightarrow> string" where
  "queryGet q k = (case map_of q k of Some (v # _) \<Rightarrow> v | _ \<Rightarrow> [])"

definition queryHas :: "url_values \<Rightarrow> string \<Rightarrow> bool" where
  "queryHas q k \<longleftrightarrow> map_of q k \<noteq> None"

lemma wf_parsePairs: "wf_gomap q \<Longrightarrow> wf_gomap (parsePairs ps q)"
  by (induction ps q rule: parsePairs.induct) (auto simp: addValue_def Let_def split: prod.splits option.splits)

lemma wf_parseQuery [simp]: "wf_gomap (parseQuery raw)"
  by (simp add: parseQuery_def wf_parsePairs)

subsection \<open>net/textproto and net/http headers\<close>

definition is_token :: "char \<Rightarrow> bool" where
  "is_token c \<longleftrightarrow> is_upper c \<or> is_lower c \<or> is_digit c \<or> c \<in> set ''!#$%&*+-.^_`|~'' \<or> byte c = 39"

fun titleCase :: "bool \<Rightarrow> string \<Rightarrow> string" where
  "titleCase up [] = []"
| "titleCase up (c # cs) =
     (let d = (if up then upper_char c else lower_char c) in d # titleCase (d = CHR ''-'') cs)"

definition canonicalHeaderKey :: "string \<Rightarrow> string" where
  "canonicalHeaderKey s = (if list_all is_token s then titleCase True s else s)"

type_synonym headers = "(string, string) gomap"

definition headerGet :: "headers \<Rightarrow> string \<Rightarrow> string" where
  "headerGet h k = (case map_of h (canonicalHeaderKey k) of None \<Rightarrow> [] | Some v \<Rightarrow> v)"

lemma lower_upper_char [simp]: "lower_char (upper_char c) = lower_char c"
  by (auto simp: lower_char_def upper_char_def is_upper_def is_lower_def)

lemma toLower_titleCase: "toLower (titleCase up s) = toLower s"
  by (induction up s rule: titleCase.induct) (auto simp: toLower_def Let_def)

lemma toLower_canonicalHeaderKey [simp]: "toLower (canonicalHeaderKey s) = toLower s"
  by (simp add: canonicalHeaderKey_def toLower_titleCase)

lemma upper_char_cong: "lower_char c = lower_char d \<Longrightarrow> upper_char c = upper_char d"
  by (auto simp: lower_char_def upper_char_def is_upper_def is_lower_def split: if_splits)

lemma is_token_lower: "is_token (lower_char c) \<longleftrightarrow> is_token c"
  by (auto simp: is_token_def lower_char_def is_upper_def is_lower_def)

lemma toLower_Cons: "toLower (c # s) = lower_char c # toLower s"
  by (simp add: toLower_def)

lemma titleCase_cong: "toLower s = toLower t \<Longrightarrow> titleCase up s = titleCase up t"
proof (induction s arbitrary: t up)
  case Nil
  then show ?case by (simp add: toLower_def)
next
  case (Cons c s)
  then obtain d t' where t: "t = d # t'" and eq: "lower_char c = lower_char d" "toLower s = toLower t'"
    by (cases t) (auto simp: toLower_Cons, simp add: toLower_def)
  then show ?case
    using Cons.IH[of t'] upper_char_cong[OF eq(1)] by (simp add: Let_def)
qed

lemma tokens_toLower: "list_all is_token (toLower s) = list_all is_token s"
  by (induction s) (simp_all add: toLower_def is_token_lower)

text \<open>Header names that are tokens have one canonical key exactly when they fold together.\<close>

lemma canonicalHeaderKey_eq_iff:
  assumes "list_all is_token s"
  shows "canonicalHeaderKey s = canonicalHeaderKey t \<longleftrightarrow> equalFold s t"
proof
  assume "canonicalHeaderKey s = canonicalHeaderKey t"
  then have "toLower (canonicalHeaderKey s) = toLower (canonicalHeaderKey t)" by simp
  then show "equalFold s t" by (simp only: toLower_canonicalHeaderKey equalFold_def)
next
  assume "equalFold s t"
  then have eq: "toLower s = toLower t" by (simp add: equalFold_def)
  with assms have "list_all is_token t"
    by (metis tokens_toLower)
  with assms titleCase_cong[OF eq] show "canonicalHeaderKey s = canonicalHeaderKey t"
    by (simp add: canonicalHeaderKey_def)
qed

subsection \<open>net\<close>

definition indexOf :: "char \<Rightarrow> string \<Rightarrow> nat option" where
  "indexOf c s = (if c \<in> set s then Some (length (takeWhile (\<lambda>d. d \<noteq> c) s)) else None)"

definition lastIndexOf :: "char \<Rightarrow> string \<Rightarrow> nat option" where
  "lastIndexOf c s = map_option (\<lambda>i. length s - 1 - i) (indexOf c (rev s))"

text \<open>\<open>net.SplitHostPort\<close>; every error is \<open>None\<close>.\<close>

definition splitHostPort :: "string \<Rightarrow> (string \<times> string) option" where
  "splitHostPort hp =
     (case lastIndexOf (CHR '':'') hp of
        None \<Rightarrow> None
      | Some i \<Rightarrow>
          if hp ! 0 = CHR ''['' then
            (case indexOf (CHR '']'') hp of
               None \<Rightarrow> None
             | Some e \<Rightarrow>
                 if e + 1 \<noteq> i then None
                 else if CHR ''['' \<in> set (drop 1 hp) \<or> CHR '']'' \<in> set (drop (e + 1) hp) then None
                 else Some (take (e - 1) (drop 1 hp), drop (i + 1) hp))
          else if CHR '':'' \<in> set (take i hp) then None
          else if CHR ''['' \<in> set hp \<or> CHR '']'' \<in> set hp then None
          else Some (take i hp, drop (i + 1) hp))"

definition joinHostPort :: "string \<Rightarrow> string \<Rightarrow> string" where
  "joinHostPort host port =
     (if CHR '':'' \<in> set host then ''['' @ host @ '']:'' @ port else host @ '':'' @ port)"

end
