(* ===== verification/Sigv4.thy ===== *)
theory Sigv4
  imports Go_Strings
begin

text \<open>
  \<open>pkg/sigv4\<close>: parsing the signature of an S3 request (the \<open>Authorization\<close> header or a
  presigned URL), the canonical request and the string to sign, the reconstruction of the
  signed host behind proxies, verification for SigV4 (HMAC) and SigV4a (ECDSA), the SigV4a
  key derivation, and the time bounds.

  The hash, MAC and curve primitives of Go's \<open>crypto\<close> packages are the record \<open>crypto\<close>, an
  argument of the definitions that use them; \<open>url.Parse\<close> is the argument \<open>P\<close>.
\<close>

subsection \<open>Data\<close>

datatype scheme = SchemeV4 | SchemeV4a | OtherScheme string

definition schemeOf :: "string \<Rightarrow> scheme" where
  "schemeOf s = (if s = ''AWS4-HMAC-SHA256'' then SchemeV4
     else if s = ''AWS4-ECDSA-P256-SHA256'' then SchemeV4a else OtherScheme s)"

fun schemeString :: "scheme \<Rightarrow> string" where
  "schemeString SchemeV4 = ''AWS4-HMAC-SHA256''"
| "schemeString SchemeV4a = ''AWS4-ECDSA-P256-SHA256''"
| "schemeString (OtherScheme s) = s"

definition terminator :: string where "terminator = ''aws4_request''"

definition UnsignedPayload :: string where "UnsignedPayload = ''UNSIGNED-PAYLOAD''"

record request =
  Method :: string
  Headers :: "(string, string) gomap"
  URL :: string

record signed_request =
  Scheme :: scheme
  AccessKeyID :: string
  Regions :: "string list"
  sr_method :: string
  canonicalURI :: string
  sr_query :: url_values
  sr_headers :: headers
  host :: string
  signedHeaders :: "string list"
  payloadHash :: string
  amzDate :: string
  scope :: string
  signature :: string
  presigned :: bool
  expires :: int

definition HeaderSigned :: "signed_request \<Rightarrow> string \<Rightarrow> bool" where
  "HeaderSigned sr name \<longleftrightarrow> toLower name \<in> set (signedHeaders sr)"

subsection \<open>Headers\<close>

fun toHeaderLoop :: "(string \<times> string) list \<Rightarrow> headers \<Rightarrow> err + headers" where
  "toHeaderLoop [] h = Inr h"
| "toHeaderLoop ((k, v) # m) h =
     (if map_of h (canonicalHeaderKey k) \<noteq> None then Inl (Internal ''duplicate header'')
      else toHeaderLoop m (AList.update (canonicalHeaderKey k) v h))"

definition toHeader :: "(string, string) gomap \<Rightarrow> err + headers" where
  "toHeader m = toHeaderLoop m []"

subsection \<open>The signed host\<close>

definition firstHop :: "string \<Rightarrow> string" where
  "firstHop v = trimSpace (fst (cut v '',''))"

definition isDefaultPort :: "string \<Rightarrow> string \<Rightarrow> bool" where
  "isDefaultPort scheme port \<longleftrightarrow>
     (if port = ''80'' then equalFold scheme ''http''
      else if port = ''443'' then equalFold scheme ''https'' else False)"

definition extractHost :: "headers \<Rightarrow> url \<Rightarrow> string" where
  "extractHost hs u =
     (let fwdHost = headerGet hs ''X-Forwarded-Host'';
          fwdPort = firstHop (headerGet hs ''X-Forwarded-Port'');
          fwdProto = firstHop (headerGet hs ''X-Forwarded-Proto'');
          sch = (if url_scheme u \<noteq> [] then url_scheme u else ''http'');
          sch = (if fwdProto \<noteq> [] then fwdProto else sch);
          rHost = headerGet hs ''Host'';
          rHost = (if rHost = [] then url_host u else rHost);
          (hst, port) =
            (if fwdHost \<noteq> [] then
               (let hst = firstHop fwdHost in
                case splitHostPort hst of
                  Some (h, p) \<Rightarrow> (h, p)
                | None \<Rightarrow>
                    (case splitHostPort rHost of
                       Some (rh, rp) \<Rightarrow> if rh = hst then (hst, rp)
                                        else (hst, fwdPort)
                     | None \<Rightarrow> (hst, fwdPort)))
             else
               (case splitHostPort rHost of
                  Some (h, p) \<Rightarrow> (h, p)
                | None \<Rightarrow> (rHost, fwdPort)))
      in if port \<noteq> [] \<and> \<not> isDefaultPort sch port
         then joinHostPort (trimSet ''[]'' hst) port
         else if CHR '':'' \<in> set hst then trimSet ''[]'' hst
         else hst)"

subsection \<open>Parse\<close>

definition splitRegionSet :: "string \<Rightarrow> string list" where
  "splitRegionSet s =
     filter (\<lambda>r. r \<noteq> []) (map trimSpace (splitOn (CHR '','') (toLower s)))"

definition splitSignedHeaders :: "string \<Rightarrow> string list" where
  "splitSignedHeaders s =
     sort (filter (\<lambda>h. h \<noteq> []) (map trimSpace (splitOn (CHR '';'') (toLower s))))"

definition authPart :: "string \<Rightarrow> string \<times> string \<times> string \<Rightarrow> string \<times> string \<times> string" where
  "authPart part acc =
     (let (cred, hdrs, sig) = acc; (k, v, ok) = cut (trimSpace part) ''='' in
      if \<not> ok then (cred, hdrs, sig)
      else if k = ''Credential'' then (v, hdrs, sig)
      else if k = ''SignedHeaders'' then (cred, v, sig)
      else if k = ''Signature'' then (cred, hdrs, v)
      else (cred, hdrs, sig))"

definition parseAuthorization :: "string \<Rightarrow> string \<times> string \<times> string \<times> string" where
  "parseAuthorization auth =
     (let (algorithm, rest, ok) = cut auth '' '' in
      if \<not> ok then ([], [], [], [])
      else (algorithm, fold authPart (splitOn (CHR '','') rest) ([], [], [])))"

text \<open>
  The signature fields gathered from the query or the header: algorithm, credential, signed
  headers, signature, date, region set, payload hash, presigned, expires.
\<close>

type_synonym auth_fields =
  "string \<times> string \<times> string \<times> string \<times> string \<times> string \<times> string \<times> bool \<times> int"

definition authFields :: "url_values \<Rightarrow> headers \<Rightarrow> err + auth_fields" where
  "authFields query hs =
     (if queryGet query ''X-Amz-Algorithm'' \<noteq> [] then
        (let payload = queryGet query ''X-Amz-Content-Sha256'' in
         Inr (queryGet query ''X-Amz-Algorithm'', queryGet query ''X-Amz-Credential'',
              queryGet query ''X-Amz-SignedHeaders'', queryGet query ''X-Amz-Signature'',
              queryGet query ''X-Amz-Date'', queryGet query ''X-Amz-Region-Set'',
              (if payload = [] then UnsignedPayload else payload), True,
              fst (atoi (queryGet query ''X-Amz-Expires''))))
      else if prefix ''AWS4-'' (headerGet hs ''Authorization'') then
        (let (algorithm, credential, signedHdrs, sig) =
               parseAuthorization (headerGet hs ''Authorization'');
             payload = headerGet hs ''X-Amz-Content-Sha256''
         in if payload = [] then Inl (Internal ''missing X-Amz-Content-Sha256 header'')
            else Inr (algorithm, credential, signedHdrs, sig, headerGet hs ''X-Amz-Date'',
                      headerGet hs ''X-Amz-Region-Set'', payload, False, 0))
      else Inl (Internal ''request is not signed''))"

text \<open>The checks \<open>Parse\<close> makes on the gathered fields, in order: the first that fails.\<close>

definition parseCheck :: "auth_fields \<Rightarrow> string option" where
  "parseCheck f =
     (let (algorithm, credential, signedHdrs, sig, date, regionSet, payload, pre, exps) = f;
          sch = schemeOf algorithm;
          signedHeaderList = splitSignedHeaders signedHdrs;
          credParts = splitOn (CHR ''/'') credential;
          wantParts = (if sch = SchemeV4a then 4 else 5)
      in if sch \<noteq> SchemeV4 \<and> sch \<noteq> SchemeV4a then Some ''unsupported signature algorithm''
         else if credential = [] \<or> signedHdrs = [] \<or> sig = [] \<or> date = []
         then Some ''incomplete signature parameters''
         else if \<not> pre \<and> ''host'' \<notin> set signedHeaderList
         then Some ''host must be a signed header''
         else if \<not> pre \<and> sch = SchemeV4a \<and> ''x-amz-region-set'' \<notin> set signedHeaderList
         then Some ''x-amz-region-set must be a signed header for SigV4a''
         else if length credParts \<noteq> wantParts \<or> last credParts \<noteq> terminator
         then Some ''malformed credential''
         else None)"

definition signedRequest :: "request \<Rightarrow> url \<Rightarrow> headers \<Rightarrow> auth_fields \<Rightarrow> signed_request" where
  "signedRequest req u hs f =
     (let (algorithm, credential, signedHdrs, sig, date, regionSet, payload, pre, exps) = f;
          sch = schemeOf algorithm;
          credParts = splitOn (CHR ''/'') credential
      in \<lparr>Scheme = sch,
          AccessKeyID = credParts ! 0,
          Regions = (if sch = SchemeV4 then [credParts ! 2] else splitRegionSet regionSet),
          sr_method = Method req,
          canonicalURI = (if url_path u = [] then ''/'' else url_path u),
          sr_query = AList.delete ''X-Amz-Signature'' (parseQuery (url_query u)),
          sr_headers = hs,
          host = extractHost hs u,
          signedHeaders = splitSignedHeaders signedHdrs,
          payloadHash = payload,
          amzDate = date,
          scope = join ''/'' (drop 1 credParts),
          signature = sig,
          presigned = pre,
          expires = exps\<rparr>)"

definition Parse :: "url_parser \<Rightarrow> request \<Rightarrow> err + signed_request" where
  "Parse P req =
     (case P (URL req) of
        None \<Rightarrow> Inl (Internal ''parsing request URL'')
      | Some u \<Rightarrow>
          (case toHeader (Headers req) of
             Inl e \<Rightarrow> Inl e
           | Inr hs \<Rightarrow>
               (case authFields (parseQuery (url_query u)) hs of
                  Inl e \<Rightarrow> Inl e
                | Inr f \<Rightarrow>
                    (case parseCheck f of
                       Some m \<Rightarrow> Inl (Internal m)
                     | None \<Rightarrow> Inr (signedRequest req u hs f)))))"

text \<open>
  A successful parse, as facts the later components read off.
\<close>

lemma toHeaderLoop_Inr:
  "toHeaderLoop m h = Inr h' \<longleftrightarrow>
     distinct (map (canonicalHeaderKey \<circ> fst) m) \<and>
     (\<forall>k \<in> fst ` set m. map_of h (canonicalHeaderKey k) = None) \<and>
     h' = fold (\<lambda>(k, v). AList.update (canonicalHeaderKey k) v) m h"
proof (induction m arbitrary: h)
  case (Cons kv m)
  obtain k v where kv: "kv = (k, v)" by force
  have "(\<exists>x\<in>set m. canonicalHeaderKey (fst x) = c) \<longleftrightarrow> c \<in> (canonicalHeaderKey \<circ> fst) ` set m" for c
    by auto
  then show ?case
    by (auto simp: kv Cons.IH update_conv' split: if_splits)
qed auto

lemma toHeader_Inr:
  "toHeader m = Inr h \<longleftrightarrow>
     distinct (map (canonicalHeaderKey \<circ> fst) m) \<and>
     h = fold (\<lambda>(k, v). AList.update (canonicalHeaderKey k) v) m []"
  by (simp add: toHeader_def toHeaderLoop_Inr)

lemma wf_fold_update: "wf_gomap h \<Longrightarrow> wf_gomap (fold (\<lambda>(k, v). AList.update (g k) v) m h)"
  by (induction m arbitrary: h) auto

lemma map_of_fold_update:
  "distinct (map (g \<circ> fst) m) \<Longrightarrow>
   map_of (fold (\<lambda>(k, v). AList.update (g k) v) m h) c =
     (case map_of (map (\<lambda>(k, v). (g k, v)) m) c of None \<Rightarrow> map_of h c | Some v \<Rightarrow> Some v)"
proof (induction m arbitrary: h)
  case (Cons kv m)
  obtain k v where kv: "kv = (k, v)" by force
  have "map_of (map (\<lambda>(k, v). (g k, v)) m) (g k) = None"
    using Cons.prems kv by (force simp: map_of_eq_None_iff)
  then show ?case
    using Cons by (auto simp: kv update_conv' split: option.splits)
qed simp

lemma toHeader_get:
  assumes "toHeader m = Inr h" and "(k, v) \<in> set m"
  shows "map_of h (canonicalHeaderKey k) = Some v"
proof -
  have d: "distinct (map (canonicalHeaderKey \<circ> fst) m)" using assms(1) by (simp add: toHeader_Inr)
  have "map_of (map (\<lambda>(k, v). (canonicalHeaderKey k, v)) m) (canonicalHeaderKey k) = Some v"
    using d assms(2) by (intro map_of_is_SomeI) (auto simp: comp_def case_prod_unfold intro!: image_eqI[where x = "(k, v)"])
  with assms(1) d show ?thesis
    by (simp add: toHeader_Inr map_of_fold_update)
qed

lemma toHeader_error:
  "(\<exists>e. toHeader m = Inl e) \<longleftrightarrow> \<not> distinct (map (canonicalHeaderKey \<circ> fst) m)"
  using toHeader_Inr[of m] by (cases "toHeader m") auto

lemma sorted_splitSignedHeaders [simp]: "sorted (splitSignedHeaders s)"
  by (simp add: splitSignedHeaders_def)

lemma authFields_header:
  assumes "authFields q hs = Inr (alg, cred, shdrs, sig, date, rs, payload, pre, exps)"
  shows "payload \<noteq> [] \<and> (pre \<longleftrightarrow> queryGet q ''X-Amz-Algorithm'' \<noteq> [])"
  using assms by (auto simp: authFields_def Let_def UnsignedPayload_def split: if_splits prod.splits)

text \<open>What a parse that succeeds has checked and what it returns.\<close>

lemma Parse_InrD:
  assumes "Parse P req = Inr sr"
  obtains u hs alg cred shdrs date rs where
    "P (URL req) = Some u" "toHeader (Headers req) = Inr hs"
    "authFields (parseQuery (url_query u)) hs =
       Inr (alg, cred, shdrs, signature sr, date, rs, payloadHash sr, presigned sr, expires sr)"
    "Scheme sr = schemeOf alg" "Scheme sr = SchemeV4 \<or> Scheme sr = SchemeV4a"
    "cred \<noteq> []" "signature sr \<noteq> []" "amzDate sr = date" "date \<noteq> []"
    "signedHeaders sr = splitSignedHeaders shdrs"
    "\<not> presigned sr \<Longrightarrow> ''host'' \<in> set (signedHeaders sr)"
    "\<not> presigned sr \<Longrightarrow> Scheme sr = SchemeV4a \<Longrightarrow> ''x-amz-region-set'' \<in> set (signedHeaders sr)"
    "length (splitOn (CHR ''/'') cred) = (if Scheme sr = SchemeV4a then 4 else 5)"
    "last (splitOn (CHR ''/'') cred) = terminator"
    "AccessKeyID sr = splitOn (CHR ''/'') cred ! 0"
    "Regions sr = (if Scheme sr = SchemeV4 then [splitOn (CHR ''/'') cred ! 2] else splitRegionSet rs)"
    "sr_method sr = Method req"
    "sr_query sr = AList.delete ''X-Amz-Signature'' (parseQuery (url_query u))"
    "sr_headers sr = hs" "host sr = extractHost hs u"
    "scope sr = join ''/'' (drop 1 (splitOn (CHR ''/'') cred))"
proof -
  from assms obtain u hs f
    where u: "P (URL req) = Some u" and hs: "toHeader (Headers req) = Inr hs"
      and f: "authFields (parseQuery (url_query u)) hs = Inr f"
      and c: "parseCheck f = None" and sr: "sr = signedRequest req u hs f"
    by (auto simp: Parse_def split: option.splits sum.splits)
  obtain alg cred shdrs sig date rs payload pre exps
    where f_eq: "f = (alg, cred, shdrs, sig, date, rs, payload, pre, exps)"
    by (cases f) auto
  show ?thesis
    by (rule that[OF u hs, of alg cred shdrs date rs])
       (use f c in \<open>simp_all add: f_eq sr signedRequest_def parseCheck_def Let_def split: if_split_asm\<close>)
qed

lemma Parse_toHeader: "Parse P req = Inr sr \<Longrightarrow> toHeader (Headers req) = Inr (sr_headers sr)"
  by (erule Parse_InrD) simp

subsection \<open>Properties\<close>

text \<open>
  A request whose header names are case variants of one another is refused; otherwise
  every header is read back under any spelling of its name: the value a later reader sees is
  the one the signature covered.
\<close>

theorem toHeader_case_insensitive:
  assumes "\<forall>(k, v) \<in> set m. list_all is_token k" and "distinct m"
  shows "((\<exists>e. toHeader m = Inl e) \<longleftrightarrow>
            (\<exists>kv \<in> set m. \<exists>kv' \<in> set m. kv \<noteq> kv' \<and> equalFold (fst kv) (fst kv'))) \<and>
         (toHeader m = Inr h \<and> (k, v) \<in> set m \<and> equalFold k k' \<longrightarrow> headerGet h k' = v)"
proof (intro conjI impI)
  have "canonicalHeaderKey (fst kv) = canonicalHeaderKey (fst kv') \<longleftrightarrow> equalFold (fst kv) (fst kv')"
    if "kv \<in> set m" for kv kv'
    using that assms(1) by (intro canonicalHeaderKey_eq_iff) auto
  then have "inj_on (canonicalHeaderKey \<circ> fst) (set m) \<longleftrightarrow>
      \<not> (\<exists>kv \<in> set m. \<exists>kv' \<in> set m. kv \<noteq> kv' \<and> equalFold (fst kv) (fst kv'))"
    unfolding inj_on_def comp_apply by blast
  then show "(\<exists>e. toHeader m = Inl e) \<longleftrightarrow>
      (\<exists>kv \<in> set m. \<exists>kv' \<in> set m. kv \<noteq> kv' \<and> equalFold (fst kv) (fst kv'))"
    using assms(2) by (simp add: toHeader_error distinct_map)
next
  assume h: "toHeader m = Inr h \<and> (k, v) \<in> set m \<and> equalFold k k'"
  then have "list_all is_token k" using assms(1) by auto
  with h have "canonicalHeaderKey k' = canonicalHeaderKey k"
    using canonicalHeaderKey_eq_iff[of k k'] by auto
  with h toHeader_get[of m h k v] show "headerGet h k' = v" by (simp add: headerGet_def)
qed

theorem toHeader_case_insensitive_witness:
  "let m = [(''host'', ''a''), (''X-Amz-Date'', ''b'')]; h = [(''Host'', ''a''), (''X-Amz-Date'', ''b'')]
   in toHeader m = Inr h \<and> headerGet h ''HOST'' = ''a'' \<and> headerGet h ''x-amz-date'' = ''b''"
proof -
  let ?m = "[(''host'', ''a''), (''X-Amz-Date'', ''b'')]"
  let ?h = "[(''Host'', ''a''), (''X-Amz-Date'', ''b'')]"
  have m: "\<forall>(k, v) \<in> set ?m. list_all is_token k" "distinct ?m" by code_simp+
  have h: "toHeader ?m = Inr ?h" by code_simp
  have "equalFold ''host'' ''HOST''" "equalFold ''X-Amz-Date'' ''x-amz-date''" by code_simp+
  then show ?thesis
    using h toHeader_case_insensitive[OF m, of ?h "''host''" "''a''" "''HOST''"]
      toHeader_case_insensitive[OF m, of ?h "''X-Amz-Date''" "''b''" "''x-amz-date''"]
    by (simp add: Let_def)
qed

end
