(* ===== verification/Go_Time.thy ===== *)
theory Go_Time
  imports Go_Strings
begin

text \<open>
  Go's \<open>time\<close>: an instant is its number of nanoseconds since the Unix epoch, a duration a
  number of nanoseconds, both as \<open>int\<close>. \<open>time.Parse\<close> is translated for the one layout the
  signature code parses, \<open>20060102T150405Z\<close>.
\<close>

type_synonym instant = int
type_synonym duration = int

abbreviation second :: duration where "second \<equiv> 1000000000"
abbreviation minute :: duration where "minute \<equiv> 60 * second"
abbreviation hour :: duration where "hour \<equiv> 60 * minute"

subsection \<open>The calendar\<close>

definition isLeap :: "int \<Rightarrow> bool" where
  "isLeap y \<longleftrightarrow> y mod 4 = 0 \<and> (y mod 100 \<noteq> 0 \<or> y mod 400 = 0)"

definition daysIn :: "int \<Rightarrow> nat \<Rightarrow> int" where
  "daysIn y m = (if m = 2 then (if isLeap y then 29 else 28)
     else if m \<in> {4, 6, 9, 11} then 30 else 31)"

text \<open>Days from the first of January of year 0 to the first of January of year \<open>y\<close>.\<close>

definition daysToYear :: "int \<Rightarrow> int" where
  "daysToYear y = 365 * y + (y - 1) div 4 - (y - 1) div 100 + (y - 1) div 400 + 1"

definition unixDay :: "int \<Rightarrow> nat \<Rightarrow> int \<Rightarrow> int" where
  "unixDay y m d = daysToYear y + sum_list (map (daysIn y) [1..<m]) + (d - 1) - 719528"

lemma div_pred:
  fixes y k :: int
  assumes "k > 0"
  shows "y div k = (y - 1) div k + (if y mod k = 0 then 1 else 0)"
proof (cases "y mod k = 0")
  case True
  then obtain q where "y = k * q" by (metis mult_div_mod_eq add.right_neutral)
  moreover have "(k * q - 1) div k = q - 1"
    using assms by (intro int_div_pos_eq[where r = "k - 1"]) (auto simp: algebra_simps)
  ultimately show ?thesis using assms by simp
next
  case False
  have "(y - 1) div k = y div k"
  proof (intro int_div_pos_eq[where r = "y mod k - 1"])
    show "y - 1 = k * (y div k) + (y mod k - 1)" by simp
    show "0 \<le> y mod k - 1" "y mod k - 1 < k"
      using False pos_mod_sign[OF assms, of y] pos_mod_bound[OF assms, of y] by linarith+
  qed
  with False show ?thesis by simp
qed

lemma mod_multiple_zero: "b dvd c \<Longrightarrow> y mod c = 0 \<Longrightarrow> y mod b = (0 :: int)"
  by (metis mod_mod_cancel mod_0)

lemma leap_count:
  fixes y a b c a' b' c' :: int
  assumes "a = a' + (if p then 1 else 0)" "b = b' + (if q then 1 else 0)" "c = c' + (if r then 1 else 0)"
    and "r \<Longrightarrow> q" "q \<Longrightarrow> p"
  shows "365 * (y + 1) + a - b + c + 1 =
    365 * y + a' - b' + c' + 1 + (if p \<and> (\<not> q \<or> r) then 366 else 365)"
  using assms by (cases p; cases q; cases r) auto

lemma daysToYear_Suc: "daysToYear (y + 1) = daysToYear y + (if isLeap y then 366 else 365)"
  unfolding daysToYear_def isLeap_def add_diff_cancel_right'
  by (rule leap_count; (rule div_pred mod_multiple_zero; simp)?)

lemma unixDay_epoch [simp]: "unixDay 1970 1 1 = 0"
  by (simp add: unixDay_def daysToYear_def)

subsection \<open>time.Parse for the layout 20060102T150405Z\<close>

fun getnum2 :: "string \<Rightarrow> (int \<times> string) option" where
  "getnum2 (a # b # s) =
     (if is_digit a \<and> is_digit b then Some (int (digitsValue [a, b]), s) else None)"
| "getnum2 _ = None"

definition getYear :: "string \<Rightarrow> (int \<times> string) option" where
  "getYear s =
     (if length s \<ge> 4 \<and> list_all is_digit (take 4 s)
      then Some (int (digitsValue (take 4 s)), drop 4 s) else None)"

text \<open>
  A fraction may follow the seconds although the layout has none; digits past the ninth are
  dropped.
\<close>

definition getFraction :: "string \<Rightarrow> int \<times> string" where
  "getFraction s =
     (if length s \<ge> 2 \<and> (s ! 0 = CHR ''.'' \<or> s ! 0 = CHR '','') \<and> is_digit (s ! 1)
      then (let ds = takeWhile is_digit (drop 1 s); kept = take 9 ds
            in (int (digitsValue kept) * 10 ^ (9 - length kept), drop (1 + length ds) s))
      else (0, s))"

definition parseAmzDate :: "string \<Rightarrow> instant option" where
  "parseAmzDate s =
     (case getYear s of None \<Rightarrow> None | Some (y, s) \<Rightarrow>
     (case getnum2 s of None \<Rightarrow> None | Some (mon, s) \<Rightarrow>
     if mon < 1 \<or> mon > 12 then None else
     (case getnum2 s of None \<Rightarrow> None | Some (d, s) \<Rightarrow>
     (case s of [] \<Rightarrow> None | t # s \<Rightarrow>
     if t \<noteq> CHR ''T'' then None else
     (case getnum2 s of None \<Rightarrow> None | Some (hh, s) \<Rightarrow>
     if hh > 23 then None else
     (case getnum2 s of None \<Rightarrow> None | Some (mm, s) \<Rightarrow>
     if mm > 59 then None else
     (case getnum2 s of None \<Rightarrow> None | Some (ss, s) \<Rightarrow>
     if ss > 59 then None else
     (let (nsec, s) = getFraction s in
      if s \<noteq> ''Z'' then None
      else if d < 1 \<or> d > daysIn y (nat mon) then None
      else Some ((unixDay y (nat mon) d * 86400 + hh * 3600 + mm * 60 + ss) * second + nsec)))))))))"

lemma parseAmzDate_example: "parseAmzDate ''20130524T000000Z'' = Some (1369353600 * second)"
  by code_simp

subsection \<open>Days\<close>

text \<open>\<open>t.UTC().Truncate(24h)\<close>: the midnight at or before an instant (after the epoch).\<close>

definition dayStart :: "instant \<Rightarrow> instant" where
  "dayStart t = t - t mod (24 * hour)"

lemma dayStart_bounds: "dayStart t \<le> t" "t < dayStart t + 24 * hour"
  using pos_mod_bound[of "24 * hour" t] pos_mod_sign[of "24 * hour" t] by (simp_all add: dayStart_def)

end
