(* ===== verification/Sigv4_Sign.thy ===== *)
theory Sigv4_Sign
  imports Sigv4 Go_Time "HOL-Library.Multiset"
begin

text \<open>
  \<open>pkg/sigv4\<close>, continued: the canonical request and the string to sign (\<open>canonical.go\<close>),
  signing and verification (\<open>hmac.go\<close>, \<open>ecdsa.go\<close>, \<open>sigv4.go\<close>), and the time bounds.
\<close>

subsection \<open>Encodings\<close>

definition upperHex :: string where "upperHex = ''0123456789ABCDEF''"

definition lowerHex :: string where "lowerHex = ''0123456789abcdef''"

definition hexEncode :: "string \<Rightarrow> string" where
  "hexEncode bs = concat (map (\<lambda>c. [lowerHex ! (byte c div 16), lowerHex ! (byte c mod 16)]) bs)"

fun hexDecode :: "string \<Rightarrow> string option" where
  "hexDecode [] = Some []"
| "hexDecode [_] = None"
| "hexDecode (a # b # cs) =
     (case (hexValue a, hexValue b) of
        (Some x, Some y) \<Rightarrow> map_option (Cons (char_of (16 * x + y))) (hexDecode cs)
      | _ \<Rightarrow> None)"

definition unreserved :: "char \<Rightarrow> bool" where
  "unreserved c \<longleftrightarrow> is_upper c \<or> is_lower c \<or> is_digit c \<or> c \<in> {CHR ''-'', CHR ''_'', CHR ''.'', CHR ''~''}"

definition encodeChar :: "bool \<Rightarrow> char \<Rightarrow> string" where
  "encodeChar encodeSlash c =
     (if unreserved c then [c]
      else if c = CHR ''/'' \<and> \<not> encodeSlash then [c]
      else [CHR ''%'', upperHex ! (byte c div 16), upperHex ! (byte c mod 16)])"

definition awsURIEncode :: "string \<Rightarrow> bool \<Rightarrow> string" where
  "awsURIEncode s encodeSlash = concat (map (encodeChar encodeSlash) s)"

lemma hexValue_table:
  "list_all (\<lambda>n. hexValue (upperHex ! n) = Some n \<and> hexValue (lowerHex ! n) = Some n) [0..<16]"
  by code_simp

lemma hexValue_digit [simp]:
  "n < 16 \<Longrightarrow> hexValue (upperHex ! n) = Some n" "n < 16 \<Longrightarrow> hexValue (lowerHex ! n) = Some n"
  using hexValue_table by (simp_all add: list_all_iff)

lemma byte_div_mod [simp]: "byte c div 16 < 16" "char_of (16 * (byte c div 16) + byte c mod 16) = c"
proof -
  show "byte c div 16 < 16" using byte_less[of c] by (simp add: less_mult_imp_div_less)
  have "16 * (byte c div 16) + byte c mod 16 = byte c" by simp
  then show "char_of (16 * (byte c div 16) + byte c mod 16) = c" by (simp only: char_of_byte)
qed

lemma hexDecode_hexEncode [simp]: "hexDecode (hexEncode bs) = Some bs"
  by (induction bs) (simp_all add: hexEncode_def)

lemma unreserved_plain: "unreserved c \<Longrightarrow> c \<noteq> CHR ''%'' \<and> c \<noteq> CHR ''+''"
  by (auto simp: unreserved_def char_class)

lemma queryUnescape_encodeChar:
  "queryUnescape (encodeChar b c @ s) = map_option (Cons c) (queryUnescape s)"
  using unreserved_plain[of c] by (auto simp: encodeChar_def)

lemma queryUnescape_awsURIEncode: "queryUnescape (awsURIEncode s b) = Some s"
  by (induction s) (simp_all add: awsURIEncode_def queryUnescape_encodeChar)

lemma awsURIEncode_inject: "awsURIEncode s b = awsURIEncode t b \<longleftrightarrow> s = t"
  by (metis queryUnescape_awsURIEncode option.inject)

subsection \<open>The canonical request\<close>

definition trimHeaderValue :: "string \<Rightarrow> string" where
  "trimHeaderValue v = join '' '' (strFields v)"

definition queryPairs :: "string \<times> string list \<Rightarrow> string list" where
  "queryPairs kv = map (\<lambda>v. awsURIEncode (fst kv) True @ ''='' @ awsURIEncode v True) (snd kv)"

definition canonicalQueryString :: "signed_request \<Rightarrow> string" where
  "canonicalQueryString sr = join ''&'' (sort (concat (map queryPairs (sr_query sr))))"

definition headerLine :: "signed_request \<Rightarrow> string \<Rightarrow> string" where
  "headerLine sr name =
     (let v = (if name = ''host'' then host sr else headerGet (sr_headers sr) name)
      in name @ '':'' @ trimHeaderValue v @ ''\<newline>'')"

definition canonicalHeaders :: "signed_request \<Rightarrow> string" where
  "canonicalHeaders sr = concat (map (headerLine sr) (signedHeaders sr))"

definition canonicalRequest :: "signed_request \<Rightarrow> string" where
  "canonicalRequest sr =
     sr_method sr @ ''\<newline>'' @ canonicalURI sr @ ''\<newline>'' @ canonicalQueryString sr @ ''\<newline>'' @
     canonicalHeaders sr @ ''\<newline>'' @ join '';'' (signedHeaders sr) @ ''\<newline>'' @ payloadHash sr"

subsection \<open>Primitives\<close>

text \<open>
  The primitives of Go's \<open>crypto\<close> packages. Keys are represented by byte strings: a private
  key and a public key by some encoding of theirs. \<open>ecdsa.SignASN1\<close> draws from the system's
  randomness; the entropy it draws is an argument. The order of P-256 is the standard's.
\<close>

record crypto =
  SHA256 :: "string \<Rightarrow> string"
  HMAC :: "string \<Rightarrow> string \<Rightarrow> string"
  ParseRawPrivateKey :: "nat \<Rightarrow> string option"
  PublicKey :: "string \<Rightarrow> string"
  PublicBytes :: "string \<Rightarrow> string option"
  UnmarshalCompressed :: "string \<Rightarrow> (nat \<times> nat) option"
  ParseUncompressed :: "string \<Rightarrow> string option"
  SignASN1 :: "string \<Rightarrow> string \<Rightarrow> string \<Rightarrow> string option"
  VerifyASN1 :: "string \<Rightarrow> string \<Rightarrow> string \<Rightarrow> bool"

definition P256_N :: nat where
  "P256_N = 0xFFFFFFFF00000000FFFFFFFFFFFFFFFFBCE6FAADA7179E84F3B9CAC2FC632551"

definition stringToSign :: "crypto \<Rightarrow> signed_request \<Rightarrow> string" where
  "stringToSign C sr =
     schemeString (Scheme sr) @ ''\<newline>'' @ amzDate sr @ ''\<newline>'' @ scope sr @ ''\<newline>'' @
     hexEncode (SHA256 C (canonicalRequest sr))"

subsection \<open>The credential scope\<close>

definition scopeParts :: "signed_request \<Rightarrow> string list" where
  "scopeParts sr = splitOn (CHR ''/'') (scope sr)"

definition scopeService :: "signed_request \<Rightarrow> string" where
  "scopeService sr =
     (let parts = scopeParts sr in if length parts < 2 then [] else parts ! (length parts - 2))"

definition scopeDate :: "signed_request \<Rightarrow> string" where
  "scopeDate sr = (let parts = scopeParts sr in if length parts = 0 then [] else parts ! 0)"

definition scopeRegion :: "signed_request \<Rightarrow> string" where
  "scopeRegion sr = (let parts = scopeParts sr in if length parts \<noteq> 4 then [] else parts ! 1)"

subsection \<open>SigV4\<close>

definition deriveSigningKeyV4 :: "crypto \<Rightarrow> string \<Rightarrow> string \<Rightarrow> string \<Rightarrow> string \<Rightarrow> string" where
  "deriveSigningKeyV4 C secret date region service =
     (let kDate = HMAC C (''AWS4'' @ secret) date;
          kRegion = HMAC C kDate region;
          kService = HMAC C kRegion service
      in HMAC C kService terminator)"

definition signV4WithKey :: "crypto \<Rightarrow> signed_request \<Rightarrow> string \<Rightarrow> string" where
  "signV4WithKey C sr key = hexEncode (HMAC C key (stringToSign C sr))"

definition signV4 :: "crypto \<Rightarrow> signed_request \<Rightarrow> string \<Rightarrow> string" where
  "signV4 C sr secret =
     signV4WithKey C sr
       (deriveSigningKeyV4 C secret (scopeDate sr) (scopeRegion sr) (scopeService sr))"

definition verifyV4WithKey :: "crypto \<Rightarrow> signed_request \<Rightarrow> string \<Rightarrow> err + unit" where
  "verifyV4WithKey C sr key =
     (if signV4WithKey C sr key \<noteq> signature sr then Inl (Internal ''signature mismatch'') else Inr ())"

definition verifyV4 :: "crypto \<Rightarrow> signed_request \<Rightarrow> string \<Rightarrow> err + unit" where
  "verifyV4 C sr secret =
     verifyV4WithKey C sr
       (deriveSigningKeyV4 C secret (scopeDate sr) (scopeRegion sr) (scopeService sr))"

subsection \<open>SigV4a\<close>

definition beNat :: "string \<Rightarrow> nat" where
  "beNat bs = foldl (\<lambda>n c. 256 * n + byte c) 0 bs"

fun beBytes :: "nat \<Rightarrow> nat \<Rightarrow> string" where
  "beBytes 0 n = []"
| "beBytes (Suc k) n = beBytes k (n div 256) @ [char_of (n mod 256)]"

definition kdfInput :: "string \<Rightarrow> nat \<Rightarrow> string" where
  "kdfInput accessKeyID counter =
     map char_of [0, 0, 0, 1 :: nat] @ ''AWS4-ECDSA-P256-SHA256'' @ [char_of (0 :: nat)] @ accessKeyID @
     [char_of (counter mod 256)] @ map char_of [0, 0, 1, 0 :: nat]"

text \<open>The loop over the counters, 1 to \<open>0xFE\<close>.\<close>

definition counters :: "nat list" where "counters = [1..<255]"

fun deriveScalarLoop :: "crypto \<Rightarrow> string \<Rightarrow> string \<Rightarrow> nat list \<Rightarrow> nat option" where
  "deriveScalarLoop C accessKeyID secret [] = None"
| "deriveScalarLoop C accessKeyID secret (counter # cs) =
     (let c = beNat (HMAC C (''AWS4A'' @ secret) (kdfInput accessKeyID counter)) in
      if c \<le> P256_N - 2 then Some (c + 1)
      else deriveScalarLoop C accessKeyID secret cs)"

definition deriveKeyV4a :: "crypto \<Rightarrow> string \<Rightarrow> string \<Rightarrow> err + string" where
  "deriveKeyV4a C accessKeyID secret =
     (case deriveScalarLoop C accessKeyID secret counters of
        None \<Rightarrow> Inl (Internal ''sigv4a: exhausted key-derivation counter'')
      | Some d \<Rightarrow>
          (case ParseRawPrivateKey C d of
             None \<Rightarrow> Inl (Internal ''sigv4a: invalid derived scalar'')
           | Some priv \<Rightarrow> Inr priv))"

definition signV4a :: "crypto \<Rightarrow> string \<Rightarrow> signed_request \<Rightarrow> string \<Rightarrow> err + string" where
  "signV4a C entropy sr secret =
     (case deriveKeyV4a C (AccessKeyID sr) secret of
        Inl e \<Rightarrow> Inl e
      | Inr priv \<Rightarrow>
          (case SignASN1 C entropy priv (SHA256 C (stringToSign C sr)) of
             None \<Rightarrow> Inl (Internal ''signing'')
           | Some der \<Rightarrow> Inr (hexEncode der)))"

definition verifyV4aWithPublicKey :: "crypto \<Rightarrow> signed_request \<Rightarrow> string \<Rightarrow> err + unit" where
  "verifyV4aWithPublicKey C sr pub =
     (case hexDecode (signature sr) of
        None \<Rightarrow> Inl (Internal ''decoding signature'')
      | Some der \<Rightarrow>
          if \<not> VerifyASN1 C pub (SHA256 C (stringToSign C sr)) der
          then Inl (Internal ''signature mismatch'') else Inr ())"

definition verifyV4a :: "crypto \<Rightarrow> signed_request \<Rightarrow> string \<Rightarrow> err + unit" where
  "verifyV4a C sr secret =
     (case deriveKeyV4a C (AccessKeyID sr) secret of
        Inl e \<Rightarrow> Inl e
      | Inr priv \<Rightarrow> verifyV4aWithPublicKey C sr (PublicKey C priv))"

definition parseCompressedP256 :: "crypto \<Rightarrow> string \<Rightarrow> err + string" where
  "parseCompressedP256 C key =
     (case UnmarshalCompressed C key of
        None \<Rightarrow> Inl (Internal ''sigv4a: invalid compressed public key'')
      | Some (x, y) \<Rightarrow>
          (case ParseUncompressed C (char_of (4 :: nat) # beBytes 32 x @ beBytes 32 y) of
             None \<Rightarrow> Inl (Internal ''parsing public key'')
           | Some pub \<Rightarrow> Inr pub))"

definition verifyV4aWithKey :: "crypto \<Rightarrow> signed_request \<Rightarrow> string \<Rightarrow> err + unit" where
  "verifyV4aWithKey C sr key =
     (case parseCompressedP256 C key of
        Inl e \<Rightarrow> Inl e
      | Inr pub \<Rightarrow> verifyV4aWithPublicKey C sr pub)"

definition derivedPublicKeyV4a :: "crypto \<Rightarrow> string \<Rightarrow> string \<Rightarrow> err + string" where
  "derivedPublicKeyV4a C accessKeyID secret =
     (case deriveKeyV4a C accessKeyID secret of
        Inl e \<Rightarrow> Inl e
      | Inr priv \<Rightarrow>
          (case PublicBytes C (PublicKey C priv) of
             None \<Rightarrow> Inl (Internal ''sigv4a: marshaling public key'')
           | Some u \<Rightarrow> Inr (char_of (2 + byte (u ! 64) mod 2) # take 32 (drop 1 u))))"

subsection \<open>Verify\<close>

definition Verify :: "crypto \<Rightarrow> signed_request \<Rightarrow> string \<Rightarrow> err + unit" where
  "Verify C sr secret =
     (case Scheme sr of
        SchemeV4 \<Rightarrow> verifyV4 C sr secret
      | SchemeV4a \<Rightarrow> verifyV4a C sr secret
      | OtherScheme _ \<Rightarrow> Inl (Internal ''unsupported signature algorithm''))"

definition VerifyWithKey :: "crypto \<Rightarrow> signed_request \<Rightarrow> string \<Rightarrow> err + unit" where
  "VerifyWithKey C sr key =
     (case Scheme sr of
        SchemeV4 \<Rightarrow> verifyV4WithKey C sr key
      | SchemeV4a \<Rightarrow> verifyV4aWithKey C sr key
      | OtherScheme _ \<Rightarrow> Inl (Internal ''unsupported signature algorithm''))"

definition DeriveKey :: "crypto \<Rightarrow> signed_request \<Rightarrow> string \<Rightarrow> err + string" where
  "DeriveKey C sr secret =
     (case Scheme sr of
        SchemeV4 \<Rightarrow>
          Inr (deriveSigningKeyV4 C secret (scopeDate sr) (scopeRegion sr) (scopeService sr))
      | SchemeV4a \<Rightarrow> derivedPublicKeyV4a C (AccessKeyID sr) secret
      | OtherScheme _ \<Rightarrow> Inl (Internal ''unsupported signature algorithm''))"

subsection \<open>Time bounds\<close>

text \<open>
  \<open>Sub\<close> saturates at the ends of a 64-bit duration, far above the tolerance it is compared
  with, so the difference is exact here.
\<close>

definition maxPresignExpiry :: int where "maxPresignExpiry = 7 * 24 * 60 * 60"

definition MaxClockSkew :: duration where "MaxClockSkew = 15 * minute"

definition ValidateTimeBounds :: "signed_request \<Rightarrow> instant \<Rightarrow> err + unit" where
  "ValidateTimeBounds sr now =
     (case parseAmzDate (amzDate sr) of
        None \<Rightarrow> Inl (Internal ''parsing X-Amz-Date'')
      | Some signedAt \<Rightarrow>
          if \<not> presigned sr then
            (if \<bar>now - signedAt\<bar> > MaxClockSkew
             then Inl (Internal ''request time is outside the allowed clock skew'') else Inr ())
          else if expires sr \<le> 0 \<or> expires sr > maxPresignExpiry
          then Inl (Internal ''invalid X-Amz-Expires'')
          else (let expiresAt = signedAt + expires sr * second in
                if now < signedAt then Inl (Internal ''presigned URL not yet valid'')
                else if now > expiresAt then Inl (Internal ''presigned URL expired'')
                else Inr ()))"

subsection \<open>Lemmas\<close>

lemma canonicalQueryString_cong:
  assumes "mset (sr_query sr) = mset (sr_query sr')"
  shows "canonicalQueryString sr = canonicalQueryString sr'"
proof -
  have "mset (concat (map queryPairs q)) = sum_mset (image_mset (mset \<circ> queryPairs) (mset q))" for q
    by (induction q) auto
  with assms have "mset (concat (map queryPairs (sr_query sr))) = mset (concat (map queryPairs (sr_query sr')))"
    by simp
  then show ?thesis
    unfolding canonicalQueryString_def by (metis sorted_list_of_multiset_mset)
qed

lemma scopeParts_Parse:
  assumes "Parse P req = Inr sr"
  obtains parts where "scopeParts sr = drop 1 parts" "last parts = terminator"
    "length parts = (if Scheme sr = SchemeV4a then 4 else 5)" "AccessKeyID sr = parts ! 0"
    "Scheme sr = SchemeV4 \<Longrightarrow> Regions sr = [parts ! 2]"
proof (rule Parse_InrD[OF assms])
  fix u hs alg cred shdrs date rs
  assume "length (splitOn (CHR ''/'') cred) = (if Scheme sr = SchemeV4a then 4 else 5)"
    and "last (splitOn (CHR ''/'') cred) = terminator"
    and "AccessKeyID sr = splitOn (CHR ''/'') cred ! 0"
    and "Regions sr = (if Scheme sr = SchemeV4 then [splitOn (CHR ''/'') cred ! 2] else splitRegionSet rs)"
    and "scope sr = join ''/'' (drop 1 (splitOn (CHR ''/'') cred))"
  then show thesis
    by (intro that[of "splitOn (CHR ''/'') cred"])
       (auto simp: scopeParts_def splitOn_join_drop split: if_splits)
qed

lemma scope_Parse:
  assumes "Parse P req = Inr sr"
  shows "Scheme sr = SchemeV4 \<Longrightarrow> Regions sr = [scopeRegion sr]"
    and "Scheme sr = SchemeV4a \<Longrightarrow> scopeRegion sr = []"
    and "last (scopeParts sr) = terminator"
    and "length (scopeParts sr) = (if Scheme sr = SchemeV4a then 3 else 4)"
proof -
  obtain parts where p: "scopeParts sr = drop 1 parts" "last parts = terminator"
    "length parts = (if Scheme sr = SchemeV4a then 4 else 5)"
    and r: "Scheme sr = SchemeV4 \<Longrightarrow> Regions sr = [parts ! 2]"
    by (rule scopeParts_Parse[OF assms]) blast
  show len: "length (scopeParts sr) = (if Scheme sr = SchemeV4a then 3 else 4)"
    using p(1,3) by simp
  show "last (scopeParts sr) = terminator"
    using p by (simp add: last_drop)
  show "Scheme sr = SchemeV4a \<Longrightarrow> scopeRegion sr = []"
    using len by (simp add: scopeRegion_def)
  have "drop 1 parts ! 1 = parts ! 2" if "length parts = 5"
    using that by (simp add: numeral_2_eq_2)
  then show "Scheme sr = SchemeV4 \<Longrightarrow> Regions sr = [scopeRegion sr]"
    using len p r by (simp add: scopeRegion_def)
qed

lemma Scheme_Parse: "Parse P req = Inr sr \<Longrightarrow> Scheme sr = SchemeV4 \<or> Scheme sr = SchemeV4a"
  by (erule Parse_InrD)

text \<open>The counters in order: the first whose candidate is small enough gives the scalar.\<close>

lemma deriveScalarLoop_Some:
  "deriveScalarLoop C ak secret cs = Some d \<Longrightarrow>
     \<exists>pre c post. cs = pre @ c # post \<and>
       d = beNat (HMAC C (''AWS4A'' @ secret) (kdfInput ak c)) + 1 \<and>
       beNat (HMAC C (''AWS4A'' @ secret) (kdfInput ak c)) \<le> P256_N - 2 \<and>
       (\<forall>c' \<in> set pre. beNat (HMAC C (''AWS4A'' @ secret) (kdfInput ak c')) > P256_N - 2)"
proof (induction cs)
  case (Cons c cs)
  show ?case
  proof (cases "beNat (HMAC C (''AWS4A'' @ secret) (kdfInput ak c)) \<le> P256_N - 2")
    case True
    with Cons.prems show ?thesis by (intro exI[of _ "[]"]) (auto simp: Let_def)
  next
    case False
    with Cons.prems have "deriveScalarLoop C ak secret cs = Some d" by (simp add: Let_def)
    with Cons.IH obtain pre c' post where "cs = pre @ c' # post"
        "d = beNat (HMAC C (''AWS4A'' @ secret) (kdfInput ak c')) + 1"
        "beNat (HMAC C (''AWS4A'' @ secret) (kdfInput ak c')) \<le> P256_N - 2"
        "\<forall>c'' \<in> set pre. beNat (HMAC C (''AWS4A'' @ secret) (kdfInput ak c'')) > P256_N - 2"
      by blast
    with False show ?thesis by (intro exI[of _ "c # pre"] exI[of _ c'] exI[of _ post]) auto
  qed
qed simp

lemma upt_split:
  assumes "[m..<n] = pre @ c # post"
  shows "pre = [m..<c]" "m \<le> c" "c < n"
proof -
  have len: "length pre < length [m..<n]" by (simp add: assms)
  then have c: "c = m + length pre"
    using assms nth_append_length[of pre c post] by (metis nth_upt length_upt less_diff_conv add.commute)
  have "take (length pre) [m..<n] = pre" by (simp add: assms)
  then show "pre = [m..<c]" using len c by (simp add: take_upt)
  show "m \<le> c" "c < n" using len c by auto
qed

lemma set_counters: "set counters = {n. 1 \<le> n \<and> n \<le> 254}"
  unfolding counters_def by (simp only: set_upt) auto

lemma counters_Cons: "counters = 1 # [2..<255]"
  unfolding counters_def by (subst upt_conv_Cons) (simp_all del: upt_rec_numeral add: numeral_2_eq_2)

lemma deriveScalarLoop_None:
  "deriveScalarLoop C ak secret cs = None \<longleftrightarrow>
     (\<forall>c \<in> set cs. beNat (HMAC C (''AWS4A'' @ secret) (kdfInput ak c)) > P256_N - 2)"
  by (induction cs) (auto simp: Let_def)

lemma beNat_append: "beNat (xs @ [c]) = 256 * beNat xs + byte c"
  by (simp add: beNat_def)

lemma beBytes_beNat: "length xs = k \<Longrightarrow> beBytes k (beNat xs) = xs"
proof (induction k arbitrary: xs)
  case (Suc k)
  then obtain ys c where xs: "xs = ys @ [c]" by (metis length_Suc_conv_rev)
  with Suc show ?case by (simp add: beNat_append)
qed simp

text \<open>
  The documented behaviour of the SEC1 encodings of Go's \<open>crypto/ecdsa\<close> and
  \<open>crypto/elliptic\<close>: the uncompressed form has 65 bytes, the tag 4 and the two coordinates; it
  parses back to the key; decompressing the compressed form gives the coordinates.
\<close>

definition compressed :: "string \<Rightarrow> string" where
  "compressed u = char_of (2 + byte (u ! 64) mod 2) # take 32 (drop 1 u)"

definition sec1_laws :: "crypto \<Rightarrow> bool" where
  "sec1_laws C \<longleftrightarrow> (\<forall>priv u. PublicBytes C (PublicKey C priv) = Some u \<longrightarrow>
     length u = 65 \<and> u ! 0 = char_of (4 :: nat) \<and>
     ParseUncompressed C u = Some (PublicKey C priv) \<and>
     UnmarshalCompressed C (compressed u) =
       Some (beNat (take 32 (drop 1 u)), beNat (drop 33 u)))"

lemma parseCompressedP256_compressed:
  assumes "sec1_laws C" and "PublicBytes C (PublicKey C priv) = Some u"
  shows "parseCompressedP256 C (compressed u) = Inr (PublicKey C priv)"
proof -
  from assms have u: "length u = 65" "u ! 0 = char_of (4 :: nat)"
    "ParseUncompressed C u = Some (PublicKey C priv)"
    "UnmarshalCompressed C (compressed u) = Some (beNat (take 32 (drop 1 u)), beNat (drop 33 u))"
    by (auto simp: sec1_laws_def)
  have "u = u ! 0 # drop 1 u" using u(1) by (cases u) auto
  moreover have "drop 1 u = take 32 (drop 1 u) @ drop 33 u"
    by (metis append_take_drop_id drop_drop numeral_plus_one semiring_norm(2,3,5))
  ultimately have "char_of (4 :: nat) # take 32 (drop 1 u) @ drop 33 u = u" using u(2) by metis
  moreover have "beBytes 32 (beNat (take 32 (drop 1 u))) = take 32 (drop 1 u)"
    "beBytes 32 (beNat (drop 33 u)) = drop 33 u"
    using u(1) by (simp_all add: beBytes_beNat)
  ultimately show ?thesis
    using u(3,4) by (simp add: parseCompressedP256_def)
qed

lemma DeriveKey_V4a:
  assumes "derivedPublicKeyV4a C ak secret = Inr key"
  obtains priv u where "deriveKeyV4a C ak secret = Inr priv"
    "PublicBytes C (PublicKey C priv) = Some u" "key = compressed u"
  using assms by (auto simp: derivedPublicKeyV4a_def compressed_def split: sum.splits option.splits)

subsection \<open>A sample request\<close>

definition sample_crypto :: crypto where
  "sample_crypto = \<lparr>SHA256 = (\<lambda>s. take 4 s), HMAC = (\<lambda>k m. take 4 (k @ m)),
     ParseRawPrivateKey = (\<lambda>n. Some ''priv''), PublicKey = (\<lambda>_. ''pub''),
     PublicBytes = (\<lambda>_. Some (char_of (4 :: nat) # replicate 64 (char_of (0 :: nat)))),
     UnmarshalCompressed = (\<lambda>_. Some (0, 0)), ParseUncompressed = (\<lambda>_. Some ''pub''),
     SignASN1 = (\<lambda>r k m. Some m), VerifyASN1 = (\<lambda>k m sig. m = sig)\<rparr>"

definition sample_url :: url where
  "sample_url = \<lparr>url_scheme = ''http'', url_host = ''s3.example'', url_path = ''/photos'',
     url_query = ''X-Amz-Signature=aa&b=2''\<rparr>"

definition sample_request :: request where
  "sample_request = \<lparr>Method = ''GET'', Headers = [
       (''Host'', ''s3.example''), (''X-Amz-Date'', ''20130524T000000Z''),
       (''X-Amz-Content-Sha256'', ''UNSIGNED-PAYLOAD''),
       (''Authorization'', ''AWS4-HMAC-SHA256 Credential=k/20130524/eu/s3/aws4_request, SignedHeaders=host;x-amz-date, Signature=bb'')],
     URL = ''http://s3.example/photos''\<rparr>"

definition sample_signed :: signed_request where
  "sample_signed = \<lparr>Scheme = SchemeV4, AccessKeyID = ''k'', Regions = [''eu''],
     sr_method = ''GET'', canonicalURI = ''/photos'', sr_query = [(''b'', [''2''])],
     sr_headers = [(''Host'', ''s3.example''), (''X-Amz-Date'', ''20130524T000000Z''),
       (''X-Amz-Content-Sha256'', ''UNSIGNED-PAYLOAD''),
       (''Authorization'', ''AWS4-HMAC-SHA256 Credential=k/20130524/eu/s3/aws4_request, SignedHeaders=host;x-amz-date, Signature=bb'')],
     host = ''s3.example'', signedHeaders = [''host'', ''x-amz-date''],
     payloadHash = ''UNSIGNED-PAYLOAD'', amzDate = ''20130524T000000Z'',
     scope = ''20130524/eu/s3/aws4_request'', signature = ''bb'', presigned = False, expires = 0\<rparr>"

lemma sample_Parse: "Parse (\<lambda>_. Some sample_url) sample_request = Inr sample_signed"
  by code_simp

lemma beNat_zeros [simp]: "beNat (replicate n (char_of (0 :: nat))) = 0"
  by (induction n) (simp_all add: beNat_def byte_def)

lemma sample_sec1: "sec1_laws sample_crypto"
  by (simp add: sec1_laws_def sample_crypto_def compressed_def)

subsection \<open>Properties\<close>

text \<open>
  What a parsed request promises the verifier: its scheme is one of the two; a
  header-authenticated request signs its host, and under SigV4a its region set; the signed
  header list is sorted; the signature parameter is out of the signed query; the scope ends in
  the terminator, and under SigV4 the region the request claims is the region of the scope its
  key is derived from.
\<close>

theorem Parse_covers:
  assumes "Parse P req = Inr sr"
  shows "Scheme sr \<in> {SchemeV4, SchemeV4a} \<and>
     (\<not> presigned sr \<longrightarrow> HeaderSigned sr ''Host'') \<and>
     (\<not> presigned sr \<and> Scheme sr = SchemeV4a \<longrightarrow> HeaderSigned sr ''X-Amz-Region-Set'') \<and>
     sorted (signedHeaders sr) \<and> \<not> queryHas (sr_query sr) ''X-Amz-Signature'' \<and>
     last (scopeParts sr) = terminator \<and>
     (Scheme sr = SchemeV4 \<longrightarrow> Regions sr = [scopeRegion sr])"
proof -
  have low: "toLower ''Host'' = ''host''" "toLower ''X-Amz-Region-Set'' = ''x-amz-region-set''"
    by code_simp+
  show ?thesis
    using scope_Parse[OF assms]
    by (rule_tac Parse_InrD[OF assms]) (auto simp: HeaderSigned_def low queryHas_def)
qed

theorem Parse_covers_witness:
  "Parse (\<lambda>_. Some sample_url) sample_request = Inr sample_signed \<and>
   HeaderSigned sample_signed ''Host'' \<and> Regions sample_signed = [scopeRegion sample_signed]"
proof -
  have "\<not> presigned sample_signed" "Scheme sample_signed = SchemeV4"
    by (simp_all add: sample_signed_def)
  with Parse_covers[OF sample_Parse] sample_Parse show ?thesis by blast
qed

text \<open>
  The percent-encoding of the canonical request loses nothing: decoding gives back the
  encoded bytes, whether or not slashes are encoded, so two different strings never have one
  encoding; and what it writes is unreserved characters, percent signs, and slashes only when
  they are left literal.
\<close>

theorem awsURIEncode_roundtrip:
  "queryUnescape (awsURIEncode s b) = Some s \<and>
   (awsURIEncode s b = awsURIEncode t b \<longleftrightarrow> s = t) \<and>
   set (awsURIEncode s b) \<subseteq> {c. unreserved c \<or> c = CHR ''%'' \<or> (c = CHR ''/'' \<and> \<not> b)}"
proof (intro conjI)
  have table: "list_all (\<lambda>n. unreserved (upperHex ! n)) [0..<16]" by code_simp
  then have "n < 16 \<Longrightarrow> unreserved (upperHex ! n)" for n by (simp add: list_all_iff)
  then show "set (awsURIEncode s b) \<subseteq> {c. unreserved c \<or> c = CHR ''%'' \<or> (c = CHR ''/'' \<and> \<not> b)}"
    by (auto simp: awsURIEncode_def encodeChar_def split: if_splits)
qed (simp_all add: queryUnescape_awsURIEncode awsURIEncode_inject)

text \<open>
  What is signed does not depend on the order a Go map is ranged over: permuting the query
  parameters or the headers leaves the string to sign unchanged.
\<close>

theorem stringToSign_order:
  assumes "mset q = mset (sr_query sr)" and "mset h = mset (sr_headers sr)" and "wf_gomap h"
  shows "stringToSign C (sr\<lparr>sr_query := q, sr_headers := h\<rparr>) = stringToSign C sr"
proof -
  have q: "canonicalQueryString (sr\<lparr>sr_query := q, sr_headers := h\<rparr>) = canonicalQueryString sr"
    using assms(1) by (intro canonicalQueryString_cong) simp
  have "mset (map fst h) = mset (map fst (sr_headers sr))"
    using assms(2) by simp
  with assms(3) have "wf_gomap (sr_headers sr)"
    unfolding wf_gomap_def by (metis mset_eq_imp_distinct_iff)
  with assms(3) mset_eq_setD[OF assms(2)] have "map_of h k = Some v \<longleftrightarrow> map_of (sr_headers sr) k = Some v" for k v
    by (metis gomap_in_iff)
  then have "map_of h = map_of (sr_headers sr)" by (metis option.exhaust ext)
  then have "headerGet h = headerGet (sr_headers sr)" by (simp add: headerGet_def fun_eq_iff)
  then have "headerLine (sr\<lparr>sr_query := q, sr_headers := h\<rparr>) = headerLine sr"
    by (simp add: headerLine_def fun_eq_iff Let_def)
  then have "canonicalHeaders (sr\<lparr>sr_query := q, sr_headers := h\<rparr>) = canonicalHeaders sr"
    by (simp add: canonicalHeaders_def)
  with q show ?thesis by (simp add: stringToSign_def canonicalRequest_def)
qed

theorem stringToSign_order_witness:
  "stringToSign sample_crypto (sample_signed\<lparr>sr_query := [(''b'', [''2''])],
     sr_headers := rev (sr_headers sample_signed)\<rparr>) = stringToSign sample_crypto sample_signed"
  by (rule stringToSign_order) (simp_all add: sample_signed_def wf_gomap_def)

text \<open>
  C35. A derived key verifies exactly what the secret verifies: for a later request of the same
  scheme under the same credential scope (and, for SigV4a, the same access key), checking the
  signature with the key \<open>DeriveKey\<close> returned gives the result that checking it with the
  secret gives, so the key can be handed out instead of the secret.
\<close>

theorem derived_key_verifies:
  assumes "sec1_laws C" and "DeriveKey C sr secret = Inr key"
    and "Scheme sr' = Scheme sr" and "scope sr' = scope sr" and "AccessKeyID sr' = AccessKeyID sr"
  shows "VerifyWithKey C sr' key = Verify C sr' secret"
proof (cases "Scheme sr")
  case SchemeV4
  with assms show ?thesis
    by (auto simp: DeriveKey_def VerifyWithKey_def Verify_def verifyV4_def scopeDate_def
        scopeRegion_def scopeService_def scopeParts_def)
next
  case SchemeV4a
  with assms(2) obtain priv u where "deriveKeyV4a C (AccessKeyID sr) secret = Inr priv"
    "PublicBytes C (PublicKey C priv) = Some u" "key = compressed u"
    by (auto simp: DeriveKey_def elim: DeriveKey_V4a)
  with SchemeV4a assms show ?thesis
    by (simp add: VerifyWithKey_def Verify_def verifyV4a_def verifyV4aWithKey_def
        parseCompressedP256_compressed)
next
  case (OtherScheme x)
  with assms(2) show ?thesis by (simp add: DeriveKey_def)
qed

theorem derived_key_verifies_witness:
  "DeriveKey sample_crypto sample_signed ''secret'' = Inr ''AWS4'' \<and>
   VerifyWithKey sample_crypto sample_signed ''AWS4'' = Verify sample_crypto sample_signed ''secret''"
proof -
  have "DeriveKey sample_crypto sample_signed ''secret'' = Inr ''AWS4''" by code_simp
  with derived_key_verifies[OF sample_sec1, of sample_signed "''secret''" "''AWS4''" sample_signed]
  show ?thesis by simp
qed

text \<open>
  The SigV4a key derivation returns the first acceptable candidate of the counters 1 to
  254, and its scalar lies in the range \<open>1 .. N - 1\<close> of P-256; it fails to find a scalar only
  when every one of the 254 candidates is too large.
\<close>

theorem deriveScalar_range:
  "(\<forall>d. deriveScalarLoop C ak secret counters = Some d \<longrightarrow>
      1 \<le> d \<and> d \<le> P256_N - 1 \<and>
      (\<exists>n. 1 \<le> n \<and> n \<le> 254 \<and> d = beNat (HMAC C (''AWS4A'' @ secret) (kdfInput ak n)) + 1 \<and>
           (\<forall>m. 1 \<le> m \<and> m < n \<longrightarrow> beNat (HMAC C (''AWS4A'' @ secret) (kdfInput ak m)) > P256_N - 2))) \<and>
   (deriveScalarLoop C ak secret counters = None \<longleftrightarrow>
      (\<forall>n. 1 \<le> n \<and> n \<le> 254 \<longrightarrow> beNat (HMAC C (''AWS4A'' @ secret) (kdfInput ak n)) > P256_N - 2))"
proof (intro conjI allI impI)
  fix d
  assume "deriveScalarLoop C ak secret counters = Some d"
  then obtain pre c post where cs: "counters = pre @ c # post"
    and d: "d = beNat (HMAC C (''AWS4A'' @ secret) (kdfInput ak c)) + 1"
      "beNat (HMAC C (''AWS4A'' @ secret) (kdfInput ak c)) \<le> P256_N - 2"
    and pre: "\<forall>c' \<in> set pre. beNat (HMAC C (''AWS4A'' @ secret) (kdfInput ak c')) > P256_N - 2"
    by (blast dest: deriveScalarLoop_Some)
  have "(2::nat) \<le> P256_N" by (simp add: P256_N_def)
  with d show "1 \<le> d" "d \<le> P256_N - 1" by auto
  from cs have "pre = [1..<c]" "1 \<le> c" "c < 255"
    unfolding counters_def by (rule upt_split)+
  with d pre show "\<exists>n. 1 \<le> n \<and> n \<le> 254 \<and> d = beNat (HMAC C (''AWS4A'' @ secret) (kdfInput ak n)) + 1 \<and>
           (\<forall>m. 1 \<le> m \<and> m < n \<longrightarrow> beNat (HMAC C (''AWS4A'' @ secret) (kdfInput ak m)) > P256_N - 2)"
    by (intro exI[of _ c]) auto
next
  show "deriveScalarLoop C ak secret counters = None \<longleftrightarrow>
      (\<forall>n. 1 \<le> n \<and> n \<le> 254 \<longrightarrow> beNat (HMAC C (''AWS4A'' @ secret) (kdfInput ak n)) > P256_N - 2)"
    unfolding deriveScalarLoop_None set_counters by auto
qed

theorem deriveScalar_range_witness:
  "deriveScalarLoop sample_crypto ''k'' ''secret'' counters = Some (beNat ''AWS4'' + 1) \<and>
   1 \<le> beNat ''AWS4'' + 1 \<and> beNat ''AWS4'' + 1 \<le> P256_N - 1"
proof -
  have d: "deriveScalarLoop sample_crypto ''k'' ''secret'' counters = Some (beNat ''AWS4'' + 1)"
    unfolding counters_Cons deriveScalarLoop.simps
    by (simp add: sample_crypto_def P256_N_def beNat_def byte_def)
  with deriveScalar_range[of sample_crypto "''k''" "''secret''"] show ?thesis by blast
qed

text \<open>
  C36. The time bounds limit replay: the window in which one request can be accepted is 30
  minutes for a header-authenticated request and seven days for a presigned one, and a
  presigned request is accepted from the moment it was signed.
\<close>

theorem replay_window:
  assumes "ValidateTimeBounds sr t = Inr ()" and "ValidateTimeBounds sr t' = Inr ()"
  shows "\<bar>t - t'\<bar> \<le> (if presigned sr then 7 * 24 * hour else 30 * minute) \<and>
         (\<exists>at. parseAmzDate (amzDate sr) = Some at \<and>
            (if presigned sr then at \<le> t \<and> t \<le> at + expires sr * second
             else \<bar>t - at\<bar> \<le> MaxClockSkew))"
  using assms
  by (auto simp: ValidateTimeBounds_def MaxClockSkew_def maxPresignExpiry_def Let_def abs_le_iff
      split: option.splits if_splits)

theorem replay_window_witness:
  "ValidateTimeBounds sample_signed (1369353600 * second) = Inr () \<and>
   ValidateTimeBounds sample_signed (1369353900 * second) = Inr () \<and>
   \<bar>1369353600 * second - 1369353900 * second\<bar> \<le> 30 * minute"
proof -
  have v: "ValidateTimeBounds sample_signed (1369353600 * second) = Inr ()"
    "ValidateTimeBounds sample_signed (1369353900 * second) = Inr ()"
    by code_simp+
  have "\<not> presigned sample_signed" by (simp add: sample_signed_def)
  with replay_window[OF v] v show ?thesis by simp
qed

end
