(* ===== verification/Operation.thy ===== *)
theory Operation
  imports S3perm Sigv4_Sign
begin

text \<open>
  \<open>pkg/rpc/service/auth/operation.go\<close>: the S3 operations, the permission each needs, the
  classification of a request (method, path, query, copy source, permission-adding headers),
  and \<open>RequirementsFor\<close>'s ingredients. The tables are the source's, entry for entry.
\<close>

subsection \<open>Operations and their permissions\<close>

datatype (plugins only: code) operation =
    OpListBuckets | OpListBucket | OpGetObject | OpPutObject | OpCopyObject
  | OpCreateBucket | OpDeleteObject | OpDeleteBucket | OpGetObjectVersion
  | OpGetObjectRetention | OpGetObjectLegalHold | OpPutObjectRetention
  | OpPutObjectLegalHold | OpDeleteObjectVersion | OpDeleteObjects | OpListBucketVersions
  | OpGetBucketPolicy | OpPutBucketPolicy | OpDeleteBucketPolicy | OpGetBucketEncryption
  | OpPutBucketEncryption | OpDeleteBucketEncryption | OpCreateMultipartUpload
  | OpUploadPart | OpUploadPartCopy | OpCompleteMultipartUpload | OpAbortMultipartUpload
  | OpListMultipartUploadParts | OpListBucketMultipartUploads | OpGetBucketLocation
  | OpGetBucketAcl | OpGetBucketCors | OpPutBucketCors | OpDeleteBucketCors
  | OpGetBucketPolicyStatus | OpGetBucketTagging | OpPutBucketTagging
  | OpDeleteBucketTagging | OpGetBucketVersioning | OpPutBucketVersioning
  | OpGetObjectLockConfiguration | OpPutObjectLockConfiguration | OpGetObjectTagging
  | OpPutObjectTagging | OpDeleteObjectTagging | OpGetObjectAttributes

definition operationPermission :: "(operation, string) gomap" where
  "operationPermission = [
     (OpListBuckets, ''s3:ListAllMyBuckets''), (OpListBucket, ''s3:ListBucket''),
     (OpGetObject, ''s3:GetObject''), (OpPutObject, ''s3:PutObject''),
     (OpCopyObject, ''s3:PutObject''), (OpCreateBucket, ''s3:CreateBucket''),
     (OpDeleteObject, ''s3:DeleteObject''), (OpDeleteBucket, ''s3:DeleteBucket''),
     (OpGetObjectVersion, ''s3:GetObjectVersion''),
     (OpGetObjectRetention, ''s3:GetObjectRetention''),
     (OpGetObjectLegalHold, ''s3:GetObjectLegalHold''),
     (OpPutObjectRetention, ''s3:PutObjectRetention''),
     (OpPutObjectLegalHold, ''s3:PutObjectLegalHold''),
     (OpDeleteObjectVersion, ''s3:DeleteObjectVersion''),
     (OpDeleteObjects, ''s3:DeleteObject''), (OpListBucketVersions, ''s3:ListBucketVersions''),
     (OpGetBucketPolicy, ''s3:GetBucketPolicy''), (OpPutBucketPolicy, ''s3:PutBucketPolicy''),
     (OpDeleteBucketPolicy, ''s3:DeleteBucketPolicy''),
     (OpGetBucketEncryption, ''s3:GetEncryptionConfiguration''),
     (OpPutBucketEncryption, ''s3:PutEncryptionConfiguration''),
     (OpDeleteBucketEncryption, ''s3:PutEncryptionConfiguration''),
     (OpCreateMultipartUpload, ''s3:PutObject''), (OpUploadPart, ''s3:PutObject''),
     (OpUploadPartCopy, ''s3:PutObject''), (OpCompleteMultipartUpload, ''s3:PutObject''),
     (OpAbortMultipartUpload, ''s3:AbortMultipartUpload''),
     (OpListMultipartUploadParts, ''s3:ListMultipartUploadParts''),
     (OpListBucketMultipartUploads, ''s3:ListBucketMultipartUploads''),
     (OpGetBucketLocation, ''s3:GetBucketLocation''), (OpGetBucketAcl, ''s3:GetBucketAcl''),
     (OpGetBucketCors, ''s3:GetBucketCORS''), (OpPutBucketCors, ''s3:PutBucketCORS''),
     (OpDeleteBucketCors, ''s3:PutBucketCORS''),
     (OpGetBucketPolicyStatus, ''s3:GetBucketPolicyStatus''),
     (OpGetBucketTagging, ''s3:GetBucketTagging''),
     (OpPutBucketTagging, ''s3:PutBucketTagging''),
     (OpDeleteBucketTagging, ''s3:PutBucketTagging''),
     (OpGetBucketVersioning, ''s3:GetBucketVersioning''),
     (OpPutBucketVersioning, ''s3:PutBucketVersioning''),
     (OpGetObjectLockConfiguration, ''s3:GetBucketObjectLockConfiguration''),
     (OpPutObjectLockConfiguration, ''s3:PutBucketObjectLockConfiguration''),
     (OpGetObjectTagging, ''s3:GetObjectTagging''),
     (OpPutObjectTagging, ''s3:PutObjectTagging''),
     (OpDeleteObjectTagging, ''s3:DeleteObjectTagging''),
     (OpGetObjectAttributes, ''s3:GetObjectAttributes'')]"

definition Permission :: "operation \<Rightarrow> string" where
  "Permission op = (case map_of operationPermission op of None \<Rightarrow> [] | Some p \<Rightarrow> p)"

definition companionPermission :: "(operation, string) gomap" where
  "companionPermission = [(OpGetObjectAttributes, ''s3:GetObject'')]"

definition Permissions :: "operation \<Rightarrow> string list" where
  "Permissions op =
     Permission op # (case map_of companionPermission op of None \<Rightarrow> [] | Some companion \<Rightarrow> [companion])"

definition SourcePermission :: string where "SourcePermission = ''s3:GetObject''"

definition SourceVersionPermission :: string where
  "SourceVersionPermission = ''s3:GetObjectVersion''"

definition CopiesSource :: "operation \<Rightarrow> bool" where
  "CopiesSource op \<longleftrightarrow> op = OpCopyObject \<or> op = OpUploadPartCopy"

text \<open>The operations of the \<open>switch\<close> of \<open>addressesExistingBucket\<close>.\<close>

definition existingBucketOperations :: "operation list" where
  "existingBucketOperations = [
     OpListBucket, OpGetObject, OpPutObject, OpCopyObject, OpDeleteObject, OpDeleteBucket,
     OpGetObjectVersion, OpGetObjectRetention, OpGetObjectLegalHold, OpPutObjectRetention,
     OpPutObjectLegalHold, OpDeleteObjectVersion, OpDeleteObjects, OpListBucketVersions,
     OpGetBucketPolicy, OpPutBucketPolicy, OpDeleteBucketPolicy, OpGetBucketEncryption,
     OpPutBucketEncryption, OpDeleteBucketEncryption, OpGetBucketLocation, OpGetBucketAcl,
     OpGetBucketCors, OpPutBucketCors, OpDeleteBucketCors, OpGetBucketPolicyStatus,
     OpGetBucketTagging, OpPutBucketTagging, OpDeleteBucketTagging, OpGetBucketVersioning,
     OpPutBucketVersioning, OpGetObjectLockConfiguration, OpPutObjectLockConfiguration,
     OpGetObjectTagging, OpPutObjectTagging, OpDeleteObjectTagging, OpGetObjectAttributes,
     OpCreateMultipartUpload, OpUploadPart, OpUploadPartCopy, OpCompleteMultipartUpload,
     OpAbortMultipartUpload, OpListMultipartUploadParts, OpListBucketMultipartUploads]"

definition addressesExistingBucket :: "operation \<Rightarrow> bool" where
  "addressesExistingBucket op \<longleftrightarrow> op \<in> set existingBucketOperations"

definition allOperations :: "operation list" where
  "allOperations = map fst operationPermission"

subsection \<open>Routes\<close>

text \<open>Whether the gateway serves an operation for the subresource.\<close>

definition subresources :: "(string, bool) gomap" where
  "subresources = [
     (''accelerate'', False), (''acl'', True), (''analytics'', False), (''attributes'', True),
     (''cors'', True), (''delete'', True), (''encryption'', True),
     (''intelligent-tiering'', False), (''inventory'', False), (''legal-hold'', True),
     (''lifecycle'', False), (''location'', True), (''logging'', False),
     (''metadataConfiguration'', False), (''metadataTable'', False), (''metrics'', False),
     (''notification'', False), (''object-lock'', True), (''ownershipControls'', False),
     (''policy'', True), (''policyStatus'', True), (''publicAccessBlock'', False),
     (''renameObject'', False), (''replication'', False), (''requestPayment'', False),
     (''restore'', False), (''retention'', True), (''select'', False), (''session'', False),
     (''tagging'', True), (''torrent'', False), (''uploadId'', True), (''uploads'', True),
     (''versioning'', True), (''versions'', True), (''website'', False)]"

text \<open>An empty operation of the source is \<open>None\<close>.\<close>

definition bucketRoutes :: "(string, (string, operation option) gomap) gomap" where
  "bucketRoutes = [
     (''GET'', [
        (''location'', Some OpGetBucketLocation), (''tagging'', Some OpGetBucketTagging),
        (''versioning'', Some OpGetBucketVersioning), (''policy'', Some OpGetBucketPolicy),
        (''cors'', Some OpGetBucketCors),
        (''object-lock'', Some OpGetObjectLockConfiguration), (''acl'', Some OpGetBucketAcl),
        (''uploads'', Some OpListBucketMultipartUploads),
        (''versions'', Some OpListBucketVersions),
        (''policyStatus'', Some OpGetBucketPolicyStatus),
        (''encryption'', Some OpGetBucketEncryption)]),
     (''PUT'', [
        (''tagging'', Some OpPutBucketTagging), (''versioning'', Some OpPutBucketVersioning),
        (''object-lock'', Some OpPutObjectLockConfiguration),
        (''cors'', Some OpPutBucketCors), (''policy'', Some OpPutBucketPolicy),
        (''acl'', None), (''encryption'', Some OpPutBucketEncryption)]),
     (''DELETE'', [
        (''tagging'', Some OpDeleteBucketTagging), (''policy'', Some OpDeleteBucketPolicy),
        (''cors'', Some OpDeleteBucketCors), (''encryption'', Some OpDeleteBucketEncryption)]),
     (''POST'', [
        (''delete'', Some OpDeleteObjects)])]"

definition objectRoutes :: "(string, (string, operation option) gomap) gomap" where
  "objectRoutes = [
     (''GET'', [
        (''uploads'', None), (''versions'', None), (''tagging'', Some OpGetObjectTagging),
        (''retention'', Some OpGetObjectRetention),
        (''legal-hold'', Some OpGetObjectLegalHold), (''acl'', None),
        (''attributes'', Some OpGetObjectAttributes),
        (''uploadId'', Some OpListMultipartUploadParts)]),
     (''PUT'', [
        (''tagging'', Some OpPutObjectTagging), (''retention'', Some OpPutObjectRetention),
        (''legal-hold'', Some OpPutObjectLegalHold), (''acl'', None),
        (''uploadId'', Some OpUploadPart)]),
     (''POST'', [
        (''uploadId'', Some OpCompleteMultipartUpload),
        (''uploads'', Some OpCreateMultipartUpload)]),
     (''DELETE'', [
        (''tagging'', Some OpDeleteObjectTagging),
        (''uploadId'', Some OpAbortMultipartUpload)])]"

subsection \<open>Requests and their headers\<close>

text \<open>libforge's \<open>s3.Request\<close>: the signed part of the request and its body.\<close>

record s3_request = request +
  Body :: string

text \<open>The first entry in the map's order whose name folds to the name asked for.\<close>

fun HeaderValue :: "(string, string) gomap \<Rightarrow> string \<Rightarrow> string option" where
  "HeaderValue [] name = None"
| "HeaderValue ((k, v) # hs) name =
     (if equalFold k name \<and> v \<noteq> [] then Some v else HeaderValue hs name)"

definition parseCopySource :: "string \<Rightarrow> (string \<times> string \<times> string) option" where
  "parseCopySource v =
     (case queryUnescape (trimPrefix v ''/'') of
        None \<Rightarrow> None
      | Some decoded \<Rightarrow>
          (let (decoded, versionID, _) = cut decoded ''?versionId='';
               (bucket, key, ok) = cut decoded ''/''
           in if \<not> ok then None else Some (bucket, key, versionID)))"

definition copySourceHeader :: string where "copySourceHeader = ''x-amz-copy-source''"
definition objectLockModeHeader :: string where "objectLockModeHeader = ''x-amz-object-lock-mode''"
definition objectLockRetainUntilHeader :: string where "objectLockRetainUntilHeader = ''x-amz-object-lock-retain-until-date''"
definition objectLockLegalHoldHeader :: string where "objectLockLegalHoldHeader = ''x-amz-object-lock-legal-hold''"
definition taggingHeader :: string where "taggingHeader = ''x-amz-tagging''"
definition taggingDirectiveHeader :: string where "taggingDirectiveHeader = ''x-amz-tagging-directive''"
definition bucketObjectLockEnabledHeader :: string where "bucketObjectLockEnabledHeader = ''x-amz-bucket-object-lock-enabled''"
definition bypassGovernanceHeader :: string where "bypassGovernanceHeader = ''x-amz-bypass-governance-retention''"

lemmas header_names = copySourceHeader_def objectLockModeHeader_def objectLockRetainUntilHeader_def
  objectLockLegalHoldHeader_def taggingHeader_def taggingDirectiveHeader_def
  bucketObjectLockEnabledHeader_def bypassGovernanceHeader_def

subsection \<open>Classification\<close>

record classification =
  c_op :: operation
  c_bucket :: string
  c_key :: string
  c_srcBucket :: string
  c_srcKey :: string
  c_srcVersionID :: string
  c_headerPermissions :: "string list"
  c_headers :: "string list"
  c_bodyPermissions :: "string list"

definition permissions :: "classification \<Rightarrow> string list" where
  "permissions c = Permissions (c_op c) @ c_headerPermissions c @ c_bodyPermissions c"

definition sourcePermission :: "classification \<Rightarrow> string" where
  "sourcePermission c = (if c_srcVersionID c \<noteq> [] then SourceVersionPermission else SourcePermission)"

text \<open>The classification before an operation is chosen.\<close>

definition addressed :: "string \<Rightarrow> string \<Rightarrow> operation \<Rightarrow> classification" where
  "addressed bucket key op = \<lparr>c_op = op, c_bucket = bucket, c_key = key, c_srcBucket = [],
     c_srcKey = [], c_srcVersionID = [], c_headerPermissions = [], c_headers = [],
     c_bodyPermissions = []\<rparr>"

text \<open>A plain-object or part PUT with a parseable copy source is a copy.\<close>

definition copyOr :: "(string, string) gomap \<Rightarrow> string \<Rightarrow> string \<Rightarrow> operation \<Rightarrow> operation \<Rightarrow> classification" where
  "copyOr hs bucket key plain copied =
     (case HeaderValue hs copySourceHeader of
        None \<Rightarrow> addressed bucket key plain
      | Some src \<Rightarrow>
          (case parseCopySource src of
             None \<Rightarrow> addressed bucket key plain
           | Some (srcBucket, srcKey, srcVersionID) \<Rightarrow>
               (addressed bucket key copied)\<lparr>c_srcBucket := srcBucket, c_srcKey := srcKey,
                  c_srcVersionID := srcVersionID, c_headers := [copySourceHeader]\<rparr>))"

definition namedSubresources :: "url_values \<Rightarrow> string list" where
  "namedSubresources query = filter (queryHas query) (map fst subresources)"

text \<open>The plain operation of a request whose subresource, if any, selects no route.\<close>

definition plainRoute :: "(string, string) gomap \<Rightarrow> string \<Rightarrow> string \<Rightarrow> string \<Rightarrow> string \<Rightarrow> err + classification" where
  "plainRoute hs method versionID bucket key =
     (if method = ''GET'' then
        Inr (addressed bucket key
          (if key = [] then OpListBucket else if versionID \<noteq> [] then OpGetObjectVersion else OpGetObject))
      else if method = ''PUT'' then
        Inr (if key = [] then addressed bucket key OpCreateBucket
             else copyOr hs bucket key OpPutObject OpCopyObject)
      else if method = ''DELETE'' then
        Inr (addressed bucket key
          (if key = [] then OpDeleteBucket else if versionID \<noteq> [] then OpDeleteObjectVersion else OpDeleteObject))
      else Inl (Auth ErrUnsupportedOperation))"

definition routeOf :: "string \<Rightarrow> string \<Rightarrow> string list \<Rightarrow> operation option option" where
  "routeOf method key named =
     (case named of
        [n] \<Rightarrow>
          (case map_of (if key \<noteq> [] then objectRoutes else bucketRoutes) method of
             None \<Rightarrow> None
           | Some routes \<Rightarrow> map_of routes n)
      | _ \<Rightarrow> None)"

definition classifyRoute :: "url_parser \<Rightarrow> s3_request \<Rightarrow> err + classification" where
  "classifyRoute P req =
     (case P (URL req) of
        None \<Rightarrow> Inl (Internal ''parsing request URL'')
      | Some u \<Rightarrow>
          (let (bucket, key, _) = cut (trimPrefix (url_path u) ''/'') ''/'';
               query = parseQuery (url_query u);
               versionID = queryGet query ''versionId'';
               named = namedSubresources query;
               method = toUpper (Method req)
           in
           if length named > 1 then Inl (Auth (ErrConflictingQuery (sort named)))
           else if length named = 1 \<and> map_of subresources (hd named) \<noteq> Some True
           then Inl (Auth ErrUnsupportedOperation)
           else if method \<notin> {''GET'', ''HEAD'', ''PUT'', ''POST'', ''DELETE''}
           then Inl (Internal ''unsupported S3 method'')
           else if bucket = [] then
             (if method = ''GET'' \<or> method = ''HEAD'' then Inr (addressed bucket key OpListBuckets)
              else Inl (Internal ''request has no bucket in its path''))
           else if method = ''HEAD'' then
             Inr (addressed bucket key
               (if key = [] then OpListBucket else if versionID \<noteq> [] then OpGetObjectVersion else OpGetObject))
           else
             (case routeOf method key named of
                Some None \<Rightarrow> Inl (Auth ErrUnsupportedOperation)
              | Some (Some op) \<Rightarrow>
                  if op = OpUploadPart then
                    (if \<not> queryHas query ''partNumber'' then Inl (Auth ErrUnsupportedOperation)
                     else Inr (copyOr (Headers req) bucket key OpUploadPart OpUploadPartCopy))
                  else Inr (addressed bucket key op)
              | None \<Rightarrow> plainRoute (Headers req) method versionID bucket key)))"

subsection \<open>Permission-adding headers\<close>

definition firstValue :: "string \<Rightarrow> string" where
  "firstValue v = trimSpace (fst (cut v '',''))"

definition need :: "string \<Rightarrow> string list \<Rightarrow> classification \<Rightarrow> classification" where
  "need header perms c =
     c\<lparr>c_headers := c_headers c @ [header],
       c_headerPermissions :=
         fold (\<lambda>p ps. if p \<in> set ps then ps else ps @ [p]) perms (c_headerPermissions c)\<rparr>"

definition needWhen :: "bool \<Rightarrow> string \<Rightarrow> string list \<Rightarrow> classification \<Rightarrow> classification" where
  "needWhen b header perms c = (if b then need header perms c else c)"

definition present :: "(string, string) gomap \<Rightarrow> string \<Rightarrow> bool" where
  "present hs h \<longleftrightarrow> HeaderValue hs h \<noteq> None"

definition isTrueFlag :: "(string, string) gomap \<Rightarrow> string \<Rightarrow> bool" where
  "isTrueFlag hs h =
     (case HeaderValue hs h of None \<Rightarrow> False | Some v \<Rightarrow> equalFold (firstValue v) ''true'')"

definition isReplace :: "(string, string) gomap \<Rightarrow> bool" where
  "isReplace hs =
     (case HeaderValue hs taggingDirectiveHeader of None \<Rightarrow> False | Some v \<Rightarrow> firstValue v = ''REPLACE'')"

definition readHeaders :: "(string, string) gomap \<Rightarrow> classification \<Rightarrow> classification" where
  "readHeaders hs c =
     (if c_op c \<in> {OpPutObject, OpCopyObject, OpCreateMultipartUpload} then
        (let c = needWhen (present hs objectLockModeHeader) objectLockModeHeader [''s3:PutObjectRetention''] c;
             c = needWhen (present hs objectLockRetainUntilHeader) objectLockRetainUntilHeader
                   [''s3:PutObjectRetention''] c;
             c = needWhen (present hs objectLockLegalHoldHeader) objectLockLegalHoldHeader
                   [''s3:PutObjectLegalHold''] c
         in if c_op c = OpCopyObject then
              (if isReplace hs
               then needWhen (present hs taggingHeader) taggingHeader []
                      (need taggingDirectiveHeader [''s3:PutObjectTagging''] c)
               else c)
            else needWhen (present hs taggingHeader) taggingHeader [''s3:PutObjectTagging''] c)
      else if c_op c \<in> {OpDeleteObject, OpDeleteObjectVersion, OpDeleteObjects, OpPutObjectRetention} then
        needWhen (isTrueFlag hs bypassGovernanceHeader) bypassGovernanceHeader
          [''s3:BypassGovernanceRetention''] c
      else if c_op c = OpCreateBucket then
        needWhen (isTrueFlag hs bucketObjectLockEnabledHeader) bucketObjectLockEnabledHeader
          [''s3:PutBucketVersioning'', ''s3:PutBucketObjectLockConfiguration''] c
      else c)"

definition classifyRequest :: "url_parser \<Rightarrow> s3_request \<Rightarrow> err + classification" where
  "classifyRequest P req =
     (case classifyRoute P req of Inl e \<Rightarrow> Inl e | Inr c \<Rightarrow> Inr (readHeaders (Headers req) c))"

definition OperationFor :: "url_parser \<Rightarrow> s3_request \<Rightarrow> err + operation" where
  "OperationFor P req = (case classifyRequest P req of Inl e \<Rightarrow> Inl e | Inr c \<Rightarrow> Inr (c_op c))"

definition unsignedHeader :: "signed_request \<Rightarrow> string list \<Rightarrow> string option" where
  "unsignedHeader sr hs = List.find (\<lambda>h. \<not> HeaderSigned sr h) hs"

subsection \<open>Lemmas\<close>

lemma allOperations_all: "op \<in> set allOperations"
  by (cases op) (simp_all add: allOperations_def operationPermission_def)

lemma operations_by_table: "list_all Q allOperations \<Longrightarrow> Q op"
  using allOperations_all by (simp add: list_all_iff)

lemma addressed_sel [simp]:
  "c_op (addressed b k op) = op" "c_bucket (addressed b k op) = b" "c_key (addressed b k op) = k"
  "c_srcVersionID (addressed b k op) = []" "c_headerPermissions (addressed b k op) = []"
  "c_headers (addressed b k op) = []" "c_bodyPermissions (addressed b k op) = []"
  by (simp_all add: addressed_def)

text \<open>Which headers a classification is decided from, and so records.\<close>

definition decides :: "(string, string) gomap \<Rightarrow> operation \<Rightarrow> string \<Rightarrow> bool" where
  "decides hs op h \<longleftrightarrow>
     op \<in> {OpPutObject, OpCopyObject, OpCreateMultipartUpload} \<and> present hs h \<and>
       h \<in> {objectLockModeHeader, objectLockRetainUntilHeader, objectLockLegalHoldHeader} \<or>
     op = OpCopyObject \<and> isReplace hs \<and> (h = taggingDirectiveHeader \<or> h = taggingHeader \<and> present hs h) \<or>
     op \<in> {OpPutObject, OpCreateMultipartUpload} \<and> h = taggingHeader \<and> present hs h \<or>
     op \<in> {OpDeleteObject, OpDeleteObjectVersion, OpDeleteObjects, OpPutObjectRetention} \<and>
       h = bypassGovernanceHeader \<and> isTrueFlag hs h \<or>
     op = OpCreateBucket \<and> h = bucketObjectLockEnabledHeader \<and> isTrueFlag hs h"

lemma need_sel [simp]:
  "c_op (need h ps c) = c_op c" "c_headers (need h ps c) = c_headers c @ [h]"
  "c_bucket (need h ps c) = c_bucket c" "c_srcBucket (need h ps c) = c_srcBucket c"
  "c_srcVersionID (need h ps c) = c_srcVersionID c" "c_bodyPermissions (need h ps c) = c_bodyPermissions c"
  by (simp_all add: need_def)

lemma needWhen_sel [simp]:
  "c_op (needWhen b h ps c) = c_op c"
  "c_headers (needWhen b h ps c) = c_headers c @ (if b then [h] else [])"
  "c_bucket (needWhen b h ps c) = c_bucket c" "c_srcBucket (needWhen b h ps c) = c_srcBucket c"
  "c_srcVersionID (needWhen b h ps c) = c_srcVersionID c"
  "c_bodyPermissions (needWhen b h ps c) = c_bodyPermissions c"
  by (simp_all add: needWhen_def)

lemma readHeaders_sel [simp]:
  "c_op (readHeaders hs c) = c_op c" "c_bucket (readHeaders hs c) = c_bucket c"
  "c_srcBucket (readHeaders hs c) = c_srcBucket c"
  "c_srcVersionID (readHeaders hs c) = c_srcVersionID c"
  "c_bodyPermissions (readHeaders hs c) = c_bodyPermissions c"
  by (simp_all add: readHeaders_def Let_def)

lemma c_headers_readHeaders:
  "h \<in> set (c_headers (readHeaders hs c)) \<longleftrightarrow> h \<in> set (c_headers c) \<or> decides hs (c_op c) h"
  by (auto simp: readHeaders_def decides_def Let_def)

text \<open>A lookup by \<open>HeaderValue\<close> and one in the canonicalized headers agree.\<close>

lemma HeaderValue_None:
  "HeaderValue hs name = None \<longleftrightarrow> (\<forall>(k, v) \<in> set hs. equalFold k name \<longrightarrow> v = [])"
  by (induction hs name rule: HeaderValue.induct) auto

lemma HeaderValue_Some:
  "HeaderValue hs name = Some v \<Longrightarrow> \<exists>k. (k, v) \<in> set hs \<and> equalFold k name \<and> v \<noteq> []"
  by (induction hs name rule: HeaderValue.induct) (auto split: if_splits)

lemma HeaderValue_headerGet:
  assumes "toHeader hs = Inr H" and "list_all is_token name"
  shows "HeaderValue hs name = (if headerGet H name = [] then None else Some (headerGet H name))"
proof -
  have key: "canonicalHeaderKey k = canonicalHeaderKey name" if "equalFold k name" for k
    using canonicalHeaderKey_eq_iff[OF assms(2), of k] that by (simp add: equalFold_def)
  have get: "headerGet H name = v" if "(k, v) \<in> set hs" "equalFold k name" for k v
    using toHeader_get[OF assms(1) that(1)] key[OF that(2)] by (simp add: headerGet_def)
  show ?thesis
  proof (cases "HeaderValue hs name")
    case (Some v)
    then obtain k where "(k, v) \<in> set hs" "equalFold k name" "v \<noteq> []" by (blast dest: HeaderValue_Some)
    with get Some show ?thesis by simp
  next
    case None
    have "headerGet H name = []"
    proof (cases "map_of H (canonicalHeaderKey name)")
      case (Some v)
      from assms(1) have d: "distinct (map (canonicalHeaderKey \<circ> fst) hs)"
        and H: "H = fold (\<lambda>(k, v). AList.update (canonicalHeaderKey k) v) hs []"
        by (simp_all add: toHeader_Inr)
      have "map_of (map (\<lambda>(k, v). (canonicalHeaderKey k, v)) hs) (canonicalHeaderKey name) = Some v"
        using Some map_of_fold_update[OF d, of "[]" "canonicalHeaderKey name"] by (simp add: H split: option.splits)
      then obtain k where k: "(k, v) \<in> set hs" "canonicalHeaderKey k = canonicalHeaderKey name"
        by (auto dest!: map_of_SomeD)
      then have "equalFold k name" using canonicalHeaderKey_eq_iff[OF assms(2), of k]
        by (auto simp: equalFold_def)
      with None k get show ?thesis by (fastforce simp: HeaderValue_None)
    qed (simp add: headerGet_def)
    with None show ?thesis by simp
  qed
qed

text \<open>
  Two header maps that agree on every signed header, read by requests that both pass the check
  that each recorded header is signed, decide the same.
\<close>

lemma unsignedHeader_None: "unsignedHeader sr hs = None \<longleftrightarrow> (\<forall>h \<in> set hs. HeaderSigned sr h)"
  by (auto simp: unsignedHeader_def find_None_iff)

lemma decides_lock:
  "op \<in> {OpPutObject, OpCopyObject, OpCreateMultipartUpload} \<Longrightarrow>
   h \<in> {objectLockModeHeader, objectLockRetainUntilHeader, objectLockLegalHoldHeader} \<Longrightarrow>
   present hs h \<Longrightarrow> decides hs op h"
  by (simp add: decides_def)

lemma decides_tagging:
  "op \<in> {OpPutObject, OpCreateMultipartUpload} \<Longrightarrow> present hs taggingHeader \<Longrightarrow> decides hs op taggingHeader"
  by (simp add: decides_def)

lemma header_name_tokens [simp]:
  "list_all is_token copySourceHeader" "list_all is_token objectLockModeHeader"
  "list_all is_token objectLockRetainUntilHeader" "list_all is_token objectLockLegalHoldHeader"
  "list_all is_token taggingHeader" "list_all is_token taggingDirectiveHeader"
  "list_all is_token bucketObjectLockEnabledHeader" "list_all is_token bypassGovernanceHeader"
  by code_simp+

lemma readHeaders_agree:
  assumes eq: "\<And>h. HeaderSigned sr h \<Longrightarrow> list_all is_token h \<Longrightarrow> HeaderValue hs h = HeaderValue hs' h"
    and c: "\<And>h. h \<in> set (c_headers (readHeaders hs c)) \<Longrightarrow> HeaderSigned sr h"
    and c': "\<And>h. h \<in> set (c_headers (readHeaders hs' c)) \<Longrightarrow> HeaderSigned sr h"
  shows "readHeaders hs c = readHeaders hs' c"
proof -
  have s: "HeaderSigned sr h" if "decides hs (c_op c) h \<or> decides hs' (c_op c) h" for h
    using that c c' by (auto simp: c_headers_readHeaders)
  have pr: "present hs h = present hs' h" if "HeaderSigned sr h" "list_all is_token h" for h
    using eq[OF that] by (simp add: present_def)
  have fl: "isTrueFlag hs h = isTrueFlag hs' h" if "HeaderSigned sr h" "list_all is_token h" for h
    using eq[OF that] by (simp add: isTrueFlag_def)
  have rp: "isReplace hs = isReplace hs'" if "HeaderSigned sr taggingDirectiveHeader"
    using eq[OF that] header_name_tokens by (simp add: isReplace_def)
  consider "c_op c = OpCopyObject" | "c_op c \<in> {OpPutObject, OpCreateMultipartUpload}"
    | "c_op c \<in> {OpDeleteObject, OpDeleteObjectVersion, OpDeleteObjects, OpPutObjectRetention}"
    | "c_op c = OpCreateBucket"
    | "c_op c \<notin> {OpPutObject, OpCopyObject, OpCreateMultipartUpload, OpDeleteObject,
         OpDeleteObjectVersion, OpDeleteObjects, OpPutObjectRetention, OpCreateBucket}"
    by blast
  then show ?thesis
  proof cases
    case 1
    have "present hs h = present hs' h"
      if "h \<in> {objectLockModeHeader, objectLockRetainUntilHeader, objectLockLegalHoldHeader}" for h
    proof -
      have "HeaderSigned sr h" if "present hs h \<or> present hs' h"
        using that \<open>h \<in> _\<close> 1 by (intro s) (auto simp: decides_def)
      moreover have "list_all is_token h" using \<open>h \<in> _\<close> by auto
      ultimately show ?thesis using pr by blast
    qed
    moreover have "isReplace hs = isReplace hs'"
    proof -
      have "HeaderSigned sr taggingDirectiveHeader" if "isReplace hs \<or> isReplace hs'"
        using that 1 by (intro s) (auto simp: decides_def)
      with rp show ?thesis by blast
    qed
    moreover have "present hs taggingHeader = present hs' taggingHeader"
      if "isReplace hs" "isReplace hs'"
    proof -
      have "HeaderSigned sr taggingHeader" if "present hs taggingHeader \<or> present hs' taggingHeader"
        using that \<open>isReplace hs\<close> \<open>isReplace hs'\<close> 1 by (intro s) (auto simp: decides_def)
      then show ?thesis using pr header_name_tokens by blast
    qed
    ultimately show ?thesis using 1 by (simp add: readHeaders_def Let_def)
  next
    case 2
    then have 2: "c_op c \<noteq> OpCopyObject" "c_op c \<in> {OpPutObject, OpCopyObject, OpCreateMultipartUpload}"
      and tag: "c_op c \<in> {OpPutObject, OpCreateMultipartUpload}" by auto
    have "present hs h = present hs' h"
      if "h \<in> {objectLockModeHeader, objectLockRetainUntilHeader, objectLockLegalHoldHeader}" for h
    proof -
      have "list_all is_token h" using that by auto
      with s[of h] pr[of h] decides_lock[OF 2(2) that] show ?thesis by blast
    qed
    moreover have "present hs taggingHeader = present hs' taggingHeader"
      using s[of taggingHeader] pr[of taggingHeader] decides_tagging[OF tag] header_name_tokens by blast
    ultimately show ?thesis using 2 by (simp add: readHeaders_def Let_def)
  next
    case 3
    have "isTrueFlag hs bypassGovernanceHeader = isTrueFlag hs' bypassGovernanceHeader"
    proof -
      have "HeaderSigned sr bypassGovernanceHeader"
        if "isTrueFlag hs bypassGovernanceHeader \<or> isTrueFlag hs' bypassGovernanceHeader"
        using that 3 by (intro s) (auto simp: decides_def)
      then show ?thesis using fl header_name_tokens by blast
    qed
    then show ?thesis using 3 by (auto simp: readHeaders_def)
  next
    case 4
    have "isTrueFlag hs bucketObjectLockEnabledHeader = isTrueFlag hs' bucketObjectLockEnabledHeader"
    proof -
      have "HeaderSigned sr bucketObjectLockEnabledHeader"
        if "isTrueFlag hs bucketObjectLockEnabledHeader \<or> isTrueFlag hs' bucketObjectLockEnabledHeader"
        using that 4 by (intro s) (auto simp: decides_def)
      then show ?thesis using fl header_name_tokens by blast
    qed
    then show ?thesis using 4 by (simp add: readHeaders_def)
  next
    case 5
    then show ?thesis by (simp add: readHeaders_def)
  qed
qed

text \<open>A routed classification differs between two requests of one line only by the copy source.\<close>

lemma c_headers_copyOr:
  "c_headers (copyOr hs b k plain copied) = (if c_op (copyOr hs b k plain copied) = plain then [] else [copySourceHeader])"
  if "plain \<noteq> copied"
  using that by (auto simp: copyOr_def split: option.splits)

lemma copyOr_agree:
  assumes "plain \<noteq> copied"
    and eq: "HeaderSigned sr copySourceHeader \<Longrightarrow> HeaderValue hs copySourceHeader = HeaderValue hs' copySourceHeader"
    and "\<forall>h \<in> set (c_headers (copyOr hs b k plain copied)). HeaderSigned sr h"
    and "\<forall>h \<in> set (c_headers (copyOr hs' b k plain copied)). HeaderSigned sr h"
  shows "copyOr hs b k plain copied = copyOr hs' b k plain copied"
proof (cases "HeaderSigned sr copySourceHeader")
  case True
  with eq show ?thesis by (simp add: copyOr_def)
next
  case False
  with assms(3,4) have "copyOr hs b k plain copied = addressed b k plain"
    "copyOr hs' b k plain copied = addressed b k plain"
    by (auto simp: copyOr_def split: option.splits)
  then show ?thesis by simp
qed

text \<open>
  What a routed classification takes from the method and the URL alone: one operation, or a
  write that a copy source turns into a copy.
\<close>

datatype plan = Fixed operation | MaybeCopy operation operation

fun runPlan :: "(string, string) gomap \<Rightarrow> string \<Rightarrow> string \<Rightarrow> plan \<Rightarrow> classification" where
  "runPlan hs b k (Fixed op) = addressed b k op"
| "runPlan hs b k (MaybeCopy plain copied) = copyOr hs b k plain copied"

definition copyPlan :: "plan \<Rightarrow> bool" where
  "copyPlan p \<longleftrightarrow> (\<exists>op. p = Fixed op \<and> \<not> CopiesSource op) \<or>
     p = MaybeCopy OpUploadPart OpUploadPartCopy \<or> p = MaybeCopy OpPutObject OpCopyObject"

lemma routes_no_copy:
  "list_all (\<lambda>(m, rs). list_all (\<lambda>(n, op). op \<noteq> Some OpCopyObject \<and> op \<noteq> Some OpUploadPartCopy) rs)
     (bucketRoutes @ objectRoutes)"
  by code_simp

lemma routeOf_no_copy: "routeOf m k ns = Some (Some op) \<Longrightarrow> \<not> CopiesSource op"
  using routes_no_copy
  by (fastforce simp: routeOf_def CopiesSource_def list_all_iff split: list.splits option.splits if_splits
      dest!: map_of_SomeD)

lemma plainRoute_plan:
  assumes "plainRoute hs m v b k = Inr c"
  shows "\<exists>p. copyPlan p \<and> (\<forall>hs. plainRoute hs m v b k = Inr (runPlan hs b k p))"
proof -
  consider "m = ''GET''" | "m = ''PUT''" "k = []" | "m = ''PUT''" "k \<noteq> []" | "m = ''DELETE''"
    using assms by (auto simp: plainRoute_def split: if_splits)
  then show ?thesis
  proof cases
    case 1
    then show ?thesis
      by (intro exI[of _ "Fixed (if k = [] then OpListBucket else if v \<noteq> [] then OpGetObjectVersion else OpGetObject)"])
         (simp add: plainRoute_def copyPlan_def CopiesSource_def)
  next
    case 2
    then show ?thesis
      by (intro exI[of _ "Fixed OpCreateBucket"]) (simp add: plainRoute_def copyPlan_def CopiesSource_def)
  next
    case 3
    then show ?thesis
      by (intro exI[of _ "MaybeCopy OpPutObject OpCopyObject"]) (simp add: plainRoute_def copyPlan_def)
  next
    case 4
    then show ?thesis
      by (intro exI[of _ "Fixed (if k = [] then OpDeleteBucket else if v \<noteq> [] then OpDeleteObjectVersion else OpDeleteObject)"])
         (simp add: plainRoute_def copyPlan_def CopiesSource_def)
  qed
qed

lemma classifyRoute_plan:
  assumes "classifyRoute P req = Inr c"
  obtains p b k where "copyPlan p"
    "\<And>req'. Method req' = Method req \<Longrightarrow> URL req' = URL req \<Longrightarrow>
       classifyRoute P req' = Inr (runPlan (Headers req') b k p)"
proof -
  from assms obtain u where u: "P (URL req) = Some u"
    by (auto simp: classifyRoute_def split: option.splits)
  obtain b k z where cut: "cut (trimPrefix (url_path u) ''/'') ''/'' = (b, k, z)"
    by (metis prod_cases3)
  define query where "query = parseQuery (url_query u)"
  define named where "named = namedSubresources query"
  define m where "m = toUpper (Method req)"
  define v where "v = queryGet query ''versionId''"
  note defs = classifyRoute_def Let_def u cut query_def[symmetric] named_def[symmetric] m_def[symmetric] v_def[symmetric]
  have ok: "\<not> length named > 1"
      "\<not> (length named = 1 \<and> map_of subresources (hd named) \<noteq> Some True)"
      "\<not> m \<notin> {''GET'', ''HEAD'', ''PUT'', ''POST'', ''DELETE''}"
    using assms by (simp_all add: defs split: if_split_asm)
  have step: "classifyRoute P req' =
     (if b = [] then
        (if m = ''GET'' \<or> m = ''HEAD'' then Inr (addressed b k OpListBuckets)
         else Inl (Internal ''request has no bucket in its path''))
      else if m = ''HEAD'' then
        Inr (addressed b k
          (if k = [] then OpListBucket else if v \<noteq> [] then OpGetObjectVersion else OpGetObject))
      else
        (case routeOf m k named of
           Some None \<Rightarrow> Inl (Auth ErrUnsupportedOperation)
         | Some (Some op) \<Rightarrow>
             if op = OpUploadPart then
               (if \<not> queryHas query ''partNumber'' then Inl (Auth ErrUnsupportedOperation)
                else Inr (copyOr (Headers req') b k OpUploadPart OpUploadPartCopy))
             else Inr (addressed b k op)
         | None \<Rightarrow> plainRoute (Headers req') m v b k))"
    if "Method req' = Method req" "URL req' = URL req" for req'
    unfolding defs that option.case prod.case if_not_P[OF ok(1)] if_not_P[OF ok(2)] if_not_P[OF ok(3)]
    by (rule refl)
  show thesis
  proof (cases "b = []")
    case True
    with assms step[of req] show ?thesis
      by (intro that[of "Fixed OpListBuckets" b k])
         (auto simp: step copyPlan_def CopiesSource_def split: if_split_asm)
  next
    case b: False
    show ?thesis
    proof (cases "m = ''HEAD''")
      case True
      show ?thesis
        by (intro that[of "Fixed (if k = [] then OpListBucket else if v \<noteq> [] then OpGetObjectVersion else OpGetObject)" b k])
           (use b True in \<open>simp_all add: step copyPlan_def CopiesSource_def\<close>)
    next
      case False
      note step = step[unfolded if_not_P[OF b] if_not_P[OF False]]
      show ?thesis
      proof (cases "routeOf m k named")
        case None
        with assms have "plainRoute (Headers req) m v b k = Inr c" by (simp add: step)
        then obtain p where "copyPlan p" "\<forall>hs. plainRoute hs m v b k = Inr (runPlan hs b k p)"
          using plainRoute_plan by blast
        with None show ?thesis by (intro that[of p b k]) (simp_all add: step)
      next
        case (Some r)
        with assms obtain op where op: "r = Some op"
          by (cases r) (simp_all add: step)
        show ?thesis
        proof (cases "op = OpUploadPart")
          case True
          with assms Some op have "queryHas query ''partNumber''"
            by (simp add: step split: if_split_asm)
          with True Some op show ?thesis
            by (intro that[of "MaybeCopy OpUploadPart OpUploadPartCopy" b k])
               (simp_all add: step copyPlan_def)
        next
          case other: False
          with Some op routeOf_no_copy[of m k named op] show ?thesis
            by (intro that[of "Fixed op" b k]) (simp_all add: step copyPlan_def)
        qed
      qed
    qed
  qed
qed

lemma classifyRoute_agree:
  assumes c: "classifyRoute P req = Inr c" and c': "classifyRoute P req' = Inr c'"
    and line: "Method req' = Method req" "URL req' = URL req"
    and eq: "HeaderSigned sr copySourceHeader \<Longrightarrow>
      HeaderValue (Headers req) copySourceHeader = HeaderValue (Headers req') copySourceHeader"
    and s: "\<forall>h \<in> set (c_headers c). HeaderSigned sr h" "\<forall>h \<in> set (c_headers c'). HeaderSigned sr h"
  shows "c = c'"
proof -
  obtain p b k where "copyPlan p"
    and run: "\<And>req'. Method req' = Method req \<Longrightarrow> URL req' = URL req \<Longrightarrow>
       classifyRoute P req' = Inr (runPlan (Headers req') b k p)"
    using classifyRoute_plan[OF c] by metis
  have rc: "c = runPlan (Headers req) b k p" "c' = runPlan (Headers req') b k p"
    using c c' run[of req] run[OF line] by simp_all
  show ?thesis
  proof (cases p)
    case (Fixed op)
    with rc show ?thesis by simp
  next
    case (MaybeCopy plain copied)
    with \<open>copyPlan p\<close> have "plain \<noteq> copied" by (auto simp: copyPlan_def)
    then show ?thesis
      using copyOr_agree[OF _ eq] s by (simp add: rc MaybeCopy)
  qed
qed

lemma classifyRoute_copy_header:
  assumes "classifyRoute P req = Inr c" and "CopiesSource (c_op c)"
  shows "copySourceHeader \<in> set (c_headers c)"
proof -
  obtain p b k where p: "copyPlan p"
    and run: "\<And>req'. Method req' = Method req \<Longrightarrow> URL req' = URL req \<Longrightarrow>
       classifyRoute P req' = Inr (runPlan (Headers req') b k p)"
    using classifyRoute_plan[OF assms(1)] by metis
  have "c = runPlan (Headers req) b k p" using assms(1) run[of req] by simp
  with p assms(2) show ?thesis
    by (auto simp: copyPlan_def copyOr_def CopiesSource_def split: option.splits)
qed

lemma classifyRequest_Inr:
  "classifyRequest P req = Inr c \<longleftrightarrow> (\<exists>c0. classifyRoute P req = Inr c0 \<and> c = readHeaders (Headers req) c0)"
  by (auto simp: classifyRequest_def split: sum.splits)

text \<open>A lower-case header name is signed exactly when the list holds it.\<close>

lemma headerGet_toLower:
  "list_all is_token h \<Longrightarrow> headerGet H (toLower h) = headerGet H h"
  using canonicalHeaderKey_eq_iff[of h "toLower h"] by (simp add: headerGet_def equalFold_def)

lemma signed_values_agree:
  assumes "toHeader hs = Inr H" and "toHeader hs' = Inr H'"
    and "\<forall>h \<in> set (signedHeaders sr). headerGet H' h = headerGet H h"
    and "HeaderSigned sr h" and "list_all is_token h"
  shows "HeaderValue hs h = HeaderValue hs' h"
proof -
  have "headerGet H' (toLower h) = headerGet H (toLower h)"
    using assms(3,4) by (simp add: HeaderSigned_def)
  then have "headerGet H' h = headerGet H h" by (simp add: headerGet_toLower[OF assms(5)])
  then show ?thesis using HeaderValue_headerGet assms(1,2,5) by metis
qed

subsection \<open>A sample write\<close>

definition sample_put :: "(string, string) gomap \<Rightarrow> s3_request" where
  "sample_put extra = \<lparr>Method = ''PUT'', Headers = [
       (''X-Amz-Date'', ''d''), (''X-Amz-Content-Sha256'', ''h''), (''x-amz-tagging'', ''k''),
       (''Authorization'', ''AWS4-HMAC-SHA256 Credential=k/d/e/s/aws4_request,SignedHeaders=host;x-amz-tagging,Signature=b'')] @ extra,
     URL = ''u'', Body = []\<rparr>"

definition sample_put_url :: url_parser where
  "sample_put_url = (\<lambda>_. Some \<lparr>url_scheme = ''http'', url_host = ''h'', url_path = ''/b/o'', url_query = []\<rparr>)"

definition sample_put_signed :: "headers \<Rightarrow> signed_request" where
  "sample_put_signed extra = \<lparr>Scheme = SchemeV4, AccessKeyID = ''k'', Regions = [''e''],
     sr_method = ''PUT'', canonicalURI = ''/b/o'', sr_query = [],
     sr_headers = [(''X-Amz-Date'', ''d''), (''X-Amz-Content-Sha256'', ''h''), (''X-Amz-Tagging'', ''k''),
       (''Authorization'', ''AWS4-HMAC-SHA256 Credential=k/d/e/s/aws4_request,SignedHeaders=host;x-amz-tagging,Signature=b'')] @ extra,
     host = ''h'', signedHeaders = [''host'', ''x-amz-tagging''], payloadHash = ''h'', amzDate = ''d'',
     scope = ''d/e/s/aws4_request'', signature = ''b'', presigned = False, expires = 0\<rparr>"

definition sample_put_classified :: classification where
  "sample_put_classified = need ''x-amz-tagging'' [''s3:PutObjectTagging''] (addressed ''b'' ''o'' OpPutObject)"

lemma sample_put_Parse:
  "Parse sample_put_url (request.truncate (sample_put [])) = Inr (sample_put_signed [])"
  "Parse sample_put_url (request.truncate (sample_put [(''q'', ''1'')])) = Inr (sample_put_signed [(''Q'', ''1'')])"
  by code_simp+

lemma sample_put_classify:
  "classifyRequest sample_put_url (sample_put []) = Inr sample_put_classified"
  "classifyRequest sample_put_url (sample_put [(''q'', ''1'')]) = Inr sample_put_classified"
  by code_simp+

lemma sample_put_checks:
  "\<forall>h \<in> set (signedHeaders (sample_put_signed [])).
     headerGet (sr_headers (sample_put_signed [(''Q'', ''1'')])) h = headerGet (sr_headers (sample_put_signed [])) h"
  "unsignedHeader (sample_put_signed []) (c_headers sample_put_classified) = None"
  "unsignedHeader (sample_put_signed [(''Q'', ''1'')]) (c_headers sample_put_classified) = None"
  by code_simp+

subsection \<open>Properties\<close>

text \<open>
  Every operation needs only permissions of the vocabulary an access key can be granted,
  its own and its companion's, and so do the copy sources; and the commands re-delegated for
  the operation's own permission include those of each permission it needs, so a key that
  passes the check receives every command the operation uses.
\<close>

theorem operation_permissions_covered:
  "(\<forall>p \<in> set (Permissions op). valid_permission p \<and>
      set (commandsFor [p]) \<subseteq> set (commandsFor [Permission op])) \<and>
   valid_permission SourcePermission \<and> valid_permission SourceVersionPermission"
proof -
  have "list_all (\<lambda>op. list_all (\<lambda>p. valid_permission p \<and>
      list_all (\<lambda>c. c \<in> set (commandsFor [Permission op])) (commandsFor [p])) (Permissions op)) allOperations"
    by code_simp
  from operations_by_table[OF this, of op] show ?thesis
    by (auto simp: list_all_iff) (code_simp)+
qed

theorem operation_permissions_covered_witness:
  "Permissions OpGetObjectAttributes = [''s3:GetObjectAttributes'', ''s3:GetObject''] \<and>
   set (commandsFor [''s3:GetObject'']) \<subseteq> set (commandsFor [''s3:GetObjectAttributes''])"
proof -
  have "Permissions OpGetObjectAttributes = [''s3:GetObjectAttributes'', ''s3:GetObject'']"
    "Permission OpGetObjectAttributes = ''s3:GetObjectAttributes''"
    by code_simp+
  with operation_permissions_covered[of OpGetObjectAttributes] show ?thesis by simp
qed

text \<open>
  A request addresses one operation or is refused: naming two subresources is a conflict,
  reported with the names sorted whatever their order in the query; naming one the gateway
  does not serve is unsupported; and a request that is classified names at most one
  subresource, a served one.
\<close>

theorem classify_one_subresource:
  assumes "P (URL req) = Some u" and "named = namedSubresources (parseQuery (url_query u))"
  shows "(length named > 1 \<longrightarrow> classifyRequest P req = Inl (Auth (ErrConflictingQuery (sort named)))) \<and>
    (named = [n] \<and> map_of subresources n = Some False \<longrightarrow>
       classifyRequest P req = Inl (Auth ErrUnsupportedOperation)) \<and>
    (classifyRequest P req = Inr c \<longrightarrow>
       length named \<le> 1 \<and> (\<forall>n \<in> set named. map_of subresources n = Some True))"
proof (intro conjI impI)
  assume "classifyRequest P req = Inr c"
  then obtain c0 where c0: "classifyRoute P req = Inr c0" by (auto simp: classifyRequest_Inr)
  then show len: "length named \<le> 1"
    by (simp add: classifyRoute_def assms Let_def split: prod.splits if_split_asm)
  from c0 have "\<not> (length named = 1 \<and> map_of subresources (hd named) \<noteq> Some True)"
    by (simp add: classifyRoute_def assms Let_def split: prod.splits if_split_asm)
  with len show "\<forall>n \<in> set named. map_of subresources n = Some True"
    by (cases named) auto
qed (simp_all add: classifyRequest_def classifyRoute_def assms Let_def split: prod.splits)

theorem classify_one_subresource_witness:
  "let P = (\<lambda>_. Some \<lparr>url_scheme = ''https'', url_host = ''h'', url_path = ''/b'', url_query = ''policy&acl''\<rparr>);
       req = \<lparr>Method = ''GET'', Headers = [], URL = ''u'', Body = []\<rparr>
   in classifyRequest P req = Inl (Auth (ErrConflictingQuery [''acl'', ''policy'']))"
proof -
  let ?u = "\<lparr>url_scheme = ''https'', url_host = ''h'', url_path = ''/b'', url_query = ''policy&acl''\<rparr>"
  let ?req = "\<lparr>Method = ''GET'', Headers = [], URL = ''u'', Body = []\<rparr>"
  have n: "[''acl'', ''policy''] = namedSubresources (parseQuery (url_query ?u))" by code_simp
  have s: "sort [''acl'', ''policy''] = [''acl'', ''policy'']" by code_simp
  have p: "(\<lambda>_. Some ?u) (URL ?req) = Some ?u" by simp
  show ?thesis
    using classify_one_subresource[OF p n] by (simp add: Let_def s)
qed



end
