(* ===== verification/Body.thy ===== *)
theory Body
  imports Operation
begin

text \<open>
  \<open>pkg/rpc/service/auth/body.go\<close> and \<open>body_deleteobjects.go\<close>: binding a request's body to
  its signature before anything is decided from it, and reading the entries of a
  DeleteObjects; then \<open>RequirementsFor\<close>, the local mirror of the authorization checks.

  The digests and the XML decoder of Go's standard library are the record \<open>codec\<close>.
\<close>

subsection \<open>Base64\<close>

definition base64Alphabet :: string where
  "base64Alphabet = ''ABCDEFGHIJKLMNOPQRSTUVWXYZabcdefghijklmnopqrstuvwxyz0123456789+/''"

fun base64Encode :: "string \<Rightarrow> string" where
  "base64Encode [] = []"
| "base64Encode [a] =
     (let n = byte a * 16
      in [base64Alphabet ! (n div 64), base64Alphabet ! (n mod 64), CHR ''='', CHR ''=''])"
| "base64Encode [a, b] =
     (let n = (byte a * 256 + byte b) * 4
      in [base64Alphabet ! (n div 4096), base64Alphabet ! (n div 64 mod 64),
          base64Alphabet ! (n mod 64), CHR ''=''])"
| "base64Encode (a # b # c # cs) =
     (let n = byte a * 65536 + byte b * 256 + byte c
      in [base64Alphabet ! (n div 262144), base64Alphabet ! (n div 4096 mod 64),
          base64Alphabet ! (n div 64 mod 64), base64Alphabet ! (n mod 64)] @ base64Encode cs)"

lemma base64Encode_example: "base64Encode ''hello'' = ''aGVsbG8=''"
  by (simp add: base64Alphabet_def byte_def Let_def)

subsection \<open>Digests and the decoder\<close>

text \<open>
  \<open>UnmarshalDelete\<close> is \<open>xml.Unmarshal\<close> into \<open>deleteObjectsBody\<close>: the entries, each a key and
  a version id, or \<open>None\<close> for an error. The CRCs are numbers of 32 and 64 bits.
\<close>

record codec =
  UrlParse :: url_parser
  Crypto :: crypto
  SHA1 :: "string \<Rightarrow> string"
  CRC32 :: "string \<Rightarrow> nat"
  CRC32C :: "string \<Rightarrow> nat"
  CRC64NVME :: "string \<Rightarrow> nat"
  MD5 :: "string \<Rightarrow> string"
  UnmarshalDelete :: "string \<Rightarrow> (string \<times> string) list option"

definition bodyChecksumHeaders :: "codec \<Rightarrow> (string \<times> (string \<Rightarrow> string)) list" where
  "bodyChecksumHeaders G = [
     (''x-amz-checksum-sha256'', SHA256 (Crypto G)),
     (''x-amz-checksum-sha1'', SHA1 G),
     (''x-amz-checksum-crc32'', \<lambda>b. beBytes 4 (CRC32 G b)),
     (''x-amz-checksum-crc32c'', \<lambda>b. beBytes 4 (CRC32C G b)),
     (''x-amz-checksum-crc64nvme'', \<lambda>b. beBytes 8 (CRC64NVME G b)),
     (''content-md5'', MD5 G)]"

definition MaxBodySize :: nat where "MaxBodySize = 8 * 2 ^ 20"

definition maxDeleteObjectsEntries :: nat where "maxDeleteObjectsEntries = 1000"

definition readDeleteObjectsBody :: "codec \<Rightarrow> string \<Rightarrow> err + string list" where
  "readDeleteObjectsBody G body =
     (case UnmarshalDelete G body of
        None \<Rightarrow> Inl (Auth ErrInvalidBody)
      | Some objects \<Rightarrow>
          if length objects > maxDeleteObjectsEntries then Inl (Auth ErrInvalidBody)
          else if \<exists>obj \<in> set objects. snd obj \<noteq> [] then Inr [''s3:DeleteObjectVersion'']
          else Inr [])"

definition bodyReaders :: "codec \<Rightarrow> (operation, string \<Rightarrow> err + string list) gomap" where
  "bodyReaders G = [(OpDeleteObjects, readDeleteObjectsBody G)]"

definition ReadsBody :: "codec \<Rightarrow> operation \<Rightarrow> bool" where
  "ReadsBody G op \<longleftrightarrow> map_of (bodyReaders G) op \<noteq> None"

lemma ReadsBody_iff [simp]: "ReadsBody G op \<longleftrightarrow> op = OpDeleteObjects"
  by (simp add: ReadsBody_def bodyReaders_def)

subsection \<open>Binding\<close>

text \<open>The verification of the checksum headers present: an error, or whether one bound the body.\<close>

fun checksumLoop ::
  "(string \<times> (string \<Rightarrow> string)) list \<Rightarrow> (string, string) gomap \<Rightarrow> string \<Rightarrow> bool \<Rightarrow> err + bool" where
  "checksumLoop [] hs body bound = Inr bound"
| "checksumLoop ((name, digest) # cs) hs body bound =
     (case HeaderValue hs name of
        None \<Rightarrow> checksumLoop cs hs body bound
      | Some v \<Rightarrow>
          if trimSpace v \<noteq> base64Encode (digest body) then Inl (Auth ErrInvalidBody)
          else checksumLoop cs hs body True)"

definition boundBody :: "codec \<Rightarrow> signed_request \<Rightarrow> s3_request \<Rightarrow> operation \<Rightarrow> err + unit" where
  "boundBody G sr req op =
     (if \<not> ReadsBody G op then
        (if length (Body req) > 0 then Inl (Auth ErrInvalidBody) else Inr ())
      else if length (Body req) = 0 then Inl (Auth ErrInvalidBody)
      else if length (Body req) > MaxBodySize then Inl (Auth ErrInvalidBody)
      else
        (case List.find (\<lambda>h. HeaderValue (Headers req) (fst h) \<noteq> None \<and> \<not> HeaderSigned sr (fst h))
                (bodyChecksumHeaders G) of
           Some h \<Rightarrow> Inl (Auth (ErrUnsignedHeader (fst h)))
         | None \<Rightarrow>
             (case checksumLoop (bodyChecksumHeaders G) (Headers req) (Body req) False of
                Inl e \<Rightarrow> Inl e
              | Inr bound \<Rightarrow>
                  if payloadHash sr \<noteq> UnsignedPayload then
                    (if \<not> equalFold (hexEncode (SHA256 (Crypto G) (Body req))) (payloadHash sr)
                     then Inl (Auth ErrInvalidBody) else Inr ())
                  else if \<not> bound then Inl (Auth ErrInvalidBody) else Inr ())))"

definition readBody :: "codec \<Rightarrow> classification \<Rightarrow> string \<Rightarrow> err + classification" where
  "readBody G c body =
     (case map_of (bodyReaders G) (c_op c) of
        None \<Rightarrow> Inr c
      | Some read \<Rightarrow>
          if length body = 0 then Inr c
          else (case read body of
                  Inl e \<Rightarrow> Inl e
                | Inr perms \<Rightarrow> Inr (c\<lparr>c_bodyPermissions := c_bodyPermissions c @ perms\<rparr>)))"

definition bindBody :: "codec \<Rightarrow> signed_request \<Rightarrow> s3_request \<Rightarrow> classification \<Rightarrow> err + classification" where
  "bindBody G sr req c =
     (case boundBody G sr req (c_op c) of
        Inl e \<Rightarrow> Inl e
      | Inr _ \<Rightarrow> readBody G c (Body req))"

subsection \<open>Requirements\<close>

text \<open>A requirement is a bucket and the permission needed there.\<close>

type_synonym requirement = "string \<times> string"

definition bucketRequirements :: "classification \<Rightarrow> requirement list" where
  "bucketRequirements c =
     (if \<not> addressesExistingBucket (c_op c) then []
      else map (\<lambda>perm. (c_bucket c, perm)) (permissions c) @
           (if CopiesSource (c_op c) then [(c_srcBucket c, sourcePermission c)] else []))"

definition RequirementsFor :: "codec \<Rightarrow> s3_request \<Rightarrow> err + operation \<times> requirement list" where
  "RequirementsFor G req =
     (case classifyRequest (UrlParse G) req of
        Inl e \<Rightarrow> Inl e
      | Inr c \<Rightarrow>
          if length (c_headers c) > 0 \<or> ReadsBody G (c_op c) \<or> length (Body req) > 0 then
            (case Parse (UrlParse G) (request.truncate req) of
               Inl e \<Rightarrow> Inl (Internal ''parsing request signature'')
             | Inr sr \<Rightarrow>
                 (case unsignedHeader sr (c_headers c) of
                    Some h \<Rightarrow> Inl (Auth (ErrUnsignedHeader h))
                  | None \<Rightarrow>
                      (case bindBody G sr req c of
                         Inl e \<Rightarrow> Inl e
                       | Inr c \<Rightarrow> Inr (c_op c, bucketRequirements c))))
          else Inr (c_op c, bucketRequirements c))"

subsection \<open>Lemmas\<close>

lemma checksumLoop_Inr:
  "checksumLoop cs hs body b = Inr b' \<longleftrightarrow>
     (\<forall>(n, digest) \<in> set cs. \<forall>v. HeaderValue hs n = Some v \<longrightarrow> trimSpace v = base64Encode (digest body)) \<and>
     (b' \<longleftrightarrow> b \<or> (\<exists>(n, digest) \<in> set cs. HeaderValue hs n \<noteq> None))"
proof (induction cs arbitrary: b)
  case (Cons c cs)
  obtain n digest where "c = (n, digest)" by force
  with Cons.IH show ?case
    by (cases "HeaderValue hs n"; cases "trimSpace (the (HeaderValue hs n)) = base64Encode (digest body)")
       simp_all
qed auto

lemma boundBody_other: "op \<noteq> OpDeleteObjects \<Longrightarrow> boundBody G sr req op = Inr () \<longleftrightarrow> Body req = []"
  by (simp add: boundBody_def)

lemma boundBody_delete:
  assumes "boundBody G sr req OpDeleteObjects = Inr ()"
  shows "Body req \<noteq> []" and "length (Body req) \<le> MaxBodySize"
    and "(n, digest) \<in> set (bodyChecksumHeaders G) \<Longrightarrow> HeaderValue (Headers req) n = Some v \<Longrightarrow>
           HeaderSigned sr n \<and> trimSpace v = base64Encode (digest (Body req))"
    and "payloadHash sr = UnsignedPayload \<Longrightarrow>
           \<exists>(n, digest) \<in> set (bodyChecksumHeaders G). HeaderValue (Headers req) n \<noteq> None"
    and "payloadHash sr \<noteq> UnsignedPayload \<Longrightarrow>
           equalFold (hexEncode (SHA256 (Crypto G) (Body req))) (payloadHash sr)"
proof -
  show ne: "Body req \<noteq> []"
  proof
    assume "Body req = []"
    with assms show False by (simp add: boundBody_def)
  qed
  show le: "length (Body req) \<le> MaxBodySize"
  proof (rule ccontr)
    assume "\<not> length (Body req) \<le> MaxBodySize"
    with assms ne show False by (simp add: boundBody_def)
  qed
  let ?find = "List.find (\<lambda>h. HeaderValue (Headers req) (fst h) \<noteq> None \<and> \<not> HeaderSigned sr (fst h))
        (bodyChecksumHeaders G)"
  let ?loop = "checksumLoop (bodyChecksumHeaders G) (Headers req) (Body req) False"
  from assms ne le have rest: "(case ?find of Some h \<Rightarrow> Inl (Auth (ErrUnsignedHeader (fst h)))
    | None \<Rightarrow> (case ?loop of Inl e \<Rightarrow> Inl e
        | Inr bound \<Rightarrow>
            if payloadHash sr \<noteq> UnsignedPayload then
              (if \<not> equalFold (hexEncode (SHA256 (Crypto G) (Body req))) (payloadHash sr)
               then Inl (Auth ErrInvalidBody) else Inr ())
            else if \<not> bound then Inl (Auth ErrInvalidBody) else Inr ())) = Inr ()"
    unfolding boundBody_def using ReadsBody_iff by (simp del: not_None_eq)
  then have signed: "?find = None" by (cases ?find) simp_all
  with rest obtain bound where loop: "?loop = Inr bound" by (cases ?loop) simp_all
  note final = rest[unfolded signed loop option.case sum.case]
  from final have pay: "payloadHash sr \<noteq> UnsignedPayload \<Longrightarrow>
        equalFold (hexEncode (SHA256 (Crypto G) (Body req))) (payloadHash sr)"
    and unsigned: "payloadHash sr = UnsignedPayload \<Longrightarrow> bound"
    by (simp_all split: if_split_asm)
  show "HeaderSigned sr n \<and> trimSpace v = base64Encode (digest (Body req))"
    if "(n, digest) \<in> set (bodyChecksumHeaders G)" "HeaderValue (Headers req) n = Some v"
    using that signed loop by (fastforce simp: find_None_iff checksumLoop_Inr)
  show "\<exists>(n, digest) \<in> set (bodyChecksumHeaders G). HeaderValue (Headers req) n \<noteq> None"
    if "payloadHash sr = UnsignedPayload"
    using unsigned[OF that] loop by (auto simp: checksumLoop_Inr)
  show "equalFold (hexEncode (SHA256 (Crypto G) (Body req))) (payloadHash sr)"
    if "payloadHash sr \<noteq> UnsignedPayload"
    using pay[OF that] .
qed

lemma bindBody_Inr:
  assumes "bindBody G sr req c = Inr c'"
  shows "boundBody G sr req (c_op c) = Inr ()" and "readBody G c (Body req) = Inr c'"
  using assms by (auto simp: bindBody_def split: sum.splits)

lemma readBody_other: "c_op c \<noteq> OpDeleteObjects \<Longrightarrow> readBody G c body = Inr c"
  by (simp add: readBody_def bodyReaders_def)

lemma bindBody_other: "bindBody G sr req c = Inr c' \<Longrightarrow> c_op c \<noteq> OpDeleteObjects \<Longrightarrow> c' = c"
  by (auto dest!: bindBody_Inr(2) simp: readBody_other)

lemma readBody_delete:
  assumes "c_op c = OpDeleteObjects" and "body \<noteq> []" and "readBody G c body = Inr c'"
  obtains objs where "UnmarshalDelete G body = Some objs" "length objs \<le> maxDeleteObjectsEntries"
    "c' = c\<lparr>c_bodyPermissions := c_bodyPermissions c @
       (if \<exists>obj \<in> set objs. snd obj \<noteq> [] then [''s3:DeleteObjectVersion''] else [])\<rparr>"
  using assms
  by (auto simp: readBody_def bodyReaders_def readDeleteObjectsBody_def
      split: sum.splits option.splits if_split_asm)

lemma bindBody_sel:
  assumes "bindBody G sr req c = Inr c'"
  shows "c_op c' = c_op c" "c_bucket c' = c_bucket c" "c_headers c' = c_headers c"
    "c_srcBucket c' = c_srcBucket c" "c_srcVersionID c' = c_srcVersionID c"
    "c_headerPermissions c' = c_headerPermissions c"
  using bindBody_Inr(2)[OF assms]
  by (auto simp: readBody_def split: option.splits if_splits sum.splits)

subsection \<open>A sample codec\<close>

definition sample_codec :: codec where
  "sample_codec = \<lparr>UrlParse = (\<lambda>_. Some \<lparr>url_scheme = [], url_host = ''h'', url_path = ''/b'', url_query = ''delete''\<rparr>),
     Crypto = sample_crypto, SHA1 = (\<lambda>s. take 2 s), CRC32 = (\<lambda>_. 1), CRC32C = (\<lambda>_. 1),
     CRC64NVME = (\<lambda>_. 1), MD5 = (\<lambda>s. take 3 s),
     UnmarshalDelete = (\<lambda>s. Some [(''key'', s)])\<rparr>"

definition sample_delete :: s3_request where
  "sample_delete = \<lparr>Method = ''POST'', Headers = [(''content-md5'', ''djEy'')], URL = ''u'', Body = ''v123''\<rparr>"

definition sample_delete_signed :: signed_request where
  "sample_delete_signed = sample_signed\<lparr>signedHeaders := [''content-md5'', ''host'']\<rparr>"

lemma sample_bind:
  "bindBody sample_codec sample_delete_signed sample_delete (addressed ''b'' [] OpDeleteObjects) =
     Inr ((addressed ''b'' [] OpDeleteObjects)\<lparr>c_bodyPermissions := [''s3:DeleteObjectVersion'']\<rparr>)"
proof -
  have size: "\<not> MaxBodySize < 4" "\<not> maxDeleteObjectsEntries < 1"
    by (simp_all add: MaxBodySize_def maxDeleteObjectsEntries_def)
  have low: "toLower ''content-md5'' = ''content-md5''"
    "canonicalHeaderKey ''content-md5'' = ''Content-Md5''" "trimSpace ''djEy'' = ''djEy''"
    "equalFold ''content-md5'' ''x-amz-checksum-sha256'' = False"
    "equalFold ''content-md5'' ''x-amz-checksum-sha1'' = False"
    "equalFold ''content-md5'' ''x-amz-checksum-crc32'' = False"
    "equalFold ''content-md5'' ''x-amz-checksum-crc32c'' = False"
    "equalFold ''content-md5'' ''x-amz-checksum-crc64nvme'' = False"
    by code_simp+
  have b64: "base64Encode ''v12'' = ''djEy''"
    by (simp add: base64Alphabet_def byte_def Let_def)
  show ?thesis
    using size
    by (simp add: bindBody_def boundBody_def readBody_def readDeleteObjectsBody_def bodyReaders_def
        bodyChecksumHeaders_def sample_delete_def sample_delete_signed_def sample_signed_def
        sample_codec_def HeaderSigned_def UnsignedPayload_def low b64 addressed_def
        del: base64Encode.simps)
qed

subsection \<open>Properties\<close>

text \<open>
  C31. Nothing is decided from a body the signer did not choose: a body is accepted only for
  an operation that reads one, non-empty and within the bound; every checksum header present
  is signed and carries the body's digest; under a signed payload the body hashes to it, and
  under an unsigned one at least one such checksum header binds it.
\<close>

theorem body_is_bound:
  assumes "bindBody G sr req c = Inr c'" and "Body req \<noteq> []"
  shows "c_op c = OpDeleteObjects \<and> length (Body req) \<le> MaxBodySize \<and>
    (\<forall>(n, digest) \<in> set (bodyChecksumHeaders G). \<forall>v. HeaderValue (Headers req) n = Some v \<longrightarrow>
       HeaderSigned sr n \<and> trimSpace v = base64Encode (digest (Body req))) \<and>
    (payloadHash sr = UnsignedPayload \<longrightarrow>
       (\<exists>(n, digest) \<in> set (bodyChecksumHeaders G). HeaderValue (Headers req) n \<noteq> None)) \<and>
    (payloadHash sr \<noteq> UnsignedPayload \<longrightarrow>
       equalFold (hexEncode (SHA256 (Crypto G) (Body req))) (payloadHash sr))"
proof -
  note b = bindBody_Inr(1)[OF assms(1)]
  have op: "c_op c = OpDeleteObjects" using b assms(2) by (metis boundBody_other)
  note d = boundBody_delete[OF b[unfolded op]]
  show ?thesis using op d(2,4,5) d(3) by blast
qed

theorem body_is_bound_witness:
  "trimSpace ''djEy'' = base64Encode (MD5 sample_codec (Body sample_delete)) \<and>
   HeaderSigned sample_delete_signed ''content-md5''"
proof -
  have "(''content-md5'', MD5 sample_codec) \<in> set (bodyChecksumHeaders sample_codec)"
    by (simp add: bodyChecksumHeaders_def)
  moreover have "HeaderValue (Headers sample_delete) ''content-md5'' = Some ''djEy''"
    by (simp add: sample_delete_def)
  moreover have "Body sample_delete \<noteq> []" by (simp add: sample_delete_def)
  ultimately show ?thesis using body_is_bound[OF sample_bind] by fast
qed

text \<open>
  A DeleteObjects that names a version needs the version permission: of a bound body, the
  entries are at most a thousand, and the permission is added exactly when some entry names a
  version, beside the operation's own.
\<close>

theorem delete_versions_need_permission:
  assumes "bindBody G sr req c = Inr c'" and "c_op c = OpDeleteObjects" and "c_bodyPermissions c = []"
    and "c_headerPermissions c = []"
  shows "\<exists>objs. UnmarshalDelete G (Body req) = Some objs \<and> length objs \<le> 1000 \<and>
    (''s3:DeleteObjectVersion'' \<in> set (permissions c') \<longleftrightarrow> (\<exists>obj \<in> set objs. snd obj \<noteq> [])) \<and>
    ''s3:DeleteObject'' \<in> set (permissions c')"
proof -
  have ne: "Body req \<noteq> []" using bindBody_Inr(1)[OF assms(1)] assms(2) boundBody_delete(1) by metis
  obtain objs where o: "UnmarshalDelete G (Body req) = Some objs" "length objs \<le> maxDeleteObjectsEntries"
    "c' = c\<lparr>c_bodyPermissions := c_bodyPermissions c @
       (if \<exists>obj \<in> set objs. snd obj \<noteq> [] then [''s3:DeleteObjectVersion''] else [])\<rparr>"
    using readBody_delete[OF assms(2) ne bindBody_Inr(2)[OF assms(1)]] by blast
  have p: "Permissions OpDeleteObjects = [''s3:DeleteObject'']" by code_simp
  show ?thesis
    using o assms(2-4) by (intro exI[of _ objs]) (simp add: permissions_def p maxDeleteObjectsEntries_def)
qed

theorem delete_versions_need_permission_witness:
  "''s3:DeleteObjectVersion'' \<in> set (permissions ((addressed ''b'' [] OpDeleteObjects)
     \<lparr>c_bodyPermissions := [''s3:DeleteObjectVersion'']\<rparr>)) \<and>
   UnmarshalDelete sample_codec (Body sample_delete) = Some [(''key'', ''v123'')]"
proof -
  have "UnmarshalDelete sample_codec (Body sample_delete) = Some [(''key'', ''v123'')]"
    by (simp add: sample_codec_def sample_delete_def)
  with delete_versions_need_permission[OF sample_bind] show ?thesis by auto
qed

end
