(* ===== verification/Stores.thy ===== *)
theory Stores
  imports Go_Time
begin

text \<open>
  \<open>pkg/store/{tenant,provider,bucket,accesskey}\<close> and their memory backends: the record
  types, the checks on what is written, and one operation per method, on the map the backend
  keeps. Each method runs under the store's mutex, so it is one step; a write returns its
  result and the store it leaves. The time of a write is an argument.
\<close>

subsection \<open>The interface the backends share\<close>

text \<open>
  What the services rely on: a write that fails changes nothing, a write that succeeds is what
  the next read of its key returns and no other key's, and a removal removes its key alone.
\<close>

locale record_store =
  fixes inv :: "'s \<Rightarrow> bool"
    and get :: "'s \<Rightarrow> 'k \<Rightarrow> err + 'r"
    and add :: "'i \<Rightarrow> 's \<Rightarrow> (err + unit) \<times> 's"
    and key :: "'i \<Rightarrow> 'k"
    and record_of :: "'i \<Rightarrow> 'r"
    and remove :: "'k \<Rightarrow> 's \<Rightarrow> 's"
  assumes add_failed: "add i s = (Inl e, s') \<Longrightarrow> s' = s"
    and add_inv: "inv s \<Longrightarrow> add i s = (Inr (), s') \<Longrightarrow> inv s'"
    and add_get: "inv s \<Longrightarrow> add i s = (Inr (), s') \<Longrightarrow>
      get s' k = (if k = key i then Inr (record_of i) else get s k)"
    and remove_inv: "inv s \<Longrightarrow> inv (remove k s)"
    and remove_get: "inv s \<Longrightarrow>
      get (remove k s) k' = (if k' = k then Inl (Store ErrRecordNotFound) else get s k')"
begin

lemma add_state: "inv s \<Longrightarrow> inv (snd (add i s))"
  using add_failed[of i s] add_inv[of s i] by (cases "add i s"; cases "fst (add i s)") auto

text \<open>Adding a record whose key is free and removing it restores every read.\<close>

lemma remove_after_add:
  assumes "inv s" and "add i s = (Inr (), s')" and "get s (key i) = Inl (Store ErrRecordNotFound)"
  shows "get (remove (key i) s') k = get s k"
  using assms add_inv add_get remove_get by simp

lemma remove_twice: "inv s \<Longrightarrow> get (remove k (remove k s)) k' = get (remove k s) k'"
  using remove_inv remove_get by simp

end

definition mapGet :: "('k, 'r) gomap \<Rightarrow> 'k \<Rightarrow> err + 'r" where
  "mapGet s k = (case map_of s k of None \<Rightarrow> Inl (Store ErrRecordNotFound) | Some r \<Rightarrow> Inr r)"

lemma mapGet_update [simp]: "mapGet (AList.update k r s) k' = (if k' = k then Inr r else mapGet s k')"
  by (simp add: mapGet_def update_conv')

lemma mapGet_delete [simp]:
  "mapGet (AList.delete k s) k' = (if k' = k then Inl (Store ErrRecordNotFound) else mapGet s k')"
  by (simp add: mapGet_def)

lemma mapGet_Inr: "mapGet s k = Inr r \<longleftrightarrow> map_of s k = Some r"
  by (simp add: mapGet_def split: option.splits)

text \<open>What holds of every record, and a field no two records share.\<close>

definition all_records :: "('k \<Rightarrow> 'r \<Rightarrow> bool) \<Rightarrow> ('k, 'r) gomap \<Rightarrow> bool" where
  "all_records Q s \<longleftrightarrow> (\<forall>k r. map_of s k = Some r \<longrightarrow> Q k r)"

definition unique_by :: "('r \<Rightarrow> 'x) \<Rightarrow> ('k, 'r) gomap \<Rightarrow> bool" where
  "unique_by f s \<longleftrightarrow>
     (\<forall>k k' r r'. map_of s k = Some r \<longrightarrow> map_of s k' = Some r' \<longrightarrow> f r = f r' \<longrightarrow> k = k')"

lemma all_records_Nil [simp]: "all_records Q []"
  by (simp add: all_records_def)

lemma all_records_update [simp, intro]:
  "all_records Q s \<Longrightarrow> Q k r \<Longrightarrow> all_records Q (AList.update k r s)"
  by (simp add: all_records_def update_conv')

lemma all_records_delete [simp, intro]: "all_records Q s \<Longrightarrow> all_records Q (AList.delete k s)"
  by (simp add: all_records_def)

lemma all_recordsD: "all_records Q s \<Longrightarrow> map_of s k = Some r \<Longrightarrow> Q k r"
  by (simp add: all_records_def)

lemma unique_by_Nil [simp]: "unique_by f []"
  by (simp add: unique_by_def)

lemma unique_by_update:
  "unique_by f s \<Longrightarrow> (\<And>k' r'. map_of s k' = Some r' \<Longrightarrow> f r' = f r \<Longrightarrow> k' = k) \<Longrightarrow>
   unique_by f (AList.update k r s)"
  by (auto simp: unique_by_def update_conv')

lemma unique_by_delete [simp, intro]: "unique_by f s \<Longrightarrow> unique_by f (AList.delete k s)"
  by (auto simp: unique_by_def split: if_splits)

lemma unique_byD:
  "unique_by f s \<Longrightarrow> map_of s k = Some r \<Longrightarrow> map_of s k' = Some r' \<Longrightarrow> f r = f r' \<Longrightarrow> k = k' \<and> r = r'"
  unfolding unique_by_def by (metis option.inject)

lemma list_ex_gomap: "wf_gomap s \<Longrightarrow> list_ex Q s \<longleftrightarrow> (\<exists>k r. map_of s k = Some r \<and> Q (k, r))"
  by (auto simp: list_ex_iff gomap_in_iff[symmetric])

text \<open>The first record, in the map's order, that satisfies a test.\<close>

fun findRecord :: "('r \<Rightarrow> bool) \<Rightarrow> ('k, 'r) gomap \<Rightarrow> err + 'r" where
  "findRecord Q [] = Inl (Store ErrRecordNotFound)"
| "findRecord Q ((k, r) # s) = (if Q r then Inr r else findRecord Q s)"

lemma findRecord_set:
  "findRecord Q s = Inr r \<Longrightarrow> Q r \<and> (\<exists>k. (k, r) \<in> set s)"
  "(\<exists>e. findRecord Q s = Inl e) \<longleftrightarrow> (\<forall>(k, r) \<in> set s. \<not> Q r)"
  "findRecord Q s = Inl e \<Longrightarrow> e = Store ErrRecordNotFound"
  by (induction Q s rule: findRecord.induct) (auto split: if_splits)

lemma findRecord_Inr:
  assumes "wf_gomap s" and "findRecord Q s = Inr r"
  obtains k where "map_of s k = Some r" "Q r"
  using findRecord_set(1)[OF assms(2)] assms(1) by (auto simp: gomap_in_iff)

lemma findRecord_None:
  assumes "wf_gomap s"
  shows "findRecord Q s = Inl (Store ErrRecordNotFound) \<longleftrightarrow> (\<forall>k r. map_of s k = Some r \<longrightarrow> \<not> Q r)"
proof -
  have "findRecord Q s = Inl (Store ErrRecordNotFound) \<longleftrightarrow> (\<exists>e. findRecord Q s = Inl e)"
    using findRecord_set(3) by blast
  with assms show ?thesis by (auto simp: findRecord_set(2) gomap_in_iff)
qed

text \<open>Under a field no two records share, the order does not matter.\<close>

lemma findRecord_unique:
  assumes "wf_gomap s" and "unique_by f s" and "map_of s k = Some r"
  shows "findRecord (\<lambda>r'. f r' = f r) s = Inr r"
proof (cases "findRecord (\<lambda>r'. f r' = f r) s")
  case (Inl e)
  then have "findRecord (\<lambda>r'. f r' = f r) s = Inl (Store ErrRecordNotFound)"
    using findRecord_set(3) by metis
  with assms show ?thesis by (auto simp: findRecord_None)
next
  case (Inr r')
  then obtain k' where "map_of s k' = Some r'" "f r' = f r" by (rule findRecord_Inr[OF assms(1)])
  with assms(2,3) Inr show ?thesis by (metis unique_byD)
qed

subsection \<open>Tenants\<close>

datatype status = Active | WriteLocked | Disabled | OtherStatus string

fun valid_status :: "status \<Rightarrow> bool" where
  "valid_status (OtherStatus _) = False"
| "valid_status _ = True"

record tenant =
  t_ID :: did
  t_ExternalID :: string
  t_Status :: status
  t_CreatedAt :: instant
  t_UpdatedAt :: instant

type_synonym tenants = "(did, tenant) gomap"

definition tenant_Add :: "instant \<Rightarrow> did \<Rightarrow> string \<Rightarrow> status \<Rightarrow> tenants \<Rightarrow> (err + unit) \<times> tenants" where
  "tenant_Add now ident externalID status s =
     (if ident = Undef then (Inl (Store ErrInvalidArgument), s)
      else if \<not> valid_status status then (Inl (Store ErrInvalidArgument), s)
      else if map_of s ident \<noteq> None then (Inl (Store ErrRecordExists), s)
      else if list_ex (\<lambda>p. t_ExternalID (snd p) = externalID) s then (Inl (Store ErrRecordExists), s)
      else (Inr (), AList.update ident \<lparr>t_ID = ident, t_ExternalID = externalID, t_Status = status,
              t_CreatedAt = now, t_UpdatedAt = now\<rparr> s))"

definition tenant_Get :: "tenants \<Rightarrow> did \<Rightarrow> err + tenant" where
  "tenant_Get s ident = mapGet s ident"

definition tenant_GetByExternalID :: "tenants \<Rightarrow> string \<Rightarrow> err + tenant" where
  "tenant_GetByExternalID s externalID = findRecord (\<lambda>r. t_ExternalID r = externalID) s"

definition tenant_SetStatus :: "instant \<Rightarrow> did \<Rightarrow> status \<Rightarrow> tenants \<Rightarrow> (err + unit) \<times> tenants" where
  "tenant_SetStatus now ident status s =
     (if \<not> valid_status status then (Inl (Store ErrInvalidArgument), s)
      else (case map_of s ident of
              None \<Rightarrow> (Inl (Store ErrRecordNotFound), s)
            | Some r \<Rightarrow> (Inr (), AList.update ident (r\<lparr>t_Status := status, t_UpdatedAt := now\<rparr>) s)))"

definition tenant_Delete :: "did \<Rightarrow> tenants \<Rightarrow> tenants" where
  "tenant_Delete ident s = AList.delete ident s"

definition tenants_ok :: "tenants \<Rightarrow> bool" where
  "tenants_ok s \<longleftrightarrow> wf_gomap s \<and>
     all_records (\<lambda>k r. t_ID r = k \<and> k \<noteq> Undef \<and> valid_status (t_Status r)) s \<and>
     unique_by t_ExternalID s"

lemma tenant_Add_Inr:
  assumes "tenant_Add now ident ext st s = (Inr (), s')"
  shows "ident \<noteq> Undef" "valid_status st" "map_of s ident = None"
    "\<forall>(k, r) \<in> set s. t_ExternalID r \<noteq> ext"
    "s' = AList.update ident \<lparr>t_ID = ident, t_ExternalID = ext, t_Status = st,
       t_CreatedAt = now, t_UpdatedAt = now\<rparr> s"
  using assms by (auto simp: tenant_Add_def list_ex_iff split: if_splits)

lemma tenants_ok_Add:
  assumes "tenants_ok s" and "tenant_Add now ident ext st s = (Inr (), s')"
  shows "tenants_ok s'"
  using assms(1) tenant_Add_Inr[OF assms(2)]
  by (auto simp: tenants_ok_def intro!: unique_by_update dest!: map_of_SomeD)

lemma tenants_ok_SetStatus:
  assumes "tenants_ok s" and "tenant_SetStatus now ident st s = (r, s')"
  shows "tenants_ok s'"
proof (cases "map_of s ident")
  case None
  with assms show ?thesis by (auto simp: tenant_SetStatus_def split: if_splits)
next
  case (Some r)
  with assms(1) have "t_ID r = ident" "ident \<noteq> Undef"
    by (auto simp: tenants_ok_def dest: all_recordsD)
  with Some assms show ?thesis
    by (auto simp: tenants_ok_def tenant_SetStatus_def split: if_splits
        dest: unique_byD intro!: unique_by_update)
qed

lemma tenants_ok_Delete: "tenants_ok s \<Longrightarrow> tenants_ok (tenant_Delete ident s)"
  by (auto simp: tenants_ok_def tenant_Delete_def)

lemma tenant_GetByExternalID_Some:
  "tenants_ok s \<Longrightarrow> map_of s k = Some r \<Longrightarrow> tenant_GetByExternalID s (t_ExternalID r) = Inr r"
  unfolding tenant_GetByExternalID_def tenants_ok_def by (auto intro: findRecord_unique)

interpretation tenants: record_store tenants_ok tenant_Get
    "\<lambda>(now, ident, ext, st). tenant_Add now ident ext st" "\<lambda>(now, ident, ext, st). ident"
    "\<lambda>(now, ident, ext, st). \<lparr>t_ID = ident, t_ExternalID = ext, t_Status = st, t_CreatedAt = now, t_UpdatedAt = now\<rparr>"
    tenant_Delete
proof (unfold_locales, goal_cases)
  case (1 i s e s')
  then show ?case by (auto simp: tenant_Add_def split: if_splits prod.splits)
next
  case (2 s i s')
  then show ?case by (cases i) (auto intro: tenants_ok_Add)
next
  case (3 s i s' k)
  then show ?case by (cases i) (auto simp: tenant_Get_def dest!: tenant_Add_Inr(5))
qed (auto simp: tenant_Get_def tenants_ok_Delete, simp_all add: tenant_Delete_def)

subsection \<open>Providers\<close>

text \<open>The memory backend keeps the providers in a slice, in the order they were added.\<close>

record provider =
  pr_ID :: did
  pr_Region :: string
  pr_Policy :: "did option"
  pr_CreatedAt :: instant
  pr_UpdatedAt :: instant

type_synonym providers = "provider list"

definition provider_Add :: "instant \<Rightarrow> did \<Rightarrow> string \<Rightarrow> did option \<Rightarrow> providers \<Rightarrow> (err + unit) \<times> providers" where
  "provider_Add now ident region policy s =
     (if ident = Undef then (Inl (Store ErrInvalidArgument), s)
      else if region = [] then (Inl (Store ErrInvalidArgument), s)
      else if list_ex (\<lambda>p. pr_ID p = ident \<or> pr_Region p = region) s then (Inl (Store ErrRecordExists), s)
      else if policy = Some Undef then (Inl (Store ErrInvalidArgument), s)
      else (Inr (), s @ [\<lparr>pr_ID = ident, pr_Region = region, pr_Policy = policy,
              pr_CreatedAt = now, pr_UpdatedAt = now\<rparr>]))"

definition firstProvider :: "(provider \<Rightarrow> bool) \<Rightarrow> providers \<Rightarrow> err + provider" where
  "firstProvider Q s = (case List.find Q s of None \<Rightarrow> Inl (Store ErrRecordNotFound) | Some p \<Rightarrow> Inr p)"

definition provider_Get :: "providers \<Rightarrow> did \<Rightarrow> err + provider" where
  "provider_Get s ident = firstProvider (\<lambda>p. pr_ID p = ident) s"

definition provider_GetByRegion :: "providers \<Rightarrow> string \<Rightarrow> err + provider" where
  "provider_GetByRegion s region = firstProvider (\<lambda>p. pr_Region p = region) s"

fun setPolicyLoop :: "instant \<Rightarrow> did \<Rightarrow> did \<Rightarrow> providers \<Rightarrow> (err + unit) \<times> providers" where
  "setPolicyLoop now ident policy [] = (Inl (Store ErrRecordNotFound), [])"
| "setPolicyLoop now ident policy (p # ps) =
     (if pr_ID p = ident then (Inr (), p\<lparr>pr_Policy := Some policy, pr_UpdatedAt := now\<rparr> # ps)
      else (let (r, ps') = setPolicyLoop now ident policy ps in (r, p # ps')))"

definition provider_SetPolicy :: "instant \<Rightarrow> did \<Rightarrow> did \<Rightarrow> providers \<Rightarrow> (err + unit) \<times> providers" where
  "provider_SetPolicy now ident policy s =
     (if policy = Undef then (Inl (Store ErrInvalidArgument), s) else setPolicyLoop now ident policy s)"

definition provider_List :: "providers \<Rightarrow> provider list" where
  "provider_List s = sort_key (\<lambda>p. did_string (pr_ID p)) s"

definition providers_ok :: "providers \<Rightarrow> bool" where
  "providers_ok s \<longleftrightarrow> distinct (map pr_ID s) \<and> distinct (map pr_Region s) \<and>
     (\<forall>p \<in> set s. pr_ID p \<noteq> Undef \<and> pr_Region p \<noteq> [] \<and> pr_Policy p \<noteq> Some Undef)"

lemma providers_ok_Add:
  "providers_ok s \<Longrightarrow> provider_Add now ident region policy s = (Inr (), s') \<Longrightarrow> providers_ok s'"
  by (auto simp: providers_ok_def provider_Add_def list_ex_iff split: if_splits)

lemma setPolicyLoop_same:
  "setPolicyLoop now ident policy s = (r, s') \<Longrightarrow>
     map pr_ID s' = map pr_ID s \<and> map pr_Region s' = map pr_Region s \<and>
     (\<forall>p \<in> set s'. p \<in> set s \<or> (pr_Policy p = Some policy \<and> (\<exists>q \<in> set s. pr_ID p = pr_ID q \<and> pr_Region p = pr_Region q)))"
  by (induction s arbitrary: r s') (fastforce split: if_splits prod.splits)+

lemma providers_ok_SetPolicy:
  assumes "providers_ok s" and "provider_SetPolicy now ident policy s = (r, s')"
  shows "providers_ok s'"
proof (cases "policy = Undef")
  case False
  with assms(2) have "setPolicyLoop now ident policy s = (r, s')" by (simp add: provider_SetPolicy_def)
  from setPolicyLoop_same[OF this] assms(1) False show ?thesis
    unfolding providers_ok_def by (metis option.inject)
qed (use assms in \<open>simp add: provider_SetPolicy_def\<close>)

lemma firstProvider_Inr:
  assumes "firstProvider Q s = Inr p"
  shows "p \<in> set s \<and> Q p"
  using assms by (auto simp: firstProvider_def find_Some_iff split: option.splits intro: nth_mem)

lemma provider_GetByRegion_Inr:
  assumes "providers_ok s" and "provider_GetByRegion s region = Inr p"
  shows "p \<in> set s" and "pr_Region p = region" and "q \<in> set s \<Longrightarrow> pr_Region q = region \<Longrightarrow> q = p"
  using firstProvider_Inr[OF assms(2)[unfolded provider_GetByRegion_def]] assms(1)
  by (auto simp: providers_ok_def distinct_map inj_on_def)

subsection \<open>Buckets\<close>

definition is_name_char :: "char \<Rightarrow> bool" where
  "is_name_char c \<longleftrightarrow> is_lower c \<or> is_digit c"

text \<open>The regular expression \<open>^[a-z0-9][a-z0-9.-]{1,61}[a-z0-9]$\<close>.\<close>

definition ValidateName :: "string \<Rightarrow> err + unit" where
  "ValidateName n =
     (if 3 \<le> length n \<and> length n \<le> 63 \<and> is_name_char (hd n) \<and> is_name_char (last n) \<and>
         list_all (\<lambda>c. is_name_char c \<or> c = CHR ''.'' \<or> c = CHR ''-'') (butlast (tl n))
      then Inr () else Inl (Store ErrInvalidArgument))"

record bucket =
  b_ID :: did
  b_Tenant :: did
  b_Provider :: did
  b_Name :: string
  b_CreatedAt :: instant

type_synonym buckets = "(did, bucket) gomap"

definition bucket_Add :: "instant \<Rightarrow> did \<Rightarrow> did \<Rightarrow> did \<Rightarrow> string \<Rightarrow> buckets \<Rightarrow> (err + unit) \<times> buckets" where
  "bucket_Add now ident ten prov nm s =
     (if ident = Undef then (Inl (Store ErrInvalidArgument), s)
      else if ten = Undef then (Inl (Store ErrInvalidArgument), s)
      else if prov = Undef then (Inl (Store ErrInvalidArgument), s)
      else (case ValidateName nm of
              Inl e \<Rightarrow> (Inl e, s)
            | Inr _ \<Rightarrow>
                if list_ex (\<lambda>p. b_ID (snd p) = ident \<or> b_Name (snd p) = nm) s
                then (Inl (Store ErrRecordExists), s)
                else (Inr (), AList.update ident \<lparr>b_ID = ident, b_Tenant = ten, b_Provider = prov,
                        b_Name = nm, b_CreatedAt = now\<rparr> s)))"

definition bucket_Has :: "buckets \<Rightarrow> did \<Rightarrow> bool" where
  "bucket_Has s ident \<longleftrightarrow> map_of s ident \<noteq> None"

definition bucket_GetByName :: "buckets \<Rightarrow> string \<Rightarrow> err + bucket" where
  "bucket_GetByName s nm = findRecord (\<lambda>b. b_Name b = nm) s"

definition bucket_Delete :: "did \<Rightarrow> buckets \<Rightarrow> buckets" where
  "bucket_Delete ident s = AList.delete ident s"

definition buckets_ok :: "buckets \<Rightarrow> bool" where
  "buckets_ok s \<longleftrightarrow> wf_gomap s \<and>
     all_records (\<lambda>k b. b_ID b = k \<and> k \<noteq> Undef \<and> b_Tenant b \<noteq> Undef \<and> b_Provider b \<noteq> Undef \<and>
       ValidateName (b_Name b) = Inr ()) s \<and>
     unique_by b_Name s"

lemma buckets_okD:
  assumes "buckets_ok s"
  shows "wf_gomap s" "unique_by b_Name s"
    "map_of s k = Some b \<Longrightarrow> b_ID b = k \<and> k \<noteq> Undef \<and> b_Tenant b \<noteq> Undef \<and> b_Provider b \<noteq> Undef \<and>
       ValidateName (b_Name b) = Inr ()"
proof -
  show "wf_gomap s" "unique_by b_Name s" using assms by (simp_all add: buckets_ok_def)
  assume m: "map_of s k = Some b"
  have "all_records (\<lambda>k b. b_ID b = k \<and> k \<noteq> Undef \<and> b_Tenant b \<noteq> Undef \<and> b_Provider b \<noteq> Undef \<and>
       ValidateName (b_Name b) = Inr ()) s"
    using assms unfolding buckets_ok_def by (elim conjE)
  from all_recordsD[OF this m] show "b_ID b = k \<and> k \<noteq> Undef \<and> b_Tenant b \<noteq> Undef \<and> b_Provider b \<noteq> Undef \<and>
       ValidateName (b_Name b) = Inr ()" .
qed

lemma bucket_Add_Inr:
  assumes "bucket_Add now ident ten prov nm s = (Inr (), s')"
  shows "ident \<noteq> Undef" "ten \<noteq> Undef" "prov \<noteq> Undef" "ValidateName nm = Inr ()"
    "\<forall>(k, b) \<in> set s. b_ID b \<noteq> ident \<and> b_Name b \<noteq> nm"
    "s' = AList.update ident \<lparr>b_ID = ident, b_Tenant = ten, b_Provider = prov, b_Name = nm, b_CreatedAt = now\<rparr> s"
  using assms by (auto simp: bucket_Add_def list_ex_iff split: if_splits sum.splits)

lemma buckets_ok_Add:
  assumes "buckets_ok s" and "bucket_Add now ident ten prov nm s = (Inr (), s')"
  shows "buckets_ok s'"
  using assms(1) bucket_Add_Inr[OF assms(2)]
  by (auto simp: buckets_ok_def intro!: unique_by_update dest!: map_of_SomeD)

lemma buckets_ok_Delete: "buckets_ok s \<Longrightarrow> buckets_ok (bucket_Delete ident s)"
  by (auto simp: buckets_ok_def bucket_Delete_def)

lemma bucket_GetByName_Some:
  "buckets_ok s \<Longrightarrow> map_of s k = Some b \<Longrightarrow> bucket_GetByName s (b_Name b) = Inr b"
  unfolding bucket_GetByName_def buckets_ok_def by (auto intro: findRecord_unique)

lemma bucket_GetByName_Inr:
  assumes "buckets_ok s" and "bucket_GetByName s nm = Inr b"
  shows "map_of s (b_ID b) = Some b" and "b_Name b = nm"
  using assms findRecord_Inr[of s "\<lambda>b. b_Name b = nm" b]
  by (auto simp: bucket_GetByName_def buckets_ok_def dest: all_recordsD)

interpretation buckets: record_store buckets_ok "\<lambda>s k. mapGet s k"
    "\<lambda>(now, ident, ten, prov, nm). bucket_Add now ident ten prov nm" "\<lambda>(now, ident, ten, prov, nm). ident"
    "\<lambda>(now, ident, ten, prov, nm). \<lparr>b_ID = ident, b_Tenant = ten, b_Provider = prov, b_Name = nm, b_CreatedAt = now\<rparr>"
    bucket_Delete
proof (unfold_locales, goal_cases)
  case (1 i s e s')
  then show ?case by (auto simp: bucket_Add_def split: if_splits prod.splits sum.splits)
next
  case (2 s i s')
  then show ?case by (cases i) (auto intro: buckets_ok_Add)
next
  case (3 s i s' k)
  then show ?case by (cases i) (auto dest!: bucket_Add_Inr(6))
qed (auto simp: buckets_ok_Delete, simp_all add: bucket_Delete_def)

subsection \<open>Access keys\<close>

text \<open>A key without a principal is a service key; one with a principal is bound to it.\<close>

record access_key =
  k_ID :: did
  k_Tenant :: did
  k_Name :: string
  k_Buckets :: "did list"
  k_Permissions :: "string list"
  k_Principal :: "string option"
  k_CreatedAt :: instant
  k_ExpiresAt :: "instant option"

record key_input =
  in_ID :: did
  in_Tenant :: did
  in_Name :: string
  in_Buckets :: "did list"
  in_Permissions :: "string list"
  in_Principal :: "string option"
  in_ExpiresAt :: "instant option"

definition key_Validate :: "key_input \<Rightarrow> err + unit" where
  "key_Validate i =
     (if in_ID i = Undef then Inl (Store ErrInvalidArgument)
      else if in_Tenant i = Undef then Inl (Store ErrInvalidArgument)
      else if in_Name i = [] then Inl (Store ErrInvalidArgument)
      else if Undef \<in> set (in_Buckets i) then Inl (Store ErrInvalidArgument)
      else if in_Principal i = Some [] then Inl (Store ErrInvalidArgument)
      else if in_Principal i \<noteq> None \<and> (length (in_Permissions i) > 0 \<or> length (in_Buckets i) > 0)
      then Inl (Store ErrInvalidArgument)
      else Inr ())"

definition NewServiceKey ::
  "did \<Rightarrow> did \<Rightarrow> string \<Rightarrow> did list \<Rightarrow> string list \<Rightarrow> instant option \<Rightarrow> key_input \<times> (err + unit)" where
  "NewServiceKey ident ten nm bs perms exp =
     (let i = \<lparr>in_ID = ident, in_Tenant = ten, in_Name = nm, in_Buckets = bs, in_Permissions = perms,
               in_Principal = None, in_ExpiresAt = exp\<rparr>
      in (i, key_Validate i))"

definition NewPrincipalKey ::
  "did \<Rightarrow> did \<Rightarrow> string \<Rightarrow> string \<Rightarrow> instant option \<Rightarrow> key_input \<times> (err + unit)" where
  "NewPrincipalKey ident ten nm prin exp =
     (let i = \<lparr>in_ID = ident, in_Tenant = ten, in_Name = nm, in_Buckets = [], in_Permissions = [],
               in_Principal = Some prin, in_ExpiresAt = exp\<rparr>
      in (i, key_Validate i))"

definition key_record :: "instant \<Rightarrow> key_input \<Rightarrow> access_key" where
  "key_record now i = \<lparr>k_ID = in_ID i, k_Tenant = in_Tenant i, k_Name = in_Name i,
     k_Buckets = in_Buckets i, k_Permissions = in_Permissions i, k_Principal = in_Principal i,
     k_CreatedAt = now, k_ExpiresAt = in_ExpiresAt i\<rparr>"

type_synonym access_keys = "(did, access_key) gomap"

text \<open>Whether a stored key takes the name an input asks for.\<close>

definition name_taken :: "key_input \<Rightarrow> access_key \<Rightarrow> bool" where
  "name_taken i r \<longleftrightarrow> k_Tenant r = in_Tenant i \<and> k_Name r = in_Name i \<and>
     (k_Principal r = None \<and> in_Principal i = None \<or>
      k_Principal r \<noteq> None \<and> in_Principal i \<noteq> None \<and> k_Principal r = in_Principal i)"

definition key_add :: "instant \<Rightarrow> key_input \<Rightarrow> access_keys \<Rightarrow> (err + unit) \<times> access_keys" where
  "key_add now i s =
     (if map_of s (in_ID i) \<noteq> None then (Inl (Store ErrRecordExists), s)
      else if list_ex (\<lambda>p. name_taken i (snd p)) s then (Inl (Store ErrRecordExists), s)
      else (Inr (), AList.update (in_ID i) (key_record now i) s))"

text \<open>
  The guard is the principal store's \<open>WithLive\<close>, when the store is built with it: what it
  answers for the principal, whose row it holds while the insert runs.
\<close>

definition key_Add ::
  "(did \<Rightarrow> string \<Rightarrow> err + unit) option \<Rightarrow> instant \<Rightarrow> key_input \<Rightarrow> access_keys \<Rightarrow> (err + unit) \<times> access_keys" where
  "key_Add guard now i s =
     (case key_Validate i of
        Inl e \<Rightarrow> (Inl e, s)
      | Inr _ \<Rightarrow>
          (case (in_Principal i, guard) of
             (Some p, Some g) \<Rightarrow>
               (case g (in_Tenant i) p of Inl e \<Rightarrow> (Inl e, s) | Inr _ \<Rightarrow> key_add now i s)
           | _ \<Rightarrow> key_add now i s))"

definition key_Get :: "access_keys \<Rightarrow> did \<Rightarrow> err + access_key" where
  "key_Get s ident = mapGet s ident"

record key_list_config =
  l_Principal :: "string option"
  l_Principals :: "string list option"
  l_IDs :: "did list option"

definition key_selected :: "did \<Rightarrow> key_list_config \<Rightarrow> access_key \<Rightarrow> bool" where
  "key_selected ten cfg r \<longleftrightarrow> k_Tenant r = ten \<and>
     (case l_Principal cfg of None \<Rightarrow> True | Some p \<Rightarrow> k_Principal r = Some p) \<and>
     (case l_Principals cfg of None \<Rightarrow> True
      | Some ps \<Rightarrow> (case k_Principal r of None \<Rightarrow> False | Some p \<Rightarrow> p \<in> set ps)) \<and>
     (case l_IDs cfg of None \<Rightarrow> True | Some ids \<Rightarrow> k_ID r \<in> set ids)"

definition key_ListByTenant :: "access_keys \<Rightarrow> did \<Rightarrow> key_list_config \<Rightarrow> access_key list" where
  "key_ListByTenant s ten cfg = filter (key_selected ten cfg) (map snd s)"

definition key_Delete :: "did \<Rightarrow> access_keys \<Rightarrow> access_keys" where
  "key_Delete ident s = AList.delete ident s"

text \<open>
  What every stored key satisfies; the name is unique in the tenant among service keys and in
  the principal among its keys.
\<close>

definition key_wf :: "did \<Rightarrow> access_key \<Rightarrow> bool" where
  "key_wf k r \<longleftrightarrow> k_ID r = k \<and> k \<noteq> Undef \<and> k_Tenant r \<noteq> Undef \<and> k_Name r \<noteq> [] \<and>
     Undef \<notin> set (k_Buckets r) \<and> k_Principal r \<noteq> Some [] \<and>
     (k_Principal r \<noteq> None \<longrightarrow> k_Permissions r = [] \<and> k_Buckets r = [])"

definition keys_ok :: "access_keys \<Rightarrow> bool" where
  "keys_ok s \<longleftrightarrow> wf_gomap s \<and> all_records key_wf s \<and>
     unique_by (\<lambda>r. (k_Tenant r, k_Principal r, k_Name r)) s"

lemma key_Validate_Inr:
  "key_Validate i = Inr u \<Longrightarrow> key_wf (in_ID i) (key_record now i)"
  by (auto simp: key_Validate_def key_wf_def key_record_def split: if_splits)

lemma name_taken_iff:
  "name_taken i r \<longleftrightarrow> (k_Tenant r, k_Principal r, k_Name r) = (in_Tenant i, in_Principal i, in_Name i)"
  by (cases "k_Principal r"; cases "in_Principal i") (auto simp: name_taken_def)

lemma key_add_Inr:
  assumes "key_add now i s = (Inr (), s')"
  shows "map_of s (in_ID i) = None" "\<forall>(k, r) \<in> set s. \<not> name_taken i r"
    "s' = AList.update (in_ID i) (key_record now i) s"
  using assms by (auto simp: key_add_def list_ex_iff split: if_splits)

lemma key_Add_Inr:
  assumes "key_Add g now i s = (Inr (), s')"
  shows "key_Validate i = Inr ()" "key_add now i s = (Inr (), s')"
    "in_Principal i = Some p \<Longrightarrow> g = Some live \<Longrightarrow> live (in_Tenant i) p = Inr ()"
  using assms by (auto simp: key_Add_def split: sum.splits option.splits)

lemma keys_ok_Add:
  assumes "keys_ok s" and "key_Add g now i s = (Inr (), s')"
  shows "keys_ok s'"
proof -
  note a = key_add_Inr[OF key_Add_Inr(2)[OF assms(2)]]
  have "key_wf (in_ID i) (key_record now i)" by (rule key_Validate_Inr[OF key_Add_Inr(1)[OF assms(2)]])
  moreover have "unique_by (\<lambda>r. (k_Tenant r, k_Principal r, k_Name r)) s'"
    unfolding a(3)
  proof (rule unique_by_update)
    fix k r
    assume "map_of s k = Some r" and eq: "(k_Tenant r, k_Principal r, k_Name r) =
      (k_Tenant (key_record now i), k_Principal (key_record now i), k_Name (key_record now i))"
    then have "\<not> name_taken i r" using a(2) by (auto dest: map_of_SomeD)
    with eq show "k = in_ID i" by (simp add: name_taken_iff key_record_def)
  qed (use assms(1) in \<open>simp add: keys_ok_def\<close>)
  ultimately show ?thesis using assms(1) by (simp add: keys_ok_def a(3) all_records_update)
qed

lemma key_Add_failed: "key_Add g now i s = (Inl e, s') \<Longrightarrow> s' = s"
  by (auto simp: key_Add_def key_add_def split: sum.splits option.splits if_splits)

lemma keys_ok_Delete: "keys_ok s \<Longrightarrow> keys_ok (key_Delete ident s)"
  by (auto simp: keys_ok_def key_Delete_def)

lemma set_key_ListByTenant:
  "wf_gomap s \<Longrightarrow> r \<in> set (key_ListByTenant s ten cfg) \<longleftrightarrow>
     (\<exists>k. map_of s k = Some r) \<and> key_selected ten cfg r"
  by (force simp: key_ListByTenant_def gomap_in_iff[symmetric])

interpretation access_keys: record_store keys_ok key_Get
    "\<lambda>(g, now, i). key_Add g now i" "\<lambda>(g, now, i). in_ID i" "\<lambda>(g, now, i). key_record now i" key_Delete
proof (unfold_locales, goal_cases)
  case (1 i s e s')
  then show ?case by (cases i) (auto dest: key_Add_failed)
next
  case (2 s i s')
  then show ?case by (cases i) (auto intro: keys_ok_Add)
next
  case (3 s i s' k)
  then show ?case by (cases i) (auto simp: key_Get_def dest!: key_Add_Inr(2) key_add_Inr(3))
qed (auto simp: keys_ok_Delete key_Get_def, simp_all add: key_Delete_def)

subsection \<open>Properties\<close>

text \<open>
  Bucket names are global and unique: after any successful creation the bucket is found
  under its name with the tenant and provider it was created for, every other name resolves as
  before, and the name was valid and taken by no bucket of any tenant; and a creation that
  fails leaves every name resolving as it did.
\<close>

theorem bucket_names_unique:
  assumes "buckets_ok s" and "bucket_Add now ident ten prov nm s = (r, s')"
  shows "buckets_ok s' \<and>
    (r = Inr () \<longrightarrow> ValidateName nm = Inr () \<and>
       bucket_GetByName s nm = Inl (Store ErrRecordNotFound) \<and>
       (\<exists>b. bucket_GetByName s' nm = Inr b \<and> b_ID b = ident \<and> b_Tenant b = ten \<and> b_Provider b = prov)) \<and>
    (r \<noteq> Inr () \<longrightarrow> s' = s)"
proof (cases r)
  case (Inl e)
  with assms have "s' = s" by (auto simp: bucket_Add_def split: if_splits sum.splits)
  with assms Inl show ?thesis by simp
next
  case (Inr u)
  with assms(2) have add: "bucket_Add now ident ten prov nm s = (Inr (), s')" by simp
  note a = bucket_Add_Inr[OF add]
  have ok: "buckets_ok s'" using buckets_ok_Add[OF assms(1) add] .
  have "bucket_GetByName s nm = Inl (Store ErrRecordNotFound)"
    using a(5) assms(1) by (auto simp: bucket_GetByName_def findRecord_None buckets_ok_def dest!: map_of_SomeD)
  moreover have "map_of s' ident = Some \<lparr>b_ID = ident, b_Tenant = ten, b_Provider = prov, b_Name = nm, b_CreatedAt = now\<rparr>"
    by (simp add: a(6) update_conv')
  from bucket_GetByName_Some[OF ok this]
  have "\<exists>b. bucket_GetByName s' nm = Inr b \<and> b_ID b = ident \<and> b_Tenant b = ten \<and> b_Provider b = prov"
    by simp
  ultimately show ?thesis using ok a(4) Inr by simp
qed

theorem bucket_names_unique_witness:
  "\<exists>b. bucket_GetByName (snd (bucket_Add 0 (Did ''b1'') (Did ''t1'') (Did ''p1'') ''photos'' [])) ''photos'' = Inr b \<and>
     b_ID b = Did ''b1'' \<and> b_Tenant b = Did ''t1''"
proof -
  have ok: "buckets_ok []" by (simp add: buckets_ok_def)
  have "fst (bucket_Add 0 (Did ''b1'') (Did ''t1'') (Did ''p1'') ''photos'' []) = Inr ()"
    by code_simp
  with bucket_names_unique[OF ok surjective_pairing, of 0 "Did ''b1''" "Did ''t1''" "Did ''p1''" "''photos''"]
  show ?thesis by auto
qed

text \<open>
  An access key is one of two kinds and stays so: a creation that succeeds leaves every
  stored key with its own id, tenant and name, a principal-bound key with no permissions and
  no bucket scope of its own, and no two service keys of a tenant, nor two keys of a
  principal, with one name; the new key reads back as its input says, and where the store is
  guarded its principal was live.
\<close>

theorem access_key_kinds:
  assumes "keys_ok s" and "key_Add g now i s = (r, s')"
  shows "keys_ok s' \<and>
    (r = Inr () \<longrightarrow> key_Get s' (in_ID i) = Inr (key_record now i) \<and>
       (\<forall>p live. in_Principal i = Some p \<and> g = Some live \<longrightarrow> live (in_Tenant i) p = Inr ())) \<and>
    (r \<noteq> Inr () \<longrightarrow> s' = s)"
proof (cases r)
  case (Inl e)
  with assms show ?thesis by (auto dest: key_Add_failed)
next
  case (Inr u)
  with assms(2) have add: "key_Add g now i s = (Inr (), s')" by simp
  then show ?thesis
    using assms(1) keys_ok_Add[OF assms(1) add] access_keys.add_get[of s "(g, now, i)" s' "in_ID i"]
      key_Add_Inr(3)[OF add] Inr by auto
qed

theorem access_key_kinds_witness:
  "let i = fst (NewPrincipalKey (Did ''k1'') (Did ''t1'') ''laptop'' ''alice'' None);
       s' = snd (key_Add (Some (\<lambda>t p. Inr ())) 0 i [])
   in keys_ok s' \<and> key_Get s' (Did ''k1'') = Inr (key_record 0 i) \<and> k_Permissions (key_record 0 i) = []"
proof -
  let ?i = "fst (NewPrincipalKey (Did ''k1'') (Did ''t1'') ''laptop'' ''alice'' None)"
  have ok: "keys_ok []" by (simp add: keys_ok_def)
  have "fst (key_Add (Some (\<lambda>t p. Inr ())) 0 ?i []) = Inr ()" "in_ID ?i = Did ''k1''"
      "k_Permissions (key_record 0 ?i) = []"
    by (simp_all add: NewPrincipalKey_def key_Add_def key_Validate_def key_add_def key_record_def)
  with access_key_kinds[OF ok surjective_pairing, of "Some (\<lambda>t p. Inr ())" 0 ?i]
  show ?thesis by (simp add: Let_def)
qed

end
