(* ===== verification/Principal_Store.thy ===== *)
theory Principal_Store
  imports Stores "HOL-Library.Product_Lexorder"
begin

text \<open>
  \<open>pkg/store/principal\<close> and its memory backend: the principals of the tenants, tombstones
  included, the rows calls hold while their callbacks run, and the order rows are taken in.

  A call that takes a callback works on the store and a rest \<open>'w\<close> of the world the callback may
  change, so a callback sees the rows the call holds. A row an enclosing call holds is in
  \<open>p_held\<close>: waiting for it again runs into the bound. A row some other call holds for longer
  than the bound, or a wait the context ends, is an answer of \<open>p_wait\<close>.
\<close>

subsection \<open>State\<close>

record principal_rec =
  p_Tenant :: did
  p_ExternalID :: string
  p_CreatedAt :: instant

record entry =
  p_rec :: principal_rec
  p_deleted :: bool

type_synonym row = "did \<times> string"

text \<open>The nested maps of the backend are one map from rows.\<close>

record principals =
  p_rows :: "(row, entry) gomap"
  p_held :: "row list"
  p_wait :: "row \<Rightarrow> err option"

type_synonym ('a, 'w) step = "principals \<times> 'w \<Rightarrow> (err + 'a) \<times> principals \<times> 'w"

subsection \<open>Holding rows\<close>

fun holdLoop :: "row list \<Rightarrow> principals \<Rightarrow> (err + unit) \<times> principals" where
  "holdLoop [] ps = (Inr (), ps)"
| "holdLoop (r # rs) ps =
     (if r \<in> set (p_held ps) then (Inl (Store ErrLockTimeout), ps)
      else (case p_wait ps r of
              Some e \<Rightarrow> (Inl e, ps)
            | None \<Rightarrow> holdLoop rs (ps\<lparr>p_held := r # p_held ps\<rparr>)))"

definition sortedRows :: "row list \<Rightarrow> row list" where
  "sortedRows rs = remdups_adj (sort rs)"

definition release :: "row list \<Rightarrow> principals \<Rightarrow> principals" where
  "release rs ps = ps\<lparr>p_held := filter (\<lambda>r. r \<notin> set rs) (p_held ps)\<rparr>"

text \<open>A wait that fails gives back what was taken.\<close>

definition hold :: "row list \<Rightarrow> principals \<Rightarrow> (err + unit) \<times> principals" where
  "hold rs ps =
     (case holdLoop (sortedRows rs) ps of
        (Inl e, _) \<Rightarrow> (Inl e, ps)
      | (Inr _, ps') \<Rightarrow> (Inr (), ps'))"

text \<open>Run a body with the rows held, and give them back whatever it answers.\<close>

definition withRows :: "row list \<Rightarrow> ('a, 'w) step \<Rightarrow> ('a, 'w) step" where
  "withRows rs body s =
     (case hold rs (fst s) of
        (Inl e, _) \<Rightarrow> (Inl e, s)
      | (Inr _, ps) \<Rightarrow>
          (let (r, ps', w') = body (ps, snd s) in (r, release rs ps', w')))"

subsection \<open>Operations\<close>

definition live :: "principals \<Rightarrow> row \<Rightarrow> bool" where
  "live ps r \<longleftrightarrow> (case map_of (p_rows ps) r of None \<Rightarrow> False | Some e \<Rightarrow> \<not> p_deleted e)"

definition WithLive :: "did \<Rightarrow> string \<Rightarrow> ('a, 'w) step \<Rightarrow> ('a, 'w) step" where
  "WithLive t x fn =
     withRows [(t, x)]
       (\<lambda>(ps, w). if \<not> live ps (t, x) then (Inl (Store ErrInvalidArgument), ps, w) else fn (ps, w))"

definition liveRows :: "principals \<Rightarrow> did \<Rightarrow> string list \<Rightarrow> row list" where
  "liveRows ps t ids = filter (live ps) (map (\<lambda>x. (t, x)) ids)"

definition newEntry :: "instant \<Rightarrow> did \<Rightarrow> string \<Rightarrow> entry" where
  "newEntry now t x = \<lparr>p_rec = \<lparr>p_Tenant = t, p_ExternalID = x, p_CreatedAt = now\<rparr>, p_deleted = False\<rparr>"

definition principal_Add :: "instant \<Rightarrow> did \<Rightarrow> string \<Rightarrow> (unit, 'w) step" where
  "principal_Add now t x s =
     (if t = Undef then (Inl (Store ErrInvalidArgument), s)
      else if x = [] then (Inl (Store ErrInvalidArgument), s)
      else withRows [(t, x)]
        (\<lambda>(ps, w).
           if live ps (t, x) then (Inl (Store ErrRecordExists), ps, w)
           else (Inr (), ps\<lparr>p_rows := AList.update (t, x) (newEntry now t x) (p_rows ps)\<rparr>, w)) s)"

definition lookup :: "principals \<Rightarrow> row \<Rightarrow> err + principal_rec" where
  "lookup ps r =
     (case map_of (p_rows ps) r of
        None \<Rightarrow> Inl (Store ErrRecordNotFound)
      | Some e \<Rightarrow> if p_deleted e then Inl (Store ErrRecordNotFound) else Inr (p_rec e))"

text \<open>A share-locked read takes the row's slot; it leaves the store as it was.\<close>

definition principal_Get :: "bool \<Rightarrow> principals \<Rightarrow> did \<Rightarrow> string \<Rightarrow> err + principal_rec" where
  "principal_Get share ps t x =
     (if share then (case hold [(t, x)] ps of (Inl e, _) \<Rightarrow> Inl e | (Inr _, ps') \<Rightarrow> lookup ps' (t, x))
      else lookup ps (t, x))"

definition liveOf :: "principals \<Rightarrow> did \<Rightarrow> (row \<times> entry) list" where
  "liveOf ps t = filter (\<lambda>(r, e). fst r = t \<and> \<not> p_deleted e) (p_rows ps)"

definition principal_ListByTenant :: "principals \<Rightarrow> did \<Rightarrow> principal_rec list" where
  "principal_ListByTenant ps t = sort_key p_ExternalID (map (p_rec \<circ> snd) (liveOf ps t))"

definition ListIDsByTenant :: "principals \<Rightarrow> did \<Rightarrow> string list" where
  "ListIDsByTenant ps t = sort (map (snd \<circ> fst) (liveOf ps t))"

definition markDeleted :: "row \<Rightarrow> principals \<Rightarrow> principals" where
  "markDeleted r ps =
     (case map_of (p_rows ps) r of
        None \<Rightarrow> ps
      | Some e \<Rightarrow> if p_deleted e then ps
                  else ps\<lparr>p_rows := AList.update r (e\<lparr>p_deleted := True\<rparr>) (p_rows ps)\<rparr>)"

definition Tombstone :: "did \<Rightarrow> string \<Rightarrow> (unit, 'w) step option \<Rightarrow> (unit, 'w) step" where
  "Tombstone t x fn =
     withRows [(t, x)]
       (\<lambda>(ps, w).
          if \<not> live ps (t, x) then (Inr (), ps, w)
          else (let (r, ps', w') = (case fn of None \<Rightarrow> (Inr (), ps, w) | Some f \<Rightarrow> f (ps, w)) in
                case r of
                  Inl e \<Rightarrow> (Inl e, ps', w')
                | Inr _ \<Rightarrow> (Inr (), markDeleted (t, x) ps', w')))"

definition WithLock :: "did \<Rightarrow> string list \<Rightarrow> ('a, 'w) step \<Rightarrow> ('a, 'w) step" where
  "WithLock t ids fn s = (if length ids = 0 then fn s else withRows (liveRows (fst s) t ids) fn s)"

definition principal_DeleteByTenant :: "did \<Rightarrow> (unit, 'w) step" where
  "principal_DeleteByTenant t s =
     withRows (filter (\<lambda>r. fst r = t) (map fst (p_rows (fst s))))
       (\<lambda>(ps, w). (Inr (), ps\<lparr>p_rows := filter (\<lambda>(r, e). fst r \<noteq> t) (p_rows ps)\<rparr>, w)) s"

subsection \<open>Holding is balanced\<close>

lemma set_sortedRows [simp]: "set (sortedRows rs) = set rs"
  by (simp add: sortedRows_def)

lemma distinct_remdups_adj_sorted: "sorted xs \<Longrightarrow> distinct (remdups_adj xs)"
  by (induction xs rule: remdups_adj.induct) (auto simp: order.antisym)

lemma distinct_sortedRows [simp]: "distinct (sortedRows rs)" "sorted (sortedRows rs)"
  by (simp_all add: sortedRows_def distinct_remdups_adj_sorted)

lemma sortedRows_single [simp]: "sortedRows [r] = [r]"
  by (simp add: sortedRows_def)

lemma holdLoop_Inr:
  "holdLoop rs ps = (Inr (), ps') \<Longrightarrow> distinct rs \<Longrightarrow>
     ps' = ps\<lparr>p_held := rev rs @ p_held ps\<rparr> \<and> set rs \<inter> set (p_held ps) = {} \<and>
     (\<forall>r \<in> set rs. p_wait ps r = None)"
  by (induction rs ps rule: holdLoop.induct) (auto split: if_splits option.splits)

lemma holdLoop_free:
  "distinct rs \<Longrightarrow> set rs \<inter> set (p_held ps) = {} \<Longrightarrow> \<forall>r \<in> set rs. p_wait ps r = None \<Longrightarrow>
     holdLoop rs ps = (Inr (), ps\<lparr>p_held := rev rs @ p_held ps\<rparr>)"
  by (induction rs ps rule: holdLoop.induct) auto

lemma hold_Inr:
  assumes "hold rs ps = (Inr (), ps')"
  shows "ps' = ps\<lparr>p_held := rev (sortedRows rs) @ p_held ps\<rparr>" "set rs \<inter> set (p_held ps) = {}"
    "\<forall>r \<in> set rs. p_wait ps r = None"
  using assms holdLoop_Inr[of "sortedRows rs" ps ps']
  by (auto simp: hold_def split: prod.splits sum.splits)

lemma hold_Inl: "hold rs ps = (Inl e, ps') \<Longrightarrow> ps' = ps"
  by (auto simp: hold_def split: prod.splits sum.splits)

lemma hold_free:
  "set rs \<inter> set (p_held ps) = {} \<Longrightarrow> \<forall>r \<in> set rs. p_wait ps r = None \<Longrightarrow>
     hold rs ps = (Inr (), ps\<lparr>p_held := rev (sortedRows rs) @ p_held ps\<rparr>)"
  by (simp add: hold_def holdLoop_free)

lemma hold_held: "r \<in> set rs \<Longrightarrow> r \<in> set (p_held ps) \<Longrightarrow> \<exists>e. hold rs ps = (Inl e, ps)"
proof (cases "hold rs ps")
  case (Pair x ps')
  assume "r \<in> set rs" "r \<in> set (p_held ps)"
  then show ?thesis
    using Pair hold_Inr(2)[of rs ps ps'] hold_Inl[of rs ps _ ps'] by (cases x) auto
qed

lemma release_hold:
  assumes "hold rs ps = (Inr (), ps1)" and "p_held ps2 = p_held ps1"
  shows "p_held (release rs ps2) = p_held ps"
proof -
  have "set rs \<inter> set (p_held ps) = {}" by (rule hold_Inr(2)[OF assms(1)])
  then have "filter (\<lambda>r. r \<notin> set rs) (p_held ps) = p_held ps" by (auto intro!: filter_True)
  moreover have "filter (\<lambda>r. r \<notin> set rs) (rev (sortedRows rs)) = []" by (auto simp: filter_empty_conv)
  ultimately show ?thesis by (simp add: release_def assms(2) hold_Inr(1)[OF assms(1)])
qed

lemma release_sel [simp]:
  "p_rows (release rs ps) = p_rows ps" "p_wait (release rs ps) = p_wait ps"
  by (simp_all add: release_def)

text \<open>A step that leaves what is held as it found it.\<close>

definition balanced :: "('a, 'w) step \<Rightarrow> bool" where
  "balanced f \<longleftrightarrow> (\<forall>s. p_held (fst (snd (f s))) = p_held (fst s))"

lemma balancedD: "balanced f \<Longrightarrow> f s = (r, ps', w') \<Longrightarrow> p_held ps' = p_held (fst s)"
  unfolding balanced_def by (metis fst_conv snd_conv)

lemma balanced_withRows: "balanced body \<Longrightarrow> balanced (withRows rs body)"
  unfolding balanced_def
proof
  fix s :: "principals \<times> 'a"
  assume b: "\<forall>s. p_held (fst (snd (body s))) = p_held (fst s)"
  obtain x ps1 where h: "hold rs (fst s) = (x, ps1)" by force
  show "p_held (fst (snd (withRows rs body s))) = p_held (fst s)"
  proof (cases x)
    case (Inl e)
    with h show ?thesis by (simp add: withRows_def)
  next
    case (Inr u)
    obtain r ps2 w2 where r: "body (ps1, snd s) = (r, ps2, w2)" by (metis prod_cases3)
    with b have "p_held ps2 = p_held ps1" by (metis fst_conv snd_conv)
    with h Inr r release_hold[of rs "fst s" ps1 ps2] show ?thesis by (simp add: withRows_def)
  qed
qed

lemma balanced_WithLive: "balanced fn \<Longrightarrow> balanced (WithLive t x fn)"
  unfolding WithLive_def by (rule balanced_withRows) (auto simp: balanced_def)

lemma balanced_Add: "balanced (principal_Add now t x)"
proof -
  let ?body = "\<lambda>(ps :: principals, w :: 'a).
    if live ps (t, x) then (Inl (Store ErrRecordExists) :: err + unit, ps, w)
    else (Inr (), ps\<lparr>p_rows := AList.update (t, x) (newEntry now t x) (p_rows ps)\<rparr>, w)"
  have "balanced (withRows [(t, x)] ?body)"
    by (rule balanced_withRows) (auto simp: balanced_def)
  then show ?thesis by (auto simp: balanced_def principal_Add_def)
qed

lemma markDeleted_sel [simp]: "p_held (markDeleted r ps) = p_held ps" "p_wait (markDeleted r ps) = p_wait ps"
  by (auto simp: markDeleted_def split: option.splits)

lemma lookup_release [simp]: "lookup (release rs ps) = lookup ps"
  by (simp add: lookup_def fun_eq_iff)

lemma lookup_markDeleted:
  "lookup (markDeleted r ps) y = (if y = r then Inl (Store ErrRecordNotFound) else lookup ps y)"
  by (auto simp: lookup_def markDeleted_def update_conv' split: option.splits)

lemma balanced_Tombstone:
  assumes "\<And>f. fn = Some f \<Longrightarrow> balanced f"
  shows "balanced (Tombstone t x fn)"
  unfolding Tombstone_def
proof (rule balanced_withRows)
  show "balanced (\<lambda>(ps, w). if \<not> live ps (t, x) then (Inr (), ps, w)
      else (let (r, ps', w') = (case fn of None \<Rightarrow> (Inr (), ps, w) | Some f \<Rightarrow> f (ps, w)) in
        case r of Inl e \<Rightarrow> (Inl e, ps', w') | Inr _ \<Rightarrow> (Inr (), markDeleted (t, x) ps', w')))"
    unfolding balanced_def
  proof clarify
    fix ps w
    show "p_held (fst (snd (if \<not> live ps (t, x) then (Inr (), ps, w)
      else (let (r, ps', w') = (case fn of None \<Rightarrow> (Inr (), ps, w) | Some f \<Rightarrow> f (ps, w)) in
        case r of Inl e \<Rightarrow> (Inl e, ps', w') | Inr _ \<Rightarrow> (Inr (), markDeleted (t, x) ps', w'))))) = p_held (fst (ps, w))"
      using assms by (cases fn) (auto simp: Let_def split: prod.splits sum.splits dest!: balancedD)
  qed
qed

lemma balanced_WithLock: "balanced fn \<Longrightarrow> balanced (WithLock t ids fn)"
  using balanced_withRows[of fn] by (auto simp: balanced_def WithLock_def)

subsection \<open>The order rows are taken in\<close>

text \<open>
  The same loop as seen by concurrent callers: each has rows still to take, in order, and rows
  it holds. A step takes a caller's next row when no caller holds it, or gives back the rows of
  a caller that took all of its own.
\<close>

record caller =
  todo :: "row list"
  held :: "row list"

definition heldBy :: "caller list \<Rightarrow> row set" where
  "heldBy cs = (\<Union>c \<in> set cs. set (held c))"

inductive hold_step :: "caller list \<Rightarrow> caller list \<Rightarrow> bool" where
  take: "i < length cs \<Longrightarrow> todo (cs ! i) = r # rs \<Longrightarrow> r \<notin> heldBy cs \<Longrightarrow>
     hold_step cs (cs[i := \<lparr>todo = rs, held = r # held (cs ! i)\<rparr>])"
| give_back: "i < length cs \<Longrightarrow> todo (cs ! i) = [] \<Longrightarrow> held (cs ! i) \<noteq> [] \<Longrightarrow>
     hold_step cs (cs[i := \<lparr>todo = [], held = []\<rparr>])"

definition arrived :: "row list list \<Rightarrow> caller list" where
  "arrived rss = map (\<lambda>rs. \<lparr>todo = sortedRows rs, held = []\<rparr>) rss"

inductive hold_reachable :: "row list list \<Rightarrow> caller list \<Rightarrow> bool" for rss where
  start: "hold_reachable rss (arrived rss)"
| step: "hold_reachable rss cs \<Longrightarrow> hold_step cs cs' \<Longrightarrow> hold_reachable rss cs'"

definition ordered :: "caller \<Rightarrow> bool" where
  "ordered c \<longleftrightarrow> sorted (todo c) \<and> distinct (todo c) \<and> (\<forall>h \<in> set (held c). \<forall>r \<in> set (todo c). h < r)"

definition exclusive :: "caller list \<Rightarrow> bool" where
  "exclusive cs \<longleftrightarrow> (\<forall>i < length cs. \<forall>j < length cs. i \<noteq> j \<longrightarrow> set (held (cs ! i)) \<inter> set (held (cs ! j)) = {})"

lemma heldBy_nth: "i < length cs \<Longrightarrow> set (held (cs ! i)) \<subseteq> heldBy cs"
  unfolding heldBy_def by (blast intro: nth_mem)

lemma hold_step_inv:
  assumes "hold_step cs cs'" and "\<forall>c \<in> set cs. ordered c" and "exclusive cs"
  shows "(\<forall>c \<in> set cs'. ordered c) \<and> exclusive cs'"
  using assms(1)
proof cases
  case (take i r rs)
  then have "ordered (cs ! i)" using assms(2) by simp
  with take(3) have "ordered \<lparr>todo = rs, held = r # held (cs ! i)\<rparr>"
    by (auto simp: ordered_def order.strict_iff_order)
  with take(1) assms(2) have "\<forall>c \<in> set cs'. ordered c"
    using set_update_subset_insert[of cs i] by blast
  moreover have "exclusive cs'"
    using assms(3) take(2,4) heldBy_nth[of _ cs] unfolding take(1) exclusive_def
    by (simp add: nth_list_update) blast
  ultimately show ?thesis by blast
next
  case (give_back i)
  have "ordered \<lparr>todo = [], held = []\<rparr>" by (simp add: ordered_def)
  with give_back(1) assms(2) have "\<forall>c \<in> set cs'. ordered c"
    using set_update_subset_insert[of cs i] by blast
  moreover have "exclusive cs'"
    using assms(3) give_back(2) unfolding give_back(1) exclusive_def
    by (simp add: nth_list_update)
  ultimately show ?thesis by blast
qed

lemma hold_reachable_inv:
  assumes "hold_reachable rss cs"
  shows "(\<forall>c \<in> set cs. ordered c) \<and> exclusive cs"
  using assms
proof induction
  case start
  then show ?case by (auto simp: arrived_def ordered_def exclusive_def)
next
  case (step cs cs')
  then show ?case using hold_step_inv by blast
qed

text \<open>The caller that holds the largest row held can always go on.\<close>

lemma hold_progress:
  assumes "\<forall>c \<in> set cs. ordered c" and "c \<in> set cs" and "todo c \<noteq> [] \<or> held c \<noteq> []"
  shows "\<exists>cs'. hold_step cs cs'"
proof (cases "heldBy cs = {}")
  case True
  with assms(2,3) have "todo c \<noteq> []" by (auto simp: heldBy_def)
  with assms(2) True show ?thesis
    by (metis hold_step.take in_set_conv_nth neq_Nil_conv empty_iff)
next
  case False
  have "finite (heldBy cs)" by (simp add: heldBy_def)
  then have "Max (heldBy cs) \<in> heldBy cs" using False by (rule Max_in)
  then obtain d where d: "d \<in> set cs" "Max (heldBy cs) \<in> set (held d)" by (auto simp: heldBy_def)
  then obtain i where i: "i < length cs" "cs ! i = d" by (auto simp: in_set_conv_nth)
  show ?thesis
  proof (cases "todo d")
    case Nil
    with i d(2) show ?thesis by (metis hold_step.give_back empty_iff list.set(1))
  next
    case (Cons r rs)
    with assms(1) d have "Max (heldBy cs) < r" by (auto simp: ordered_def)
    then have "r \<notin> heldBy cs" using Max_ge[OF \<open>finite (heldBy cs)\<close>] leD by blast
    with i Cons show ?thesis by (metis hold_step.take)
  qed
qed

definition caller_work :: "caller \<Rightarrow> nat" where
  "caller_work c = 2 * length (todo c) + (if held c = [] then 0 else 1)"

definition work :: "caller list \<Rightarrow> nat" where
  "work cs = sum_list (map caller_work cs)"

lemma sum_list_update_less:
  fixes f :: "'a \<Rightarrow> nat"
  assumes "i < length xs" and "f y < f (xs ! i)"
  shows "sum_list (map f (xs[i := y])) < sum_list (map f xs)"
proof -
  have "sum_list (map f xs) \<ge> f (xs ! i)"
    using assms(1) elem_le_sum_list[of i "map f xs"] by simp
  then show ?thesis
    using assms by (simp add: map_update sum_list_update)
qed

lemma hold_step_work: "hold_step cs cs' \<Longrightarrow> work cs' < work cs"
  unfolding work_def by (induction rule: hold_step.induct) (auto intro!: sum_list_update_less simp: caller_work_def)

subsection \<open>Properties\<close>

text \<open>
  C37. Callers that hold overlapping sets of principals cannot deadlock, because rows are taken
  in one order: in every reachable state no row is held by two callers, and unless every
  caller has taken and given back all of its rows some caller can go on; and every step brings
  the callers closer to that end, so every schedule reaches it.
\<close>

theorem hold_deadlock_free:
  assumes "hold_reachable rss cs"
  shows "exclusive cs \<and>
    ((\<exists>c \<in> set cs. todo c \<noteq> [] \<or> held c \<noteq> []) \<longrightarrow> (\<exists>cs'. hold_step cs cs')) \<and>
    (\<forall>cs'. hold_step cs cs' \<longrightarrow> work cs' < work cs)"
proof (intro conjI impI allI)
  note inv = hold_reachable_inv[OF assms]
  then show "exclusive cs" by blast
  show "\<exists>cs'. hold_step cs cs'" if "\<exists>c \<in> set cs. todo c \<noteq> [] \<or> held c \<noteq> []"
    using that hold_progress inv by blast
  show "work cs' < work cs" if "hold_step cs cs'" for cs'
    using that by (rule hold_step_work)
qed

theorem hold_deadlock_free_witness:
  "\<exists>cs'. hold_step (arrived [[(Did ''t'', ''b''), (Did ''t'', ''a'')], [(Did ''t'', ''a''), (Did ''t'', ''b'')]]) cs'"
proof -
  let ?rss = "[[(Did ''t'', ''b''), (Did ''t'', ''a'')], [(Did ''t'', ''a''), (Did ''t'', ''b'')]]"
  have "\<exists>c \<in> set (arrived ?rss). todo c \<noteq> [] \<or> held c \<noteq> []"
    by (simp add: arrived_def sortedRows_def)
  with hold_deadlock_free[OF hold_reachable.start[of ?rss]] show ?thesis by blast
qed

text \<open>
  Removing a principal runs its callback before it takes effect, and only if the principal
  is live: a callback that fails leaves the principal readable, one that succeeds is followed
  by the tombstone, after which no read returns the principal; no other principal is touched, and
  whatever happens the rows held are those held before the call.
\<close>

theorem Tombstone_correct:
  assumes "Tombstone t x (Some fn) (ps, w) = (r, ps', w')" and "balanced fn"
    and "\<And>s. p_rows (fst (snd (fn s))) = p_rows (fst s)"
  shows "p_held ps' = p_held ps \<and>
    (r = Inr () \<longrightarrow> principal_Get False ps' t x = Inl (Store ErrRecordNotFound)) \<and>
    (r \<noteq> Inr () \<longrightarrow> principal_Get False ps' t x = principal_Get False ps t x) \<and>
    (\<not> live ps (t, x) \<and> r = Inr () \<longrightarrow> w' = w) \<and>
    (\<forall>y. y \<noteq> (t, x) \<longrightarrow> lookup ps' y = lookup ps y)"
proof -
  have held: "p_held ps' = p_held ps"
    using balancedD[OF balanced_Tombstone assms(1)] assms(2) by auto
  show ?thesis
  proof (cases "hold [(t, x)] ps")
    case (Pair h ps1)
    show ?thesis
    proof (cases h)
      case (Inl e)
      with Pair assms(1) held show ?thesis by (auto simp: Tombstone_def withRows_def)
    next
      case (Inr u)
      with Pair have rows1: "p_rows ps1 = p_rows ps" using hold_Inr(1)[of "[(t, x)]" ps ps1] by simp
      then have live1: "live ps1 = live ps" by (simp add: live_def fun_eq_iff)
      show ?thesis
      proof (cases "live ps (t, x)")
        case False
        with Pair Inr assms(1) held rows1 live1 show ?thesis
          by (auto simp: Tombstone_def withRows_def principal_Get_def lookup_def live_def Let_def
              split: option.splits)
      next
        case True
        obtain q ps2 w2 where f: "fn (ps1, w) = (q, ps2, w2)" by (metis prod_cases3)
        with assms(3)[of "(ps1, w)"] have rows2: "p_rows ps2 = p_rows ps" by (simp add: rows1)
        have T: "Tombstone t x (Some fn) (ps, w) = (case q of
            Inl e \<Rightarrow> (Inl e, release [(t, x)] ps2, w2)
          | Inr _ \<Rightarrow> (Inr (), release [(t, x)] (markDeleted (t, x) ps2), w2))"
          by (simp add: Tombstone_def withRows_def Pair Inr live1 True f split: sum.split)
        have "lookup ps2 = lookup ps" by (simp add: lookup_def rows2 fun_eq_iff)
        with T assms(1) held True show ?thesis
          by (cases q) (auto simp: principal_Get_def lookup_markDeleted)
      qed
    qed
  qed
qed

definition sample_principals :: principals where
  "sample_principals = \<lparr>p_rows = [((Did ''t'', ''alice''), newEntry 1 (Did ''t'') ''alice'')],
     p_held = [], p_wait = (\<lambda>_. None)\<rparr>"

theorem Tombstone_correct_witness:
  "let (r, ps', w') = Tombstone (Did ''t'') ''alice'' (Some (\<lambda>(ps, w). (Inr (), ps, w + 1))) (sample_principals, 0 :: nat)
   in r = Inr () \<and> w' = 1 \<and> principal_Get False ps' (Did ''t'') ''alice'' = Inl (Store ErrRecordNotFound)"
proof -
  let ?fn = "\<lambda>(ps :: principals, w :: nat). (Inr () :: err + unit, ps, w + 1)"
  obtain r ps' w' where t: "Tombstone (Did ''t'') ''alice'' (Some ?fn) (sample_principals, 0) = (r, ps', w')"
    by (metis prod_cases3)
  have v: "r = Inr ()" "w' = 1"
    using t by (auto simp: Tombstone_def withRows_def hold_def sample_principals_def live_def newEntry_def)
  have "balanced ?fn" by (auto simp: balanced_def)
  moreover have "p_rows (fst (snd (?fn s))) = p_rows (fst s)" for s by (cases s) simp
  ultimately have "principal_Get False ps' (Did ''t'') ''alice'' = Inl (Store ErrRecordNotFound)"
    using Tombstone_correct[OF t] v(1) by blast
  with v show ?thesis unfolding t Let_def prod.case by blast
qed

end
