(* ===== verification/Bucketpolicy.thy ===== *)
theory Bucketpolicy
  imports Prelude
begin

text \<open>
  \<open>pkg/bucketpolicy\<close>: the evaluation of a bucket policy (which actions a principal holds),
  its validation against the bucket and the tenant's principals, the removal of a
  principal, and the principals a change of policy affects.

  The document type, its JSON form and its structural checks are libforge's. Its sets
  (\<open>Principal\<close>, \<open>StringSet\<close>) are Go maps keyed by string, here finite sets; what the code
  calls of the library is the record \<open>policy_lib\<close>, an argument of every definition that
  uses it.
\<close>

subsection \<open>The document\<close>

text \<open>The effect is a string in the library; any value but \<open>Deny\<close> is treated as an allow.\<close>

datatype effect = Allow | Deny | OtherEffect string

record statement =
  Sid :: string
  Effect :: effect
  Principal :: "string fset"
  Actions :: "string fset"
  Resources :: "string fset"

record policy_document =
  Version :: string
  Statements :: "statement list"

text \<open>
  libforge's \<open>s3bkt\<close>: the wildcards, the policy actions, \<open>Principal.All\<close>, the decoder
  (\<open>None\<close> for a document it refuses, otherwise the document and whether the input ends
  after it), \<open>WellFormed\<close>, the bucket a resource ARN names, the normal form a document has
  after its canonical encoding, and its ETag.
\<close>

record policy_lib =
  Wildcard :: string
  PolicyWildcard :: string
  PolicyActions :: "string list"
  All :: "string fset \<Rightarrow> bool"
  DecodeDocument :: "string \<Rightarrow> (policy_document \<times> bool) option"
  WellFormed :: "policy_document \<Rightarrow> bool"
  ParseS3ARN :: "string \<Rightarrow> string"
  Normalize :: "policy_document \<Rightarrow> policy_document option"
  ETagOf :: "policy_document \<Rightarrow> string"

text \<open>\<open>Members\<close>: the elements of a set, sorted.\<close>

definition members :: "string fset \<Rightarrow> string list" where
  "members S = sorted_list_of_fset S"

lemma set_members [simp]: "set (members S) = fset S"
  by (simp add: members_def)

lemma sorted_members [simp]: "sorted (members S)"
  by (simp add: members_def sorted_list_of_fset.rep_eq)

lemma distinct_members [simp]: "distinct (members S)"
  by (simp add: members_def sorted_list_of_fset.rep_eq)

subsection \<open>Decode and Validate\<close>

definition Decode :: "policy_lib \<Rightarrow> string \<Rightarrow> err + policy_document" where
  "Decode L data =
     (case DecodeDocument L data of
        None \<Rightarrow> Inl (Api ErrInvalidPolicy)
      | Some (d, eof) \<Rightarrow> if \<not> eof then Inl (Api ErrInvalidPolicy) else Inr d)"

fun validateStatements ::
  "policy_lib \<Rightarrow> string \<Rightarrow> (string \<Rightarrow> bool) \<Rightarrow> statement list \<Rightarrow> err + unit" where
  "validateStatements L bucket principalExists [] = Inr ()"
| "validateStatements L bucket principalExists (st # sts) =
     (if list_ex (\<lambda>r. ParseS3ARN L r \<noteq> bucket) (members (Resources st))
      then Inl (Api ErrInvalidPolicy)
      else if All L (Principal st) then validateStatements L bucket principalExists sts
      else if list_ex (\<lambda>p. p = [] \<or> \<not> principalExists p) (members (Principal st))
      then Inl (Api ErrInvalidPolicy)
      else validateStatements L bucket principalExists sts)"

definition Validate ::
  "policy_lib \<Rightarrow> policy_document \<Rightarrow> string \<Rightarrow> (string \<Rightarrow> bool) \<Rightarrow> err + unit" where
  "Validate L d bucket principalExists =
     (if \<not> WellFormed L d then Inl (Api ErrInvalidPolicy)
      else validateStatements L bucket principalExists (Statements d))"

lemma validateStatements_ok:
  "validateStatements L bucket ex sts = Inr () \<longleftrightarrow>
   (\<forall>st\<in>set sts. (\<forall>r. r |\<in>| Resources st \<longrightarrow> ParseS3ARN L r = bucket) \<and>
      (All L (Principal st) \<or> (\<forall>p. p |\<in>| Principal st \<longrightarrow> p \<noteq> [] \<and> ex p)))"
  by (induction sts) (auto simp: list_ex_iff)

subsection \<open>Effective actions\<close>

definition names :: "policy_lib \<Rightarrow> statement \<Rightarrow> string \<Rightarrow> bool" where
  "names L st p =
     (if p = Wildcard L then False else All L (Principal st) \<or> p |\<in>| Principal st)"

definition expand :: "policy_lib \<Rightarrow> string fset \<Rightarrow> string list" where
  "expand L actions =
     (if PolicyWildcard L |\<notin>| actions then members actions
      else concat (map (\<lambda>a. if a = PolicyWildcard L then PolicyActions L else [a]) (members actions)))"

lemma set_expand:
  "set (expand L S) = (if PolicyWildcard L |\<in>| S
     then set (PolicyActions L) \<union> (fset S - {PolicyWildcard L}) else fset S)"
  by (auto simp: expand_def split: if_splits)

text \<open>The loop of \<open>Effective\<close>: the allowed and the denied actions gathered so far.\<close>

fun effectiveLoop ::
  "policy_lib \<Rightarrow> string \<Rightarrow> statement list \<Rightarrow> string fset \<Rightarrow> string fset \<Rightarrow> string fset \<times> string fset" where
  "effectiveLoop L p [] allowed denied = (allowed, denied)"
| "effectiveLoop L p (st # sts) allowed denied =
     (if \<not> names L st p then effectiveLoop L p sts allowed denied
      else if Effect st = Deny
      then effectiveLoop L p sts allowed (denied |\<union>| fset_of_list (expand L (Actions st)))
      else effectiveLoop L p sts (allowed |\<union>| fset_of_list (expand L (Actions st))) denied)"

fun Effective :: "policy_lib \<Rightarrow> policy_document option \<Rightarrow> string \<Rightarrow> string list" where
  "Effective L None p = []"
| "Effective L (Some d) p =
     (let (allowed, denied) = effectiveLoop L p (Statements d) {||} {||}
      in sorted_list_of_fset (ffilter (\<lambda>a. a |\<notin>| denied) allowed))"

text \<open>The actions some statement of the given kind grants or refuses to \<open>p\<close>.\<close>

definition stated :: "policy_lib \<Rightarrow> (effect \<Rightarrow> bool) \<Rightarrow> statement list \<Rightarrow> string \<Rightarrow> string set" where
  "stated L E sts p = (\<Union>st\<in>{st \<in> set sts. names L st p \<and> E (Effect st)}. set (expand L (Actions st)))"

lemma stated_Nil [simp]: "stated L E [] p = {}"
  by (simp add: stated_def)

lemma stated_Cons [simp]: "stated L E (st # sts) p =
  (if names L st p \<and> E (Effect st) then set (expand L (Actions st)) else {}) \<union> stated L E sts p"
  by (auto simp: stated_def)

lemma effectiveLoop_stated:
  "fset (fst (effectiveLoop L p sts al dn)) = fset al \<union> stated L (\<lambda>e. e \<noteq> Deny) sts p"
  "fset (snd (effectiveLoop L p sts al dn)) = fset dn \<union> stated L (\<lambda>e. e = Deny) sts p"
  by (induction sts arbitrary: al dn) (auto simp: fset_of_list.rep_eq)

lemma set_Effective:
  "set (Effective L (Some d) p) =
   stated L (\<lambda>e. e \<noteq> Deny) (Statements d) p - stated L (\<lambda>e. e = Deny) (Statements d) p"
  using effectiveLoop_stated[of L p "Statements d" "{||}" "{||}"]
  by (auto simp: case_prod_beta Let_def)

lemma sorted_Effective [simp]: "sorted (Effective L d p)"
  by (cases d) (auto simp: case_prod_beta Let_def sorted_list_of_fset.rep_eq)

lemma distinct_Effective [simp]: "distinct (Effective L d p)"
  by (cases d) (auto simp: case_prod_beta Let_def sorted_list_of_fset.rep_eq)

declare Effective.simps(2) [simp del]

lemma Effective_eqI: "set (Effective L d p) = set (Effective L e q) \<Longrightarrow> Effective L d p = Effective L e q"
  by (simp add: sorted_distinct_set_unique)

lemma Effective_wildcard [simp]: "Effective L d (Wildcard L) = []"
proof (cases d)
  case (Some doc)
  have "stated L E (Statements doc) (Wildcard L) = {}" for E
    by (auto simp: stated_def names_def)
  then have "set (Effective L d (Wildcard L)) = {}"
    by (simp add: Some set_Effective)
  then show ?thesis by simp
qed simp

lemma Effective_unnamed:
  assumes "\<And>st. st \<in> set (Statements d) \<Longrightarrow> \<not> names L st p"
  shows "Effective L (Some d) p = []"
proof -
  have "set (Effective L (Some d) p) = {}"
    unfolding set_Effective using assms by (auto simp: stated_def)
  then show ?thesis by simp
qed

lemma Effective_cong_set:
  assumes "set (Statements d) = set (Statements e)"
  shows "Effective L (Some d) p = Effective L (Some e) p"
  by (rule Effective_eqI) (simp only: set_Effective stated_def assms)

subsection \<open>Named, RemovePrincipal, Changed\<close>

fun namedLoop :: "policy_lib \<Rightarrow> statement list \<Rightarrow> string list \<Rightarrow> bool \<Rightarrow> string list \<times> bool" where
  "namedLoop L [] principals wildcard = (principals, wildcard)"
| "namedLoop L (st # sts) principals wildcard =
     (if All L (Principal st) then namedLoop L sts principals True
      else namedLoop L sts
             (fold (\<lambda>p ps. if p \<in> set ps then ps else ps @ [p]) (members (Principal st)) principals)
             wildcard)"

definition Named :: "policy_lib \<Rightarrow> policy_document \<Rightarrow> string list \<times> bool" where
  "Named L d = (let (principals, wildcard) = namedLoop L (Statements d) [] False
                in (sort principals, wildcard))"

lemma fold_once:
  "set (fold (\<lambda>p ps. if p \<in> set ps then ps else ps @ [p]) qs ps) = set ps \<union> set qs"
  "distinct ps \<Longrightarrow> distinct (fold (\<lambda>p ps. if p \<in> set ps then ps else ps @ [p]) qs ps)"
  by (induction qs arbitrary: ps) auto

lemma namedLoop_spec:
  "set (fst (namedLoop L sts ps w)) =
     set ps \<union> {p. \<exists>st\<in>set sts. \<not> All L (Principal st) \<and> p |\<in>| Principal st}"
  "snd (namedLoop L sts ps w) \<longleftrightarrow> w \<or> (\<exists>st\<in>set sts. All L (Principal st))"
  "distinct ps \<Longrightarrow> distinct (fst (namedLoop L sts ps w))"
  by (induction sts arbitrary: ps w) (auto simp: fold_once)

lemma set_Named:
  "set (fst (Named L d)) = {p. \<exists>st\<in>set (Statements d). \<not> All L (Principal st) \<and> p |\<in>| Principal st}"
  "snd (Named L d) \<longleftrightarrow> (\<exists>st\<in>set (Statements d). All L (Principal st))"
  using namedLoop_spec(1,2)[where L = L and sts = "Statements d" and ps = "[]" and w = False]
  by (simp_all add: Named_def case_prod_beta)

lemma Named_sorted_distinct [simp]: "sorted (fst (Named L d))" "distinct (fst (Named L d))"
  using namedLoop_spec(3)[where L = L and sts = "Statements d" and ps = "[]" and w = False]
  by (simp_all add: Named_def case_prod_beta)

fun removeLoop ::
  "policy_lib \<Rightarrow> string \<Rightarrow> statement list \<Rightarrow> statement list \<Rightarrow> bool \<Rightarrow> statement list \<times> bool" where
  "removeLoop L p [] statements changed = (statements, changed)"
| "removeLoop L p (st # sts) statements changed =
     (if p |\<in>| Principal st \<and> \<not> All L (Principal st)
      then let ids = Principal st |-| {|p|} in
           if ids = {||} then removeLoop L p sts statements True
           else removeLoop L p sts (statements @ [st\<lparr>Principal := ids\<rparr>]) True
      else removeLoop L p sts (statements @ [st]) changed)"

definition RemovePrincipal :: "policy_lib \<Rightarrow> policy_document \<Rightarrow> string \<Rightarrow> policy_document \<times> bool" where
  "RemovePrincipal L d p =
     (let (statements, changed) = removeLoop L p (Statements d) [] False
      in (\<lparr>Version = Version d, Statements = statements\<rparr>, changed))"

text \<open>What one statement leaves behind.\<close>

definition strip :: "policy_lib \<Rightarrow> string \<Rightarrow> statement \<Rightarrow> statement list" where
  "strip L p st =
     (if p |\<in>| Principal st \<and> \<not> All L (Principal st)
      then if Principal st |-| {|p|} = {||} then [] else [st\<lparr>Principal := Principal st |-| {|p|}\<rparr>]
      else [st])"

lemma removeLoop_strip:
  "removeLoop L p sts acc ch =
     (acc @ concat (map (strip L p) sts),
      ch \<or> (\<exists>st\<in>set sts. p |\<in>| Principal st \<and> \<not> All L (Principal st)))"
  by (induction sts arbitrary: acc ch) (auto simp: strip_def Let_def)

lemma Statements_RemovePrincipal:
  "Statements (fst (RemovePrincipal L d p)) = concat (map (strip L p) (Statements d))"
  by (simp add: RemovePrincipal_def removeLoop_strip)

lemma snd_RemovePrincipal: "snd (RemovePrincipal L d p) \<longleftrightarrow> p \<in> set (fst (Named L d))"
  by (auto simp: RemovePrincipal_def removeLoop_strip set_Named)

definition Changed ::
  "policy_lib \<Rightarrow> policy_document option \<Rightarrow> policy_document option \<Rightarrow> string list \<Rightarrow> string list" where
  "Changed L old new tenantPrincipals =
     (let cand = (\<lambda>d candidates.
            (case d of None \<Rightarrow> candidates
             | Some d \<Rightarrow> (let (named, wildcard) = Named L d in
                 candidates |\<union>| fset_of_list named |\<union>|
                   (if wildcard then fset_of_list tenantPrincipals else {||}))));
          candidates = fold cand [old, new] {||}
      in sorted_list_of_fset (ffilter (\<lambda>p. Effective L old p \<noteq> Effective L new p) candidates))"

definition candidate :: "policy_lib \<Rightarrow> string list \<Rightarrow> policy_document option \<Rightarrow> string \<Rightarrow> bool" where
  "candidate L ps d p \<longleftrightarrow>
     (case d of None \<Rightarrow> False
      | Some d \<Rightarrow> p \<in> set (fst (Named L d)) \<or> (snd (Named L d) \<and> p \<in> set ps))"

lemma set_Changed:
  "set (Changed L old new ps) =
   {p. (candidate L ps old p \<or> candidate L ps new p) \<and> Effective L old p \<noteq> Effective L new p}"
  by (auto simp: Changed_def candidate_def case_prod_beta Let_def fset_of_list.rep_eq
      split: option.splits if_splits)

lemma sorted_Changed [simp]: "sorted (Changed L old new ps)" "distinct (Changed L old new ps)"
  by (simp_all add: Changed_def Let_def sorted_list_of_fset.rep_eq)

lemma not_candidate_Effective:
  assumes "p \<in> set ps" and "\<not> candidate L ps d p"
  shows "Effective L d p = []"
proof (cases d)
  case (Some doc)
  with assms have "\<not> names L st p" if "st \<in> set (Statements doc)" for st
    using that by (auto simp: candidate_def names_def set_Named)
  with Some show ?thesis by (simp add: Effective_unnamed)
qed simp

lemma in_Changed_iff:
  assumes "p \<in> set ps"
  shows "p \<in> set (Changed L old new ps) \<longleftrightarrow> Effective L old p \<noteq> Effective L new p"
proof -
  have "candidate L ps old p \<or> candidate L ps new p" if "Effective L old p \<noteq> Effective L new p"
    using that not_candidate_Effective[OF assms] by metis
  then show ?thesis by (auto simp: set_Changed)
qed

subsection \<open>The wildcard is the key that makes a principal set mean everyone\<close>

text \<open>
  The documented behaviour of libforge's \<open>Principal.All\<close>: it reports whether the set holds
  the wildcard.
\<close>

definition all_is_wildcard :: "policy_lib \<Rightarrow> bool" where
  "all_is_wildcard L \<longleftrightarrow> (\<forall>S. All L S \<longleftrightarrow> Wildcard L |\<in>| S)"

lemma strip_named:
  assumes "all_is_wildcard L" and "st' \<in> set (strip L p st)"
  shows "p |\<notin>| Principal st' \<or> All L (Principal st')"
    and "Effect st' = Effect st" and "Actions st' = Actions st"
  using assms by (auto simp: strip_def split: if_splits)

lemma strip_other:
  assumes "all_is_wildcard L" and "q \<noteq> p"
  shows "stated L E (strip L p st) q = (if names L st q \<and> E (Effect st) then set (expand L (Actions st)) else {})"
proof (cases "p |\<in>| Principal st \<and> \<not> All L (Principal st)")
  case False
  then show ?thesis by (auto simp: strip_def)
next
  case True
  with assms(1) have all: "\<not> All L (Principal st |-| {|p|})" and w: "Wildcard L |\<notin>| Principal st"
    by (auto simp: all_is_wildcard_def)
  have "names L (st\<lparr>Principal := Principal st |-| {|p|}\<rparr>) q \<longleftrightarrow> names L st q"
    using True all assms(2) by (auto simp: names_def)
  moreover have "\<not> names L st q" if "Principal st |-| {|p|} = {||}"
    using that True assms(2) by (auto simp: names_def)
  ultimately show ?thesis
    using True by (auto simp: strip_def)
qed

lemma stated_append [simp]: "stated L E (xs @ ys) p = stated L E xs p \<union> stated L E ys p"
  by (auto simp: stated_def)

lemma stated_strip:
  assumes "all_is_wildcard L" and "q \<noteq> p"
  shows "stated L E (concat (map (strip L p) sts)) q = stated L E sts q"
  using assms by (induction sts) (simp_all add: strip_other)

lemma Effective_RemovePrincipal:
  assumes "all_is_wildcard L" and "q \<noteq> p"
  shows "Effective L (Some (fst (RemovePrincipal L d p))) q = Effective L (Some d) q"
  by (rule Effective_eqI) (simp add: set_Effective Statements_RemovePrincipal stated_strip[OF assms])

lemma RemovePrincipal_unnamed:
  assumes "all_is_wildcard L"
  shows "p \<notin> set (fst (Named L (fst (RemovePrincipal L d p))))"
  using strip_named(1)[OF assms] by (auto simp: set_Named Statements_RemovePrincipal)

lemma RemovePrincipal_id:
  assumes "\<not> snd (RemovePrincipal L d p)"
  shows "Statements (fst (RemovePrincipal L d p)) = Statements d"
proof -
  have "concat (map (strip L p) sts) = sts"
    if "\<forall>st\<in>set sts. \<not> (p |\<in>| Principal st \<and> \<not> All L (Principal st))" for sts
    using that by (induction sts) (auto simp: strip_def)
  with assms show ?thesis
    by (auto simp: Statements_RemovePrincipal snd_RemovePrincipal set_Named)
qed

subsection \<open>A sample library\<close>

text \<open>
  A concrete instance of the parameter, with two policy actions, on which the statements
  with hypotheses are applied.
\<close>

definition sample_lib :: policy_lib where
  "sample_lib = \<lparr>Wildcard = ''*'', PolicyWildcard = ''s3:*'',
     PolicyActions = [''s3:GetObject'', ''s3:PutObject''],
     All = (\<lambda>S. ''*'' |\<in>| S), DecodeDocument = (\<lambda>_. None), WellFormed = (\<lambda>_. True),
     ParseS3ARN = (\<lambda>r. r), Normalize = (\<lambda>d. Some d), ETagOf = (\<lambda>d. Version d)\<rparr>"

definition sample_statement :: "effect \<Rightarrow> string list \<Rightarrow> string list \<Rightarrow> statement" where
  "sample_statement e ps as =
     \<lparr>Sid = [], Effect = e, Principal = fset_of_list ps, Actions = fset_of_list as,
      Resources = {|''photos''|}\<rparr>"

definition sample_policy :: "string \<Rightarrow> statement list \<Rightarrow> policy_document" where
  "sample_policy v sts = \<lparr>Version = v, Statements = sts\<rparr>"

lemma sample_lib_all [simp]: "all_is_wildcard sample_lib"
  by (simp add: all_is_wildcard_def sample_lib_def)

lemmas sample_policy_defs = sample_lib_def sample_statement_def sample_policy_def

subsection \<open>Properties\<close>

text \<open>
  C27. Deny overrides allow: an action is in a principal's effective set exactly when some
  non-deny statement that applies to the principal lists it (the policy wildcard standing for
  every policy action) and no deny statement that applies to the principal does; the set is
  sorted without duplicates, and the wildcard itself holds nothing.
\<close>

theorem Effective_deny_overrides:
  "(a \<in> set (Effective L (Some d) p) \<longleftrightarrow>
     (\<exists>st\<in>set (Statements d). names L st p \<and> Effect st \<noteq> Deny \<and> a \<in> set (expand L (Actions st))) \<and>
     \<not> (\<exists>st\<in>set (Statements d). names L st p \<and> Effect st = Deny \<and> a \<in> set (expand L (Actions st)))) \<and>
   sorted (Effective L (Some d) p) \<and> distinct (Effective L (Some d) p) \<and>
   Effective L (Some d) (Wildcard L) = []"
  by (auto simp: set_Effective stated_def)

text \<open>
  C28. \<open>Changed\<close> reports exactly the affected principals: for a principal of the tenant it is
  listed if and only if its effective set differs between the two policies, whether either
  policy names it, reaches it through the wildcard, or is absent; the list is sorted without
  duplicates.
\<close>

theorem Changed_exact:
  assumes "p \<in> set tenantPrincipals"
  shows "(p \<in> set (Changed L old new tenantPrincipals) \<longleftrightarrow> Effective L old p \<noteq> Effective L new p) \<and>
         sorted (Changed L old new tenantPrincipals) \<and> distinct (Changed L old new tenantPrincipals)"
  using in_Changed_iff[OF assms] by simp

theorem Changed_exact_witness:
  "''bob'' \<in> set [''alice'', ''bob''] \<and>
   ''bob'' \<in> set (Changed sample_lib None
       (Some (sample_policy ''1'' [sample_statement Allow [''*''] [''s3:*'']])) [''alice'', ''bob''])"
proof -
  let ?d = "Some (sample_policy ''1'' [sample_statement Allow [''*''] [''s3:*'']])"
  have h: "''bob'' \<in> set [''alice'', ''bob'']" by simp
  have "''s3:PutObject'' \<in> set (Effective sample_lib ?d ''bob'')"
    by (simp add: set_Effective names_def set_expand sample_policy_defs)
  then have "Effective sample_lib None ''bob'' \<noteq> Effective sample_lib ?d ''bob''" by force
  with h Changed_exact[OF h, of sample_lib None ?d] show ?thesis by simp
qed

text \<open>
  Removing a principal from a policy takes it out of every statement that names it and
  changes nothing for anyone else: afterwards the policy names it in no statement, every other
  principal has the effective set it had, the principal itself keeps at most what the wildcard
  statements grant everyone, and the report is that something changed exactly when the policy
  named it.
\<close>

theorem RemovePrincipal_correct:
  assumes "all_is_wildcard L"
  shows "p \<notin> set (fst (Named L (fst (RemovePrincipal L d p)))) \<and>
     (q \<noteq> p \<longrightarrow> Effective L (Some (fst (RemovePrincipal L d p))) q = Effective L (Some d) q) \<and>
     (a \<in> set (Effective L (Some (fst (RemovePrincipal L d p))) p) \<longrightarrow>
        (\<exists>st\<in>set (Statements d). All L (Principal st) \<and> Effect st \<noteq> Deny \<and> a \<in> set (expand L (Actions st)))) \<and>
     (snd (RemovePrincipal L d p) \<longleftrightarrow> p \<in> set (fst (Named L d)))"
proof (intro conjI impI)
  assume "a \<in> set (Effective L (Some (fst (RemovePrincipal L d p))) p)"
  then obtain st st' where st: "st \<in> set (Statements d)" "st' \<in> set (strip L p st)"
    and st': "names L st' p" "Effect st' \<noteq> Deny" "a \<in> set (expand L (Actions st'))"
    by (auto simp: set_Effective stated_def Statements_RemovePrincipal)
  note strip_named[OF assms st(2)]
  with st' have all: "All L (Principal st')" by (auto simp: names_def split: if_splits)
  with st(2) assms have "All L (Principal st)"
    by (auto simp: strip_def all_is_wildcard_def split: if_splits)
  with st(1) st' strip_named(2,3)[OF assms st(2)]
  show "\<exists>st\<in>set (Statements d). All L (Principal st) \<and> Effect st \<noteq> Deny \<and> a \<in> set (expand L (Actions st))"
    by auto
qed (use assms in \<open>auto simp: RemovePrincipal_unnamed Effective_RemovePrincipal snd_RemovePrincipal\<close>)

theorem RemovePrincipal_correct_witness:
  "let d = sample_policy ''1'' [sample_statement Allow [''alice'', ''bob''] [''s3:GetObject'']]
   in all_is_wildcard sample_lib \<and> snd (RemovePrincipal sample_lib d ''alice'') \<and>
      ''alice'' \<notin> set (fst (Named sample_lib (fst (RemovePrincipal sample_lib d ''alice'')))) \<and>
      Effective sample_lib (Some (fst (RemovePrincipal sample_lib d ''alice''))) ''bob'' =
        Effective sample_lib (Some d) ''bob''"
proof -
  let ?d = "sample_policy ''1'' [sample_statement Allow [''alice'', ''bob''] [''s3:GetObject'']]"
  have "snd (RemovePrincipal sample_lib ?d ''alice'')"
    by (simp add: snd_RemovePrincipal set_Named sample_policy_defs)
  then show ?thesis
    using RemovePrincipal_correct[OF sample_lib_all, of "''alice''" ?d "''bob''"] by (simp add: Let_def)
qed

text \<open>Removing a principal of the wildcard's name would strip nothing: statements of everybody are kept.\<close>

lemma removeLoop_wildcard:
  "all_is_wildcard L \<Longrightarrow> removeLoop L (Wildcard L) sts acc changed = (acc @ sts, changed)"
  by (induction sts arbitrary: acc) (simp_all add: all_is_wildcard_def)

lemma wildcard_not_stripped: "all_is_wildcard L \<Longrightarrow> RemovePrincipal L d (Wildcard L) = (d, False)"
  by (simp add: RemovePrincipal_def removeLoop_wildcard)

end
