(* ===== verification/Policy_Store.thy ===== *)
theory Policy_Store
  imports Stores Bucketpolicy
begin

text \<open>
  \<open>pkg/store/bucketpolicy\<close> and its memory backend: one policy per bucket, with the entity tag
  conditional writes are checked against, and the index from principals to the buckets whose
  statements name them. A write runs its callback before it takes effect, under the store's
  mutex: the callback works on a rest \<open>'w\<close> of the world without the store, as the interface
  demands, and its error leaves the store as it was.
\<close>

subsection \<open>State\<close>

record policy_record =
  pol_Bucket :: did
  pol_Policy :: policy_document
  pol_ETag :: string
  pol_UpdatedAt :: instant

record policy_entry =
  e_tenant :: did
  e_rec :: policy_record
  e_named :: "string list"
  e_wildcard :: bool

type_synonym policies = "(did, policy_entry) gomap"

record policy_input =
  i_Bucket :: did
  i_Tenant :: did
  i_Policy :: policy_document
  i_Conditional :: bool
  i_IfMatch :: "string option"

subsection \<open>Preconditions\<close>

definition CheckPrecondition :: "policy_record option \<Rightarrow> string option \<Rightarrow> err + unit" where
  "CheckPrecondition old ifMatch =
     (case (ifMatch, old) of
        (None, Some _) \<Rightarrow> Inl (Store ErrPreconditionFailed)
      | (Some _, None) \<Rightarrow> Inl (Store ErrPreconditionFailed)
      | (Some tag, Some r) \<Rightarrow> if pol_ETag r \<noteq> tag then Inl (Store ErrPreconditionFailed) else Inr ()
      | (None, None) \<Rightarrow> Inr ())"

definition CheckInputPrecondition :: "policy_input \<Rightarrow> policy_record option \<Rightarrow> err + unit" where
  "CheckInputPrecondition i old = (if \<not> i_Conditional i then Inr () else CheckPrecondition old (i_IfMatch i))"

subsection \<open>Operations\<close>

definition policy_Get :: "policies \<Rightarrow> did \<Rightarrow> err + policy_record" where
  "policy_Get s b = (case map_of s b of None \<Rightarrow> Inl (Store ErrRecordNotFound) | Some e \<Rightarrow> Inr (e_rec e))"

definition stored :: "policies \<Rightarrow> did \<Rightarrow> policy_record option" where
  "stored s b = map_option e_rec (map_of s b)"

definition policyEntry :: "policy_lib \<Rightarrow> instant \<Rightarrow> policy_input \<Rightarrow> policy_document \<Rightarrow> policy_entry" where
  "policyEntry L now i doc =
     (let (named, wildcard) = Named L doc
      in \<lparr>e_tenant = i_Tenant i,
          e_rec = \<lparr>pol_Bucket = i_Bucket i, pol_Policy = doc, pol_ETag = ETagOf L doc, pol_UpdatedAt = now\<rparr>,
          e_named = named, e_wildcard = wildcard\<rparr>)"

text \<open>
  \<open>hasBucket\<close> is the check the store is built with, if any; \<open>fn\<close> is the callback, if any.
\<close>

definition policy_Put ::
  "policy_lib \<Rightarrow> (did \<Rightarrow> bool) option \<Rightarrow> instant \<Rightarrow> policy_input \<Rightarrow>
   (policy_record option \<Rightarrow> 'w \<Rightarrow> (err + unit) \<times> 'w) option \<Rightarrow>
   policies \<times> 'w \<Rightarrow> (err + string) \<times> policies \<times> 'w" where
  "policy_Put L hasBucket now i fn sw =
     (let (s, w) = sw in
      if i_Bucket i = Undef then (Inl (Store ErrInvalidArgument), s, w)
      else if i_Tenant i = Undef then (Inl (Store ErrInvalidArgument), s, w)
      else if (case hasBucket of None \<Rightarrow> False | Some has \<Rightarrow> \<not> has (i_Bucket i))
      then (Inl (Store ErrRecordNotFound), s, w)
      else
        (case CheckInputPrecondition i (stored s (i_Bucket i)) of
           Inl e \<Rightarrow> (Inl e, s, w)
         | Inr _ \<Rightarrow>
             (case (case fn of None \<Rightarrow> (Inr (), w) | Some f \<Rightarrow> f (stored s (i_Bucket i)) w) of
                (Inl e, w') \<Rightarrow> (Inl e, s, w')
              | (Inr _, w') \<Rightarrow>
                  (case Normalize L (i_Policy i) of
                     None \<Rightarrow> (Inl (Internal ''normalizing policy''), s, w')
                   | Some doc \<Rightarrow>
                       (Inr (ETagOf L doc), AList.update (i_Bucket i) (policyEntry L now i doc) s, w')))))"

definition policy_Delete ::
  "did \<Rightarrow> string \<Rightarrow> (policy_record \<Rightarrow> 'w \<Rightarrow> (err + unit) \<times> 'w) option \<Rightarrow>
   policies \<times> 'w \<Rightarrow> (err + unit) \<times> policies \<times> 'w" where
  "policy_Delete b ifMatch fn sw =
     (let (s, w) = sw in
      case map_of s b of
        None \<Rightarrow> (Inl (Store ErrRecordNotFound), s, w)
      | Some e \<Rightarrow>
          if ifMatch \<noteq> [] \<and> pol_ETag (e_rec e) \<noteq> ifMatch
          then (Inl (Store ErrPreconditionFailed), s, w)
          else
            (case (case fn of None \<Rightarrow> (Inr (), w) | Some f \<Rightarrow> f (e_rec e) w) of
               (Inl er, w') \<Rightarrow> (Inl er, s, w')
             | (Inr _, w') \<Rightarrow> (Inr (), AList.delete b s, w')))"

definition DeleteByBucket ::
  "did \<Rightarrow> ('w \<Rightarrow> (err + unit) \<times> 'w) option \<Rightarrow> policies \<times> 'w \<Rightarrow> (err + unit) \<times> policies \<times> 'w" where
  "DeleteByBucket b fn sw =
     (let (s, w) = sw in
      case (case fn of None \<Rightarrow> (Inr (), w) | Some f \<Rightarrow> f w) of
        (Inl er, w') \<Rightarrow> (Inl er, s, w')
      | (Inr _, w') \<Rightarrow> (Inr (), AList.delete b s, w'))"

definition policy_ListByPrincipal :: "policies \<Rightarrow> did \<Rightarrow> string \<Rightarrow> policy_record list" where
  "policy_ListByPrincipal s t p =
     sort_key (\<lambda>r. did_string (pol_Bucket r))
       (map (e_rec \<circ> snd) (filter (\<lambda>(k, e). e_tenant e = t \<and> (e_wildcard e \<or> p \<in> set (e_named e))) s))"

subsection \<open>The index agrees with the documents\<close>

definition entry_ok :: "policy_lib \<Rightarrow> did \<Rightarrow> policy_entry \<Rightarrow> bool" where
  "entry_ok L b e \<longleftrightarrow> b \<noteq> Undef \<and> e_tenant e \<noteq> Undef \<and> pol_Bucket (e_rec e) = b \<and>
     pol_ETag (e_rec e) = ETagOf L (pol_Policy (e_rec e)) \<and>
     (e_named e, e_wildcard e) = Named L (pol_Policy (e_rec e))"

definition policies_ok :: "policy_lib \<Rightarrow> policies \<Rightarrow> bool" where
  "policies_ok L s \<longleftrightarrow> wf_gomap s \<and> all_records (entry_ok L) s"

lemma entry_ok_policyEntry:
  "i_Bucket i \<noteq> Undef \<Longrightarrow> i_Tenant i \<noteq> Undef \<Longrightarrow> entry_ok L (i_Bucket i) (policyEntry L now i doc)"
  by (simp add: entry_ok_def policyEntry_def split: prod.split)

lemma policy_Put_Inr:
  assumes "policy_Put L has now i fn (s, w) = (Inr tag, s', w')"
  obtains doc where "i_Bucket i \<noteq> Undef" "i_Tenant i \<noteq> Undef"
    "CheckInputPrecondition i (stored s (i_Bucket i)) = Inr ()"
    "Normalize L (i_Policy i) = Some doc" "tag = ETagOf L doc"
    "s' = AList.update (i_Bucket i) (policyEntry L now i doc) s"
    "(case fn of None \<Rightarrow> (Inr (), w) | Some f \<Rightarrow> f (stored s (i_Bucket i)) w) = (Inr (), w')"
    "\<And>h. has = Some h \<Longrightarrow> h (i_Bucket i)"
  using assms
  by (auto simp: policy_Put_def split: if_splits sum.splits prod.splits option.splits)

lemma policy_Put_Inl:
  assumes "policy_Put L has now i fn (s, w) = (Inl e, s', w')"
  shows "s' = s"
  using assms
  by (auto simp: policy_Put_def split: if_splits sum.splits prod.splits option.splits)

lemma policies_ok_Put:
  assumes "policies_ok L s" and "policy_Put L has now i fn (s, w) = (r, s', w')"
  shows "policies_ok L s'"
proof (cases r)
  case (Inl e)
  with assms policy_Put_Inl show ?thesis by metis
next
  case (Inr tag)
  with assms(2) have "policy_Put L has now i fn (s, w) = (Inr tag, s', w')" by simp
  then show ?thesis
    by (rule policy_Put_Inr) (use assms(1) in \<open>auto simp: policies_ok_def intro: entry_ok_policyEntry\<close>)
qed

lemma policies_ok_delete: "policies_ok L s \<Longrightarrow> policies_ok L (AList.delete b s)"
  by (simp add: policies_ok_def)

lemma policy_Delete_cases:
  assumes "policy_Delete b ifMatch fn (s, w) = (r, s', w')"
  shows "(r = Inr () \<longrightarrow> s' = AList.delete b s \<and> (\<exists>e. map_of s b = Some e \<and>
            (ifMatch \<noteq> [] \<longrightarrow> pol_ETag (e_rec e) = ifMatch))) \<and> (r \<noteq> Inr () \<longrightarrow> s' = s)"
  using assms by (auto simp: policy_Delete_def split: if_splits sum.splits prod.splits option.splits)

lemma policies_ok_Delete:
  assumes "policies_ok L s" and "policy_Delete b ifMatch fn (s, w) = (r, s', w')"
  shows "policies_ok L s'"
  using policy_Delete_cases[OF assms(2)] assms(1) by (cases "r = Inr ()") (auto simp: policies_ok_delete)

lemma policies_ok_DeleteByBucket:
  assumes "policies_ok L s" and "DeleteByBucket b fn (s, w) = (r, s', w')"
  shows "policies_ok L s'"
  using assms by (auto simp: DeleteByBucket_def policies_ok_delete split: prod.splits sum.splits option.splits)

lemma set_policy_ListByPrincipal:
  assumes "policies_ok L s"
  shows "r \<in> set (policy_ListByPrincipal s t p) \<longleftrightarrow>
    (\<exists>b e. map_of s b = Some e \<and> e_rec e = r \<and> e_tenant e = t \<and>
       (\<exists>st \<in> set (Statements (pol_Policy r)). p |\<in>| Principal st \<or> All L (Principal st)))"
proof -
  have named: "(e_wildcard e \<or> p \<in> set (e_named e)) \<longleftrightarrow>
      (\<exists>st \<in> set (Statements (pol_Policy (e_rec e))). p |\<in>| Principal st \<or> All L (Principal st))"
    if "entry_ok L b e" for b e
  proof -
    have "Named L (pol_Policy (e_rec e)) = (e_named e, e_wildcard e)"
      using that by (simp add: entry_ok_def)
    then show ?thesis
      using set_Named[of L "pol_Policy (e_rec e)"] by (auto simp: names_def)
  qed
  have "r \<in> set (policy_ListByPrincipal s t p) \<longleftrightarrow>
      (\<exists>b e. map_of s b = Some e \<and> e_rec e = r \<and> e_tenant e = t \<and> (e_wildcard e \<or> p \<in> set (e_named e)))"
    using assms by (force simp: policy_ListByPrincipal_def policies_ok_def gomap_in_iff[symmetric])
  moreover have "(map_of s b = Some e \<and> e_rec e = r \<and> e_tenant e = t \<and> (e_wildcard e \<or> p \<in> set (e_named e))) \<longleftrightarrow>
      (map_of s b = Some e \<and> e_rec e = r \<and> e_tenant e = t \<and>
         (\<exists>st \<in> set (Statements (pol_Policy r)). p |\<in>| Principal st \<or> All L (Principal st)))" for b e
    using assms named[of b e] by (auto simp: policies_ok_def dest: all_recordsD)
  ultimately show ?thesis by (simp only:)
qed

lemma policy_Get_stored: "policy_Get s b = (case stored s b of None \<Rightarrow> Inl (Store ErrRecordNotFound) | Some r \<Rightarrow> Inr r)"
  by (simp add: policy_Get_def stored_def split: option.splits)

lemma CheckInputPrecondition_Inr:
  "CheckInputPrecondition i old = Inr () \<longleftrightarrow>
     (i_Conditional i \<longrightarrow> map_option pol_ETag old = i_IfMatch i)"
  by (auto simp: CheckInputPrecondition_def CheckPrecondition_def split: option.splits)

lemma CheckInputPrecondition_Inl:
  "CheckInputPrecondition i old = Inl e \<Longrightarrow> e = Store ErrPreconditionFailed"
  by (auto simp: CheckInputPrecondition_def CheckPrecondition_def split: option.splits if_splits)

lemma policy_Put_refused:
  assumes "i_Bucket i \<noteq> Undef" "i_Tenant i \<noteq> Undef" "\<And>h. has = Some h \<Longrightarrow> h (i_Bucket i)"
    and "i_Conditional i" "map_option pol_ETag (stored s (i_Bucket i)) \<noteq> i_IfMatch i"
  shows "policy_Put L has now i fn (s, w) = (Inl (Store ErrPreconditionFailed), s, w)"
proof (cases "CheckInputPrecondition i (stored s (i_Bucket i))")
  case (Inl e)
  with CheckInputPrecondition_Inl[OF this] assms(1-3) show ?thesis
    by (auto simp: policy_Put_def split: option.splits)
next
  case (Inr u)
  with assms(4,5) show ?thesis by (simp add: CheckInputPrecondition_Inr)
qed

lemma stored_Put:
  "s' = AList.update (i_Bucket i) (policyEntry L now i doc) s \<Longrightarrow>
   stored s' b = (if b = i_Bucket i then Some (e_rec (policyEntry L now i doc)) else stored s b)"
  by (simp add: stored_def update_conv')

lemma e_rec_policyEntry [simp]:
  "e_rec (policyEntry L now i doc) =
     \<lparr>pol_Bucket = i_Bucket i, pol_Policy = doc, pol_ETag = ETagOf L doc, pol_UpdatedAt = now\<rparr>"
  "e_tenant (policyEntry L now i doc) = i_Tenant i"
  by (simp_all add: policyEntry_def split: prod.split)

subsection \<open>Properties\<close>

text \<open>
  C29. A policy write is a compare-and-set: it succeeds only if the bucket's policy carries the
  tag the input states (none at all, for a create), and then the bucket reads back as the
  normalized document under the tag returned, and no other bucket's policy changed; a write
  that fails leaves every policy as it was; and a later conditional write against the tag the
  first one replaced is refused without running its callback, so no update is lost.
\<close>

theorem policy_Put_compare_and_set:
  assumes "policy_Put L has now i fn (s, w) = (r, s', w')"
  shows "(\<forall>tag. r = Inr tag \<longrightarrow>
      (i_Conditional i \<longrightarrow> map_option pol_ETag (stored s (i_Bucket i)) = i_IfMatch i) \<and>
      (\<exists>doc. Normalize L (i_Policy i) = Some doc \<and> tag = ETagOf L doc \<and>
         policy_Get s' (i_Bucket i) = Inr \<lparr>pol_Bucket = i_Bucket i, pol_Policy = doc, pol_ETag = tag, pol_UpdatedAt = now\<rparr>) \<and>
      (\<forall>b. b \<noteq> i_Bucket i \<longrightarrow> policy_Get s' b = policy_Get s b) \<and>
      (\<forall>j fn2 now2 w2. i_Bucket j = i_Bucket i \<and> i_Tenant j = i_Tenant i \<and> i_Conditional j \<and>
         i_IfMatch j \<noteq> Some tag \<longrightarrow>
         policy_Put L has now2 j fn2 (s', w2 :: 'v) = (Inl (Store ErrPreconditionFailed), s', w2))) \<and>
    (\<forall>e. r = Inl e \<longrightarrow> s' = s)"
proof (intro conjI allI impI)
  fix e
  assume "r = Inl e"
  with assms policy_Put_Inl show "s' = s" by metis
next
  fix tag
  assume "r = Inr tag"
  with assms have put: "policy_Put L has now i fn (s, w) = (Inr tag, s', w')" by simp
  obtain doc where p: "i_Bucket i \<noteq> Undef" "i_Tenant i \<noteq> Undef"
    "CheckInputPrecondition i (stored s (i_Bucket i)) = Inr ()"
    "Normalize L (i_Policy i) = Some doc" "tag = ETagOf L doc"
    "s' = AList.update (i_Bucket i) (policyEntry L now i doc) s"
    "\<And>h. has = Some h \<Longrightarrow> h (i_Bucket i)"
    by (rule policy_Put_Inr[OF put]) blast
  note st = stored_Put[OF p(6)]
  show "i_Conditional i \<Longrightarrow> map_option pol_ETag (stored s (i_Bucket i)) = i_IfMatch i"
    using p(3) by (simp add: CheckInputPrecondition_Inr)
  show "\<exists>doc. Normalize L (i_Policy i) = Some doc \<and> tag = ETagOf L doc \<and>
     policy_Get s' (i_Bucket i) = Inr \<lparr>pol_Bucket = i_Bucket i, pol_Policy = doc, pol_ETag = tag, pol_UpdatedAt = now\<rparr>"
    using p(4,5) by (simp add: policy_Get_stored st)
  show "policy_Get s' b = policy_Get s b" if "b \<noteq> i_Bucket i" for b
    using that by (simp add: policy_Get_stored st)
  show "policy_Put L has now2 j fn2 (s', w2 :: 'v) = (Inl (Store ErrPreconditionFailed), s', w2)"
    if "i_Bucket j = i_Bucket i \<and> i_Tenant j = i_Tenant i \<and> i_Conditional j \<and> i_IfMatch j \<noteq> Some tag"
    for j fn2 now2 w2
    using that p(1-5,7) by (intro policy_Put_refused) (auto simp: st)
qed

definition sample_input :: "string option \<Rightarrow> policy_input" where
  "sample_input tag = \<lparr>i_Bucket = Did ''b'', i_Tenant = Did ''t'',
     i_Policy = sample_policy ''v1'' [sample_statement Allow [''alice''] [''s3:GetObject'']],
     i_Conditional = True, i_IfMatch = tag\<rparr>"

definition noPolicyFn :: "(policy_record option \<Rightarrow> nat \<Rightarrow> (err + unit) \<times> nat) option" where
  "noPolicyFn = None"

theorem policy_Put_compare_and_set_witness:
  "let (r, s', w') = policy_Put sample_lib None 0 (sample_input None) noPolicyFn ([], 0) in
   r = Inr ''v1'' \<and>
   policy_Put sample_lib None 1 (sample_input None) noPolicyFn (s', 5) = (Inl (Store ErrPreconditionFailed), s', 5)"
proof -
  obtain r s' w' where put: "policy_Put sample_lib None 0 (sample_input None) noPolicyFn ([], 0) = (r, s', w')"
    by (metis prod_cases3)
  then have r: "r = Inr ''v1''"
    by (auto simp: policy_Put_def sample_input_def stored_def CheckInputPrecondition_def
        CheckPrecondition_def sample_policy_defs noPolicyFn_def)
  have "i_Bucket (sample_input None) = i_Bucket (sample_input None) \<and>
      i_Tenant (sample_input None) = i_Tenant (sample_input None) \<and>
      i_Conditional (sample_input None) \<and> i_IfMatch (sample_input None) \<noteq> Some ''v1''"
    by (simp add: sample_input_def)
  note policy_Put_compare_and_set[OF put, THEN conjunct1, THEN spec, THEN mp, OF r, THEN conjunct2,
      THEN conjunct2, THEN conjunct2, rule_format, OF this, of 1 noPolicyFn 5]
  with r put show ?thesis by (simp add: Let_def)
qed

text \<open>
  The index never drifts from the documents: every write keeps it in step, and listing a
  principal's policies returns exactly the tenant's policies with a statement that names the
  principal or everyone, ordered by bucket.
\<close>

theorem policy_index_exact:
  assumes "policies_ok L s"
  shows "(r \<in> set (policy_ListByPrincipal s t p) \<longleftrightarrow>
      (\<exists>b e. map_of s b = Some e \<and> e_rec e = r \<and> e_tenant e = t \<and>
         (\<exists>st \<in> set (Statements (pol_Policy r)). p |\<in>| Principal st \<or> All L (Principal st)))) \<and>
    sorted (map (\<lambda>r. did_string (pol_Bucket r)) (policy_ListByPrincipal s t p)) \<and>
    (policy_Put L has now i fn (s, w) = (q, s', w') \<longrightarrow> policies_ok L s') \<and>
    (policy_Delete b tag dfn (s, w) = (q', s', w') \<longrightarrow> policies_ok L s') \<and>
    (DeleteByBucket b bfn (s, w) = (q', s', w') \<longrightarrow> policies_ok L s')"
proof (intro conjI impI)
  show "sorted (map (\<lambda>r. did_string (pol_Bucket r)) (policy_ListByPrincipal s t p))"
    by (simp add: policy_ListByPrincipal_def)
qed (fact set_policy_ListByPrincipal[OF assms], erule policies_ok_Put[OF assms],
     erule policies_ok_Delete[OF assms], erule policies_ok_DeleteByBucket[OF assms])

theorem policy_index_exact_witness:
  "\<exists>s. policies_ok sample_lib s \<and> map pol_ETag (policy_ListByPrincipal s (Did ''t'') ''alice'') = [''v1'']"
proof -
  let ?s = "[(Did ''b'', policyEntry sample_lib 0 (sample_input None) (i_Policy (sample_input None)))]"
  have nil: "policies_ok sample_lib []" by (simp add: policies_ok_def)
  have put: "policy_Put sample_lib None 0 (sample_input None) noPolicyFn ([], 0) = (Inr ''v1'', ?s, 0)"
    by (simp add: policy_Put_def sample_input_def stored_def CheckInputPrecondition_def
        CheckPrecondition_def sample_policy_defs noPolicyFn_def)
  have ok: "policies_ok sample_lib ?s"
    using policy_index_exact[OF nil, where s' = ?s, THEN conjunct2, THEN conjunct2, THEN conjunct1,
        rule_format, OF put] .
  have "Named sample_lib (i_Policy (sample_input None)) = ([''alice''], False)"
    by (simp add: Named_def sample_input_def sample_policy_defs members_def fset_of_list.rep_eq
        sorted_list_of_fset.rep_eq)
  then have n: "e_named (policyEntry sample_lib 0 (sample_input None) (i_Policy (sample_input None))) = [''alice'']"
    by (simp add: policyEntry_def)
  have v: "i_Tenant (sample_input None) = Did ''t''" "ETagOf sample_lib (i_Policy (sample_input None)) = ''v1''"
    by (simp_all add: sample_input_def sample_policy_defs)
  have "map pol_ETag (policy_ListByPrincipal ?s (Did ''t'') ''alice'') = [''v1'']"
    by (simp add: policy_ListByPrincipal_def n v)
  with ok show ?thesis by (intro exI[of _ ?s] conjI)
qed

end
