(* ===== verification/Vault.thy ===== *)
theory Vault
  imports Stores
begin

text \<open>
  \<open>pkg/vault\<close>: the paths secrets are kept under, the memory backend, the loading of a
  tenant's signing key and of an access key's, and the encoding of a client's secret. The
  key formats and the multibase encoding are ucantone's and multibase's: the record
  \<open>key_lib\<close>.
\<close>

subsection \<open>The key library\<close>

text \<open>
  \<open>KeyPrefix\<close> is \<open>did.KeyPrefix\<close>, \<open>DidParse\<close> is \<open>did.Parse\<close>, \<open>Ed25519Decode\<close> and \<open>Secp256k1Decode\<close> read a private key from
  its stored bytes and give the signer, by its own bytes, and \<open>Base64url\<close> is
  \<open>multibase.Encode\<close> in that base; \<open>None\<close> is an error of theirs.
\<close>

record key_lib =
  KeyPrefix :: string
  DidParse :: "string \<Rightarrow> did option"
  Ed25519Decode :: "string \<Rightarrow> string option"
  Secp256k1Decode :: "string \<Rightarrow> string option"
  Base64url :: "string \<Rightarrow> string option"

definition EncodeSecret :: "key_lib \<Rightarrow> string \<Rightarrow> err + string" where
  "EncodeSecret K signer =
     (case Base64url K signer of None \<Rightarrow> Inl (Internal ''encoding access key secret'') | Some s \<Rightarrow> Inr s)"

subsection \<open>Paths\<close>

definition TenantKeyPath :: "did \<Rightarrow> string" where
  "TenantKeyPath ten = ''/tenant/'' @ did_string ten"

definition AccessKeyPath :: "did \<Rightarrow> did \<Rightarrow> string" where
  "AccessKeyPath ten key = TenantKeyPath ten @ ''/access-key/'' @ did_string key"

subsection \<open>The memory backend\<close>

type_synonym vault = "(string, string) gomap"

definition vault_Read :: "vault \<Rightarrow> string \<Rightarrow> err + string" where
  "vault_Read v path = (case map_of v path of None \<Rightarrow> Inl (Store ErrKeyNotFound) | Some b \<Rightarrow> Inr b)"

definition vault_Write :: "string \<Rightarrow> string \<Rightarrow> vault \<Rightarrow> vault" where
  "vault_Write path bytes v = AList.update path bytes v"

definition vault_Delete :: "string \<Rightarrow> vault \<Rightarrow> vault" where
  "vault_Delete path v = AList.delete path v"

text \<open>
  \<open>vault.TenantIssuer\<close> and \<open>Authorizer.AccessKeySigner\<close> over a vault's read. An issuer is
  the DID it signs as and its signer.
\<close>

definition TenantIssuer :: "key_lib \<Rightarrow> (string \<Rightarrow> err + string) \<Rightarrow> did \<Rightarrow> err + did \<times> string" where
  "TenantIssuer K read ten =
     (case read (TenantKeyPath ten) of
        Inl e \<Rightarrow> Inl e
      | Inr keyBytes \<Rightarrow>
          (case Secp256k1Decode K keyBytes of
             None \<Rightarrow> Inl (Internal ''decoding tenant key'')
           | Some signer \<Rightarrow> Inr (ten, signer)))"

definition AccessKeySigner :: "key_lib \<Rightarrow> (string \<Rightarrow> err + string) \<Rightarrow> did \<Rightarrow> did \<Rightarrow> err + string" where
  "AccessKeySigner K read ten key =
     (case read (AccessKeyPath ten key) of
        Inl e \<Rightarrow> Inl e
      | Inr keyBytes \<Rightarrow>
          (case Ed25519Decode K keyBytes of
             None \<Rightarrow> Inl (Internal ''decoding access key'')
           | Some signer \<Rightarrow> Inr signer))"

subsection \<open>Lemmas\<close>

lemma vault_Read_Write: "vault_Read (vault_Write p b v) q = (if q = p then Inr b else vault_Read v q)"
  by (simp add: vault_Read_def vault_Write_def update_conv')

lemma vault_Read_Delete:
  "vault_Read (vault_Delete p v) q = (if q = p then Inl (Store ErrKeyNotFound) else vault_Read v q)"
  by (simp add: vault_Read_def vault_Delete_def)

text \<open>A DID has no slash, so no two secrets share a path.\<close>

definition slash_free :: "did \<Rightarrow> bool" where
  "slash_free d \<longleftrightarrow> CHR ''/'' \<notin> set (did_string d)"

lemma did_string_inject:
  assumes "did_string d = did_string e" and "d \<noteq> Did []" and "e \<noteq> Did []"
  shows "d = e"
  using assms by (cases d; cases e) auto

lemma split_at_slash:
  assumes "CHR ''/'' \<notin> set a" and "CHR ''/'' \<notin> set b" and "a @ CHR ''/'' # x = b @ CHR ''/'' # y"
  shows "a = b \<and> x = y"
  using assms by (induction a arbitrary: b) (case_tac b; force)+

lemma AccessKeyPath_inject:
  assumes "slash_free t" and "slash_free t'" and "AccessKeyPath t k = AccessKeyPath t' k'"
  shows "did_string t = did_string t' \<and> did_string k = did_string k'"
  using split_at_slash[of "did_string t" "did_string t'" "''access-key/'' @ did_string k" "''access-key/'' @ did_string k'"]
    assms by (simp add: AccessKeyPath_def TenantKeyPath_def slash_free_def)

lemma TenantKeyPath_not_AccessKeyPath: "slash_free t \<Longrightarrow> TenantKeyPath t \<noteq> AccessKeyPath t' k'"
proof
  assume "slash_free t" "TenantKeyPath t = AccessKeyPath t' k'"
  then have "did_string t = did_string t' @ ''/access-key/'' @ did_string k'"
    by (simp add: TenantKeyPath_def AccessKeyPath_def)
  with \<open>slash_free t\<close> show False by (simp add: slash_free_def)
qed

text \<open>The lemmas on reading back what was written.\<close>

lemmas vault_simps = vault_Read_Write vault_Read_Delete

text \<open>A key library for the witnesses.\<close>

definition sample_keylib :: key_lib where
  "sample_keylib = \<lparr>KeyPrefix = ''did:key:'', DidParse = (\<lambda>s. Some (Did s)), Ed25519Decode = Some,
     Secp256k1Decode = Some, Base64url = (\<lambda>s. Some (CHR ''u'' # s))\<rparr>"

end
