(* ===== verification/Auth.thy ===== *)
theory Auth
  imports Body Principal_Store Policy_Store Vault
begin

text \<open>
  \<open>pkg/rpc/service/auth/auth.go\<close>: the authorization service. It authenticates a request by
  its signature, resolves the access key, the tenant and the provider, classifies the request
  and decides what the credential may do.
\<close>

subsection \<open>The service\<close>

text \<open>
  The authorizer's stores, by the reads it makes of them: a share-locked read of a key, of a
  principal and of a policy may fail with the store's timeout.
\<close>

record authorizer =
  a_codec :: codec
  a_policy :: policy_lib
  a_keylib :: key_lib
  a_keys :: "did \<Rightarrow> err + access_key"
  a_tenants :: "did \<Rightarrow> err + tenant"
  a_providers :: "did \<Rightarrow> err + provider"
  a_regions :: "string \<Rightarrow> err + provider"
  a_buckets :: "string \<Rightarrow> err + bucket"
  a_principals :: "did \<Rightarrow> string \<Rightarrow> err + principal_rec"
  a_policies :: "did \<Rightarrow> err + policy_record"
  a_secrets :: "string \<Rightarrow> err + string"

record authorized_request =
  ar_AccessKey :: access_key
  ar_Tenant :: tenant
  ar_Provider :: provider
  ar_Region :: string
  ar_Permissions :: "string list"
  ar_Operation :: operation
  ar_BucketName :: string
  ar_Bucket :: "bucket option"
  ar_SourceBucketName :: string
  ar_SourceBucket :: "bucket option"
  ar_SourcePermission :: string
  ar_Signed :: signed_request

definition lookupError :: "err \<Rightarrow> err" where
  "lookupError e = (if e = Store ErrLockTimeout then Auth ErrTemporarilyUnavailable else e)"

subsection \<open>Regions and buckets\<close>

text \<open>The loop over the regions: \<open>served\<close> says that another provider serves one of them.\<close>

fun resolveLoop :: "(string \<Rightarrow> err + provider) \<Rightarrow> did \<Rightarrow> string list \<Rightarrow> bool \<Rightarrow> err + provider \<times> string" where
  "resolveLoop byRegion issuer [] served =
     Inl (Auth (if served then ErrIssuerForbidden else ErrRegionNotServed))"
| "resolveLoop byRegion issuer (r # rs) served =
     (case byRegion r of
        Inl e \<Rightarrow> if e = Store ErrRecordNotFound then resolveLoop byRegion issuer rs served else Inl e
      | Inr prov \<Rightarrow> if pr_ID prov = issuer then Inr (prov, r) else resolveLoop byRegion issuer rs True)"

definition resolveProvider :: "(string \<Rightarrow> err + provider) \<Rightarrow> string list \<Rightarrow> did \<Rightarrow> err + provider \<times> string" where
  "resolveProvider byRegion regions issuer = resolveLoop byRegion issuer regions False"

definition resolveBucket :: "authorizer \<Rightarrow> did \<Rightarrow> string \<Rightarrow> err + bucket" where
  "resolveBucket A ten nm =
     (case a_buckets A nm of
        Inl e \<Rightarrow> Inl (if e = Store ErrRecordNotFound then Auth ErrUnknownBucket else e)
      | Inr b \<Rightarrow> if b_Tenant b \<noteq> ten then Inl (Auth ErrForeignBucket) else Inr b)"

definition assertServedBy :: "authorizer \<Rightarrow> provider \<Rightarrow> bucket \<Rightarrow> err + unit" where
  "assertServedBy A prov b =
     (if b_Provider b = pr_ID prov then Inr ()
      else (case a_providers A (b_Provider b) of
              Inl e \<Rightarrow> Inl e
            | Inr served \<Rightarrow> Inl (Auth (BucketRegionMismatchError (pr_Region served) (pr_Region prov)))))"

definition resolveBucketInScope :: "authorizer \<Rightarrow> access_key \<Rightarrow> provider \<Rightarrow> did \<Rightarrow> string \<Rightarrow> err + bucket" where
  "resolveBucketInScope A ak prov ten nm =
     on_ok (resolveBucket A ten nm) (\<lambda>b.
       if length (k_Buckets ak) > 0 \<and> b_ID b \<notin> set (k_Buckets ak) then Inl (Auth ErrBucketNotPermitted)
       else on_ok (assertServedBy A prov b) (\<lambda>_. Inr b))"

subsection \<open>A principal's access\<close>

definition effectiveActions :: "authorizer \<Rightarrow> string \<Rightarrow> did \<Rightarrow> err + string list \<times> string" where
  "effectiveActions A p b =
     (case a_policies A b of
        Inr r \<Rightarrow> Inr (Effective (a_policy A) (Some (pol_Policy r)) p, pol_ETag r)
      | Inl e \<Rightarrow>
          if e \<noteq> Store ErrRecordNotFound then Inl (lookupError e)
          else Inr (Effective (a_policy A) None p, []))"

definition livePrincipal :: "authorizer \<Rightarrow> did \<Rightarrow> string \<Rightarrow> err + unit" where
  "livePrincipal A ten p =
     (case a_principals A ten p of
        Inr _ \<Rightarrow> Inr ()
      | Inl e \<Rightarrow> Inl (if e = Store ErrRecordNotFound then Auth ErrUnknownAccessKey else lookupError e))"

definition EffectiveActions :: "authorizer \<Rightarrow> did \<Rightarrow> string \<Rightarrow> did \<Rightarrow> err + string list \<times> string" where
  "EffectiveActions A ten p b = on_ok (livePrincipal A ten p) (\<lambda>_. effectiveActions A p b)"

definition principalAccess ::
  "authorizer \<Rightarrow> provider \<Rightarrow> did \<Rightarrow> string \<Rightarrow> string \<Rightarrow> string list \<Rightarrow> err + bucket \<times> string list" where
  "principalAccess A prov ten p nm perms =
     on_ok (resolveBucket A ten nm) (\<lambda>b.
     on_ok (effectiveActions A p (b_ID b)) (\<lambda>(eff, _).
       if length eff = 0 then Inl (Auth ErrUnknownBucket)
       else if \<not> list_all (\<lambda>perm. perm \<in> set eff) perms then Inl (Auth ErrOperationNotPermitted)
       else on_ok (assertServedBy A prov b) (\<lambda>_. Inr (b, eff))))"

subsection \<open>The decision\<close>

text \<open>The operations no policy grants.\<close>

definition ungranted :: "operation \<Rightarrow> bool" where
  "ungranted op \<longleftrightarrow> op \<in> {OpCreateBucket, OpDeleteBucket, OpGetBucketPolicy, OpPutBucketPolicy,
     OpDeleteBucketPolicy, OpGetBucketPolicyStatus, OpGetBucketEncryption, OpPutBucketEncryption,
     OpDeleteBucketEncryption, OpPutBucketTagging, OpDeleteBucketTagging, OpPutBucketVersioning,
     OpPutObjectLockConfiguration, OpPutBucketCors, OpDeleteBucketCors}"

type_synonym decision = "string list \<times> bucket option \<times> bucket option"

definition authorizeServiceKey ::
  "authorizer \<Rightarrow> access_key \<Rightarrow> did \<Rightarrow> provider \<Rightarrow> classification \<Rightarrow> err + decision" where
  "authorizeServiceKey A ak ten prov c =
     (if \<not> list_all (\<lambda>perm. perm \<in> set (k_Permissions ak)) (permissions c)
      then Inl (Auth ErrOperationNotPermitted)
      else if \<not> addressesExistingBucket (c_op c) then Inr (k_Permissions ak, None, None)
      else
        on_ok (resolveBucketInScope A ak prov ten (c_bucket c)) (\<lambda>b.
          if CopiesSource (c_op c) then
            (if sourcePermission c \<notin> set (k_Permissions ak) then Inl (Auth ErrOperationNotPermitted)
             else if c_srcBucket c = c_bucket c then Inr (k_Permissions ak, Some b, Some b)
             else on_ok (resolveBucketInScope A ak prov ten (c_srcBucket c))
                    (\<lambda>source. Inr (k_Permissions ak, Some b, Some source)))
          else Inr (k_Permissions ak, Some b, None)))"

definition authorizePrincipal ::
  "authorizer \<Rightarrow> string \<Rightarrow> did \<Rightarrow> provider \<Rightarrow> classification \<Rightarrow> err + decision" where
  "authorizePrincipal A p ten prov c =
     on_ok (livePrincipal A ten p) (\<lambda>_.
       if c_op c = OpListBuckets then Inr ([''s3:ListAllMyBuckets''], None, None)
       else if ungranted (c_op c) then Inl (Auth ErrOperationNotPermitted)
       else
         on_ok (principalAccess A prov ten p (c_bucket c) (permissions c)) (\<lambda>(b, eff).
           if CopiesSource (c_op c) then
             (if c_srcBucket c = c_bucket c then
                (if sourcePermission c \<notin> set eff then Inl (Auth ErrOperationNotPermitted)
                 else Inr (eff, Some b, Some b))
              else on_ok (principalAccess A prov ten p (c_srcBucket c) [sourcePermission c])
                     (\<lambda>(source, _). Inr (eff, Some b, Some source)))
           else Inr (eff, Some b, None)))"

definition authorizeOperation ::
  "authorizer \<Rightarrow> access_key \<Rightarrow> did \<Rightarrow> provider \<Rightarrow> classification \<Rightarrow> err + decision" where
  "authorizeOperation A ak ten prov c =
     (case k_Principal ak of
        None \<Rightarrow> authorizeServiceKey A ak ten prov c
      | Some p \<Rightarrow> authorizePrincipal A p ten prov c)"

subsection \<open>Authorize\<close>

text \<open>The signature is read: the access key it names, live and within its own lifetime, with its id.\<close>

definition lookupKey :: "authorizer \<Rightarrow> instant \<Rightarrow> signed_request \<Rightarrow> err + did \<times> access_key" where
  "lookupKey A now sr =
     (case DidParse (a_keylib A) (KeyPrefix (a_keylib A) @ AccessKeyID sr) of
        None \<Rightarrow> Inl (Auth ErrInvalidAccessKeyID)
      | Some kid \<Rightarrow>
          (case a_keys A kid of
             Inl e \<Rightarrow> Inl (if e = Store ErrRecordNotFound then Auth ErrUnknownAccessKey else lookupError e)
           | Inr ak \<Rightarrow>
               if (case k_ExpiresAt ak of None \<Rightarrow> False | Some t \<Rightarrow> now > t)
               then Inl (Auth ErrAccessKeyExpired) else Inr (kid, ak)))"

text \<open>
  The signature is verified with the key's secret, and its time bounds.
\<close>

definition authenticate :: "authorizer \<Rightarrow> instant \<Rightarrow> did \<Rightarrow> access_key \<Rightarrow> signed_request \<Rightarrow> err + unit" where
  "authenticate A now kid ak sr =
     on_ok (AccessKeySigner (a_keylib A) (a_secrets A) (k_Tenant ak) kid) (\<lambda>signer.
     on_ok (EncodeSecret (a_keylib A) signer) (\<lambda>secret.
       (case Verify (Crypto (a_codec A)) sr secret of
          Inl _ \<Rightarrow> Inl (Auth ErrSignatureMismatch)
        | Inr _ \<Rightarrow>
            (case ValidateTimeBounds sr now of
               Inl _ \<Rightarrow> Inl (Auth ErrSignatureExpired)
             | Inr _ \<Rightarrow> Inr ()))))"

text \<open>Which of a classification's errors are reported as they are.\<close>

fun classifyError :: "err \<Rightarrow> err" where
  "classifyError (Auth (ErrConflictingQuery ns)) = Auth (ErrConflictingQuery ns)"
| "classifyError (Auth ErrInvalidBody) = Auth ErrInvalidBody"
| "classifyError _ = Auth ErrUnsupportedOperation"

text \<open>The operation the request performs, decided from nothing the signature leaves open.\<close>

definition classifySigned :: "codec \<Rightarrow> signed_request \<Rightarrow> s3_request \<Rightarrow> err + classification" where
  "classifySigned G sr req =
     (case classifyRequest (UrlParse G) req of
        Inl e \<Rightarrow> Inl (classifyError e)
      | Inr c \<Rightarrow>
          (case unsignedHeader sr (c_headers c) of
             Some h \<Rightarrow> Inl (Auth (ErrUnsignedHeader h))
           | None \<Rightarrow> bindBody G sr req c))"

text \<open>
  The clock is read twice: \<open>now\<close> when the key's lifetime is checked, \<open>now'\<close> when the
  signature's is.
\<close>

definition Authorize ::
  "authorizer \<Rightarrow> instant \<Rightarrow> instant \<Rightarrow> did \<Rightarrow> s3_request \<Rightarrow> err + authorized_request" where
  "Authorize A now now' issuer req =
     (case Parse (UrlParse (a_codec A)) (request.truncate req) of
        Inl _ \<Rightarrow> Inl (Auth ErrMalformedSignature)
      | Inr sr \<Rightarrow>
          on_ok (lookupKey A now sr) (\<lambda>(kid, ak).
          on_ok (authenticate A now' kid ak sr) (\<lambda>_.
          on_ok (a_tenants A (k_Tenant ak)) (\<lambda>ten.
            if t_Status ten = Disabled then Inl (Auth ErrTenantDisabled)
            else
              on_ok (resolveProvider (a_regions A) (Regions sr) issuer) (\<lambda>(prov, region).
              on_ok (classifySigned (a_codec A) sr req) (\<lambda>c.
              on_ok (authorizeOperation A ak (t_ID ten) prov c) (\<lambda>(perms, b, source).
                Inr \<lparr>ar_AccessKey = ak, ar_Tenant = ten, ar_Provider = prov, ar_Region = region,
                  ar_Permissions = perms, ar_Operation = c_op c, ar_BucketName = c_bucket c,
                  ar_Bucket = b, ar_SourceBucketName = c_srcBucket c, ar_SourceBucket = source,
                  ar_SourcePermission = (if CopiesSource (c_op c) then sourcePermission c else []),
                  ar_Signed = sr\<rparr>)))))))"

subsection \<open>What each step leaves\<close>

lemma resolveLoop_Inr:
  "resolveLoop byRegion issuer rs served = Inr (prov, r) \<Longrightarrow>
     r \<in> set rs \<and> byRegion r = Inr prov \<and> pr_ID prov = issuer"
  by (induction byRegion issuer rs served rule: resolveLoop.induct) (auto split: sum.splits if_splits)

lemma resolveBucket_Inr: "resolveBucket A ten nm = Inr b \<longleftrightarrow> a_buckets A nm = Inr b \<and> b_Tenant b = ten"
  by (auto simp: resolveBucket_def split: sum.splits)

lemma assertServedBy_Inr: "assertServedBy A prov b = Inr u \<longleftrightarrow> b_Provider b = pr_ID prov"
  by (auto simp: assertServedBy_def split: sum.splits)

text \<open>A bucket of the tenant, found under its name and served by the provider.\<close>

definition found :: "authorizer \<Rightarrow> provider \<Rightarrow> did \<Rightarrow> string \<Rightarrow> bucket \<Rightarrow> bool" where
  "found A prov ten nm b \<longleftrightarrow> a_buckets A nm = Inr b \<and> b_Tenant b = ten \<and> b_Provider b = pr_ID prov"

lemma resolveBucketInScope_Inr:
  "resolveBucketInScope A ak prov ten nm = Inr b \<longleftrightarrow>
     found A prov ten nm b \<and> (k_Buckets ak = [] \<or> b_ID b \<in> set (k_Buckets ak))"
  by (auto simp: resolveBucketInScope_def on_ok_Inr_iff resolveBucket_Inr assertServedBy_Inr found_def)

lemma effectiveActions_Inr:
  "effectiveActions A p b = Inr (eff, tag) \<Longrightarrow> eff \<noteq> [] \<Longrightarrow>
     \<exists>r. a_policies A b = Inr r \<and> eff = Effective (a_policy A) (Some (pol_Policy r)) p"
  by (auto simp: effectiveActions_def split: sum.splits if_splits)

text \<open>The actions the policy of a bucket grants a principal.\<close>

definition granted :: "authorizer \<Rightarrow> string \<Rightarrow> bucket \<Rightarrow> string set" where
  "granted A p b =
     (case a_policies A (b_ID b) of
        Inl _ \<Rightarrow> {}
      | Inr r \<Rightarrow> set (Effective (a_policy A) (Some (pol_Policy r)) p))"

lemma principalAccess_Inr:
  assumes "principalAccess A prov ten p nm perms = Inr (b, eff)"
  shows "found A prov ten nm b" and "set eff = granted A p b" and "set perms \<subseteq> set eff"
proof -
  from assms obtain tag where e: "a_buckets A nm = Inr b" "b_Tenant b = ten"
    "effectiveActions A p (b_ID b) = Inr (eff, tag)" "eff \<noteq> []"
    and s: "list_all (\<lambda>perm. perm \<in> set eff) perms" "b_Provider b = pr_ID prov"
    by (auto simp: principalAccess_def on_ok_Inr_iff resolveBucket_Inr assertServedBy_Inr
        split: if_split_asm)
  then show "found A prov ten nm b" "set perms \<subseteq> set eff" by (auto simp: found_def list_all_iff)
  from effectiveActions_Inr[OF e(3,4)] show "set eff = granted A p b" by (auto simp: granted_def)
qed

lemma livePrincipal_Inr: "livePrincipal A ten p = Inr u \<longleftrightarrow> (\<exists>r. a_principals A ten p = Inr r)"
  by (auto simp: livePrincipal_def split: sum.splits)

lemma Authorize_InrD:
  assumes "Authorize A now now' issuer req = Inr ar"
  obtains kid c where
    "Parse (UrlParse (a_codec A)) (request.truncate req) = Inr (ar_Signed ar)"
    "lookupKey A now (ar_Signed ar) = Inr (kid, ar_AccessKey ar)"
    "authenticate A now' kid (ar_AccessKey ar) (ar_Signed ar) = Inr ()"
    "a_tenants A (k_Tenant (ar_AccessKey ar)) = Inr (ar_Tenant ar)" "t_Status (ar_Tenant ar) \<noteq> Disabled"
    "resolveProvider (a_regions A) (Regions (ar_Signed ar)) issuer = Inr (ar_Provider ar, ar_Region ar)"
    "classifySigned (a_codec A) (ar_Signed ar) req = Inr c"
    "authorizeOperation A (ar_AccessKey ar) (t_ID (ar_Tenant ar)) (ar_Provider ar) c =
       Inr (ar_Permissions ar, ar_Bucket ar, ar_SourceBucket ar)"
    "ar_Operation ar = c_op c" "ar_BucketName ar = c_bucket c" "ar_SourceBucketName ar = c_srcBucket c"
    "ar_SourcePermission ar = (if CopiesSource (c_op c) then sourcePermission c else [])"
proof -
  from assms obtain sr where sr: "Parse (UrlParse (a_codec A)) (request.truncate req) = Inr sr"
    by (auto simp: Authorize_def split: sum.splits)
  from assms obtain kid ak ten prov region c perms b source where
    "lookupKey A now sr = Inr (kid, ak)" "authenticate A now' kid ak sr = Inr ()"
    "a_tenants A (k_Tenant ak) = Inr ten" "t_Status ten \<noteq> Disabled"
    "resolveProvider (a_regions A) (Regions sr) issuer = Inr (prov, region)"
    "classifySigned (a_codec A) sr req = Inr c"
    "authorizeOperation A ak (t_ID ten) prov c = Inr (perms, b, source)"
    "ar = \<lparr>ar_AccessKey = ak, ar_Tenant = ten, ar_Provider = prov, ar_Region = region,
                  ar_Permissions = perms, ar_Operation = c_op c, ar_BucketName = c_bucket c,
                  ar_Bucket = b, ar_SourceBucketName = c_srcBucket c, ar_SourceBucket = source,
                  ar_SourcePermission = (if CopiesSource (c_op c) then sourcePermission c else []),
                  ar_Signed = sr\<rparr>"
    unfolding Authorize_def sr sum.case
    by (auto simp: on_ok_Inr_iff split: if_split_asm)
  with sr that show thesis by simp
qed

lemma lookupKey_Inr:
  "lookupKey A now sr = Inr (kid, ak) \<longleftrightarrow>
     DidParse (a_keylib A) (KeyPrefix (a_keylib A) @ AccessKeyID sr) = Some kid \<and> a_keys A kid = Inr ak \<and>
     (\<forall>t. k_ExpiresAt ak = Some t \<longrightarrow> now \<le> t)"
  by (auto simp: lookupKey_def split: option.splits sum.splits if_splits)

lemma replaced_error_Inr:
  "(case r of Inl _ \<Rightarrow> Inl e | Inr _ \<Rightarrow> k) = Inr y \<longleftrightarrow> r = Inr () \<and> k = Inr y"
  by (cases r) simp_all

lemma authenticate_Inr:
  "authenticate A now kid ak sr = Inr u \<longleftrightarrow>
     (\<exists>signer secret. AccessKeySigner (a_keylib A) (a_secrets A) (k_Tenant ak) kid = Inr signer \<and>
        EncodeSecret (a_keylib A) signer = Inr secret \<and> Verify (Crypto (a_codec A)) sr secret = Inr ()) \<and>
     ValidateTimeBounds sr now = Inr ()"
  by (auto simp: authenticate_def on_ok_Inr_iff replaced_error_Inr)

lemma classifySigned_Inr:
  "classifySigned G sr req = Inr c \<longleftrightarrow>
     (\<exists>c0. classifyRequest (UrlParse G) req = Inr c0 \<and> (\<forall>h \<in> set (c_headers c0). HeaderSigned sr h) \<and>
        bindBody G sr req c0 = Inr c)"
  by (auto simp: classifySigned_def unsignedHeader_None split: sum.splits option.splits)
     (metis option.distinct(1) unsignedHeader_None)

lemma authorizeServiceKey_Inr:
  assumes "authorizeServiceKey A ak ten prov c = Inr (perms, b, source)"
  shows "perms = k_Permissions ak" and "set (permissions c) \<subseteq> set (k_Permissions ak)"
    and "b = None \<longleftrightarrow> \<not> addressesExistingBucket (c_op c)"
    and "b = Some x \<Longrightarrow> resolveBucketInScope A ak prov ten (c_bucket c) = Inr x"
    and "source = None \<longleftrightarrow> \<not> addressesExistingBucket (c_op c) \<or> \<not> CopiesSource (c_op c)"
    and "source = Some y \<Longrightarrow> sourcePermission c \<in> set (k_Permissions ak) \<and>
       resolveBucketInScope A ak prov ten (c_srcBucket c) = Inr y"
  using assms
  by (auto simp: authorizeServiceKey_def list_all_iff on_ok_Inr_iff split: if_split_asm)

lemma authorizePrincipal_Inr:
  assumes "authorizePrincipal A p ten prov c = Inr (perms, b, source)"
  shows "\<exists>r. a_principals A ten p = Inr r" and "\<not> ungranted (c_op c)"
    and "c_op c = OpListBuckets \<longleftrightarrow> b = None"
    and "b = None \<Longrightarrow> perms = [''s3:ListAllMyBuckets''] \<and> source = None"
    and "b = Some x \<Longrightarrow> principalAccess A prov ten p (c_bucket c) (permissions c) = Inr (x, perms)"
    and "b \<noteq> None \<Longrightarrow> source = None \<longleftrightarrow> \<not> CopiesSource (c_op c)"
    and "source = Some y \<Longrightarrow> found A prov ten (c_srcBucket c) y \<and> sourcePermission c \<in> granted A p y"
proof -
  have copied: "found A prov ten (c_srcBucket c) y \<and> sourcePermission c \<in> granted A p y"
    if "principalAccess A prov ten p (c_srcBucket c) [sourcePermission c] = Inr (y, eff) \<or>
      c_srcBucket c = c_bucket c \<and> principalAccess A prov ten p (c_bucket c) (permissions c) = Inr (y, eff) \<and>
      sourcePermission c \<in> set eff" for y eff
    using that
  proof
    assume "principalAccess A prov ten p (c_srcBucket c) [sourcePermission c] = Inr (y, eff)"
    from principalAccess_Inr[OF this] show ?thesis by simp
  next
    assume a: "c_srcBucket c = c_bucket c \<and> principalAccess A prov ten p (c_bucket c) (permissions c) = Inr (y, eff) \<and>
      sourcePermission c \<in> set eff"
    then have "principalAccess A prov ten p (c_bucket c) (permissions c) = Inr (y, eff)" by simp
    from principalAccess_Inr[OF this] a show ?thesis by simp
  qed
  have ne: "\<not> ungranted OpListBuckets" by (simp add: ungranted_def)
  show "\<exists>r. a_principals A ten p = Inr r" "\<not> ungranted (c_op c)" "c_op c = OpListBuckets \<longleftrightarrow> b = None"
    "b = None \<Longrightarrow> perms = [''s3:ListAllMyBuckets''] \<and> source = None"
    "b = Some x \<Longrightarrow> principalAccess A prov ten p (c_bucket c) (permissions c) = Inr (x, perms)"
    "b \<noteq> None \<Longrightarrow> source = None \<longleftrightarrow> \<not> CopiesSource (c_op c)"
    using assms ne
    by (auto simp: authorizePrincipal_def on_ok_Inr_iff livePrincipal_Inr split: if_split_asm)
  show "source = Some y \<Longrightarrow> found A prov ten (c_srcBucket c) y \<and> sourcePermission c \<in> granted A p y"
    using assms copied[of y]
    by (auto simp: authorizePrincipal_def on_ok_Inr_iff split: if_split_asm)
qed

subsection \<open>The contract of the stores\<close>

text \<open>
  What the service relies on of its stores: a record is found under its own identity. The
  reads are of some state \<open>w\<close> that satisfies the stores' invariant.
\<close>

locale authorizer_reads =
  fixes ok :: "'w \<Rightarrow> bool" and reads :: "'w \<Rightarrow> authorizer"
  assumes key_id: "ok w \<Longrightarrow> a_keys (reads w) k = Inr ak \<Longrightarrow> k_ID ak = k"
    and tenant_id: "ok w \<Longrightarrow> a_tenants (reads w) t = Inr ten \<Longrightarrow> t_ID ten = t"
    and region: "ok w \<Longrightarrow> a_regions (reads w) r = Inr prov \<Longrightarrow> pr_Region prov = r"
    and bucket_name: "ok w \<Longrightarrow> a_buckets (reads w) nm = Inr b \<Longrightarrow> b_Name b = nm"
begin

lemma accepted_bucket:
  assumes "ok w" and "Authorize (reads w) now now' issuer req = Inr ar"
    and "ar_Bucket ar = Some b \<or> ar_SourceBucket ar = Some b"
  shows "b_Tenant b = k_Tenant (ar_AccessKey ar)" and "b_Provider b = issuer"
    and "b_Name b \<in> {ar_BucketName ar, ar_SourceBucketName ar}"
proof -
  obtain kid c where a: "a_tenants (reads w) (k_Tenant (ar_AccessKey ar)) = Inr (ar_Tenant ar)"
    "resolveProvider (a_regions (reads w)) (Regions (ar_Signed ar)) issuer = Inr (ar_Provider ar, ar_Region ar)"
    and dec: "authorizeOperation (reads w) (ar_AccessKey ar) (t_ID (ar_Tenant ar)) (ar_Provider ar) c =
       Inr (ar_Permissions ar, ar_Bucket ar, ar_SourceBucket ar)"
    and names: "ar_BucketName ar = c_bucket c" "ar_SourceBucketName ar = c_srcBucket c"
    by (rule Authorize_InrD[OF assms(2)]) blast
  have ids: "t_ID (ar_Tenant ar) = k_Tenant (ar_AccessKey ar)" "pr_ID (ar_Provider ar) = issuer"
    using tenant_id[OF assms(1) a(1)] resolveLoop_Inr[OF a(2)[unfolded resolveProvider_def]] by simp_all
  have "\<exists>nm \<in> {c_bucket c, c_srcBucket c}. found (reads w) (ar_Provider ar) (t_ID (ar_Tenant ar)) nm b"
  proof (cases "k_Principal (ar_AccessKey ar)")
    case None
    then have "authorizeServiceKey (reads w) (ar_AccessKey ar) (t_ID (ar_Tenant ar)) (ar_Provider ar) c =
       Inr (ar_Permissions ar, ar_Bucket ar, ar_SourceBucket ar)"
      using dec by (simp add: authorizeOperation_def)
    from authorizeServiceKey_Inr(4,6)[OF this] assms(3) show ?thesis
      by (auto simp: resolveBucketInScope_Inr)
  next
    case (Some p)
    then have "authorizePrincipal (reads w) p (t_ID (ar_Tenant ar)) (ar_Provider ar) c =
       Inr (ar_Permissions ar, ar_Bucket ar, ar_SourceBucket ar)"
      using dec by (simp add: authorizeOperation_def)
    from authorizePrincipal_Inr(5,7)[OF this] assms(3) show ?thesis
      by (auto dest!: principalAccess_Inr(1))
  qed
  with ids bucket_name[OF assms(1)] names
  show "b_Tenant b = k_Tenant (ar_AccessKey ar)" "b_Provider b = issuer"
    "b_Name b \<in> {ar_BucketName ar, ar_SourceBucketName ar}"
    by (auto simp: found_def)
qed

lemma accepted_region:
  assumes "ok w" and "Authorize (reads w) now now' issuer req = Inr ar"
  shows "pr_Region (ar_Provider ar) = ar_Region ar \<and> ar_Region ar \<in> set (Regions (ar_Signed ar)) \<and>
    pr_ID (ar_Provider ar) = issuer"
  by (rule Authorize_InrD[OF assms(2)])
     (auto simp: resolveProvider_def dest!: resolveLoop_Inr region[OF assms(1)])

end

text \<open>The memory backends, as the stores of an authorizer.\<close>

record world =
  w_keys :: access_keys
  w_tenants :: tenants
  w_providers :: providers
  w_buckets :: buckets
  w_principals :: principals
  w_policies :: policies
  w_vault :: vault

definition memory_authorizer :: "codec \<Rightarrow> policy_lib \<Rightarrow> key_lib \<Rightarrow> world \<Rightarrow> authorizer" where
  "memory_authorizer G L K w =
     \<lparr>a_codec = G, a_policy = L, a_keylib = K,
      a_keys = key_Get (w_keys w), a_tenants = tenant_Get (w_tenants w),
      a_providers = provider_Get (w_providers w), a_regions = provider_GetByRegion (w_providers w),
      a_buckets = bucket_GetByName (w_buckets w),
      a_principals = principal_Get True (w_principals w),
      a_policies = policy_Get (w_policies w), a_secrets = vault_Read (w_vault w)\<rparr>"

definition world_ok :: "policy_lib \<Rightarrow> world \<Rightarrow> bool" where
  "world_ok L w \<longleftrightarrow> keys_ok (w_keys w) \<and> tenants_ok (w_tenants w) \<and> providers_ok (w_providers w) \<and>
     buckets_ok (w_buckets w) \<and> policies_ok L (w_policies w)"

interpretation memory_reads: authorizer_reads "world_ok L" "memory_authorizer G L K" for L G K
proof (unfold_locales, goal_cases)
  case (1 w k ak)
  then have "key_wf k ak"
    by (simp add: memory_authorizer_def world_ok_def keys_ok_def key_Get_def mapGet_Inr all_records_def)
  then show ?case by (simp add: key_wf_def)
next
  case (2 w t ten)
  then show ?case
    by (simp add: memory_authorizer_def world_ok_def tenants_ok_def tenant_Get_def mapGet_Inr all_records_def)
next
  case (3 w r prov)
  then show ?case
    by (auto simp: memory_authorizer_def world_ok_def dest: provider_GetByRegion_Inr(2))
next
  case (4 w nm b)
  then show ?case by (auto simp: memory_authorizer_def world_ok_def dest: bucket_GetByName_Inr(2))
qed

subsection \<open>Reach\<close>

text \<open>The stores as they are to somebody the bucket \<open>nm\<close> does not exist for.\<close>

definition without_bucket :: "authorizer \<Rightarrow> string \<Rightarrow> authorizer" where
  "without_bucket A nm = A\<lparr>a_buckets := (a_buckets A)(nm := Inl (Store ErrRecordNotFound))\<rparr>"

lemma without_bucket_sel [simp]:
  "a_codec (without_bucket A nm) = a_codec A" "a_policy (without_bucket A nm) = a_policy A"
  "a_keylib (without_bucket A nm) = a_keylib A" "a_keys (without_bucket A nm) = a_keys A"
  "a_tenants (without_bucket A nm) = a_tenants A" "a_providers (without_bucket A nm) = a_providers A"
  "a_regions (without_bucket A nm) = a_regions A" "a_principals (without_bucket A nm) = a_principals A"
  "a_policies (without_bucket A nm) = a_policies A" "a_secrets (without_bucket A nm) = a_secrets A"
  "a_buckets (without_bucket A nm) = (a_buckets A)(nm := Inl (Store ErrRecordNotFound))"
  by (simp_all add: without_bucket_def)

lemma without_bucket_same [simp]:
  "lookupKey (without_bucket A nm) = lookupKey A" "authenticate (without_bucket A nm) = authenticate A"
  "livePrincipal (without_bucket A nm) = livePrincipal A"
  "effectiveActions (without_bucket A nm) = effectiveActions A"
  "assertServedBy (without_bucket A nm) = assertServedBy A"
  unfolding fun_eq_iff lookupKey_def authenticate_def livePrincipal_def effectiveActions_def
      assertServedBy_def without_bucket_sel by simp_all

lemma principalAccess_unreachable:
  assumes "a_buckets A nm = Inr b" "b_Tenant b = ten" "effectiveActions A p (b_ID b) = Inr ([], tag)"
  shows "principalAccess (without_bucket A nm) prov ten p = principalAccess A prov ten p"
proof (intro ext)
  fix x perms
  show "principalAccess (without_bucket A nm) prov ten p x perms = principalAccess A prov ten p x perms"
    unfolding principalAccess_def resolveBucket_def without_bucket_sel without_bucket_same
    using assms by (cases "x = nm") simp_all
qed

end
