(* ===== verification/Auth_Properties.thy ===== *)
theory Auth_Properties
  imports Auth
begin

text \<open>
  What the authorization service guarantees: an accepted request is authentic and stays in its
  tenant, a credential acts within what it was granted, a bucket out of reach looks like no
  bucket, and the gateway's local mirror of the checks agrees with them.
\<close>

subsection \<open>A sample deployment\<close>

definition sample_key :: "string option \<Rightarrow> access_key" where
  "sample_key p = \<lparr>k_ID = Did ''did:key:k'', k_Tenant = Did ''t'', k_Name = ''n'', k_Buckets = [],
     k_Permissions = (if p = None then [''s3:ListBucket''] else []), k_Principal = p,
     k_CreatedAt = 0, k_ExpiresAt = None\<rparr>"

definition sample_photos :: bucket where
  "sample_photos = \<lparr>b_ID = Did ''b'', b_Tenant = Did ''t'', b_Provider = Did ''p'', b_Name = ''photos'', b_CreatedAt = 0\<rparr>"

definition sample_world :: "string option \<Rightarrow> effect \<Rightarrow> world" where
  "sample_world p e = \<lparr>w_keys = [(Did ''did:key:k'', sample_key p)],
     w_tenants = [(Did ''t'', \<lparr>t_ID = Did ''t'', t_ExternalID = ''x'', t_Status = Active, t_CreatedAt = 0, t_UpdatedAt = 0\<rparr>)],
     w_providers = [\<lparr>pr_ID = Did ''p'', pr_Region = ''eu'', pr_Policy = None, pr_CreatedAt = 0, pr_UpdatedAt = 0\<rparr>],
     w_buckets = [(Did ''b'', sample_photos)],
     w_principals = \<lparr>p_rows = [((Did ''t'', ''alice''), newEntry 0 (Did ''t'') ''alice'')], p_held = [], p_wait = (\<lambda>_. None)\<rparr>,
     w_policies = [(Did ''b'', policyEntry sample_lib 0
        \<lparr>i_Bucket = Did ''b'', i_Tenant = Did ''t'',
         i_Policy = sample_policy ''1'' [sample_statement e [''*''] [''s3:ListBucket'']],
         i_Conditional = False, i_IfMatch = None\<rparr>
        (sample_policy ''1'' [sample_statement e [''*''] [''s3:ListBucket'']]))],
     w_vault = [(''/tenant/t/access-key/did:key:k'', ''secret'')]\<rparr>"

definition sample_auth_codec :: codec where
  "sample_auth_codec = sample_codec
     \<lparr>UrlParse := \<lambda>_. Some sample_url, Crypto := sample_crypto\<lparr>HMAC := \<lambda>k m. [char_of (187 :: nat)]\<rparr>\<rparr>"

definition sample_authorizer :: "string option \<Rightarrow> effect \<Rightarrow> authorizer" where
  "sample_authorizer p e = memory_authorizer sample_auth_codec sample_lib sample_keylib (sample_world p e)"

definition sample_get :: s3_request where
  "sample_get = \<lparr>Method = ''GET'', Headers = Headers sample_request, URL = ''http://s3.example/photos'', Body = []\<rparr>"

definition sample_time :: instant where "sample_time = 1369353600 * second"

lemma sample_authorizer_sel:
  "a_codec (sample_authorizer p e) = sample_auth_codec" "a_keylib (sample_authorizer p e) = sample_keylib"
  by (simp_all add: sample_authorizer_def memory_authorizer_def)

lemma sample_get_Parse: "Parse (UrlParse sample_auth_codec) (request.truncate sample_get) = Inr sample_signed"
proof -
  have "request.truncate sample_get = sample_request"
    by (simp add: sample_get_def request.truncate_def sample_request_def)
  then show ?thesis using sample_Parse by (simp add: sample_auth_codec_def)
qed

lemma sample_lookup: "lookupKey (sample_authorizer p e) 0 sample_signed = Inr (Did ''did:key:k'', sample_key p)"
  by (simp add: lookupKey_Inr sample_authorizer_def memory_authorizer_def sample_keylib_def sample_signed_def
      sample_world_def key_Get_def mapGet_def sample_key_def)

lemma sample_authenticate:
  "authenticate (sample_authorizer p e) sample_time (Did ''did:key:k'') (sample_key p) sample_signed = Inr ()"
proof -
  have "ValidateTimeBounds sample_signed sample_time = Inr ()" unfolding sample_time_def by code_simp
  moreover have "hexEncode [char_of (187 :: nat)] = ''bb''" by code_simp
  ultimately show ?thesis
    by (simp add: authenticate_def sample_authorizer_def memory_authorizer_def sample_key_def AccessKeySigner_def
      AccessKeyPath_def TenantKeyPath_def vault_Read_def sample_world_def sample_keylib_def EncodeSecret_def
      Verify_def sample_signed_def verifyV4_def verifyV4WithKey_def signV4WithKey_def sample_auth_codec_def)
qed

lemma sample_classify: "classifySigned sample_auth_codec sample_signed sample_get = Inr (addressed ''photos'' [] OpListBucket)"
  unfolding sample_get_def sample_request_def sample_signed_def sample_auth_codec_def sample_codec_def by code_simp

lemma sample_Effective:
  "Effective sample_lib (Some (sample_policy ''1'' [sample_statement e [''*''] [''s3:ListBucket'']])) ''alice'' =
     (if e = Deny then [] else [''s3:ListBucket''])"
proof -
  have "set (Effective sample_lib (Some (sample_policy ''1'' [sample_statement e [''*''] [''s3:ListBucket'']])) ''alice'') =
    set (if e = Deny then [] else [''s3:ListBucket''])"
    by (simp add: set_Effective names_def set_expand sample_policy_defs)
  then show ?thesis by (rule sorted_distinct_set_unique[rotated 4]) simp_all
qed

lemma sample_permissions: "permissions (addressed ''photos'' [] OpListBucket) = [''s3:ListBucket'']"
  "addressesExistingBucket OpListBucket" "\<not> CopiesSource OpListBucket" "\<not> ungranted OpListBucket"
  by code_simp+

lemma sample_authorize:
  assumes "authorizeOperation (sample_authorizer p e) (sample_key p) (Did ''t'')
    \<lparr>pr_ID = Did ''p'', pr_Region = ''eu'', pr_Policy = None, pr_CreatedAt = 0, pr_UpdatedAt = 0\<rparr>
    (addressed ''photos'' [] OpListBucket) = Inr ([''s3:ListBucket''], Some sample_photos, None)"
  shows "\<exists>ar. Authorize (sample_authorizer p e) 0 sample_time (Did ''p'') sample_get = Inr ar \<and>
    ar_Operation ar = OpListBucket \<and> ar_AccessKey ar = sample_key p \<and> ar_Bucket ar = Some sample_photos \<and>
    t_ID (ar_Tenant ar) = Did ''t'' \<and> ar_BucketName ar = ''photos'' \<and> ar_Signed ar = sample_signed"
proof -
  have t: "a_tenants (sample_authorizer p e) (k_Tenant (sample_key p)) =
    Inr \<lparr>t_ID = Did ''t'', t_ExternalID = ''x'', t_Status = Active, t_CreatedAt = 0, t_UpdatedAt = 0\<rparr>"
    by (simp add: sample_authorizer_def memory_authorizer_def tenant_Get_def mapGet_def sample_world_def sample_key_def)
  have r: "resolveProvider (a_regions (sample_authorizer p e)) (Regions sample_signed) (Did ''p'') =
    Inr (\<lparr>pr_ID = Did ''p'', pr_Region = ''eu'', pr_Policy = None, pr_CreatedAt = 0, pr_UpdatedAt = 0\<rparr>, ''eu'')"
    by (simp add: resolveProvider_def sample_authorizer_def memory_authorizer_def provider_GetByRegion_def
        firstProvider_def sample_world_def sample_signed_def)
  show ?thesis
    by (simp add: Authorize_def sample_authorizer_sel sample_get_Parse sample_lookup sample_authenticate
        t r sample_classify sample_permissions assms)
qed

lemma sample_reads:
  "resolveBucket (sample_authorizer p e) (Did ''t'') ''photos'' = Inr sample_photos"
  "a_policies (sample_authorizer p e) (Did ''b'') = Inr \<lparr>pol_Bucket = Did ''b'',
     pol_Policy = sample_policy ''1'' [sample_statement e [''*''] [''s3:ListBucket'']], pol_ETag = ''1'', pol_UpdatedAt = 0\<rparr>"
  "livePrincipal (sample_authorizer p e) (Did ''t'') ''alice'' = Inr ()"
  "b_ID sample_photos = Did ''b''" "b_Provider sample_photos = Did ''p''" "b_Tenant sample_photos = Did ''t''"
  "a_policy (sample_authorizer p e) = sample_lib"
  by (simp_all add: sample_authorizer_def memory_authorizer_def sample_world_def resolveBucket_def
      bucket_GetByName_def policy_Get_def policyEntry_def sample_photos_def sample_lib_def sample_policy_def
      livePrincipal_def principal_Get_def hold_def lookup_def newEntry_def split: prod.splits)

lemma one_record:
  "wf_gomap [(k, r)]" "unique_by f [(k, r)]" "all_records Q [(k, r)] \<longleftrightarrow> Q k r"
  by (simp_all add: wf_gomap_def unique_by_def all_records_def)

lemma sample_tenancy_ok: "world_ok sample_lib (sample_world None e)"
proof -
  let ?i = "\<lparr>i_Bucket = Did ''b'', i_Tenant = Did ''t'',
     i_Policy = sample_policy ''1'' [sample_statement e [''*''] [''s3:ListBucket'']],
     i_Conditional = False, i_IfMatch = None\<rparr>"
  have v: "ValidateName ''photos'' = Inr ()" by code_simp
  have "keys_ok (w_keys (sample_world None e))"
    by (simp add: sample_world_def keys_ok_def one_record key_wf_def sample_key_def)
  moreover have "tenants_ok (w_tenants (sample_world None e))"
    by (simp add: sample_world_def tenants_ok_def one_record)
  moreover have "providers_ok (w_providers (sample_world None e))"
    by (simp add: sample_world_def providers_ok_def)
  moreover have "buckets_ok (w_buckets (sample_world None e))"
    by (simp add: sample_world_def buckets_ok_def one_record sample_photos_def v)
  moreover have "entry_ok sample_lib (i_Bucket ?i) (policyEntry sample_lib 0 ?i (i_Policy ?i))"
    by (rule entry_ok_policyEntry) simp_all
  then have "policies_ok sample_lib (w_policies (sample_world None e))"
    by (simp add: sample_world_def policies_ok_def one_record)
  ultimately show ?thesis by (simp add: world_ok_def)
qed

lemma sample_service: "authorizeOperation (sample_authorizer None e) (sample_key None) (Did ''t'')
    \<lparr>pr_ID = Did ''p'', pr_Region = ''eu'', pr_Policy = None, pr_CreatedAt = 0, pr_UpdatedAt = 0\<rparr>
    (addressed ''photos'' [] OpListBucket) = Inr ([''s3:ListBucket''], Some sample_photos, None)"
  by (simp add: authorizeOperation_def authorizeServiceKey_def sample_key_def sample_permissions
      resolveBucketInScope_def sample_reads assertServedBy_def)

lemma sample_effective:
  "effectiveActions (sample_authorizer p e) ''alice'' (Did ''b'') = Inr (if e = Deny then [] else [''s3:ListBucket''], ''1'')"
  by (simp add: effectiveActions_def sample_reads sample_Effective)

lemma sample_principal: "authorizeOperation (sample_authorizer (Some ''alice'') Allow) (sample_key (Some ''alice'')) (Did ''t'')
    \<lparr>pr_ID = Did ''p'', pr_Region = ''eu'', pr_Policy = None, pr_CreatedAt = 0, pr_UpdatedAt = 0\<rparr>
    (addressed ''photos'' [] OpListBucket) = Inr ([''s3:ListBucket''], Some sample_photos, None)"
  by (simp add: authorizeOperation_def authorizePrincipal_def sample_key_def sample_permissions
      principalAccess_def sample_reads sample_effective assertServedBy_def)

subsection \<open>Properties\<close>

text \<open>
  C1. An accepted request is authentic: its access key exists and has not expired, its
  signature verifies under the secret kept for that key and is within its time bounds, the
  tenant is not disabled, the provider invoking is the one registered for a region the
  request was signed for, and every header the operation was decided from is signed.
\<close>

theorem accepted_is_authentic:
  assumes "Authorize A now now' issuer req = Inr ar"
  shows "Parse (UrlParse (a_codec A)) (request.truncate req) = Inr (ar_Signed ar) \<and>
    (\<exists>kid signer secret.
       DidParse (a_keylib A) (KeyPrefix (a_keylib A) @ AccessKeyID (ar_Signed ar)) = Some kid \<and>
       a_keys A kid = Inr (ar_AccessKey ar) \<and>
       AccessKeySigner (a_keylib A) (a_secrets A) (k_Tenant (ar_AccessKey ar)) kid = Inr signer \<and>
       EncodeSecret (a_keylib A) signer = Inr secret \<and>
       Verify (Crypto (a_codec A)) (ar_Signed ar) secret = Inr ()) \<and>
    (\<forall>t. k_ExpiresAt (ar_AccessKey ar) = Some t \<longrightarrow> now \<le> t) \<and>
    ValidateTimeBounds (ar_Signed ar) now' = Inr () \<and>
    a_tenants A (k_Tenant (ar_AccessKey ar)) = Inr (ar_Tenant ar) \<and> t_Status (ar_Tenant ar) \<noteq> Disabled \<and>
    ar_Region ar \<in> set (Regions (ar_Signed ar)) \<and> a_regions A (ar_Region ar) = Inr (ar_Provider ar) \<and>
    pr_ID (ar_Provider ar) = issuer \<and>
    (\<exists>c. classifyRequest (UrlParse (a_codec A)) req = Inr c \<and> c_op c = ar_Operation ar \<and>
       c_bucket c = ar_BucketName ar \<and> (\<forall>h \<in> set (c_headers c). HeaderSigned (ar_Signed ar) h))"
proof -
  obtain kid c where s: "Parse (UrlParse (a_codec A)) (request.truncate req) = Inr (ar_Signed ar)"
    "lookupKey A now (ar_Signed ar) = Inr (kid, ar_AccessKey ar)"
    "authenticate A now' kid (ar_AccessKey ar) (ar_Signed ar) = Inr ()"
    "a_tenants A (k_Tenant (ar_AccessKey ar)) = Inr (ar_Tenant ar)" "t_Status (ar_Tenant ar) \<noteq> Disabled"
    "resolveProvider (a_regions A) (Regions (ar_Signed ar)) issuer = Inr (ar_Provider ar, ar_Region ar)"
    "classifySigned (a_codec A) (ar_Signed ar) req = Inr c"
    "ar_Operation ar = c_op c" "ar_BucketName ar = c_bucket c"
    by (rule Authorize_InrD[OF assms]) blast
  from s(7) obtain c0 where "classifyRequest (UrlParse (a_codec A)) req = Inr c0"
    "\<forall>h \<in> set (c_headers c0). HeaderSigned (ar_Signed ar) h" "bindBody (a_codec A) (ar_Signed ar) req c0 = Inr c"
    by (auto simp: classifySigned_Inr)
  with bindBody_sel(1,2) s(8,9) have "\<exists>c. classifyRequest (UrlParse (a_codec A)) req = Inr c \<and> c_op c = ar_Operation ar \<and>
       c_bucket c = ar_BucketName ar \<and> (\<forall>h \<in> set (c_headers c). HeaderSigned (ar_Signed ar) h)"
    by metis
  with s resolveLoop_Inr[OF s(6)[unfolded resolveProvider_def]] show ?thesis
    by (simp add: lookupKey_Inr authenticate_Inr)
qed

theorem accepted_is_authentic_witness:
  "\<exists>ar. Authorize (sample_authorizer None Allow) 0 sample_time (Did ''p'') sample_get = Inr ar \<and>
     ar_Operation ar = OpListBucket \<and> ValidateTimeBounds (ar_Signed ar) sample_time = Inr () \<and>
     pr_ID (ar_Provider ar) = Did ''p''"
proof -
  obtain ar where ar: "Authorize (sample_authorizer None Allow) 0 sample_time (Did ''p'') sample_get = Inr ar"
    "ar_Operation ar = OpListBucket"
    using sample_authorize[OF sample_service] by blast
  with accepted_is_authentic[OF ar(1)] show ?thesis by blast
qed





text \<open>
  C32. A bucket out of a principal's reach looks like no bucket: when the bucket's policy
  gives the principal no action, every request of the principal's keys, whether it addresses
  the bucket or copies from it, is answered exactly as if the bucket did not exist.
\<close>

theorem unreachable_bucket_hidden:
  assumes "Parse (UrlParse (a_codec A)) (request.truncate req) = Inr sr"
    and "lookupKey A now sr = Inr (kid, ak)" and "k_Principal ak = Some p"
    and "a_tenants A (k_Tenant ak) = Inr ten" and "a_buckets A nm = Inr b" and "b_Tenant b = t_ID ten"
    and "effectiveActions A p (b_ID b) = Inr ([], tag)"
  shows "Authorize (without_bucket A nm) now now' issuer req = Authorize A now now' issuer req"
proof -
  have "authorizeOperation (without_bucket A nm) ak (t_ID ten) prov c = authorizeOperation A ak (t_ID ten) prov c"
    for prov c
    unfolding authorizeOperation_def assms(3) option.case authorizePrincipal_def without_bucket_same
      principalAccess_unreachable[OF assms(5,6,7)] by (rule refl)
  then show ?thesis
    unfolding Authorize_def without_bucket_sel without_bucket_same assms(1) sum.case assms(2) on_ok_simps
      prod.case assms(4) by (simp only:)
qed

theorem unreachable_bucket_hidden_witness:
  "Authorize (without_bucket (sample_authorizer (Some ''alice'') Deny) ''photos'') 0 sample_time (Did ''p'') sample_get =
     Authorize (sample_authorizer (Some ''alice'') Deny) 0 sample_time (Did ''p'') sample_get"
proof (rule unreachable_bucket_hidden)
  show "Parse (UrlParse (a_codec (sample_authorizer (Some ''alice'') Deny))) (request.truncate sample_get) = Inr sample_signed"
    by (simp add: sample_authorizer_sel sample_get_Parse)
  show "lookupKey (sample_authorizer (Some ''alice'') Deny) 0 sample_signed = Inr (Did ''did:key:k'', sample_key (Some ''alice''))"
    by (rule sample_lookup)
  show "k_Principal (sample_key (Some ''alice'')) = Some ''alice''" by (simp add: sample_key_def)
  show "a_tenants (sample_authorizer (Some ''alice'') Deny) (k_Tenant (sample_key (Some ''alice''))) =
    Inr \<lparr>t_ID = Did ''t'', t_ExternalID = ''x'', t_Status = Active, t_CreatedAt = 0, t_UpdatedAt = 0\<rparr>"
    by (simp add: sample_authorizer_def memory_authorizer_def tenant_Get_def mapGet_def sample_world_def sample_key_def)
  show "a_buckets (sample_authorizer (Some ''alice'') Deny) ''photos'' = Inr sample_photos"
    using sample_reads(1)[of "Some ''alice''" Deny] by (simp add: resolveBucket_Inr)
  show "effectiveActions (sample_authorizer (Some ''alice'') Deny) ''alice'' (b_ID sample_photos) = Inr ([], ''1'')"
    by (simp add: sample_effective sample_reads)
qed (simp add: sample_photos_def)

definition holds :: "authorizer \<Rightarrow> access_key \<Rightarrow> did \<Rightarrow> requirement \<Rightarrow> bool" where
  "holds A ak ten rq \<longleftrightarrow>
     (case k_Principal ak of
        None \<Rightarrow> snd rq \<in> set (k_Permissions ak)
      | Some p \<Rightarrow> (\<exists>b. a_buckets A (fst rq) = Inr b \<and> b_Tenant b = ten \<and> snd rq \<in> granted A p b))"

lemma decided_requirements:
  assumes "authorizeOperation A ak ten prov c = Inr (perms, b, source)" and "rq \<in> set (bucketRequirements c)"
  shows "holds A ak ten rq"
proof (cases "k_Principal ak")
  case None
  note k = authorizeServiceKey_Inr[OF assms(1)[unfolded authorizeOperation_def None option.case]]
  have "addressesExistingBucket (c_op c)" using assms(2) by (simp add: bucketRequirements_def split: if_splits)
  with k(2,5,6) assms(2) None show ?thesis
    by (cases source) (auto simp: bucketRequirements_def holds_def split: if_splits)
next
  case (Some p)
  note k = authorizePrincipal_Inr[OF assms(1)[unfolded authorizeOperation_def Some option.case]]
  have "addressesExistingBucket (c_op c)" using assms(2) by (simp add: bucketRequirements_def split: if_splits)
  moreover have "\<not> addressesExistingBucket OpListBuckets" by code_simp
  ultimately obtain x where b: "b = Some x" using k(3) by (cases b) auto
  note a = principalAccess_Inr[OF k(5)[OF b]]
  show ?thesis
  proof (cases "rq = (c_srcBucket c, sourcePermission c) \<and> CopiesSource (c_op c)")
    case True
    with k(6) b obtain y where "source = Some y" by (cases source) auto
    from k(7)[OF this] True Some show ?thesis by (auto simp: holds_def found_def)
  next
    case False
    with assms(2) obtain perm where "rq = (c_bucket c, perm)" "perm \<in> set (permissions c)"
      by (auto simp: bucketRequirements_def split: if_splits)
    with a Some show ?thesis by (auto simp: holds_def found_def)
  qed
qed

lemma RequirementsFor_classified:
  assumes "Parse (UrlParse G) (request.truncate req) = Inr sr" and "classifySigned G sr req = Inr c"
  shows "RequirementsFor G req = Inr (c_op c, bucketRequirements c)"
proof -
  obtain c0 where c0: "classifyRequest (UrlParse G) req = Inr c0" "unsignedHeader sr (c_headers c0) = None"
    "bindBody G sr req c0 = Inr c"
    using assms(2) by (auto simp: classifySigned_Inr unsignedHeader_None)
  have "c = c0" if "\<not> (length (c_headers c0) > 0 \<or> ReadsBody G (c_op c0) \<or> length (Body req) > 0)"
    using that c0(3) by (auto intro: bindBody_other)
  then show ?thesis using c0 assms(1) by (auto simp: RequirementsFor_def)
qed



text \<open>
  C33. Nothing leaves its tenant or its region: over the memory stores, the buckets an
  accepted request acts on are the access key's tenant's, bear the names the request gave,
  and are served by the provider invoking, whose region is the one the request was signed for.
\<close>

theorem accepted_in_tenant:
  assumes "world_ok L w" and "Authorize (memory_authorizer G L K w) now now' issuer req = Inr ar"
  shows "(\<forall>b. ar_Bucket ar = Some b \<or> ar_SourceBucket ar = Some b \<longrightarrow>
       b_Tenant b = k_Tenant (ar_AccessKey ar) \<and> b_Provider b = issuer \<and>
       b_Name b \<in> {ar_BucketName ar, ar_SourceBucketName ar}) \<and>
    pr_Region (ar_Provider ar) = ar_Region ar \<and> ar_Region ar \<in> set (Regions (ar_Signed ar)) \<and>
    pr_ID (ar_Provider ar) = issuer"
  using memory_reads.accepted_bucket[OF assms] memory_reads.accepted_region[OF assms] by blast

theorem accepted_in_tenant_witness:
  "\<exists>ar. Authorize (sample_authorizer None Allow) 0 sample_time (Did ''p'') sample_get = Inr ar \<and>
     b_Tenant sample_photos = k_Tenant (sample_key None) \<and> b_Provider sample_photos = Did ''p'' \<and>
     pr_Region (ar_Provider ar) \<in> set (Regions sample_signed)"
proof -
  have ok: "world_ok sample_lib (sample_world None Allow)" by (rule sample_tenancy_ok)
  obtain ar where ar: "Authorize (sample_authorizer None Allow) 0 sample_time (Did ''p'') sample_get = Inr ar"
    "ar_AccessKey ar = sample_key None" "ar_Bucket ar = Some sample_photos" "ar_Signed ar = sample_signed"
    using sample_authorize[OF sample_service] by blast
  have inv: "ar_Bucket ar = Some sample_photos \<or> ar_SourceBucket ar = Some sample_photos" by (simp add: ar)
  note a = accepted_in_tenant[OF ok ar(1)[unfolded sample_authorizer_def]]
  show ?thesis
  proof (intro exI conjI)
    show "Authorize (sample_authorizer None Allow) 0 sample_time (Did ''p'') sample_get = Inr ar" by (rule ar(1))
    from a[THEN conjunct1, rule_format, OF inv]
    show "b_Tenant sample_photos = k_Tenant (sample_key None)" "b_Provider sample_photos = Did ''p''"
      by (simp_all only: ar)
    from a show "pr_Region (ar_Provider ar) \<in> set (Regions sample_signed)" by (simp only: ar)
  qed
qed

end
