(* ===== verification/Paging.thy ===== *)
theory Paging
  imports Stores "HOL-Library.Multiset"
begin

text \<open>
  \<open>store.Collect\<close> of \<open>pkg/store/store.go\<close>, which reads every page of a listing, the contract
  of a paged listing it relies on, and the paged bucket listing of
  \<open>pkg/store/bucket/memory\<close>.
\<close>

subsection \<open>Pages\<close>

record 'a page =
  Cursor :: "string option"
  Results :: "'a list"

text \<open>
  The loop may not end (a listing may return pages for ever), so it is an option: \<open>None\<close> is a
  call that never returns.
\<close>

partial_function (option) collectLoop ::
  "(string option \<Rightarrow> err + 'a page) \<Rightarrow> string option \<Rightarrow> 'a list \<Rightarrow> (err + 'a list) option" where
  "collectLoop getPage cursor items =
     (case getPage cursor of
        Inl e \<Rightarrow> Some (Inl e)
      | Inr pg \<Rightarrow>
          if Cursor pg = None \<or> Results pg = [] then Some (Inr (items @ Results pg))
          else collectLoop getPage (Cursor pg) (items @ Results pg))"

declare collectLoop.simps [code]

definition Collect_pages :: "(string option \<Rightarrow> err + 'a page) \<Rightarrow> (err + 'a list) option" where
  "Collect_pages getPage = collectLoop getPage None []"

subsection \<open>The contract of a paged listing\<close>

text \<open>The cursor that stands after the records read so far.\<close>

definition after :: "('a \<Rightarrow> string) \<Rightarrow> 'a list \<Rightarrow> string option" where
  "after cursorOf pre = (if pre = [] then None else Some (cursorOf (last pre)))"

definition cutPage :: "('a \<Rightarrow> string) \<Rightarrow> nat \<Rightarrow> 'a list \<Rightarrow> 'a page" where
  "cutPage cursorOf n rest =
     \<lparr>Cursor = (if n < length rest then after cursorOf (take n rest) else None), Results = take n rest\<rparr>"

text \<open>
  A listing of a store for a query is paged when the page after any records it starts with is
  the next ones, as many as the limit, with the cursor of the last when some are left.
\<close>

locale paged =
  fixes inv :: "'s \<Rightarrow> bool"
    and valid :: "'q \<Rightarrow> bool"
    and whole :: "'s \<Rightarrow> 'q \<Rightarrow> 'a list"
    and cursorOf :: "'a \<Rightarrow> string"
    and getPage :: "'s \<Rightarrow> 'q \<Rightarrow> string option \<Rightarrow> err + 'a page"
    and limit :: "'q \<Rightarrow> nat"
  assumes limit_pos: "valid q \<Longrightarrow> limit q > 0"
    and page_after: "inv s \<Longrightarrow> valid q \<Longrightarrow> whole s q = pre @ rest \<Longrightarrow>
      getPage s q (after cursorOf pre) = Inr (cutPage cursorOf (limit q) rest)"
begin

lemma collectLoop_rest:
  assumes "inv s" and "valid q" and "whole s q = pre @ rest"
  shows "collectLoop (getPage s q) (after cursorOf pre) items = Some (Inr (items @ rest))"
  using assms(3)
proof (induction "length rest" arbitrary: pre rest items rule: less_induct)
  case less
  have pg: "getPage s q (after cursorOf pre) = Inr (cutPage cursorOf (limit q) rest)"
    using page_after[OF assms(1,2) less.prems] .
  show ?case
  proof (cases "limit q < length rest")
    case False
    then show ?thesis by (subst collectLoop.simps) (simp add: pg cutPage_def)
  next
    case True
    have ne: "take (limit q) rest \<noteq> []" using True limit_pos[OF assms(2)] by auto
    then have "after cursorOf (take (limit q) rest) = after cursorOf (pre @ take (limit q) rest)"
      by (simp add: after_def)
    moreover have "whole s q = (pre @ take (limit q) rest) @ drop (limit q) rest"
      using less.prems by simp
    moreover have "length (drop (limit q) rest) < length rest" using True limit_pos[OF assms(2)] by simp
    ultimately have "collectLoop (getPage s q) (after cursorOf (take (limit q) rest)) (items @ take (limit q) rest) =
        Some (Inr ((items @ take (limit q) rest) @ drop (limit q) rest))"
      using less.hyps by metis
    moreover have "after cursorOf (take (limit q) rest) \<noteq> None" using ne by (simp add: after_def)
    ultimately show ?thesis
      using True ne by (subst collectLoop.simps) (simp add: pg cutPage_def del: take_eq_Nil)
  qed
qed

lemma collect_whole: "inv s \<Longrightarrow> valid q \<Longrightarrow> Collect_pages (getPage s q) = Some (Inr (whole s q))"
  using collectLoop_rest[of s q "[]" "whole s q" "[]"] by (simp add: Collect_pages_def after_def)

end

subsection \<open>Listing buckets\<close>

record bucket_query =
  q_IDs :: "did list"
  q_Names :: "string list"
  q_Prefix :: string
  q_Provider :: did
  q_Limit :: "int option"

definition defaultListLimit :: int where "defaultListLimit = 1000"

definition bucket_selected :: "did \<Rightarrow> bucket_query \<Rightarrow> bucket \<Rightarrow> bool" where
  "bucket_selected ten q b \<longleftrightarrow> b_Tenant b = ten \<and>
     (q_IDs q \<noteq> [] \<longrightarrow> b_ID b \<in> set (q_IDs q)) \<and>
     (q_Names q \<noteq> [] \<longrightarrow> b_Name b \<in> set (q_Names q)) \<and>
     (q_Prefix q \<noteq> [] \<longrightarrow> prefix (q_Prefix q) (b_Name b)) \<and>
     (defined (q_Provider q) \<longrightarrow> b_Provider b = q_Provider q)"

definition past :: "string option \<Rightarrow> bucket \<Rightarrow> bool" where
  "past cursor b \<longleftrightarrow> (case cursor of None \<Rightarrow> True | Some c \<Rightarrow> \<not> b_Name b \<le> c)"

text \<open>
  A page cut with a limit below one indexes out of range, a panic: with limit 0 when a record
  is left over, with a negative limit always.
\<close>

definition bucket_ListByTenant :: "buckets \<Rightarrow> did \<times> bucket_query \<Rightarrow> string option \<Rightarrow> err + bucket page" where
  "bucket_ListByTenant s tq cursor =
     (let (ten, q) = tq;
          lim = (case q_Limit q of None \<Rightarrow> defaultListLimit | Some n \<Rightarrow> n)
      in if length (q_IDs q) > 0 \<and> length (q_Names q) > 0 then Inl (Store ErrConflictingFilters)
         else
           (let recs = sort_key b_Name
                  (filter (\<lambda>b. bucket_selected ten q b \<and> past cursor b) (map snd s))
            in if int (length recs) > lim then
                 (if lim \<le> 0 then Inl (Internal ''panic: index out of range'')
                  else (let recs = take (nat lim) recs
                        in Inr \<lparr>Cursor = Some (b_Name (last recs)), Results = recs\<rparr>))
               else Inr \<lparr>Cursor = None, Results = recs\<rparr>))"

definition bucket_limit :: "bucket_query \<Rightarrow> nat" where
  "bucket_limit q = nat (case q_Limit q of None \<Rightarrow> defaultListLimit | Some n \<Rightarrow> n)"

definition valid_query :: "did \<times> bucket_query \<Rightarrow> bool" where
  "valid_query tq \<longleftrightarrow> (q_IDs (snd tq) = [] \<or> q_Names (snd tq) = []) \<and> bucket_limit (snd tq) > 0"

definition all_buckets :: "buckets \<Rightarrow> did \<times> bucket_query \<Rightarrow> bucket list" where
  "all_buckets s tq = sort_key b_Name (filter (bucket_selected (fst tq) (snd tq)) (map snd s))"

lemma gomap_value:
  assumes "wf_gomap s" and "\<And>k r. map_of s k = Some r \<Longrightarrow> f r = k"
  shows "r \<in> snd ` set s \<longleftrightarrow> map_of s (f r) = Some r"
proof
  assume "r \<in> snd ` set s"
  then obtain k where "(k, r) \<in> set s" by auto
  then have "map_of s k = Some r" by (simp add: gomap_in_iff[OF assms(1)])
  with assms(2)[OF this] show "map_of s (f r) = Some r" by simp
qed (force dest: map_of_SomeD)

lemma sort_key_filter: "sort_key f (filter Q xs) = filter Q (sort_key f xs)"
  by (simp add: filter_sort)

lemma names_distinct:
  assumes "buckets_ok s"
  shows "distinct (map b_Name (all_buckets s tq))"
proof -
  have w: "distinct (map fst s)" using assms by (simp add: buckets_ok_def wf_gomap_def)
  have m: "map_of s k = Some b" if "(k, b) \<in> set s" for k b using that w by simp
  have "distinct (map (b_Name \<circ> snd) s)"
    unfolding distinct_map
  proof (intro conjI inj_onI)
    show "distinct s" using w by (simp add: distinct_map)
    fix x y
    assume "x \<in> set s" "y \<in> set s" "(b_Name \<circ> snd) x = (b_Name \<circ> snd) y"
    with assms m unique_byD[of b_Name s "fst x" "snd x" "fst y" "snd y"] show "x = y"
      by (cases x; cases y) (auto simp: buckets_ok_def)
  qed
  then have "distinct (map b_Name (filter (bucket_selected (fst tq) (snd tq)) (map snd s)))"
    by (simp add: comp_def distinct_map_filter)
  then show ?thesis
    unfolding all_buckets_def by (metis distinct_sort mset_map mset_sort mset_eq_imp_distinct_iff)
qed

lemma past_after:
  assumes "buckets_ok s" and "all_buckets s tq = pre @ rest"
  shows "filter (past (after b_Name pre)) (all_buckets s tq) = rest"
proof (cases "pre = []")
  case True
  with assms(2) show ?thesis by (simp add: after_def past_def filter_True)
next
  case False
  have s: "sorted (map b_Name (all_buckets s tq))" by (simp add: all_buckets_def)
  obtain p0 x where pre: "pre = p0 @ [x]" using False by (cases pre rule: rev_cases) auto
  have "b_Name b \<le> b_Name (last pre)" if "b \<in> set pre" for b
    using that s by (auto simp: assms(2) pre sorted_append)
  moreover have "b_Name (last pre) < b_Name b" if "b \<in> set rest" for b
  proof -
    have "b_Name (last pre) \<le> b_Name b"
      using s that last_in_set[OF False] by (auto simp: assms(2) sorted_append)
    moreover have "b_Name (last pre) \<noteq> b_Name b"
      using names_distinct[OF assms(1), of tq] that last_in_set[OF False] by (auto simp: assms(2))
    ultimately show ?thesis by simp
  qed
  ultimately show ?thesis
    using False by (auto simp: assms(2) after_def past_def filter_empty_conv not_le intro!: filter_True)
qed

lemma bucket_page_after:
  assumes "buckets_ok s" and "valid_query tq" and "all_buckets s tq = pre @ rest"
  shows "bucket_ListByTenant s tq (after b_Name pre) = Inr (cutPage b_Name (bucket_limit (snd tq)) rest)"
proof -
  obtain ten q where tq: "tq = (ten, q)" by force
  let ?lim = "case q_Limit q of None \<Rightarrow> defaultListLimit | Some n \<Rightarrow> n"
  have lim: "?lim > 0" "nat ?lim = bucket_limit q"
    using assms(2) by (simp_all add: valid_query_def tq bucket_limit_def)
  have "sort_key b_Name (filter (\<lambda>b. bucket_selected ten q b \<and> past (after b_Name pre) b) (map snd s)) =
      filter (past (after b_Name pre)) (all_buckets s tq)"
    by (simp add: all_buckets_def tq sort_key_filter[symmetric] conj_commute)
  also have "\<dots> = rest" using past_after[OF assms(1,3)] .
  finally have recs: "sort_key b_Name (filter (\<lambda>b. bucket_selected ten q b \<and> past (after b_Name pre) b) (map snd s)) = rest" .
  have filters: "\<not> (length (q_IDs q) > 0 \<and> length (q_Names q) > 0)"
    using assms(2) by (auto simp: valid_query_def tq)
  have "bucket_ListByTenant s tq (after b_Name pre) =
      (if int (length rest) > ?lim then
         (if ?lim \<le> 0 then Inl (Internal ''panic: index out of range'')
          else Inr \<lparr>Cursor = Some (b_Name (last (take (nat ?lim) rest))), Results = take (nat ?lim) rest\<rparr>)
       else Inr \<lparr>Cursor = None, Results = rest\<rparr>)"
    unfolding bucket_ListByTenant_def tq Let_def prod.case recs if_not_P[OF filters] by (rule refl)
  moreover have "int (length rest) > ?lim \<longleftrightarrow> bucket_limit q < length rest"
    using lim by linarith
  moreover have "take (bucket_limit q) rest \<noteq> []" if "bucket_limit q < length rest"
    using that lim by auto
  ultimately show ?thesis
    using lim by (simp add: tq cutPage_def after_def del: take_eq_Nil)
qed

interpretation bucket_pages: paged buckets_ok valid_query all_buckets b_Name bucket_ListByTenant
    "\<lambda>tq. bucket_limit (snd tq)"
  by unfold_locales (auto simp: valid_query_def intro: bucket_page_after)

subsection \<open>Properties\<close>

text \<open>
  C38. Reading a tenant's buckets page by page returns, whatever the page size, every bucket of
  the tenant the filters select, each once and in name order, and it ends.
\<close>

theorem collect_buckets:
  assumes "buckets_ok s" and "valid_query (ten, q)"
  shows "\<exists>bs. Collect_pages (bucket_ListByTenant s (ten, q)) = Some (Inr bs) \<and>
    (\<forall>b. b \<in> set bs \<longleftrightarrow> map_of s (b_ID b) = Some b \<and> bucket_selected ten q b) \<and>
    sorted (map b_Name bs) \<and> distinct (map b_Name bs)"
proof (intro exI conjI allI)
  show "Collect_pages (bucket_ListByTenant s (ten, q)) = Some (Inr (all_buckets s (ten, q)))"
    by (rule bucket_pages.collect_whole[OF assms])
  show "b \<in> set (all_buckets s (ten, q)) \<longleftrightarrow> map_of s (b_ID b) = Some b \<and> bucket_selected ten q b" for b
  proof -
    have "b \<in> snd ` set s \<longleftrightarrow> map_of s (b_ID b) = Some b"
      by (rule gomap_value[OF buckets_okD(1)[OF assms(1)]]) (simp add: buckets_okD(3)[OF assms(1)])
    moreover have "b \<in> set (all_buckets s (ten, q)) \<longleftrightarrow> b \<in> snd ` set s \<and> bucket_selected ten q b"
      by (simp add: all_buckets_def)
    ultimately show ?thesis by simp
  qed
  show "sorted (map b_Name (all_buckets s (ten, q)))" by (simp add: all_buckets_def)
  show "distinct (map b_Name (all_buckets s (ten, q)))" by (rule names_distinct[OF assms(1)])
qed

definition sample_bucket :: "string \<Rightarrow> string \<Rightarrow> bucket" where
  "sample_bucket i nm = \<lparr>b_ID = Did i, b_Tenant = Did ''t'', b_Provider = Did ''p'', b_Name = nm, b_CreatedAt = 0\<rparr>"

definition sample_buckets :: buckets where
  "sample_buckets = [(Did ''1'', sample_bucket ''1'' ''zoo''), (Did ''2'', sample_bucket ''2'' ''art'')]"

theorem collect_buckets_witness:
  "\<exists>bs. Collect_pages (bucket_ListByTenant sample_buckets
      (Did ''t'', \<lparr>q_IDs = [], q_Names = [], q_Prefix = [], q_Provider = Undef, q_Limit = Some 1\<rparr>)) = Some (Inr bs) \<and>
    set bs = {sample_bucket ''1'' ''zoo'', sample_bucket ''2'' ''art''}"
proof -
  let ?q = "\<lparr>q_IDs = [], q_Names = [], q_Prefix = [], q_Provider = Undef, q_Limit = Some 1\<rparr>"
  have v: "ValidateName ''zoo'' = Inr ()" "ValidateName ''art'' = Inr ()" by code_simp+
  have ok: "buckets_ok sample_buckets"
    by (auto simp: buckets_ok_def sample_buckets_def wf_gomap_def all_records_def unique_by_def
        sample_bucket_def v split: if_splits)
  have q: "valid_query (Did ''t'', ?q)" by (simp add: valid_query_def bucket_limit_def)
  obtain bs where bs: "Collect_pages (bucket_ListByTenant sample_buckets (Did ''t'', ?q)) = Some (Inr bs)"
    and mem: "\<And>b. b \<in> set bs \<longleftrightarrow> map_of sample_buckets (b_ID b) = Some b \<and> bucket_selected (Did ''t'') ?q b"
    using collect_buckets[OF ok q] by blast
  have "set bs = {sample_bucket ''1'' ''zoo'', sample_bucket ''2'' ''art''}"
    by (rule set_eqI) (auto simp: mem sample_buckets_def bucket_selected_def sample_bucket_def split: if_splits)
  with bs show ?thesis by blast
qed

end
