(* ===== verification/Delegation_Store.thy ===== *)
theory Delegation_Store
  imports Paging S3perm
begin

text \<open>
  \<open>pkg/store/delegation\<close> and its memory backend: the delegations an access key holds, kept by
  audience in the order of their links. Writers are serialized by one lock, held across the
  callback of a replacement; readers are answered while it runs.
\<close>

subsection \<open>State\<close>

text \<open>
  A \<open>ucan.Delegation\<close>, by what the code reads of it; the link stands for its CID and its
  string, the expiration is in seconds of the Unix epoch. A nil interface value is \<open>None\<close>.
\<close>

record dlg =
  d_Link :: string
  d_Issuer :: did
  d_Audience :: did
  d_Subject :: did
  d_Command :: command
  d_Expiration :: "int option"

text \<open>
  \<open>d_wait\<close> is what the environment makes of the bounded wait for the write lock: \<open>None\<close> when
  it is free or freed in time, otherwise the error the wait ends with, the store's timeout or
  the context's own.
\<close>

record dlg_store =
  byAudience :: "(did, dlg list) gomap"
  d_wait :: "err option"

definition heldIn :: "(did, dlg list) gomap \<Rightarrow> did \<Rightarrow> dlg list" where
  "heldIn m aud = (case map_of m aud of None \<Rightarrow> [] | Some ds \<Rightarrow> ds)"

abbreviation dlgsOf :: "dlg_store \<Rightarrow> did \<Rightarrow> dlg list" where
  "dlgsOf s \<equiv> heldIn (byAudience s)"

definition holdWrites :: "dlg_store \<Rightarrow> err + unit" where
  "holdWrites s = (case d_wait s of None \<Rightarrow> Inr () | Some e \<Rightarrow> Inl e)"

subsection \<open>Writing\<close>

definition putOne :: "dlg \<Rightarrow> (did, dlg list) gomap \<Rightarrow> (did, dlg list) gomap" where
  "putOne d m =
     (let existing = heldIn m (d_Audience d)
      in if list_ex (\<lambda>e. d_Link e = d_Link d) existing then m
         else AList.update (d_Audience d) (sort_key d_Link (existing @ [d])) m)"

definition put :: "dlg list \<Rightarrow> dlg_store \<Rightarrow> dlg_store" where
  "put ds s = s\<lparr>byAudience := fold putOne ds (byAudience s)\<rparr>"

text \<open>The delegations that are not nil.\<close>

definition somes :: "dlg option list \<Rightarrow> dlg list" where
  "somes ds = List.map_filter (\<lambda>d. d) ds"

definition PutBatch :: "dlg option list \<Rightarrow> dlg_store \<Rightarrow> (err + unit) \<times> dlg_store" where
  "PutBatch ds s =
     (if None \<in> set ds then (Inl (Store ErrInvalidArgument), s)
      else (case holdWrites s of
              Inl e \<Rightarrow> (Inl e, s)
            | Inr _ \<Rightarrow> (Inr (), put (somes ds) s)))"

subsection \<open>Replacing\<close>

text \<open>
  The maps a replacement's callback is handed and returns are only read by audience, a missing
  one as the nil slice: they are functions.
\<close>

definition CheckReplacement :: "did list \<Rightarrow> (did \<Rightarrow> dlg option list) \<Rightarrow> err + unit" where
  "CheckReplacement audiences replacement =
     check (list_all (\<lambda>aud. list_all (\<lambda>d. case d of None \<Rightarrow> False | Some d \<Rightarrow> d_Audience d = aud)
              (replacement aud)) audiences) (Store ErrInvalidArgument)"

definition CheckReplacementOver :: "did list \<Rightarrow> did \<Rightarrow> (did \<Rightarrow> dlg option list) \<Rightarrow> err + unit" where
  "CheckReplacementOver audiences subject replacement =
     on_ok (CheckReplacement audiences replacement) (\<lambda>_.
       check (list_all (\<lambda>aud. list_all (\<lambda>d. d_Subject d = subject) (somes (replacement aud))) audiences)
         (Store ErrInvalidArgument))"

text \<open>The write of a replacement, once it is checked.\<close>

fun writeLoop :: "(dlg \<Rightarrow> bool) \<Rightarrow> (did \<Rightarrow> dlg option list) \<Rightarrow> did list \<Rightarrow> dlg_store \<Rightarrow> dlg_store" where
  "writeLoop sel replacement [] s = s"
| "writeLoop sel replacement (aud # auds) s =
     (let kept = filter (\<lambda>d. \<not> sel d) (dlgsOf s aud);
          s = s\<lparr>byAudience := (if length kept = 0 then AList.delete aud (byAudience s)
                                else AList.update aud kept (byAudience s))\<rparr>
      in writeLoop sel replacement auds (put (somes (replacement aud)) s))"

text \<open>
  The callback \<open>next\<close> works on a rest \<open>'w\<close> of the world without the store, which it must not
  call back into.
\<close>

type_synonym 'w replacer = "(did \<Rightarrow> dlg list) \<Rightarrow> 'w \<Rightarrow> (err + (did \<Rightarrow> dlg option list)) \<times> 'w"

definition currentOf :: "(dlg \<Rightarrow> bool) \<Rightarrow> did list \<Rightarrow> dlg_store \<Rightarrow> did \<Rightarrow> dlg list" where
  "currentOf sel audiences s aud = (if aud \<in> set audiences then filter sel (dlgsOf s aud) else [])"

definition replace ::
  "did list \<Rightarrow> (dlg \<Rightarrow> bool) \<Rightarrow> 'w replacer \<Rightarrow> ((did \<Rightarrow> dlg option list) \<Rightarrow> err + unit) \<Rightarrow>
   dlg_store \<times> 'w \<Rightarrow> (err + unit) \<times> dlg_store \<times> 'w" where
  "replace audiences sel next checkR sw =
     (let (s, w) = sw in
      case holdWrites s of
        Inl e \<Rightarrow> (Inl e, s, w)
      | Inr _ \<Rightarrow>
          (case next (currentOf sel audiences s) w of
             (Inl e, w') \<Rightarrow> (Inl e, s, w')
           | (Inr replacement, w') \<Rightarrow>
               (case checkR replacement of
                  Inl e \<Rightarrow> (Inl e, s, w')
                | Inr _ \<Rightarrow> (Inr (), writeLoop sel replacement audiences s, w'))))"

definition Replace :: "did list \<Rightarrow> 'w replacer \<Rightarrow> dlg_store \<times> 'w \<Rightarrow> (err + unit) \<times> dlg_store \<times> 'w" where
  "Replace audiences next = replace audiences (\<lambda>_. True) next (CheckReplacement audiences)"

definition ReplaceOver ::
  "did list \<Rightarrow> did \<Rightarrow> 'w replacer \<Rightarrow> dlg_store \<times> 'w \<Rightarrow> (err + unit) \<times> dlg_store \<times> 'w" where
  "ReplaceOver audiences subject next sw =
     (if subject = Undef then (Inl (Store ErrInvalidArgument), sw)
      else replace audiences (\<lambda>d. d_Subject d = subject) next (CheckReplacementOver audiences subject) sw)"

subsection \<open>Deleting\<close>

definition DeleteByAudience :: "did \<Rightarrow> dlg_store \<Rightarrow> (err + unit) \<times> dlg_store" where
  "DeleteByAudience aud s =
     (case holdWrites s of
        Inl e \<Rightarrow> (Inl e, s)
      | Inr _ \<Rightarrow> (Inr (), s\<lparr>byAudience := AList.delete aud (byAudience s)\<rparr>))"

definition DeleteBySubject :: "did \<Rightarrow> dlg_store \<Rightarrow> (err + unit) \<times> dlg_store" where
  "DeleteBySubject subject s =
     (if subject = Undef then (Inl (Store ErrInvalidArgument), s)
      else (case holdWrites s of
              Inl e \<Rightarrow> (Inl e, s)
            | Inr _ \<Rightarrow>
                (Inr (), s\<lparr>byAudience := filter (\<lambda>(aud, ds). ds \<noteq> [])
                   (map (\<lambda>(aud, ds). (aud, filter (\<lambda>d. d_Subject d \<noteq> subject) ds)) (byAudience s))\<rparr>)))"

subsection \<open>Listing\<close>

text \<open>The items after the cursor; a cursor that is on no item starts from the first.\<close>

definition afterCursor :: "string option \<Rightarrow> dlg list \<Rightarrow> dlg list" where
  "afterCursor cursor ds =
     (case cursor of
        None \<Rightarrow> ds
      | Some c \<Rightarrow> (case dropWhile (\<lambda>d. d_Link d \<noteq> c) ds of [] \<Rightarrow> ds | _ # rest \<Rightarrow> rest))"

definition dlgLimit :: "int option \<Rightarrow> nat" where
  "dlgLimit limit =
     (case limit of None \<Rightarrow> nat defaultListLimit
      | Some n \<Rightarrow> if n \<le> 0 then nat defaultListLimit else nat n)"

definition pageOf :: "dlg list \<Rightarrow> int option \<Rightarrow> string option \<Rightarrow> dlg page" where
  "pageOf dlgs limit cursor =
     (let dlgs = afterCursor cursor dlgs
      in if length dlgs > dlgLimit limit
         then (let dlgs = take (dlgLimit limit) dlgs
               in \<lparr>Cursor = Some (d_Link (last dlgs)), Results = dlgs\<rparr>)
         else \<lparr>Cursor = None, Results = dlgs\<rparr>)"

definition ListByAudience :: "dlg_store \<Rightarrow> did \<times> int option \<Rightarrow> string option \<Rightarrow> err + dlg page" where
  "ListByAudience s q cursor = Inr (pageOf (dlgsOf s (fst q)) (snd q) cursor)"

definition overSubject :: "dlg_store \<Rightarrow> did \<Rightarrow> dlg list" where
  "overSubject s subject =
     sort_key d_Link (filter (\<lambda>d. d_Subject d = subject) (concat (map snd (byAudience s))))"

definition ListBySubject :: "dlg_store \<Rightarrow> did \<times> int option \<Rightarrow> string option \<Rightarrow> err + dlg page" where
  "ListBySubject s q cursor =
     (if fst q = Undef then Inl (Store ErrInvalidArgument)
      else Inr (pageOf (overSubject s (fst q)) (snd q) cursor))"

subsection \<open>Proof chains\<close>

definition listExact :: "dlg_store \<Rightarrow> did \<Rightarrow> command \<Rightarrow> did \<Rightarrow> dlg list" where
  "listExact s aud cmd sub = filter (\<lambda>d. d_Command d = cmd \<and> d_Subject d = sub) (dlgsOf s aud)"

text \<open>
  libforge's search, over a matcher made of the exact listing, is the argument \<open>chain\<close>: it
  answers the delegations of a chain from the subject to the audience, and their links.
\<close>

type_synonym chain_search =
  "(did \<Rightarrow> command \<Rightarrow> did \<Rightarrow> dlg list) \<Rightarrow> did \<Rightarrow> command \<Rightarrow> did \<Rightarrow> err + dlg list \<times> string list"

definition ProofChain ::
  "chain_search \<Rightarrow> dlg_store \<Rightarrow> did \<Rightarrow> command \<Rightarrow> did \<Rightarrow> err + dlg list \<times> string list" where
  "ProofChain chain s aud cmd sub =
     (if sub = Undef then Inl (Store ErrInvalidArgument) else chain (listExact s) aud cmd sub)"

subsection \<open>Lemmas\<close>

lemma heldIn_update [simp]: "heldIn (AList.update a ds m) aud = (if aud = a then ds else heldIn m aud)"
  by (simp add: heldIn_def update_conv')

lemma heldIn_delete [simp]: "heldIn (AList.delete a m) aud = (if aud = a then [] else heldIn m aud)"
  by (simp add: heldIn_def)

lemma heldIn_Nil [simp]: "heldIn [] aud = []"
  by (simp add: heldIn_def)

lemma somes_simps [simp]:
  "somes [] = []" "somes (Some d # ds) = d # somes ds" "somes (None # ds) = somes ds"
  "somes (map Some es) = es"
  by (simp_all add: somes_def List.map_filter_simps) (induction es, simp_all add: List.map_filter_simps)

lemma set_somes [simp]: "set (somes ds) = {d. Some d \<in> set ds}"
  by (induction ds rule: list.induct) (auto simp: somes_def List.map_filter_simps split: option.splits)

text \<open>What the map holds: sorted by link, each link once, under its own audience.\<close>

definition audience_ok :: "did \<Rightarrow> dlg list \<Rightarrow> bool" where
  "audience_ok aud ds \<longleftrightarrow> ds \<noteq> [] \<and> sorted (map d_Link ds) \<and> distinct (map d_Link ds) \<and>
     (\<forall>d \<in> set ds. d_Audience d = aud)"

definition dlgs_ok :: "(did, dlg list) gomap \<Rightarrow> bool" where
  "dlgs_ok m \<longleftrightarrow> wf_gomap m \<and> all_records audience_ok m"

lemma dlgs_ok_Nil [simp]: "dlgs_ok []"
  by (simp add: dlgs_ok_def)

lemma dlgs_ok_held:
  assumes "dlgs_ok m"
  shows "sorted (map d_Link (heldIn m aud))" "distinct (map d_Link (heldIn m aud))"
    "d \<in> set (heldIn m aud) \<Longrightarrow> d_Audience d = aud"
proof -
  have "heldIn m aud = [] \<or> audience_ok aud (heldIn m aud)"
    using assms by (auto simp: dlgs_ok_def heldIn_def all_records_def split: option.splits)
  then show "sorted (map d_Link (heldIn m aud))" "distinct (map d_Link (heldIn m aud))"
    "d \<in> set (heldIn m aud) \<Longrightarrow> d_Audience d = aud"
    by (auto simp: audience_ok_def)
qed

lemma dlgs_ok_update: "dlgs_ok m \<Longrightarrow> audience_ok aud ds \<Longrightarrow> dlgs_ok (AList.update aud ds m)"
  by (simp add: dlgs_ok_def)

lemma dlgs_ok_delete: "dlgs_ok m \<Longrightarrow> dlgs_ok (AList.delete aud m)"
  by (simp add: dlgs_ok_def)

lemma dlgs_ok_putOne:
  assumes "dlgs_ok m"
  shows "dlgs_ok (putOne d m)"
proof (cases "list_ex (\<lambda>e. d_Link e = d_Link d) (heldIn m (d_Audience d))")
  case False
  let ?ds = "heldIn m (d_Audience d) @ [d]"
  have "distinct (map d_Link ?ds)"
    using dlgs_ok_held(2)[OF assms] False by (auto simp: list_ex_iff)
  then have "distinct (map d_Link (sort_key d_Link ?ds))"
    by (metis mset_map mset_sort mset_eq_imp_distinct_iff)
  moreover have "sort_key d_Link ?ds \<noteq> []" by (metis append_is_Nil_conv not_Cons_self2 set_empty set_sort)
  ultimately have "audience_ok (d_Audience d) (sort_key d_Link ?ds)"
    using dlgs_ok_held(3)[OF assms] by (auto simp: audience_ok_def simp del: sort_key_simps)
  with assms False show ?thesis by (simp add: putOne_def Let_def dlgs_ok_update)
qed (use assms in \<open>simp add: putOne_def Let_def\<close>)

lemma dlgs_ok_put: "dlgs_ok (byAudience s) \<Longrightarrow> dlgs_ok (byAudience (put ds s))"
proof -
  have "dlgs_ok m \<Longrightarrow> dlgs_ok (fold putOne ds m)" for m
    by (induction ds arbitrary: m) (simp_all add: dlgs_ok_putOne)
  then show "dlgs_ok (byAudience s) \<Longrightarrow> ?thesis" by (simp add: put_def)
qed

text \<open>
  Delegations are content-addressed: within a universe \<open>U\<close> of delegations, a link is one
  delegation's.
\<close>

abbreviation content_addressed :: "dlg set \<Rightarrow> bool" where
  "content_addressed U \<equiv> inj_on d_Link U"

lemma set_heldIn_putOne:
  assumes "content_addressed U" and "set (heldIn m (d_Audience d)) \<subseteq> U" and "d \<in> U"
  shows "set (heldIn (putOne d m) aud) = set (heldIn m aud) \<union> {e. e = d \<and> d_Audience e = aud}"
proof (cases "list_ex (\<lambda>e. d_Link e = d_Link d) (heldIn m (d_Audience d))")
  case True
  then have "d \<in> set (heldIn m (d_Audience d))"
    using assms by (auto simp: list_ex_iff dest: inj_onD)
  with True show ?thesis by (auto simp: putOne_def Let_def)
qed (auto simp: putOne_def Let_def)

lemma set_heldBy_put:
  assumes "content_addressed U" and "\<And>a. set (dlgsOf s a) \<subseteq> U" and "set ds \<subseteq> U"
  shows "set (dlgsOf (put ds s) aud) = set (dlgsOf s aud) \<union> {d \<in> set ds. d_Audience d = aud}"
proof -
  have "\<forall>a. set (heldIn m a) \<subseteq> U \<Longrightarrow> set ds \<subseteq> U \<Longrightarrow>
      set (heldIn (fold putOne ds m) aud) = set (heldIn m aud) \<union> {d \<in> set ds. d_Audience d = aud}" for m
  proof (induction ds arbitrary: m)
    case (Cons d ds)
    have one: "set (heldIn (putOne d m) a) = set (heldIn m a) \<union> {e. e = d \<and> d_Audience e = a}" for a
      using set_heldIn_putOne[OF assms(1)] Cons.prems by simp
    then have "\<forall>a. set (heldIn (putOne d m) a) \<subseteq> U" using Cons.prems by auto
    with Cons.IH[of "putOne d m"] Cons.prems(2) show ?case by (auto simp: one)
  qed simp
  then show ?thesis using assms(2,3) by (simp add: put_def)
qed

lemma put_sel [simp]: "d_wait (put ds s) = d_wait s"
  by (simp add: put_def)

text \<open>A replacement that passed its check: its delegations are the audiences' and selected.\<close>

definition fits :: "(dlg \<Rightarrow> bool) \<Rightarrow> (did \<Rightarrow> dlg option list) \<Rightarrow> did list \<Rightarrow> bool" where
  "fits sel R auds \<longleftrightarrow> (\<forall>aud \<in> set auds. \<forall>d. Some d \<in> set (R aud) \<longrightarrow> d_Audience d = aud \<and> sel d)"

lemma fits_Replacement: "CheckReplacement auds R = Inr u \<Longrightarrow> fits (\<lambda>_. True) R auds"
  by (fastforce simp: CheckReplacement_def fits_def list_all_iff split: option.splits)

lemma fits_ReplacementOver:
  assumes "CheckReplacementOver auds subject R = Inr u"
  shows "fits (\<lambda>d. d_Subject d = subject) R auds"
proof -
  from assms obtain v where "CheckReplacement auds R = Inr v"
    and s: "\<forall>aud \<in> set auds. \<forall>d. Some d \<in> set (R aud) \<longrightarrow> d_Subject d = subject"
    by (auto simp: CheckReplacementOver_def on_ok_Inr_iff list_all_iff)
  with fits_Replacement show ?thesis by (auto simp: fits_def)
qed

lemma audience_ok_filter:
  assumes "dlgs_ok m" and "filter Q (heldIn m aud) \<noteq> []"
  shows "audience_ok aud (filter Q (heldIn m aud))"
  using assms dlgs_ok_held[OF assms(1), where aud = aud] by (auto simp: audience_ok_def sorted_filter distinct_map_filter)

lemma writeLoop_ok:
  assumes "dlgs_ok (byAudience s)"
  shows "dlgs_ok (byAudience (writeLoop sel R auds s))"
  using assms
proof (induction auds arbitrary: s)
  case (Cons aud auds)
  show ?case
    using Cons.IH Cons.prems audience_ok_filter[OF Cons.prems, where aud = aud and Q = "\<lambda>d. \<not> sel d"]
    by (simp add: Let_def dlgs_ok_put dlgs_ok_delete dlgs_ok_update)
qed simp

lemma writeLoop_set:
  assumes "content_addressed U" and "fits sel R auds"
    and "\<And>a. set (dlgsOf s a) \<subseteq> U" and "\<And>a. set (somes (R a)) \<subseteq> U"
  shows "set (dlgsOf (writeLoop sel R auds s) aud) =
    (if aud \<in> set auds then {d \<in> set (dlgsOf s aud). \<not> sel d} \<union> {d. Some d \<in> set (R aud)}
     else set (dlgsOf s aud))"
  using assms(2,3)
proof (induction auds arbitrary: s)
  case (Cons a auds)
  let ?kept = "filter (\<lambda>d. \<not> sel d) (dlgsOf s a)"
  let ?s1 = "s\<lparr>byAudience := (if length ?kept = 0 then AList.delete a (byAudience s)
                              else AList.update a ?kept (byAudience s))\<rparr>"
  let ?s2 = "put (somes (R a)) ?s1"
  have s1: "dlgsOf ?s1 x = (if x = a then ?kept else dlgsOf s x)" for x by auto
  have in1: "set (dlgsOf ?s1 x) \<subseteq> U" for x using Cons.prems(2)[of x] by (auto simp: s1)
  have "d_Audience d = a" if "Some d \<in> set (R a)" for d
    using Cons.prems(1) that by (simp add: fits_def)
  then have s2: "set (dlgsOf ?s2 x) = set (dlgsOf ?s1 x) \<union> (if x = a then {d. Some d \<in> set (R a)} else {})" for x
    using set_heldBy_put[OF assms(1) in1 assms(4), of a x] by auto
  have in2: "set (dlgsOf ?s2 x) \<subseteq> U" for x
    unfolding s2 using in1[of x] assms(4)[of a] by (cases "x = a") (simp_all only: Un_subset_iff if_True if_False
      set_somes empty_subsetI simp_thms)
  have "set (dlgsOf (writeLoop sel R auds ?s2) aud) =
    (if aud \<in> set auds then {d \<in> set (dlgsOf ?s2 aud). \<not> sel d} \<union> {d. Some d \<in> set (R aud)}
     else set (dlgsOf ?s2 aud))"
    using Cons.IH[of ?s2] Cons.prems(1) in2 by (simp add: fits_def)
  moreover have "sel d" if "Some d \<in> set (R a)" for d using Cons.prems(1) that by (simp add: fits_def)
  ultimately show ?case unfolding s2 s1 by (auto simp: Let_def)
qed simp

subsection \<open>Listing by audience is paged\<close>

lemma afterCursor_after:
  assumes "distinct (map d_Link (pre @ rest))"
  shows "afterCursor (after d_Link pre) (pre @ rest) = rest"
proof (cases pre rule: rev_cases)
  case (snoc p0 x)
  have "d_Link d \<noteq> d_Link x" if "d \<in> set p0" for d
  proof
    assume "d_Link d = d_Link x"
    with that have "d_Link x \<in> d_Link ` set p0" by (metis imageI)
    with assms show False by (simp add: snoc)
  qed
  then have "dropWhile (\<lambda>d. d_Link d \<noteq> d_Link x) (p0 @ x # rest) = x # rest"
    by (subst dropWhile_append2) auto
  then show ?thesis by (simp add: afterCursor_def after_def snoc)
qed (simp add: afterCursor_def after_def)

lemma dlgLimit_pos: "dlgLimit l > 0"
  by (simp add: dlgLimit_def defaultListLimit_def split: option.splits)

lemma dlg_page_after:
  assumes "dlgs_ok (byAudience s)" and "dlgsOf s aud = pre @ rest"
  shows "ListByAudience s (aud, limit) (after d_Link pre) = Inr (cutPage d_Link (dlgLimit limit) rest)"
proof -
  have "afterCursor (after d_Link pre) (dlgsOf s aud) = rest"
    using dlgs_ok_held(2)[OF assms(1), of aud] by (simp only: assms(2) afterCursor_after)
  moreover have "take (dlgLimit limit) rest \<noteq> []" if "dlgLimit limit < length rest"
    using that dlgLimit_pos[of limit] by auto
  ultimately show ?thesis
    by (simp add: ListByAudience_def pageOf_def cutPage_def after_def Let_def del: take_eq_Nil)
qed

interpretation dlg_pages: paged "\<lambda>s. dlgs_ok (byAudience s)" "\<lambda>q. True" "\<lambda>s q. dlgsOf s (fst q)" d_Link
    ListByAudience "\<lambda>q. dlgLimit (snd q)"
  by unfold_locales (simp add: dlgLimit_pos, metis dlg_page_after prod.collapse)

subsection \<open>Properties\<close>

text \<open>The abstract view of the store: the set of delegations each audience holds.\<close>

definition authority :: "dlg_store \<Rightarrow> did \<Rightarrow> dlg set" where
  "authority s aud = set (dlgsOf s aud)"

text \<open>The abstract replacement of what the audiences hold over a subject.\<close>

definition swapOver :: "did list \<Rightarrow> did \<Rightarrow> (did \<Rightarrow> dlg set) \<Rightarrow> (did \<Rightarrow> dlg set) \<Rightarrow> did \<Rightarrow> dlg set" where
  "swapOver auds subject R A aud =
     (if aud \<in> set auds then {d \<in> A aud. d_Subject d \<noteq> subject} \<union> R aud else A aud)"

lemma replace_cases:
  assumes "replace auds sel next checkR (s, w) = (r, s', w')"
  obtains (failed) e where "r = Inl e" "s' = s"
  | (written) R where "r = Inr ()" "next (currentOf sel auds s) w = (Inr R, w')" "checkR R = Inr ()"
      "s' = writeLoop sel R auds s"
proof (cases "holdWrites s")
  case (Inl e)
  with assms have "r = Inl e" "s' = s" by (simp_all add: replace_def)
  then show thesis by (rule failed)
next
  case (Inr u)
  obtain x w1 where x: "next (currentOf sel auds s) w = (x, w1)" by force
  show thesis
  proof (cases x)
    case (Inl e)
    with assms Inr x have "r = Inl e" "s' = s" by (simp_all add: replace_def)
      then show thesis by (rule failed)
  next
    case R: (Inr R)
    show thesis
    proof (cases "checkR R")
      case (Inl e)
      with assms \<open>holdWrites s = Inr u\<close> x R have "r = Inl e" "s' = s" by (simp_all add: replace_def)
      then show thesis by (rule failed)
    next
      case ok: (Inr v)
      with assms Inr x R have w: "r = Inr ()" "w1 = w'" "s' = writeLoop sel R auds s"
        by (simp_all add: replace_def)
      show thesis by (rule written[OF w(1) _ _ w(3)]) (simp_all add: x R ok w(2))
    qed
  qed
qed

lemma ReplaceOver_cases:
  assumes "ReplaceOver auds subject next (s, w) = (r, s', w')"
  obtains (failed) e where "r = Inl e" "s' = s"
  | (written) R where "r = Inr ()" "subject \<noteq> Undef"
      "next (currentOf (\<lambda>d. d_Subject d = subject) auds s) w = (Inr R, w')"
      "fits (\<lambda>d. d_Subject d = subject) R auds" "s' = writeLoop (\<lambda>d. d_Subject d = subject) R auds s"
proof (cases "subject = Undef")
  case True
  with assms have "r = Inl (Store ErrInvalidArgument)" "s' = s" by (simp_all add: ReplaceOver_def)
  then show thesis by (rule failed)
next
  case False
  with assms have "replace auds (\<lambda>d. d_Subject d = subject) next (CheckReplacementOver auds subject) (s, w) = (r, s', w')"
    by (simp add: ReplaceOver_def)
  then show thesis
    by (cases rule: replace_cases) (use that False fits_ReplacementOver in blast)+
qed

lemma Replace_cases:
  assumes "Replace auds next (s, w) = (r, s', w')"
  obtains (failed) e where "r = Inl e" "s' = s"
  | (written) R where "r = Inr ()" "next (currentOf (\<lambda>_. True) auds s) w = (Inr R, w')"
      "fits (\<lambda>_. True) R auds" "s' = writeLoop (\<lambda>_. True) R auds s"
  using assms unfolding Replace_def
  by (cases rule: replace_cases) (use that fits_Replacement in blast)+

text \<open>
  C22. A replacement refines the abstract one: whatever its callback does, a replacement over
  a subject either fails and leaves the store as it was, or hands the callback exactly what
  each audience holds over the subject and then leaves each of them with what it held over
  other subjects and what the callback returned, each under its own audience and over that
  subject, and every other audience as it was; and the store stays well-formed.
\<close>

theorem ReplaceOver_refines:
  assumes "dlgs_ok (byAudience s)" and "ReplaceOver auds subject next (s, w) = (r, s', w')"
    and "content_addressed U" and "\<forall>a. authority s a \<subseteq> U"
    and "\<forall>cur R w'. next cur w = (Inr R, w') \<longrightarrow> (\<forall>a. set (somes (R a)) \<subseteq> U)"
  shows "dlgs_ok (byAudience s') \<and> (r \<noteq> Inr () \<longrightarrow> s' = s) \<and>
    (r = Inr () \<longrightarrow> subject \<noteq> Undef \<and> (\<exists>cur R. next cur w = (Inr R, w') \<and>
       (\<forall>a \<in> set auds. set (cur a) = {d \<in> authority s a. d_Subject d = subject} \<and>
          (\<forall>d \<in> set (somes (R a)). d_Audience d = a \<and> d_Subject d = subject)) \<and>
       authority s' = swapOver auds subject (\<lambda>a. set (somes (R a))) (authority s)))"
  using assms(2)
proof (cases rule: ReplaceOver_cases)
  case failed
  with assms(1) show ?thesis by simp
next
  case (written R)
  have "authority s' = swapOver auds subject (\<lambda>a. set (somes (R a))) (authority s)"
  proof
    fix a
    have "\<forall>a. set (somes (R a)) \<subseteq> U" using assms(5) written(3) by blast
    then show "authority s' a = swapOver auds subject (\<lambda>a. set (somes (R a))) (authority s) a"
      using writeLoop_set[OF assms(3) written(4), of s a] assms(4)
      by (simp add: authority_def swapOver_def written(5))
  qed
  moreover have "dlgs_ok (byAudience s')" unfolding written(5) by (rule writeLoop_ok[OF assms(1)])
  moreover have "\<forall>a \<in> set auds. set (currentOf (\<lambda>d. d_Subject d = subject) auds s a) =
       {d \<in> authority s a. d_Subject d = subject} \<and>
       (\<forall>d \<in> set (somes (R a)). d_Audience d = a \<and> d_Subject d = subject)"
    using written(4) by (auto simp: currentOf_def authority_def fits_def)
  ultimately show ?thesis
    using written(1-3) by blast
qed

definition sample_dlg :: "string \<Rightarrow> string \<Rightarrow> string \<Rightarrow> dlg" where
  "sample_dlg l aud sub = \<lparr>d_Link = l, d_Issuer = Did ''t'', d_Audience = Did aud, d_Subject = Did sub,
     d_Command = Top, d_Expiration = None\<rparr>"

definition sample_dlgs :: dlg_store where
  "sample_dlgs = \<lparr>byAudience = [(Did ''k'', [sample_dlg ''1'' ''k'' ''b'', sample_dlg ''2'' ''k'' ''c''])], d_wait = None\<rparr>"

theorem ReplaceOver_refines_witness:
  "\<exists>s'. ReplaceOver [Did ''k''] (Did ''b'') (\<lambda>cur (w :: unit). (Inr (\<lambda>a. [Some (sample_dlg ''3'' ''k'' ''b'')]), w))
       (sample_dlgs, ()) = (Inr (), s', ()) \<and>
     authority s' (Did ''k'') = {sample_dlg ''2'' ''k'' ''c'', sample_dlg ''3'' ''k'' ''b''}"
proof -
  let ?next = "\<lambda>(cur :: did \<Rightarrow> dlg list) (w :: unit). (Inr (\<lambda>a :: did. [Some (sample_dlg ''3'' ''k'' ''b'')]), w) :: (err + _) \<times> unit"
  let ?U = "{sample_dlg ''1'' ''k'' ''b'', sample_dlg ''2'' ''k'' ''c'', sample_dlg ''3'' ''k'' ''b''}"
  have ok: "dlgs_ok (byAudience sample_dlgs)"
    by (simp add: dlgs_ok_def sample_dlgs_def wf_gomap_def all_records_def audience_ok_def sample_dlg_def)
  have sel: "d_Subject (sample_dlg l aud x) = Did x" for l aud x by (simp add: sample_dlg_def)
  have U: "content_addressed ?U" by (simp add: sample_dlg_def)
  have held: "dlgsOf sample_dlgs a =
      (if a = Did ''k'' then [sample_dlg ''1'' ''k'' ''b'', sample_dlg ''2'' ''k'' ''c''] else [])" for a
    by (simp add: sample_dlgs_def heldIn_def)
  have sub: "\<forall>a. authority sample_dlgs a \<subseteq> ?U" by (auto simp: authority_def held)
  have res: "\<forall>cur R w'. ?next cur () = (Inr R, w') \<longrightarrow> (\<forall>a. set (somes (R a)) \<subseteq> ?U)" by auto
  obtain r s' where run: "ReplaceOver [Did ''k''] (Did ''b'') ?next (sample_dlgs, ()) = (r, s', ())"
    by (cases "ReplaceOver [Did ''k''] (Did ''b'') ?next (sample_dlgs, ())") simp
  have "fst (ReplaceOver [Did ''k''] (Did ''b'') ?next (sample_dlgs, ())) = Inr ()"
    by (simp add: ReplaceOver_def replace_def holdWrites_def sample_dlgs_def CheckReplacementOver_def
        CheckReplacement_def sample_dlg_def)
  then have "r = Inr ()" by (simp add: run)
  with ReplaceOver_refines[OF ok run U sub res] obtain cur R where
    "?next cur () = (Inr R, ())" and
    a: "authority s' = swapOver [Did ''k''] (Did ''b'') (\<lambda>a. set (somes (R a))) (authority sample_dlgs)"
    by blast
  then have R: "R = (\<lambda>a. [Some (sample_dlg ''3'' ''k'' ''b'')])" by simp
  have "authority s' (Did ''k'') = {sample_dlg ''2'' ''k'' ''c'', sample_dlg ''3'' ''k'' ''b''}"
    unfolding a R swapOver_def authority_def held by (simp add: sel Collect_disj_eq[symmetric] conj_disj_distribR)
      (auto simp: sel)
  with run \<open>r = Inr ()\<close> show ?thesis by blast
qed

end
