(* ===== verification/Grant.thy ===== *)
theory Grant
  imports Delegation_Store Vault
begin

text \<open>
  \<open>pkg/grant\<close>: the delegations an access key holds, issued from S3 actions, and their
  rewriting when a policy changes or a principal is removed, each delegation replaced being
  revoked first.
\<close>

subsection \<open>What lies around the stores\<close>

text \<open>
  The stores no write's callback is locked out of, and the state \<open>'e\<close> of the services behind
  the process (the revocation service, the upload service, the DID directory).
\<close>

record 'e backend =
  x_tenants :: tenants
  x_providers :: providers
  x_buckets :: buckets
  x_keys :: access_keys
  x_vault :: vault
  x_ext :: 'e

text \<open>
  ucantone: \<open>Delegate\<close> signs a delegation of an issuer, given the nonce it draws, for an
  audience, a subject, a command and an expiration, \<open>None\<close> being an error; \<open>NotExpired\<close> is
  \<open>validator.ValidateNotExpired\<close> answering nil.
\<close>

type_synonym issuer = "did \<times> string"

record ucan_lib =
  Delegate :: "issuer \<Rightarrow> string \<Rightarrow> did \<Rightarrow> did \<Rightarrow> command \<Rightarrow> int option \<Rightarrow> dlg option"
  NotExpired :: "dlg \<Rightarrow> int \<Rightarrow> bool"

definition unixSeconds :: "instant \<Rightarrow> int" where
  "unixSeconds t = t div second"

subsection \<open>Issue\<close>

text \<open>The two nested loops, over the pairs of a subject and a command, numbered for the nonce.\<close>

fun issueLoop ::
  "ucan_lib \<Rightarrow> issuer \<Rightarrow> (nat \<Rightarrow> string) \<Rightarrow> did \<Rightarrow> int option \<Rightarrow> (did \<times> command) list \<Rightarrow> nat \<Rightarrow> dlg list \<Rightarrow>
   err + dlg list" where
  "issueLoop U issuer ent key exp [] n dels = Inr dels"
| "issueLoop U issuer ent key exp ((sub, cmd) # ps) n dels =
     (case Delegate U issuer (ent n) key sub cmd exp of
        None \<Rightarrow> Inl (Internal ''delegating'')
      | Some d \<Rightarrow> issueLoop U issuer ent key exp ps (Suc n) (dels @ [d]))"

definition Issue ::
  "ucan_lib \<Rightarrow> issuer \<Rightarrow> (nat \<Rightarrow> string) \<Rightarrow> did \<Rightarrow> did list \<Rightarrow> string list \<Rightarrow> instant option \<Rightarrow> err + dlg list" where
  "Issue U issuer ent key subjects actions expiresAt =
     (let exp = map_option unixSeconds expiresAt;
          subjects = (if length subjects = 0 then [Undef] else subjects)
      in issueLoop U issuer ent key exp
           (concat (map (\<lambda>sub. map (Pair sub) (commandsFor actions)) subjects)) 0 [])"

subsection \<open>The rotator\<close>

text \<open>
  \<open>r_publish\<close> submits a batch of revocations to the revocation service; \<open>r_wait\<close> is what
  other requests commit while a call waits for the delegation lock.
\<close>

record 'e rotator =
  r_ucan :: ucan_lib
  r_keylib :: key_lib
  r_publish :: "issuer \<Rightarrow> dlg list \<Rightarrow> 'e \<Rightarrow> (err + unit) \<times> 'e"
  r_wait :: "dlg_store \<times> 'e backend \<Rightarrow> dlg_store \<times> 'e backend"

definition PublishRevocations ::
  "'e rotator \<Rightarrow> instant \<Rightarrow> issuer \<Rightarrow> dlg list \<Rightarrow> 'e backend \<Rightarrow> (err + unit) \<times> 'e backend" where
  "PublishRevocations R now issuer dels w =
     (let live = filter (\<lambda>d. NotExpired (r_ucan R) d (unixSeconds now)) dels
      in if length live = 0 then (Inr (), w)
         else (let (r, e) = r_publish R issuer live (x_ext w) in (r, w\<lparr>x_ext := e\<rparr>)))"

definition withPrincipals :: "string list \<Rightarrow> key_list_config" where
  "withPrincipals ps = \<lparr>l_Principal = None, l_Principals = Some ps, l_IDs = None\<rparr>"

definition withIDs :: "did list \<Rightarrow> key_list_config" where
  "withIDs ids = \<lparr>l_Principal = None, l_Principals = None, l_IDs = Some ids\<rparr>"

definition load ::
  "'e rotator \<Rightarrow> did \<Rightarrow> string list \<Rightarrow> 'e backend \<Rightarrow> err + access_key list \<times> issuer option" where
  "load R tenant principals w =
     (if length principals = 0 then Inr ([], None)
      else
        (let keys = key_ListByTenant (x_keys w) tenant (withPrincipals principals)
         in if length keys = 0 then Inr ([], None)
            else on_ok (TenantIssuer (r_keylib R) (vault_Read (x_vault w)) tenant) (\<lambda>issuer.
                   Inr (keys, Some issuer))))"

definition audiences :: "access_key list \<Rightarrow> did list" where
  "audiences keys = map k_ID keys"

text \<open>The actions of a key's principal; every key the rotator listed has one.\<close>

definition actionsOf :: "(string, string list) gomap \<Rightarrow> access_key \<Rightarrow> string list" where
  "actionsOf actions key =
     (case k_Principal key of
        None \<Rightarrow> []
      | Some p \<Rightarrow> (case map_of actions p of None \<Rightarrow> [] | Some as \<Rightarrow> as))"

text \<open>
  The loop over the keys: what is to be revoked and what each key is to hold. A key deleted
  since it was listed is skipped.
\<close>

fun rotateLoop ::
  "'e rotator \<Rightarrow> issuer \<Rightarrow> (did \<Rightarrow> nat \<Rightarrow> string) \<Rightarrow> did \<Rightarrow> (string, string list) gomap \<Rightarrow> did set \<Rightarrow>
   (did \<Rightarrow> dlg list) \<Rightarrow> access_key list \<Rightarrow> dlg list \<Rightarrow> (did \<Rightarrow> dlg option list) \<Rightarrow>
   err + dlg list \<times> (did \<Rightarrow> dlg option list)" where
  "rotateLoop R issuer ent bucket actions live current [] revoked nxt = Inr (revoked, nxt)"
| "rotateLoop R issuer ent bucket actions live current (key # keys) revoked nxt =
     (if k_ID key \<notin> live then rotateLoop R issuer ent bucket actions live current keys revoked nxt
      else on_ok (Issue (r_ucan R) issuer (ent (k_ID key)) (k_ID key) [bucket] (actionsOf actions key)
                   (k_ExpiresAt key)) (\<lambda>fresh.
             rotateLoop R issuer ent bucket actions live current keys (revoked @ current (k_ID key))
               (nxt(k_ID key := map Some fresh))))"

definition rotateNext ::
  "'e rotator \<Rightarrow> instant \<Rightarrow> (did \<Rightarrow> nat \<Rightarrow> string) \<Rightarrow> did \<Rightarrow> did \<Rightarrow> (string, string list) gomap \<Rightarrow>
   access_key list \<Rightarrow> issuer \<Rightarrow> 'e backend replacer" where
  "rotateNext R now ent tenant bucket actions keys issuer current w =
     (let remaining = key_ListByTenant (x_keys w) tenant (withIDs (audiences keys))
      in case rotateLoop R issuer ent bucket actions (k_ID ` set remaining) current keys [] (\<lambda>_. []) of
           Inl e \<Rightarrow> (Inl e, w)
         | Inr (revoked, nxt) \<Rightarrow>
             (case PublishRevocations R now issuer revoked w of
                (Inl e, w') \<Rightarrow> (Inl e, w')
              | (Inr _, w') \<Rightarrow> (Inr nxt, w')))"

definition Rotate ::
  "'e rotator \<Rightarrow> instant \<Rightarrow> (did \<Rightarrow> nat \<Rightarrow> string) \<Rightarrow> did \<Rightarrow> did \<Rightarrow> (string, string list) gomap \<Rightarrow>
   dlg_store \<times> 'e backend \<Rightarrow> (err + unit) \<times> dlg_store \<times> 'e backend" where
  "Rotate R now ent tenant bucket actions sw =
     (case load R tenant (sort (map fst actions)) (snd sw) of
        Inl e \<Rightarrow> (Inl e, sw)
      | Inr (_, None) \<Rightarrow> (Inr (), sw)
      | Inr (keys, Some issuer) \<Rightarrow>
          ReplaceOver (audiences keys) bucket (rotateNext R now ent tenant bucket actions keys issuer)
            (r_wait R sw))"

definition revokeNext ::
  "'e rotator \<Rightarrow> instant \<Rightarrow> access_key list \<Rightarrow> issuer \<Rightarrow> 'e backend replacer" where
  "revokeNext R now keys issuer current w =
     (case PublishRevocations R now issuer (concat (map (\<lambda>key. current (k_ID key)) keys)) w of
        (Inl e, w') \<Rightarrow> (Inl e, w')
      | (Inr _, w') \<Rightarrow> (Inr (\<lambda>_. []), w'))"

definition Revoke ::
  "'e rotator \<Rightarrow> instant \<Rightarrow> did \<Rightarrow> string \<Rightarrow> dlg_store \<times> 'e backend \<Rightarrow> (err + unit) \<times> dlg_store \<times> 'e backend" where
  "Revoke R now tenant p sw =
     (case load R tenant [p] (snd sw) of
        Inl e \<Rightarrow> (Inl e, sw)
      | Inr (_, None) \<Rightarrow> (Inr (), sw)
      | Inr (keys, Some issuer) \<Rightarrow> Replace (audiences keys) (revokeNext R now keys issuer) (r_wait R sw))"

subsection \<open>Lemmas\<close>

text \<open>
  What ucantone documents of a delegation it signs: it carries what it was asked for. The
  universe \<open>V\<close> is that of the delegations there are, whose links are content addresses.
\<close>

definition delegate_ok :: "ucan_lib \<Rightarrow> dlg set \<Rightarrow> bool" where
  "delegate_ok U V \<longleftrightarrow> content_addressed V \<and>
     (\<forall>issuer nonce aud sub cmd exp d. Delegate U issuer nonce aud sub cmd exp = Some d \<longrightarrow>
        d \<in> V \<and> d_Issuer d = fst issuer \<and> d_Audience d = aud \<and> d_Subject d = sub \<and>
        d_Command d = cmd \<and> d_Expiration d = exp)"

lemma delegate_okD:
  assumes "delegate_ok U V" and "Delegate U issuer nonce aud sub cmd exp = Some d"
  shows "d \<in> V \<and> d_Issuer d = fst issuer \<and> d_Audience d = aud \<and> d_Subject d = sub \<and>
        d_Command d = cmd \<and> d_Expiration d = exp"
  using assms unfolding delegate_ok_def by blast

lemma issueLoop_Inr:
  assumes "delegate_ok U V" and "issueLoop U issuer ent key exp ps n dels = Inr ds"
  shows "\<exists>new. ds = dels @ new \<and> map (\<lambda>d. (d_Subject d, d_Command d)) new = ps \<and>
    (\<forall>d \<in> set new. d \<in> V \<and> d_Issuer d = fst issuer \<and> d_Audience d = key \<and> d_Expiration d = exp)"
  using assms(2)
proof (induction ps arbitrary: n dels)
  case (Cons p ps)
  obtain sub cmd where p: "p = (sub, cmd)" by force
  with Cons.prems obtain d where d: "Delegate U issuer (ent n) key sub cmd exp = Some d"
    and rest: "issueLoop U issuer ent key exp ps (Suc n) (dels @ [d]) = Inr ds"
    by (auto split: option.splits)
  from Cons.IH[OF rest] obtain new where "ds = (dels @ [d]) @ new" "map (\<lambda>d. (d_Subject d, d_Command d)) new = ps"
    "\<forall>d \<in> set new. d \<in> V \<and> d_Issuer d = fst issuer \<and> d_Audience d = key \<and> d_Expiration d = exp"
    by blast
  with delegate_okD[OF assms(1) d] show ?case by (intro exI[of _ "d # new"]) (simp add: p)
qed simp

lemma Issue_Inr:
  assumes "delegate_ok U V" and "Issue U issuer ent key [sub] actions expiresAt = Inr ds"
  shows "map d_Command ds = commandsFor actions"
    and "\<forall>d \<in> set ds. d \<in> V \<and> d_Issuer d = fst issuer \<and> d_Audience d = key \<and> d_Subject d = sub \<and>
       d_Expiration d = map_option unixSeconds expiresAt"
proof -
  from assms(2) have "issueLoop U issuer ent key (map_option unixSeconds expiresAt)
      (map (Pair sub) (commandsFor actions)) 0 [] = Inr ds"
    by (simp add: Issue_def)
  from issueLoop_Inr[OF assms(1) this] have
    m: "map (\<lambda>d. (d_Subject d, d_Command d)) ds = map (Pair sub) (commandsFor actions)" and
    a: "\<forall>d \<in> set ds. d \<in> V \<and> d_Issuer d = fst issuer \<and> d_Audience d = key \<and>
       d_Expiration d = map_option unixSeconds expiresAt"
    by auto
  from arg_cong[OF m, of "map snd"] show "map d_Command ds = commandsFor actions" by (simp add: comp_def)
  have "d_Subject d = sub" if "d \<in> set ds" for d
  proof -
    have "(d_Subject d, d_Command d) \<in> set (map (Pair sub) (commandsFor actions))"
      unfolding m[symmetric] using that by simp
    then show ?thesis by auto
  qed
  with a show "\<forall>d \<in> set ds. d \<in> V \<and> d_Issuer d = fst issuer \<and> d_Audience d = key \<and> d_Subject d = sub \<and>
       d_Expiration d = map_option unixSeconds expiresAt"
    by blast
qed

lemma rotateLoop_Inr:
  assumes "delegate_ok (r_ucan R) V"
    and "rotateLoop R issuer ent bucket actions live current keys revoked nxt = Inr (dropped, n')"
    and "distinct (map k_ID keys)"
  shows "dropped = revoked @ concat (map (\<lambda>key. current (k_ID key)) (filter (\<lambda>key. k_ID key \<in> live) keys))"
    and "\<forall>key \<in> set keys. k_ID key \<in> live \<longrightarrow>
      (\<exists>ds. n' (k_ID key) = map Some ds \<and> map d_Command ds = commandsFor (actionsOf actions key) \<and>
        (\<forall>d \<in> set ds. d \<in> V \<and> d_Issuer d = fst issuer \<and> d_Audience d = k_ID key \<and> d_Subject d = bucket \<and>
           d_Expiration d = map_option unixSeconds (k_ExpiresAt key)))"
    and "\<forall>a. a \<notin> k_ID ` {key \<in> set keys. k_ID key \<in> live} \<longrightarrow> n' a = nxt a"
  using assms(2,3)
proof (induction keys arbitrary: revoked nxt)
  case (Cons key keys)
  { case 1
    show ?case
    proof (cases "k_ID key \<in> live")
      case False
      with 1 Cons.IH(1) show ?thesis by auto
    next
      case True
      with 1(1) obtain fresh where
        "rotateLoop R issuer ent bucket actions live current keys (revoked @ current (k_ID key))
          (nxt(k_ID key := map Some fresh)) = Inr (dropped, n')"
        by (auto simp: on_ok_Inr_iff)
      from Cons.IH(1)[OF this] 1(2) True show ?thesis by simp
    qed }
  { case 2
    show ?case
    proof (cases "k_ID key \<in> live")
      case False
      with 2 Cons.IH(2) show ?thesis by auto
    next
      case True
      with 2(1) obtain fresh where f: "Issue (r_ucan R) issuer (ent (k_ID key)) (k_ID key) [bucket]
          (actionsOf actions key) (k_ExpiresAt key) = Inr fresh"
        and rest: "rotateLoop R issuer ent bucket actions live current keys (revoked @ current (k_ID key))
          (nxt(k_ID key := map Some fresh)) = Inr (dropped, n')"
        by (auto simp: on_ok_Inr_iff)
      have "n' (k_ID key) = map Some fresh"
        using Cons.IH(3)[OF rest] 2(2) by force
      with Issue_Inr[OF assms(1) f] Cons.IH(2)[OF rest] 2(2) show ?thesis
        by (auto intro!: exI[of _ fresh])
    qed }
  { case 3
    show ?case
    proof (cases "k_ID key \<in> live")
      case False
      then have "{k \<in> set (key # keys). k_ID k \<in> live} = {k \<in> set keys. k_ID k \<in> live}" by auto
      with False 3 Cons.IH(3) show ?thesis by simp
    next
      case True
      with 3(1) obtain fresh where
        "rotateLoop R issuer ent bucket actions live current keys (revoked @ current (k_ID key))
          (nxt(k_ID key := map Some fresh)) = Inr (dropped, n')"
        by (auto simp: on_ok_Inr_iff)
      moreover have "k_ID ` {k \<in> set (key # keys). k_ID k \<in> live} =
          insert (k_ID key) (k_ID ` {k \<in> set keys. k_ID k \<in> live})" using True by auto
      ultimately show ?thesis using Cons.IH(3) 3(2) by simp
    qed }
qed auto

lemma PublishRevocations_Inr:
  assumes "PublishRevocations R now issuer dels w = (Inr u, w')" and "d \<in> set dels"
    and "NotExpired (r_ucan R) d (unixSeconds now)"
  shows "\<exists>batch. d \<in> set batch \<and> r_publish R issuer batch (x_ext w) = (Inr (), x_ext w')"
proof -
  let ?live = "filter (\<lambda>d. NotExpired (r_ucan R) d (unixSeconds now)) dels"
  have "d \<in> set ?live" using assms(2,3) by simp
  moreover from this have "length ?live \<noteq> 0" by (metis length_pos_if_in_set less_numeral_extra(3))
  with assms(1) have "r_publish R issuer ?live (x_ext w) = (Inr (), x_ext w')"
    by (auto simp: PublishRevocations_def Let_def split: prod.splits)
  ultimately show ?thesis by blast
qed

lemma PublishRevocations_frame:
  "PublishRevocations R now issuer dels w = (r, w') \<Longrightarrow> w' = w\<lparr>x_ext := x_ext w'\<rparr>"
  by (auto simp: PublishRevocations_def Let_def split: if_splits prod.splits)

lemma listed_keys:
  assumes "keys_ok s"
  shows "distinct (map k_ID (key_ListByTenant s ten cfg))"
    and "key \<in> set (key_ListByTenant s ten cfg) \<longleftrightarrow> map_of s (k_ID key) = Some key \<and> key_selected ten cfg key"
proof -
  have wf: "wf_gomap s" and all: "all_records key_wf s" using assms by (simp_all add: keys_ok_def)
  have id: "k_ID r = k" if "(k, r) \<in> set s" for k r
    using that all by (auto simp: gomap_in_iff[OF wf] key_wf_def dest: all_recordsD)
  have "map k_ID (map snd s) = map fst s" using id by auto
  then show "distinct (map k_ID (key_ListByTenant s ten cfg))"
    using wf by (metis key_ListByTenant_def distinct_map_filter wf_gomap_def)
  have "(\<exists>k. map_of s k = Some key) \<longleftrightarrow> map_of s (k_ID key) = Some key"
    using id by (metis gomap_in_iff[OF wf])
  then show "key \<in> set (key_ListByTenant s ten cfg) \<longleftrightarrow> map_of s (k_ID key) = Some key \<and> key_selected ten cfg key"
    by (simp add: set_key_ListByTenant[OF wf])
qed

text \<open>A key bound to one of the principals.\<close>

definition boundTo :: "access_keys \<Rightarrow> did \<Rightarrow> string set \<Rightarrow> access_key \<Rightarrow> bool" where
  "boundTo s tenant ps key \<longleftrightarrow> map_of s (k_ID key) = Some key \<and> k_Tenant key = tenant \<and>
     (\<exists>p \<in> ps. k_Principal key = Some p)"

lemma load_Inr:
  assumes "keys_ok (x_keys w)" and "load R tenant principals w = Inr (keys, issuer)"
  shows "distinct (map k_ID keys)" and "key \<in> set keys \<longleftrightarrow> boundTo (x_keys w) tenant (set principals) key"
    and "issuer = Some i \<Longrightarrow> fst i = tenant" and "issuer = None \<Longrightarrow> keys = []"
proof -
  have c: "key_selected tenant (withPrincipals principals) r \<longleftrightarrow>
      k_Tenant r = tenant \<and> (\<exists>p \<in> set principals. k_Principal r = Some p)" for r
    by (cases "k_Principal r") (auto simp: key_selected_def withPrincipals_def)
  have l: "keys = key_ListByTenant (x_keys w) tenant (withPrincipals principals) \<or> keys = [] \<and> principals = []"
    using assms(2) by (auto simp: load_def Let_def on_ok_Inr_iff split: if_split_asm)
  with listed_keys(1)[OF assms(1)] show "distinct (map k_ID keys)" by auto
  from l show "key \<in> set keys \<longleftrightarrow> boundTo (x_keys w) tenant (set principals) key"
  proof
    assume k: "keys = key_ListByTenant (x_keys w) tenant (withPrincipals principals)"
    show ?thesis unfolding k by (simp only: listed_keys(2)[OF assms(1)] c boundTo_def)
  qed (simp add: boundTo_def)
  show "issuer = Some i \<Longrightarrow> fst i = tenant" "issuer = None \<Longrightarrow> keys = []"
    using assms(2)
    by (auto simp: load_def Let_def on_ok_Inr_iff TenantIssuer_def split: if_split_asm sum.splits option.splits)
qed

lemma rotateNext_Inr:
  assumes "rotateNext R now ent tenant bucket actions keys issuer current w = (Inr nxt, w')"
  obtains dropped where
    "rotateLoop R issuer ent bucket actions
       (k_ID ` set (key_ListByTenant (x_keys w) tenant (withIDs (audiences keys)))) current keys [] (\<lambda>_. []) =
       Inr (dropped, nxt)"
    "PublishRevocations R now issuer dropped w = (Inr (), w')"
  using assms by (auto simp: rotateNext_def Let_def split: sum.splits prod.splits)

lemma revokeNext_Inr:
  assumes "revokeNext R now keys issuer current w = (Inr nxt, w')"
  shows "nxt = (\<lambda>_. [])"
    and "PublishRevocations R now issuer (concat (map (\<lambda>key. current (k_ID key)) keys)) w = (Inr (), w')"
  using assms by (auto simp: revokeNext_def split: sum.splits prod.splits)

text \<open>A key of the tenant that is still there.\<close>

definition remains :: "access_keys \<Rightarrow> did \<Rightarrow> access_key \<Rightarrow> bool" where
  "remains s tenant key \<longleftrightarrow> (\<exists>r. map_of s (k_ID key) = Some r \<and> k_Tenant r = tenant)"

lemma remaining_ids:
  assumes "keys_ok s" and "key \<in> set keys"
  shows "k_ID key \<in> k_ID ` set (key_ListByTenant s tenant (withIDs (audiences keys))) \<longleftrightarrow> remains s tenant key"
proof -
  have c: "key_selected tenant (withIDs (audiences keys)) r \<longleftrightarrow> k_Tenant r = tenant \<and> k_ID r \<in> k_ID ` set keys" for r
    by (simp add: key_selected_def withIDs_def audiences_def)
  have id: "k_ID r = k" if "map_of s k = Some r" for k r
    using assms(1) that by (auto simp: keys_ok_def key_wf_def dest: all_recordsD)
  show ?thesis
    unfolding image_iff Bex_def listed_keys(2)[OF assms(1)] c remains_def
    using id assms(2) by (metis imageI)
qed

lemma Rotate_cases:
  assumes "keys_ok (x_keys w)" and "boundTo (x_keys w) tenant (set (map fst actions)) key"
    and "r_wait R (s, w) = (s1, w1)"
    and "Rotate R now ent tenant bucket actions (s, w) = (r, s2, w2)"
  obtains (failed) e where "r = Inl e" "s2 \<in> {s, s1}"
  | (rotated) issuer keys nxt where "r = Inr ()" "fst issuer = tenant" "distinct (map k_ID keys)"
      "\<And>k. k \<in> set keys \<longleftrightarrow> boundTo (x_keys w) tenant (set (map fst actions)) k"
      "rotateNext R now ent tenant bucket actions keys issuer
         (currentOf (\<lambda>d. d_Subject d = bucket) (audiences keys) s1) w1 = (Inr nxt, w2)"
      "fits (\<lambda>d. d_Subject d = bucket) nxt (audiences keys)"
      "s2 = writeLoop (\<lambda>d. d_Subject d = bucket) nxt (audiences keys) s1"
proof (cases "load R tenant (sort (map fst actions)) w")
  case (Inl e)
  with assms(4) have "r = Inl e" "s2 = s" by (simp_all add: Rotate_def)
  then show thesis by (intro failed) simp_all
next
  case (Inr x)
  obtain keys i where x: "x = (keys, i)" by force
  note l = load_Inr[OF assms(1) Inr[unfolded x]]
  have "keys \<noteq> []" using l(2)[of key] assms(2) by auto
  then obtain issuer where i: "i = Some issuer" using l(4) by (cases i) auto
  with assms(3,4) Inr x have "ReplaceOver (audiences keys) bucket
      (rotateNext R now ent tenant bucket actions keys issuer) (s1, w1) = (r, s2, w2)"
    by (simp add: Rotate_def)
  then show thesis
  proof (cases rule: ReplaceOver_cases)
    case (failed e)
    with \<open>\<And>e. r = Inl e \<Longrightarrow> s2 \<in> {s, s1} \<Longrightarrow> thesis\<close> show thesis by simp
  next
    case (written nxt)
    show thesis
      by (rule rotated[OF written(1) l(3)[OF i] l(1) _ written(3,4,5)]) (simp add: l(2))
  qed
qed

lemma authority_writeLoop:
  assumes "delegate_ok U V" and "fits sel nxt auds" and "\<forall>a. authority s a \<subseteq> V" and "\<forall>a. set (somes (nxt a)) \<subseteq> V"
  shows "authority (writeLoop sel nxt auds s) a =
    (if a \<in> set auds then {d \<in> authority s a. \<not> sel d} \<union> {d. Some d \<in> set (nxt a)} else authority s a)"
  using writeLoop_set[of V sel nxt auds s a] assms by (simp add: authority_def delegate_ok_def)

subsection \<open>A sample rotation\<close>

definition sample_fresh :: dlg where
  "sample_fresh = (sample_dlg ''3'' ''k'' ''b'')\<lparr>d_Command := Content_Retrieve\<rparr>"

definition sample_ucan :: ucan_lib where
  "sample_ucan = \<lparr>Delegate = (\<lambda>issuer nonce aud sub cmd exp.
       if fst issuer = Did ''t'' \<and> aud = Did ''k'' \<and> sub = Did ''b'' \<and> cmd = Content_Retrieve \<and> exp = None
       then Some sample_fresh else None),
     NotExpired = (\<lambda>d now. case d_Expiration d of None \<Rightarrow> True | Some t \<Rightarrow> now < t)\<rparr>"

definition sample_rotator :: "dlg list rotator" where
  "sample_rotator = \<lparr>r_ucan = sample_ucan, r_keylib = sample_keylib,
     r_publish = (\<lambda>issuer ds revoked. (Inr (), revoked @ ds)), r_wait = (\<lambda>sw. sw)\<rparr>"

definition sample_bound :: access_key where
  "sample_bound = \<lparr>k_ID = Did ''k'', k_Tenant = Did ''t'', k_Name = ''n'', k_Buckets = [], k_Permissions = [],
     k_Principal = Some ''alice'', k_CreatedAt = 0, k_ExpiresAt = None\<rparr>"

definition sample_backend :: "dlg list backend" where
  "sample_backend = \<lparr>x_tenants = [], x_providers = [], x_buckets = [], x_keys = [(Did ''k'', sample_bound)],
     x_vault = [(''/tenant/t'', ''s'')], x_ext = []\<rparr>"

definition sample_universe :: "dlg set" where
  "sample_universe = {sample_dlg ''1'' ''k'' ''b'', sample_dlg ''2'' ''k'' ''c'', sample_fresh}"

lemma sample_delegate_ok: "delegate_ok sample_ucan sample_universe"
  by (auto simp: delegate_ok_def sample_ucan_def sample_universe_def sample_fresh_def sample_dlg_def split: if_splits)

lemma sample_keys_ok: "keys_ok (x_keys sample_backend)"
  by (simp add: sample_backend_def keys_ok_def wf_gomap_def all_records_def unique_by_def key_wf_def sample_bound_def)

lemma sample_held: "dlgsOf sample_dlgs a =
    (if a = Did ''k'' then [sample_dlg ''1'' ''k'' ''b'', sample_dlg ''2'' ''k'' ''c''] else [])"
  by (simp add: sample_dlgs_def heldIn_def)

lemma sample_bound_to: "p \<in> set ps \<Longrightarrow> p = ''alice'' \<Longrightarrow> boundTo (x_keys sample_backend) (Did ''t'') (set ps) sample_bound"
  by (auto simp: boundTo_def sample_backend_def sample_bound_def)

lemma sample_commands: "commandsFor [''s3:ListBucket''] = [Content_Retrieve]"
  by code_simp

lemma sample_load: "load sample_rotator (Did ''t'') [''alice''] sample_backend = Inr ([sample_bound], Some (Did ''t'', ''s''))"
  by (simp add: load_def key_ListByTenant_def sample_backend_def key_selected_def withPrincipals_def
      sample_bound_def sample_rotator_def TenantIssuer_def vault_Read_def TenantKeyPath_def sample_keylib_def)

lemma sample_Rotate: "fst (Rotate sample_rotator 0 (\<lambda>_ _. []) (Did ''t'') (Did ''b'') [(''alice'', [''s3:ListBucket''])]
    (sample_dlgs, sample_backend)) = Inr ()"
proof -
  have i: "Issue sample_ucan (Did ''t'', ''s'') (\<lambda>_. []) (Did ''k'') [Did ''b''] [''s3:ListBucket''] None = Inr [sample_fresh]"
    by (simp add: Issue_def sample_commands sample_ucan_def)
  have "key_ListByTenant (x_keys sample_backend) (Did ''t'') (withIDs (audiences [sample_bound])) = [sample_bound]"
    by (simp add: key_ListByTenant_def sample_backend_def key_selected_def withIDs_def audiences_def sample_bound_def)
  then have "\<exists>w. rotateNext sample_rotator 0 (\<lambda>_ _. []) (Did ''t'') (Did ''b'') [(''alice'', [''s3:ListBucket''])]
      [sample_bound] (Did ''t'', ''s'') cur sample_backend = (Inr ((\<lambda>_. [])(Did ''k'' := [Some sample_fresh])), w)" for cur
    using i by (auto simp: rotateNext_def sample_rotator_def PublishRevocations_def actionsOf_def
        sample_bound_def Let_def split: sum.splits prod.splits)
  then obtain w where n: "rotateNext sample_rotator 0 (\<lambda>_ _. []) (Did ''t'') (Did ''b'') [(''alice'', [''s3:ListBucket''])]
      [sample_bound] (Did ''t'', ''s'') (currentOf (\<lambda>d. d_Subject d = Did ''b'') (audiences [sample_bound]) sample_dlgs)
      sample_backend = (Inr ((\<lambda>_. [])(Did ''k'' := [Some sample_fresh])), w)" by blast
  have c: "CheckReplacementOver (audiences [sample_bound]) (Did ''b'') ((\<lambda>_. [])(Did ''k'' := [Some sample_fresh])) = Inr ()"
    by (simp add: CheckReplacementOver_def CheckReplacement_def sample_fresh_def sample_dlg_def audiences_def sample_bound_def)
  have "r_wait sample_rotator = (\<lambda>sw. sw)" "holdWrites sample_dlgs = Inr ()"
    by (simp_all add: sample_rotator_def holdWrites_def sample_dlgs_def)
  with n c show ?thesis by (simp add: Rotate_def sample_load ReplaceOver_def replace_def)
qed

subsection \<open>Properties\<close>

lemma rotateNext_writes:
  assumes "delegate_ok (r_ucan R) V" and "keys_ok (x_keys w)" and "\<forall>a. authority s a \<subseteq> V"
    and "distinct (map k_ID keys)" and "fits (\<lambda>d. d_Subject d = bucket) nxt (audiences keys)"
    and run: "rotateNext R now ent tenant bucket actions keys issuer current w = (Inr nxt, w')"
  shows "authority (writeLoop (\<lambda>d. d_Subject d = bucket) nxt (audiences keys) s) a =
      (if a \<in> set (audiences keys)
       then {d \<in> authority s a. d_Subject d \<noteq> bucket} \<union> {d. Some d \<in> set (nxt a)} else authority s a)"
    and "key \<in> set keys \<Longrightarrow> \<not> remains (x_keys w) tenant key \<Longrightarrow> nxt (k_ID key) = []"
    and "key \<in> set keys \<Longrightarrow> remains (x_keys w) tenant key \<Longrightarrow>
      \<exists>ds. nxt (k_ID key) = map Some ds \<and> map d_Command ds = commandsFor (actionsOf actions key) \<and>
        (\<forall>d \<in> set ds. d_Issuer d = fst issuer \<and> d_Expiration d = map_option unixSeconds (k_ExpiresAt key))"
    and "set (somes (nxt a)) \<subseteq> V"
proof -
  let ?ids = "k_ID ` set (key_ListByTenant (x_keys w) tenant (withIDs (audiences keys)))"
  obtain dropped where loop: "rotateLoop R issuer ent bucket actions ?ids current keys [] (\<lambda>_. []) = Inr (dropped, nxt)"
    by (rule rotateNext_Inr[OF run])
  note out = rotateLoop_Inr(2,3)[OF assms(1) loop assms(4)]
  have nil: "nxt a = []" if "a \<notin> k_ID ` {k \<in> set keys. k_ID k \<in> ?ids}" for a using out(2) that by blast
  have in_V: "\<forall>a. set (somes (nxt a)) \<subseteq> V"
  proof (intro allI subsetI)
    fix a d assume d: "d \<in> set (somes (nxt a))"
    then have "a \<in> k_ID ` {k \<in> set keys. k_ID k \<in> ?ids}" using nil by force
    with d out(1) show "d \<in> V" by fastforce
  qed
  then show "set (somes (nxt a)) \<subseteq> V" by blast
  show "authority (writeLoop (\<lambda>d. d_Subject d = bucket) nxt (audiences keys) s) a =
      (if a \<in> set (audiences keys)
       then {d \<in> authority s a. d_Subject d \<noteq> bucket} \<union> {d. Some d \<in> set (nxt a)} else authority s a)"
    using in_V by (rule authority_writeLoop[OF assms(1,5,3)])
  note ids = remaining_ids[OF assms(2), of key keys tenant]
  show "nxt (k_ID key) = []" if "key \<in> set keys" "\<not> remains (x_keys w) tenant key"
  proof (rule nil)
    have "k_ID key \<notin> ?ids" using that ids by simp
    then show "k_ID key \<notin> k_ID ` {k \<in> set keys. k_ID k \<in> ?ids}" by auto
  qed
  show "\<exists>ds. nxt (k_ID key) = map Some ds \<and> map d_Command ds = commandsFor (actionsOf actions key) \<and>
        (\<forall>d \<in> set ds. d_Issuer d = fst issuer \<and> d_Expiration d = map_option unixSeconds (k_ExpiresAt key))"
    if "key \<in> set keys" "remains (x_keys w) tenant key"
    using that ids out(1) by blast
qed

text \<open>
  C21. A rotation leaves every key with what its principal's actions map to: for each key
  bound to one of the principals, still there once the locks were taken, the delegations over
  the bucket are afterwards exactly one per command of the actions, issued by the tenant,
  expiring with the key; a key deleted meanwhile holds nothing over the bucket; and what any
  audience holds over other subjects is untouched. A rotation that fails leaves the store as
  it was.
\<close>

theorem Rotate_correct:
  assumes "delegate_ok (r_ucan R) V" and "keys_ok (x_keys w)" and "keys_ok (x_keys w1)"
    and "r_wait R (s, w) = (s1, w1)" and "\<forall>a. authority s1 a \<subseteq> V"
    and "boundTo (x_keys w) tenant (set (map fst actions)) key"
    and "Rotate R now ent tenant bucket actions (s, w) = (r, s2, w2)"
  shows "(r \<noteq> Inr () \<longrightarrow> s2 \<in> {s, s1}) \<and>
    (r = Inr () \<longrightarrow>
       (\<forall>a. {d \<in> authority s2 a. d_Subject d \<noteq> bucket} = {d \<in> authority s1 a. d_Subject d \<noteq> bucket}) \<and>
       (if remains (x_keys w1) tenant key
        then (\<exists>ds. {d \<in> authority s2 (k_ID key). d_Subject d = bucket} = set ds \<and>
           map d_Command ds = commandsFor (actionsOf actions key) \<and>
           (\<forall>d \<in> set ds. d_Issuer d = tenant \<and> d_Expiration d = map_option unixSeconds (k_ExpiresAt key)))
        else {d \<in> authority s2 (k_ID key). d_Subject d = bucket} = {}))"
  using assms(2,6,4,7)
proof (cases rule: Rotate_cases)
  case failed
  then show ?thesis by simp
next
  case (rotated issuer keys nxt)
  note writes = rotateNext_writes[OF assms(1,3,5) rotated(3,6,5)]
  note auth = writes(1)[folded rotated(7)]
  have over: "d_Subject d = bucket" if "a \<in> set (audiences keys)" "Some d \<in> set (nxt a)" for a d
    using rotated(6) that by (simp add: fits_def)
  have other: "{d \<in> authority s2 a. d_Subject d \<noteq> bucket} = {d \<in> authority s1 a. d_Subject d \<noteq> bucket}" for a
    using over[of a] by (auto simp: auth)
  have key: "key \<in> set keys" using rotated(4) assms(6) by simp
  then have aud: "k_ID key \<in> set (audiences keys)" by (simp add: audiences_def)
  have held: "{d \<in> authority s2 (k_ID key). d_Subject d = bucket} = {d. Some d \<in> set (nxt (k_ID key))}"
    using over[OF aud] by (auto simp: auth aud)
  have "if remains (x_keys w1) tenant key
        then (\<exists>ds. {d. Some d \<in> set (nxt (k_ID key))} = set ds \<and>
           map d_Command ds = commandsFor (actionsOf actions key) \<and>
           (\<forall>d \<in> set ds. d_Issuer d = tenant \<and> d_Expiration d = map_option unixSeconds (k_ExpiresAt key)))
        else {d. Some d \<in> set (nxt (k_ID key))} = {}"
  proof (cases "remains (x_keys w1) tenant key")
    case True
    with writes(3)[OF key] rotated(2) obtain ds where "nxt (k_ID key) = map Some ds"
      "map d_Command ds = commandsFor (actionsOf actions key)"
      "\<forall>d \<in> set ds. d_Issuer d = tenant \<and> d_Expiration d = map_option unixSeconds (k_ExpiresAt key)"
      by blast
    with True show ?thesis by (auto intro!: exI[of _ ds])
  qed (simp add: writes(2)[OF key])
  with other held rotated(1) show ?thesis by simp
qed

theorem Rotate_correct_witness:
  "\<exists>s2 w2 ds. Rotate sample_rotator 0 (\<lambda>_ _. []) (Did ''t'') (Did ''b'') [(''alice'', [''s3:ListBucket''])]
       (sample_dlgs, sample_backend) = (Inr (), s2, w2) \<and>
     {d \<in> authority s2 (Did ''k''). d_Subject d = Did ''b''} = set ds \<and> map d_Command ds = [Content_Retrieve]"
proof -
  let ?actions = "[(''alice'', [''s3:ListBucket''])]"
  obtain s2 w2 where run: "Rotate sample_rotator 0 (\<lambda>_ _. []) (Did ''t'') (Did ''b'') ?actions
      (sample_dlgs, sample_backend) = (Inr (), s2, w2)"
    using sample_Rotate by (metis prod.collapse)
  have dl: "delegate_ok (r_ucan sample_rotator) sample_universe"
    using sample_delegate_ok by (simp add: sample_rotator_def)
  have wait: "r_wait sample_rotator (sample_dlgs, sample_backend) = (sample_dlgs, sample_backend)"
    by (simp add: sample_rotator_def)
  have auth: "\<forall>a. authority sample_dlgs a \<subseteq> sample_universe"
    by (auto simp: authority_def sample_held sample_universe_def)
  have bound: "boundTo (x_keys sample_backend) (Did ''t'') (set (map fst ?actions)) sample_bound"
    by (rule sample_bound_to[of "''alice''"]) simp_all
  have rem: "remains (x_keys sample_backend) (Did ''t'') sample_bound"
    by (simp add: remains_def sample_backend_def sample_bound_def)
  have k: "k_ID sample_bound = Did ''k''" "commandsFor (actionsOf ?actions sample_bound) = [Content_Retrieve]"
    by (simp_all add: sample_bound_def actionsOf_def sample_commands)
  from Rotate_correct[OF dl sample_keys_ok sample_keys_ok wait auth bound run] rem
  obtain ds where "{d \<in> authority s2 (k_ID sample_bound). d_Subject d = Did ''b''} = set ds"
    "map d_Command ds = commandsFor (actionsOf ?actions sample_bound)" by auto
  with run k show ?thesis by metis
qed

lemma Rotate_revokes:
  assumes "keys_ok (x_keys w)" and "keys_ok (x_keys w1)" and "r_wait R (s, w) = (s1, w1)"
    and "d \<in> authority s1 (k_ID key)" and "NotExpired (r_ucan R) d (unixSeconds now)" and "d_Subject d = bucket"
    and run: "Rotate R now ent tenant bucket actions (s, w) = (Inr (), s2, w2)" and dl: "delegate_ok (r_ucan R) V"
    and bound: "boundTo (x_keys w) tenant (set (map fst actions)) key" and "remains (x_keys w1) tenant key"
  shows "\<exists>issuer batch. d \<in> set batch \<and> fst issuer = tenant \<and>
    r_publish R issuer batch (x_ext w1) = (Inr (), x_ext w2)"
  using assms(1) bound assms(3) run
proof (cases rule: Rotate_cases)
  case (rotated issuer keys nxt)
  let ?ids = "k_ID ` set (key_ListByTenant (x_keys w1) tenant (withIDs (audiences keys)))"
  let ?cur = "currentOf (\<lambda>d. d_Subject d = bucket) (audiences keys) s1"
  obtain dropped where loop: "rotateLoop R issuer ent bucket actions ?ids ?cur keys [] (\<lambda>_. []) = Inr (dropped, nxt)"
    and pub: "PublishRevocations R now issuer dropped w1 = (Inr (), w2)"
    by (rule rotateNext_Inr[OF rotated(5)])
  have key: "key \<in> set keys" using rotated(4) bound by simp
  then have "k_ID key \<in> ?ids" using assms(10) remaining_ids[OF assms(2) key] by simp
  moreover have "d \<in> set (?cur (k_ID key))"
    using key assms(4,6) by (auto simp: currentOf_def authority_def audiences_def)
  ultimately have "d \<in> set dropped"
    using key by (auto simp: rotateLoop_Inr(1)[OF dl loop rotated(3)])
  from PublishRevocations_Inr[OF pub this assms(5)] rotated(2) show ?thesis by blast
qed simp

lemma Revoke_revokes:
  assumes "keys_ok (x_keys w)" and "r_wait R (s, w) = (s1, w1)" and "d \<in> authority s1 (k_ID key)"
    and "NotExpired (r_ucan R) d (unixSeconds now)"
    and run: "Revoke R now tenant p (s, w) = (Inr (), s2, w2)" and bound: "boundTo (x_keys w) tenant {p} key"
  shows "\<exists>issuer batch. d \<in> set batch \<and> fst issuer = tenant \<and>
    r_publish R issuer batch (x_ext w1) = (Inr (), x_ext w2)"
proof -
  obtain keys i where l: "load R tenant [p] w = Inr (keys, i)"
    using run by (auto simp: Revoke_def split: sum.splits)
  note k = load_Inr[OF assms(1) l]
  have key: "key \<in> set keys" using k(2)[of key] bound by simp
  then obtain issuer where i: "i = Some issuer" using k(4) by (cases i) auto
  with run l assms(2) have "Replace (audiences keys) (revokeNext R now keys issuer) (s1, w1) = (Inr (), s2, w2)"
    by (simp add: Revoke_def)
  then show ?thesis
  proof (cases rule: Replace_cases)
    case (written nxt)
    have "d \<in> set (concat (map (\<lambda>key. currentOf (\<lambda>_. True) (audiences keys) s1 (k_ID key)) keys))"
      using key assms(3) by (auto simp: currentOf_def authority_def audiences_def)
    from PublishRevocations_Inr[OF revokeNext_Inr(2)[OF written(2)] this assms(4)] k(3)[OF i]
    show ?thesis by blast
  qed simp
qed

text \<open>
  C20. Nothing a key could still use is dropped silently: every unexpired delegation over the
  bucket that a key held when a rotation took the locks, the key still being there, was in a
  batch of revocations, signed by the tenant, that the revocation service accepted before
  anything was stored; and so was every unexpired delegation of a removed principal's keys.
\<close>

theorem dropped_is_revoked:
  assumes "keys_ok (x_keys w)" and "keys_ok (x_keys w1)" and "r_wait R (s, w) = (s1, w1)"
    and "d \<in> authority s1 (k_ID key)" and "NotExpired (r_ucan R) d (unixSeconds now)"
    and "Rotate R now ent tenant bucket actions (s, w) = (Inr (), s2, w2) \<and> d_Subject d = bucket \<and>
           delegate_ok (r_ucan R) V \<and>
           boundTo (x_keys w) tenant (set (map fst actions)) key \<and> remains (x_keys w1) tenant key \<or>
         Revoke R now tenant p (s, w) = (Inr (), s2, w2) \<and> boundTo (x_keys w) tenant {p} key"
  shows "\<exists>issuer batch. d \<in> set batch \<and> fst issuer = tenant \<and>
    r_publish R issuer batch (x_ext w1) = (Inr (), x_ext w2)"
  using assms(6) Rotate_revokes[OF assms(1-5)] Revoke_revokes[OF assms(1,3,4,5)] by blast

theorem dropped_is_revoked_witness:
  "\<exists>s2 w2 batch. Rotate sample_rotator 0 (\<lambda>_ _. []) (Did ''t'') (Did ''b'') [(''alice'', [''s3:ListBucket''])]
       (sample_dlgs, sample_backend) = (Inr (), s2, w2) \<and>
     sample_dlg ''1'' ''k'' ''b'' \<in> set batch \<and> x_ext w2 = batch"
proof -
  let ?actions = "[(''alice'', [''s3:ListBucket''])]"
  obtain s2 w2 where run: "Rotate sample_rotator 0 (\<lambda>_ _. []) (Did ''t'') (Did ''b'') ?actions
      (sample_dlgs, sample_backend) = (Inr (), s2, w2)"
    using sample_Rotate by (metis prod.collapse)
  have wait: "r_wait sample_rotator (sample_dlgs, sample_backend) = (sample_dlgs, sample_backend)"
    by (simp add: sample_rotator_def)
  have held: "sample_dlg ''1'' ''k'' ''b'' \<in> authority sample_dlgs (k_ID sample_bound)"
    by (simp add: authority_def sample_held sample_bound_def)
  have live: "NotExpired (r_ucan sample_rotator) (sample_dlg ''1'' ''k'' ''b'') (unixSeconds 0)"
    by (simp add: sample_rotator_def sample_ucan_def sample_dlg_def)
  have "boundTo (x_keys sample_backend) (Did ''t'') (set (map fst ?actions)) sample_bound"
    by (rule sample_bound_to[of "''alice''"]) simp_all
  moreover have "remains (x_keys sample_backend) (Did ''t'') sample_bound"
    by (simp add: remains_def sample_backend_def sample_bound_def)
  moreover have "delegate_ok (r_ucan sample_rotator) sample_universe"
    using sample_delegate_ok by (simp add: sample_rotator_def)
  moreover have "d_Subject (sample_dlg ''1'' ''k'' ''b'') = Did ''b''" by (simp add: sample_dlg_def)
  ultimately obtain issuer batch where b: "sample_dlg ''1'' ''k'' ''b'' \<in> set batch"
    "r_publish sample_rotator issuer batch (x_ext sample_backend) = (Inr (), x_ext w2)"
    using dropped_is_revoked[OF sample_keys_ok sample_keys_ok wait held live] run by metis
  then have "x_ext w2 = batch" by (simp add: sample_rotator_def sample_backend_def)
  with b run show ?thesis by blast
qed

end
