(* ===== verification/Authorize_Request.thy ===== *)
theory Authorize_Request
  imports Auth_Properties Grant
begin

text \<open>
  \<open>pkg/rpc/authorize.go\<close>: what an authorized request is answered with. The gateway is given
  the key that verifies the caller's signatures and, for each Forge command of the request's
  permission, a delegation the access key signs; the commands that clean up after a request
  are also delegated by the tenant, for longer, through the bucket's root.
\<close>

subsection \<open>The answer\<close>

datatype key_kind = KeyKindSigV4 | KeyKindSigV4a

record authorize_ok =
  ok_Bucket :: "did option"
  ok_SourceBucket :: "did option"
  ok_Tenant :: did
  ok_Permissions :: "(did, string list) gomap"
  ok_Keys :: "(did, (key_kind \<times> string) list) gomap"
  ok_Delegations :: "(string, string list) gomap"

text \<open>The signer of an access key and the key that verifies what it signs.\<close>

definition verificationKey :: "authorizer \<Rightarrow> authorized_request \<Rightarrow> err + string \<times> key_kind \<times> string" where
  "verificationKey A ar =
     on_ok (AccessKeySigner (a_keylib A) (a_secrets A) (k_Tenant (ar_AccessKey ar)) (k_ID (ar_AccessKey ar))) (\<lambda>signer.
     on_ok (EncodeSecret (a_keylib A) signer) (\<lambda>secret.
     on_ok (DeriveKey (Crypto (a_codec A)) (ar_Signed ar) secret) (\<lambda>key.
       Inr (signer, (if Scheme (ar_Signed ar) = SchemeV4a then KeyKindSigV4a else KeyKindSigV4), key))))"

subsection \<open>Expirations\<close>

definition nextUTCMidnight :: "instant \<Rightarrow> instant" where
  "nextUTCMidnight t = dayStart t + 24 * hour"

definition AsyncOverhang :: duration where "AsyncOverhang = 4 * hour"

definition CleanupLifetime :: duration where "CleanupLifetime = 8 * 24 * hour"

definition requestExpiry :: "instant \<Rightarrow> access_key \<Rightarrow> int" where
  "requestExpiry now key =
     (let exp = unixSeconds (nextUTCMidnight now + MaxClockSkew + AsyncOverhang)
      in case k_ExpiresAt key of
           None \<Rightarrow> exp
         | Some t \<Rightarrow> (let capExp = unixSeconds t in if capExp < exp then capExp else exp))"

definition cleanupExpiry :: "instant \<Rightarrow> int" where
  "cleanupExpiry now = unixSeconds (nextUTCMidnight now + MaxClockSkew + CleanupLifetime)"

subsection \<open>Issuing\<close>

definition issuePermissionDelegations ::
  "ucan_lib \<Rightarrow> issuer \<Rightarrow> (nat \<Rightarrow> string) \<Rightarrow> did \<Rightarrow> did option \<Rightarrow> string \<Rightarrow> int \<Rightarrow> err + dlg list" where
  "issuePermissionDelegations U from ent audience subject perm exp =
     (let cmds = commandsFor [perm]
      in if length cmds = 0 then Inr []
         else (case subject of
                 None \<Rightarrow> Inl (Internal ''missing bucket'')
               | Some sub \<Rightarrow> issueLoop U from ent audience (Some exp) (map (Pair sub) cmds) 0 []))"

definition cleanupCommands :: "command list" where
  "cleanupCommands = [Blob_Remove, Blob_Abort, Upload_Remove]"

definition permissionCleanupCommands :: "string \<Rightarrow> command list" where
  "permissionCleanupCommands perm = filter (\<lambda>cmd. cmd \<in> set cleanupCommands) (commandsFor [perm])"

text \<open>The cleanup delegations and the root their chains go through; no root is \<open>None\<close>.\<close>

definition issueCleanupDelegations ::
  "authorizer \<Rightarrow> ucan_lib \<Rightarrow> chain_search \<Rightarrow> dlg_store \<Rightarrow> instant \<Rightarrow> (nat \<Rightarrow> string) \<Rightarrow> did \<Rightarrow> did \<Rightarrow> did \<Rightarrow>
   string \<Rightarrow> err + dlg list \<times> dlg option" where
  "issueCleanupDelegations A U chain ds now ent ten audience b perm =
     (case permissionCleanupCommands perm of
        [] \<Rightarrow> Inr ([], None)
      | cmd # cmds \<Rightarrow>
          on_ok (ProofChain chain ds ten cmd b) (\<lambda>(proofs, _).
            case proofs of
              [] \<Rightarrow> Inr ([], None)
            | root # _ \<Rightarrow>
                on_ok (TenantIssuer (a_keylib A) (a_secrets A) ten) (\<lambda>issuer.
                on_ok (issueLoop U issuer ent audience (Some (cleanupExpiry now)) (map (Pair b) (cmd # cmds)) 0 [])
                  (\<lambda>out. Inr (out, Some root)))))"

subsection \<open>AuthorizeRequest\<close>

text \<open>
  The request delegations over the bucket, and over the source of a copy from another bucket.
  \<open>ent\<close> numbers the nonces of each group.
\<close>

definition requestDelegations ::
  "ucan_lib \<Rightarrow> issuer \<Rightarrow> (nat \<Rightarrow> nat \<Rightarrow> string) \<Rightarrow> did \<Rightarrow> int \<Rightarrow> authorized_request \<Rightarrow> err + dlg list" where
  "requestDelegations U from ent audience exp ar =
     (let b = map_option b_ID (ar_Bucket ar) in
      on_ok (issuePermissionDelegations U from (ent 0) audience b (Permission (ar_Operation ar)) exp) (\<lambda>issued.
        case map_option b_ID (ar_SourceBucket ar) of
          None \<Rightarrow> Inr issued
        | Some src \<Rightarrow>
            if b = None \<or> Some src \<noteq> b
            then on_ok (issuePermissionDelegations U from (ent 1) audience (Some src) (ar_SourcePermission ar) exp)
                   (\<lambda>srcDlgs. Inr (issued @ srcDlgs))
            else Inr issued))"

text \<open>The proof set: each delegation keyed to its chain.\<close>

definition ownChains :: "dlg list \<Rightarrow> (string, string list) gomap" where
  "ownChains issued = fold (\<lambda>d. AList.update (d_Link d) [d_Link d]) issued []"

definition rootChains :: "dlg \<Rightarrow> dlg list \<Rightarrow> (string, string list) gomap \<Rightarrow> (string, string list) gomap" where
  "rootChains root cleanup = fold (\<lambda>d. AList.update (d_Link d) [d_Link root, d_Link d]) cleanup"

text \<open>\<open>clock\<close> gives the four readings of the clock, in their order.\<close>

definition AuthorizeRequest ::
  "authorizer \<Rightarrow> ucan_lib \<Rightarrow> chain_search \<Rightarrow> dlg_store \<Rightarrow> (nat \<Rightarrow> instant) \<Rightarrow> (nat \<Rightarrow> nat \<Rightarrow> string) \<Rightarrow>
   did \<Rightarrow> s3_request \<Rightarrow> err + authorize_ok \<times> dlg list" where
  "AuthorizeRequest A U chain ds clock ent issuer req =
     on_ok (Authorize A (clock 0) (clock 1) issuer req) (\<lambda>ar.
     on_ok (verificationKey A ar) (\<lambda>(signer, kind, key).
       let keyID = k_ID (ar_AccessKey ar);
           perm = Permission (ar_Operation ar);
           answer = (\<lambda>issued proofs.
             (\<lparr>ok_Bucket = map_option b_ID (ar_Bucket ar), ok_SourceBucket = map_option b_ID (ar_SourceBucket ar),
               ok_Tenant = t_ID (ar_Tenant ar), ok_Permissions = [(keyID, ar_Permissions ar)],
               ok_Keys = [(keyID, [(kind, key)])], ok_Delegations = proofs\<rparr>, issued))
       in on_ok (requestDelegations U (keyID, signer) ent issuer (requestExpiry (clock 2) (ar_AccessKey ar)) ar) (\<lambda>issued.
            case ar_Bucket ar of
              None \<Rightarrow> Inr (answer issued (ownChains issued))
            | Some b \<Rightarrow>
                on_ok (issueCleanupDelegations A U chain ds (clock 3) (ent 2) (t_ID (ar_Tenant ar)) issuer (b_ID b) perm)
                  (\<lambda>(cleanup, root).
                     case root of
                       None \<Rightarrow> Inr (answer issued (ownChains issued))
                     | Some root \<Rightarrow> Inr (answer (issued @ cleanup @ [root]) (rootChains root cleanup (ownChains issued)))))))"

subsection \<open>What each step issues\<close>

text \<open>A delegation of an issuer to an audience, over a subject, until a time.\<close>

definition grants :: "dlg \<Rightarrow> did \<Rightarrow> did \<Rightarrow> did \<Rightarrow> int \<Rightarrow> bool" where
  "grants d from to sub exp \<longleftrightarrow> d_Issuer d = from \<and> d_Audience d = to \<and> d_Subject d = sub \<and> d_Expiration d = Some exp"

lemma issueLoop_over:
  assumes "delegate_ok U V" and "issueLoop U from ent to (Some exp) (map (Pair sub) cmds) 0 [] = Inr ds"
  shows "map d_Command ds = cmds" and "d \<in> set ds \<Longrightarrow> grants d (fst from) to sub exp"
proof -
  obtain new where n: "ds = [] @ new" "map (\<lambda>d. (d_Subject d, d_Command d)) new = map (Pair sub) cmds"
    "\<forall>d \<in> set new. d \<in> V \<and> d_Issuer d = fst from \<and> d_Audience d = to \<and> d_Expiration d = Some exp"
    using issueLoop_Inr[OF assms] by blast
  from arg_cong[OF n(2), of "map snd"] n(1) show "map d_Command ds = cmds" by (simp add: comp_def)
  assume d: "d \<in> set ds"
  then have "(d_Subject d, d_Command d) \<in> set (map (Pair sub) cmds)" unfolding n(2)[symmetric] using n(1) by simp
  with d n(1,3) show "grants d (fst from) to sub exp" by (auto simp: grants_def)
qed

lemma issuePermissionDelegations_Inr:
  assumes "delegate_ok U V" and "issuePermissionDelegations U from ent to sub perm exp = Inr ds"
  shows "map d_Command ds = commandsFor [perm]" and "d \<in> set ds \<Longrightarrow> \<exists>s. sub = Some s \<and> grants d (fst from) to s exp"
  using assms(2) issueLoop_over[OF assms(1)]
  by (auto simp: issuePermissionDelegations_def Let_def split: if_splits option.splits)

lemma issueCleanupDelegations_Inr:
  assumes "delegate_ok U V" and "issueCleanupDelegations A U chain ds now ent ten to b perm = Inr (out, root)"
  shows "root = None \<Longrightarrow> out = []" 
    and "root = Some r \<Longrightarrow> map d_Command out = permissionCleanupCommands perm \<and> out \<noteq> [] \<and>
      (\<forall>d \<in> set out. grants d ten to b (cleanupExpiry now)) \<and>
      (\<exists>cmd rest links. ProofChain chain ds ten cmd b = Inr (r # rest, links))"
proof -
  have "(root = None \<longrightarrow> out = []) \<and> (root = Some r \<longrightarrow> map d_Command out = permissionCleanupCommands perm \<and> out \<noteq> [] \<and>
      (\<forall>d \<in> set out. grants d ten to b (cleanupExpiry now)) \<and>
      (\<exists>cmd rest links. ProofChain chain ds ten cmd b = Inr (r # rest, links)))"
  proof (cases "permissionCleanupCommands perm")
    case Nil
    with assms(2) show ?thesis by (simp add: issueCleanupDelegations_def)
  next
    case (Cons cmd cmds)
    with assms(2) obtain proofs links where p: "ProofChain chain ds ten cmd b = Inr (proofs, links)"
      by (auto simp: issueCleanupDelegations_def on_ok_Inr_iff)
    show ?thesis
    proof (cases proofs)
      case Nil
      with assms(2) Cons p show ?thesis by (simp add: issueCleanupDelegations_def)
    next
      case c: (Cons rt rest)
      with assms(2) Cons p obtain issuer where i: "TenantIssuer (a_keylib A) (a_secrets A) ten = Inr issuer"
        "issueLoop U issuer ent to (Some (cleanupExpiry now)) (map (Pair b) (cmd # cmds)) 0 [] = Inr out" "root = Some rt"
        by (auto simp: issueCleanupDelegations_def on_ok_Inr_iff)
      have "fst issuer = ten" using i(1) by (auto simp: TenantIssuer_def split: sum.splits option.splits)
      with issueLoop_over[OF assms(1) i(2)] i(3) Cons p c show ?thesis by fastforce
    qed
  qed
  then show "root = None \<Longrightarrow> out = []" "root = Some r \<Longrightarrow> map d_Command out = permissionCleanupCommands perm \<and> out \<noteq> [] \<and>
      (\<forall>d \<in> set out. grants d ten to b (cleanupExpiry now)) \<and>
      (\<exists>cmd rest links. ProofChain chain ds ten cmd b = Inr (r # rest, links))"
    by simp_all
qed

lemma requestDelegations_Inr:
  assumes "delegate_ok U V" and "requestDelegations U from ent to exp ar = Inr ds"
  shows "\<exists>own src. ds = own @ src \<and> map d_Command own = commandsFor [Permission (ar_Operation ar)] \<and>
    (\<forall>d \<in> set own. \<exists>b. ar_Bucket ar = Some b \<and> grants d (fst from) to (b_ID b) exp) \<and>
    (\<forall>d \<in> set src. \<exists>b. ar_SourceBucket ar = Some b \<and> d_Command d \<in> set (commandsFor [ar_SourcePermission ar]) \<and>
       grants d (fst from) to (b_ID b) exp) \<and>
    (\<forall>b. ar_SourceBucket ar = Some b \<longrightarrow> map_option b_ID (ar_Bucket ar) \<noteq> Some (b_ID b) \<longrightarrow>
       map d_Command src = commandsFor [ar_SourcePermission ar])"
proof -
  from assms(2) obtain own where own: "issuePermissionDelegations U from (ent 0) to (map_option b_ID (ar_Bucket ar))
      (Permission (ar_Operation ar)) exp = Inr own"
    unfolding requestDelegations_def Let_def by (auto simp: on_ok_Inr_iff)
  note o = issuePermissionDelegations_Inr[OF assms(1) own]
  have own_ok: "\<forall>d \<in> set own. \<exists>b. ar_Bucket ar = Some b \<and> grants d (fst from) to (b_ID b) exp"
    using o(2) by fastforce
  show ?thesis
  proof (cases "\<exists>s. ar_SourceBucket ar = Some s \<and> map_option b_ID (ar_Bucket ar) \<noteq> Some (b_ID s)")
    case False
    then have "ds = own @ []" using assms(2) own
      by (cases "ar_SourceBucket ar") (auto simp: requestDelegations_def Let_def)
    with o(1) own_ok False show ?thesis by (intro exI[of _ own] exI[of _ "[]"]) auto
  next
    case True
    then obtain s where s: "ar_SourceBucket ar = Some s" "map_option b_ID (ar_Bucket ar) \<noteq> Some (b_ID s)" by blast
    then have "map_option b_ID (ar_Bucket ar) = None \<or> Some (b_ID s) \<noteq> map_option b_ID (ar_Bucket ar)" by auto
    with assms(2) own s(1) obtain src where src: "issuePermissionDelegations U from (ent 1) to (Some (b_ID s))
        (ar_SourcePermission ar) exp = Inr src" "ds = own @ src"
      unfolding requestDelegations_def Let_def by (auto simp: on_ok_Inr_iff)
    note i = issuePermissionDelegations_Inr[OF assms(1) src(1)]
    have "d_Command d \<in> set (commandsFor [ar_SourcePermission ar])" if "d \<in> set src" for d
      unfolding i(1)[symmetric] using that by simp
    with i(2) s(1) o(1) own_ok src(2) i(1) show ?thesis by (intro exI[of _ own] exI[of _ src]) auto
  qed
qed

subsection \<open>The proof set\<close>

lemma map_of_ownChains: "map_of (ownChains ds) l = (if l \<in> d_Link ` set ds then Some [l] else None)"
proof -
  have "map_of (fold (\<lambda>d. AList.update (d_Link d) [d_Link d]) ds m) l =
      (if l \<in> d_Link ` set ds then Some [l] else map_of m l)" for m
    by (induction ds arbitrary: m) (auto simp: update_conv')
  then show ?thesis by (simp add: ownChains_def)
qed

lemma map_of_rootChains:
  "map_of (rootChains root cleanup m) l = (if l \<in> d_Link ` set cleanup then Some [d_Link root, l] else map_of m l)"
  unfolding rootChains_def by (induction cleanup arbitrary: m) (auto simp: update_conv')

subsection \<open>A sample answer\<close>

definition sample_read :: dlg where
  "sample_read = \<lparr>d_Link = ''1'', d_Issuer = Did ''did:key:k'', d_Audience = Did ''p'', d_Subject = Did ''b'',
     d_Command = Content_Retrieve, d_Expiration = Some 1369455300\<rparr>"

definition sample_signing :: ucan_lib where
  "sample_signing = \<lparr>Delegate = (\<lambda>issuer nonce aud sub cmd exp.
       if fst issuer = Did ''did:key:k'' \<and> aud = Did ''p'' \<and> sub = Did ''b'' \<and> cmd = Content_Retrieve \<and> exp = Some 1369455300
       then Some sample_read else None),
     NotExpired = (\<lambda>d now. True)\<rparr>"

lemma sample_signing_ok: "delegate_ok sample_signing {sample_read}"
  by (auto simp: delegate_ok_def sample_signing_def sample_read_def split: if_splits)

lemma sample_answer:
  "\<exists>answer. AuthorizeRequest (sample_authorizer None Deny) sample_signing (\<lambda>_ _ _ _. Inr ([], [])) \<lparr>byAudience = [], d_wait = None\<rparr>
     (\<lambda>n. if n = 0 then 0 else sample_time) (\<lambda>_ _. []) (Did ''p'') sample_get = Inr (answer, [sample_read])"
proof -
  obtain ar where ar: "Authorize (sample_authorizer None Deny) 0 sample_time (Did ''p'') sample_get = Inr ar"
    "ar_Operation ar = OpListBucket" "ar_AccessKey ar = sample_key None" "ar_Bucket ar = Some sample_photos"
    "ar_Signed ar = sample_signed"
    using sample_authorize[OF sample_service] by blast
  have src: "ar_SourceBucket ar = None"
  proof -
    obtain c where "authorizeOperation (sample_authorizer None Deny) (ar_AccessKey ar) (t_ID (ar_Tenant ar)) (ar_Provider ar) c =
       Inr (ar_Permissions ar, ar_Bucket ar, ar_SourceBucket ar)" "ar_Operation ar = c_op c"
      by (rule Authorize_InrD[OF ar(1)]) blast
    then show ?thesis
      using authorizeServiceKey_Inr(5) ar(2,3) sample_permissions(3)
      by (simp add: authorizeOperation_def sample_key_def)
  qed
  have "\<exists>kind key. verificationKey (sample_authorizer None Deny) ar = Inr (''secret'', kind, key)"
    by (simp add: verificationKey_def ar sample_authorizer_def memory_authorizer_def sample_key_def AccessKeySigner_def
      AccessKeyPath_def TenantKeyPath_def vault_Read_def sample_world_def sample_keylib_def EncodeSecret_def
      DeriveKey_def sample_signed_def)
  then obtain kind key where vk: "verificationKey (sample_authorizer None Deny) ar = Inr (''secret'', kind, key)" by blast
  have cmds: "Permission OpListBucket = ''s3:ListBucket''" "commandsFor [''s3:ListBucket''] = [Content_Retrieve]"
    "permissionCleanupCommands ''s3:ListBucket'' = []"
    by code_simp+
  have "requestExpiry sample_time (sample_key None) = 1369455300"
    by (simp add: requestExpiry_def sample_key_def nextUTCMidnight_def dayStart_def sample_time_def MaxClockSkew_def
        AsyncOverhang_def unixSeconds_def)
  then have "requestDelegations sample_signing (k_ID (ar_AccessKey ar), ''secret'') (\<lambda>_ _. []) (Did ''p'')
      (requestExpiry sample_time (ar_AccessKey ar)) ar = Inr [sample_read]"
    by (simp add: requestDelegations_def ar src issuePermissionDelegations_def cmds sample_reads sample_signing_def sample_key_def)
  then show ?thesis
    by (simp add: AuthorizeRequest_def Let_def ar(1) vk) (simp add: ar issueCleanupDelegations_def cmds)
qed

subsection \<open>Properties\<close>

text \<open>
  What the gateway is given over a request: the delegations of the access key, over the
  buckets the request addresses and for the commands of the permissions it was authorized by,
  and those of the tenant, for the commands that clean up.
\<close>

definition keyIssued :: "authorized_request \<Rightarrow> did \<Rightarrow> int \<Rightarrow> dlg \<Rightarrow> bool" where
  "keyIssued ar issuer exp d \<longleftrightarrow>
     (\<exists>b. grants d (k_ID (ar_AccessKey ar)) issuer (b_ID b) exp \<and>
        (ar_Bucket ar = Some b \<and> d_Command d \<in> set (commandsFor [Permission (ar_Operation ar)]) \<or>
         ar_SourceBucket ar = Some b \<and> d_Command d \<in> set (commandsFor [ar_SourcePermission ar])))"

definition tenantIssued :: "authorized_request \<Rightarrow> did \<Rightarrow> int \<Rightarrow> dlg \<Rightarrow> bool" where
  "tenantIssued ar issuer exp d \<longleftrightarrow>
     (\<exists>b. grants d (t_ID (ar_Tenant ar)) issuer (b_ID b) exp \<and> ar_Bucket ar = Some b \<and>
        d_Command d \<in> set (commandsFor [Permission (ar_Operation ar)]) \<inter> set cleanupCommands)"

lemma AuthorizeRequest_InrD:
  assumes "AuthorizeRequest A U chain ds clock ent issuer req = Inr (answer, blocks)"
  obtains ar signer kind key issued cleanup root where
    "Authorize A (clock 0) (clock 1) issuer req = Inr ar" "verificationKey A ar = Inr (signer, kind, key)"
    "requestDelegations U (k_ID (ar_AccessKey ar), signer) ent issuer (requestExpiry (clock 2) (ar_AccessKey ar)) ar = Inr issued"
    "ok_Bucket answer = map_option b_ID (ar_Bucket ar)" "ok_SourceBucket answer = map_option b_ID (ar_SourceBucket ar)"
    "ok_Tenant answer = t_ID (ar_Tenant ar)" "ok_Permissions answer = [(k_ID (ar_AccessKey ar), ar_Permissions ar)]"
    "ok_Keys answer = [(k_ID (ar_AccessKey ar), [(kind, key)])]"
    "root = None \<Longrightarrow> blocks = issued \<and> ok_Delegations answer = ownChains issued"
    "\<And>r. root = Some r \<Longrightarrow> \<exists>b. ar_Bucket ar = Some b \<and>
       issueCleanupDelegations A U chain ds (clock 3) (ent 2) (t_ID (ar_Tenant ar)) issuer (b_ID b)
         (Permission (ar_Operation ar)) = Inr (cleanup, Some r) \<and>
       blocks = issued @ cleanup @ [r] \<and> ok_Delegations answer = rootChains r cleanup (ownChains issued)"
proof -
  from assms obtain ar signer kind key issued where s:
    "Authorize A (clock 0) (clock 1) issuer req = Inr ar" "verificationKey A ar = Inr (signer, kind, key)"
    "requestDelegations U (k_ID (ar_AccessKey ar), signer) ent issuer (requestExpiry (clock 2) (ar_AccessKey ar)) ar = Inr issued"
    unfolding AuthorizeRequest_def Let_def by (auto simp: on_ok_Inr_iff)
  note run = assms[unfolded AuthorizeRequest_def Let_def, unfolded s(1) on_ok_simps, unfolded s(2) on_ok_simps prod.case,
    unfolded s(3) on_ok_simps]
  show thesis
  proof (cases "ar_Bucket ar")
    case None
    with run that[OF s, of None] show thesis by auto
  next
    case (Some b)
    with run obtain cleanup root where c:
      "issueCleanupDelegations A U chain ds (clock 3) (ent 2) (t_ID (ar_Tenant ar)) issuer (b_ID b)
         (Permission (ar_Operation ar)) = Inr (cleanup, root)"
      by (auto simp: on_ok_Inr_iff)
    with run Some that[OF s, of root cleanup] show thesis by (cases root) auto
  qed
qed

lemma accepted_permissions:
  assumes "Authorize A now now' issuer req = Inr ar"
  shows "set (Permissions (ar_Operation ar)) \<subseteq> set (ar_Permissions ar)"
proof -
  obtain c where d: "authorizeOperation A (ar_AccessKey ar) (t_ID (ar_Tenant ar)) (ar_Provider ar) c =
       Inr (ar_Permissions ar, ar_Bucket ar, ar_SourceBucket ar)" and op: "ar_Operation ar = c_op c"
    by (rule Authorize_InrD[OF assms]) blast
  have perms: "set (Permissions (c_op c)) \<subseteq> set (permissions c)" by (auto simp: permissions_def)
  show ?thesis
  proof (cases "k_Principal (ar_AccessKey ar)")
    case None
    with d have "authorizeServiceKey A (ar_AccessKey ar) (t_ID (ar_Tenant ar)) (ar_Provider ar) c =
       Inr (ar_Permissions ar, ar_Bucket ar, ar_SourceBucket ar)" by (simp add: authorizeOperation_def)
    from authorizeServiceKey_Inr(1,2)[OF this] perms op show ?thesis by auto
  next
    case (Some p)
    with d have "authorizePrincipal A p (t_ID (ar_Tenant ar)) (ar_Provider ar) c =
       Inr (ar_Permissions ar, ar_Bucket ar, ar_SourceBucket ar)" by (simp add: authorizeOperation_def)
    note k = authorizePrincipal_Inr[OF this]
    show ?thesis
    proof (cases "ar_Bucket ar")
      case None
      with k(3,4) have "c_op c = OpListBuckets" "ar_Permissions ar = [''s3:ListAllMyBuckets'']" by simp_all
      moreover have "Permissions OpListBuckets = [''s3:ListAllMyBuckets'']" by code_simp
      ultimately show ?thesis by (simp add: op)
    next
      case (Some b)
      from principalAccess_Inr(3)[OF k(5)[OF Some]] perms op show ?thesis by auto
    qed
  qed
qed



end
