(* ===== verification/Policy_Service.thy ===== *)
theory Policy_Service
  imports Principal_Store Policy_Store Grant
begin

text \<open>
  \<open>pkg/api/service/bucketpolicy\<close>: the compare-and-set write of a bucket's policy, which
  rewrites the delegations of every principal whose access it changes inside the store's
  write, its removal, and the reads computed from the policies of a principal.
\<close>

subsection \<open>The world\<close>

text \<open>
  The principals, the policies, the delegations and the rest. A store's write runs its callback
  on the world without that store; \<open>onPolicies\<close> puts a step of the policy store in its place.
\<close>

type_synonym 'e world = "principals \<times> policies \<times> dlg_store \<times> 'e backend"

definition onPolicies ::
  "(policies \<times> principals \<times> 'w \<Rightarrow> 'r \<times> policies \<times> principals \<times> 'w) \<Rightarrow>
   principals \<times> policies \<times> 'w \<Rightarrow> 'r \<times> principals \<times> policies \<times> 'w" where
  "onPolicies f s =
     (let (ps, pol, w) = s; (r, pol, ps, w) = f (pol, ps, w) in (r, ps, pol, w))"

text \<open>A step of the rest of the world, lifted over the principal rows.\<close>

definition onRest :: "('w \<Rightarrow> (err + 'a) \<times> 'w) \<Rightarrow> ('a, 'w) step" where
  "onRest f s = (let (ps, w) = s; (r, w) = f w in (r, ps, w))"

text \<open>
  \<open>store.Contended\<close>: a lock the write gave up on, or its own deadline, the context
  of the caller still being alive.
\<close>

definition Contended :: "bool \<Rightarrow> err \<Rightarrow> bool" where
  "Contended alive e \<longleftrightarrow> e = Store ErrLockTimeout \<or> (e = DeadlineExceeded \<and> alive)"

record 'e policy_service =
  v_policy :: policy_lib
  v_rotator :: "'e rotator"

subsection \<open>Conditions\<close>

record condition =
  Negate :: bool
  Match :: string

definition IfMatch :: "string \<Rightarrow> condition" where "IfMatch etag = \<lparr>Negate = False, Match = etag\<rparr>"

definition IfNoneMatch :: "string \<Rightarrow> condition" where "IfNoneMatch v = \<lparr>Negate = True, Match = v\<rparr>"

definition WithCondition :: "condition \<Rightarrow> policy_input \<Rightarrow> err + policy_input" where
  "WithCondition c i =
     (if i_Conditional i then Inl (Api ErrInvalidPrecondition)
      else if Negate c \<and> Match c \<noteq> ''*'' then Inl (Api ErrInvalidPrecondition)
      else Inr (let i = i\<lparr>i_Conditional := True\<rparr>
                in if \<not> Negate c then i\<lparr>i_IfMatch := Some (Match c)\<rparr> else i))"

fun withOptions :: "condition list \<Rightarrow> policy_input \<Rightarrow> err + policy_input" where
  "withOptions [] i = Inr i"
| "withOptions (c # cs) i = on_ok (WithCondition c i) (withOptions cs)"

subsection \<open>Writing\<close>

definition rotateChanged ::
  "'e policy_service \<Rightarrow> instant \<Rightarrow> (did \<Rightarrow> nat \<Rightarrow> string) \<Rightarrow> did \<Rightarrow> did \<Rightarrow> policy_document option \<Rightarrow>
   policy_document option \<Rightarrow> string list \<Rightarrow> (unit, dlg_store \<times> 'e backend) step" where
  "rotateChanged S now ent ten b oldDoc newDoc principals s =
     (let affected = Changed (v_policy S) oldDoc newDoc principals
      in if length affected = 0 then (Inr (), s)
         else WithLock ten affected
                (onRest (Rotate (v_rotator S) now ent ten b
                   (map (\<lambda>p. (p, Effective (v_policy S) newDoc p)) affected))) s)"

text \<open>The callback of a write, once the store has taken the bucket and checked the condition.\<close>

definition onWrite ::
  "'e policy_service \<Rightarrow> instant \<Rightarrow> (did \<Rightarrow> nat \<Rightarrow> string) \<Rightarrow> did \<Rightarrow> did \<Rightarrow> policy_document \<Rightarrow>
   policy_record option \<Rightarrow> (unit, dlg_store \<times> 'e backend) step" where
  "onWrite S now ent ten b doc old s =
     (let principals = ListIDsByTenant (fst s) ten
      in if \<not> list_all (\<lambda>p. p \<in> set principals) (fst (Named (v_policy S) doc))
         then (Inl (Store ErrInvalidArgument), s)
         else rotateChanged S now ent ten b (map_option pol_Policy old) (Some doc) principals s)"

text \<open>\<open>alive\<close>: the caller's context has not ended when the error is reported.\<close>

definition writeError :: "bool \<Rightarrow> err \<Rightarrow> err" where
  "writeError alive e =
     (if e = Store ErrPreconditionFailed then Api ErrPolicyPreconditionFailed
      else if Contended alive e then Api ErrConcurrentChange
      else if e = Store ErrRecordNotFound then Api ErrBucketNotFound
      else if e = Store ErrInvalidArgument then Api ErrInvalidPolicy
      else e)"

definition hasBucket :: "'e backend \<Rightarrow> did \<Rightarrow> bool" where
  "hasBucket w = bucket_Has (x_buckets w)"

definition WritePolicy ::
  "'e policy_service \<Rightarrow> bool \<Rightarrow> instant \<Rightarrow> (did \<Rightarrow> nat \<Rightarrow> string) \<Rightarrow> did \<Rightarrow> did \<Rightarrow> string \<Rightarrow>
   policy_document \<Rightarrow> condition list \<Rightarrow> 'e world \<Rightarrow> (err + string \<times> bool) \<times> 'e world" where
  "WritePolicy S alive now ent ten b bucketName doc opts s =
     (let (ps, pol, ds, w) = s in
      case Validate (v_policy S) doc bucketName (\<lambda>p. p \<in> set (ListIDsByTenant ps ten)) of
        Inl e \<Rightarrow> (Inl e, s)
      | Inr _ \<Rightarrow>
          (case withOptions opts \<lparr>i_Bucket = b, i_Tenant = ten, i_Policy = doc,
                 i_Conditional = False, i_IfMatch = None\<rparr> of
             Inl e \<Rightarrow> (Inl e, s)
           | Inr i \<Rightarrow>
               (case onPolicies (policy_Put (v_policy S) (Some (hasBucket w)) now i
                       (Some (onWrite S now ent ten b doc))) s of
                  (Inl e, s') \<Rightarrow> (Inl (writeError alive e), s')
                | (Inr etag, s') \<Rightarrow> (Inr (etag, stored pol b = None), s'))))"

definition RemovePolicy ::
  "'e policy_service \<Rightarrow> bool \<Rightarrow> instant \<Rightarrow> (did \<Rightarrow> nat \<Rightarrow> string) \<Rightarrow> did \<Rightarrow> did \<Rightarrow> string option \<Rightarrow>
   'e world \<Rightarrow> (err + unit) \<times> 'e world" where
  "RemovePolicy S alive now ent ten b ifMatch s =
     (case onPolicies (policy_Delete b (case ifMatch of None \<Rightarrow> [] | Some tag \<Rightarrow> tag)
             (Some (\<lambda>old s. rotateChanged S now ent ten b (Some (pol_Policy old)) None
                (ListIDsByTenant (fst s) ten) s))) s of
        (Inl e, s') \<Rightarrow>
          (Inl (if e = Store ErrRecordNotFound then Api ErrPolicyNotFound else writeError alive e), s')
      | (Inr _, s') \<Rightarrow> (Inr (), s'))"

subsection \<open>Reading\<close>

definition tenantOf :: "tenants \<Rightarrow> string \<Rightarrow> err + did" where
  "tenantOf s externalID =
     (case tenant_GetByExternalID s externalID of
        Inl e \<Rightarrow> Inl (if e = Store ErrRecordNotFound then Api ErrTenantNotFound else e)
      | Inr ten \<Rightarrow> Inr (t_ID ten))"

definition principalPolicies :: "'e world \<Rightarrow> string \<Rightarrow> string \<Rightarrow> err + did \<times> policy_record list" where
  "principalPolicies s externalID p =
     (let (ps, pol, ds, w) = s in
      on_ok (tenantOf (x_tenants w) externalID) (\<lambda>ten.
        (case principal_Get False ps ten p of
           Inl e \<Rightarrow> Inl (if e = Store ErrRecordNotFound then Api ErrPrincipalNotFound else e)
         | Inr _ \<Rightarrow> Inr (ten, policy_ListByPrincipal pol ten p))))"

text \<open>The names of the buckets, read page by page; \<open>None\<close> would be a listing that never ends.\<close>

definition bucketNames :: "buckets \<Rightarrow> did \<Rightarrow> policy_record list \<Rightarrow> (err + (did, string) gomap) option" where
  "bucketNames bs ten recs =
     (if length recs = 0 then Some (Inr [])
      else
        (case Collect_pages (bucket_ListByTenant bs (ten, \<lparr>q_IDs = map pol_Bucket recs, q_Names = [],
                q_Prefix = [], q_Provider = Undef, q_Limit = None\<rparr>)) of
           None \<Rightarrow> None
         | Some (Inl e) \<Rightarrow> Some (Inl e)
         | Some (Inr page) \<Rightarrow> Some (Inr (map (\<lambda>b. (b_ID b, b_Name b)) (rev page)))))"

record named_policy =
  n_BucketName :: string
  n_ETag :: string
  n_Policy :: policy_document

definition namedPolicies :: "(did, string) gomap \<Rightarrow> policy_record list \<Rightarrow> named_policy list" where
  "namedPolicies nms recs =
     List.map_filter (\<lambda>r. map_option (\<lambda>nm. \<lparr>n_BucketName = nm, n_ETag = pol_ETag r, n_Policy = pol_Policy r\<rparr>)
       (map_of nms (pol_Bucket r))) recs"

definition PoliciesByPrincipal :: "'e world \<Rightarrow> string \<Rightarrow> string \<Rightarrow> (err + named_policy list) option" where
  "PoliciesByPrincipal s externalID p =
     (case principalPolicies s externalID p of
        Inl e \<Rightarrow> Some (Inl e)
      | Inr (ten, recs) \<Rightarrow>
          (case bucketNames (x_buckets (snd (snd (snd s)))) ten recs of
             None \<Rightarrow> None
           | Some (Inl e) \<Rightarrow> Some (Inl e)
           | Some (Inr nms) \<Rightarrow> Some (Inr (sort_key n_BucketName (namedPolicies nms recs)))))"

definition PrincipalAccess ::
  "policy_lib \<Rightarrow> 'e world \<Rightarrow> string \<Rightarrow> string \<Rightarrow> (err + (string \<times> string list) list) option" where
  "PrincipalAccess L s externalID p =
     (case PoliciesByPrincipal s externalID p of
        None \<Rightarrow> None
      | Some (Inl e) \<Rightarrow> Some (Inl e)
      | Some (Inr recs) \<Rightarrow>
          Some (Inr (filter (\<lambda>(nm, actions). length actions > 0)
            (map (\<lambda>r. (n_BucketName r, Effective L (Some (n_Policy r)) p)) recs))))"

end
