(* ===== verification/Tracking.thy ===== *)
theory Tracking
  imports Policy_Service
begin

text \<open>
  The invariant the services keep between them: what an access key bound to a principal holds
  over a bucket follows what the bucket's policy grants the principal. This theory states it
  over the whole world, gives the facts on rotations the services' proofs share, and shows
  that the writes of \<open>pkg/api/service/bucketpolicy\<close> keep it.
\<close>

subsection \<open>Seen alone\<close>

text \<open>Seen alone, no other request commits anything while a call waits for a lock.\<close>

definition alone :: "'e rotator \<Rightarrow> bool" where
  "alone R \<longleftrightarrow> r_wait R = (\<lambda>sw. sw)"

text \<open>Nothing changed but the services behind the process.\<close>

definition beyond :: "'e backend \<Rightarrow> 'e backend \<Rightarrow> bool" where
  "beyond w w' \<longleftrightarrow> w' = w\<lparr>x_ext := x_ext w'\<rparr>"

lemma beyond_refl [simp]: "beyond w w"
  by (simp add: beyond_def)

lemma beyond_sel:
  assumes "beyond w w'"
  shows "x_keys w' = x_keys w" "x_tenants w' = x_tenants w" "x_buckets w' = x_buckets w" "x_vault w' = x_vault w"
    "x_providers w' = x_providers w"
  by (subst assms[unfolded beyond_def], simp)+

lemma PublishRevocations_beyond: "PublishRevocations R now issuer dels w = (r, w') \<Longrightarrow> beyond w w'"
  unfolding beyond_def by (rule PublishRevocations_frame)

lemma replace_beyond:
  assumes "\<And>cur x y. next cur w = (x, y) \<Longrightarrow> beyond w y"
    and "replace auds sel next checkR (s, w) = (r, s', w')"
  shows "beyond w w'"
proof (cases "holdWrites s")
  case (Inl e)
  with assms(2) show ?thesis by (simp add: replace_def)
next
  case (Inr u)
  obtain x y where "next (currentOf sel auds s) w = (x, y)" by force
  with assms Inr show ?thesis by (auto simp: replace_def split: sum.splits)
qed

lemma rotateNext_beyond:
  assumes "rotateNext R now ent tenant bucket actions keys issuer current w = (x, w')"
  shows "beyond w w'"
  using assms
  by (auto simp: rotateNext_def Let_def split: sum.splits prod.splits) (erule PublishRevocations_beyond)+

lemma revokeNext_beyond:
  assumes "revokeNext R now keys issuer current w = (x, w')"
  shows "beyond w w'"
  using assms
  by (auto simp: revokeNext_def split: sum.splits prod.splits) (erule PublishRevocations_beyond)+

lemma Rotate_beyond:
  assumes "alone R" and "Rotate R now ent tenant bucket actions (s, w) = (r, s', w')"
  shows "beyond w w'"
proof (cases "load R tenant (sort (map fst actions)) w")
  case (Inl e)
  with assms show ?thesis by (simp add: Rotate_def)
next
  case (Inr x)
  obtain keys i where x: "x = (keys, i)" by force
  show ?thesis
  proof (cases i)
    case None
    with assms Inr x show ?thesis by (simp add: Rotate_def)
  next
    case (Some issuer)
    with assms Inr x have run: "ReplaceOver (audiences keys) bucket
        (rotateNext R now ent tenant bucket actions keys issuer) (s, w) = (r, s', w')"
      by (simp add: Rotate_def alone_def)
    show ?thesis
    proof (cases "bucket = Undef")
      case False
      with run have "replace (audiences keys) (\<lambda>d. d_Subject d = bucket)
          (rotateNext R now ent tenant bucket actions keys issuer)
          (CheckReplacementOver (audiences keys) bucket) (s, w) = (r, s', w')"
        by (simp add: ReplaceOver_def)
      then show ?thesis by (rule replace_beyond[rotated]) (rule rotateNext_beyond)
    qed (use run in \<open>simp add: ReplaceOver_def\<close>)
  qed
qed

lemma Rotate_failed:
  assumes "alone R" and "Rotate R now ent tenant bucket actions (s, w) = (Inl e, s', w')"
  shows "s' = s"
  using assms
  by (auto simp: Rotate_def alone_def split: sum.splits prod.splits option.splits elim: ReplaceOver_cases)

subsection \<open>What a rotation that succeeds leaves each key with\<close>

text \<open>The delegations an audience holds over a bucket, and their commands.\<close>

definition over :: "dlg_store \<Rightarrow> did \<Rightarrow> did \<Rightarrow> dlg set" where
  "over s aud b = {d \<in> authority s aud. d_Subject d = b}"

abbreviation commandsOver :: "dlg_store \<Rightarrow> did \<Rightarrow> did \<Rightarrow> command set" where
  "commandsOver s aud b \<equiv> d_Command ` over s aud b"

definition boundIDs :: "access_keys \<Rightarrow> did \<Rightarrow> string set \<Rightarrow> did set" where
  "boundIDs ks ten ps = k_ID ` {k. boundTo ks ten ps k}"

lemma boundIDs_iff:
  assumes "map_of ks (k_ID key) = Some key"
  shows "k_ID key \<in> boundIDs ks ten ps \<longleftrightarrow> boundTo ks ten ps key"
proof
  assume "k_ID key \<in> boundIDs ks ten ps"
  then obtain k where k: "boundTo ks ten ps k" and id: "k_ID key = k_ID k" by (auto simp: boundIDs_def)
  then have "map_of ks (k_ID k) = Some k" by (simp add: boundTo_def)
  with assms id have "k = key" by simp
  with k show "boundTo ks ten ps key" by simp
qed (auto simp: boundIDs_def)

lemma audiences_boundIDs:
  assumes "\<And>k. k \<in> set keys \<longleftrightarrow> boundTo ks ten ps k"
  shows "set (audiences keys) = boundIDs ks ten ps"
  using assms by (auto simp: audiences_def boundIDs_def)

text \<open>
  Only keys bound to one of the principals change, only over the bucket, and there to one
  delegation per command.
\<close>

lemma Rotate_done:
  assumes dl: "delegate_ok (r_ucan R) V" and ks: "keys_ok (x_keys w)" and "alone R" and sub: "\<forall>a. authority s a \<subseteq> V"
    and run: "Rotate R now ent tenant bucket actions (s, w) = (Inr (), s', w')"
  shows "\<exists>G. (\<forall>a. authority s' a = (if a \<in> boundIDs (x_keys w) tenant (set (map fst actions))
       then {d \<in> authority s a. d_Subject d \<noteq> bucket} \<union> G a else authority s a)) \<and>
    (\<forall>a \<in> boundIDs (x_keys w) tenant (set (map fst actions)). G a \<subseteq> V \<and> (\<forall>d \<in> G a. d_Subject d = bucket)) \<and>
    (\<forall>key. boundTo (x_keys w) tenant (set (map fst actions)) key \<longrightarrow>
       d_Command ` G (k_ID key) = set (commandsFor (actionsOf actions key)))"
proof (cases "\<exists>k. boundTo (x_keys w) tenant (set (map fst actions)) k")
  case False
  obtain keys i where l: "load R tenant (sort (map fst actions)) w = Inr (keys, i)"
    using run by (auto simp: Rotate_def split: sum.splits)
  note k = load_Inr[OF ks l]
  have "keys = []" using k(2) False by (cases keys) auto
  moreover have "i = None" using l \<open>keys = []\<close> by (auto simp: load_def Let_def on_ok_Inr_iff split: if_split_asm)
  ultimately have "s' = s" using run l by (simp add: Rotate_def)
  with False show ?thesis by (auto simp: boundIDs_def)
next
  case True
  then obtain k0 where k0: "boundTo (x_keys w) tenant (set (map fst actions)) k0" by blast
  have wait: "r_wait R (s, w) = (s, w)" using assms(3) by (simp add: alone_def)
  from ks k0 wait run show ?thesis
  proof (cases rule: Rotate_cases)
    case (rotated issuer keys nxt)
    note wr = rotateNext_writes[OF dl ks sub rotated(3,6,5)]
    have ids: "boundIDs (x_keys w) tenant (set (map fst actions)) = set (audiences keys)"
      by (rule audiences_boundIDs[symmetric]) (rule rotated(4))
    have "d_Command ` {d. Some d \<in> set (nxt (k_ID key))} = set (commandsFor (actionsOf actions key))"
      if bound: "boundTo (x_keys w) tenant (set (map fst actions)) key" for key
    proof -
      have "key \<in> set keys" using rotated(4) bound by simp
      moreover have "remains (x_keys w) tenant key" using bound by (simp add: remains_def boundTo_def)
      ultimately obtain ds where ds: "nxt (k_ID key) = map Some ds"
        "map d_Command ds = commandsFor (actionsOf actions key)"
        using wr(3) by blast
      have "{d. Some d \<in> set (nxt (k_ID key))} = set ds" unfolding ds(1) by auto
      then show ?thesis by (simp only: set_map[symmetric] ds(2))
    qed
    then show ?thesis
      using wr(1)[folded rotated(7)] wr(4) rotated(6) unfolding ids
      by (intro exI[of _ "\<lambda>a. {d. Some d \<in> set (nxt a)}"]) (auto simp: fits_def)
  qed simp
qed

lemma Rotate_over:
  assumes dl: "delegate_ok (r_ucan R) V" and ks: "keys_ok (x_keys w)" and "alone R" and sub: "\<forall>a. authority s a \<subseteq> V"
    and run: "Rotate R now ent tenant bucket actions (s, w) = (Inr (), s', w')"
  shows "authority s' a \<subseteq> V"
    and "b \<noteq> bucket \<or> a \<notin> boundIDs (x_keys w) tenant (set (map fst actions)) \<Longrightarrow> over s' a b = over s a b"
    and "boundTo (x_keys w) tenant (set (map fst actions)) key \<Longrightarrow>
      commandsOver s' (k_ID key) bucket = set (commandsFor (actionsOf actions key))"
proof -
  let ?ids = "boundIDs (x_keys w) tenant (set (map fst actions))"
  obtain G where "\<forall>a. authority s' a = (if a \<in> ?ids then {d \<in> authority s a. d_Subject d \<noteq> bucket} \<union> G a else authority s a)"
    "\<forall>a \<in> ?ids. G a \<subseteq> V \<and> (\<forall>d \<in> G a. d_Subject d = bucket)"
    "\<forall>key. boundTo (x_keys w) tenant (set (map fst actions)) key \<longrightarrow>
       d_Command ` G (k_ID key) = set (commandsFor (actionsOf actions key))"
    using Rotate_done[OF assms] by (elim exE conjE)
  note G = this[rule_format]
  show "authority s' a \<subseteq> V"
  proof (cases "a \<in> ?ids")
    case True
    show ?thesis unfolding G(1) if_P[OF True] using G(2)[OF True] sub by blast
  next
    case False
    show ?thesis unfolding G(1) if_not_P[OF False] using sub by blast
  qed
  show "over s' a b = over s a b" if "b \<noteq> bucket \<or> a \<notin> ?ids"
  proof (cases "a \<in> ?ids")
    case True
    with that have "b \<noteq> bucket" by simp
    then show ?thesis unfolding over_def G(1) if_P[OF True] using G(2)[OF True] by blast
  next
    case False
    show ?thesis unfolding over_def G(1) if_not_P[OF False] by (rule refl)
  qed
  show "commandsOver s' (k_ID key) bucket = set (commandsFor (actionsOf actions key))"
    if "boundTo (x_keys w) tenant (set (map fst actions)) key"
  proof -
    have id: "k_ID key \<in> ?ids" using that by (auto simp: boundIDs_def)
    have "over s' (k_ID key) bucket = G (k_ID key)" unfolding over_def G(1) if_P[OF id] using G(2)[OF id] by blast
    with G(3)[OF that] show ?thesis by simp
  qed
qed

subsection \<open>The invariant\<close>

text \<open>The policy of a bucket as a tenant's: the policy another tenant wrote is none of it.\<close>

definition policyOf :: "policies \<Rightarrow> did \<Rightarrow> did \<Rightarrow> policy_document option" where
  "policyOf pol ten b =
     (case map_of pol b of None \<Rightarrow> None | Some e \<Rightarrow> if e_tenant e = ten then Some (pol_Policy (e_rec e)) else None)"

abbreviation granted :: "policy_lib \<Rightarrow> policy_document option \<Rightarrow> string \<Rightarrow> command set" where
  "granted L doc p \<equiv> set (commandsFor (Effective L doc p))"

text \<open>
  Every key bound to a principal holds, over every bucket, commands that stand in a relation
  to those the bucket's policy grants the principal: no more than them (\<open>within\<close>), or
  exactly them (\<open>in_step\<close>).
\<close>

definition tracks :: "(command set \<Rightarrow> command set \<Rightarrow> bool) \<Rightarrow> policy_lib \<Rightarrow> 'e world \<Rightarrow> bool" where
  "tracks rel L st \<longleftrightarrow>
     (let (ps, pol, ds, w) = st in
      \<forall>key p b. map_of (x_keys w) (k_ID key) = Some key \<longrightarrow> k_Principal key = Some p \<longrightarrow>
        rel (commandsOver ds (k_ID key) b) (granted L (policyOf pol (k_Tenant key) b) p))"

abbreviation within :: "policy_lib \<Rightarrow> 'e world \<Rightarrow> bool" where "within \<equiv> tracks (\<subseteq>)"
abbreviation in_step :: "policy_lib \<Rightarrow> 'e world \<Rightarrow> bool" where "in_step \<equiv> tracks (=)"

lemma in_step_within: "in_step L st \<Longrightarrow> within L st"
  by (fastforce simp: tracks_def)

text \<open>
  What lies outside, as documented: ucantone signs what it is asked, delegations are
  content-addressed within \<open>V\<close>, \<open>All\<close> tests for the wildcard, and the normal form of a document
  exists and means what the document does.
\<close>

definition normalizes :: "policy_lib \<Rightarrow> bool" where
  "normalizes L \<longleftrightarrow> (\<forall>d. \<exists>d'. Normalize L d = Some d' \<and> (\<forall>p. Effective L (Some d') p = Effective L (Some d) p))"

definition env_ok :: "policy_lib \<Rightarrow> 'e rotator \<Rightarrow> dlg set \<Rightarrow> bool" where
  "env_ok L R V \<longleftrightarrow> delegate_ok (r_ucan R) V \<and> alone R \<and> normalizes L \<and> all_is_wildcard L"

text \<open>
  What holds of the stores at any time: each is well-formed, every policy is of a bucket
  there is, written for the bucket's tenant, and every key bound to a principal to one that
  is live.
\<close>

definition owned :: "policies \<Rightarrow> buckets \<Rightarrow> bool" where
  "owned pol bs \<longleftrightarrow> (\<forall>b e. map_of pol b = Some e \<longrightarrow> (\<exists>bk. map_of bs b = Some bk \<and> b_Tenant bk = e_tenant e))"

definition bound_live :: "access_keys \<Rightarrow> principals \<Rightarrow> bool" where
  "bound_live ks ps \<longleftrightarrow>
     (\<forall>k key p. map_of ks k = Some key \<longrightarrow> k_Principal key = Some p \<longrightarrow> live ps (k_Tenant key, p))"

definition world_ok :: "policy_lib \<Rightarrow> dlg set \<Rightarrow> 'e world \<Rightarrow> bool" where
  "world_ok L V st \<longleftrightarrow>
     (let (ps, pol, ds, w) = st in
      wf_gomap (p_rows ps) \<and> policies_ok L pol \<and> owned pol (x_buckets w) \<and> keys_ok (x_keys w) \<and>
      bound_live (x_keys w) ps \<and> (\<forall>a. authority ds a \<subseteq> V))"

lemma env_okD:
  "env_ok L R V \<Longrightarrow> delegate_ok (r_ucan R) V" "env_ok L R V \<Longrightarrow> alone R"
  "env_ok L R V \<Longrightarrow> normalizes L" "env_ok L R V \<Longrightarrow> all_is_wildcard L"
  by (simp_all add: env_ok_def)

lemma world_okD:
  assumes "world_ok L V (ps, pol, ds, w)"
  shows "wf_gomap (p_rows ps)" "policies_ok L pol" "owned pol (x_buckets w)" "keys_ok (x_keys w)"
    "\<forall>a. authority ds a \<subseteq> V" "bound_live (x_keys w) ps"
  using assms by (simp_all add: world_ok_def)

lemma world_okI:
  assumes "wf_gomap (p_rows ps)" "policies_ok L pol" "owned pol (x_buckets w)" "keys_ok (x_keys w)"
    "\<And>a. authority ds a \<subseteq> V" "bound_live (x_keys w) ps"
  shows "world_ok L V (ps, pol, ds, w)"
  using assms by (simp add: world_ok_def)

lemma tracksD:
  "tracks rel L (ps, pol, ds, w) \<Longrightarrow> map_of (x_keys w) (k_ID key) = Some key \<Longrightarrow> k_Principal key = Some p \<Longrightarrow>
     rel (commandsOver ds (k_ID key) b) (granted L (policyOf pol (k_Tenant key) b) p)"
  by (simp add: tracks_def)

lemma tracksI:
  assumes "\<And>key p b. map_of (x_keys w) (k_ID key) = Some key \<Longrightarrow> k_Principal key = Some p \<Longrightarrow>
     rel (commandsOver ds (k_ID key) b) (granted L (policyOf pol (k_Tenant key) b) p)"
  shows "tracks rel L (ps, pol, ds, w)"
  using assms by (simp add: tracks_def)

lemma live_rows: "p_rows ps' = p_rows ps \<Longrightarrow> live ps' = live ps"
  by (simp add: live_def fun_eq_iff)

lemma ListIDs_rows: "p_rows ps' = p_rows ps \<Longrightarrow> ListIDsByTenant ps' = ListIDsByTenant ps"
  by (simp add: ListIDsByTenant_def liveOf_def fun_eq_iff)

lemma ListIDs_live:
  assumes "wf_gomap (p_rows ps)"
  shows "p \<in> set (ListIDsByTenant ps ten) \<longleftrightarrow> live ps (ten, p)"
proof -
  have "p \<in> set (ListIDsByTenant ps ten) \<longleftrightarrow> (\<exists>e. ((ten, p), e) \<in> set (p_rows ps) \<and> \<not> p_deleted e)"
    by (force simp: ListIDsByTenant_def liveOf_def)
  then show ?thesis by (auto simp: gomap_in_iff[OF assms] live_def split: option.splits)
qed

text \<open>A world that differs in nothing the invariants read.\<close>

lemma same_world:
  assumes "p_rows ps' = p_rows ps" and "beyond w w'"
  shows "tracks rel L (ps', pol, ds, w') \<longleftrightarrow> tracks rel L (ps, pol, ds, w)"
    and "world_ok L V (ps', pol, ds, w') \<longleftrightarrow> world_ok L V (ps, pol, ds, w)"
  using beyond_sel[OF assms(2)] assms(1) by (simp_all add: tracks_def world_ok_def bound_live_def live_rows[OF assms(1)])

subsection \<open>A rotation moves the keys from one policy to the next\<close>

text \<open>
  From one policy of a tenant's bucket to the next: over other buckets, and for other tenants'
  keys, nothing changes, and the keys of the tenant's principals that stood in the relation to
  what the old policy grants stand in it to what the new one grants.
\<close>

definition regranted ::
  "(command set \<Rightarrow> command set \<Rightarrow> bool) \<Rightarrow> policy_lib \<Rightarrow> did \<Rightarrow> did \<Rightarrow> policy_document option \<Rightarrow>
   policy_document option \<Rightarrow> (string \<Rightarrow> bool) \<Rightarrow> access_keys \<Rightarrow> dlg_store \<Rightarrow> dlg_store \<Rightarrow> bool" where
  "regranted rel L ten b old new principals ks ds ds' \<longleftrightarrow>
     (\<forall>a b'. b' \<noteq> b \<longrightarrow> over ds' a b' = over ds a b') \<and>
     (\<forall>key. map_of ks (k_ID key) = Some key \<longrightarrow> k_Tenant key \<noteq> ten \<longrightarrow>
        over ds' (k_ID key) b = over ds (k_ID key) b) \<and>
     (\<forall>key p. map_of ks (k_ID key) = Some key \<longrightarrow> k_Tenant key = ten \<longrightarrow> k_Principal key = Some p \<longrightarrow>
        principals p \<longrightarrow> rel (commandsOver ds (k_ID key) b) (granted L old p) \<longrightarrow>
        rel (commandsOver ds' (k_ID key) b) (granted L new p))"

definition rotation ::
  "(command set \<Rightarrow> command set \<Rightarrow> bool) \<Rightarrow> policy_lib \<Rightarrow> dlg set \<Rightarrow> did \<Rightarrow> did \<Rightarrow> policy_document option \<Rightarrow>
   policy_document option \<Rightarrow> principals \<times> dlg_store \<times> 'e backend \<Rightarrow>
   (err + unit) \<times> principals \<times> dlg_store \<times> 'e backend \<Rightarrow> bool" where
  "rotation rel L V ten b old new s t \<longleftrightarrow>
     (let (ps, ds, w) = s; (r, ps', ds', w') = t in
      p_rows ps' = p_rows ps \<and> beyond w w' \<and> (\<forall>a. authority ds' a \<subseteq> V) \<and>
      (if r = Inr () then regranted rel L ten b old new (\<lambda>p. live ps (ten, p)) (x_keys w) ds ds' else ds' = ds))"

lemma regranted_same:
  assumes "\<And>p. principals p \<Longrightarrow> Effective L old p = Effective L new p"
  shows "regranted rel L ten b old new principals ks ds ds"
  using assms by (auto simp: regranted_def)

lemma actionsOf_map:
  "k_Principal key = Some p \<Longrightarrow> p \<in> set ps \<Longrightarrow> actionsOf (map (\<lambda>p. (p, f p)) ps) key = f p"
  by (simp add: actionsOf_def map_of_map_restrict)

lemma Rotate_regranted:
  assumes env: "env_ok L R V" and ks: "keys_ok (x_keys w)" and sub: "\<forall>a. authority ds a \<subseteq> V"
    and refl: "reflp rel"
    and run: "Rotate R now ent ten b (map (\<lambda>p. (p, Effective L new p)) affected) (ds, w) = (Inr (), ds', w')"
    and rest: "\<And>p. principals p \<Longrightarrow> p \<notin> set affected \<Longrightarrow> Effective L old p = Effective L new p"
  shows "regranted rel L ten b old new principals (x_keys w) ds ds'"
  unfolding regranted_def
proof (intro conjI allI impI)
  let ?actions = "map (\<lambda>p. (p, Effective L new p)) affected"
  have fst: "set (map fst ?actions) = set affected" by (simp add: comp_def)
  note done' = Rotate_over[OF env_okD(1)[OF env] ks env_okD(2)[OF env] sub run, unfolded fst]
  show "over ds' a b' = over ds a b'" if "b' \<noteq> b" for a b'
    by (rule done'(2)) (simp add: that)
  show "over ds' (k_ID key) b = over ds (k_ID key) b"
    if "map_of (x_keys w) (k_ID key) = Some key" "k_Tenant key \<noteq> ten" for key
    by (rule done'(2)) (simp add: boundIDs_iff[OF that(1)] boundTo_def that(2))
  fix key p
  assume k: "map_of (x_keys w) (k_ID key) = Some key" "k_Tenant key = ten" "k_Principal key = Some p" "principals p"
    and before: "rel (commandsOver ds (k_ID key) b) (granted L old p)"
  have bound: "boundTo (x_keys w) ten (set affected) key \<longleftrightarrow> p \<in> set affected"
    using k(1-3) by (simp add: boundTo_def)
  show "rel (commandsOver ds' (k_ID key) b) (granted L new p)"
  proof (cases "p \<in> set affected")
    case True
    with bound have "boundTo (x_keys w) ten (set affected) key" by simp
    from done'(3)[OF this] show ?thesis by (simp add: actionsOf_map[OF k(3) True] reflpD[OF refl])
  next
    case False
    with bound have "over ds' (k_ID key) b = over ds (k_ID key) b"
      by (intro done'(2)) (simp add: boundIDs_iff[OF k(1)])
    with before rest[OF k(4) False] show ?thesis by simp
  qed
qed

lemma withRows_onRest:
  assumes "withRows rs (onRest f) (ps, w) = (r, ps', w')"
  shows "p_rows ps' = p_rows ps \<and> ((\<exists>e. r = Inl e \<and> w' = w) \<or> f w = (r, w'))"
proof (cases "hold rs ps")
  case (Pair x ps1)
  show ?thesis
  proof (cases x)
    case (Inl e)
    with assms Pair have "r = Inl e" "ps' = ps" "w' = w" by (simp_all add: withRows_def)
    then show ?thesis by simp
  next
    case (Inr u)
    then have "p_rows ps1 = p_rows ps" using hold_Inr(1)[of rs ps ps1] Pair by simp
    with assms Pair Inr show ?thesis by (auto simp: withRows_def onRest_def split: prod.splits)
  qed
qed

lemma WithLock_onRest:
  assumes "WithLock ten ids (onRest f) (ps, w) = (r, ps', w')"
  shows "p_rows ps' = p_rows ps \<and> ((\<exists>e. r = Inl e \<and> w' = w) \<or> f w = (r, w'))"
proof (cases "length ids = 0")
  case True
  with assms show ?thesis by (auto simp: WithLock_def onRest_def split: prod.splits)
qed (use assms withRows_onRest in \<open>simp add: WithLock_def\<close>)

lemma rotateChanged_rotation:
  assumes env: "env_ok (v_policy S) (v_rotator S) V" and ok: "wf_gomap (p_rows ps)" "keys_ok (x_keys w)"
      "\<forall>a. authority ds a \<subseteq> V" and refl: "reflp rel"
    and run: "rotateChanged S now ent ten b old new (ListIDsByTenant ps ten) (ps, ds, w) = t"
  shows "rotation rel (v_policy S) V ten b old new (ps, ds, w) t"
proof -
  let ?L = "v_policy S"
  let ?aff = "Changed ?L old new (ListIDsByTenant ps ten)"
  let ?R = "Rotate (v_rotator S) now ent ten b (map (\<lambda>p. (p, Effective ?L new p)) ?aff)"
  obtain r ps' ds' w' where t: "t = (r, ps', ds', w')" by (rule prod_cases4)
  have rest: "Effective ?L old p = Effective ?L new p" if "live ps (ten, p)" "p \<notin> set ?aff" for p
  proof -
    have "p \<in> set (ListIDsByTenant ps ten)" using that(1) by (simp add: ListIDs_live[OF ok(1)])
    from in_Changed_iff[OF this] that(2) show ?thesis by blast
  qed
  show ?thesis
  proof (cases "length ?aff = 0")
    case True
    with run t have "r = Inr ()" "(ps', ds', w') = (ps, ds, w)" by (simp_all add: rotateChanged_def)
    with t ok(3) True rest show ?thesis by (simp add: rotation_def regranted_same)
  next
    case False
    with run t have "WithLock ten ?aff (onRest ?R) (ps, ds, w) = (r, ps', ds', w')"
      by (simp add: rotateChanged_def Let_def)
    from WithLock_onRest[OF this] have rows: "p_rows ps' = p_rows ps"
      and c: "(\<exists>e. r = Inl e \<and> (ds', w') = (ds, w)) \<or> ?R (ds, w) = (r, ds', w')"
      by blast+
    from c show ?thesis
    proof (elim disjE exE conjE)
      fix e
      assume "r = Inl e" "(ds', w') = (ds, w)"
      with t rows ok(3) show ?thesis by (simp add: rotation_def)
    next
      assume R: "?R (ds, w) = (r, ds', w')"
      have bw: "beyond w w'" by (rule Rotate_beyond[OF env_okD(2)[OF env] R])
      show ?thesis
      proof (cases r)
        case (Inl e)
        with R have "ds' = ds" using Rotate_failed[OF env_okD(2)[OF env]] by blast
        with t rows bw ok(3) Inl show ?thesis by (simp add: rotation_def)
      next
        case (Inr u)
        with R have R': "?R (ds, w) = (Inr (), ds', w')" by simp
        have "regranted rel ?L ten b old new (\<lambda>p. live ps (ten, p)) (x_keys w) ds ds'"
          by (rule Rotate_regranted[OF env ok(2,3) refl R' rest])
        with t rows bw Inr Rotate_over(1)[OF env_okD(1)[OF env] ok(2) env_okD(2)[OF env] ok(3) R'] show ?thesis
          by (simp add: rotation_def)
      qed
    qed
  qed
qed

lemma onWrite_rotation:
  assumes env: "env_ok (v_policy S) (v_rotator S) V" and ok: "wf_gomap (p_rows ps)" "keys_ok (x_keys w)"
      "\<forall>a. authority ds a \<subseteq> V" and refl: "reflp rel"
    and run: "onWrite S now ent ten b doc old (ps, ds, w) = t"
  shows "rotation rel (v_policy S) V ten b (map_option pol_Policy old) (Some doc) (ps, ds, w) t"
proof (cases "list_all (\<lambda>p. p \<in> set (ListIDsByTenant ps ten)) (fst (Named (v_policy S) doc))")
  case True
  with run have "rotateChanged S now ent ten b (map_option pol_Policy old) (Some doc) (ListIDsByTenant ps ten) (ps, ds, w) = t"
    by (simp add: onWrite_def)
  from rotateChanged_rotation[OF env ok refl this] show ?thesis .
next
  case False
  with run have "t = (Inl (Store ErrInvalidArgument), ps, ds, w)" by (auto simp: onWrite_def)
  with ok(3) show ?thesis by (simp add: rotation_def)
qed

subsection \<open>Steps of the policy store\<close>

lemma policyOf_update:
  "policyOf (AList.update b e pol) t b' =
     (if b' = b then if e_tenant e = t then Some (pol_Policy (e_rec e)) else None else policyOf pol t b')"
  by (simp add: policyOf_def update_conv')

lemma policyOf_delete: "policyOf (AList.delete b pol) t b' = (if b' = b then None else policyOf pol t b')"
  by (simp add: policyOf_def)

text \<open>The bucket, if there is one, is the tenant's.\<close>

definition tenantBucket :: "buckets \<Rightarrow> did \<Rightarrow> did \<Rightarrow> bool" where
  "tenantBucket bs b ten \<longleftrightarrow> (case map_of bs b of None \<Rightarrow> True | Some bk \<Rightarrow> b_Tenant bk = ten)"

lemma owned_tenant:
  assumes "owned pol bs" and "tenantBucket bs b ten" and "map_of pol b = Some e"
  shows "e_tenant e = ten"
proof -
  obtain bk where "map_of bs b = Some bk" "b_Tenant bk = e_tenant e"
    using assms(1,3) unfolding owned_def by blast
  with assms(2) show ?thesis by (simp add: tenantBucket_def)
qed

lemma owned_delete: "owned pol bs \<Longrightarrow> owned (AList.delete b pol) bs"
  by (simp add: owned_def)

lemma policyOf_owned:
  assumes "\<And>e. map_of pol b = Some e \<Longrightarrow> e_tenant e = ten"
  shows "policyOf pol ten b = map_option pol_Policy (stored pol b)" and "t \<noteq> ten \<Longrightarrow> policyOf pol t b = None"
  using assms by (auto simp: policyOf_def stored_def split: option.splits)

lemma tracks_regranted:
  assumes tr: "tracks rel L (ps, pol, ds, w)" and bl: "bound_live (x_keys w) ps" and rows: "p_rows ps' = p_rows ps" and bw: "beyond w w'"
    and rg: "regranted rel L ten b (policyOf pol ten b) new (\<lambda>p. live ps (ten, p)) (x_keys w) ds ds'"
    and other: "\<And>t b'. t \<noteq> ten \<or> b' \<noteq> b \<Longrightarrow> policyOf pol' t b' = policyOf pol t b'"
    and new: "\<And>p. Effective L (policyOf pol' ten b) p = Effective L new p"
  shows "tracks rel L (ps', pol', ds', w')"
proof (rule tracksI, unfold beyond_sel(1)[OF bw])
  fix key p b'
  assume k: "map_of (x_keys w) (k_ID key) = Some key" "k_Principal key = Some p"
  then have "live ps (k_Tenant key, p)" using bl by (simp add: bound_live_def)
  note k = this k
  note before = tracksD[OF tr k(2,3), of b']
  show "rel (commandsOver ds' (k_ID key) b') (granted L (policyOf pol' (k_Tenant key) b') p)"
  proof (cases "b' = b \<and> k_Tenant key = ten")
    case True
    then have b: "b' = b" and t: "k_Tenant key = ten" by simp_all
    from rg k before show ?thesis unfolding b t new by (simp add: regranted_def t)
  next
    case False
    then have "k_Tenant key \<noteq> ten \<or> b' \<noteq> b" by blast
    moreover have "over ds' (k_ID key) b' = over ds (k_ID key) b'"
      using rg False k(2) by (cases "b' = b") (simp_all add: regranted_def)
    ultimately show ?thesis using before by (simp add: other)
  qed
qed

lemma Put_tracks:
  assumes env: "env_ok (v_policy S) (v_rotator S) V" and ok: "world_ok (v_policy S) V (ps, pol, ds, w)"
    and refl: "reflp rel" and bucket: "tenantBucket (x_buckets w) b ten"
    and i: "i_Bucket i = b" "i_Tenant i = ten" "i_Policy i = doc"
    and put: "policy_Put (v_policy S) (Some (hasBucket w)) now i (Some (onWrite S now ent ten b doc)) (pol, ps, ds, w) =
      (r, pol', ps', ds', w')"
  shows "world_ok (v_policy S) V (ps', pol', ds', w') \<and>
    (tracks rel (v_policy S) (ps, pol, ds, w) \<longrightarrow> tracks rel (v_policy S) (ps', pol', ds', w')) \<and>
    (\<forall>tag. r = Inr tag \<longrightarrow> (\<exists>doc'. Normalize (v_policy S) doc = Some doc' \<and> policyOf pol' ten b = Some doc')) \<and>
    (\<forall>e. r = Inl e \<longrightarrow> pol' = pol)"
proof -
  let ?L = "v_policy S"
  note wk = world_okD[OF ok]
  have mine: "\<And>e. map_of pol b = Some e \<Longrightarrow> e_tenant e = ten" by (rule owned_tenant[OF wk(3) bucket])
  obtain q ps1 ds1 w1 where cb: "onWrite S now ent ten b doc (stored pol b) (ps, ds, w) = (q, ps1, ds1, w1)"
    by (rule prod_cases4[of "onWrite S now ent ten b doc (stored pol b) (ps, ds, w)"])
  note rot = onWrite_rotation[OF env wk(1,4,5) refl cb, unfolded rotation_def Let_def prod.case]
  then have rows: "p_rows ps1 = p_rows ps" and bw: "beyond w w1" and sub: "\<forall>a. authority ds1 a \<subseteq> V" by simp_all
  obtain doc' where n: "Normalize ?L doc = Some doc'"
    and eff: "\<And>p. Effective ?L (Some doc') p = Effective ?L (Some doc) p"
    using env_okD(3)[OF env] unfolding normalizes_def by blast
  have pok: "policies_ok ?L pol'" by (rule policies_ok_Put[OF wk(2) put])
  consider (untouched) e where "r = Inl e" "(ps', pol', ds', w') = (ps, pol, ds, w)"
    | (failed) e where "r = Inl e" "q \<noteq> Inr ()" "(ps', pol', ds', w') = (ps1, pol, ds1, w1)"
    | (written) tag where "r = Inr tag" "q = Inr ()" "(ps', ds', w') = (ps1, ds1, w1)" "hasBucket w b"
        "pol' = AList.update b (policyEntry ?L now i doc') pol"
    using put cb n i by (auto simp: policy_Put_def split: if_split_asm sum.splits)
  then show ?thesis
  proof cases
    case untouched
    with ok show ?thesis by simp
  next
    case failed
    with rot have "ds1 = ds" by simp
    with failed ok same_world[OF rows bw] show ?thesis by simp
  next
    case written
    have pol': "policyOf pol' t b' = (if b' = b then if t = ten then Some doc' else None else policyOf pol t b')" for t b'
      by (auto simp: written(5) policyOf_update i)
    have "owned pol' (x_buckets w)"
      using wk(3) written(4) bucket by (auto simp: owned_def written(5) update_conv' hasBucket_def bucket_Has_def i tenantBucket_def)
    then have "world_ok ?L V (ps1, pol', ds1, w1)"
      using wk(1,4,6) pok sub rows by (simp add: world_ok_def bound_live_def beyond_sel[OF bw] live_rows[OF rows])
    moreover have "tracks rel ?L (ps1, pol', ds1, w1)" if tr: "tracks rel ?L (ps, pol, ds, w)"
    proof (rule tracks_regranted[OF tr wk(6) rows bw])
      show "regranted rel ?L ten b (policyOf pol ten b) (Some doc) (\<lambda>p. live ps (ten, p)) (x_keys w) ds ds1"
        using rot written(2) by (simp add: policyOf_owned(1)[OF mine])
    qed (auto simp: pol' eff policyOf_owned(2)[OF mine])
    moreover have "policyOf pol' ten b = Some doc'" by (simp add: pol')
    ultimately show ?thesis using written(1-3) n by simp
  qed
qed

lemma Delete_tracks:
  assumes env: "env_ok (v_policy S) (v_rotator S) V" and ok: "world_ok (v_policy S) V (ps, pol, ds, w)"
    and refl: "reflp rel" and bucket: "tenantBucket (x_buckets w) b ten"
    and del: "policy_Delete b tag (Some (\<lambda>old s. rotateChanged S now ent ten b (Some (pol_Policy old)) None
       (ListIDsByTenant (fst s) ten) s)) (pol, ps, ds, w) = (r, pol', ps', ds', w')"
  shows "world_ok (v_policy S) V (ps', pol', ds', w') \<and>
    (tracks rel (v_policy S) (ps, pol, ds, w) \<longrightarrow> tracks rel (v_policy S) (ps', pol', ds', w')) \<and>
    (r = Inr () \<longrightarrow> map_of pol' b = None) \<and> (r \<noteq> Inr () \<longrightarrow> pol' = pol)"
proof (cases "map_of pol b")
  case None
  with del have "r = Inl (Store ErrRecordNotFound)" "(ps', pol', ds', w') = (ps, pol, ds, w)"
    by (simp_all add: policy_Delete_def)
  with ok show ?thesis by simp
next
  case (Some e)
  let ?L = "v_policy S"
  note wk = world_okD[OF ok]
  have mine: "\<And>e. map_of pol b = Some e \<Longrightarrow> e_tenant e = ten" by (rule owned_tenant[OF wk(3) bucket])
  have old: "policyOf pol ten b = Some (pol_Policy (e_rec e))" using Some mine by (simp add: policyOf_def)
  let ?run = "rotateChanged S now ent ten b (Some (pol_Policy (e_rec e))) None (ListIDsByTenant ps ten) (ps, ds, w)"
  obtain q ps1 ds1 w1 where cb: "?run = (q, ps1, ds1, w1)" by (rule prod_cases4[of ?run])
  note rot = rotateChanged_rotation[OF env wk(1,4,5) refl cb, unfolded rotation_def Let_def prod.case]
  then have rows: "p_rows ps1 = p_rows ps" and bw: "beyond w w1" and sub: "\<forall>a. authority ds1 a \<subseteq> V" by simp_all
  consider (untouched) "r = Inl (Store ErrPreconditionFailed)" "(ps', pol', ds', w') = (ps, pol, ds, w)"
    | (failed) x where "r = Inl x" "q = Inl x" "(ps', pol', ds', w') = (ps1, pol, ds1, w1)"
    | (removed) "r = Inr ()" "q = Inr ()" "(ps', pol', ds', w') = (ps1, AList.delete b pol, ds1, w1)"
    using del Some cb by (cases q) (auto simp: policy_Delete_def split: if_split_asm)
  then show ?thesis
  proof cases
    case untouched
    with ok show ?thesis by simp
  next
    case failed
    with rot have "ds1 = ds" by simp
    with failed ok same_world[OF rows bw] show ?thesis by simp
  next
    case removed
    have "world_ok ?L V (ps1, AList.delete b pol, ds1, w1)"
      using wk(1,4,6) policies_ok_delete[OF wk(2)] owned_delete[OF wk(3)] sub rows
      by (simp add: world_ok_def bound_live_def beyond_sel[OF bw] live_rows[OF rows])
    moreover have "tracks rel ?L (ps1, AList.delete b pol, ds1, w1)" if tr: "tracks rel ?L (ps, pol, ds, w)"
    proof (rule tracks_regranted[OF tr wk(6) rows bw])
      show "regranted rel ?L ten b (policyOf pol ten b) None (\<lambda>p. live ps (ten, p)) (x_keys w) ds ds1"
        using rot removed(2) by (simp add: old)
    qed (auto simp: policyOf_delete policyOf_owned(2)[OF mine])
    ultimately show ?thesis using removed by simp
  qed
qed

lemma withOptions_input:
  "withOptions opts i = Inr i' \<Longrightarrow> i_Bucket i' = i_Bucket i \<and> i_Tenant i' = i_Tenant i \<and> i_Policy i' = i_Policy i"
proof (induction opts arbitrary: i)
  case (Cons c opts)
  then show ?case
    by (fastforce simp: on_ok_Inr_iff WithCondition_def Let_def split: if_split_asm)
qed simp

lemma WritePolicy_tracks:
  assumes env: "env_ok (v_policy S) (v_rotator S) V" and ok: "world_ok (v_policy S) V (ps, pol, ds, w)"
    and refl: "reflp rel" and bucket: "tenantBucket (x_buckets w) b ten"
    and run: "WritePolicy S alive now ent ten b nm doc opts (ps, pol, ds, w) = (r, ps', pol', ds', w')"
  shows "world_ok (v_policy S) V (ps', pol', ds', w') \<and>
    (tracks rel (v_policy S) (ps, pol, ds, w) \<longrightarrow> tracks rel (v_policy S) (ps', pol', ds', w')) \<and>
    (\<forall>x. r = Inr x \<longrightarrow> (\<exists>doc'. Normalize (v_policy S) doc = Some doc' \<and> policyOf pol' ten b = Some doc')) \<and>
    (\<forall>e. r = Inl e \<longrightarrow> pol' = pol)"
proof (cases "Validate (v_policy S) doc nm (\<lambda>p. p \<in> set (ListIDsByTenant ps ten))")
  case (Inl e)
  with run have "r = Inl e" "(ps', pol', ds', w') = (ps, pol, ds, w)" by (simp_all add: WritePolicy_def)
  with ok show ?thesis by simp
next
  case v: (Inr u)
  let ?i = "\<lparr>i_Bucket = b, i_Tenant = ten, i_Policy = doc, i_Conditional = False, i_IfMatch = None\<rparr>"
  show ?thesis
  proof (cases "withOptions opts ?i")
    case (Inl e)
    with run v have "r = Inl e" "(ps', pol', ds', w') = (ps, pol, ds, w)" by (simp_all add: WritePolicy_def)
    with ok show ?thesis by simp
  next
    case (Inr i)
    with withOptions_input[OF this] have i: "i_Bucket i = b" "i_Tenant i = ten" "i_Policy i = doc" by simp_all
    let ?put = "policy_Put (v_policy S) (Some (hasBucket w)) now i (Some (onWrite S now ent ten b doc)) (pol, ps, ds, w)"
    obtain q pol1 ps1 ds1 w1 where put: "?put = (q, pol1, ps1, ds1, w1)" by (rule prod_cases5[of ?put])
    note step = Put_tracks[OF env ok refl bucket i put]
    show ?thesis
    proof (cases q)
      case q: (Inl e)
      with run v Inr put have "r = Inl (writeError alive e)" "(ps', pol', ds', w') = (ps1, pol1, ds1, w1)"
        by (simp_all add: WritePolicy_def onPolicies_def)
      with step q show ?thesis by auto
    next
      case q: (Inr tag)
      with run v Inr put have "r = Inr (tag, stored pol b = None)" "(ps', pol', ds', w') = (ps1, pol1, ds1, w1)"
        by (simp_all add: WritePolicy_def onPolicies_def)
      with step q show ?thesis by simp
    qed
  qed
qed

lemma RemovePolicy_tracks:
  assumes env: "env_ok (v_policy S) (v_rotator S) V" and ok: "world_ok (v_policy S) V (ps, pol, ds, w)"
    and refl: "reflp rel" and bucket: "tenantBucket (x_buckets w) b ten"
    and run: "RemovePolicy S alive now ent ten b ifMatch (ps, pol, ds, w) = (r, ps', pol', ds', w')"
  shows "world_ok (v_policy S) V (ps', pol', ds', w') \<and>
    (tracks rel (v_policy S) (ps, pol, ds, w) \<longrightarrow> tracks rel (v_policy S) (ps', pol', ds', w')) \<and>
    (r = Inr () \<longrightarrow> map_of pol' b = None) \<and> (r \<noteq> Inr () \<longrightarrow> pol' = pol)"
proof -
  let ?tag = "case ifMatch of None \<Rightarrow> [] | Some tag \<Rightarrow> tag"
  let ?del = "policy_Delete b ?tag (Some (\<lambda>old s. rotateChanged S now ent ten b (Some (pol_Policy old)) None
    (ListIDsByTenant (fst s) ten) s)) (pol, ps, ds, w)"
  obtain q pol1 ps1 ds1 w1 where del: "?del = (q, pol1, ps1, ds1, w1)" by (rule prod_cases5[of ?del])
  note step = Delete_tracks[OF env ok refl bucket del]
  have "RemovePolicy S alive now ent ten b ifMatch (ps, pol, ds, w) =
     (case q of Inl e \<Rightarrow> (Inl (if e = Store ErrRecordNotFound then Api ErrPolicyNotFound else writeError alive e),
          ps1, pol1, ds1, w1) | Inr _ \<Rightarrow> (Inr (), ps1, pol1, ds1, w1))"
    unfolding RemovePolicy_def onPolicies_def Let_def prod.case del by (cases q) simp_all
  with run have res: "(ps', pol', ds', w') = (ps1, pol1, ds1, w1)" "r = Inr () \<longleftrightarrow> q = Inr ()"
    by (cases q; force)+
  from step show ?thesis using res by blast
qed

subsection \<open>Properties\<close>


text \<open>A service over the sample rotator, and a world with one principal, its key and one bucket.\<close>

definition sample_service :: "dlg list policy_service" where
  "sample_service = \<lparr>v_policy = sample_lib, v_rotator = sample_rotator\<rparr>"

definition sample_world :: "dlg list world" where
  "sample_world = (sample_principals, [], \<lparr>byAudience = [], d_wait = None\<rparr>,
     sample_backend\<lparr>x_buckets := [(Did ''b'', \<lparr>b_ID = Did ''b'', b_Tenant = Did ''t'', b_Provider = Did ''p'',
       b_Name = ''photos'', b_CreatedAt = 0\<rparr>)]\<rparr>)"

definition sample_grant :: policy_document where
  "sample_grant = sample_policy ''v1'' [sample_statement Allow [''alice''] [''s3:ListBucket'']]"

lemma sample_env_ok: "env_ok sample_lib sample_rotator sample_universe"
  using sample_delegate_ok
  by (simp add: env_ok_def alone_def sample_rotator_def normalizes_def) (simp add: sample_lib_def)

lemma sample_world_ok: "world_ok sample_lib sample_universe sample_world" "in_step sample_lib sample_world"
proof -
  have none: "authority \<lparr>byAudience = [], d_wait = None\<rparr> a = {}" for a
    by (simp add: authority_def)
  show "world_ok sample_lib sample_universe sample_world"
    using sample_keys_ok
    by (simp add: world_ok_def sample_world_def none policies_ok_def owned_def sample_principals_def wf_gomap_def
        bound_live_def sample_backend_def sample_bound_def live_def newEntry_def)
  show "in_step sample_lib sample_world"
    by (simp add: tracks_def sample_world_def over_def none policyOf_def)
qed

lemma sample_write_ok: "fst (WritePolicy sample_service True 0 (\<lambda>_ _. []) (Did ''t'') (Did ''b'') ''photos'' sample_grant []
   sample_world) = Inr (''v1'', True)"
  by code_simp


end
