(* ===== verification/Principal_Service.thy ===== *)
theory Principal_Service
  imports Tracking Go_Strings
begin

text \<open>
  \<open>pkg/api/service/principal\<close>: the principals of a tenant, and the removal of one, which
  revokes what its keys hold, takes it out of every policy and then, its row held, deletes its
  keys before the row is marked removed.
\<close>

subsection \<open>Principal ids\<close>

text \<open>\<open>utf8.ValidString\<close>, by Go's table of accepted ranges.\<close>

definition is_continuation :: "char \<Rightarrow> bool" where
  "is_continuation c \<longleftrightarrow> 128 \<le> byte c \<and> byte c \<le> 191"

definition second_range :: "nat \<Rightarrow> nat \<times> nat" where
  "second_range n = (if n = 224 then 160 else if n = 240 then 144 else 128,
                     if n = 237 then 159 else if n = 244 then 143 else 191)"

fun validUTF8 :: "string \<Rightarrow> bool" where
  "validUTF8 [] = True"
| "validUTF8 (c # s) =
     (if byte c < 128 then validUTF8 s
      else if byte c < 194 \<or> 244 < byte c then False
      else (case s of
              [] \<Rightarrow> False
            | c1 # s1 \<Rightarrow>
                if byte c1 < fst (second_range (byte c)) \<or> snd (second_range (byte c)) < byte c1 then False
                else if byte c < 224 then validUTF8 s1
                else (case s1 of
                        [] \<Rightarrow> False
                      | c2 # s2 \<Rightarrow>
                          if \<not> is_continuation c2 then False
                          else if byte c < 240 then validUTF8 s2
                          else (case s2 of [] \<Rightarrow> False | c3 # s3 \<Rightarrow> if is_continuation c3 then validUTF8 s3 else False))))"

definition containsAny :: "string \<Rightarrow> string \<Rightarrow> bool" where
  "containsAny s cs \<longleftrightarrow> list_ex (\<lambda>c. c \<in> set cs) s"

definition maxPrincipalIDLength :: nat where "maxPrincipalIDLength = 255"

definition ValidID :: "policy_lib \<Rightarrow> string \<Rightarrow> bool" where
  "ValidID L ident \<longleftrightarrow> ident \<noteq> [] \<and> length ident \<le> maxPrincipalIDLength \<and> ident \<noteq> Wildcard L \<and>
     validUTF8 ident \<and> CHR 0x00 \<notin> set ident \<and>
     \<not> containsAny ident ''/;,?%'' \<and> ident \<noteq> ''.'' \<and> ident \<noteq> ''..''"

subsection \<open>Creating, listing, reading\<close>

abbreviation tenantsOf :: "'e world \<Rightarrow> tenants" where
  "tenantsOf st \<equiv> x_tenants (snd (snd (snd st)))"

definition createdPrincipal ::
  "did \<Rightarrow> string \<Rightarrow> bool \<Rightarrow> 'e world \<Rightarrow> (err + principal_rec \<times> bool) \<times> 'e world" where
  "createdPrincipal ten p created st =
     (case principal_Get False (fst st) ten p of
        Inl e \<Rightarrow> (Inl (if e = Store ErrRecordNotFound then Api ErrConcurrentChange else e), st)
      | Inr rec \<Rightarrow> (Inr (rec, created), st))"

definition CreatePrincipal ::
  "policy_lib \<Rightarrow> instant \<Rightarrow> string \<Rightarrow> string \<Rightarrow> 'e world \<Rightarrow> (err + principal_rec \<times> bool) \<times> 'e world" where
  "CreatePrincipal L now externalID p st =
     (if \<not> ValidID L p then (Inl (Api ErrInvalidPrincipalID), st)
      else (case tenantOf (tenantsOf st) externalID of
              Inl e \<Rightarrow> (Inl e, st)
            | Inr ten \<Rightarrow>
                (case principal_Add now ten p st of
                   (Inl e, st') \<Rightarrow>
                     if e = Store ErrRecordExists then createdPrincipal ten p False st'
                     else (Inl (if e = Store ErrLockTimeout then Api ErrConcurrentChange else e), st')
                 | (Inr _, st') \<Rightarrow> createdPrincipal ten p True st')))"

definition ListPrincipals :: "'e world \<Rightarrow> string \<Rightarrow> err + principal_rec list" where
  "ListPrincipals st externalID =
     on_ok (tenantOf (tenantsOf st) externalID) (\<lambda>ten. Inr (principal_ListByTenant (fst st) ten))"

definition GetPrincipal :: "'e world \<Rightarrow> string \<Rightarrow> string \<Rightarrow> err + principal_rec" where
  "GetPrincipal st externalID p =
     on_ok (tenantOf (tenantsOf st) externalID) (\<lambda>ten.
       case principal_Get False (fst st) ten p of
         Inl e \<Rightarrow> Inl (if e = Store ErrRecordNotFound then Api ErrPrincipalNotFound else e)
       | Inr rec \<Rightarrow> Inr rec)"

subsection \<open>Removing\<close>

text \<open>One policy of \<open>stripFromPolicies\<close>.\<close>

definition stripOne ::
  "policy_lib \<Rightarrow> (did \<Rightarrow> bool) \<Rightarrow> instant \<Rightarrow> did \<Rightarrow> string \<Rightarrow> policy_record \<Rightarrow> policies \<Rightarrow>
   (err + unit) \<times> policies" where
  "stripOne L has now ten p rec pol =
     (let (doc, changed) = RemovePrincipal L (pol_Policy rec) p in
      if \<not> changed then (Inr (), pol)
      else if length (Statements doc) = 0 then
        (case policy_Delete (pol_Bucket rec) (pol_ETag rec) None (pol, ()) of
           (Inl e, pol', _) \<Rightarrow> (if e = Store ErrRecordNotFound then Inr () else Inl e, pol')
         | (Inr _, pol', _) \<Rightarrow> (Inr (), pol'))
      else
        (case policy_Put L (Some has) now \<lparr>i_Bucket = pol_Bucket rec, i_Tenant = ten, i_Policy = doc,
                i_Conditional = True, i_IfMatch = Some (pol_ETag rec)\<rparr> None (pol, ()) of
           (Inl e, pol', _) \<Rightarrow> (Inl e, pol')
         | (Inr _, pol', _) \<Rightarrow> (Inr (), pol')))"

fun stripLoop ::
  "policy_lib \<Rightarrow> (did \<Rightarrow> bool) \<Rightarrow> instant \<Rightarrow> did \<Rightarrow> string \<Rightarrow> policy_record list \<Rightarrow> policies \<Rightarrow>
   (err + unit) \<times> policies" where
  "stripLoop L has now ten p [] pol = (Inr (), pol)"
| "stripLoop L has now ten p (rec # recs) pol =
     (case stripOne L has now ten p rec pol of
        (Inl e, pol') \<Rightarrow> (Inl e, pol')
      | (Inr _, pol') \<Rightarrow> stripLoop L has now ten p recs pol')"

definition stripFromPolicies ::
  "policy_lib \<Rightarrow> (did \<Rightarrow> bool) \<Rightarrow> instant \<Rightarrow> did \<Rightarrow> string \<Rightarrow> policies \<Rightarrow> (err + unit) \<times> policies" where
  "stripFromPolicies L has now ten p pol = stripLoop L has now ten p (policy_ListByPrincipal pol ten p) pol"

text \<open>The callback of the write that drops what the keys hold: revoke, then delete the rows.\<close>

definition removeNext ::
  "'e rotator \<Rightarrow> instant \<Rightarrow> access_key list \<Rightarrow> issuer \<Rightarrow> 'e backend replacer" where
  "removeNext R now keys issuer current w =
     (case PublishRevocations R now issuer (concat (map (\<lambda>key. current (k_ID key)) keys)) w of
        (Inl e, w') \<Rightarrow> (Inl e, w')
      | (Inr _, w') \<Rightarrow> (Inr (\<lambda>_. []), w'\<lparr>x_keys := fold (\<lambda>key. key_Delete (k_ID key)) keys (x_keys w')\<rparr>))"

definition withPrincipal :: "string \<Rightarrow> key_list_config" where
  "withPrincipal p = \<lparr>l_Principal = Some p, l_Principals = None, l_IDs = None\<rparr>"

definition dropSecrets :: "did \<Rightarrow> access_key list \<Rightarrow> 'e backend \<Rightarrow> 'e backend" where
  "dropSecrets ten keys w = w\<lparr>x_vault := fold (\<lambda>key. vault_Delete (AccessKeyPath ten (k_ID key))) keys (x_vault w)\<rparr>"

definition removeKeys ::
  "'e rotator \<Rightarrow> instant \<Rightarrow> did \<Rightarrow> string \<Rightarrow> dlg_store \<times> 'e backend \<Rightarrow> (err + unit) \<times> dlg_store \<times> 'e backend" where
  "removeKeys R now ten p sw =
     (let keys = key_ListByTenant (x_keys (snd sw)) ten (withPrincipal p) in
      if length keys = 0 then (Inr (), sw)
      else (case TenantIssuer (r_keylib R) (vault_Read (x_vault (snd sw))) ten of
              Inl e \<Rightarrow> (Inl e, sw)
            | Inr issuer \<Rightarrow>
                (case Replace (audiences keys) (removeNext R now keys issuer) (r_wait R sw) of
                   (Inl e, s') \<Rightarrow> (Inl e, s')
                 | (Inr _, ds', w') \<Rightarrow> (Inr (), ds', dropSecrets ten keys w'))))"

definition removePrincipal ::
  "'e policy_service \<Rightarrow> instant \<Rightarrow> did \<Rightarrow> string \<Rightarrow> (unit, policies \<times> dlg_store \<times> 'e backend) step" where
  "removePrincipal S now ten p st =
     (let (ps, pol, sw) = st in
      if list_ex (\<lambda>rec. snd (RemovePrincipal (v_policy S) (pol_Policy rec) p)) (policy_ListByPrincipal pol ten p)
      then (Inl (Api ErrNamedAgain), st)
      else (let (r, sw') = removeKeys (v_rotator S) now ten p sw in (r, ps, pol, sw')))"

text \<open>\<open>alive\<close>: the caller's context has not ended when the error is reported.\<close>

definition removalError :: "bool \<Rightarrow> err \<Rightarrow> err" where
  "removalError alive e =
     (if Contended alive e \<or> e = Store ErrPreconditionFailed \<or> e = Api ErrNamedAgain
      then Api ErrConcurrentChange else e)"

definition removeSteps ::
  "'e policy_service \<Rightarrow> instant \<Rightarrow> did \<Rightarrow> string \<Rightarrow> 'e world \<Rightarrow> (err + unit) \<times> 'e world" where
  "removeSteps S now ten p st =
     (let (ps, pol, sw) = st in
      case Revoke (v_rotator S) now ten p sw of
        (Inl e, sw') \<Rightarrow> (Inl e, ps, pol, sw')
      | (Inr _, sw') \<Rightarrow>
          (case stripFromPolicies (v_policy S) (hasBucket (snd sw')) now ten p pol of
             (Inl e, pol') \<Rightarrow> (Inl e, ps, pol', sw')
           | (Inr _, pol') \<Rightarrow>
               Tombstone ten p (Some (removePrincipal S now ten p)) (ps, pol', sw')))"

definition DeletePrincipal ::
  "'e policy_service \<Rightarrow> bool \<Rightarrow> instant \<Rightarrow> string \<Rightarrow> string \<Rightarrow> 'e world \<Rightarrow> (err + unit) \<times> 'e world" where
  "DeletePrincipal S alive now externalID p st =
     (case tenantOf (tenantsOf st) externalID of
        Inl e \<Rightarrow> (Inl e, st)
      | Inr ten \<Rightarrow>
          (case removeSteps S now ten p st of
             (Inl e, st') \<Rightarrow> (Inl (removalError alive e), st')
           | (Inr _, st') \<Rightarrow> (Inr (), st')))"

subsection \<open>What the keys of a removed principal are left with\<close>

lemma Replace_nothing:
  assumes dl: "delegate_ok U V" and sub: "\<forall>a. authority s a \<subseteq> V"
    and empty: "\<And>cur x y nxt. next cur x = (Inr nxt, y) \<Longrightarrow> nxt = (\<lambda>_. [])"
    and run: "Replace auds next (s, w) = (r, s', w')"
  shows "authority s' a = (if r = Inr () \<and> a \<in> set auds then {} else authority s a)"
  using run
proof (cases rule: Replace_cases)
  case (written R)
  have R: "R = (\<lambda>_. [])" by (rule empty[OF written(2)])
  have "\<forall>a. set (somes (R a)) \<subseteq> V" by (simp add: R)
  from authority_writeLoop[OF dl written(3) sub this, of a] show ?thesis
    by (simp add: written(1,4) R)
qed simp

lemma bound_key: "map_of ks (k_ID key) = Some key \<Longrightarrow> k_ID key \<in> boundIDs ks ten {p} \<longleftrightarrow>
    k_Tenant key = ten \<and> k_Principal key = Some p"
  by (simp add: boundIDs_iff boundTo_def)

lemma Revoke_effect:
  assumes env: "env_ok L R V" and ks: "keys_ok (x_keys w)" and sub: "\<forall>a. authority ds a \<subseteq> V"
    and run: "Revoke R now ten p (ds, w) = (r, ds', w')"
  shows "beyond w w'"
    and "authority ds' a = (if r = Inr () \<and> a \<in> boundIDs (x_keys w) ten {p} then {} else authority ds a)"
proof -
  consider e where "r = Inl e" "ds' = ds" "w' = w"
    | "r = Inr ()" "boundIDs (x_keys w) ten {p} = {}" "ds' = ds" "w' = w"
    | keys issuer where "set (audiences keys) = boundIDs (x_keys w) ten {p}"
        "Replace (audiences keys) (revokeNext R now keys issuer) (ds, w) = (r, ds', w')"
  proof (cases "load R ten [p] w")
    case (Inl e)
    with run have "r = Inl e" "ds' = ds" "w' = w" by (simp_all add: Revoke_def)
    then show thesis by (rule that(1))
  next
    case (Inr x)
    obtain keys i where l: "load R ten [p] w = Inr (keys, i)" using Inr by (cases x) simp
    have "set (audiences keys) = boundIDs (x_keys w) ten (set [p])"
      by (rule audiences_boundIDs) (rule load_Inr(2)[OF ks l])
    then have ids: "set (audiences keys) = boundIDs (x_keys w) ten {p}" by simp
    show thesis
    proof (cases i)
      case None
      then have "keys = []" by (rule load_Inr(4)[OF ks l])
      with ids have "boundIDs (x_keys w) ten {p} = {}" by (simp add: audiences_def)
      moreover from run l None have "r = Inr ()" "ds' = ds" "w' = w" by (simp_all add: Revoke_def)
      ultimately show thesis using that(2) by blast
    next
      case (Some issuer)
      with run l env have "Replace (audiences keys) (revokeNext R now keys issuer) (ds, w) = (r, ds', w')"
        by (simp add: Revoke_def env_ok_def alone_def)
      then show thesis by (rule that(3)[OF ids])
    qed
  qed
  then have "beyond w w' \<and>
    authority ds' a = (if r = Inr () \<and> a \<in> boundIDs (x_keys w) ten {p} then {} else authority ds a)"
  proof cases
    case (3 keys issuer)
    have "beyond w w'" using 3(2) revokeNext_beyond unfolding Replace_def by (rule replace_beyond[rotated])
    moreover have "authority ds' a = (if r = Inr () \<and> a \<in> set (audiences keys) then {} else authority ds a)"
      by (rule Replace_nothing[OF env_okD(1)[OF env] sub _ 3(2)]) (rule revokeNext_Inr(1))
    ultimately show ?thesis using 3(1) by simp
  qed auto
  then show "beyond w w'"
    "authority ds' a = (if r = Inr () \<and> a \<in> boundIDs (x_keys w) ten {p} then {} else authority ds a)" by blast+
qed

lemma fold_key_Delete:
  "map_of (fold (\<lambda>key. key_Delete (k_ID key)) keys s) k = (if k \<in> k_ID ` set keys then None else map_of s k)"
  "keys_ok s \<Longrightarrow> keys_ok (fold (\<lambda>key. key_Delete (k_ID key)) keys s)"
  by (induction keys arbitrary: s) (auto simp: key_Delete_def keys_ok_Delete[unfolded key_Delete_def])

lemma fold_vault_Delete:
  "vault_Read (fold (\<lambda>key. vault_Delete (AccessKeyPath ten (k_ID key))) keys v) path =
     (if path \<in> AccessKeyPath ten ` k_ID ` set keys then Inl (Store ErrKeyNotFound) else vault_Read v path)"
  by (induction keys arbitrary: v) (auto simp: vault_simps)

text \<open>What is left of the keys' rows once those of a principal are gone.\<close>

definition without_keys :: "did set \<Rightarrow> access_keys \<Rightarrow> access_keys \<Rightarrow> bool" where
  "without_keys ids ks ks' \<longleftrightarrow> keys_ok ks' \<and> (\<forall>k. map_of ks' k = (if k \<in> ids then None else map_of ks k))"

text \<open>A replacement whose callback drops everything: what the callback leaves is what the call leaves.\<close>

lemma Replace_drop:
  assumes nx: "\<And>cur e y. next cur w = (Inl e, y) \<Longrightarrow> beyond w y"
    and ok: "\<And>cur nxt y. next cur w = (Inr nxt, y) \<Longrightarrow> nxt = (\<lambda>_. []) \<and> Q y"
    and run: "Replace auds next (ds, w) = (r, ds', w')"
  shows "if r = Inr () then Q w' else beyond w w'"
proof (cases "holdWrites ds")
  case (Inl e)
  with run have "r = Inl e" "w' = w" by (simp_all add: Replace_def replace_def)
  then show ?thesis by simp
next
  case (Inr u)
  obtain x y where n: "next (currentOf (\<lambda>_. True) auds ds) w = (x, y)" by force
  show ?thesis
  proof (cases x)
    case x: (Inl e)
    with run Inr n have "r = Inl e" "w' = y" by (simp_all add: Replace_def replace_def)
    with nx n x show ?thesis by simp
  next
    case x: (Inr nxt)
    with ok n have q: "nxt = (\<lambda>_. [])" "Q y" by blast+
    then have "CheckReplacement auds nxt = Inr ()" by (simp add: CheckReplacement_def list_all_iff)
    with run Inr n x have "r = Inr ()" "w' = y" by (simp_all add: Replace_def replace_def)
    with q show ?thesis by simp
  qed
qed

lemma removeNext_Inl: "removeNext R now keys issuer cur w = (Inl e, y) \<Longrightarrow> beyond w y"
  by (auto simp: removeNext_def split: prod.splits sum.splits intro: PublishRevocations_beyond)

lemma removeNext_Inr:
  assumes "removeNext R now keys issuer cur w = (Inr nxt, y)"
  shows "nxt = (\<lambda>_. []) \<and> x_buckets y = x_buckets w \<and>
    x_keys y = fold (\<lambda>key. key_Delete (k_ID key)) keys (x_keys w)"
  using assms
  by (auto simp: removeNext_def beyond_sel split: prod.splits sum.splits dest!: PublishRevocations_beyond)

lemma Replace_removeNext:
  assumes "Replace auds (removeNext R now keys issuer) (ds, w) = (r, ds', w')"
  shows "if r = Inr () then x_buckets w' = x_buckets w \<and> x_keys w' = fold (\<lambda>key. key_Delete (k_ID key)) keys (x_keys w)
    else beyond w w'"
  by (rule Replace_drop[OF _ _ assms]) (erule removeNext_Inl, erule removeNext_Inr)

lemma removeKeys_effect:
  assumes env: "env_ok L R V" and ks: "keys_ok (x_keys w)" and sub: "\<forall>a. authority ds a \<subseteq> V"
    and run: "removeKeys R now ten p (ds, w) = (r, ds', w')"
  shows "r \<noteq> Inr () \<Longrightarrow> beyond w w'" and "r = Inr () \<Longrightarrow> without_keys (boundIDs (x_keys w) ten {p}) (x_keys w) (x_keys w')"
    and "x_buckets w' = x_buckets w"
    and "authority ds' a = (if r = Inr () \<and> a \<in> boundIDs (x_keys w) ten {p} then {} else authority ds a)"
    and "r = Inr () \<Longrightarrow> k \<in> boundIDs (x_keys w) ten {p} \<Longrightarrow>
      vault_Read (x_vault w') (AccessKeyPath ten k) = Inl (Store ErrKeyNotFound)"
proof -
  let ?ids = "boundIDs (x_keys w) ten {p}"
  define keys where "keys = key_ListByTenant (x_keys w) ten (withPrincipal p)"
  have "set (audiences keys) = ?ids"
    by (rule audiences_boundIDs) (auto simp: keys_def listed_keys(2)[OF ks] key_selected_def withPrincipal_def boundTo_def)
  then have ids: "k_ID ` set keys = ?ids" by (simp add: audiences_def)
  consider (none) "keys = []" "r = Inr ()" "ds' = ds" "w' = w"
    | (unsigned) e where "r = Inl e" "ds' = ds" "w' = w"
    | (locked) issuer w1 where "Replace (audiences keys) (removeNext R now keys issuer) (ds, w) = (r, ds', w1)"
        "w' = (if r = Inr () then dropSecrets ten keys w1 else w1)"
  proof (cases "TenantIssuer (r_keylib R) (vault_Read (x_vault w)) ten")
    case (Inl e)
    with run that(1,2) show thesis by (cases "keys = []") (auto simp: removeKeys_def Let_def keys_def[symmetric])
  next
    case (Inr issuer)
    obtain q ds1 w1 where R: "Replace (audiences keys) (removeNext R now keys issuer) (ds, w) = (q, ds1, w1)"
      by (rule prod_cases3)
    have wait: "r_wait R = (\<lambda>sw. sw)" using env by (simp add: env_ok_def alone_def)
    show thesis
    proof (cases "keys = []")
      case True
      with run have "r = Inr ()" "ds' = ds" "w' = w" by (simp_all add: removeKeys_def keys_def[symmetric])
      with True show thesis by (rule that(1))
    next
      case False
      then have n: "length keys \<noteq> 0" by simp
      have "removeKeys R now ten p (ds, w) =
          (case q of Inl e \<Rightarrow> (Inl e, ds1, w1) | Inr _ \<Rightarrow> (Inr (), ds1, dropSecrets ten keys w1))"
        unfolding removeKeys_def Let_def snd_conv keys_def[symmetric] if_not_P[OF n] Inr sum.case wait R
        by (cases q) simp_all
      with run have "r = q \<and> ds' = ds1 \<and> w' = (if q = Inr () then dropSecrets ten keys w1 else w1)"
        by (cases q) auto
      with R show thesis by (intro that(3)[of issuer w1]) simp_all
    qed
  qed
  then have "(r \<noteq> Inr () \<longrightarrow> beyond w w') \<and> (r = Inr () \<longrightarrow> without_keys ?ids (x_keys w) (x_keys w')) \<and>
    x_buckets w' = x_buckets w \<and> authority ds' a = (if r = Inr () \<and> a \<in> ?ids then {} else authority ds a) \<and>
    (r = Inr () \<longrightarrow> k \<in> ?ids \<longrightarrow> vault_Read (x_vault w') (AccessKeyPath ten k) = Inl (Store ErrKeyNotFound))"
  proof cases
    case none
    with ids ks show ?thesis by (auto simp: without_keys_def)
  next
    case (locked issuer w1)
    have empty: "nxt = (\<lambda>_. [])" if "removeNext R now keys issuer cur x = (Inr nxt, y)" for cur x y nxt
      using removeNext_Inr[OF that] by blast
    have auth: "authority ds' a = (if r = Inr () \<and> a \<in> ?ids then {} else authority ds a)"
      using Replace_nothing[OF env_okD(1)[OF env] sub empty locked(1)] ids by (simp add: audiences_def)
    note rows = Replace_removeNext[OF locked(1)]
    show ?thesis
    proof (cases "r = Inr ()")
      case True
      have w': "w' = dropSecrets ten keys w1" using locked(2) True by simp
      have "x_keys w' = fold (\<lambda>key. key_Delete (k_ID key)) keys (x_keys w)" "x_buckets w' = x_buckets w"
        using rows True by (simp_all add: w' dropSecrets_def)
      moreover have "without_keys ?ids (x_keys w) (fold (\<lambda>key. key_Delete (k_ID key)) keys (x_keys w))"
        unfolding without_keys_def by (simp add: fold_key_Delete(1) fold_key_Delete(2)[OF ks] ids)
      moreover have "k \<in> ?ids \<Longrightarrow> vault_Read (x_vault w') (AccessKeyPath ten k) = Inl (Store ErrKeyNotFound)"
        by (simp add: w' dropSecrets_def fold_vault_Delete ids)
      ultimately show ?thesis using auth True by simp
    next
      case False
      with rows have bw: "beyond w w1" by simp
      with False auth locked(2) show ?thesis by (simp add: beyond_sel(3)[OF bw])
    qed
  qed simp
  then show "r \<noteq> Inr () \<Longrightarrow> beyond w w'" "r = Inr () \<Longrightarrow> without_keys ?ids (x_keys w) (x_keys w')"
    "x_buckets w' = x_buckets w" "authority ds' a = (if r = Inr () \<and> a \<in> ?ids then {} else authority ds a)"
    "r = Inr () \<Longrightarrow> k \<in> ?ids \<Longrightarrow> vault_Read (x_vault w') (AccessKeyPath ten k) = Inl (Store ErrKeyNotFound)"
    by blast+
qed

subsection \<open>Taking a principal out of the policies\<close>

text \<open>
  Between two states of the policies, no other principal's access, and none of another
  tenant's, is different.
\<close>

definition others_same :: "policy_lib \<Rightarrow> did \<Rightarrow> string \<Rightarrow> policies \<Rightarrow> policies \<Rightarrow> bool" where
  "others_same L ten p pol pol' \<longleftrightarrow>
     (\<forall>t b q. t \<noteq> ten \<or> q \<noteq> p \<longrightarrow> Effective L (policyOf pol' t b) q = Effective L (policyOf pol t b) q)"

lemma others_same_refl [simp]: "others_same L ten p pol pol"
  by (simp add: others_same_def)

lemma others_same_trans: "others_same L ten p a b \<Longrightarrow> others_same L ten p b c \<Longrightarrow> others_same L ten p a c"
  by (simp add: others_same_def)

text \<open>A record of the listing, while the policy it was read from stands.\<close>

definition standing :: "did \<Rightarrow> policies \<Rightarrow> policy_record \<Rightarrow> bool" where
  "standing ten pol rec \<longleftrightarrow> (\<exists>e. map_of pol (pol_Bucket rec) = Some e \<and> e_rec e = rec \<and> e_tenant e = ten)"

lemma Effective_empty: "Statements d = [] \<Longrightarrow> Effective L (Some d) q = Effective L None q"
  using Effective_unnamed[of d L q] by simp

lemma strip_one_policy:
  assumes env: "env_ok L R V" and cur: "standing ten pol rec"
    and doc: "\<And>q. q \<noteq> p \<Longrightarrow> Effective L doc q = Effective L (Some (pol_Policy rec)) q"
    and pol': "\<And>t b. policyOf pol' t b = (if b = pol_Bucket rec then if t = ten then doc else None else policyOf pol t b)"
  shows "others_same L ten p pol pol'"
  unfolding others_same_def
proof (intro allI impI)
  fix t b q
  assume q: "t \<noteq> ten \<or> q \<noteq> p"
  have "policyOf pol t (pol_Bucket rec) = (if t = ten then Some (pol_Policy rec) else None)"
    using cur by (auto simp: standing_def policyOf_def)
  with q doc show "Effective L (policyOf pol' t b) q = Effective L (policyOf pol t b) q"
    by (simp add: pol')
qed

lemma stripOne_effect:
  assumes env: "env_ok L R V" and pok: "policies_ok L pol" and own: "owned pol bs" and cur: "standing ten pol rec"
    and run: "stripOne L (bucket_Has bs) now ten p rec pol = (r, pol')"
  shows "others_same L ten p pol pol' \<and> policies_ok L pol' \<and> owned pol' bs \<and>
    (\<forall>b. b \<noteq> pol_Bucket rec \<longrightarrow> map_of pol' b = map_of pol b)"
proof -
  obtain doc changed where rem: "RemovePrincipal L (pol_Policy rec) p = (doc, changed)" by force
  have eff: "Effective L (Some doc) q = Effective L (Some (pol_Policy rec)) q" if "q \<noteq> p" for q
    using Effective_RemovePrincipal[OF env_okD(4)[OF env] that, of "pol_Policy rec"] by (simp add: rem)
  obtain e where e: "map_of pol (pol_Bucket rec) = Some e" "e_rec e = rec" "e_tenant e = ten"
    using cur by (auto simp: standing_def)
  consider (same) "pol' = pol"
    | (deleted) "Statements doc = []" "pol' = AList.delete (pol_Bucket rec) pol"
    | (written) i doc' where "i_Bucket i = pol_Bucket rec" "i_Tenant i = ten" "Normalize L doc = Some doc'"
        "pol' = AList.update (pol_Bucket rec) (policyEntry L now i doc') pol" "policies_ok L pol'"
  proof (cases "changed")
    case False
    with run rem that(1) show thesis by (simp add: stripOne_def)
  next
    case c: True
    show thesis
    proof (cases "Statements doc = []")
      case True
      obtain q p1 u where d: "policy_Delete (pol_Bucket rec) (pol_ETag rec) None (pol, ()) = (q, p1, u)"
        by (rule prod_cases3)
      with run rem c True have "pol' = p1" by (auto simp: stripOne_def split: sum.splits)
      with policy_Delete_cases[OF d] True that(1,2) show thesis by blast
    next
      case False
      let ?i = "\<lparr>i_Bucket = pol_Bucket rec, i_Tenant = ten, i_Policy = doc,
        i_Conditional = True, i_IfMatch = Some (pol_ETag rec)\<rparr>"
      obtain q p1 u where d: "policy_Put L (Some (bucket_Has bs)) now ?i None (pol, ()) = (q, p1, u)"
        by (rule prod_cases3)
      with run rem c False have p1: "pol' = p1" by (auto simp: stripOne_def split: sum.splits)
      show thesis
      proof (cases q)
        case (Inl e)
        have "p1 = pol" by (rule policy_Put_Inl[OF d[unfolded Inl]])
        with p1 that(1) show thesis by simp
      next
        case (Inr tag)
        with d have put: "policy_Put L (Some (bucket_Has bs)) now ?i None (pol, ()) = (Inr tag, p1, u)" by simp
        obtain doc' where n: "Normalize L doc = Some doc'" "p1 = AList.update (pol_Bucket rec) (policyEntry L now ?i doc') pol"
          by (rule policy_Put_Inr[OF put]) simp
        show thesis by (rule that(3)[of ?i doc']) (use n p1 policies_ok_Put[OF pok put] in simp_all)
      qed
    qed
  qed
  then show ?thesis
  proof cases
    case same
    with pok own show ?thesis by simp
  next
    case deleted
    have "others_same L ten p pol pol'"
    proof (rule strip_one_policy[OF env cur, of p None])
      show "Effective L None q = Effective L (Some (pol_Policy rec)) q" if "q \<noteq> p" for q
        using eff[OF that] by (simp only: Effective_empty[OF deleted(1)])
    qed (simp add: deleted(2) policyOf_delete)
    with pok own show ?thesis by (simp add: deleted(2) policies_ok_delete owned_delete)
  next
    case written
    have "Effective L (Some doc') q = Effective L (Some doc) q" for q
      using env_okD(3)[OF env] written(3) unfolding normalizes_def by (metis option.inject)
    then have "others_same L ten p pol pol'"
      by (intro strip_one_policy[OF env cur, of p "Some doc'"])
        (use eff written(1,2) in \<open>simp_all add: written(4) policyOf_update\<close>)
    moreover have "owned pol' bs"
      using own e written(2) by (auto simp: owned_def written(4) update_conv')
    ultimately show ?thesis using written(5) by (simp add: written(4) update_conv')
  qed
qed

lemma distinct_map_sort_key: "distinct (map f (sort_key k xs)) = distinct (map f xs)"
  by (rule mset_eq_imp_distinct_iff) simp

lemma listed_policies:
  assumes "policies_ok L pol"
  shows "\<forall>rec \<in> set (policy_ListByPrincipal pol ten p). standing ten pol rec"
    and "distinct (map pol_Bucket (policy_ListByPrincipal pol ten p))"
proof -
  have ok: "pol_Bucket (e_rec e) = b" if "(b, e) \<in> set pol" for b e
    using assms that by (auto simp: policies_ok_def entry_ok_def gomap_in_iff dest!: all_recordsD)
  have wf: "wf_gomap pol" using assms by (simp add: policies_ok_def)
  show "\<forall>rec \<in> set (policy_ListByPrincipal pol ten p). standing ten pol rec"
  proof
    fix rec
    assume "rec \<in> set (policy_ListByPrincipal pol ten p)"
    then obtain b e where e: "(b, e) \<in> set pol" "e_tenant e = ten" "rec = e_rec e"
      by (auto simp: policy_ListByPrincipal_def)
    then have "map_of pol b = Some e" by (simp add: gomap_in_iff[OF wf])
    then show "standing ten pol rec"
      unfolding standing_def e(3) ok[OF e(1)] using e(2) by (intro exI[of _ e] conjI refl)
  qed
  let ?l = "map (e_rec \<circ> snd) (filter (\<lambda>(k, e). e_tenant e = ten \<and> (e_wildcard e \<or> p \<in> set (e_named e))) pol)"
  have l: "map pol_Bucket ?l = map fst (filter (\<lambda>(k, e). e_tenant e = ten \<and> (e_wildcard e \<or> p \<in> set (e_named e))) pol)"
    using ok by auto
  have "distinct (map pol_Bucket ?l)"
    unfolding l by (rule distinct_map_filter) (use wf in \<open>simp add: wf_gomap_def\<close>)
  then show "distinct (map pol_Bucket (policy_ListByPrincipal pol ten p))"
    unfolding policy_ListByPrincipal_def by (simp only: distinct_map_sort_key)
qed

lemma stripLoop_effect:
  assumes env: "env_ok L R V"
  shows "policies_ok L pol \<Longrightarrow> owned pol bs \<Longrightarrow> \<forall>rec \<in> set recs. standing ten pol rec \<Longrightarrow>
    distinct (map pol_Bucket recs) \<Longrightarrow> stripLoop L (bucket_Has bs) now ten p recs pol = (r, pol') \<Longrightarrow>
    others_same L ten p pol pol' \<and> policies_ok L pol' \<and> owned pol' bs"
proof (induction recs arbitrary: pol)
  case (Cons rec recs)
  obtain q p1 where one: "stripOne L (bucket_Has bs) now ten p rec pol = (q, p1)" by force
  note step = stripOne_effect[OF env Cons.prems(1,2) _ one]
  have step: "others_same L ten p pol p1" "policies_ok L p1" "owned p1 bs"
      "\<And>b. b \<noteq> pol_Bucket rec \<Longrightarrow> map_of p1 b = map_of pol b"
    using step Cons.prems(3) by simp_all
  show ?case
  proof (cases q)
    case (Inl e)
    with Cons.prems(5) one step show ?thesis by simp
  next
    case (Inr u)
    have "\<forall>rec \<in> set recs. standing ten p1 rec"
    proof
      fix x
      assume x: "x \<in> set recs"
      then have "pol_Bucket x \<noteq> pol_Bucket rec" using Cons.prems(4) by (auto simp: image_iff)
      with x Cons.prems(3) show "standing ten p1 x" by (simp add: standing_def step(4))
    qed
    moreover have "stripLoop L (bucket_Has bs) now ten p recs p1 = (r, pol')" using Cons.prems(5) one Inr by simp
    ultimately have "others_same L ten p p1 pol' \<and> policies_ok L pol' \<and> owned pol' bs"
      using Cons.IH[OF step(2,3)] Cons.prems(4) by simp
    with step(1) show ?thesis by (blast intro: others_same_trans)
  qed
qed simp

lemma strip_effect:
  assumes "env_ok L R V" and "policies_ok L pol" and "owned pol bs"
    and "stripFromPolicies L (bucket_Has bs) now ten p pol = (r, pol')"
  shows "others_same L ten p pol pol' \<and> policies_ok L pol' \<and> owned pol' bs"
  using stripLoop_effect[OF assms(1,2,3) listed_policies[OF assms(2)] assms(4)[unfolded stripFromPolicies_def]] .

subsection \<open>The removal, step by step\<close>

text \<open>Midway through a removal: as before for everyone else, and nothing held by the principal's keys.\<close>

definition tracks_but ::
  "(command set \<Rightarrow> command set \<Rightarrow> bool) \<Rightarrow> policy_lib \<Rightarrow> did \<Rightarrow> string \<Rightarrow> 'e world \<Rightarrow> bool" where
  "tracks_but rel L ten p st \<longleftrightarrow>
     (let (ps, pol, ds, w) = st in
      \<forall>key q b. map_of (x_keys w) (k_ID key) = Some key \<longrightarrow> k_Principal key = Some q \<longrightarrow>
        (if k_Tenant key = ten \<and> q = p then over ds (k_ID key) b = {}
         else rel (commandsOver ds (k_ID key) b) (granted L (policyOf pol (k_Tenant key) b) q)))"

lemma tracks_but_within: "tracks_but (\<subseteq>) L ten p st \<Longrightarrow> within L st"
  by (fastforce simp: tracks_but_def tracks_def split: if_splits)

lemma tracks_butD:
  assumes "tracks_but rel L ten p (ps, pol, ds, w)" and "map_of (x_keys w) (k_ID key) = Some key"
    and "k_Principal key = Some q" and "\<not> (k_Tenant key = ten \<and> q = p)"
  shows "rel (commandsOver ds (k_ID key) b) (granted L (policyOf pol (k_Tenant key) b) q)"
  using assms unfolding tracks_but_def Let_def prod.case by presburger

lemma over_authority: "authority s' a = authority s a \<Longrightarrow> over s' a b = over s a b"
  by (simp add: over_def)

lemma tracks_but_Revoke:
  assumes tr: "tracks rel L (ps, pol, ds, w)" and bw: "beyond w w'"
    and auth: "\<And>a. authority ds' a = (if a \<in> boundIDs (x_keys w) ten {p} then {} else authority ds a)"
  shows "tracks_but rel L ten p (ps, pol, ds', w')"
proof -
  have "if k_Tenant key = ten \<and> q = p then over ds' (k_ID key) b = {}
      else rel (commandsOver ds' (k_ID key) b) (granted L (policyOf pol (k_Tenant key) b) q)"
    if k: "map_of (x_keys w) (k_ID key) = Some key" "k_Principal key = Some q" for key q b
  proof (cases "k_Tenant key = ten \<and> q = p")
    case True
    then have "k_ID key \<in> boundIDs (x_keys w) ten {p}" by (simp add: bound_key[OF k(1)] k(2))
    then have "over ds' (k_ID key) b = {}" by (simp add: over_def auth)
    with True show ?thesis by simp
  next
    case False
    then have "k_ID key \<notin> boundIDs (x_keys w) ten {p}" by (simp add: bound_key[OF k(1)] k(2))
    then have "over ds' (k_ID key) b = over ds (k_ID key) b" by (intro over_authority) (simp add: auth)
    moreover have "rel (commandsOver ds (k_ID key) b) (granted L (policyOf pol (k_Tenant key) b) q)"
      by (rule tracksD[OF tr k])
    ultimately show ?thesis by (simp only: if_not_P[OF False])
  qed
  then show ?thesis unfolding tracks_but_def Let_def prod.case beyond_sel(1)[OF bw] by blast
qed

lemma tracks_but_strip:
  assumes "tracks_but rel L ten p (ps, pol, ds, w)" and "others_same L ten p pol pol'"
  shows "tracks_but rel L ten p (ps', pol', ds, w)"
proof -
  have "Effective L (policyOf pol' t b) q = Effective L (policyOf pol t b) q" if "\<not> (t = ten \<and> q = p)" for t b q
    using assms(2) that unfolding others_same_def by blast
  with assms(1) show ?thesis unfolding tracks_but_def Let_def prod.case by presburger
qed

lemma tracks_but_removed:
  assumes tr: "tracks_but rel L ten p (ps, pol, ds, w)"
    and ks: "without_keys (boundIDs (x_keys w) ten {p}) (x_keys w) (x_keys w')"
    and auth: "\<And>a. authority ds' a = (if a \<in> boundIDs (x_keys w) ten {p} then {} else authority ds a)"
  shows "tracks rel L (ps', pol, ds', w')"
proof (rule tracksI)
  fix key q b
  assume k: "map_of (x_keys w') (k_ID key) = Some key" "k_Principal key = Some q"
  then have old: "map_of (x_keys w) (k_ID key) = Some key" and id: "k_ID key \<notin> boundIDs (x_keys w) ten {p}"
    using ks by (auto simp: without_keys_def split: if_splits)
  have "\<not> (k_Tenant key = ten \<and> q = p)" using id by (simp add: bound_key[OF old] k(2))
  from tracks_butD[OF tr old k(2) this, of b]
  have "rel (commandsOver ds (k_ID key) b) (granted L (policyOf pol (k_Tenant key) b) q)" .
  moreover have "over ds' (k_ID key) b = over ds (k_ID key) b" using id by (intro over_authority) (simp add: auth)
  ultimately show "rel (commandsOver ds' (k_ID key) b) (granted L (policyOf pol (k_Tenant key) b) q)" by simp
qed

lemma live_markDeleted: "live (markDeleted r ps) x \<longleftrightarrow> live ps x \<and> x \<noteq> r"
  by (auto simp: live_def markDeleted_def update_conv' split: option.splits)

lemma wf_markDeleted: "wf_gomap (p_rows ps) \<Longrightarrow> wf_gomap (p_rows (markDeleted r ps))"
  by (simp add: markDeleted_def split: option.split)

lemma Tombstone_cases:
  assumes "Tombstone ten p (Some fn) (ps, w) = (r, ps', w')"
  obtains (blocked) e where "r = Inl e" "p_rows ps' = p_rows ps" "w' = w"
  | (gone) "r = Inr ()" "\<not> live ps (ten, p)" "p_rows ps' = p_rows ps" "w' = w"
  | (ran) ps1 q ps2 where "live ps (ten, p)" "p_rows ps1 = p_rows ps" "fn (ps1, w) = (q, ps2, w')" "r = q"
      "p_rows ps' = (if q = Inr () then p_rows (markDeleted (ten, p) ps2) else p_rows ps2)"
proof (cases "hold [(ten, p)] ps")
  case (Pair x ps1)
  show thesis
  proof (cases x)
    case (Inl e)
    with Pair assms have "r = Inl e" "p_rows ps' = p_rows ps" "w' = w" by (simp_all add: Tombstone_def withRows_def)
    then show thesis by (rule that(1))
  next
    case (Inr u)
    then have rows: "p_rows ps1 = p_rows ps" using hold_Inr(1)[of "[(ten, p)]" ps ps1] Pair by simp
    obtain q ps2 w2 where f: "fn (ps1, w) = (q, ps2, w2)" by (rule prod_cases3)
    have T: "Tombstone ten p (Some fn) (ps, w) =
        (if \<not> live ps (ten, p) then (Inr (), release [(ten, p)] ps1, w)
         else (case q of Inl e \<Rightarrow> (Inl e, release [(ten, p)] ps2, w2)
               | Inr _ \<Rightarrow> (Inr (), release [(ten, p)] (markDeleted (ten, p) ps2), w2)))"
      by (simp add: Tombstone_def withRows_def Pair Inr f live_rows[OF rows] split: sum.split)
    show thesis
    proof (cases "live ps (ten, p)")
      case False
      with T assms rows show thesis by (intro that(2)) auto
    next
      case True
      with T assms have "r = q" "w' = w2"
        "p_rows ps' = (if q = Inr () then p_rows (markDeleted (ten, p) ps2) else p_rows ps2)"
        by (cases q; auto)+
      with True rows f show thesis by (intro that(3)) auto
    qed
  qed
qed

text \<open>The last step, the row held: nothing but the services behind the process changes when it fails.\<close>

definition unnamed :: "policy_lib \<Rightarrow> did \<Rightarrow> string \<Rightarrow> policies \<Rightarrow> bool" where
  "unnamed L ten p pol \<longleftrightarrow> (\<forall>rec \<in> set (policy_ListByPrincipal pol ten p). p \<notin> set (fst (Named L (pol_Policy rec))))"

definition removal ::
  "policy_lib \<Rightarrow> did \<Rightarrow> string \<Rightarrow> 'e world \<Rightarrow> 'e world \<Rightarrow> bool" where
  "removal L ten p st st' \<longleftrightarrow>
     (let (ps, pol, ds, w) = st; (ps', pol', ds', w') = st' in
      \<not> live ps' (ten, p) \<and> (live ps (ten, p) \<longrightarrow> unnamed L ten p pol') \<and>
      (\<forall>row. row \<noteq> (ten, p) \<longrightarrow> live ps' row = live ps row) \<and>
      without_keys (boundIDs (x_keys w) ten {p}) (x_keys w) (x_keys w') \<and>
      (\<forall>a. authority ds' a = (if a \<in> boundIDs (x_keys w) ten {p} then {} else authority ds a)) \<and>
      (\<forall>k \<in> boundIDs (x_keys w) ten {p}. vault_Read (x_vault w') (AccessKeyPath ten k) = Inl (Store ErrKeyNotFound)))"

lemma removePrincipal_cases:
  assumes "removePrincipal S now ten p (ps, pol, ds, w) = (q, ps', pol', ds', w')"
  obtains (named) e where "q = Inl e" "(ps', pol', ds', w') = (ps, pol, ds, w)"
  | (ran) "unnamed (v_policy S) ten p pol" "removeKeys (v_rotator S) now ten p (ds, w) = (q, ds', w')"
      "(ps', pol') = (ps, pol)"
proof (cases "list_ex (\<lambda>rec. snd (RemovePrincipal (v_policy S) (pol_Policy rec) p)) (policy_ListByPrincipal pol ten p)")
  case True
  with assms have "q = Inl (Api ErrNamedAgain)" "(ps', pol', ds', w') = (ps, pol, ds, w)"
    by (simp_all add: removePrincipal_def)
  then show thesis by (rule named)
next
  case False
  then have "unnamed (v_policy S) ten p pol" by (auto simp: unnamed_def list_ex_iff snd_RemovePrincipal)
  moreover obtain x y z where k: "removeKeys (v_rotator S) now ten p (ds, w) = (x, y, z)" by (rule prod_cases3)
  moreover have "q = x" "(ds', w') = (y, z)" "(ps', pol') = (ps, pol)"
    using assms False k by (simp_all add: removePrincipal_def)
  ultimately show thesis by (intro ran) simp_all
qed

lemma no_bound_ids:
  assumes "bound_live (x_keys w) ps" and "\<not> live ps (ten, p)"
  shows "boundIDs (x_keys w) ten {p} = {}"
proof -
  have "\<not> boundTo (x_keys w) ten {p} k" for k
    using assms unfolding bound_live_def boundTo_def by blast
  then show ?thesis by (simp add: boundIDs_def)
qed

lemma without_keys_bound_live:
  assumes "bound_live ks ps" and "without_keys (boundIDs ks ten {p}) ks ks'" and "keys_ok ks"
    and "\<And>row. row \<noteq> (ten, p) \<Longrightarrow> live ps' row = live ps row"
  shows "bound_live ks' ps'"
  unfolding bound_live_def
proof (intro allI impI)
  fix k key q
  assume "map_of ks' k = Some key" and q: "k_Principal key = Some q"
  with assms(2) have m: "map_of ks k = Some key" and id: "k \<notin> boundIDs ks ten {p}"
    by (auto simp: without_keys_def split: if_splits)
  have "k_ID key = k" using assms(3) m by (auto simp: keys_ok_def key_wf_def dest: all_recordsD)
  with m id q have "(k_Tenant key, q) \<noteq> (ten, p)" by (auto simp: bound_key)
  then show "live ps' (k_Tenant key, q)" using assms(1,4) m q by (simp add: bound_live_def)
qed

lemma Tombstone_removal:
  assumes env: "env_ok (v_policy S) (v_rotator S) V" and ok: "world_ok (v_policy S) V (ps, pol, ds, w)"
    and run: "Tombstone ten p (Some (removePrincipal S now ten p)) (ps, pol, ds, w) = (r, ps', pol', ds', w')"
  shows "pol' = pol \<and> world_ok (v_policy S) V (ps', pol', ds', w') \<and>
    (if r = Inr () then removal (v_policy S) ten p (ps, pol, ds, w) (ps', pol', ds', w')
     else p_rows ps' = p_rows ps \<and> beyond w w' \<and> (\<forall>a. authority ds' a = authority ds a))"
proof -
  let ?L = "v_policy S"
  note wk = world_okD[OF ok]
  from run show ?thesis
  proof (cases rule: Tombstone_cases)
    case blocked
    with ok same_world(2)[OF blocked(2) beyond_refl[of w]] show ?thesis by simp
  next
    case gone
    with wk(4) no_bound_ids[OF wk(6) gone(2)] have "removal ?L ten p (ps, pol, ds, w) (ps', pol, ds, w)"
      by (simp add: removal_def without_keys_def live_rows[OF gone(3)])
    with gone ok same_world(2)[OF gone(3) beyond_refl[of w]] show ?thesis by simp
  next
    case (ran ps1 q ps2)
    from ran(3) show ?thesis
    proof (cases rule: removePrincipal_cases)
      case (named e)
      with ran have "r = Inl e" "p_rows ps' = p_rows ps" "(pol', ds', w') = (pol, ds, w)" by simp_all
      with ok same_world(2)[of ps' ps w w ?L V pol ds] show ?thesis by simp
    next
      case keys: ran
      note eff = removeKeys_effect[OF env wk(4,5) keys(2)]
      have sub: "authority ds' a \<subseteq> V" for a unfolding eff(4) using wk(5) by simp
      have rq: "r = q" and pol': "pol' = pol" using ran(4) keys(3) by simp_all
      show ?thesis
      proof (cases "q = Inr ()")
        case True
        have "live ps' = live (markDeleted (ten, p) ps)"
          using ran(2,5) keys(3) True by (simp add: live_def markDeleted_def fun_eq_iff split: option.split)
        then have live': "live ps' row \<longleftrightarrow> live ps row \<and> row \<noteq> (ten, p)" for row by (simp add: live_markDeleted)
        have wo: "without_keys (boundIDs (x_keys w) ten {p}) (x_keys w) (x_keys w')" using eff(2) True by blast
        have "wf_gomap (p_rows ps')"
          using ran(2,5) keys(3) True wf_markDeleted[of ps1] wk(1) by simp
        moreover have "bound_live (x_keys w') ps'"
          by (rule without_keys_bound_live[OF wk(6) wo wk(4)]) (simp add: live')
        moreover have "keys_ok (x_keys w')" using wo by (simp add: without_keys_def)
        ultimately have "world_ok ?L V (ps', pol, ds', w')"
          using wk(2,3) sub eff(3) by (intro world_okI) simp_all
        moreover have "removal ?L ten p (ps, pol, ds, w) (ps', pol, ds', w')"
          using wo keys(1) eff(4,5) True by (simp add: removal_def live')
        ultimately show ?thesis using True rq pol' by simp
      next
        case False
        have rows: "p_rows ps' = p_rows ps" and bw: "beyond w w'" using ran(2,5) keys(3) False eff(1) by auto
        moreover have "authority ds' a = authority ds a" for a using eff(4)[of a] False by simp
        moreover have "world_ok ?L V (ps', pol, ds', w')"
          using wk sub beyond_sel[OF bw] by (intro world_okI) (simp_all add: rows bound_live_def live_rows[OF rows])
        ultimately show ?thesis using False rq pol' by simp
      qed
    qed
  qed
qed

text \<open>Worlds whose keys hold the same.\<close>

lemma same_grants:
  assumes "p_rows ps' = p_rows ps" and "beyond w w'" and "\<And>a. authority ds' a = authority ds a"
  shows "tracks rel L (ps', pol, ds', w') \<longleftrightarrow> tracks rel L (ps, pol, ds, w)"
    and "tracks_but rel L ten p (ps', pol, ds', w') \<longleftrightarrow> tracks_but rel L ten p (ps, pol, ds, w)"
    and "world_ok L V (ps', pol, ds', w') \<longleftrightarrow> world_ok L V (ps, pol, ds, w)"
  by (simp_all add: tracks_def tracks_but_def world_ok_def bound_live_def over_def assms(3) live_rows[OF assms(1)]
      assms(1) beyond_sel[OF assms(2)])

lemma removal_after:
  assumes "removal L ten p (ps, pol1, ds1, w1) st'" and "beyond w w1"
    and "\<And>a. authority ds1 a = (if a \<in> boundIDs (x_keys w) ten {p} then {} else authority ds a)"
  shows "removal L ten p (ps, pol, ds, w) st'"
  using assms(1) unfolding removal_def Let_def case_prod_beta by (simp add: assms(3) beyond_sel[OF assms(2)])

lemma removeSteps_effect:
  assumes env: "env_ok (v_policy S) (v_rotator S) V" and ok: "world_ok (v_policy S) V (ps, pol, ds, w)"
    and run: "removeSteps S now ten p (ps, pol, ds, w) = (r, ps', pol', ds', w')"
  shows "world_ok (v_policy S) V (ps', pol', ds', w') \<and>
    (within (v_policy S) (ps, pol, ds, w) \<longrightarrow> within (v_policy S) (ps', pol', ds', w')) \<and>
    others_same (v_policy S) ten p pol pol' \<and>
    (r = Inr () \<longrightarrow> (in_step (v_policy S) (ps, pol, ds, w) \<longrightarrow> in_step (v_policy S) (ps', pol', ds', w')) \<and>
       removal (v_policy S) ten p (ps, pol, ds, w) (ps', pol', ds', w'))"
proof -
  let ?L = "v_policy S"
  note wk = world_okD[OF ok]
  obtain q1 ds1 w1 where rv: "Revoke (v_rotator S) now ten p (ds, w) = (q1, ds1, w1)" by (rule prod_cases3)
  note rev = Revoke_effect[OF env wk(4,5) rv]
  show ?thesis
  proof (cases q1)
    case (Inl e)
    with run rv have "r = Inl e" "(ps', pol', ds', w') = (ps, pol, ds1, w1)" by (simp_all add: removeSteps_def)
    moreover have "authority ds1 a = authority ds a" for a using rev(2)[of a] Inl by simp
    ultimately show ?thesis using same_grants[OF refl rev(1), of ds1 ds] ok by simp
  next
    case (Inr u)
    then have auth: "authority ds1 a = (if a \<in> boundIDs (x_keys w) ten {p} then {} else authority ds a)" for a
      using rev(2)[of a] by simp
    have but: "tracks_but rel ?L ten p (ps, pol, ds1, w1)" if "tracks rel ?L (ps, pol, ds, w)" for rel
      by (rule tracks_but_Revoke[OF that rev(1) auth])
    obtain q2 pol2 where st: "stripFromPolicies ?L (bucket_Has (x_buckets w1)) now ten p pol = (q2, pol2)" by force
    have own: "owned pol (x_buckets w1)" using wk(3) by (simp add: beyond_sel[OF rev(1)])
    have strip: "others_same ?L ten p pol pol2" "policies_ok ?L pol2" "owned pol2 (x_buckets w)"
      using strip_effect[OF env wk(2) own st] by (simp_all add: beyond_sel[OF rev(1)])
    have ok2: "world_ok ?L V (ps, pol2, ds1, w1)"
      using wk(1,4,5,6) strip(2,3) beyond_sel[OF rev(1)] by (intro world_okI) (simp_all add: auth)
    note but2 = tracks_but_strip[OF but strip(1)]
    show ?thesis
    proof (cases q2)
      case (Inl e)
      with run rv \<open>q1 = Inr u\<close> st have "r = Inl e" "(ps', pol', ds', w') = (ps, pol2, ds1, w1)"
        by (simp_all add: removeSteps_def hasBucket_def)
      moreover have "within ?L (ps, pol2, ds1, w1)" if "within ?L (ps, pol, ds, w)"
        using but2[OF that] by (rule tracks_but_within)
      ultimately show ?thesis using ok2 strip(1) by simp
    next
      case q2: (Inr v)
      with run rv \<open>q1 = Inr u\<close> st have t: "Tombstone ten p (Some (removePrincipal S now ten p)) (ps, pol2, ds1, w1) =
          (r, ps', pol', ds', w')"
        by (simp add: removeSteps_def hasBucket_def)
      note last = Tombstone_removal[OF env ok2 t]
      show ?thesis
      proof (cases "r = Inr ()")
        case False
        then have c: "pol' = pol2" "p_rows ps' = p_rows ps" "beyond w1 w'" "\<And>a. authority ds' a = authority ds1 a"
          using last by simp_all
        have "within ?L (ps', pol', ds', w')" if "within ?L (ps, pol, ds, w)"
        proof -
          have "tracks_but (\<subseteq>) ?L ten p (ps', pol2, ds', w')"
            by (subst same_grants(2)[OF c(2-4)]) (rule but2[OF that])
          then show ?thesis unfolding c(1) by (rule tracks_but_within)
        qed
        with last False strip(1) c(1) show ?thesis by simp
      next
        case True
        then have c: "pol' = pol2" "removal ?L ten p (ps, pol2, ds1, w1) (ps', pol', ds', w')"
          using last by auto
        have tr: "tracks rel ?L (ps', pol', ds', w')" if "tracks rel ?L (ps, pol, ds, w)" for rel
          unfolding c(1)
          by (rule tracks_but_removed[OF but2[OF that], of w' ds']) (use c(2) in \<open>simp_all add: removal_def\<close>)
        have "removal ?L ten p (ps, pol, ds, w) (ps', pol', ds', w')"
          by (rule removal_after[OF c(2) rev(1) auth])
        with last strip(1) c(1) tr show ?thesis by simp
      qed
    qed
  qed
qed

subsection \<open>A creation adds a row and nothing else\<close>

lemma principal_Add_effect:
  assumes "principal_Add now ten p (ps, w) = (r, ps', w')"
  shows "w' = w \<and> (p_rows ps' = p_rows ps \<or>
    (p_rows ps' = AList.update (ten, p) (newEntry now ten p) (p_rows ps) \<and> \<not> live ps (ten, p)))"
proof (cases "ten = Undef \<or> p = []")
  case True
  with assms have "ps' = ps \<and> w' = w" by (cases "ten = Undef") (auto simp: principal_Add_def)
  then show ?thesis by simp
next
  case False
  obtain x ps1 where h: "hold [(ten, p)] ps = (x, ps1)" by force
  show ?thesis
  proof (cases x)
    case (Inl e)
    with assms False h have "ps' = ps" "w' = w" by (simp_all add: principal_Add_def withRows_def)
    then show ?thesis by simp
  next
    case (Inr u)
    then have rows: "p_rows ps1 = p_rows ps" using hold_Inr(1)[of "[(ten, p)]" ps ps1] h by simp
    with assms False h Inr show ?thesis
      by (auto simp: principal_Add_def withRows_def live_rows[OF rows] split: if_splits)
  qed
qed

lemma CreatePrincipal_effect:
  assumes ok: "world_ok L V (ps, pol, ds, w)" and run: "CreatePrincipal L' now externalID p (ps, pol, ds, w) = (r, st')"
  shows "world_ok L V st' \<and> (tracks rel L st' \<longleftrightarrow> tracks rel L (ps, pol, ds, w))"
proof -
  have same: "snd (createdPrincipal ten p created st) = st" for ten created and st :: "'b world"
    by (simp add: createdPrincipal_def split: sum.split)
  consider "st' = (ps, pol, ds, w)"
    | ten x ps' sw where "principal_Add now ten p (ps, pol, ds, w) = (x, ps', sw)" "st' = (ps', sw)"
  proof (cases "ValidID L' p")
    case False
    with run that(1) show thesis by (simp add: CreatePrincipal_def)
  next
    case True
    show thesis
    proof (cases "tenantOf (x_tenants w) externalID")
      case (Inl e)
      with run True that(1) show thesis by (simp add: CreatePrincipal_def)
    next
      case (Inr ten)
      obtain x ps' sw where a: "principal_Add now ten p (ps, pol, ds, w) = (x, ps', sw)" by (rule prod_cases3)
      have "st' = snd (CreatePrincipal L' now externalID p (ps, pol, ds, w))" using run by simp
      also have "\<dots> = (ps', sw)" using True Inr a by (cases x) (simp_all add: CreatePrincipal_def same)
      finally show thesis by (rule that(2)[OF a])
    qed
  qed
  then show ?thesis
  proof cases
    case (2 ten x ps' sw)
    note add = principal_Add_effect[OF 2(1)]
    then have "live ps row \<Longrightarrow> live ps' row" for row
      by (auto simp: live_def newEntry_def update_conv')
    moreover have "wf_gomap (p_rows ps')" using add world_okD(1)[OF ok] by auto
    moreover have "sw = (pol, ds, w)" using add by simp
    ultimately show ?thesis
      using ok by (auto simp: 2(2) world_ok_def bound_live_def tracks_def)
  qed (use ok in simp)
qed

subsection \<open>Properties\<close>

text \<open>
  C8. Removing a principal is safe at every step and complete when it succeeds: whatever
  step fails, no key holds more than the policies grant its principal if none did before, and
  no other principal's access in any bucket is different; and when it succeeds the principal
  is no longer live (every other one is as before), no policy of the tenant names it, every
  key bound to it is gone from the keys, the vault and the delegations, every other key is as
  it was and holds what it held, and what keys hold is exactly what the policies grant if it
  was before.
\<close>

theorem removal_is_complete:
  assumes "env_ok (v_policy S) (v_rotator S) V" and "world_ok (v_policy S) V (ps, pol, ds, w)"
    and "tenantOf (x_tenants w) externalID = Inr ten"
    and "DeletePrincipal S alive now externalID p (ps, pol, ds, w) = (r, ps', pol', ds', w')"
  shows "world_ok (v_policy S) V (ps', pol', ds', w') \<and>
    (within (v_policy S) (ps, pol, ds, w) \<longrightarrow> within (v_policy S) (ps', pol', ds', w')) \<and>
    others_same (v_policy S) ten p pol pol' \<and>
    (r = Inr () \<longrightarrow> (in_step (v_policy S) (ps, pol, ds, w) \<longrightarrow> in_step (v_policy S) (ps', pol', ds', w')) \<and>
       removal (v_policy S) ten p (ps, pol, ds, w) (ps', pol', ds', w'))"
proof -
  obtain q ps1 pol1 ds1 w1 where s: "removeSteps S now ten p (ps, pol, ds, w) = (q, ps1, pol1, ds1, w1)"
    by (rule prod_cases5)
  have "DeletePrincipal S alive now externalID p (ps, pol, ds, w) =
      (case q of Inl e \<Rightarrow> (Inl (removalError alive e), ps1, pol1, ds1, w1) | Inr _ \<Rightarrow> (Inr (), ps1, pol1, ds1, w1))"
    unfolding DeletePrincipal_def snd_conv assms(3) sum.case s by (cases q) simp_all
  with assms(4) have "(ps', pol', ds', w') = (ps1, pol1, ds1, w1)" "r = Inr () \<longleftrightarrow> q = Inr ()"
    by (cases q; force)+
  with removeSteps_effect[OF assms(1,2) s] show ?thesis by blast
qed

text \<open>The sample world after a policy names the principal, its tenant known.\<close>

definition sample_tenant_world :: "dlg list world" where
  "sample_tenant_world =
     (let (ps, pol, ds, w) = snd (WritePolicy sample_service True 0 (\<lambda>_ _. []) (Did ''t'') (Did ''b'') ''photos''
            sample_grant [] sample_world)
      in (ps, pol, ds, w\<lparr>x_tenants := [(Did ''t'', \<lparr>t_ID = Did ''t'', t_ExternalID = ''ext'', t_Status = Active,
            t_CreatedAt = 0, t_UpdatedAt = 0\<rparr>)]\<rparr>))"

lemma sample_removal:
  "fst (DeletePrincipal sample_service True 1 ''ext'' ''alice'' sample_tenant_world) = Inr ()"
  "live (fst sample_tenant_world) (Did ''t'', ''alice'')"
  "tenantOf (x_tenants (snd (snd (snd sample_tenant_world)))) ''ext'' = Inr (Did ''t'')"
  "map d_Command (dlgsOf (fst (snd (snd sample_tenant_world))) (Did ''k'')) = [Content_Retrieve]"
  by code_simp+

lemma sample_service_sel [simp]: "v_policy sample_service = sample_lib" "v_rotator sample_service = sample_rotator"
  by (simp_all add: sample_service_def)

lemma sample_tenant_world_ok: "world_ok sample_lib sample_universe sample_tenant_world \<and> in_step sample_lib sample_tenant_world"
proof -
  let ?run = "WritePolicy sample_service True 0 (\<lambda>_ _. []) (Did ''t'') (Did ''b'') ''photos'' sample_grant [] sample_world"
  obtain ps pol ds w where s: "sample_world = (ps, pol, ds, w)" by (rule prod_cases4)
  obtain r ps' pol' ds' w' where run: "?run = (r, ps', pol', ds', w')" by (rule prod_cases5[of ?run])
  have bucket: "tenantBucket (x_buckets w) (Did ''b'') (Did ''t'')"
    using s by (auto simp: sample_world_def tenantBucket_def)
  have eq: "reflp ((=) :: command set \<Rightarrow> command set \<Rightarrow> bool)" by (simp add: reflp_def)
  have "world_ok sample_lib sample_universe (ps', pol', ds', w')" "in_step sample_lib (ps', pol', ds', w')"
    using WritePolicy_tracks[of sample_service, unfolded sample_service_sel, OF sample_env_ok sample_world_ok(1)[unfolded s]
        eq bucket run[unfolded s]] sample_world_ok(2) s by simp_all
  then show ?thesis
    by (simp add: sample_tenant_world_def run world_ok_def tracks_def)
qed

theorem removal_is_complete_witness:
  "\<exists>ps' pol' ds' w'. DeletePrincipal sample_service True 1 ''ext'' ''alice'' sample_tenant_world = (Inr (), ps', pol', ds', w') \<and>
     \<not> live ps' (Did ''t'', ''alice'') \<and> unnamed sample_lib (Did ''t'') ''alice'' pol' \<and>
     in_step sample_lib (ps', pol', ds', w')"
proof -
  let ?run = "DeletePrincipal sample_service True 1 ''ext'' ''alice'' sample_tenant_world"
  obtain ps pol ds w where s: "sample_tenant_world = (ps, pol, ds, w)" by (rule prod_cases4)
  obtain r ps' pol' ds' w' where run: "?run = (r, ps', pol', ds', w')" by (rule prod_cases5[of ?run])
  have r: "r = Inr ()" using sample_removal(1) run by simp
  note ok = sample_tenant_world_ok[unfolded s]
  have ten: "tenantOf (x_tenants w) ''ext'' = Inr (Did ''t'')" and lv: "live ps (Did ''t'', ''alice'')"
    using sample_removal(2,3) by (simp_all add: s)
  note done' = removal_is_complete[of sample_service, unfolded sample_service_sel, OF sample_env_ok ok[THEN conjunct1] ten
      run[unfolded s]]
  then have "removal sample_lib (Did ''t'') ''alice'' (ps, pol, ds, w) (ps', pol', ds', w')"
    "in_step sample_lib (ps', pol', ds', w')" using r ok by blast+
  with lv show ?thesis unfolding run r by (intro exI[of _ ps'] exI[of _ pol'] exI[of _ ds'] exI[of _ w']) (simp add: removal_def)
qed

text \<open>
  A removal that gives up on the principal's row answers that another change is in flight, after
  it dropped what the principal's keys held and stripped the policies: something was changed.
\<close>

lemma contended_removal_changes:
  "(let (ps, st) = sample_tenant_world;
        (r, ps', pol', ds', w') = DeletePrincipal sample_service True 1 ''ext'' ''alice'' (ps\<lparr>p_held := [(Did ''t'', ''alice'')]\<rparr>, st)
    in (r, length (fst st), length pol', authority (fst (snd st)) (Did ''k'') = {}, authority ds' (Did ''k'') = {})) =
   (Inl (Api ErrConcurrentChange), 1, 0, False, True)"
  by code_simp

end
