(* ===== verification/Key_Service.thy ===== *)
theory Key_Service
  imports Principal_Service
begin

text \<open>
  \<open>pkg/api/service/accesskey\<close>: the creation of an access key with its delegations, its
  rollback on failure, the reads, and the removal of a key.
\<close>

subsection \<open>Creating\<close>

definition maxNameLength :: nat where "maxNameLength = 64"

definition keyArgs :: "policy_lib \<Rightarrow> string \<Rightarrow> string list \<Rightarrow> string list \<Rightarrow> string option \<Rightarrow> err + unit" where
  "keyArgs L nm perms bns prin =
     (if nm = [] \<or> length nm > maxNameLength then Inl (Api ErrInvalidName)
      else (case prin of
              Some p \<Rightarrow>
                if \<not> ValidID L p then Inl (Api ErrInvalidPrincipalID)
                else if length perms > 0 \<or> length bns > 0 then Inl (Api ErrPrincipalScoped)
                else Inr ()
            | None \<Rightarrow>
                if length perms = 0 then Inl (Api ErrNoPermissions)
                else (case List.find (\<lambda>p. \<not> valid_permission p) perms of
                        Some p \<Rightarrow> Inl (Api (ErrInvalidPermission p))
                      | None \<Rightarrow> Inr ())))"

definition knownPrincipal :: "principals \<Rightarrow> did \<Rightarrow> string option \<Rightarrow> err + unit" where
  "knownPrincipal ps ten prin =
     (case prin of
        None \<Rightarrow> Inr ()
      | Some p \<Rightarrow>
          (case principal_Get True ps ten p of
             Inl e \<Rightarrow> Inl (if e = Store ErrRecordNotFound then Api ErrUnknownPrincipal
                         else if e = Store ErrLockTimeout then Api ErrConcurrentChange else e)
           | Inr _ \<Rightarrow> Inr ()))"

fun resolveNames :: "(string, did) gomap \<Rightarrow> string list \<Rightarrow> did list \<Rightarrow> err + did list" where
  "resolveNames byName [] ids = Inr ids"
| "resolveNames byName (n # ns) ids =
     (case map_of byName n of
        None \<Rightarrow> Inl (Api (ErrNoSuchBucket n))
      | Some b \<Rightarrow> resolveNames byName ns (ids @ [b]))"

text \<open>A Go map filled in order keeps the last value of a key: the list is looked up backwards.\<close>

definition namedBuckets :: "buckets \<Rightarrow> did \<Rightarrow> string list \<Rightarrow> (err + did list) option" where
  "namedBuckets bs ten nms =
     (if length nms = 0 then Some (Inr [])
      else
        (case Collect_pages (bucket_ListByTenant bs (ten, \<lparr>q_IDs = [], q_Names = nms,
                q_Prefix = [], q_Provider = Undef, q_Limit = None\<rparr>)) of
           None \<Rightarrow> None
         | Some (Inl e) \<Rightarrow> Some (Inl e)
         | Some (Inr recs) \<Rightarrow> Some (resolveNames (rev (map (\<lambda>b. (b_Name b, b_ID b)) recs)) nms [])))"

text \<open>What the principal store's \<open>WithLive\<close> answers, as the guard of the key store.\<close>

definition liveGuard :: "principals \<Rightarrow> did \<Rightarrow> string \<Rightarrow> err + unit" where
  "liveGuard ps t p = fst (WithLive t p (\<lambda>s. (Inr (), s)) (ps, ()))"

fun grantLoop ::
  "ucan_lib \<Rightarrow> policy_lib \<Rightarrow> issuer \<Rightarrow> (did \<Rightarrow> nat \<Rightarrow> string) \<Rightarrow> did \<Rightarrow> string \<Rightarrow> instant option \<Rightarrow>
   policy_record list \<Rightarrow> dlg list \<Rightarrow> err + dlg list" where
  "grantLoop U L issuer ent key p exp [] dels = Inr dels"
| "grantLoop U L issuer ent key p exp (rec # recs) dels =
     (let eff = Effective L (Some (pol_Policy rec)) p in
      if length eff = 0 then grantLoop U L issuer ent key p exp recs dels
      else on_ok (Issue U issuer (ent (pol_Bucket rec)) key [pol_Bucket rec] eff exp) (\<lambda>fresh.
             grantLoop U L issuer ent key p exp recs (dels @ fresh)))"

definition keyGrants ::
  "ucan_lib \<Rightarrow> policy_lib \<Rightarrow> issuer \<Rightarrow> (did \<Rightarrow> nat \<Rightarrow> string) \<Rightarrow> policies \<Rightarrow> key_input \<Rightarrow> err + dlg list" where
  "keyGrants U L issuer ent pol i =
     (case in_Principal i of
        Some p \<Rightarrow> grantLoop U L issuer ent (in_ID i) p (in_ExpiresAt i) (policy_ListByPrincipal pol (in_Tenant i) p) []
      | None \<Rightarrow> Issue U issuer (ent Undef) (in_ID i) (in_Buckets i) (in_Permissions i) (in_ExpiresAt i))"

definition storeNext :: "did \<Rightarrow> dlg list \<Rightarrow> 'w replacer" where
  "storeNext key dels current w =
     (if length (current key) > 0 then (Inl (Store ErrInvalidArgument), w)
      else (Inr (\<lambda>a. if a = key then map Some dels else []), w))"

definition storeGrants ::
  "'e rotator \<Rightarrow> did \<Rightarrow> dlg list \<Rightarrow> dlg_store \<times> 'e backend \<Rightarrow> (err + unit) \<times> dlg_store \<times> 'e backend" where
  "storeGrants R key dels sw =
     (if length dels > 0
      then (case Replace [key] (storeNext key dels) (r_wait R sw) of
              (Inl e, sw') \<Rightarrow> (Inl (if e = Store ErrLockTimeout then Api ErrConcurrentChange else e), sw')
            | (Inr _, sw') \<Rightarrow> (Inr (), sw'))
      else (Inr (), sw))"

definition rollbackKey :: "did \<Rightarrow> did \<Rightarrow> dlg_store \<times> 'e backend \<Rightarrow> dlg_store \<times> 'e backend" where
  "rollbackKey ten key sw =
     (snd (DeleteByAudience key (fst sw)),
      (snd sw)\<lparr>x_keys := key_Delete key (x_keys (snd sw)),
               x_vault := vault_Delete (AccessKeyPath ten key) (x_vault (snd sw))\<rparr>)"

definition addKeyError :: "key_input \<Rightarrow> err \<Rightarrow> err" where
  "addKeyError i e =
     (if e = Store ErrRecordExists then Api ErrNameConflict
      else if in_Principal i \<noteq> None \<and> e = Store ErrInvalidArgument then Api ErrUnknownPrincipal
      else if e = Store ErrLockTimeout then Api ErrConcurrentChange else e)"

text \<open>The writes of a creation, each failure followed by the rollback.\<close>

definition storeKey ::
  "'e policy_service \<Rightarrow> instant \<Rightarrow> (did \<Rightarrow> nat \<Rightarrow> string) \<Rightarrow> issuer \<Rightarrow> key_input \<Rightarrow> string \<Rightarrow>
   'e world \<Rightarrow> (err + access_key) \<times> 'e world" where
  "storeKey S now ent issuer i bytes st =
     (let (ps, pol, ds, w) = st;
          undo = (\<lambda>sw. (ps, pol, rollbackKey (in_Tenant i) (in_ID i) sw));
          w1 = w\<lparr>x_vault := vault_Write (AccessKeyPath (in_Tenant i) (in_ID i)) bytes (x_vault w)\<rparr>
      in case key_Add (Some (liveGuard ps)) now i (x_keys w1) of
           (Inl e, _) \<Rightarrow> (Inl (addKeyError i e), undo (ds, w1))
         | (Inr _, ks) \<Rightarrow>
             (let w2 = w1\<lparr>x_keys := ks\<rparr>
              in case keyGrants (r_ucan (v_rotator S)) (v_policy S) issuer ent pol i of
                   Inl e \<Rightarrow> (Inl e, undo (ds, w2))
                 | Inr dels \<Rightarrow>
                     (case storeGrants (v_rotator S) (in_ID i) dels (ds, w2) of
                        (Inl e, sw) \<Rightarrow> (Inl e, undo sw)
                      | (Inr _, sw) \<Rightarrow>
                          (case key_Get (x_keys (snd sw)) (in_ID i) of
                             Inl e \<Rightarrow> (Inl e, undo sw)
                           | Inr rec \<Rightarrow> (Inr rec, ps, pol, sw)))))"

text \<open>
  \<open>gen\<close> is what \<open>ed25519.Generate\<close> answers: the DID and the bytes of a new key, or \<open>None\<close>, an
  error. The result is an option: \<open>None\<close> would be a listing of buckets that never ends.
\<close>

definition CreateKey ::
  "'e policy_service \<Rightarrow> instant \<Rightarrow> (did \<times> string) option \<Rightarrow> (did \<Rightarrow> nat \<Rightarrow> string) \<Rightarrow> string \<Rightarrow> string \<Rightarrow>
   string list \<Rightarrow> string list \<Rightarrow> string option \<Rightarrow> instant option \<Rightarrow> 'e world \<Rightarrow>
   ((err + access_key \<times> string) \<times> 'e world) option" where
  "CreateKey S now gen ent externalID nm perms bns prin exp st =
     (let K = r_keylib (v_rotator S); (ps, pol, ds, w) = st in
      case on_ok (keyArgs (v_policy S) nm perms bns prin) (\<lambda>_.
             on_ok (tenantOf (x_tenants w) externalID) (\<lambda>ten.
               on_ok (knownPrincipal ps ten prin) (\<lambda>_.
                 TenantIssuer K (vault_Read (x_vault w)) ten))) of
        Inl e \<Rightarrow> Some (Inl e, st)
      | Inr issuer \<Rightarrow>
          (let ten = fst issuer in
           case namedBuckets (x_buckets w) ten bns of
             None \<Rightarrow> None
           | Some (Inl e) \<Rightarrow> Some (Inl e, st)
           | Some (Inr bucketIDs) \<Rightarrow>
               (case gen of
                  None \<Rightarrow> Some (Inl (Internal ''generating access key''), st)
                | Some (key, bytes) \<Rightarrow>
                    (case Base64url K bytes of
                       None \<Rightarrow> Some (Inl (Internal ''encoding secret access key''), st)
                     | Some secret \<Rightarrow>
                         (case (case prin of
                                  Some p \<Rightarrow> NewPrincipalKey key ten nm p exp
                                | None \<Rightarrow> NewServiceKey key ten nm bucketIDs perms exp) of
                            (_, Inl e) \<Rightarrow> Some (Inl e, st)
                          | (i, Inr _) \<Rightarrow>
                              (case storeKey S now ent issuer i bytes st of
                                 (Inl e, st') \<Rightarrow> Some (Inl e, st')
                               | (Inr rec, st') \<Rightarrow> Some (Inr (rec, secret), st')))))))"

subsection \<open>Reading\<close>

definition keyBucketNames :: "buckets \<Rightarrow> did \<Rightarrow> did list \<Rightarrow> (err + (did, string) gomap) option" where
  "keyBucketNames bs ten ids =
     (if length ids = 0 then Some (Inr [])
      else
        (case Collect_pages (bucket_ListByTenant bs (ten, \<lparr>q_IDs = ids, q_Names = [],
                q_Prefix = [], q_Provider = Undef, q_Limit = None\<rparr>)) of
           None \<Rightarrow> None
         | Some (Inl e) \<Rightarrow> Some (Inl e)
         | Some (Inr recs) \<Rightarrow> Some (Inr (rev (map (\<lambda>b. (b_ID b, b_Name b)) recs)))))"

definition ListKeys ::
  "'e world \<Rightarrow> string \<Rightarrow> key_list_config \<Rightarrow> (err + access_key list \<times> (did, string) gomap) option" where
  "ListKeys st externalID cfg =
     (let (ps, pol, ds, w) = st in
      case tenantOf (x_tenants w) externalID of
        Inl e \<Rightarrow> Some (Inl e)
      | Inr ten \<Rightarrow>
          (let recs = key_ListByTenant (x_keys w) ten cfg
           in case keyBucketNames (x_buckets w) ten (remdups (concat (map k_Buckets recs))) of
                None \<Rightarrow> None
              | Some (Inl e) \<Rightarrow> Some (Inl e)
              | Some (Inr nms) \<Rightarrow> Some (Inr (recs, nms))))"

text \<open>A key of another tenant is answered as one there is not.\<close>

definition keyOf :: "key_lib \<Rightarrow> access_keys \<Rightarrow> did \<Rightarrow> string \<Rightarrow> err + did \<times> access_key" where
  "keyOf K ks ten accessKeyID =
     (case DidParse K (KeyPrefix K @ accessKeyID) of
        None \<Rightarrow> Inl (Api ErrAccessKeyNotFound)
      | Some ident \<Rightarrow>
          (case key_Get ks ident of
             Inl e \<Rightarrow> Inl (if e = Store ErrRecordNotFound then Api ErrAccessKeyNotFound else e)
           | Inr rec \<Rightarrow> if k_Tenant rec \<noteq> ten then Inl (Api ErrAccessKeyNotFound) else Inr (ident, rec)))"

definition GetKey ::
  "key_lib \<Rightarrow> 'e world \<Rightarrow> string \<Rightarrow> string \<Rightarrow> (err + access_key \<times> (did, string) gomap) option" where
  "GetKey K st externalID accessKeyID =
     (let (ps, pol, ds, w) = st in
      case on_ok (tenantOf (x_tenants w) externalID) (\<lambda>ten. keyOf K (x_keys w) ten accessKeyID) of
        Inl e \<Rightarrow> Some (Inl e)
      | Inr (ident, rec) \<Rightarrow>
          (case keyBucketNames (x_buckets w) (k_Tenant rec) (k_Buckets rec) of
             None \<Rightarrow> None
           | Some (Inl e) \<Rightarrow> Some (Inl e)
           | Some (Inr nms) \<Rightarrow> Some (Inr (rec, nms))))"

subsection \<open>Removing\<close>

definition deleteNext :: "'e rotator \<Rightarrow> instant \<Rightarrow> did \<Rightarrow> did \<Rightarrow> 'e backend replacer" where
  "deleteNext R now ten key current w =
     (case (if length (current key) > 0
            then (case TenantIssuer (r_keylib R) (vault_Read (x_vault w)) ten of
                    Inl e \<Rightarrow> (Inl e, w)
                  | Inr issuer \<Rightarrow> PublishRevocations R now issuer (current key) w)
            else (Inr (), w)) of
        (Inl e, w') \<Rightarrow> (Inl e, w')
      | (Inr _, w') \<Rightarrow> (Inr (\<lambda>_. []), w'\<lparr>x_keys := key_Delete key (x_keys w')\<rparr>))"

definition DeleteKey :: "'e rotator \<Rightarrow> instant \<Rightarrow> string \<Rightarrow> string \<Rightarrow> 'e world \<Rightarrow> (err + unit) \<times> 'e world" where
  "DeleteKey R now externalID accessKeyID st =
     (let (ps, pol, ds, w) = st in
      case on_ok (tenantOf (x_tenants w) externalID) (\<lambda>ten. keyOf (r_keylib R) (x_keys w) ten accessKeyID) of
        Inl e \<Rightarrow> (Inl e, st)
      | Inr (ident, rec) \<Rightarrow>
          (case Replace [ident] (deleteNext R now (k_Tenant rec) ident) (r_wait R (ds, w)) of
             (Inl e, sw) \<Rightarrow> (Inl (if e = Store ErrLockTimeout then Api ErrConcurrentChange else e), ps, pol, sw)
           | (Inr _, ds', w') \<Rightarrow>
               (Inr (), ps, pol, ds',
                w'\<lparr>x_vault := vault_Delete (AccessKeyPath (k_Tenant rec) ident) (x_vault w')\<rparr>)))"

subsection \<open>A removal\<close>

lemma keyOf_Inr:
  "keyOf K ks ten accessKeyID = Inr (ident, rec) \<Longrightarrow> map_of ks ident = Some rec \<and> k_Tenant rec = ten"
  by (auto simp: keyOf_def key_Get_def mapGet_Inr split: option.splits sum.splits if_splits)

lemma deleteNext_Inl: "deleteNext R now ten key cur w = (Inl e, y) \<Longrightarrow> beyond w y"
  by (auto simp: deleteNext_def split: prod.splits sum.splits if_splits intro: PublishRevocations_beyond)

lemma deleteNext_Inr:
  assumes "deleteNext R now ten key cur w = (Inr nxt, y)"
  shows "nxt = (\<lambda>_. []) \<and> x_buckets y = x_buckets w \<and> x_keys y = key_Delete key (x_keys w)"
  using assms
  by (auto simp: deleteNext_def beyond_sel split: prod.splits sum.splits if_splits dest!: PublishRevocations_beyond)

lemma Replace_deleteNext:
  assumes "Replace auds (deleteNext R now ten key) (ds, w) = (r, ds', w')"
  shows "if r = Inr () then x_buckets w' = x_buckets w \<and> x_keys w' = key_Delete key (x_keys w) else beyond w w'"
  by (rule Replace_drop[OF _ _ assms]) (erule deleteNext_Inl, erule deleteNext_Inr)

lemma Replace_deleteNext_authority:
  assumes "delegate_ok U V" and "\<forall>a. authority ds a \<subseteq> V"
    and "Replace auds (deleteNext R now ten key) (ds, w) = (r, ds', w')"
  shows "authority ds' a = (if r = Inr () \<and> a \<in> set auds then {} else authority ds a)"
  by (rule Replace_nothing[OF assms(1,2) _ assms(3)]) (drule deleteNext_Inr, erule conjunct1)

text \<open>Fewer keys: what the others hold still stands in the relation.\<close>

lemma tracks_fewer:
  assumes tr: "tracks rel L (ps, pol, ds, w)" and ks: "without_keys ids (x_keys w) (x_keys w')"
    and auth: "\<And>a. a \<notin> ids \<Longrightarrow> authority ds' a = authority ds a"
  shows "tracks rel L (ps, pol, ds', w')"
proof (rule tracksI)
  fix key q b
  assume k: "map_of (x_keys w') (k_ID key) = Some key" "k_Principal key = Some q"
  then have old: "map_of (x_keys w) (k_ID key) = Some key" and id: "k_ID key \<notin> ids"
    using ks by (auto simp: without_keys_def split: if_splits)
  have "over ds' (k_ID key) b = over ds (k_ID key) b" by (rule over_authority[OF auth[OF id]])
  with tracksD[OF tr old k(2), of b]
  show "rel (commandsOver ds' (k_ID key) b) (granted L (policyOf pol (k_Tenant key) b) q)" by simp
qed

lemma without_one: "keys_ok ks \<Longrightarrow> without_keys {ident} ks (key_Delete ident ks)"
  by (simp add: without_keys_def keys_ok_Delete) (simp add: key_Delete_def)

lemma DeleteKey_cases:
  assumes "alone R" and "DeleteKey R now ext accessKeyID (ps, pol, ds, w) = (r, ps', pol', ds', w')"
  obtains (unknown) e where "r = Inl e" "(ps', pol', ds', w') = (ps, pol, ds, w)"
  | (found) ident rec q w1 where "map_of (x_keys w) ident = Some rec" "tenantOf (x_tenants w) ext = Inr (k_Tenant rec)"
      "DidParse (r_keylib R) (KeyPrefix (r_keylib R) @ accessKeyID) = Some ident"
      "Replace [ident] (deleteNext R now (k_Tenant rec) ident) (ds, w) = (q, ds', w1)" "(ps', pol') = (ps, pol)"
      "q = Inr () \<longleftrightarrow> r = Inr ()"
      "w' = (if r = Inr () then w1\<lparr>x_vault := vault_Delete (AccessKeyPath (k_Tenant rec) ident) (x_vault w1)\<rparr> else w1)"
proof (cases "tenantOf (x_tenants w) ext")
  case (Inl e)
  with assms(2) have "r = Inl e" "(ps', pol', ds', w') = (ps, pol, ds, w)" by (simp_all add: DeleteKey_def)
  then show thesis by (rule unknown)
next
  case t: (Inr ten)
  show thesis
  proof (cases "keyOf (r_keylib R) (x_keys w) ten accessKeyID")
    case (Inl e)
    with assms(2) t have "r = Inl e" "(ps', pol', ds', w') = (ps, pol, ds, w)" by (simp_all add: DeleteKey_def)
    then show thesis by (rule unknown)
  next
    case (Inr x)
    obtain ident rec where x: "x = (ident, rec)" by force
    have rec: "map_of (x_keys w) ident = Some rec" "k_Tenant rec = ten" using keyOf_Inr Inr x by blast+
    obtain q ds1 w1 where R: "Replace [ident] (deleteNext R now (k_Tenant rec) ident) (ds, w) = (q, ds1, w1)"
      by (rule prod_cases3)
    have wait: "r_wait R (ds, w) = (ds, w)" using assms(1) by (simp add: alone_def)
    have D: "DeleteKey R now ext accessKeyID (ps, pol, ds, w) =
      (case q of Inl e \<Rightarrow> (Inl (if e = Store ErrLockTimeout then Api ErrConcurrentChange else e), ps, pol, ds1, w1)
       | Inr _ \<Rightarrow> (Inr (), ps, pol, ds1, w1\<lparr>x_vault := vault_Delete (AccessKeyPath (k_Tenant rec) ident) (x_vault w1)\<rparr>))"
      unfolding DeleteKey_def Let_def prod.case t on_ok_simps Inr x sum.case wait R by (cases q) simp_all
    have "DidParse (r_keylib R) (KeyPrefix (r_keylib R) @ accessKeyID) = Some ident"
      using Inr x by (auto simp: keyOf_def split: option.splits sum.splits if_splits)
    moreover have "ds1 = ds'" using assms(2) unfolding D by (cases q) auto
    ultimately show thesis
      using assms(2) t rec R unfolding D by (intro found[of ident rec q w1]) (cases q; auto)+
  qed
qed

lemma deleteNext_revokes:
  assumes "deleteNext R now ten key cur w = (Inr nxt, y)" and "d \<in> set (cur key)"
    and "NotExpired (r_ucan R) d (unixSeconds now)"
  shows "\<exists>issuer batch. d \<in> set batch \<and> fst issuer = ten \<and> r_publish R issuer batch (x_ext w) = (Inr (), x_ext y)"
proof -
  have "length (cur key) > 0" using assms(2) by (cases "cur key") auto
  with assms(1) obtain issuer w1 where i: "TenantIssuer (r_keylib R) (vault_Read (x_vault w)) ten = Inr issuer"
    and p: "PublishRevocations R now issuer (cur key) w = (Inr (), w1)" and y: "x_ext y = x_ext w1"
    by (auto simp: deleteNext_def split: sum.splits prod.splits)
  have "fst issuer = ten" using i by (auto simp: TenantIssuer_def split: sum.splits option.splits)
  with PublishRevocations_Inr[OF p assms(2,3)] y show ?thesis by metis
qed

text \<open>What a removal that succeeds did: the key it named, of the caller's tenant, and no other.\<close>

definition key_removed ::
  "'e rotator \<Rightarrow> instant \<Rightarrow> did \<Rightarrow> access_key \<Rightarrow> 'e world \<Rightarrow> 'e world \<Rightarrow> bool" where
  "key_removed R now ident rec st st' \<longleftrightarrow>
     (let (ps, pol, ds, w) = st; (ps', pol', ds', w') = st' in
      map_of (x_keys w) ident = Some rec \<and> without_keys {ident} (x_keys w) (x_keys w') \<and>
      (\<forall>a. authority ds' a = (if a = ident then {} else authority ds a)) \<and>
      vault_Read (x_vault w') (AccessKeyPath (k_Tenant rec) ident) = Inl (Store ErrKeyNotFound) \<and>
      (\<forall>d \<in> authority ds ident. NotExpired (r_ucan R) d (unixSeconds now) \<longrightarrow>
         (\<exists>issuer batch. d \<in> set batch \<and> fst issuer = k_Tenant rec \<and>
            r_publish R issuer batch (x_ext w) = (Inr (), x_ext w'))))"

lemma DeleteKey_removes:
  assumes env: "env_ok L R V" and ks: "keys_ok (x_keys w)" and sub: "\<forall>a. authority ds a \<subseteq> V"
    and rec: "map_of (x_keys w) ident = Some rec"
    and run: "Replace [ident] (deleteNext R now (k_Tenant rec) ident) (ds, w) = (Inr (), ds', w1)"
    and w': "w' = w1\<lparr>x_vault := vault_Delete (AccessKeyPath (k_Tenant rec) ident) (x_vault w1)\<rparr>"
  shows "key_removed R now ident rec (ps, pol, ds, w) (ps, pol, ds', w')" and "x_buckets w' = x_buckets w"
    and "x_keys w' = key_Delete ident (x_keys w)"
proof -
  have drop: "x_buckets w1 = x_buckets w \<and> x_keys w1 = key_Delete ident (x_keys w)"
    using Replace_deleteNext[OF run] by simp
  then show "x_buckets w' = x_buckets w" "x_keys w' = key_Delete ident (x_keys w)" by (simp_all add: w')
  have auth: "authority ds' a = (if a = ident then {} else authority ds a)" for a
    using Replace_deleteNext_authority[OF env_okD(1)[OF env] sub run] by simp
  have rev: "\<exists>issuer batch. d \<in> set batch \<and> fst issuer = k_Tenant rec \<and>
      r_publish R issuer batch (x_ext w) = (Inr (), x_ext w')"
    if "d \<in> authority ds ident" "NotExpired (r_ucan R) d (unixSeconds now)" for d
    using run
  proof (cases rule: Replace_cases)
    case (written nxt)
    have "d \<in> set (currentOf (\<lambda>_. True) [ident] ds ident)" using that(1) by (simp add: currentOf_def authority_def)
    from deleteNext_revokes[OF written(2) this that(2)] show ?thesis by (simp add: w')
  qed simp
  show "key_removed R now ident rec (ps, pol, ds, w) (ps, pol, ds', w')"
    using rec auth rev drop without_one[OF ks, of ident]
    by (simp add: key_removed_def w' vault_simps)
qed

text \<open>
  Removing a key: the invariants stand, and either one key of the caller's tenant is gone from
  everywhere, what it held revoked first, or nothing changed.
\<close>

lemma DeleteKey_effect:
  assumes env: "env_ok L R V" and ok: "world_ok L V (ps, pol, ds, w)"
    and run: "DeleteKey R now ext accessKeyID (ps, pol, ds, w) = (r, ps', pol', ds', w')"
  shows "world_ok L V (ps', pol', ds', w') \<and>
    (tracks rel L (ps, pol, ds, w) \<longrightarrow> tracks rel L (ps', pol', ds', w')) \<and>
    (if r = Inr ()
     then (\<exists>ident rec. tenantOf (x_tenants w) ext = Inr (k_Tenant rec) \<and>
             DidParse (r_keylib R) (KeyPrefix (r_keylib R) @ accessKeyID) = Some ident \<and>
             key_removed R now ident rec (ps, pol, ds, w) (ps', pol', ds', w'))
     else beyond w w' \<and> (\<forall>a. authority ds' a = authority ds a))"
  using env_okD(2)[OF env] run
proof (cases rule: DeleteKey_cases)
  case unknown
  with ok show ?thesis by simp
next
  case (found ident rec q w1)
  note wk = world_okD[OF ok]
  have ps: "ps' = ps" "pol' = pol" using found(5) by simp_all
  show ?thesis
  proof (cases "r = Inr ()")
    case True
    then have q: "q = Inr ()" and w': "w' = w1\<lparr>x_vault := vault_Delete (AccessKeyPath (k_Tenant rec) ident) (x_vault w1)\<rparr>"
      using found(6,7) by simp_all
    note gone = DeleteKey_removes[OF env wk(4,5) found(1) found(4)[unfolded q] w']
    have removed: "key_removed R now ident rec (ps, pol, ds, w) (ps, pol, ds', w')" by (rule gone(1))
    have auth: "authority ds' a = (if a = ident then {} else authority ds a)" for a
      using removed by (simp add: key_removed_def)
    have wo: "without_keys {ident} (x_keys w) (x_keys w')" using removed by (simp add: key_removed_def)
    have "world_ok L V (ps, pol, ds', w')"
      using wk wo gone(2) by (intro world_okI) (auto simp: auth without_keys_def bound_live_def)
    moreover have "tracks rel L (ps, pol, ds', w')" if "tracks rel L (ps, pol, ds, w)"
      by (rule tracks_fewer[OF that wo]) (simp add: auth)
    ultimately show ?thesis using True removed found(2,3) unfolding ps by auto
  next
    case False
    with found(6) have q: "q \<noteq> Inr ()" by simp
    have w': "w' = w1" using found(7) False by simp
    have bw: "beyond w w'" unfolding w'
      using Replace_deleteNext[OF found(4)] q by simp
    have auth: "authority ds' a = authority ds a" for a
      using Replace_deleteNext_authority[OF env_okD(1)[OF env] wk(5) found(4), of a] q by simp
    show ?thesis
      using same_grants(1,3)[OF refl bw auth] ok bw auth False unfolding ps by simp
  qed
qed

subsection \<open>What a creation issues\<close>

text \<open>The pairs of a bucket and a command a list of delegations gives, and what each carries.\<close>

abbreviation pairsOf :: "dlg list \<Rightarrow> (did \<times> command) set" where
  "pairsOf ds \<equiv> (\<lambda>d. (d_Subject d, d_Command d)) ` set ds"

definition issued :: "dlg set \<Rightarrow> did \<Rightarrow> did \<Rightarrow> instant option \<Rightarrow> dlg list \<Rightarrow> bool" where
  "issued V ten key exp ds \<longleftrightarrow> (\<forall>d \<in> set ds. d \<in> V \<and> d_Issuer d = ten \<and> d_Audience d = key \<and>
     d_Expiration d = map_option unixSeconds exp)"

lemma Issue_pairs:
  assumes "delegate_ok U V" and "Issue U issuer ent key subjects actions exp = Inr ds"
  shows "pairsOf ds = set (if subjects = [] then [Undef] else subjects) \<times> set (commandsFor actions)"
    and "issued V (fst issuer) key exp ds"
proof -
  let ?subs = "if subjects = [] then [Undef] else subjects"
  from assms(2) have "issueLoop U issuer ent key (map_option unixSeconds exp)
      (concat (map (\<lambda>sub. map (Pair sub) (commandsFor actions)) ?subs)) 0 [] = Inr ds"
    by (simp add: Issue_def)
  from issueLoop_Inr[OF assms(1) this]
  have m: "map (\<lambda>d. (d_Subject d, d_Command d)) ds = concat (map (\<lambda>sub. map (Pair sub) (commandsFor actions)) ?subs)"
    and a: "\<forall>d \<in> set ds. d \<in> V \<and> d_Issuer d = fst issuer \<and> d_Audience d = key \<and>
       d_Expiration d = map_option unixSeconds exp"
    by auto
  have "pairsOf ds = set (concat (map (\<lambda>sub. map (Pair sub) (commandsFor actions)) ?subs))"
    unfolding m[symmetric] by simp
  also have "\<dots> = set ?subs \<times> set (commandsFor actions)" by auto
  finally show "pairsOf ds = set ?subs \<times> set (commandsFor actions)" .
  show "issued V (fst issuer) key exp ds" using a by (simp add: issued_def)
qed

lemma grantLoop_Inr:
  assumes "delegate_ok U V"
  shows "grantLoop U L issuer ent key p exp recs dels = Inr ds \<Longrightarrow>
    pairsOf ds = pairsOf dels \<union> (\<Union>rec \<in> set recs. {pol_Bucket rec} \<times> granted L (Some (pol_Policy rec)) p) \<and>
    (issued V (fst issuer) key exp dels \<longrightarrow> issued V (fst issuer) key exp ds)"
proof (induction recs arbitrary: dels)
  case (Cons rec recs)
  show ?case
  proof (cases "Effective L (Some (pol_Policy rec)) p = []")
    case True
    with Cons show ?thesis by simp
  next
    case False
    with Cons.prems obtain fresh where f: "Issue U issuer (ent (pol_Bucket rec)) key [pol_Bucket rec]
        (Effective L (Some (pol_Policy rec)) p) exp = Inr fresh"
      and rest: "grantLoop U L issuer ent key p exp recs (dels @ fresh) = Inr ds"
      by (auto simp: on_ok_Inr_iff)
    have pf: "pairsOf fresh = {pol_Bucket rec} \<times> granted L (Some (pol_Policy rec)) p"
      using Issue_pairs(1)[OF assms f] by simp
    have "pairsOf (dels @ fresh) = pairsOf dels \<union> {pol_Bucket rec} \<times> granted L (Some (pol_Policy rec)) p"
      unfolding pf[symmetric] by (simp add: image_Un)
    moreover have "issued V (fst issuer) key exp (dels @ fresh)" if "issued V (fst issuer) key exp dels"
      using that Issue_pairs(2)[OF assms f] by (auto simp: issued_def)
    ultimately show ?thesis using Cons.IH[OF rest] by auto
  qed
qed simp

text \<open>A principal's key is issued exactly what the policies of its tenant's buckets grant.\<close>

lemma principal_pairs:
  assumes dl: "delegate_ok U V" and pok: "policies_ok L pol"
    and run: "keyGrants U L issuer ent pol i = Inr ds" and p: "in_Principal i = Some p"
  shows "(b, c) \<in> pairsOf ds \<longleftrightarrow> c \<in> granted L (policyOf pol (in_Tenant i) b) p"
proof -
  let ?ten = "in_Tenant i"
  have "pairsOf ds = (\<Union>rec \<in> set (policy_ListByPrincipal pol ?ten p). {pol_Bucket rec} \<times> granted L (Some (pol_Policy rec)) p)"
    using grantLoop_Inr[OF dl] run p by (fastforce simp: keyGrants_def)
  then have "(b, c) \<in> pairsOf ds \<longleftrightarrow>
      (\<exists>rec \<in> set (policy_ListByPrincipal pol ?ten p). pol_Bucket rec = b \<and> c \<in> granted L (Some (pol_Policy rec)) p)"
    by auto
  also have "\<dots> \<longleftrightarrow> c \<in> granted L (policyOf pol ?ten b) p"
  proof
    assume "\<exists>rec \<in> set (policy_ListByPrincipal pol ?ten p). pol_Bucket rec = b \<and> c \<in> granted L (Some (pol_Policy rec)) p"
    then obtain rec where r: "rec \<in> set (policy_ListByPrincipal pol ?ten p)" "pol_Bucket rec = b"
      "c \<in> granted L (Some (pol_Policy rec)) p" by blast
    have "standing ?ten pol rec" using listed_policies(1)[OF pok] r(1) by blast
    with r show "c \<in> granted L (policyOf pol ?ten b) p" by (auto simp: standing_def policyOf_def)
  next
    assume c: "c \<in> granted L (policyOf pol ?ten b) p"
    then obtain e where e: "map_of pol b = Some e" "e_tenant e = ?ten" "policyOf pol ?ten b = Some (pol_Policy (e_rec e))"
      by (auto simp: policyOf_def split: option.splits if_splits)
    have b: "pol_Bucket (e_rec e) = b"
      using pok e(1) by (auto simp: policies_ok_def entry_ok_def dest: all_recordsD)
    have "\<exists>st \<in> set (Statements (pol_Policy (e_rec e))). names L st p"
    proof (rule ccontr)
      assume "\<not> ?thesis"
      then have "Effective L (Some (pol_Policy (e_rec e))) p = []" by (intro Effective_unnamed) blast
      with c e(3) show False by simp
    qed
    then have "e_rec e \<in> set (policy_ListByPrincipal pol ?ten p)"
      unfolding set_policy_ListByPrincipal[OF pok] using e(1,2) by (auto simp: names_def split: if_splits)
    with b c e(3) show "\<exists>rec \<in> set (policy_ListByPrincipal pol ?ten p).
        pol_Bucket rec = b \<and> c \<in> granted L (Some (pol_Policy rec)) p" by auto
  qed
  finally show ?thesis .
qed

lemma keyGrants_issued:
  assumes "delegate_ok U V" and "keyGrants U L issuer ent pol i = Inr ds"
  shows "issued V (fst issuer) (in_ID i) (in_ExpiresAt i) ds"
proof (cases "in_Principal i")
  case None
  with assms(2) Issue_pairs(2)[OF assms(1)] show ?thesis by (simp add: keyGrants_def)
next
  case (Some p)
  with assms(2) have "grantLoop U L issuer ent (in_ID i) p (in_ExpiresAt i)
      (policy_ListByPrincipal pol (in_Tenant i) p) [] = Inr ds" by (simp add: keyGrants_def)
  from grantLoop_Inr[OF assms(1) this] show ?thesis by (simp add: issued_def)
qed

subsection \<open>A creation, step by step\<close>

text \<open>
  A key generated anew: nothing is kept under its DID. Keys are random, so this is what the
  generation of keys is relied on for.
\<close>

definition freshKey :: "did \<Rightarrow> did \<Rightarrow> 'e world \<Rightarrow> bool" where
  "freshKey ten key st \<longleftrightarrow>
     (let (ps, pol, ds, w) = st in
      key \<notin> fst ` set (x_keys w) \<and> key \<notin> fst ` set (byAudience ds) \<and>
      AccessKeyPath ten key \<notin> fst ` set (x_vault w))"

lemma delete_fresh: "k \<notin> fst ` set al \<Longrightarrow> AList.delete k al = al"
  by (force simp: AList.delete_eq intro: filter_True)

lemma heldIn_fresh: "key \<notin> fst ` set m \<Longrightarrow> heldIn m key = []"
  by (simp add: heldIn_def map_of_eq_None_iff[symmetric])

lemma storeNext_same: "storeNext key dels cur w = (x, y) \<Longrightarrow> y = w"
  by (simp add: storeNext_def split: if_splits)

lemma storeGrants_cases:
  assumes "alone R" and "storeGrants R key dels (ds, w) = (r, ds', w')"
  shows "w' = w \<and> ((\<exists>e. r = Inl e) \<and> ds' = ds \<or> r = Inr () \<and> dels = [] \<and> ds' = ds \<or>
     r = Inr () \<and> fits (\<lambda>_. True) (\<lambda>a. if a = key then map Some dels else []) [key] \<and>
     ds' = writeLoop (\<lambda>_. True) (\<lambda>a. if a = key then map Some dels else []) [key] ds)"
proof (cases "dels = []")
  case True
  with assms(2) show ?thesis by (simp add: storeGrants_def)
next
  case False
  obtain q ds1 w1 where R: "Replace [key] (storeNext key dels) (ds, w) = (q, ds1, w1)" by (rule prod_cases3)
  have w1: "w1 = w"
    using R by (auto simp: Replace_def replace_def split: sum.splits prod.splits dest: storeNext_same)
  have "storeGrants R key dels (ds, w) =
      (case q of Inl e \<Rightarrow> (Inl (if e = Store ErrLockTimeout then Api ErrConcurrentChange else e), ds1, w1)
       | Inr _ \<Rightarrow> (Inr (), ds1, w1))"
    using False assms(1) R by (cases q) (simp_all add: storeGrants_def alone_def)
  with assms(2) have res: "ds' = ds1" "w' = w1" "if q = Inr () then r = Inr () else (\<exists>e. r = Inl e)"
    by (cases q; force)+
  from R show ?thesis
  proof (cases rule: Replace_cases)
    case (failed e)
    with res w1 show ?thesis by simp
  next
    case (written nxt)
    have "nxt = (\<lambda>a. if a = key then map Some dels else [])"
      using written(2) by (simp add: storeNext_def split: if_splits)
    with written res w1 show ?thesis by simp
  qed
qed

lemma storeGrants_authority:
  assumes dl: "delegate_ok U V" and sub: "\<forall>a. authority ds a \<subseteq> V" and dels: "set dels \<subseteq> V"
    and fresh: "authority ds key = {}" and "alone R" and run: "storeGrants R key dels (ds, w) = (Inr (), ds', w')"
  shows "authority ds' a = (if a = key then set dels else authority ds a)"
proof -
  let ?nxt = "\<lambda>a. if a = key then map Some dels else []"
  consider "dels = []" "ds' = ds"
    | "fits (\<lambda>_. True) ?nxt [key]" "ds' = writeLoop (\<lambda>_. True) ?nxt [key] ds"
    using storeGrants_cases[OF assms(5) run] by auto
  then show ?thesis
  proof cases
    case 2
    have "\<forall>a. set (somes (?nxt a)) \<subseteq> V" using dels by auto
    from authority_writeLoop[OF dl 2(1) sub this, of a] show ?thesis by (auto simp: 2(2))
  qed (use fresh in simp)
qed

lemma storeKey_cases:
  assumes "alone (v_rotator S)" and fr: "freshKey (in_Tenant i) (in_ID i) (ps, pol, ds, w)"
    and run: "storeKey S now ent issuer i bytes (ps, pol, ds, w) = (r, st')"
  obtains (failed) e where "r = Inl e" "st' = (ps, pol, ds, w)"
  | (stored) ks dels ds' where "r = Inr (key_record now i)"
      "key_Add (Some (liveGuard ps)) now i (x_keys w) = (Inr (), ks)"
      "keyGrants (r_ucan (v_rotator S)) (v_policy S) issuer ent pol i = Inr dels"
      "storeGrants (v_rotator S) (in_ID i) dels
        (ds, w\<lparr>x_vault := vault_Write (AccessKeyPath (in_Tenant i) (in_ID i)) bytes (x_vault w), x_keys := ks\<rparr>) =
       (Inr (), ds', w\<lparr>x_vault := vault_Write (AccessKeyPath (in_Tenant i) (in_ID i)) bytes (x_vault w), x_keys := ks\<rparr>)"
      "st' = (ps, pol, ds', w\<lparr>x_vault := vault_Write (AccessKeyPath (in_Tenant i) (in_ID i)) bytes (x_vault w), x_keys := ks\<rparr>)"
proof -
  let ?path = "AccessKeyPath (in_Tenant i) (in_ID i)"
  let ?w1 = "w\<lparr>x_vault := vault_Write ?path bytes (x_vault w)\<rparr>"
  have fresh: "in_ID i \<notin> fst ` set (x_keys w)" "in_ID i \<notin> fst ` set (byAudience ds)" "?path \<notin> fst ` set (x_vault w)"
    using fr by (simp_all add: freshKey_def)
  have noDlgs: "snd (DeleteByAudience (in_ID i) ds) = ds"
    by (simp add: DeleteByAudience_def delete_fresh[OF fresh(2)] split: sum.split)
  have undo: "rollbackKey (in_Tenant i) (in_ID i) (ds, w\<lparr>x_vault := vault_Write ?path bytes (x_vault w), x_keys := ks\<rparr>) = (ds, w)"
    if "AList.delete (in_ID i) ks = x_keys w" for ks
    using that by (simp add: rollbackKey_def noDlgs key_Delete_def vault_Delete_def vault_Write_def
        delete_update_same delete_fresh[OF fresh(3)])
  obtain q ks where add: "key_Add (Some (liveGuard ps)) now i (x_keys w) = (q, ks)" by force
  show thesis
  proof (cases q)
    case (Inl e)
    have "rollbackKey (in_Tenant i) (in_ID i) (ds, ?w1) = (ds, w)"
      using undo[of "x_keys w"] by (simp add: delete_fresh[OF fresh(1)])
    with run add Inl show thesis by (intro failed[of "addKeyError i e"]) (simp_all add: storeKey_def Let_def)
  next
    case (Inr u)
    then have ok: "key_Add (Some (liveGuard ps)) now i (x_keys w) = (Inr (), ks)" using add by simp
    have ks: "ks = AList.update (in_ID i) (key_record now i) (x_keys w)"
      by (rule key_add_Inr(3)[OF key_Add_Inr(2)[OF ok]])
    let ?w2 = "w\<lparr>x_vault := vault_Write ?path bytes (x_vault w), x_keys := ks\<rparr>"
    have undo2: "rollbackKey (in_Tenant i) (in_ID i) (ds, ?w2) = (ds, w)"
      by (rule undo) (simp add: ks delete_update_same delete_fresh[OF fresh(1)])
    show thesis
    proof (cases "keyGrants (r_ucan (v_rotator S)) (v_policy S) issuer ent pol i")
      case (Inl e)
      with run ok undo2 show thesis by (intro failed[of e]) (simp_all add: storeKey_def Let_def)
    next
      case g: (Inr dels)
      obtain x ds1 w3 where st: "storeGrants (v_rotator S) (in_ID i) dels (ds, ?w2) = (x, ds1, w3)" by (rule prod_cases3)
      note sg = storeGrants_cases[OF assms(1) st]
      show thesis
      proof (cases x)
        case (Inl e)
        with sg have "ds1 = ds" "w3 = ?w2" by auto
        with run ok g st Inl undo2 show thesis by (intro failed[of e]) (simp_all add: storeKey_def Let_def)
      next
        case x: (Inr v)
        have "key_Get ks (in_ID i) = Inr (key_record now i)" by (simp add: ks key_Get_def)
        with run ok g st x sg show thesis by (intro stored[of ks dels ds1]) (auto simp: storeKey_def Let_def)
      qed
    qed
  qed
qed

lemma liveGuard_live:
  assumes "liveGuard ps t p = Inr ()"
  shows "live ps (t, p)"
proof (cases "hold [(t, p)] ps")
  case (Pair x ps1)
  with assms obtain u where x: "x = Inr u" by (cases x) (auto simp: liveGuard_def WithLive_def withRows_def)
  then have "p_rows ps1 = p_rows ps" using hold_Inr(1)[of "[(t, p)]" ps ps1] Pair by simp
  with assms Pair x show ?thesis by (simp add: liveGuard_def WithLive_def withRows_def live_def split: if_splits)
qed

lemma commandsOver_pairs: "authority s a = set ds \<Longrightarrow> c \<in> commandsOver s a b \<longleftrightarrow> (b, c) \<in> pairsOf ds"
  by (force simp: over_def)

text \<open>What a creation that succeeds leaves, of the key and of everything else.\<close>

definition key_created ::
  "dlg set \<Rightarrow> instant \<Rightarrow> key_input \<Rightarrow> string \<Rightarrow> dlg list \<Rightarrow> 'e world \<Rightarrow> 'e world \<Rightarrow> bool" where
  "key_created V now i bytes dels st st' \<longleftrightarrow>
     (let (ps, pol, ds, w) = st; (ps', pol', ds', w') = st' in
      ps' = ps \<and> pol' = pol \<and> x_buckets w' = x_buckets w \<and> x_tenants w' = x_tenants w \<and> x_ext w' = x_ext w \<and>
      (\<forall>k. key_Get (x_keys w') k = (if k = in_ID i then Inr (key_record now i) else key_Get (x_keys w) k)) \<and>
      vault_Read (x_vault w') (AccessKeyPath (in_Tenant i) (in_ID i)) = Inr bytes \<and>
      (\<forall>a. authority ds' a = (if a = in_ID i then set dels else authority ds a)) \<and>
      issued V (in_Tenant i) (in_ID i) (in_ExpiresAt i) dels)"

lemma storeKey_effect:
  assumes env: "env_ok (v_policy S) (v_rotator S) V" and ok: "world_ok (v_policy S) V (ps, pol, ds, w)"
    and fr: "freshKey (in_Tenant i) (in_ID i) (ps, pol, ds, w)" and iss: "fst issuer = in_Tenant i" and refl: "reflp rel"
    and run: "storeKey S now ent issuer i bytes (ps, pol, ds, w) = (r, st')"
  shows "(\<forall>e. r = Inl e \<longrightarrow> st' = (ps, pol, ds, w)) \<and>
    (\<forall>rec. r = Inr rec \<longrightarrow> rec = key_record now i \<and> world_ok (v_policy S) V st' \<and>
       (tracks rel (v_policy S) (ps, pol, ds, w) \<longrightarrow> tracks rel (v_policy S) st') \<and>
       (\<exists>dels. keyGrants (r_ucan (v_rotator S)) (v_policy S) issuer ent pol i = Inr dels \<and>
          key_created V now i bytes dels (ps, pol, ds, w) st'))"
  using env_okD(2)[OF env] fr run
proof (cases rule: storeKey_cases)
  case failed
  then show ?thesis by simp
next
  case (stored ks dels ds')
  let ?L = "v_policy S"
  let ?w' = "w\<lparr>x_vault := vault_Write (AccessKeyPath (in_Tenant i) (in_ID i)) bytes (x_vault w), x_keys := ks\<rparr>"
  note wk = world_okD[OF ok] and dl = env_okD(1)[OF env]
  have isd: "issued V (in_Tenant i) (in_ID i) (in_ExpiresAt i) dels"
    using keyGrants_issued[OF dl stored(3)] iss by simp
  have "authority ds (in_ID i) = {}" using fr by (simp add: freshKey_def authority_def heldIn_fresh)
  moreover have "set dels \<subseteq> V" using isd by (auto simp: issued_def)
  ultimately have auth: "authority ds' a = (if a = in_ID i then set dels else authority ds a)" for a
    using storeGrants_authority[OF dl wk(5) _ _ env_okD(2)[OF env] stored(4)] by simp
  have ks: "ks = AList.update (in_ID i) (key_record now i) (x_keys w)"
    by (rule key_add_Inr(3)[OF key_Add_Inr(2)[OF stored(2)]])
  have live: "live ps (in_Tenant i, p)" if "in_Principal i = Some p" for p
    using key_Add_Inr(3)[OF stored(2) that HOL.refl] liveGuard_live by blast
  have created: "key_created V now i bytes dels (ps, pol, ds, w) (ps, pol, ds', ?w')"
    by (simp add: key_created_def ks key_Get_def vault_simps auth isd)
  have "world_ok ?L V (ps, pol, ds', ?w')"
    using wk keys_ok_Add[OF wk(4) stored(2)] live \<open>set dels \<subseteq> V\<close>
    by (intro world_okI) (auto simp: auth ks bound_live_def update_conv' key_record_def split: if_splits)
  moreover have "tracks rel ?L (ps, pol, ds', ?w')" if tr: "tracks rel ?L (ps, pol, ds, w)"
  proof (rule tracksI)
    fix key p b
    assume k: "map_of (x_keys ?w') (k_ID key) = Some key" "k_Principal key = Some p"
    show "rel (commandsOver ds' (k_ID key) b) (granted ?L (policyOf pol (k_Tenant key) b) p)"
    proof (cases "k_ID key = in_ID i")
      case True
      with k(1) have "key = key_record now i" by (simp add: ks update_conv')
      with k(2) have p: "in_Principal i = Some p" and t: "k_Tenant key = in_Tenant i" by (simp_all add: key_record_def)
      have "authority ds' (k_ID key) = set dels" by (simp add: auth True)
      then have "commandsOver ds' (k_ID key) b = granted ?L (policyOf pol (k_Tenant key) b) p"
        using principal_pairs[OF dl wk(2) stored(3) p, of b] commandsOver_pairs[of ds' "k_ID key" dels _ b]
        unfolding t by blast
      then show ?thesis using reflpD[OF refl] by simp
    next
      case False
      with k(1) have old: "map_of (x_keys w) (k_ID key) = Some key" by (simp add: ks update_conv')
      have "over ds' (k_ID key) b = over ds (k_ID key) b" by (rule over_authority) (simp add: auth False)
      with tracksD[OF tr old k(2), of b] show ?thesis by simp
    qed
  qed
  ultimately show ?thesis using stored(1,3,5) created by auto
qed

subsection \<open>The whole creation\<close>

lemma resolveNames_Inr:
  "resolveNames byName nms ids = Inr ids' \<Longrightarrow> \<exists>new. ids' = ids @ new \<and> list_all2 (\<lambda>n b. map_of byName n = Some b) nms new"
proof (induction nms arbitrary: ids)
  case (Cons n nms)
  then obtain b where b: "map_of byName n = Some b" and rest: "resolveNames byName nms (ids @ [b]) = Inr ids'"
    by (auto split: option.splits)
  from Cons.IH[OF rest] b show ?case by force
qed simp

text \<open>The buckets a service key is scoped to are the tenant's own, under the names given.\<close>

definition named_in :: "buckets \<Rightarrow> did \<Rightarrow> string \<Rightarrow> did \<Rightarrow> bool" where
  "named_in bs ten n b \<longleftrightarrow> (\<exists>bk. map_of bs b = Some bk \<and> b_Name bk = n \<and> b_Tenant bk = ten)"

lemma namedBuckets_spec:
  assumes "buckets_ok bs"
  shows "\<exists>res. namedBuckets bs ten nms = Some res \<and> (\<forall>ids. res = Inr ids \<longrightarrow> list_all2 (named_in bs ten) nms ids)"
proof (cases "nms = []")
  case True
  then show ?thesis by (simp add: namedBuckets_def)
next
  case False
  let ?q = "\<lparr>q_IDs = [], q_Names = nms, q_Prefix = [], q_Provider = Undef, q_Limit = None\<rparr>"
  have "valid_query (ten, ?q)" by (simp add: valid_query_def bucket_limit_def defaultListLimit_def)
  note whole = bucket_pages.collect_whole[OF assms this]
  have own: "named_in bs ten n b" if "map_of (rev (map (\<lambda>b. (b_Name b, b_ID b)) (all_buckets bs (ten, ?q)))) n = Some b" for n b
  proof -
    from map_of_SomeD[OF that] obtain bk where bk: "bk \<in> set (all_buckets bs (ten, ?q))" "n = b_Name bk" "b = b_ID bk" by auto
    then obtain k where k: "(k, bk) \<in> set bs" and sel: "bucket_selected ten ?q bk" by (auto simp: all_buckets_def)
    have "map_of bs k = Some bk" using k buckets_okD(1)[OF assms] by (simp add: gomap_in_iff)
    with buckets_okD(3)[OF assms this] bk sel show ?thesis by (auto simp: named_in_def bucket_selected_def)
  qed
  have "namedBuckets bs ten nms =
      Some (resolveNames (rev (map (\<lambda>b. (b_Name b, b_ID b)) (all_buckets bs (ten, ?q)))) nms [])"
    using False by (simp add: namedBuckets_def whole)
  moreover have "list_all2 (named_in bs ten) nms ids"
    if "resolveNames (rev (map (\<lambda>b. (b_Name b, b_ID b)) (all_buckets bs (ten, ?q)))) nms [] = Inr ids" for ids
    using resolveNames_Inr[OF that] own by (auto elim: list_all2_mono)
  ultimately show ?thesis by blast
qed

definition newInput ::
  "did \<Rightarrow> did \<Rightarrow> string \<Rightarrow> did list \<Rightarrow> string list \<Rightarrow> string option \<Rightarrow> instant option \<Rightarrow> key_input" where
  "newInput key ten nm bucketIDs perms prin exp =
     \<lparr>in_ID = key, in_Tenant = ten, in_Name = nm, in_Buckets = (if prin = None then bucketIDs else []),
      in_Permissions = (if prin = None then perms else []), in_Principal = prin, in_ExpiresAt = exp\<rparr>"

lemma CreateKey_cases:
  assumes bs: "buckets_ok (x_buckets w)"
  obtains (refused) e where "CreateKey S now gen ent ext nm perms bns prin exp (ps, pol, ds, w) = Some (Inl e, ps, pol, ds, w)"
  | (stored) ten issuer key bytes secret ids q st' where
      "tenantOf (x_tenants w) ext = Inr ten" "fst issuer = ten" "gen = Some (key, bytes)"
      "Base64url (r_keylib (v_rotator S)) bytes = Some secret"
      "list_all2 (named_in (x_buckets w) ten) bns ids"
      "storeKey S now ent issuer (newInput key ten nm ids perms prin exp) bytes (ps, pol, ds, w) = (q, st')"
      "CreateKey S now gen ent ext nm perms bns prin exp (ps, pol, ds, w) =
         Some (case q of Inl e \<Rightarrow> (Inl e, st') | Inr rec \<Rightarrow> (Inr (rec, secret), st'))"
proof -
  let ?K = "r_keylib (v_rotator S)"
  let ?run = "CreateKey S now gen ent ext nm perms bns prin exp (ps, pol, ds, w)"
  let ?checks = "on_ok (keyArgs (v_policy S) nm perms bns prin) (\<lambda>_. on_ok (tenantOf (x_tenants w) ext) (\<lambda>ten.
    on_ok (knownPrincipal ps ten prin) (\<lambda>_. TenantIssuer ?K (vault_Read (x_vault w)) ten)))"
  show thesis
  proof (cases ?checks)
    case (Inl e)
    then have "?run = Some (Inl e, ps, pol, ds, w)" unfolding CreateKey_def Let_def prod.case Inl by simp
    then show thesis by (rule refused)
  next
    case checks: (Inr issuer)
    then obtain ten where t: "tenantOf (x_tenants w) ext = Inr ten"
      and i: "TenantIssuer ?K (vault_Read (x_vault w)) ten = Inr issuer"
      by (auto simp: on_ok_Inr_iff)
    have ten: "fst issuer = ten" using i by (auto simp: TenantIssuer_def split: sum.splits option.splits)
    obtain res where res: "namedBuckets (x_buckets w) ten bns = Some res"
      "\<And>ids. res = Inr ids \<Longrightarrow> list_all2 (named_in (x_buckets w) ten) bns ids"
      using namedBuckets_spec[OF bs] by blast
    note start = CreateKey_def[of S now gen ent ext nm perms bns prin exp "(ps, pol, ds, w)",
        unfolded Let_def prod.case checks sum.case ten res(1) option.case]
    show thesis
    proof (cases res)
      case (Inl e)
      with start have "?run = Some (Inl e, ps, pol, ds, w)" by simp
      then show thesis by (rule refused)
    next
      case ids: (Inr ids)
      show thesis
      proof (cases gen)
        case None
        with start ids have "?run = Some (Inl (Internal ''generating access key''), ps, pol, ds, w)" by simp
        then show thesis by (rule refused)
      next
        case (Some kb)
        obtain key bytes where kb: "gen = Some (key, bytes)" using Some by (cases kb) simp
        show thesis
        proof (cases "Base64url ?K bytes")
          case None
          with start ids kb have "?run = Some (Inl (Internal ''encoding secret access key''), ps, pol, ds, w)" by simp
          then show thesis by (rule refused)
        next
          case sec: (Some secret)
          let ?i = "newInput key ten nm ids perms prin exp"
          have new: "(case prin of Some p \<Rightarrow> NewPrincipalKey key ten nm p exp
              | None \<Rightarrow> NewServiceKey key ten nm ids perms exp) = (?i, key_Validate ?i)"
            by (cases prin) (simp_all add: NewPrincipalKey_def NewServiceKey_def newInput_def Let_def)
          obtain q st' where q: "storeKey S now ent issuer ?i bytes (ps, pol, ds, w) = (q, st')" by (rule prod.exhaust)
          have run: "?run = (case key_Validate ?i of Inl e \<Rightarrow> Some (Inl e, ps, pol, ds, w)
              | Inr _ \<Rightarrow> Some (case q of Inl e \<Rightarrow> (Inl e, st') | Inr rec \<Rightarrow> (Inr (rec, secret), st')))"
            unfolding start unfolding ids kb sum.case option.case prod.case sec new q by (cases q; cases "key_Validate ?i") simp_all
          show thesis
          proof (cases "key_Validate ?i")
            case (Inl e)
            with run have "?run = Some (Inl e, ps, pol, ds, w)" by simp
            then show thesis by (rule refused)
          next
            case (Inr u)
            with run have "?run = Some (case q of Inl e \<Rightarrow> (Inl e, st') | Inr rec \<Rightarrow> (Inr (rec, secret), st'))" by simp
            with t ten kb sec res(2)[OF ids] q show thesis by (rule stored)
          qed
        qed
      qed
    qed
  qed
qed

subsection \<open>Properties\<close>

text \<open>What the key is issued: a service key its permissions over its buckets or over all, a principal's what the policies grant.\<close>

definition issued_as_asked ::
  "policy_lib \<Rightarrow> policies \<Rightarrow> buckets \<Rightarrow> did \<Rightarrow> string list \<Rightarrow> string list \<Rightarrow> string option \<Rightarrow> key_input \<Rightarrow> dlg list \<Rightarrow> bool" where
  "issued_as_asked L pol bs ten perms bns prin i dels \<longleftrightarrow>
     (case prin of
        None \<Rightarrow> list_all2 (named_in bs ten) bns (in_Buckets i) \<and> in_Permissions i = perms \<and>
          pairsOf dels = set (if in_Buckets i = [] then [Undef] else in_Buckets i) \<times> set (commandsFor perms)
      | Some p \<Rightarrow> in_Buckets i = [] \<and> in_Permissions i = [] \<and>
          (\<forall>b c. (b, c) \<in> pairsOf dels \<longleftrightarrow> c \<in> granted L (policyOf pol ten b) p))"

text \<open>For the witnesses: key DIDs without a prefix, and the sample world before its key.\<close>

definition key_rotator :: "dlg list rotator" where
  "key_rotator = sample_rotator\<lparr>r_keylib := sample_keylib\<lparr>KeyPrefix := []\<rparr>\<rparr>"

definition key_service :: "dlg list policy_service" where
  "key_service = \<lparr>v_policy = sample_lib, v_rotator = key_rotator\<rparr>"

definition key_world :: "dlg list world" where
  "key_world = (let (ps, pol, ds, w) = sample_tenant_world
     in (ps, pol, \<lparr>byAudience = [], d_wait = None\<rparr>, w\<lparr>x_keys := []\<rparr>))"

lemma key_service_sel [simp]: "v_policy key_service = sample_lib" "v_rotator key_service = key_rotator"
  by (simp_all add: key_service_def)

lemma key_env_ok: "env_ok sample_lib key_rotator sample_universe"
  using sample_env_ok by (simp add: env_ok_def alone_def key_rotator_def)

lemma key_world_ok: "world_ok sample_lib sample_universe key_world" "in_step sample_lib key_world"
proof -
  obtain ps pol ds w where s: "sample_tenant_world = (ps, pol, ds, w)" by (rule prod_cases4)
  note ok = world_okD[OF sample_tenant_world_ok[unfolded s, THEN conjunct1]]
  show "world_ok sample_lib sample_universe key_world"
    using ok(1-3) by (simp add: world_ok_def key_world_def s keys_ok_def bound_live_def authority_def)
  show "in_step sample_lib key_world" by (simp add: key_world_def s tracks_def)
qed

abbreviation sample_creation :: "((err + access_key \<times> string) \<times> dlg list world) option" where
  "sample_creation \<equiv> CreateKey key_service 2 (Some (Did ''k'', ''z'')) (\<lambda>_ _. []) ''ext'' ''laptop'' [] [] (Some ''alice'') None key_world"

lemma sample_creation_ok:
  "map_option (map_sum (\<lambda>_. ()) snd \<circ> fst) sample_creation = Some (Inr ''uz'')"
  "x_keys (snd (snd (snd key_world))) = []" "byAudience (fst (snd (snd key_world))) = []"
  "x_vault (snd (snd (snd key_world))) = [(''/tenant/t'', ''s'')]"
  "tenantOf (x_tenants (snd (snd (snd key_world)))) ''ext'' = Inr (Did ''t'')"
  by code_simp+

lemma sample_buckets_ok: "buckets_ok (x_buckets (snd (snd (snd key_world))))"
proof -
  have "x_buckets (snd (snd (snd key_world))) = [(Did ''b'', \<lparr>b_ID = Did ''b'', b_Tenant = Did ''t'', b_Provider = Did ''p'',
       b_Name = ''photos'', b_CreatedAt = 0\<rparr>)]" "ValidateName ''photos'' = Inr ()"
    by code_simp+
  then show ?thesis by (simp add: buckets_ok_def wf_gomap_def all_records_def unique_by_def)
qed

text \<open>
  C15. The creation of a key is all or nothing: it ends; when it fails at any step the world is
  exactly what it was, the key's secret and its record rolled back; and when it succeeds the
  record reads back, the secret is kept in the vault, the key holds the delegations the tenant
  issued it and nothing else changed: for a service key one command for each pair of a
  permission's command and a bucket of the tenant it names (or none, for all), for a
  principal's key exactly what the tenant's policies grant the principal; and what keys hold
  follows the policies if it did before.
\<close>

theorem key_creation:
  assumes env: "env_ok (v_policy S) (v_rotator S) V" and ok: "world_ok (v_policy S) V (ps, pol, ds, w)"
    and bs: "buckets_ok (x_buckets w)" and rel: "rel \<in> {(\<subseteq>), (=)}"
    and fr: "\<forall>ten key bytes. tenantOf (x_tenants w) ext = Inr ten \<and> gen = Some (key, bytes) \<longrightarrow>
      freshKey ten key (ps, pol, ds, w)"
  shows "\<exists>r st'. CreateKey S now gen ent ext nm perms bns prin exp (ps, pol, ds, w) = Some (r, st') \<and>
    (\<forall>e. r = Inl e \<longrightarrow> st' = (ps, pol, ds, w)) \<and>
    (\<forall>rec secret. r = Inr (rec, secret) \<longrightarrow> world_ok (v_policy S) V st' \<and>
       (tracks rel (v_policy S) (ps, pol, ds, w) \<longrightarrow> tracks rel (v_policy S) st') \<and>
       (\<exists>ten key bytes i dels. tenantOf (x_tenants w) ext = Inr ten \<and> gen = Some (key, bytes) \<and>
          Base64url (r_keylib (v_rotator S)) bytes = Some secret \<and>
          in_ID i = key \<and> in_Tenant i = ten \<and> in_Name i = nm \<and> in_Principal i = prin \<and> in_ExpiresAt i = exp \<and>
          rec = key_record now i \<and> key_created V now i bytes dels (ps, pol, ds, w) st' \<and>
          issued_as_asked (v_policy S) pol (x_buckets w) ten perms bns prin i dels))"
  using bs
proof (cases rule: CreateKey_cases[where S = S and now = now and gen = gen and ent = ent and ext = ext and nm = nm
      and perms = perms and bns = bns and prin = prin and exp = exp and ps = ps and pol = pol and ds = ds])
  case (refused e)
  then show ?thesis by auto
next
  case (stored ten issuer key bytes secret ids q st')
  let ?i = "newInput key ten nm ids perms prin exp"
  have refl: "reflp rel" using rel by (auto simp: reflp_def)
  have f: "freshKey (in_Tenant ?i) (in_ID ?i) (ps, pol, ds, w)"
    using fr stored(1,3) by (simp add: newInput_def)
  have iss: "fst issuer = in_Tenant ?i" by (simp add: newInput_def stored(2))
  note eff = storeKey_effect[OF env ok f iss refl stored(6)]
  show ?thesis
  proof (cases q)
    case (Inl e)
    with eff stored(7) show ?thesis by auto
  next
    case (Inr rec)
    with eff obtain dels where d: "rec = key_record now ?i" "world_ok (v_policy S) V st'"
      "tracks rel (v_policy S) (ps, pol, ds, w) \<longrightarrow> tracks rel (v_policy S) st'"
      "keyGrants (r_ucan (v_rotator S)) (v_policy S) issuer ent pol ?i = Inr dels"
      "key_created V now ?i bytes dels (ps, pol, ds, w) st'" by blast
    have "issued_as_asked (v_policy S) pol (x_buckets w) ten perms bns prin ?i dels"
    proof (cases prin)
      case None
      then have "Issue (r_ucan (v_rotator S)) issuer (ent Undef) key ids perms exp = Inr dels"
        using d(4) by (simp add: keyGrants_def newInput_def)
      from Issue_pairs(1)[OF env_okD(1)[OF env] this] stored(5) None show ?thesis
        by (simp add: issued_as_asked_def newInput_def)
    next
      case (Some p)
      have "in_Principal ?i = Some p" "in_Tenant ?i = ten" by (simp_all add: newInput_def Some)
      with principal_pairs[OF env_okD(1)[OF env] world_okD(2)[OF ok] d(4)] Some show ?thesis
        by (simp add: issued_as_asked_def newInput_def)
    qed
    moreover have "in_ID ?i = key" "in_Tenant ?i = ten" "in_Name ?i = nm" "in_Principal ?i = prin" "in_ExpiresAt ?i = exp"
      by (simp_all add: newInput_def)
    ultimately show ?thesis using stored(1,3,4,7) Inr d(1-3,5) by (intro exI[of _ "Inr (rec, secret)"] exI[of _ st']) auto
  qed
qed

theorem key_creation_witness:
  "\<exists>rec st'. sample_creation = Some (Inr (rec, ''uz''), st') \<and> in_step sample_lib st'"
proof -
  obtain ps pol ds w where s: "key_world = (ps, pol, ds, w)" by (rule prod_cases4)
  note v = sample_creation_ok[unfolded s fst_conv snd_conv]
  have fr: "\<forall>ten key bytes. tenantOf (x_tenants w) ''ext'' = Inr ten \<and> Some (Did ''k'', ''z'') = Some (key, bytes) \<longrightarrow>
      freshKey ten key (ps, pol, ds, w)"
    using v(2-5) by (auto simp: freshKey_def AccessKeyPath_def TenantKeyPath_def)
  have rel: "(=) \<in> {(\<subseteq>), (=) :: command set \<Rightarrow> command set \<Rightarrow> bool}" by simp
  note ok = key_world_ok[unfolded s] and bs = sample_buckets_ok[unfolded s fst_conv snd_conv]
  obtain r st' where c: "sample_creation = Some (r, st')"
    and done': "\<forall>rec secret. r = Inr (rec, secret) \<longrightarrow> in_step sample_lib st'"
    using key_creation[of key_service, unfolded key_service_sel, OF key_env_ok ok(1) bs rel fr, of 2 "\<lambda>_ _. []"
        "''laptop''" "[]" "[]" "Some ''alice''" None] ok(2) unfolding s by blast
  then obtain rec secret where "r = Inr (rec, secret)" "secret = ''uz''"
    using v(1) by (cases r) (auto simp: s)
  with c done' show ?thesis by auto
qed



end
