(* ===== verification/Wrap_Keys.thy ===== *)
theory Wrap_Keys
  imports Vault
begin

text \<open>
  \<open>pkg/wrapkey\<close> and \<open>pkg/store/wrapkey\<close>: the encoding of a tenant's X25519 wrap key, and the
  registry of its versions with the memory backend. A version is archived, not removed, so
  that what was wrapped under it stays recoverable; only the removal of the tenant removes it.
\<close>

subsection \<open>The encoding of a key\<close>

text \<open>
  The varint and multibase libraries, and the public half \<open>crypto/ecdh\<close> computes for a private
  key. \<open>FromUvarint\<close> answers a number and how many bytes it took, \<open>None\<close> being an error.
\<close>

record multiformats =
  PutUvarint :: "nat \<Rightarrow> string"
  FromUvarint :: "string \<Rightarrow> (nat \<times> nat) option"
  Base58BTC :: "string \<Rightarrow> string"
  X25519Public :: "string \<Rightarrow> string"

definition PublicKeyCode :: nat where "PublicKeyCode = 0xec"
definition PrivateKeyCode :: nat where "PrivateKeyCode = 0x1302"
definition KeySize :: nat where "KeySize = 32"

definition wk_tag :: "multiformats \<Rightarrow> nat \<Rightarrow> string \<Rightarrow> string" where
  "wk_tag M code b = PutUvarint M code @ b"

definition wk_untag :: "multiformats \<Rightarrow> nat \<Rightarrow> string \<Rightarrow> err + string" where
  "wk_untag M code b =
     (case FromUvarint M b of
        None \<Rightarrow> Inl (Internal ''reading multicodec varint'')
      | Some (got, n) \<Rightarrow> if got \<noteq> code then Inl (Internal ''expected multicodec'') else Inr (drop n b))"

text \<open>A key pair is its raw private half; \<open>crypto/ecdh\<close> takes any 32 bytes.\<close>

definition wk_FromRaw :: "string \<Rightarrow> err + string" where
  "wk_FromRaw b = (if length b \<noteq> KeySize then Inl (Internal ''invalid X25519 private key'') else Inr b)"

definition wk_Decode :: "multiformats \<Rightarrow> string \<Rightarrow> err + string" where
  "wk_Decode M b = on_ok (wk_untag M PrivateKeyCode b) wk_FromRaw"

definition wk_Bytes :: "multiformats \<Rightarrow> string \<Rightarrow> string" where
  "wk_Bytes M k = wk_tag M PrivateKeyCode k"

definition wk_PublicBytes :: "multiformats \<Rightarrow> string \<Rightarrow> string" where
  "wk_PublicBytes M k = wk_tag M PublicKeyCode (X25519Public M k)"

definition wk_String :: "multiformats \<Rightarrow> string \<Rightarrow> string" where
  "wk_String M k = Base58BTC M (wk_PublicBytes M k)"

definition wk_KeyDID :: "multiformats \<Rightarrow> string \<Rightarrow> did" where
  "wk_KeyDID M k = Did (''did:key:'' @ wk_String M k)"

text \<open>A varint is read back from the front of what follows it.\<close>

definition varint_ok :: "multiformats \<Rightarrow> bool" where
  "varint_ok M \<longleftrightarrow> (\<forall>c b. FromUvarint M (PutUvarint M c @ b) = Some (c, length (PutUvarint M c)))"

lemma wk_Decode_Bytes: "varint_ok M \<Longrightarrow> wk_FromRaw k = Inr k \<Longrightarrow> wk_Decode M (wk_Bytes M k) = Inr k"
  by (simp add: wk_Decode_def wk_Bytes_def wk_untag_def wk_tag_def varint_ok_def)

text \<open>What is published is never read as a private half.\<close>

lemma wk_Decode_Public: "varint_ok M \<Longrightarrow> \<exists>e. wk_Decode M (wk_PublicBytes M k) = Inl e"
  by (simp add: wk_Decode_def wk_PublicBytes_def wk_untag_def wk_tag_def varint_ok_def PublicKeyCode_def PrivateKeyCode_def)

subsection \<open>The registry\<close>

datatype (plugins only: code) wrap_status = Current | Archived

record wrap_rec =
  wr_Tenant :: did
  wr_Version :: int
  wr_KID :: string
  wr_Status :: wrap_status
  wr_Epoch :: int
  wr_VaultKey :: string
  wr_CreatedAt :: instant
  wr_ArchivedAt :: "instant option"

record wrap_input =
  wi_Tenant :: did
  wi_Version :: int
  wi_KID :: string
  wi_Epoch :: int
  wi_VaultKey :: string

type_synonym wrap_keys = "(string \<times> int, wrap_rec) gomap"

text \<open>\<open>digits\<close> stands for the \<open>%d\<close> of \<open>fmt.Sprintf\<close>.\<close>

fun natDigits :: "nat \<Rightarrow> string" where
  "natDigits n = (if n < 10 then [char_of (48 + n)] else natDigits (n div 10) @ [char_of (48 + n mod 10)])"

declare natDigits.simps [simp del]

definition digits :: "int \<Rightarrow> string" where
  "digits n = (if n < 0 then CHR ''-'' # natDigits (nat (- n)) else natDigits (nat n))"

definition WrapVaultKey :: "did \<Rightarrow> int \<Rightarrow> string" where
  "WrapVaultKey ten version = ''/tenant/'' @ did_string ten @ ''/wrap/'' @ digits version"

definition wrap_record :: "instant \<Rightarrow> wrap_input \<Rightarrow> wrap_rec" where
  "wrap_record now i = \<lparr>wr_Tenant = wi_Tenant i, wr_Version = wi_Version i, wr_KID = wi_KID i, wr_Status = Current,
     wr_Epoch = wi_Epoch i, wr_VaultKey = wi_VaultKey i, wr_CreatedAt = now, wr_ArchivedAt = None\<rparr>"

definition wrap_key_of :: "wrap_rec \<Rightarrow> string \<times> int" where
  "wrap_key_of rec = (did_string (wr_Tenant rec), wr_Version rec)"

definition wrap_Add :: "instant \<Rightarrow> wrap_input \<Rightarrow> wrap_keys \<Rightarrow> (err + unit) \<times> wrap_keys" where
  "wrap_Add now i s =
     (let rec = wrap_record now i; k = wrap_key_of rec
      in if map_of s k \<noteq> None then (Inl (Store ErrRecordExists), s)
         else if list_ex (\<lambda>(_, existing). wr_KID existing = wr_KID rec \<or>
                wr_Status rec = Current \<and> wr_Tenant existing = wr_Tenant rec \<and> wr_Status existing = Current) s
         then (Inl (Store ErrRecordExists), s)
         else (Inr (), AList.update k rec s))"

definition wrap_Get :: "wrap_keys \<Rightarrow> did \<Rightarrow> err + wrap_rec" where
  "wrap_Get s ten = findRecord (\<lambda>r. wr_Tenant r = ten \<and> wr_Status r = Current) s"

definition wrap_GetVersion :: "wrap_keys \<Rightarrow> did \<Rightarrow> int \<Rightarrow> err + wrap_rec" where
  "wrap_GetVersion s ten version = mapGet s (did_string ten, version)"

definition wrap_GetByKID :: "wrap_keys \<Rightarrow> string \<Rightarrow> err + wrap_rec" where
  "wrap_GetByKID s kid = findRecord (\<lambda>r. wr_KID r = kid) s"

text \<open>Newest version first; no two versions of a tenant are the same.\<close>

definition wrap_List :: "wrap_keys \<Rightarrow> did \<Rightarrow> wrap_rec list" where
  "wrap_List s ten = sort_key (\<lambda>r. - wr_Version r) (filter (\<lambda>r. wr_Tenant r = ten) (map snd s))"

definition wrap_Archive :: "instant \<Rightarrow> did \<Rightarrow> int \<Rightarrow> wrap_keys \<Rightarrow> (err + unit) \<times> wrap_keys" where
  "wrap_Archive now ten version s =
     (let k = (did_string ten, version)
      in case map_of s k of
           None \<Rightarrow> (Inl (Store ErrRecordNotFound), s)
         | Some rec \<Rightarrow>
             (if wr_Status rec \<noteq> Current then (Inl (Store ErrRecordNotFound), s)
              else (Inr (), AList.update k (rec\<lparr>wr_Status := Archived, wr_ArchivedAt := Some now\<rparr>) s)))"

definition wrap_Delete :: "did \<Rightarrow> wrap_keys \<Rightarrow> wrap_keys" where
  "wrap_Delete ten s = filter (\<lambda>((t, _), _). t \<noteq> did_string ten) s"

subsection \<open>What holds of the registry\<close>

text \<open>
  Each record is kept under its own tenant and version, no two records share a fingerprint,
  and a tenant has at most one current version.
\<close>

definition wraps_ok :: "wrap_keys \<Rightarrow> bool" where
  "wraps_ok s \<longleftrightarrow> wf_gomap s \<and>
     all_records (\<lambda>k r. k = wrap_key_of r \<and> wr_Tenant r \<noteq> Did [] \<and> (wr_ArchivedAt r = None \<longleftrightarrow> wr_Status r = Current)) s \<and>
     unique_by wr_KID s \<and>
     (\<forall>k k' r r'. map_of s k = Some r \<longrightarrow> map_of s k' = Some r' \<longrightarrow> wr_Status r = Current \<longrightarrow> wr_Status r' = Current \<longrightarrow>
        wr_Tenant r = wr_Tenant r' \<longrightarrow> k = k')"

lemma wraps_okD:
  assumes "wraps_ok s"
  shows "wf_gomap s" "unique_by wr_KID s"
    "map_of s k = Some r \<Longrightarrow> k = wrap_key_of r \<and> wr_Tenant r \<noteq> Did [] \<and> (wr_ArchivedAt r = None \<longleftrightarrow> wr_Status r = Current)"
    "map_of s k = Some r \<Longrightarrow> map_of s k' = Some r' \<Longrightarrow> wr_Status r = Current \<Longrightarrow> wr_Status r' = Current \<Longrightarrow>
        wr_Tenant r = wr_Tenant r' \<Longrightarrow> k = k'"
proof -
  note s = assms[unfolded wraps_ok_def]
  show "wf_gomap s" "unique_by wr_KID s" using s by simp_all
  show "k = wrap_key_of r \<and> wr_Tenant r \<noteq> Did [] \<and> (wr_ArchivedAt r = None \<longleftrightarrow> wr_Status r = Current)"
    if "map_of s k = Some r"
    using s[THEN conjunct2, THEN conjunct1] that by (rule all_recordsD)
  show "k = k'" if "map_of s k = Some r" "map_of s k' = Some r'" "wr_Status r = Current" "wr_Status r' = Current"
    "wr_Tenant r = wr_Tenant r'"
    using s that by blast
qed

lemma did_string_neq: "d \<noteq> e \<Longrightarrow> d \<noteq> Did [] \<Longrightarrow> e \<noteq> Did [] \<Longrightarrow> did_string d \<noteq> did_string e"
  using did_string_inject by blast

lemma wrap_Add_Inr:
  assumes "wrap_Add now i s = (Inr (), s')"
  shows "map_of s (wrap_key_of (wrap_record now i)) = None"
    "s' = AList.update (wrap_key_of (wrap_record now i)) (wrap_record now i) s"
    "\<forall>(k, r) \<in> set s. wr_KID r \<noteq> wi_KID i \<and> \<not> (wr_Tenant r = wi_Tenant i \<and> wr_Status r = Current)"
  using assms by (auto simp: wrap_Add_def Let_def list_ex_iff wrap_record_def split: if_splits)

lemma wrap_Add_failed: "wrap_Add now i s = (Inl e, s') \<Longrightarrow> s' = s \<and> e = Store ErrRecordExists"
  by (auto simp: wrap_Add_def Let_def split: if_splits)

lemma wraps_ok_Add:
  assumes ok: "wraps_ok s" and "wi_Tenant i \<noteq> Did []" and "wrap_Add now i s = (Inr (), s')"
  shows "wraps_ok s'"
proof -
  note a = wrap_Add_Inr[OF assms(3)]
  have other: "wr_KID r \<noteq> wi_KID i" "wr_Tenant r = wi_Tenant i \<Longrightarrow> wr_Status r \<noteq> Current" if "map_of s k = Some r" for k r
    using a(3) map_of_SomeD[OF that] by auto
  let ?r = "wrap_record now i"
  have r: "wr_KID ?r = wi_KID i" "wr_Tenant ?r = wi_Tenant i" "wr_Status ?r = Current" "wr_ArchivedAt ?r = None"
    by (simp_all add: wrap_record_def)
  note d = wraps_okD[OF ok]
  show ?thesis
    unfolding wraps_ok_def
  proof (intro conjI allI impI)
    show "wf_gomap s'" using d(1) by (simp add: a(2))
    show "all_records (\<lambda>k r. k = wrap_key_of r \<and> wr_Tenant r \<noteq> Did [] \<and> (wr_ArchivedAt r = None) = (wr_Status r = Current)) s'"
      unfolding a(2) using ok assms(2) r by (intro all_records_update) (simp_all add: wraps_ok_def)
    show "unique_by wr_KID s'"
      unfolding a(2) by (rule unique_by_update[OF d(2)]) (use other(1) r(1) in metis)
    fix k k' x x'
    assume "map_of s' k = Some x" "map_of s' k' = Some x'" "wr_Status x = Current" "wr_Status x' = Current"
      "wr_Tenant x = wr_Tenant x'"
    then show "k = k'"
      using other(2) d(4) r(2) unfolding a(2) update_conv' by (auto split: if_splits)
  qed
qed

lemma wraps_ok_Archive:
  assumes ok: "wraps_ok s" and run: "wrap_Archive now ten v s = (r, s')"
  shows "wraps_ok s'"
proof (cases "s' = s")
  case False
  let ?k = "(did_string ten, v)"
  obtain rec where rec: "map_of s ?k = Some rec" "wr_Status rec = Current"
    and s': "s' = AList.update ?k (rec\<lparr>wr_Status := Archived, wr_ArchivedAt := Some now\<rparr>) s"
    using run False by (auto simp: wrap_Archive_def Let_def split: option.splits if_splits)
  note d = wraps_okD[OF ok]
  have "wrap_key_of (rec\<lparr>wr_Status := Archived, wr_ArchivedAt := Some now\<rparr>) = ?k" "wr_Tenant rec \<noteq> Did []"
    using d(3)[OF rec(1)] by (simp_all add: wrap_key_of_def)
  then have "all_records (\<lambda>k r. k = wrap_key_of r \<and> wr_Tenant r \<noteq> Did [] \<and> (wr_ArchivedAt r = None) = (wr_Status r = Current)) s'"
    unfolding s' using ok by (intro all_records_update) (simp_all add: wraps_ok_def)
  moreover have "unique_by wr_KID s'"
    unfolding s' by (rule unique_by_update[OF d(2)]) (use rec(1) unique_byD[OF d(2)] in fastforce)
  moreover have "k = k'" if "map_of s' k = Some x" "map_of s' k' = Some x'" "wr_Status x = Current" "wr_Status x' = Current"
    "wr_Tenant x = wr_Tenant x'" for k k' x x'
    using that d(4) unfolding s' update_conv' by (auto split: if_splits)
  ultimately show ?thesis using d(1) unfolding wraps_ok_def by (simp add: s')
qed (use ok in simp)

lemma map_of_wrap_Delete: "map_of (wrap_Delete ten s) k = (if fst k = did_string ten then None else map_of s k)"
proof -
  have "wrap_Delete ten s = AList.restrict {k. fst k \<noteq> did_string ten} s"
    unfolding wrap_Delete_def AList.restrict_eq by (rule filter_cong) auto
  then show ?thesis by (simp add: restr_conv restrict_map_def)
qed

lemma wraps_ok_Delete:
  assumes "wraps_ok s"
  shows "wraps_ok (wrap_Delete ten s)"
proof -
  have sub: "map_of s k = Some r" if "map_of (wrap_Delete ten s) k = Some r" for k r
    using that by (simp add: map_of_wrap_Delete split: if_splits)
  have "wf_gomap (wrap_Delete ten s)" using wraps_okD(1)[OF assms] by (simp add: wrap_Delete_def)
  moreover have "all_records (\<lambda>k r. k = wrap_key_of r \<and> wr_Tenant r \<noteq> Did [] \<and>
      (wr_ArchivedAt r = None) = (wr_Status r = Current)) (wrap_Delete ten s)"
    unfolding all_records_def by (intro allI impI) (rule wraps_okD(3)[OF assms sub])
  moreover have "unique_by wr_KID (wrap_Delete ten s)"
    unfolding unique_by_def by (intro allI impI) (rule unique_byD[OF wraps_okD(2)[OF assms] sub sub, THEN conjunct1])
  ultimately show ?thesis
    unfolding wraps_ok_def by (intro conjI allI impI) (assumption | rule wraps_okD(4)[OF assms sub sub])+
qed

lemma set_wrap_List:
  assumes "wf_gomap s"
  shows "r \<in> set (wrap_List s ten) \<longleftrightarrow> (\<exists>k. map_of s k = Some r) \<and> wr_Tenant r = ten"
  using gomap_in_iff[OF assms] by (force simp: wrap_List_def)

text \<open>Removing what was added for a tenant of which the registry held nothing restores it.\<close>

lemma wrap_Delete_Add:
  assumes "wrap_Add now i s = (Inr (), s')" and "\<And>v. map_of s (did_string (wi_Tenant i), v) = None"
  shows "map_of (wrap_Delete (wi_Tenant i) s') = map_of s"
proof
  fix k
  show "map_of (wrap_Delete (wi_Tenant i) s') k = map_of s k"
    using assms(2)[of "snd k"] unfolding wrap_Add_Inr(2)[OF assms(1)] map_of_wrap_Delete
    by (cases k) (auto simp: update_conv' wrap_key_of_def wrap_record_def)
qed

subsection \<open>A key never stops being found by its fingerprint\<close>

text \<open>What is wrapped under a key stays recoverable while its tenant is there.\<close>

lemma wrap_GetByKID_Inr:
  assumes "wraps_ok s"
  shows "wrap_GetByKID s kid = Inr r \<longleftrightarrow> (\<exists>k. map_of s k = Some r) \<and> wr_KID r = kid"
proof
  assume "wrap_GetByKID s kid = Inr r"
  then show "(\<exists>k. map_of s k = Some r) \<and> wr_KID r = kid"
    unfolding wrap_GetByKID_def by (rule findRecord_Inr[OF wraps_okD(1)[OF assms]]) blast
next
  assume "(\<exists>k. map_of s k = Some r) \<and> wr_KID r = kid"
  with findRecord_unique[OF wraps_okD(1,2)[OF assms]] show "wrap_GetByKID s kid = Inr r"
    unfolding wrap_GetByKID_def by blast
qed

lemma wrap_recoverable:
  assumes ok: "wraps_ok s" and "wrap_GetByKID s kid = Inr r"
  shows "wi_Tenant i \<noteq> Did [] \<Longrightarrow> wrap_Add now i s = (q, s') \<Longrightarrow> wrap_GetByKID s' kid = Inr r"
    and "wrap_Archive now ten v s = (q, s') \<Longrightarrow> \<exists>r'. wrap_GetByKID s' kid = Inr r' \<and> wr_VaultKey r' = wr_VaultKey r"
    and "wr_Tenant r \<noteq> ten \<Longrightarrow> ten \<noteq> Did [] \<Longrightarrow> wrap_GetByKID (wrap_Delete ten s) kid = Inr r"
proof -
  obtain k where k: "map_of s k = Some r" "wr_KID r = kid" using assms wrap_GetByKID_Inr by blast
  show "wrap_GetByKID s' kid = Inr r" if ten: "wi_Tenant i \<noteq> Did []" and run: "wrap_Add now i s = (q, s')"
  proof (cases q)
    case (Inl e)
    with run wrap_Add_failed assms(2) show ?thesis by blast
  next
    case (Inr u)
    with run have run: "wrap_Add now i s = (Inr (), s')" by simp
    have "map_of s' k = Some r" using k(1) wrap_Add_Inr(1)[OF run] by (auto simp: wrap_Add_Inr(2)[OF run] update_conv')
    with k(2) wrap_GetByKID_Inr[OF wraps_ok_Add[OF ok ten run]] show ?thesis by blast
  qed
  show "\<exists>r'. wrap_GetByKID s' kid = Inr r' \<and> wr_VaultKey r' = wr_VaultKey r" if run: "wrap_Archive now ten v s = (q, s')"
  proof -
    have "\<exists>r'. map_of s' k = Some r' \<and> wr_KID r' = kid \<and> wr_VaultKey r' = wr_VaultKey r"
      using run k by (auto simp: wrap_Archive_def Let_def update_conv' split: option.splits if_splits)
    with wrap_GetByKID_Inr[OF wraps_ok_Archive[OF ok run]] show ?thesis by blast
  qed
  show "wrap_GetByKID (wrap_Delete ten s) kid = Inr r" if "wr_Tenant r \<noteq> ten" "ten \<noteq> Did []"
  proof -
    have "fst k \<noteq> did_string ten"
      using that wraps_okD(3)[OF ok k(1)] did_string_neq[of "wr_Tenant r" ten] by (simp add: wrap_key_of_def)
    with k wrap_GetByKID_Inr[OF wraps_ok_Delete[OF ok]] show ?thesis by (metis map_of_wrap_Delete)
  qed
qed

end
