(* ===== verification/Tenant_Service.thy ===== *)
theory Tenant_Service
  imports Key_Service Wrap_Keys
begin

text \<open>
  \<open>pkg/api/service/tenant\<close>: provisioning a tenant (its keys, its DID, its registration with
  the upload service, its records), its status, and its removal with everything it owns.
\<close>

subsection \<open>The service\<close>

text \<open>
  What lies outside: ucantone's did:plc operations and their directory, the upload service.
  Operations and tombstones are opaque, by their encoding. \<open>g_New\<close> builds the genesis operation
  of a signer, given the rotation keys and the verification methods, and the DID it makes;
  \<open>g_Last\<close> is the directory's last operation of a DID. \<open>g_meanwhile\<close> is what other requests
  commit while the directory and the upload service answer.
\<close>

datatype plc_last = LastOperation string | DeactivatedDID | LastFailed

type_synonym 'e site = "wrap_keys \<times> 'e backend"

record 'e tenant_service =
  s_rotator :: "'e rotator"
  s_formats :: multiformats
  g_New :: "string \<Rightarrow> did list \<Rightarrow> (string \<times> did) list \<Rightarrow> (did \<times> string) option"
  g_Update :: "did \<Rightarrow> string \<Rightarrow> 'e \<Rightarrow> (err + unit) \<times> 'e"
  g_Last :: "did \<Rightarrow> 'e \<Rightarrow> plc_last \<times> 'e"
  g_Tombstone :: "string \<Rightarrow> string option"
  g_SignTombstone :: "string \<Rightarrow> string \<Rightarrow> string option"
  g_Deactivate :: "did \<Rightarrow> string \<Rightarrow> 'e \<Rightarrow> (err + unit) \<times> 'e"
  u_Product :: string
  u_RegisterCustomer :: "did \<Rightarrow> string \<Rightarrow> (string \<times> string) list \<Rightarrow> 'e \<Rightarrow> (err + unit) \<times> 'e"
  g_meanwhile :: "'e site \<Rightarrow> 'e site"

definition tenantFragment :: string where "tenantFragment = ''hilt''"
definition wrapFragment :: string where "wrapFragment = ''wrap''"

definition ValidTenantID :: "string \<Rightarrow> bool" where
  "ValidTenantID i \<longleftrightarrow> \<not> containsAny i ''/;,?%'' \<and> i \<noteq> ''.'' \<and> i \<noteq> ''..''"

text \<open>A call of a service behind the process.\<close>

definition onExt :: "('e \<Rightarrow> 'r \<times> 'e) \<Rightarrow> 'e backend \<Rightarrow> 'r \<times> 'e backend" where
  "onExt f w = (let (r, e) = f (x_ext w) in (r, w\<lparr>x_ext := e\<rparr>))"

subsection \<open>Provisioning\<close>

definition cleanupKey :: "string \<Rightarrow> 'e site \<Rightarrow> 'e site" where
  "cleanupKey vaultKey s = (fst s, (snd s)\<lparr>x_vault := vault_Delete vaultKey (x_vault (snd s))\<rparr>)"

definition cleanupWraps :: "did \<Rightarrow> 'e site \<Rightarrow> 'e site" where
  "cleanupWraps ten s = (wrap_Delete ten (fst s), snd s)"

text \<open>The rollbacks accumulated so far, last first.\<close>

definition runCleanups :: "('e site \<Rightarrow> 'e site) list \<Rightarrow> 'e site \<Rightarrow> 'e site" where
  "runCleanups cleanups s = fold (\<lambda>c. c) (rev cleanups) s"

definition writeSecret :: "string \<Rightarrow> string \<Rightarrow> 'e site \<Rightarrow> 'e site" where
  "writeSecret vaultKey bytes s = (fst s, (snd s)\<lparr>x_vault := vault_Write vaultKey bytes (x_vault (snd s))\<rparr>)"

text \<open>The calls of the directory and the upload service, each failure with its own error.\<close>

definition registerTenant ::
  "'e tenant_service \<Rightarrow> string \<Rightarrow> did \<Rightarrow> string \<Rightarrow> 'e backend \<Rightarrow> (err + unit) \<times> 'e backend" where
  "registerTenant S externalID ten genesis w =
     (case onExt (g_Update S ten genesis) w of
        (Inl _, w) \<Rightarrow> (Inl (Api ErrDIDRegistration), w)
      | (Inr _, w) \<Rightarrow>
          (case onExt (u_RegisterCustomer S ten (u_Product S) [(''external_id'', externalID)]) w of
             (Inl _, w) \<Rightarrow> (Inl (Api ErrUploadRegistration), w)
           | (Inr _, w) \<Rightarrow> (Inr (), w)))"

text \<open>The records, the tenant's row last.\<close>

definition recordTenant ::
  "'e tenant_service \<Rightarrow> instant \<Rightarrow> string \<Rightarrow> did \<Rightarrow> string \<Rightarrow> ('e site \<Rightarrow> 'e site) list \<Rightarrow> 'e site \<Rightarrow>
   (err + tenant \<times> bool) \<times> 'e site" where
  "recordTenant S now externalID ten wrap cleanups s =
     (case wrap_Add now \<lparr>wi_Tenant = ten, wi_Version = 1, wi_KID = wk_String (s_formats S) wrap, wi_Epoch = 0,
             wi_VaultKey = WrapVaultKey ten 1\<rparr> (fst s) of
        (Inl e, wk) \<Rightarrow> (Inl e, runCleanups cleanups (wk, snd s))
      | (Inr _, wk) \<Rightarrow>
          (case tenant_Add now ten externalID Active (x_tenants (snd s)) of
             (Inl e, ts) \<Rightarrow>
               (let s = runCleanups (cleanups @ [cleanupWraps ten]) (wk, (snd s)\<lparr>x_tenants := ts\<rparr>)
                in if e = Store ErrRecordExists
                   then (case tenant_GetByExternalID (x_tenants (snd s)) externalID of
                           Inr winner \<Rightarrow> (Inr (winner, False), s)
                         | Inl _ \<Rightarrow> (Inl e, s))
                   else (Inl e, s))
           | (Inr _, ts) \<Rightarrow>
               (case tenant_Get ts ten of
                  Inl e \<Rightarrow> (Inl e, wk, (snd s)\<lparr>x_tenants := ts\<rparr>)
                | Inr rec \<Rightarrow> (Inr (rec, True), wk, (snd s)\<lparr>x_tenants := ts\<rparr>))))"

definition createTenant ::
  "'e tenant_service \<Rightarrow> instant \<Rightarrow> string \<Rightarrow> did \<Rightarrow> string \<Rightarrow> string \<Rightarrow> string \<Rightarrow> 'e site \<Rightarrow>
   (err + tenant \<times> bool) \<times> 'e site" where
  "createTenant S now externalID ten genesis bytes wrap s =
     (let signingKey = TenantKeyPath ten; wrapKey = WrapVaultKey ten 1;
          s = writeSecret wrapKey (wk_Bytes (s_formats S) wrap) (writeSecret signingKey bytes s);
          cleanups = [cleanupKey signingKey, cleanupKey wrapKey]
      in case registerTenant S externalID ten genesis (snd s) of
           (Inl e, w) \<Rightarrow> (Inl e, runCleanups cleanups (fst s, w))
         | (Inr _, w) \<Rightarrow> recordTenant S now externalID ten wrap cleanups (g_meanwhile S (fst s, w)))"

text \<open>
  \<open>gen\<close> is what \<open>secp256k1.Generate\<close> answers, the DID of a key and its bytes, and \<open>wgen\<close> what
  \<open>wrapkey.Generate\<close> does, the raw key; \<open>None\<close> is an error.
\<close>

definition Provision ::
  "'e tenant_service \<Rightarrow> instant \<Rightarrow> (did \<times> string) option \<Rightarrow> string option \<Rightarrow> string \<Rightarrow> 'e site \<Rightarrow>
   (err + tenant \<times> bool) \<times> 'e site" where
  "Provision S now gen wgen externalID s =
     (case tenant_GetByExternalID (x_tenants (snd s)) externalID of
        Inr existing \<Rightarrow> (Inr (existing, False), s)
      | Inl e \<Rightarrow>
          if e \<noteq> Store ErrRecordNotFound then (Inl e, s)
          else (case gen of
                  None \<Rightarrow> (Inl (Internal ''generating tenant key''), s)
                | Some (key, bytes) \<Rightarrow>
                    (case wgen of
                       None \<Rightarrow> (Inl (Internal ''generating wrap key''), s)
                     | Some wrap \<Rightarrow>
                         (case g_New S bytes [key] [(tenantFragment, key), (wrapFragment, wk_KeyDID (s_formats S) wrap)] of
                            None \<Rightarrow> (Inl (Internal ''building genesis operation''), s)
                          | Some (ten, genesis) \<Rightarrow> createTenant S now externalID ten genesis bytes wrap s))))"

subsection \<open>Reading and the status\<close>

definition GetTenant :: "'e site \<Rightarrow> string \<Rightarrow> err + tenant" where
  "GetTenant s externalID =
     (case tenant_GetByExternalID (x_tenants (snd s)) externalID of
        Inl e \<Rightarrow> Inl (if e = Store ErrRecordNotFound then Api ErrTenantNotFound else e)
      | Inr rec \<Rightarrow> Inr rec)"

definition statusOf :: "string \<Rightarrow> status" where
  "statusOf s =
     (if s = ''active'' then Active else if s = ''write-locked'' then WriteLocked
      else if s = ''disabled'' then Disabled else OtherStatus s)"

definition SetTenantStatus :: "instant \<Rightarrow> string \<Rightarrow> string \<Rightarrow> 'e site \<Rightarrow> (err + unit) \<times> 'e site" where
  "SetTenantStatus now externalID status s =
     (if \<not> valid_status (statusOf status) then (Inl (Api ErrInvalidStatus), s)
      else (case tenant_GetByExternalID (x_tenants (snd s)) externalID of
              Inl e \<Rightarrow> (Inl (if e = Store ErrRecordNotFound then Api ErrTenantNotFound else e), s)
            | Inr rec \<Rightarrow>
                (case tenant_SetStatus now (t_ID rec) (statusOf status) (x_tenants (snd s)) of
                   (Inl e, ts) \<Rightarrow> (Inl (if e = Store ErrRecordNotFound then Api ErrTenantNotFound else e), s)
                 | (Inr _, ts) \<Rightarrow> (Inr (), fst s, (snd s)\<lparr>x_tenants := ts\<rparr>))))"

subsection \<open>Removal\<close>

text \<open>What the tenant's keys hold is revoked in one batch and removed in the same write.\<close>

definition allKeys :: key_list_config where
  "allKeys = \<lparr>l_Principal = None, l_Principals = None, l_IDs = None\<rparr>"

definition revokeKeyDelegations ::
  "'e rotator \<Rightarrow> instant \<Rightarrow> did \<Rightarrow> access_key list \<Rightarrow> dlg_store \<times> 'e backend \<Rightarrow> (err + unit) \<times> dlg_store \<times> 'e backend" where
  "revokeKeyDelegations R now ten keys sw =
     (if length keys = 0 then (Inr (), sw)
      else (case TenantIssuer (r_keylib R) (vault_Read (x_vault (snd sw))) ten of
              Inl e \<Rightarrow> (Inl e, sw)
            | Inr issuer \<Rightarrow> Replace (audiences keys) (revokeNext R now keys issuer) (r_wait R sw)))"

definition deactivateTenantDID ::
  "'e tenant_service \<Rightarrow> string \<Rightarrow> did \<Rightarrow> string \<Rightarrow> 'e backend \<Rightarrow> (err + unit) \<times> 'e backend" where
  "deactivateTenantDID S vaultKey ten op w =
     (case vault_Read (x_vault w) vaultKey of
        Inl e \<Rightarrow> (Inl e, w)
      | Inr keyBytes \<Rightarrow>
          (case Secp256k1Decode (r_keylib (s_rotator S)) keyBytes of
             None \<Rightarrow> (Inl (Internal ''decoding tenant key''), w)
           | Some signer \<Rightarrow>
               (case g_Tombstone S op of
                  None \<Rightarrow> (Inl (Internal ''building tombstone''), w)
                | Some tomb \<Rightarrow>
                    (case g_SignTombstone S signer tomb of
                       None \<Rightarrow> (Inl (Internal ''signing tombstone''), w)
                     | Some signed \<Rightarrow> onExt (g_Deactivate S ten signed) w))))"

text \<open>The revocations, then the deactivation they have to come before.\<close>

definition retireDID ::
  "'e tenant_service \<Rightarrow> instant \<Rightarrow> did \<Rightarrow> access_key list \<Rightarrow> dlg_store \<times> 'e backend \<Rightarrow>
   (err + unit) \<times> dlg_store \<times> 'e backend" where
  "retireDID S now ten keys sw =
     (let (lst, w) = onExt (g_Last S ten) (snd sw) in
      case lst of
        DeactivatedDID \<Rightarrow> (Inr (), fst sw, w)
      | LastFailed \<Rightarrow> (Inl (Api ErrDIDDeactivation), fst sw, w)
      | LastOperation op \<Rightarrow>
          (case revokeKeyDelegations (s_rotator S) now ten keys (fst sw, w) of
             (Inl e, sw) \<Rightarrow> (Inl e, sw)
           | (Inr _, ds, w) \<Rightarrow>
               (case deactivateTenantDID S (TenantKeyPath ten) ten op w of
                  (Inl _, w) \<Rightarrow> (Inl (Api ErrDIDDeactivation), ds, w)
                | (Inr _, w) \<Rightarrow> (Inr (), ds, w))))"

fun dropKeys :: "did \<Rightarrow> access_key list \<Rightarrow> dlg_store \<times> 'e backend \<Rightarrow> (err + unit) \<times> dlg_store \<times> 'e backend" where
  "dropKeys ten [] sw = (Inr (), sw)"
| "dropKeys ten (ak # keys) sw =
     (case DeleteByAudience (k_ID ak) (fst sw) of
        (Inl e, ds) \<Rightarrow> (Inl e, ds, snd sw)
      | (Inr _, ds) \<Rightarrow>
          dropKeys ten keys (ds, (snd sw)\<lparr>x_vault := vault_Delete (AccessKeyPath ten (k_ID ak)) (x_vault (snd sw)),
            x_keys := key_Delete (k_ID ak) (x_keys (snd sw))\<rparr>))"

definition dropWraps :: "did \<Rightarrow> 'e site \<Rightarrow> 'e site" where
  "dropWraps ten s =
     (wrap_Delete ten (fst s),
      (snd s)\<lparr>x_vault := fold (\<lambda>wk. vault_Delete (wr_VaultKey wk)) (wrap_List (fst s) ten) (x_vault (snd s))\<rparr>)"

text \<open>The rows of the tenant's buckets and their policies; deleting a row and a policy cannot fail here.\<close>

definition dropBucket :: "did \<Rightarrow> policies \<times> buckets \<Rightarrow> policies \<times> buckets" where
  "dropBucket b s = (fst (snd (DeleteByBucket b None (fst s, ()))), bucket_Delete b (snd s))"

definition dropBuckets :: "did list \<Rightarrow> policies \<times> buckets \<Rightarrow> policies \<times> buckets" where
  "dropBuckets ids s = fold dropBucket ids s"

definition tenantBuckets :: "buckets \<Rightarrow> did \<Rightarrow> (err + did list) option" where
  "tenantBuckets bs ten =
     (case Collect_pages (bucket_ListByTenant bs (ten, \<lparr>q_IDs = [], q_Names = [], q_Prefix = [], q_Provider = Undef,
             q_Limit = None\<rparr>)) of
        None \<Rightarrow> None
      | Some (Inl e) \<Rightarrow> Some (Inl e)
      | Some (Inr recs) \<Rightarrow> Some (Inr (map b_ID recs)))"

type_synonym 'e tenant_world = "wrap_keys \<times> 'e world"

text \<open>What is left once the keys are gone: the last step takes the row and the signing key.\<close>

definition cascade :: "did \<Rightarrow> 'e tenant_world \<Rightarrow> ((err + unit) \<times> 'e tenant_world) option" where
  "cascade ten st =
     (let (wk, ps, pol, ds, w) = st in
      case principal_DeleteByTenant ten (ps, ()) of
        (Inl e, ps, _) \<Rightarrow> Some (Inl e, wk, ps, pol, ds, w)
      | (Inr _, ps, _) \<Rightarrow>
          (let (wk, w) = dropWraps ten (wk, w) in
           case tenantBuckets (x_buckets w) ten of
             None \<Rightarrow> None
           | Some (Inl e) \<Rightarrow> Some (Inl e, wk, ps, pol, ds, w)
           | Some (Inr ids) \<Rightarrow>
               (let (pol, bs) = dropBuckets ids (pol, x_buckets w); w = w\<lparr>x_buckets := bs\<rparr> in
                case DeleteByAudience ten ds of
                  (Inl e, ds) \<Rightarrow> Some (Inl e, wk, ps, pol, ds, w)
                | (Inr _, ds) \<Rightarrow>
                    Some (Inr (), wk, ps, pol, ds, w\<lparr>x_tenants := tenant_Delete ten (x_tenants w),
                      x_vault := vault_Delete (TenantKeyPath ten) (x_vault w)\<rparr>))))"

text \<open>\<open>None\<close> would be a listing of buckets that never ends.\<close>

definition DeleteTenant ::
  "'e tenant_service \<Rightarrow> instant \<Rightarrow> string \<Rightarrow> 'e tenant_world \<Rightarrow> ((err + unit) \<times> 'e tenant_world) option" where
  "DeleteTenant S now externalID st =
     (let (wk, ps, pol, ds, w) = st in
      case tenant_GetByExternalID (x_tenants w) externalID of
        Inl e \<Rightarrow> Some (if e = Store ErrRecordNotFound then Inr () else Inl e, st)
      | Inr rec \<Rightarrow>
          if t_Status rec \<noteq> Disabled then Some (Inl (Api ErrTenantNotDisabled), st)
          else
            (let keys = key_ListByTenant (x_keys w) (t_ID rec) allKeys in
             case retireDID S now (t_ID rec) keys (ds, w) of
               (Inl e, ds, w) \<Rightarrow> Some (Inl e, wk, ps, pol, ds, w)
             | (Inr _, ds, w) \<Rightarrow>
                 (case dropKeys (t_ID rec) keys (ds, w) of
                    (Inl e, ds, w) \<Rightarrow> Some (Inl e, wk, ps, pol, ds, w)
                  | (Inr _, ds, w) \<Rightarrow> cascade (t_ID rec) (wk, ps, pol, ds, w))))"

subsection \<open>Provisioning leaves a whole tenant or none\<close>

definition site_ok :: "'e site \<Rightarrow> bool" where
  "site_ok s \<longleftrightarrow> tenants_ok (x_tenants (snd s)) \<and> wraps_ok (fst s)"

text \<open>What is kept of a tenant: its two secrets, its wrap keys, its row.\<close>

definition traceOf :: "did \<Rightarrow> 'e site \<Rightarrow> (err + string) \<times> (err + string) \<times> (int \<Rightarrow> wrap_rec option) \<times> tenant option" where
  "traceOf ten s = (vault_Read (x_vault (snd s)) (TenantKeyPath ten), vault_Read (x_vault (snd s)) (WrapVaultKey ten 1),
     (\<lambda>v. map_of (fst s) (did_string ten, v)), map_of (x_tenants (snd s)) ten)"

abbreviation noTrace :: "did \<Rightarrow> 'e site \<Rightarrow> bool" where
  "noTrace ten s \<equiv> traceOf ten s = (Inl (Store ErrKeyNotFound), Inl (Store ErrKeyNotFound), (\<lambda>_. None), None)"

text \<open>Other requests leave what is kept of a tenant they cannot know as it is.\<close>

definition isolated :: "'e tenant_service \<Rightarrow> did \<Rightarrow> bool" where
  "isolated S ten \<longleftrightarrow> (\<forall>s. site_ok s \<longrightarrow> site_ok (g_meanwhile S s) \<and> traceOf ten (g_meanwhile S s) = traceOf ten s)"

definition generates ::
  "'e tenant_service \<Rightarrow> (did \<times> string) option \<Rightarrow> string option \<Rightarrow> string \<Rightarrow> string \<Rightarrow> did \<Rightarrow> string \<Rightarrow> bool" where
  "generates S gen wgen bytes wrap ten genesis \<longleftrightarrow> (\<exists>key. gen = Some (key, bytes) \<and> wgen = Some wrap \<and>
     g_New S bytes [key] [(tenantFragment, key), (wrapFragment, wk_KeyDID (s_formats S) wrap)] = Some (ten, genesis))"

text \<open>Two states that read the same.\<close>

definition same_site :: "'e site \<Rightarrow> 'e site \<Rightarrow> bool" where
  "same_site s s' \<longleftrightarrow> map_of (fst s') = map_of (fst s) \<and> vault_Read (x_vault (snd s')) = vault_Read (x_vault (snd s)) \<and>
     x_tenants (snd s') = x_tenants (snd s) \<and> x_providers (snd s') = x_providers (snd s) \<and>
     x_buckets (snd s') = x_buckets (snd s) \<and> x_keys (snd s') = x_keys (snd s)"

lemma same_site_refl [simp]: "same_site s s"
  by (simp add: same_site_def)

lemma paths_differ [simp]: "WrapVaultKey ten v \<noteq> TenantKeyPath ten" "TenantKeyPath ten \<noteq> WrapVaultKey ten v"
  by (simp_all add: WrapVaultKey_def TenantKeyPath_def)

lemma beyond_trans: "beyond w w' \<Longrightarrow> beyond w' w'' \<Longrightarrow> beyond w w''"
  by (cases w; cases w'; cases w'') (simp add: beyond_def)

lemma onExt_beyond: "onExt f w = (r, w') \<Longrightarrow> beyond w w'"
  by (auto simp: onExt_def beyond_def split: prod.splits)

lemma registerTenant_beyond:
  assumes "registerTenant S externalID ten genesis w = (r, w')"
  shows "beyond w w'"
proof -
  obtain q w1 where u: "onExt (g_Update S ten genesis) w = (q, w1)" by force
  obtain q2 w2 where c: "onExt (u_RegisterCustomer S ten (u_Product S) [(''external_id'', externalID)]) w1 = (q2, w2)" by force
  have "w' = w1 \<or> w' = w2" using assms u c by (auto simp: registerTenant_def split: sum.splits)
  with onExt_beyond[OF u] onExt_beyond[OF c] beyond_trans show ?thesis by blast
qed

definition dropSecretsOf :: "did \<Rightarrow> 'e site \<Rightarrow> 'e site" where
  "dropSecretsOf ten s = runCleanups [cleanupKey (TenantKeyPath ten), cleanupKey (WrapVaultKey ten 1)] s"

lemma dropSecretsOf_sel:
  "fst (dropSecretsOf ten s) = fst s" "x_tenants (snd (dropSecretsOf ten s)) = x_tenants (snd s)"
  "vault_Read (x_vault (snd (dropSecretsOf ten s))) p =
     (if p \<in> {TenantKeyPath ten, WrapVaultKey ten 1} then Inl (Store ErrKeyNotFound) else vault_Read (x_vault (snd s)) p)"
  "x_providers (snd (dropSecretsOf ten s)) = x_providers (snd s)" "x_buckets (snd (dropSecretsOf ten s)) = x_buckets (snd s)"
  "x_keys (snd (dropSecretsOf ten s)) = x_keys (snd s)"
  by (simp_all add: dropSecretsOf_def runCleanups_def cleanupKey_def vault_simps)

lemma noTrace_dropSecrets:
  assumes "\<And>v. map_of (fst s) (did_string ten, v) = None" and "map_of (x_tenants (snd s)) ten = None"
  shows "noTrace ten (dropSecretsOf ten s)"
  using assms by (simp add: traceOf_def dropSecretsOf_sel)

text \<open>A run that creates a tenant, and one that fails or finds another request's.\<close>

definition created :: "'e tenant_service \<Rightarrow> string \<Rightarrow> string \<Rightarrow> string \<Rightarrow> did \<Rightarrow> tenant \<Rightarrow> 'e site \<Rightarrow> bool" where
  "created S externalID bytes wrap ten rec s \<longleftrightarrow> t_ID rec = ten \<and> t_Status rec = Active \<and>
     tenant_GetByExternalID (x_tenants (snd s)) externalID = Inr rec \<and>
     vault_Read (x_vault (snd s)) (TenantKeyPath ten) = Inr bytes \<and>
     (\<exists>wk. wrap_Get (fst s) ten = Inr wk \<and> wr_KID wk = wk_String (s_formats S) wrap \<and> wr_Version wk = 1 \<and>
        vault_Read (x_vault (snd s)) (wr_VaultKey wk) = Inr (wk_Bytes (s_formats S) wrap))"

lemma wrap_Get_added:
  assumes ok: "wraps_ok s'" and "wrap_Add now i s = (Inr (), s')"
  shows "wrap_Get s' (wi_Tenant i) = Inr (wrap_record now i)"
proof -
  have here: "map_of s' (wrap_key_of (wrap_record now i)) = Some (wrap_record now i)"
    by (simp add: wrap_Add_Inr(2)[OF assms(2)] update_conv')
  show ?thesis
  proof (cases "wrap_Get s' (wi_Tenant i)")
    case (Inl e)
    with findRecord_set(3) have "wrap_Get s' (wi_Tenant i) = Inl (Store ErrRecordNotFound)"
      unfolding wrap_Get_def by metis
    then have "\<not> (wr_Tenant (wrap_record now i) = wi_Tenant i \<and> wr_Status (wrap_record now i) = Current)"
      using here unfolding wrap_Get_def findRecord_None[OF wraps_okD(1)[OF ok]] by blast
    then show ?thesis by (simp add: wrap_record_def)
  next
    case (Inr r)
    then obtain k where "map_of s' k = Some r" "wr_Tenant r = wi_Tenant i" "wr_Status r = Current"
      unfolding wrap_Get_def by (rule findRecord_Inr[OF wraps_okD(1)[OF ok]]) blast
    with wraps_okD(4)[OF ok this(1) here] here Inr show ?thesis by (simp add: wrap_record_def)
  qed
qed

lemma recordTenant_effect:
  assumes ok: "site_ok m" and ten: "ten \<noteq> Undef" "ten \<noteq> Did []"
    and tr: "traceOf ten m = (Inr bytes, Inr (wk_Bytes (s_formats S) wrap), (\<lambda>_. None), None)"
    and run: "recordTenant S now ext ten wrap [cleanupKey (TenantKeyPath ten), cleanupKey (WrapVaultKey ten 1)] m = (r, s')"
  shows "site_ok s' \<and> (\<forall>rec b. r = Inr (rec, b) \<longrightarrow> tenant_GetByExternalID (x_tenants (snd s')) ext = Inr rec) \<and>
    (if \<exists>rec. r = Inr (rec, True) then (\<exists>rec. r = Inr (rec, True) \<and> created S ext bytes wrap ten rec s')
     else noTrace ten s' \<and> same_site (dropSecretsOf ten m) s')"
proof -
  let ?cl = "[cleanupKey (TenantKeyPath ten), cleanupKey (WrapVaultKey ten 1)]"
  let ?i = "\<lparr>wi_Tenant = ten, wi_Version = 1, wi_KID = wk_String (s_formats S) wrap, wi_Epoch = 0, wi_VaultKey = WrapVaultKey ten 1\<rparr>"
  have none: "map_of (fst m) (did_string ten, v) = None" "map_of (x_tenants (snd m)) ten = None" for v
    using tr by (simp_all add: traceOf_def fun_eq_iff)
  obtain q wk where add: "wrap_Add now ?i (fst m) = (q, wk)" by force
  note drop = dropSecretsOf_def[symmetric]
  show ?thesis
  proof (cases q)
    case (Inl e)
    then have "wk = fst m" using add wrap_Add_failed by simp
    with run add Inl have s': "r = Inl e" "s' = dropSecretsOf ten m" by (simp_all add: recordTenant_def drop)
    have "site_ok s'" using ok by (simp add: s' site_ok_def dropSecretsOf_sel)
    with noTrace_dropSecrets[OF none] s' show ?thesis by simp
  next
    case (Inr u)
    with add have add: "wrap_Add now ?i (fst m) = (Inr (), wk)" by simp
    have wk: "wraps_ok wk" by (rule wraps_ok_Add[OF _ _ add]) (use ok ten in \<open>simp_all add: site_ok_def\<close>)
    have undo: "map_of (wrap_Delete ten wk) = map_of (fst m)" using wrap_Delete_Add[OF add] none by simp
    obtain q2 ts where t: "tenant_Add now ten ext Active (x_tenants (snd m)) = (q2, ts)" by force
    show ?thesis
    proof (cases q2)
      case (Inl e)
      then have ts: "ts = x_tenants (snd m)" using t by (auto simp: tenant_Add_def split: if_splits)
      let ?s = "runCleanups (?cl @ [cleanupWraps ten]) (wk, snd m)"
      have s: "?s = dropSecretsOf ten (wrap_Delete ten wk, snd m)"
        by (simp add: dropSecretsOf_def runCleanups_def cleanupWraps_def)
      have r: "s' = ?s \<and> (\<exists>e. r = Inl e \<or> (\<exists>win. r = Inr (win, False) \<and> tenant_GetByExternalID (x_tenants (snd s')) ext = Inr win))"
        using run Inl ts unfolding recordTenant_def add t prod.case sum.case Let_def
        by (auto split: sum.splits if_splits)
      have s': "s' = dropSecretsOf ten (wrap_Delete ten wk, snd m)" using r unfolding s by (rule conjunct1)
      have "site_ok s'" using ok wraps_ok_Delete[OF wk] unfolding s' by (simp add: site_ok_def dropSecretsOf_sel)
      moreover have "noTrace ten s'"
        unfolding s' by (rule noTrace_dropSecrets) (simp_all add: none undo)
      moreover have "same_site (dropSecretsOf ten m) s'"
        unfolding s' same_site_def by (simp add: dropSecretsOf_sel fun_eq_iff undo)
      ultimately show ?thesis using r[THEN conjunct2] by auto
    next
      case (Inr u)
      with t have t: "tenant_Add now ten ext Active (x_tenants (snd m)) = (Inr (), ts)" by simp
      let ?rec = "\<lparr>t_ID = ten, t_ExternalID = ext, t_Status = Active, t_CreatedAt = now, t_UpdatedAt = now\<rparr>"
      have ts: "tenants_ok ts" by (rule tenants_ok_Add[OF _ t]) (use ok in \<open>simp add: site_ok_def\<close>)
      have here: "map_of ts ten = Some ?rec" by (simp add: tenant_Add_Inr(5)[OF t] update_conv')
      from tenant_GetByExternalID_Some[OF ts here] have byExt: "tenant_GetByExternalID ts ext = Inr ?rec" by simp
      have r: "r = Inr (?rec, True)" "s' = (wk, (snd m)\<lparr>x_tenants := ts\<rparr>)"
        using run unfolding recordTenant_def add t prod.case sum.case Let_def
        by (simp_all add: tenant_Get_def mapGet_def here)
      have "created S ext bytes wrap ten ?rec s'"
        using wrap_Get_added[OF wk add] tr byExt unfolding created_def r(2)
        by (simp add: wrap_record_def traceOf_def)
      with r byExt wk ts show ?thesis by (auto simp: site_ok_def)
    qed
  qed
qed

lemma createTenant_effect:
  assumes ok: "site_ok s" and ten: "ten \<noteq> Undef" "ten \<noteq> Did []" and no: "noTrace ten s" and iso: "isolated S ten"
    and run: "createTenant S now ext ten genesis bytes wrap s = (r, s')"
  shows "site_ok s' \<and> (\<forall>rec b. r = Inr (rec, b) \<longrightarrow> tenant_GetByExternalID (x_tenants (snd s')) ext = Inr rec) \<and>
    (if \<exists>rec. r = Inr (rec, True) then (\<exists>rec. r = Inr (rec, True) \<and> created S ext bytes wrap ten rec s')
     else noTrace ten s' \<and> (g_meanwhile S = (\<lambda>s. s) \<longrightarrow> same_site s s'))"
proof -
  let ?s = "writeSecret (WrapVaultKey ten 1) (wk_Bytes (s_formats S) wrap) (writeSecret (TenantKeyPath ten) bytes s)"
  obtain q w where reg: "registerTenant S ext ten genesis (snd ?s) = (q, w)" by force
  note bw = registerTenant_beyond[OF reg]
  have sel: "x_tenants w = x_tenants (snd s)" "x_providers w = x_providers (snd s)" "x_buckets w = x_buckets (snd s)"
    "x_keys w = x_keys (snd s)" "fst ?s = fst s"
    "\<And>p. vault_Read (x_vault w) p = (if p = WrapVaultKey ten 1 then Inr (wk_Bytes (s_formats S) wrap)
       else if p = TenantKeyPath ten then Inr bytes else vault_Read (x_vault (snd s)) p)"
    using beyond_sel[OF bw] by (simp_all add: writeSecret_def vault_simps)
  have none: "map_of (fst s) (did_string ten, v) = None" "map_of (x_tenants (snd s)) ten = None"
    "vault_Read (x_vault (snd s)) (TenantKeyPath ten) = Inl (Store ErrKeyNotFound)"
    "vault_Read (x_vault (snd s)) (WrapVaultKey ten 1) = Inl (Store ErrKeyNotFound)" for v
    using no by (simp_all add: traceOf_def fun_eq_iff)
  have clean: "same_site s (dropSecretsOf ten (fst s, w))"
    by (simp add: same_site_def dropSecretsOf_sel sel fun_eq_iff none)
  show ?thesis
  proof (cases q)
    case (Inl e)
    have s': "r = Inl e" "s' = dropSecretsOf ten (fst s, w)"
      using run reg Inl sel(5) by (simp_all add: createTenant_def Let_def dropSecretsOf_def)
    have "site_ok s'" using ok by (simp add: s' site_ok_def dropSecretsOf_sel sel)
    moreover have "noTrace ten s'" unfolding s' by (rule noTrace_dropSecrets) (simp_all add: none sel)
    ultimately show ?thesis using clean s' by simp
  next
    case (Inr u)
    let ?m = "g_meanwhile S (fst s, w)"
    have run': "recordTenant S now ext ten wrap [cleanupKey (TenantKeyPath ten), cleanupKey (WrapVaultKey ten 1)] ?m = (r, s')"
      using run reg Inr sel(5) by (simp add: createTenant_def Let_def)
    have "site_ok (fst s, w)" using ok by (simp add: site_ok_def sel)
    then have m: "site_ok ?m" "traceOf ten ?m = traceOf ten (fst s, w)" using iso by (simp_all add: isolated_def)
    have "traceOf ten ?m = (Inr bytes, Inr (wk_Bytes (s_formats S) wrap), (\<lambda>_. None), None)"
      unfolding m(2) by (simp add: traceOf_def sel none)
    note eff = recordTenant_effect[OF m(1) ten this run']
    have "same_site s s'" if "g_meanwhile S = (\<lambda>s. s)" "same_site (dropSecretsOf ten ?m) s'"
      using that clean unfolding same_site_def by simp
    with eff show ?thesis by (auto split: if_splits)
  qed
qed

subsection \<open>Properties\<close>

text \<open>
  C14. Provisioning leaves a whole tenant or nothing: when it creates a tenant there was none
  under the caller's id, and the tenant is active, found under that id, with its signing key
  and the current version of its wrap key in the vault; whatever it answers is the tenant of
  that id; and when it fails at any step, or finds that another request created the tenant
  first, no secret, no wrap key and no row of the tenant it had begun is left, every store
  reading as before but for what other requests committed.
\<close>

theorem provisioning:
  assumes "site_ok s"
    and "\<forall>bytes wrap ten genesis. generates S gen wgen bytes wrap ten genesis \<longrightarrow>
      ten \<noteq> Undef \<and> ten \<noteq> Did [] \<and> noTrace ten s \<and> isolated S ten"
    and "Provision S now gen wgen ext s = (r, s')"
  shows "site_ok s' \<and> (\<forall>rec b. r = Inr (rec, b) \<longrightarrow> GetTenant s' ext = Inr rec) \<and>
    (\<forall>rec. r = Inr (rec, True) \<longrightarrow> GetTenant s ext = Inl (Api ErrTenantNotFound) \<and>
       (\<exists>bytes wrap genesis. generates S gen wgen bytes wrap (t_ID rec) genesis \<and> created S ext bytes wrap (t_ID rec) rec s')) \<and>
    ((\<nexists>rec. r = Inr (rec, True)) \<longrightarrow>
       (\<forall>bytes wrap ten genesis. generates S gen wgen bytes wrap ten genesis \<longrightarrow> noTrace ten s') \<and>
       (g_meanwhile S = (\<lambda>s. s) \<longrightarrow> same_site s s'))"
proof (cases "tenant_GetByExternalID (x_tenants (snd s)) ext")
  case (Inr existing)
  with assms(3) have "r = Inr (existing, False)" "s' = s" by (simp_all add: Provision_def)
  with assms(1,2) Inr show ?thesis by (auto simp: GetTenant_def)
next
  case (Inl e)
  then have e: "e = Store ErrRecordNotFound" unfolding tenant_GetByExternalID_def by (rule findRecord_set(3))
  show ?thesis
  proof (cases "\<exists>bytes wrap ten genesis. generates S gen wgen bytes wrap ten genesis")
    case True
    then obtain bytes wrap ten genesis where g: "generates S gen wgen bytes wrap ten genesis" by blast
    with assms(3) Inl e have run: "createTenant S now ext ten genesis bytes wrap s = (r, s')"
      by (auto simp: Provision_def generates_def)
    have fr: "ten \<noteq> Undef" "ten \<noteq> Did []" "noTrace ten s" "isolated S ten" using assms(2) g by blast+
    have same: "ten' = ten" if "generates S gen wgen bytes' wrap' ten' genesis'" for bytes' wrap' ten' genesis'
      using that g by (auto simp: generates_def)
    have id': "t_ID rec = ten" if "created S ext bytes wrap ten rec s'" for rec using that by (simp add: created_def)
    note eff = createTenant_effect[OF assms(1) fr run]
    show ?thesis
    proof (cases "\<exists>rec. r = Inr (rec, True)")
      case True
      then obtain rec where rec: "r = Inr (rec, True)" "created S ext bytes wrap ten rec s'" using eff by auto
      with eff g id'[OF rec(2)] Inl e show ?thesis by (auto simp: GetTenant_def)
    next
      case False
      with eff same show ?thesis by (auto simp: GetTenant_def)
    qed
  next
    case False
    then have "s' = s \<and> (\<exists>e. r = Inl e)"
      using assms(3) Inl e by (auto simp: Provision_def generates_def split: option.splits)
    with False assms(1) show ?thesis by auto
  qed
qed

text \<open>A service that reaches a directory and an upload service which accept everything.\<close>

definition sample_formats :: multiformats where
  "sample_formats = \<lparr>PutUvarint = (\<lambda>_. ''x''), FromUvarint = (\<lambda>b. None), Base58BTC = (\<lambda>b. b), X25519Public = (\<lambda>k. k)\<rparr>"

definition sample_tenant_service :: "dlg list tenant_service" where
  "sample_tenant_service = \<lparr>s_rotator = sample_rotator, s_formats = sample_formats,
     g_New = (\<lambda>signer rot ms. Some (Did ''plc'', ''genesis'')), g_Update = (\<lambda>_ _ e. (Inr (), e)),
     g_Last = (\<lambda>_ e. (LastOperation ''genesis'', e)), g_Tombstone = Some, g_SignTombstone = (\<lambda>_ t. Some t),
     g_Deactivate = (\<lambda>_ _ e. (Inr (), e)), u_Product = ''free'', u_RegisterCustomer = (\<lambda>_ _ _ e. (Inr (), e)),
     g_meanwhile = (\<lambda>s. s)\<rparr>"

definition empty_backend :: "dlg list backend" where
  "empty_backend = \<lparr>x_tenants = [], x_providers = [], x_buckets = [], x_keys = [], x_vault = [], x_ext = []\<rparr>"

abbreviation sample_provision :: "(err + tenant \<times> bool) \<times> dlg list site" where
  "sample_provision \<equiv> Provision sample_tenant_service 5 (Some (Did ''key'', ''secret'')) (Some ''wrap'') ''ext'' ([], empty_backend)"

lemma sample_provision_ok: "fst sample_provision = Inr
   (\<lparr>t_ID = Did ''plc'', t_ExternalID = ''ext'', t_Status = Active, t_CreatedAt = 5, t_UpdatedAt = 5\<rparr>, True)"
  by code_simp

theorem provisioning_witness:
  "\<exists>rec s'. sample_provision = (Inr (rec, True), s') \<and> GetTenant s' ''ext'' = Inr rec \<and>
     vault_Read (x_vault (snd s')) (TenantKeyPath (t_ID rec)) = Inr ''secret''"
proof -
  let ?rec = "\<lparr>t_ID = Did ''plc'', t_ExternalID = ''ext'', t_Status = Active, t_CreatedAt = 5, t_UpdatedAt = 5\<rparr>"
  let ?gen = "generates sample_tenant_service (Some (Did ''key'', ''secret'')) (Some ''wrap'')"
  obtain r s' where run: "sample_provision = (r, s')" by (rule prod.exhaust)
  with sample_provision_ok have r: "r = Inr (?rec, True)" by simp
  have g: "bytes = ''secret'' \<and> ten = Did ''plc''" if "?gen bytes wrap ten genesis" for bytes wrap ten genesis
    using that by (auto simp: generates_def sample_tenant_service_def)
  have ok: "site_ok ([], empty_backend)" by (simp add: site_ok_def empty_backend_def tenants_ok_def wraps_ok_def)
  have "isolated sample_tenant_service ten" for ten by (simp add: isolated_def sample_tenant_service_def)
  moreover have "noTrace ten ([], empty_backend)" for ten by (simp add: traceOf_def empty_backend_def vault_Read_def)
  ultimately have fr: "\<forall>bytes wrap ten genesis. ?gen bytes wrap ten genesis \<longrightarrow>
      ten \<noteq> Undef \<and> ten \<noteq> Did [] \<and> noTrace ten ([], empty_backend) \<and> isolated sample_tenant_service ten"
    by (intro allI impI) (drule g, simp)
  note p = provisioning[OF ok fr run]
  have get: "GetTenant s' ''ext'' = Inr ?rec" using p[THEN conjunct2, THEN conjunct1] r by blast
  obtain bytes wrap genesis where made: "?gen bytes wrap (t_ID ?rec) genesis"
      "created sample_tenant_service ''ext'' bytes wrap (t_ID ?rec) ?rec s'"
    using p[THEN conjunct2, THEN conjunct2, THEN conjunct1, rule_format, OF r] by blast
  have "vault_Read (x_vault (snd s')) (TenantKeyPath (t_ID ?rec)) = Inr ''secret''"
    using made(2) g[OF made(1)] by (simp add: created_def)
  with get run r show ?thesis by blast
qed

end
