(* ===== verification/Bucket_Service.thy ===== *)
theory Bucket_Service
  imports Authorize_Request Policy_Service Tenant_Service
begin

text \<open>
  \<open>pkg/rpc/service/bucket\<close>: the bucket operations a gateway asks for with a signed S3 request:
  creating a bucket and routing its space, deleting an empty one, listing a tenant's, the
  policy requests, and the lookup of what a key may do on a bucket.
\<close>

subsection \<open>The service\<close>

text \<open>
  \<open>bs_policies\<close> writes policies and holds the rotator, whose libraries the service uses too;
  \<open>bs_chain\<close> is the search for proof chains. The upload service answers at the process's
  boundary; it is handed the delegations as proofs.
\<close>

record 'e bucket_service =
  bs_codec :: codec
  bs_policies :: "'e policy_service"
  bs_chain :: chain_search
  bs_ProvisionSpace :: "issuer \<Rightarrow> did \<Rightarrow> 'e \<Rightarrow> (err + string) \<times> 'e"
  bs_SpaceEmpty :: "issuer \<Rightarrow> dlg_store \<Rightarrow> did \<Rightarrow> 'e \<Rightarrow> (err + bool) \<times> 'e"
  bs_UseRoutingPolicy :: "issuer \<Rightarrow> dlg_store \<Rightarrow> did \<Rightarrow> did \<Rightarrow> 'e \<Rightarrow> (err + unit) \<times> 'e"

abbreviation bs_lib :: "'e bucket_service \<Rightarrow> policy_lib" where "bs_lib S \<equiv> v_policy (bs_policies S)"
abbreviation bs_rotator :: "'e bucket_service \<Rightarrow> 'e rotator" where "bs_rotator S \<equiv> v_rotator (bs_policies S)"
abbreviation bs_keylib :: "'e bucket_service \<Rightarrow> key_lib" where "bs_keylib S \<equiv> r_keylib (bs_rotator S)"

text \<open>The authorizer over the stores of a world.\<close>

definition authorizerOf :: "'e bucket_service \<Rightarrow> 'e Policy_Service.world \<Rightarrow> authorizer" where
  "authorizerOf S st =
     (let (ps, pol, ds, w) = st in
      memory_authorizer (bs_codec S) (bs_lib S) (bs_keylib S)
        \<lparr>w_keys = x_keys w, w_tenants = x_tenants w, w_providers = x_providers w, w_buckets = x_buckets w,
         w_principals = ps, w_policies = pol, w_vault = x_vault w\<rparr>)"

definition maxListBuckets :: int where "maxListBuckets = 10000"

subsection \<open>Proof chains\<close>

definition addBlocks :: "dlg list \<Rightarrow> dlg list \<Rightarrow> dlg list" where
  "addBlocks proofs blocks = fold (\<lambda>p bs. if d_Link p \<in> d_Link ` set bs then bs else bs @ [p]) proofs blocks"

text \<open>
  The chain of each delegation, if it has one, under its link, and the delegations of the
  chains; the store is read at the moments \<open>n\<close>, \<open>n + 1\<close> and so on.
\<close>

fun chainLoop ::
  "chain_search \<Rightarrow> (nat \<Rightarrow> dlg_store) \<Rightarrow> did \<Rightarrow> did \<Rightarrow> dlg list \<Rightarrow> nat \<Rightarrow> (string, string list) gomap \<Rightarrow> dlg list \<Rightarrow>
   err + (string, string list) gomap \<times> dlg list" where
  "chainLoop chain stores key b [] n proofSet blocks = Inr (proofSet, blocks)"
| "chainLoop chain stores key b (d # dels) n proofSet blocks =
     on_ok (ProofChain chain (stores n) key (d_Command d) b) (\<lambda>(proofs, links).
       if length proofs = 0 then chainLoop chain stores key b dels (n + 1) proofSet blocks
       else chainLoop chain stores key b dels (n + 1) (AList.update (d_Link d) links proofSet) (addBlocks proofs blocks))"

text \<open>What an audience holds, read page by page.\<close>

definition heldBy :: "dlg_store \<Rightarrow> did \<Rightarrow> (err + dlg list) option" where
  "heldBy ds key = Collect_pages (ListByAudience ds (key, None))"

subsection \<open>Create\<close>

text \<open>The root delegation, the space and its route; \<open>gen\<close> drew the bucket's key, which signs the root.\<close>

definition openBucket ::
  "'e bucket_service \<Rightarrow> string \<Rightarrow> did \<Rightarrow> did option \<Rightarrow> did \<times> string \<Rightarrow> dlg_store \<times> 'e backend \<Rightarrow>
   (err + unit) \<times> dlg_store \<times> 'e backend" where
  "openBucket S ent ten policy bkey sw =
     (let (ds, w) = sw; b = fst bkey in
      case Delegate (r_ucan (bs_rotator S)) bkey ent ten b Top None of
        None \<Rightarrow> (Inl (Internal ''issuing root delegation''), ds, w)
      | Some root \<Rightarrow>
          (case PutBatch [Some root] ds of
             (Inl e, ds) \<Rightarrow> (Inl e, ds, w)
           | (Inr _, ds) \<Rightarrow>
               (case TenantIssuer (bs_keylib S) (vault_Read (x_vault w)) ten of
                  Inl e \<Rightarrow> (Inl e, ds, w)
                | Inr account \<Rightarrow>
                    (case onExt (bs_ProvisionSpace S account b) w of
                       (Inl e, w) \<Rightarrow> (Inl e, ds, w)
                     | (Inr _, w) \<Rightarrow>
                         (case policy of
                            None \<Rightarrow> (Inr (), ds, w)
                          | Some p \<Rightarrow> (let (r, w) = onExt (bs_UseRoutingPolicy S account ds b p) w in (r, ds, w)))))))"

definition createdAnswer ::
  "'e bucket_service \<Rightarrow> authorized_request \<Rightarrow> did \<Rightarrow> 'e Policy_Service.world \<Rightarrow> (err + authorize_ok \<times> dlg list) option" where
  "createdAnswer S ar b st =
     (let ds = fst (snd (snd st)); keyID = k_ID (ar_AccessKey ar) in
      case verificationKey (authorizerOf S st) ar of
        Inl e \<Rightarrow> Some (Inl e)
      | Inr (_, kind, key) \<Rightarrow>
          (case heldBy ds keyID of
             None \<Rightarrow> None
           | Some (Inl e) \<Rightarrow> Some (Inl e)
           | Some (Inr dels) \<Rightarrow>
               Some (on_ok (chainLoop (bs_chain S) (\<lambda>_. ds) keyID b (filter (\<lambda>d. \<not> defined (d_Subject d)) dels) 0 [] [])
                 (\<lambda>(proofSet, blocks).
                    Inr (\<lparr>ok_Bucket = Some b, ok_SourceBucket = None, ok_Tenant = t_ID (ar_Tenant ar),
                      ok_Permissions = [(keyID, ar_Permissions ar)], ok_Keys = [(keyID, [(kind, key)])],
                      ok_Delegations = proofSet\<rparr>, blocks)))))"

definition rollbackBucket :: "did \<Rightarrow> 'e Policy_Service.world \<Rightarrow> 'e Policy_Service.world" where
  "rollbackBucket b st = (let (ps, pol, ds, w) = st in (ps, pol, ds, w\<lparr>x_buckets := bucket_Delete b (x_buckets w)\<rparr>))"

text \<open>The bucket's record is stored: every failure from here on takes it back.\<close>

definition storedBucket ::
  "'e bucket_service \<Rightarrow> string \<Rightarrow> authorized_request \<Rightarrow> did \<times> string \<Rightarrow> 'e Policy_Service.world \<Rightarrow>
   ((err + authorize_ok \<times> dlg list) \<times> 'e Policy_Service.world) option" where
  "storedBucket S ent ar bkey st =
     (let (ps, pol, ds, w) = st in
      case openBucket S ent (t_ID (ar_Tenant ar)) (pr_Policy (ar_Provider ar)) bkey (ds, w) of
        (Inl e, ds, w) \<Rightarrow> Some (Inl e, rollbackBucket (fst bkey) (ps, pol, ds, w))
      | (Inr _, ds, w) \<Rightarrow>
          (case createdAnswer S ar (fst bkey) (ps, pol, ds, w) of
             None \<Rightarrow> None
           | Some (Inl e) \<Rightarrow> Some (Inl e, rollbackBucket (fst bkey) (ps, pol, ds, w))
           | Some (Inr ok) \<Rightarrow> Some (Inr ok, ps, pol, ds, w)))"

definition CreateBucket ::
  "'e bucket_service \<Rightarrow> (nat \<Rightarrow> instant) \<Rightarrow> string \<Rightarrow> (did \<times> string) option \<Rightarrow> did \<Rightarrow> s3_request \<Rightarrow> 'e Policy_Service.world \<Rightarrow>
   ((err + authorize_ok \<times> dlg list) \<times> 'e Policy_Service.world) option" where
  "CreateBucket S clock ent gen issuer req st =
     (let (ps, pol, ds, w) = st in
      case Authorize (authorizerOf S st) (clock 0) (clock 1) issuer req of
        Inl e \<Rightarrow> Some (Inl e, st)
      | Inr ar \<Rightarrow>
          if ar_Operation ar \<noteq> OpCreateBucket then Some (Inl (Rpc ErrOperationMismatch), st)
          else
            (case bucket_GetByName (x_buckets w) (ar_BucketName ar) of
               Inr rec \<Rightarrow> Some (Inl (Rpc (if b_Tenant rec = t_ID (ar_Tenant ar) then ErrBucketAlreadyOwned else ErrBucketExists)), st)
             | Inl e \<Rightarrow>
                 if e \<noteq> Store ErrRecordNotFound then Some (Inl e, st)
                 else
                   (case gen of
                      None \<Rightarrow> Some (Inl (Internal ''generating bucket key''), st)
                    | Some bkey \<Rightarrow>
                        (case bucket_Add (clock 2) (fst bkey) (t_ID (ar_Tenant ar)) (pr_ID (ar_Provider ar)) (ar_BucketName ar) (x_buckets w) of
                           (Inl e, bs) \<Rightarrow> Some (Inl e, ps, pol, ds, w\<lparr>x_buckets := bs\<rparr>)
                         | (Inr _, bs) \<Rightarrow> storedBucket S ent ar bkey (ps, pol, ds, w\<lparr>x_buckets := bs\<rparr>)))))"

subsection \<open>Delete\<close>

text \<open>
  The callback of the policy store: revoke what the tenant issued over the bucket, as listed,
  drop it, drop the record.
\<close>

definition revokeDelegations ::
  "'e rotator \<Rightarrow> instant \<Rightarrow> did \<Rightarrow> issuer \<Rightarrow> err + dlg list \<Rightarrow> 'e backend \<Rightarrow> (err + unit) \<times> 'e backend" where
  "revokeDelegations R now ten revoker listed w =
     (case listed of
        Inl e \<Rightarrow> (Inl e, w)
      | Inr dels \<Rightarrow> PublishRevocations R now revoker (filter (\<lambda>d. d_Issuer d = ten) dels) w)"

definition deleteGrants ::
  "'e rotator \<Rightarrow> instant \<Rightarrow> did \<Rightarrow> did \<Rightarrow> issuer \<Rightarrow> err + dlg list \<Rightarrow> dlg_store \<times> 'e backend \<Rightarrow>
   (err + unit) \<times> dlg_store \<times> 'e backend" where
  "deleteGrants R now ten b revoker listed sw =
     (let (ds, w) = sw in
      case revokeDelegations R now ten revoker listed w of
        (Inl e, w) \<Rightarrow> (Inl e, ds, w)
      | (Inr _, w) \<Rightarrow>
          (case DeleteBySubject b ds of
             (Inl e, ds) \<Rightarrow> (Inl e, ds, w)
           | (Inr _, ds) \<Rightarrow> (Inr (), ds, w\<lparr>x_buckets := bucket_Delete b (x_buckets w)\<rparr>)))"

definition DeleteBucket ::
  "'e bucket_service \<Rightarrow> (nat \<Rightarrow> instant) \<Rightarrow> did \<Rightarrow> s3_request \<Rightarrow> 'e Policy_Service.world \<Rightarrow>
   ((err + unit) \<times> 'e Policy_Service.world) option" where
  "DeleteBucket S clock issuer req st =
     (let (ps, pol, ds, w) = st in
      case Authorize (authorizerOf S st) (clock 0) (clock 1) issuer req of
        Inl e \<Rightarrow> Some (Inl e, st)
      | Inr ar \<Rightarrow>
          if ar_Operation ar \<noteq> OpDeleteBucket then Some (Inl (Rpc ErrOperationMismatch), st)
          else
            (case (TenantIssuer (bs_keylib S) (vault_Read (x_vault w)) (t_ID (ar_Tenant ar)), ar_Bucket ar) of
               (Inl e, _) \<Rightarrow> Some (Inl e, st)
             | (Inr _, None) \<Rightarrow> Some (Inl (Internal ''panic: nil pointer''), st)
             | (Inr account, Some bk) \<Rightarrow>
                 (case onExt (bs_SpaceEmpty S account ds (b_ID bk)) w of
                    (Inl e, w) \<Rightarrow> Some (Inl e, ps, pol, ds, w)
                  | (Inr isEmpty, w) \<Rightarrow>
                      if \<not> isEmpty then Some (Inl (Rpc ErrBucketNotEmpty), ps, pol, ds, w)
                      else
                        (case Collect_pages (ListBySubject ds (b_ID bk, None)) of
                           None \<Rightarrow> None
                         | Some listed \<Rightarrow>
                             (let (r, pol, ds, w) = DeleteByBucket (b_ID bk)
                                 (Some (deleteGrants (bs_rotator S) (clock 2) (t_ID (ar_Tenant ar)) (b_ID bk) account listed))
                                 (pol, ds, w)
                              in Some (r, ps, pol, ds, w))))))"

subsection \<open>List\<close>

text \<open>A date is given to the second, as RFC 3339 writes it.\<close>

record listed_bucket =
  lb_ARN :: string
  lb_Region :: string
  lb_CreationDate :: int
  lb_Name :: string

record list_ok =
  lo_Buckets :: "listed_bucket list"
  lo_Prefix :: string
  lo_OwnerID :: string
  lo_ContinuationToken :: string

definition maxBuckets :: "string \<Rightarrow> err + int" where
  "maxBuckets v =
     (if v = [] then Inr maxListBuckets
      else (let (n, ok) = atoi v
            in if \<not> ok \<or> n < 1 \<or> n > maxListBuckets then Inl (Rpc ErrInvalidParameter) else Inr n))"

text \<open>Each bucket in the region of its provider, looked up once per provider.\<close>

fun listLoop :: "providers \<Rightarrow> bucket list \<Rightarrow> (did, string) gomap \<Rightarrow> listed_bucket list \<Rightarrow> err + listed_bucket list" where
  "listLoop provs [] regions out = Inr out"
| "listLoop provs (b # bks) regions out =
     on_ok (case map_of regions (b_Provider b) of
              Some region \<Rightarrow> Inr (region, regions)
            | None \<Rightarrow> on_ok (provider_Get provs (b_Provider b)) (\<lambda>prov.
                        Inr (pr_Region prov, AList.update (b_Provider b) (pr_Region prov) regions)))
       (\<lambda>(region, regions). listLoop provs bks regions (out @ [\<lparr>lb_ARN = ''arn:aws:s3:::'' @ b_Name b, lb_Region = region,
          lb_CreationDate = unixSeconds (b_CreatedAt b), lb_Name = b_Name b\<rparr>]))"

text \<open>The page the options ask for; a region nobody serves has no buckets.\<close>

definition listPage :: "providers \<Rightarrow> buckets \<Rightarrow> did \<Rightarrow> url_values \<Rightarrow> int \<Rightarrow> err + bucket page" where
  "listPage provs bs ten query mx =
     (let token = queryGet query ''continuation-token'';
          region = queryGet query ''bucket-region'';
          read = (\<lambda>prov. bucket_ListByTenant bs (ten, \<lparr>q_IDs = [], q_Names = [], q_Prefix = queryGet query ''prefix'',
                    q_Provider = prov, q_Limit = Some mx\<rparr>) (if token = [] then None else Some token))
      in if region = [] then read Undef
         else (case provider_GetByRegion provs region of
                 Inl e \<Rightarrow> if e = Store ErrRecordNotFound then Inr \<lparr>Cursor = None, Results = []\<rparr> else Inl e
               | Inr prov \<Rightarrow> read (pr_ID prov)))"

definition ListBuckets ::
  "'e bucket_service \<Rightarrow> (nat \<Rightarrow> instant) \<Rightarrow> did \<Rightarrow> s3_request \<Rightarrow> 'e Policy_Service.world \<Rightarrow> err + list_ok" where
  "ListBuckets S clock issuer req st =
     (let w = snd (snd (snd st)) in
      on_ok (Authorize (authorizerOf S st) (clock 0) (clock 1) issuer req) (\<lambda>ar.
        if ar_Operation ar \<noteq> OpListBuckets then Inl (Rpc ErrOperationMismatch)
        else
          (case UrlParse (bs_codec S) (URL req) of
             None \<Rightarrow> Inl (Internal ''parsing request URL'')
           | Some u \<Rightarrow>
               (let query = parseQuery (url_query u) in
                on_ok (maxBuckets (queryGet query ''max-buckets'')) (\<lambda>mx.
                on_ok (listPage (x_providers w) (x_buckets w) (t_ID (ar_Tenant ar)) query mx) (\<lambda>pg.
                on_ok (listLoop (x_providers w) (Results pg) [(pr_ID (ar_Provider ar), ar_Region ar)] []) (\<lambda>out.
                  Inr \<lparr>lo_Buckets = out, lo_Prefix = queryGet query ''prefix'', lo_OwnerID = did_string (t_ID (ar_Tenant ar)),
                    lo_ContinuationToken = (case Cursor pg of None \<Rightarrow> [] | Some c \<Rightarrow> c)\<rparr>)))))))"

subsection \<open>Info\<close>

record info_ok =
  io_ID :: did
  io_Permissions :: "(did, string list) gomap"
  io_Delegations :: "(string, string list) gomap"

definition sameLinks :: "dlg list \<Rightarrow> dlg list \<Rightarrow> bool" where
  "sameLinks a b \<longleftrightarrow> length a = length b \<and> list_all (\<lambda>d. d_Link d \<in> d_Link ` set a) b"

definition policyETag :: "err + policy_record \<Rightarrow> err + string" where
  "policyETag read =
     (case read of
        Inr rec \<Rightarrow> Inr (pol_ETag rec)
      | Inl e \<Rightarrow> if e = Store ErrRecordNotFound then Inr [] else Inl (lookupError e))"

definition listGrants :: "dlg_store \<Rightarrow> did \<Rightarrow> did \<Rightarrow> (err + dlg list) option" where
  "listGrants ds key b =
     map_option (map_sum (\<lambda>e. e) (filter (\<lambda>d. \<not> defined (d_Subject d) \<or> d_Subject d = b))) (heldBy ds key)"

text \<open>The permissions answered, and the entity tag of the policy they were read from.\<close>

definition infoAccess :: "authorizer \<Rightarrow> bucket \<Rightarrow> access_key \<Rightarrow> err + string list \<times> string" where
  "infoAccess A b ak =
     (case k_Principal ak of
        None \<Rightarrow> Inr (k_Permissions ak, [])
      | Some p \<Rightarrow>
          (case EffectiveActions A (b_Tenant b) p (b_ID b) of
             Inl e \<Rightarrow> Inl (if e = Auth ErrUnknownAccessKey then Rpc ErrKeyUnknown else e)
           | Inr (eff, tag) \<Rightarrow> if length eff = 0 then Inl (Rpc ErrBucketUnknown) else Inr (eff, tag)))"

text \<open>The check, after the chains, that nothing the answer is made of moved meanwhile.\<close>

definition infoSettled ::
  "policies \<Rightarrow> dlg_store \<Rightarrow> did \<Rightarrow> did \<Rightarrow> string \<Rightarrow> dlg list \<Rightarrow> (err + unit) option" where
  "infoSettled pol ds key b etag gs =
     (case policyETag (policy_Get pol b) of
        Inl e \<Rightarrow> Some (Inl e)
      | Inr settled \<Rightarrow>
          if settled \<noteq> etag then Some (Inl (Auth ErrTemporarilyUnavailable))
          else (case listGrants ds key b of
                  None \<Rightarrow> None
                | Some (Inl e) \<Rightarrow> Some (Inl e)
                | Some (Inr now) \<Rightarrow> Some (check (sameLinks gs now) (Auth ErrTemporarilyUnavailable))))"

text \<open>
  Other requests commit between the reads: \<open>at n\<close> is the world at the moment of the read
  \<open>n\<close>. The last two reads follow the search of a chain for each grant.
\<close>

definition InfoBucket ::
  "'e bucket_service \<Rightarrow> (nat \<Rightarrow> 'e Policy_Service.world) \<Rightarrow> did \<Rightarrow> string \<Rightarrow> did \<Rightarrow> (err + info_ok \<times> dlg list) option" where
  "InfoBucket S at issuer nm key =
     (let buckets = (\<lambda>n. x_buckets (snd (snd (snd (at n))))); keys = (\<lambda>n. x_keys (snd (snd (snd (at n)))));
          dlgs = (\<lambda>n. fst (snd (snd (at n)))); pols = (\<lambda>n. fst (snd (at n))) in
      case bucket_GetByName (buckets 0) nm of
        Inl e \<Rightarrow> Some (Inl (if e = Store ErrRecordNotFound then Rpc ErrBucketUnknown else e))
      | Inr b \<Rightarrow>
          if issuer \<noteq> b_Provider b then Some (Inl (Auth ErrIssuerForbidden))
          else
            (case key_Get (keys 1) key of
               Inl e \<Rightarrow> Some (Inl (if e = Store ErrRecordNotFound then Rpc ErrKeyUnknown else e))
             | Inr ak \<Rightarrow>
                 if k_Tenant ak \<noteq> b_Tenant b then Some (Inl (Auth ErrForeignBucket))
                 else
                   (case infoAccess (authorizerOf S (fst (at 2), snd (at 3))) b ak of
                      Inl e \<Rightarrow> Some (Inl e)
                    | Inr (perms, etag) \<Rightarrow>
                        (case listGrants (dlgs 4) key (b_ID b) of
                           None \<Rightarrow> None
                         | Some (Inl e) \<Rightarrow> Some (Inl e)
                         | Some (Inr gs) \<Rightarrow>
                             (case chainLoop (bs_chain S) dlgs key (b_ID b) gs 5 [] [] of
                                Inl e \<Rightarrow> Some (Inl e)
                              | Inr (proofSet, blocks) \<Rightarrow>
                                  map_option (\<lambda>settled. on_ok settled (\<lambda>_.
                                      Inr (\<lparr>io_ID = b_ID b, io_Permissions = [(key, perms)], io_Delegations = proofSet\<rparr>, blocks)))
                                    (if k_Principal ak \<noteq> None
                                     then infoSettled (pols (5 + length gs)) (dlgs (6 + length gs)) key (b_ID b) etag gs
                                     else Some (Inr ())))))))"

subsection \<open>Policy\<close>

definition bodyMatchesSignature :: "codec \<Rightarrow> signed_request \<Rightarrow> string \<Rightarrow> err + unit" where
  "bodyMatchesSignature G sr body =
     (if payloadHash sr = UnsignedPayload then Inl (Auth ErrSignatureMismatch)
      else check (equalFold (hexEncode (SHA256 (Crypto G) body)) (payloadHash sr)) (Auth ErrSignatureMismatch))"

definition precondition :: "signed_request \<Rightarrow> (string, string) gomap \<Rightarrow> err + condition option" where
  "precondition sr hs =
     (if list_ex (\<lambda>(k, v). (equalFold k ''If-Match'' \<or> equalFold k ''If-None-Match'') \<and> trimSpace v = []) hs
      then Inl (Api ErrInvalidPrecondition)
      else
        (let match = HeaderValue hs ''If-Match''; noneMatch = HeaderValue hs ''If-None-Match'' in
         if match \<noteq> None \<and> \<not> HeaderSigned sr ''If-Match'' \<or> noneMatch \<noteq> None \<and> \<not> HeaderSigned sr ''If-None-Match''
         then Inl (Api ErrInvalidPrecondition)
         else (case (match, noneMatch) of
                 (None, None) \<Rightarrow> Inr None
               | (Some _, Some _) \<Rightarrow> Inl (Api ErrInvalidPrecondition)
               | (None, Some v) \<Rightarrow> if trimSpace v \<noteq> ''*'' then Inl (Api ErrInvalidPrecondition) else Inr (Some (IfNoneMatch ''*''))
               | (Some v, None) \<Rightarrow> Inr (Some (IfMatch (trimSpace v))))))"

definition putPolicy ::
  "'e bucket_service \<Rightarrow> bool \<Rightarrow> instant \<Rightarrow> (did \<Rightarrow> nat \<Rightarrow> string) \<Rightarrow> authorized_request \<Rightarrow> bucket \<Rightarrow> s3_request \<Rightarrow> string \<Rightarrow>
   'e Policy_Service.world \<Rightarrow> (err + policy_document option) \<times> 'e Policy_Service.world" where
  "putPolicy S alive now ent ar b req body st =
     (case on_ok (bodyMatchesSignature (bs_codec S) (ar_Signed ar) body) (\<lambda>_.
           on_ok (Decode (bs_lib S) body) (\<lambda>doc.
           on_ok (precondition (ar_Signed ar) (Headers req)) (\<lambda>cond. Inr (doc, cond)))) of
        Inl e \<Rightarrow> (Inl e, st)
      | Inr (doc, cond) \<Rightarrow>
          (case WritePolicy (bs_policies S) alive now ent (t_ID (ar_Tenant ar)) (b_ID b) (ar_BucketName ar) doc
                 (case cond of None \<Rightarrow> [] | Some c \<Rightarrow> [c]) st of
             (Inl e, st) \<Rightarrow> (Inl (if e = Api ErrBucketNotFound then Rpc ErrBucketUnknown else e), st)
           | (Inr _, st) \<Rightarrow> (Inr None, st)))"

definition deletePolicy ::
  "'e bucket_service \<Rightarrow> bool \<Rightarrow> instant \<Rightarrow> (did \<Rightarrow> nat \<Rightarrow> string) \<Rightarrow> authorized_request \<Rightarrow> bucket \<Rightarrow> s3_request \<Rightarrow>
   'e Policy_Service.world \<Rightarrow> (err + policy_document option) \<times> 'e Policy_Service.world" where
  "deletePolicy S alive now ent ar b req st =
     (case precondition (ar_Signed ar) (Headers req) of
        Inl e \<Rightarrow> (Inl e, st)
      | Inr cond \<Rightarrow>
          if (case cond of None \<Rightarrow> False | Some c \<Rightarrow> Negate c) then (Inl (Api ErrInvalidPrecondition), st)
          else
            (case RemovePolicy (bs_policies S) alive now ent (t_ID (ar_Tenant ar)) (b_ID b) (map_option Match cond) st of
               (Inl e, st) \<Rightarrow> (Inl e, st)
             | (Inr _, st) \<Rightarrow> (Inr None, st)))"

definition BucketPolicy ::
  "'e bucket_service \<Rightarrow> bool \<Rightarrow> (nat \<Rightarrow> instant) \<Rightarrow> (did \<Rightarrow> nat \<Rightarrow> string) \<Rightarrow> did \<Rightarrow> s3_request \<Rightarrow> string \<Rightarrow>
   'e Policy_Service.world \<Rightarrow> (err + policy_document option) \<times> 'e Policy_Service.world" where
  "BucketPolicy S alive clock ent issuer req body st =
     (case Authorize (authorizerOf S st) (clock 0) (clock 1) issuer req of
        Inl e \<Rightarrow> (Inl e, st)
      | Inr ar \<Rightarrow>
          (case ar_Bucket ar of
             None \<Rightarrow> (Inl (Internal ''panic: nil pointer''), st)
           | Some b \<Rightarrow>
               (case ar_Operation ar of
                  OpGetBucketPolicy \<Rightarrow>
                    ((case policy_Get (fst (snd st)) (b_ID b) of
                        Inl e \<Rightarrow> Inl (if e = Store ErrRecordNotFound then Api ErrPolicyNotFound else e)
                      | Inr rec \<Rightarrow> Inr (Some (pol_Policy rec))), st)
                | OpPutBucketPolicy \<Rightarrow> putPolicy S alive (clock 2) ent ar b req body st
                | OpDeleteBucketPolicy \<Rightarrow> deletePolicy S alive (clock 2) ent ar b req st
                | _ \<Rightarrow> (Inl (Rpc ErrOperationMismatch), st))))"

end
