(* ===== verification/Tenant_Removal.thy ===== *)
theory Tenant_Removal
  imports Tenant_Service
begin

text \<open>
  What the removal of a tenant leaves: nothing of the tenant, revoked and deactivated in that
  order, and everything of the others.
\<close>

subsection \<open>Revoking and retiring\<close>

text \<open>A delegation in a batch of revocations the tenant signed and the revocation service took.\<close>

definition revoked_by :: "'e rotator \<Rightarrow> did \<Rightarrow> 'e \<Rightarrow> 'e \<Rightarrow> dlg \<Rightarrow> bool" where
  "revoked_by R ten e e' d \<longleftrightarrow>
     (\<exists>issuer batch. d \<in> set batch \<and> fst issuer = ten \<and> r_publish R issuer batch e = (Inr (), e'))"

text \<open>The holder's unexpired delegations, all of them revoked.\<close>

definition all_revoked :: "'e rotator \<Rightarrow> instant \<Rightarrow> did \<Rightarrow> dlg_store \<Rightarrow> 'e \<Rightarrow> 'e \<Rightarrow> did \<Rightarrow> bool" where
  "all_revoked R now ten ds e e' a \<longleftrightarrow>
     (\<forall>d \<in> authority ds a. NotExpired (r_ucan R) d (unixSeconds now) \<longrightarrow> revoked_by R ten e e' d)"

lemma revokeKeyDelegations_effect:
  assumes dl: "delegate_ok (r_ucan R) V" and al: "alone R" and sub: "\<forall>a. authority ds a \<subseteq> V"
    and run: "revokeKeyDelegations R now ten keys (ds, w) = (r, ds', w')"
  shows "beyond w w'"
    and "authority ds' a = (if r = Inr () \<and> a \<in> k_ID ` set keys then {} else authority ds a)"
    and "r = Inr () \<Longrightarrow> key \<in> set keys \<Longrightarrow> all_revoked R now ten ds (x_ext w) (x_ext w') (k_ID key)"
proof -
  consider (none) "keys = []" "r = Inr ()" "ds' = ds" "w' = w"
    | (unsigned) e where "r = Inl e" "ds' = ds" "w' = w"
    | (locked) issuer where "fst issuer = ten"
        "Replace (audiences keys) (revokeNext R now keys issuer) (ds, w) = (r, ds', w')"
  proof (cases "keys = []")
    case True
    with run that(1) show thesis by (simp add: revokeKeyDelegations_def)
  next
    case False
    show thesis
    proof (cases "TenantIssuer (r_keylib R) (vault_Read (x_vault w)) ten")
      case (Inl e)
      with run False have "r = Inl e" "ds' = ds" "w' = w" by (simp_all add: revokeKeyDelegations_def)
      then show thesis by (rule that(2))
    next
      case (Inr issuer)
      then have "fst issuer = ten" by (auto simp: TenantIssuer_def split: sum.splits option.splits)
      with run False Inr al that(3) show thesis by (simp add: revokeKeyDelegations_def alone_def)
    qed
  qed
  then have "beyond w w' \<and> authority ds' a = (if r = Inr () \<and> a \<in> k_ID ` set keys then {} else authority ds a) \<and>
    (r = Inr () \<longrightarrow> key \<in> set keys \<longrightarrow> all_revoked R now ten ds (x_ext w) (x_ext w') (k_ID key))"
  proof cases
    case (locked issuer)
    have "beyond w w'" using locked(2) revokeNext_beyond unfolding Replace_def by (rule replace_beyond[rotated])
    moreover have "authority ds' a = (if r = Inr () \<and> a \<in> set (audiences keys) then {} else authority ds a)"
      by (rule Replace_nothing[OF dl sub _ locked(2)]) (rule revokeNext_Inr(1))
    moreover have "all_revoked R now ten ds (x_ext w) (x_ext w') (k_ID key)" if "r = Inr ()" "key \<in> set keys"
      unfolding all_revoked_def
    proof (intro ballI impI)
      fix d assume d: "d \<in> authority ds (k_ID key)" "NotExpired (r_ucan R) d (unixSeconds now)"
      from locked(2) show "revoked_by R ten (x_ext w) (x_ext w') d"
      proof (cases rule: Replace_cases)
        case (written nxt)
        have "d \<in> set (concat (map (\<lambda>key. currentOf (\<lambda>_. True) (audiences keys) ds (k_ID key)) keys))"
          using that(2) d(1) by (auto simp: currentOf_def authority_def audiences_def)
        from PublishRevocations_Inr[OF revokeNext_Inr(2)[OF written(2)] this d(2)] locked(1)
        show ?thesis unfolding revoked_by_def by metis
      qed (use that(1) in simp)
    qed
    ultimately show ?thesis by (simp add: audiences_def)
  qed (auto simp: all_revoked_def)
  then show "beyond w w'"
    "authority ds' a = (if r = Inr () \<and> a \<in> k_ID ` set keys then {} else authority ds a)"
    "r = Inr () \<Longrightarrow> key \<in> set keys \<Longrightarrow> all_revoked R now ten ds (x_ext w) (x_ext w') (k_ID key)" by blast+
qed

lemma deactivateTenantDID_effect:
  assumes "deactivateTenantDID S path ten op w = (r, w')"
  shows "beyond w w'"
    and "r = Inr () \<Longrightarrow> \<exists>signed. g_Deactivate S ten signed (x_ext w) = (Inr (), x_ext w')"
  using assms
  by (auto simp: deactivateTenantDID_def onExt_def beyond_def split: sum.splits option.splits prod.splits)

text \<open>
  The DID is retired: the directory had it deactivated already, or it was deactivated after
  every delegation of the keys that could still be used was revoked.
\<close>

definition retired ::
  "'e tenant_service \<Rightarrow> instant \<Rightarrow> did \<Rightarrow> did set \<Rightarrow> dlg_store \<Rightarrow> 'e \<Rightarrow> 'e \<Rightarrow> bool" where
  "retired S now ten ids ds e e' \<longleftrightarrow>
     (\<exists>lst e0. g_Last S ten e = (lst, e0) \<and>
        (lst = DeactivatedDID \<and> e' = e0 \<or>
         (\<exists>op signed e1. lst = LastOperation op \<and> g_Deactivate S ten signed e1 = (Inr (), e') \<and>
            (\<forall>a \<in> ids. all_revoked (s_rotator S) now ten ds e0 e1 a))))"

lemma retireDID_effect:
  assumes dl: "delegate_ok (r_ucan (s_rotator S)) V" and al: "alone (s_rotator S)" and sub: "\<forall>a. authority ds a \<subseteq> V"
    and run: "retireDID S now ten keys (ds, w) = (r, ds', w')"
  shows "beyond w w'"
    and "a \<notin> k_ID ` set keys \<Longrightarrow> authority ds' a = authority ds a"
    and "authority ds' a = authority ds a \<or> authority ds' a = {}"
    and "r = Inr () \<Longrightarrow> retired S now ten (k_ID ` set keys) ds (x_ext w) (x_ext w')"
proof -
  obtain lst w0 where l: "onExt (g_Last S ten) w = (lst, w0)" by force
  note b0 = onExt_beyond[OF l]
  have e0: "g_Last S ten (x_ext w) = (lst, x_ext w0)" using l by (auto simp: onExt_def split: prod.splits)
  have "beyond w w' \<and> (a \<notin> k_ID ` set keys \<longrightarrow> authority ds' a = authority ds a) \<and>
    (authority ds' a = authority ds a \<or> authority ds' a = {}) \<and>
    (r = Inr () \<longrightarrow> retired S now ten (k_ID ` set keys) ds (x_ext w) (x_ext w'))"
  proof (cases lst)
    case (LastOperation op)
    obtain q ds1 w1 where rev: "revokeKeyDelegations (s_rotator S) now ten keys (ds, w0) = (q, ds1, w1)" by (rule prod_cases3)
    note eff = revokeKeyDelegations_effect[OF dl al sub rev]
    show ?thesis
    proof (cases q)
      case (Inl e)
      with run l rev LastOperation have "r = Inl e" "ds' = ds1" "w' = w1" by (simp_all add: retireDID_def)
      with eff(1,2) Inl beyond_trans[OF b0] show ?thesis by simp
    next
      case (Inr u)
      obtain q2 w2 where dea: "deactivateTenantDID S (TenantKeyPath ten) ten op w1 = (q2, w2)" by force
      note d = deactivateTenantDID_effect[OF dea]
      have "retireDID S now ten keys (ds, w) = (if q2 = Inr () then Inr () else Inl (Api ErrDIDDeactivation), ds1, w2)"
        unfolding retireDID_def Let_def fst_conv snd_conv l prod.case LastOperation plc_last.case rev Inr sum.case dea
        by (cases q2) simp_all
      then have end': "ds' = ds1" "w' = w2" "r = Inr () \<longrightarrow> q2 = Inr ()" using run by auto
      have "beyond w w'" unfolding end'(2) using beyond_trans[OF b0 beyond_trans[OF eff(1) d(1)]] .
      moreover have "retired S now ten (k_ID ` set keys) ds (x_ext w) (x_ext w')" if "r = Inr ()"
      proof -
        have "q2 = Inr ()" using end'(3) that by simp
        then obtain signed where "g_Deactivate S ten signed (x_ext w1) = (Inr (), x_ext w')" using d(2) end'(2) by blast
        moreover have "\<forall>a \<in> k_ID ` set keys. all_revoked (s_rotator S) now ten ds (x_ext w0) (x_ext w1) a"
          using eff(3) Inr by auto
        ultimately show ?thesis using e0 LastOperation unfolding retired_def by blast
      qed
      ultimately show ?thesis using eff(2) Inr end'(1) by simp
    qed
  next
    case DeactivatedDID
    with run l have "r = Inr ()" "ds' = ds" "w' = w0" by (simp_all add: retireDID_def)
    with b0 e0 DeactivatedDID show ?thesis by (auto simp: retired_def)
  next
    case LastFailed
    with run l have "r = Inl (Api ErrDIDDeactivation)" "ds' = ds" "w' = w0" by (simp_all add: retireDID_def)
    with b0 show ?thesis by simp
  qed
  then show "beyond w w'" "a \<notin> k_ID ` set keys \<Longrightarrow> authority ds' a = authority ds a"
    "authority ds' a = authority ds a \<or> authority ds' a = {}"
    "r = Inr () \<Longrightarrow> retired S now ten (k_ID ` set keys) ds (x_ext w) (x_ext w')" by blast+
qed

subsection \<open>Dropping the keys, the buckets and the rest\<close>

lemma DeleteByAudience_effect:
  "DeleteByAudience aud s = (r, s') \<Longrightarrow> authority s' a = (if r = Inr () \<and> a = aud then {} else authority s a)"
  by (auto simp: DeleteByAudience_def authority_def split: sum.splits)

lemma dropKeys_effect:
  assumes "dropKeys ten keys (ds, w) = (r, ds', w')"
  shows "\<exists>gone. set gone \<subseteq> set keys \<and> (r = Inr () \<longrightarrow> gone = keys) \<and>
    (\<forall>a. authority ds' a = (if a \<in> k_ID ` set gone then {} else authority ds a)) \<and>
    w' = w\<lparr>x_keys := fold (\<lambda>key. key_Delete (k_ID key)) gone (x_keys w),
           x_vault := fold (\<lambda>key. vault_Delete (AccessKeyPath ten (k_ID key))) gone (x_vault w)\<rparr>"
  using assms
proof (induction keys arbitrary: ds w)
  case (Cons ak keys)
  obtain q ds1 where q: "DeleteByAudience (k_ID ak) ds = (q, ds1)" by force
  note one = DeleteByAudience_effect[OF q]
  show ?case
  proof (cases q)
    case (Inl e)
    with Cons.prems q have "r = Inl e" "ds' = ds1" "w' = w" by simp_all
    with one Inl show ?thesis by (intro exI[of _ "[]"]) simp
  next
    case (Inr u)
    let ?w = "w\<lparr>x_vault := vault_Delete (AccessKeyPath ten (k_ID ak)) (x_vault w), x_keys := key_Delete (k_ID ak) (x_keys w)\<rparr>"
    have "dropKeys ten keys (ds1, ?w) = (r, ds', w')" using Cons.prems q Inr by simp
    from Cons.IH[OF this] obtain gone where g: "set gone \<subseteq> set keys" "r = Inr () \<longrightarrow> gone = keys"
      "\<forall>a. authority ds' a = (if a \<in> k_ID ` set gone then {} else authority ds1 a)"
      "w' = ?w\<lparr>x_keys := fold (\<lambda>key. key_Delete (k_ID key)) gone (x_keys ?w),
           x_vault := fold (\<lambda>key. vault_Delete (AccessKeyPath ten (k_ID key))) gone (x_vault ?w)\<rparr>" by blast
    then show ?thesis using one Inr by (intro exI[of _ "ak # gone"]) auto
  qed
qed (intro exI[of _ "[]"], simp)

lemma dropBuckets_effect:
  "map_of (fst (dropBuckets ids (pol, bs))) b = (if b \<in> set ids then None else map_of pol b)"
  "map_of (snd (dropBuckets ids (pol, bs))) b = (if b \<in> set ids then None else map_of bs b)"
  "policies_ok L pol \<Longrightarrow> policies_ok L (fst (dropBuckets ids (pol, bs)))"
  "buckets_ok bs \<Longrightarrow> buckets_ok (snd (dropBuckets ids (pol, bs)))"
  unfolding dropBuckets_def
  by (induction ids arbitrary: pol bs)
    (simp_all add: dropBucket_def DeleteByBucket_def bucket_Delete_def policies_ok_delete buckets_ok_Delete[unfolded bucket_Delete_def])

lemma set_all_buckets:
  assumes "buckets_ok s"
  shows "b \<in> set (all_buckets s (ten, q)) \<longleftrightarrow> map_of s (b_ID b) = Some b \<and> bucket_selected ten q b"
proof -
  have "b \<in> snd ` set s \<longleftrightarrow> map_of s (b_ID b) = Some b"
    by (rule gomap_value[OF buckets_okD(1)[OF assms]]) (simp add: buckets_okD(3)[OF assms])
  then show ?thesis by (simp add: all_buckets_def conj_commute)
qed

lemma principal_DeleteByTenant_cases:
  assumes "principal_DeleteByTenant ten (ps, u) = (r, ps', u')"
  shows "r = Inr () \<and> p_rows ps' = filter (\<lambda>(r, e). fst r \<noteq> ten) (p_rows ps) \<or> (\<exists>e. r = Inl e) \<and> ps' = ps"
proof (cases "hold (filter (\<lambda>r. fst r = ten) (map fst (p_rows ps))) ps")
  case (Pair x ps1)
  show ?thesis
  proof (cases x)
    case (Inr v)
    then have "p_rows ps1 = p_rows ps"
      using hold_Inr(1)[of "filter (\<lambda>r. fst r = ten) (map fst (p_rows ps))" ps ps1] Pair by simp
    with assms Pair Inr show ?thesis by (auto simp: principal_DeleteByTenant_def withRows_def)
  qed (use assms Pair in \<open>auto simp: principal_DeleteByTenant_def withRows_def\<close>)
qed

lemma live_filtered:
  assumes "p_rows ps' = filter (\<lambda>(r, e). fst r \<noteq> ten) (p_rows ps)"
  shows "map_of (p_rows ps') x = (if fst x = ten then None else map_of (p_rows ps) x)"
    and "live ps' x \<longleftrightarrow> fst x \<noteq> ten \<and> live ps x"
proof -
  have "p_rows ps' = AList.restrict {r. fst r \<noteq> ten} (p_rows ps)"
    unfolding assms AList.restrict_eq by (rule filter_cong) auto
  then show m: "map_of (p_rows ps') x = (if fst x = ten then None else map_of (p_rows ps) x)"
    by (simp add: restr_conv restrict_map_def)
  show "live ps' x \<longleftrightarrow> fst x \<noteq> ten \<and> live ps x" by (simp add: live_def m)
qed

lemma fold_wrap_Delete:
  "vault_Read (fold (\<lambda>wk. vault_Delete (wr_VaultKey wk)) wks v) path =
     (if path \<in> wr_VaultKey ` set wks then Inl (Store ErrKeyNotFound) else vault_Read v path)"
  by (induction wks arbitrary: v) (auto simp: vault_simps)

subsection \<open>The state of the removal\<close>

text \<open>The keys and the buckets of a tenant.\<close>

definition keysOf :: "access_keys \<Rightarrow> did \<Rightarrow> did set" where
  "keysOf ks ten = {k. \<exists>rec. map_of ks k = Some rec \<and> k_Tenant rec = ten}"

definition bucketsOf :: "buckets \<Rightarrow> did \<Rightarrow> did set" where
  "bucketsOf bs ten = {b. \<exists>bk. map_of bs b = Some bk \<and> b_Tenant bk = ten}"

lemma listed_keysOf:
  assumes "keys_ok ks"
  shows "k_ID ` set (key_ListByTenant ks ten allKeys) = keysOf ks ten"
proof -
  have id: "k_ID r = k" if "map_of ks k = Some r" for k r
    using assms that by (auto simp: keys_ok_def key_wf_def dest: all_recordsD)
  have sel: "r \<in> set (key_ListByTenant ks ten allKeys) \<longleftrightarrow> map_of ks (k_ID r) = Some r \<and> k_Tenant r = ten" for r
    by (simp add: listed_keys(2)[OF assms] key_selected_def allKeys_def)
  show ?thesis
  proof (rule set_eqI)
    fix k
    show "k \<in> k_ID ` set (key_ListByTenant ks ten allKeys) \<longleftrightarrow> k \<in> keysOf ks ten"
      unfolding image_iff Bex_def sel keysOf_def mem_Collect_eq using id by metis
  qed
qed

lemma tenantBuckets_spec:
  assumes "buckets_ok bs"
  shows "\<exists>ids. tenantBuckets bs ten = Some (Inr ids) \<and> set ids = bucketsOf bs ten"
proof -
  let ?q = "\<lparr>q_IDs = [], q_Names = [], q_Prefix = [], q_Provider = Undef, q_Limit = None\<rparr>"
  have "valid_query (ten, ?q)" by (simp add: valid_query_def bucket_limit_def defaultListLimit_def)
  note whole = bucket_pages.collect_whole[OF assms this]
  have "b \<in> set (map b_ID (all_buckets bs (ten, ?q))) \<longleftrightarrow> (\<exists>bk. map_of bs b = Some bk \<and> b_Tenant bk = ten)" for b
    unfolding set_map image_iff Bex_def set_all_buckets[OF assms]
    using buckets_okD(3)[OF assms] by (auto simp: bucket_selected_def)
  then show ?thesis by (auto simp: tenantBuckets_def whole bucketsOf_def)
qed

text \<open>What belongs to other tenants is as before, and no holder gained anything.\<close>

definition others_kept :: "did \<Rightarrow> 'e tenant_world \<Rightarrow> 'e tenant_world \<Rightarrow> bool" where
  "others_kept ten st st' \<longleftrightarrow>
     (let (wk, ps, pol, ds, w) = st; (wk', ps', pol', ds', w') = st' in
      (\<forall>k. fst k \<noteq> did_string ten \<longrightarrow> map_of wk' k = map_of wk k) \<and>
      (\<forall>x. fst x \<noteq> ten \<longrightarrow> map_of (p_rows ps') x = map_of (p_rows ps) x) \<and>
      (\<forall>b. b \<notin> bucketsOf (x_buckets w) ten \<longrightarrow>
         map_of pol' b = map_of pol b \<and> map_of (x_buckets w') b = map_of (x_buckets w) b) \<and>
      (\<forall>k. k \<notin> keysOf (x_keys w) ten \<longrightarrow> map_of (x_keys w') k = map_of (x_keys w) k) \<and>
      (\<forall>a. authority ds' a \<subseteq> authority ds a \<and> (a \<noteq> ten \<and> a \<notin> keysOf (x_keys w) ten \<longrightarrow> authority ds' a = authority ds a)) \<and>
      (\<forall>t. t \<noteq> ten \<longrightarrow> map_of (x_tenants w') t = map_of (x_tenants w) t))"

text \<open>
  A step of the removal: some keys, then the principals and some buckets with their policies
  are gone, and holders that are the tenant or its keys may hold nothing.
\<close>

lemma removal_state:
  assumes ok: "world_ok L V (ps, pol, ds, w)"
    and rows: "wf_gomap (p_rows ps')" "\<And>x. map_of (p_rows ps') x = (if fp \<and> fst x = ten then None else map_of (p_rows ps) x)"
    and pols: "policies_ok L pol'" "\<And>b. map_of pol' b = (if b \<in> B then None else map_of pol b)"
    and bks: "\<And>b. map_of (x_buckets w') b = (if b \<in> B then None else map_of (x_buckets w) b)"
      "B \<subseteq> bucketsOf (x_buckets w) ten"
    and keys: "without_keys K (x_keys w) (x_keys w')" "K \<subseteq> keysOf (x_keys w) ten"
      "fp \<or> B \<noteq> {} \<Longrightarrow> K = keysOf (x_keys w) ten"
    and auth: "\<And>a. authority ds' a = authority ds a \<or> authority ds' a = {}"
      "\<And>a. a \<noteq> ten \<Longrightarrow> a \<notin> keysOf (x_keys w) ten \<Longrightarrow> authority ds' a = authority ds a"
    and wraps: "\<And>k. fst k \<noteq> did_string ten \<Longrightarrow> map_of wk' k = map_of wk k"
    and ts: "\<And>t. t \<noteq> ten \<Longrightarrow> map_of (x_tenants w') t = map_of (x_tenants w) t"
  shows "world_ok L V (ps', pol', ds', w')" and "within L (ps, pol, ds, w) \<longrightarrow> within L (ps', pol', ds', w')"
    and "others_kept ten (wk, ps, pol, ds, w) (wk', ps', pol', ds', w')"
proof -
  note wk = world_okD[OF ok]
  have k': "map_of (x_keys w') k = (if k \<in> K then None else map_of (x_keys w) k)" for k
    using keys(1) by (simp add: without_keys_def)
  have other: "k_Tenant rec \<noteq> ten" if "fp \<or> B \<noteq> {}" "map_of (x_keys w') k = Some rec" for k rec
    using that keys(3) by (auto simp: k' keysOf_def split: if_splits)
  have live': "live ps' (k_Tenant rec, p)" if "map_of (x_keys w') k = Some rec" "k_Principal rec = Some p" for k rec p
  proof -
    have "map_of (x_keys w) k = Some rec" using that(1) by (simp add: k' split: if_splits)
    with wk(6) that(2) have "live ps (k_Tenant rec, p)" by (auto simp: bound_live_def)
    moreover have "\<not> (fp \<and> k_Tenant rec = ten)" using other that(1) by blast
    ultimately show ?thesis by (simp add: live_def rows(2))
  qed
  have sub: "authority ds' a \<subseteq> authority ds a" for a using auth(1)[of a] by auto
  show "world_ok L V (ps', pol', ds', w')"
  proof (rule world_okI[OF rows(1) pols(1)])
    show "owned pol' (x_buckets w')" using wk(3) by (simp add: owned_def pols(2) bks(1))
    show "keys_ok (x_keys w')" using keys(1) by (simp add: without_keys_def)
    show "authority ds' a \<subseteq> V" for a using sub wk(5) by blast
    show "bound_live (x_keys w') ps'" using live' by (simp add: bound_live_def)
  qed
  show "within L (ps, pol, ds, w) \<longrightarrow> within L (ps', pol', ds', w')"
  proof
    assume tr: "within L (ps, pol, ds, w)"
    show "within L (ps', pol', ds', w')"
    proof (rule tracksI)
      fix key p b
      assume k: "map_of (x_keys w') (k_ID key) = Some key" "k_Principal key = Some p"
      then have "map_of (x_keys w) (k_ID key) = Some key" by (simp add: k' split: if_splits)
      note old = tracksD[OF tr this k(2), of b]
      have "policyOf pol' (k_Tenant key) b = policyOf pol (k_Tenant key) b"
      proof (cases "b \<in> B")
        case True
        then have "k_Tenant key \<noteq> ten" using other k(1) by blast
        moreover have "e_tenant e = ten" if "map_of pol b = Some e" for e
          using wk(3) that bks(2) True by (fastforce simp: owned_def bucketsOf_def)
        ultimately show ?thesis using True by (auto simp: policyOf_def pols(2) split: option.splits)
      qed (simp add: policyOf_def pols(2))
      moreover have "commandsOver ds' (k_ID key) b \<subseteq> commandsOver ds (k_ID key) b"
        using sub[of "k_ID key"] by (auto simp: over_def)
      ultimately show "commandsOver ds' (k_ID key) b \<subseteq> granted L (policyOf pol' (k_Tenant key) b) p"
        using old by auto
    qed
  qed
  show "others_kept ten (wk, ps, pol, ds, w) (wk', ps', pol', ds', w')"
    using sub auth(2) wraps ts bks(2) keys(2) by (auto simp: others_kept_def rows(2) pols(2) bks(1) k')
qed

text \<open>Nothing of the tenant is left: no row, no key, no secret, no principal, no bucket, no policy, no wrap key.\<close>

definition nothing_left :: "did \<Rightarrow> 'e tenant_world \<Rightarrow> 'e tenant_world \<Rightarrow> bool" where
  "nothing_left ten st st' \<longleftrightarrow>
     (let (wk, ps, pol, ds, w) = st; (wk', ps', pol', ds', w') = st'; gone = (\<lambda>path. vault_Read (x_vault w') path = Inl (Store ErrKeyNotFound)) in
      map_of (x_tenants w') ten = None \<and> gone (TenantKeyPath ten) \<and>
      keysOf (x_keys w') ten = {} \<and> (\<forall>k \<in> keysOf (x_keys w) ten. gone (AccessKeyPath ten k)) \<and>
      (\<forall>a. a = ten \<or> a \<in> keysOf (x_keys w) ten \<longrightarrow> authority ds' a = {}) \<and>
      (\<forall>p. map_of (p_rows ps') (ten, p) = None) \<and>
      bucketsOf (x_buckets w') ten = {} \<and> (\<forall>b e. map_of pol' b = Some e \<longrightarrow> e_tenant e \<noteq> ten) \<and>
      (\<forall>v. map_of wk' (did_string ten, v) = None) \<and>
      (\<forall>k rec. map_of wk k = Some rec \<longrightarrow> wr_Tenant rec = ten \<longrightarrow> gone (wr_VaultKey rec)))"

lemma cascade_effect:
  assumes ok: "world_ok L V (ps, pol, ds, w)" and bs: "buckets_ok (x_buckets w)" and wraps: "wraps_ok wk"
    and w1: "x_buckets w1 = x_buckets w" "x_tenants w1 = x_tenants w"
    and keys: "without_keys (keysOf (x_keys w) ten) (x_keys w) (x_keys w1)"
    and vaults: "\<And>k. k \<in> keysOf (x_keys w) ten \<Longrightarrow> vault_Read (x_vault w1) (AccessKeyPath ten k) = Inl (Store ErrKeyNotFound)"
    and auth: "\<And>a. authority ds1 a = (if a \<in> keysOf (x_keys w) ten then {} else authority ds a)"
  obtains r wk' ps' pol' ds' w' where "cascade ten (wk, ps, pol, ds1, w1) = Some (r, wk', ps', pol', ds', w')"
    "x_ext w' = x_ext w1" "world_ok L V (ps', pol', ds', w')" "within L (ps, pol, ds, w) \<longrightarrow> within L (ps', pol', ds', w')"
    "buckets_ok (x_buckets w')" "wraps_ok wk'" "others_kept ten (wk, ps, pol, ds, w) (wk', ps', pol', ds', w')"
    "if r = Inr () then nothing_left ten (wk, ps, pol, ds, w) (wk', ps', pol', ds', w') \<and> x_tenants w' = tenant_Delete ten (x_tenants w)
     else x_tenants w' = x_tenants w"
proof -
  note ww = world_okD[OF ok]
  let ?K = "keysOf (x_keys w) ten" and ?B = "bucketsOf (x_buckets w) ten"
  obtain q ps1 u where pr: "principal_DeleteByTenant ten (ps, ()) = (q, ps1, u)" by (rule prod_cases3)
  show thesis
  proof (cases q)
    case (Inl e)
    have ps1: "ps1 = ps" using principal_DeleteByTenant_cases[OF pr] Inl by auto
    have "cascade ten (wk, ps, pol, ds1, w1) = Some (Inl e, wk, ps, pol, ds1, w1)"
      by (simp add: cascade_def pr Inl ps1)
    moreover have "world_ok L V (ps, pol, ds1, w1)" "within L (ps, pol, ds, w) \<longrightarrow> within L (ps, pol, ds1, w1)"
        "others_kept ten (wk, ps, pol, ds, w) (wk, ps, pol, ds1, w1)"
      using removal_state[OF ok ww(1) _ ww(2) _ _ _ keys _ _ _ _, where fp = False and B = "{}" and ds' = ds1 and wk = wk and wk' = wk and ten = ten]
      by (simp_all add: w1 auth)
    ultimately show thesis using that bs wraps w1 by (metis Inl_Inr_False)
  next
    case (Inr v)
    have rows: "p_rows ps1 = filter (\<lambda>(r, e). fst r \<noteq> ten) (p_rows ps)"
      using principal_DeleteByTenant_cases[OF pr] Inr by auto
    obtain ids where ids: "tenantBuckets (x_buckets w) ten = Some (Inr ids)" "set ids = ?B"
      using tenantBuckets_spec[OF bs] by blast
    obtain pol2 bs2 where db: "dropBuckets ids (pol, x_buckets w) = (pol2, bs2)" by force
    note eff = dropBuckets_effect[where ids = ids and pol = pol and bs = "x_buckets w", unfolded db fst_conv snd_conv]
    obtain q2 ds2 where da: "DeleteByAudience ten ds1 = (q2, ds2)" by force
    note d2 = DeleteByAudience_effect[OF da]
    let ?v = "fold (\<lambda>wk. vault_Delete (wr_VaultKey wk)) (wrap_List wk ten) (x_vault w1)"
    let ?w2 = "w1\<lparr>x_vault := ?v, x_buckets := bs2\<rparr>"
    let ?w3 = "?w2\<lparr>x_tenants := tenant_Delete ten (x_tenants w), x_vault := vault_Delete (TenantKeyPath ten) ?v\<rparr>"
    let ?st = "if q2 = Inr () then ?w3 else ?w2"
    have run: "cascade ten (wk, ps, pol, ds1, w1) = Some (q2, wrap_Delete ten wk, ps1, pol2, ds2, ?st)"
      using pr Inr ids(1) db da by (cases q2) (simp_all add: cascade_def dropWraps_def w1)
    have st: "x_buckets ?st = bs2" "x_keys ?st = x_keys w1" "x_ext ?st = x_ext w1" by simp_all
    have ts: "map_of (x_tenants ?st) t = map_of (x_tenants w) t" if "t \<noteq> ten" for t
      using that by (simp add: w1 tenant_Delete_def)
    have au: "authority ds2 a = (if a \<in> ?K \<or> (q2 = Inr () \<and> a = ten) then {} else authority ds a)" for a
      by (auto simp: d2 auth)
    have "wf_gomap (p_rows ps1)" using ww(1) by (simp add: rows)
    note state = removal_state[OF ok this _ eff(3)[OF ww(2)] eff(1)[unfolded ids(2)] _ _ keys[folded st(2)],
        where fp = True and wk = wk and wk' = "wrap_Delete ten wk" and ds' = ds2 and ten = ten]
    have ok': "world_ok L V (ps1, pol2, ds2, ?st)" "within L (ps, pol, ds, w) \<longrightarrow> within L (ps1, pol2, ds2, ?st)"
        "others_kept ten (wk, ps, pol, ds, w) (wrap_Delete ten wk, ps1, pol2, ds2, ?st)"
      by (rule state; (simp add: live_filtered(1)[OF rows] eff(2) ids(2) au ts map_of_wrap_Delete)?)+
    have left: "nothing_left ten (wk, ps, pol, ds, w) (wrap_Delete ten wk, ps1, pol2, ds2, ?w3)" if "q2 = Inr ()"
    proof -
      have gone: "vault_Read (vault_Delete (TenantKeyPath ten) ?v) path = (if path = TenantKeyPath ten \<or> path \<in> wr_VaultKey ` set (wrap_List wk ten)
          then Inl (Store ErrKeyNotFound) else vault_Read (x_vault w1) path)" for path
        by (simp add: vault_simps fold_wrap_Delete)
      have "map_of pol2 b = Some e \<Longrightarrow> e_tenant e \<noteq> ten" for b e
        using ww(3) by (auto simp: eff(1) ids(2) owned_def bucketsOf_def split: if_splits)
      moreover have "keysOf (x_keys w1) ten = {}" using keys by (auto simp: without_keys_def keysOf_def)
      moreover have "wr_VaultKey rec \<in> wr_VaultKey ` set (wrap_List wk (wr_Tenant rec))" if "map_of wk k = Some rec" for k rec
        using that set_wrap_List[OF wraps_okD(1)[OF wraps]] by blast
      moreover have "bucketsOf bs2 ten = {}" by (auto simp: bucketsOf_def eff(2) ids(2))
      ultimately show ?thesis
        using that vaults
        by (auto simp: nothing_left_def gone au live_filtered(1)[OF rows] map_of_wrap_Delete tenant_Delete_def)
    qed
    have fin: "if q2 = Inr () then nothing_left ten (wk, ps, pol, ds, w) (wrap_Delete ten wk, ps1, pol2, ds2, ?st) \<and>
        x_tenants ?st = tenant_Delete ten (x_tenants w) else x_tenants ?st = x_tenants w"
      using left by (simp add: w1)
    show thesis
      by (rule that[OF run st(3) ok'(1,2) _ wraps_ok_Delete[OF wraps] ok'(3) fin]) (simp add: eff(4)[OF bs])
  qed
qed

text \<open>The answer of a removal and the state it leaves.\<close>

definition removal_outcome ::
  "'e tenant_service \<Rightarrow> instant \<Rightarrow> tenant \<Rightarrow> 'e tenant_world \<Rightarrow> err + unit \<Rightarrow> 'e tenant_world \<Rightarrow> bool" where
  "removal_outcome S now rec st r st' \<longleftrightarrow>
     (if t_Status rec \<noteq> Disabled then r = Inl (Api ErrTenantNotDisabled) \<and> st' = st
      else
        (let (wk, ps, pol, ds, w) = st; (wk', ps', pol', ds', w') = st'; ten = t_ID rec in
         others_kept ten st st' \<and>
         (if r = Inr ()
          then nothing_left ten st st' \<and> retired S now ten (keysOf (x_keys w) ten) ds (x_ext w) (x_ext w')
          else x_tenants w' = x_tenants w)))"

lemma DeleteTenant_effect:
  assumes env: "env_ok L (s_rotator S) V" and ok: "world_ok L V (ps, pol, ds, w)" and bs: "buckets_ok (x_buckets w)"
    and wraps: "wraps_ok wk" and ts: "tenants_ok (x_tenants w)" and t: "tenant_GetByExternalID (x_tenants w) ext = Inr rec"
  obtains r wk' ps' pol' ds' w' where "DeleteTenant S now ext (wk, ps, pol, ds, w) = Some (r, wk', ps', pol', ds', w')"
    "world_ok L V (ps', pol', ds', w')" "within L (ps, pol, ds, w) \<longrightarrow> within L (ps', pol', ds', w')"
    "buckets_ok (x_buckets w')" "wraps_ok wk'" "tenants_ok (x_tenants w')"
    "removal_outcome S now rec (wk, ps, pol, ds, w) r (wk', ps', pol', ds', w')"
proof (cases "t_Status rec = Disabled")
  case False
  then have "DeleteTenant S now ext (wk, ps, pol, ds, w) = Some (Inl (Api ErrTenantNotDisabled), wk, ps, pol, ds, w)"
    by (simp add: DeleteTenant_def t)
  then show thesis using that ok bs wraps ts False by (auto simp: removal_outcome_def)
next
  case dis: True
  note answer = that
  let ?ten = "t_ID rec" and ?st = "(wk, ps, pol, ds, w)"
  let ?keys = "key_ListByTenant (x_keys w) ?ten allKeys" and ?K = "keysOf (x_keys w) (t_ID rec)"
  note ww = world_okD[OF ok]
  have K: "k_ID ` set ?keys = ?K" by (rule listed_keysOf[OF ww(4)])
  obtain q ds1 w1 where ret: "retireDID S now ?ten ?keys (ds, w) = (q, ds1, w1)" by (rule prod_cases3)
  note re = retireDID_effect[OF env_okD(1,2)[OF env] ww(5) ret, unfolded K]
  note b1 = beyond_sel[OF re(1)]
  have run: "DeleteTenant S now ext ?st = (case q of Inl e \<Rightarrow> Some (Inl e, wk, ps, pol, ds1, w1)
      | Inr _ \<Rightarrow> (case dropKeys ?ten ?keys (ds1, w1) of
            (Inl e, ds, w) \<Rightarrow> Some (Inl e, wk, ps, pol, ds, w)
          | (Inr _, ds, w) \<Rightarrow> cascade ?ten (wk, ps, pol, ds, w)))"
    by (cases q) (simp_all add: DeleteTenant_def t dis ret)
  have partial: "world_ok L V (ps, pol, ds2, w2) \<and> (within L (ps, pol, ds, w) \<longrightarrow> within L (ps, pol, ds2, w2)) \<and>
      others_kept ?ten ?st (wk, ps, pol, ds2, w2)"
    if "without_keys G (x_keys w) (x_keys w2)" "G \<subseteq> ?K" "x_buckets w2 = x_buckets w" "x_tenants w2 = x_tenants w"
      "\<And>a. authority ds2 a = authority ds1 a \<or> authority ds2 a = {}"
      "\<And>a. a \<notin> ?K \<Longrightarrow> authority ds2 a = authority ds1 a" for G ds2 w2
  proof -
    note kept = that(6)
    have "authority ds2 a = authority ds a \<or> authority ds2 a = {}" for a using that(5)[of a] re(3)[of a] by auto
    moreover have "authority ds2 a = authority ds a" if "a \<notin> ?K" for a using that kept re(2)[of a] by simp
    ultimately show ?thesis
      using removal_state[OF ok ww(1) _ ww(2) _ _ _ that(1) that(2) _ _ _, where fp = False and B = "{}" and ds' = ds2
          and wk = wk and wk' = wk]
      by (simp add: that(3,4))
  qed
  have stopped: thesis if "DeleteTenant S now ext ?st = Some (Inl e, wk, ps, pol, ds2, w2)"
    "without_keys G (x_keys w) (x_keys w2)" "G \<subseteq> ?K" "x_buckets w2 = x_buckets w" "x_tenants w2 = x_tenants w"
    "\<And>a. authority ds2 a = authority ds1 a \<or> authority ds2 a = {}"
    "\<And>a. a \<notin> ?K \<Longrightarrow> authority ds2 a = authority ds1 a" for e G ds2 w2
    using partial[OF that(2-7)] answer[OF that(1)] bs wraps ts dis that(4,5)
    by (simp add: removal_outcome_def)
  show thesis
  proof (cases q)
    case (Inl e)
    show thesis
      by (rule stopped[of e ds1 w1 "{}"])
        (use run Inl b1 ww(4) in \<open>simp_all add: without_keys_def\<close>)
  next
    case q: (Inr u)
    obtain q2 ds2 w2 where dk: "dropKeys ?ten ?keys (ds1, w1) = (q2, ds2, w2)" by (rule prod_cases3)
    from dropKeys_effect[OF dk] obtain gone where g: "set gone \<subseteq> set ?keys" "q2 = Inr () \<longrightarrow> gone = ?keys"
      "\<And>a. authority ds2 a = (if a \<in> k_ID ` set gone then {} else authority ds1 a)"
      and w2: "w2 = w1\<lparr>x_keys := fold (\<lambda>key. key_Delete (k_ID key)) gone (x_keys w1),
           x_vault := fold (\<lambda>key. vault_Delete (AccessKeyPath ?ten (k_ID key))) gone (x_vault w1)\<rparr>" by blast
    have sub: "k_ID ` set gone \<subseteq> ?K" using g(1) K by blast
    have wo: "without_keys (k_ID ` set gone) (x_keys w) (x_keys w2)"
      using ww(4) by (simp add: w2 without_keys_def b1 fold_key_Delete)
    have same: "x_buckets w2 = x_buckets w" "x_tenants w2 = x_tenants w" "x_ext w2 = x_ext w1" by (simp_all add: w2 b1)
    show thesis
    proof (cases q2)
      case (Inl e)
      show thesis
        by (rule stopped[OF _ wo sub same(1,2), of e ds2]) (use run q dk Inl g(3) sub in auto)
    next
      case q2: (Inr v)
      have all: "k_ID ` set gone = ?K" using g(2) q2 K by simp
      have auth: "authority ds2 a = (if a \<in> ?K then {} else authority ds a)" for a using g(3) all re(2) by simp
      have vaults: "vault_Read (x_vault w2) (AccessKeyPath ?ten k) = Inl (Store ErrKeyNotFound)" if "k \<in> ?K" for k
        using that all by (auto simp: w2 fold_vault_Delete)
      from ok bs wraps same(1,2) wo[unfolded all] vaults auth
      obtain r wk' ps' pol' ds' w' where c: "cascade ?ten (wk, ps, pol, ds2, w2) = Some (r, wk', ps', pol', ds', w')"
        "x_ext w' = x_ext w2" "world_ok L V (ps', pol', ds', w')" "within L (ps, pol, ds, w) \<longrightarrow> within L (ps', pol', ds', w')"
        "buckets_ok (x_buckets w')" "wraps_ok wk'" "others_kept ?ten ?st (wk', ps', pol', ds', w')"
        "if r = Inr () then nothing_left ?ten ?st (wk', ps', pol', ds', w') \<and> x_tenants w' = tenant_Delete ?ten (x_tenants w)
         else x_tenants w' = x_tenants w"
        by (rule cascade_effect)
      have "DeleteTenant S now ext ?st = Some (r, wk', ps', pol', ds', w')" using run q dk q2 c(1) by simp
      moreover have "tenants_ok (x_tenants w')" using c(8) ts tenants_ok_Delete by (auto split: if_splits)
      moreover have "removal_outcome S now rec ?st r (wk', ps', pol', ds', w')"
        using c(2,7,8) re(4) q dis same(3) by (auto simp: removal_outcome_def split: if_splits)
      ultimately show thesis using answer c(3-6) by blast
    qed
  qed
qed

subsection \<open>Properties\<close>


definition sample_disabled :: "dlg list tenant_world" where
  "sample_disabled = (let (ps, pol, ds, w) = sample_tenant_world
     in ([], ps, pol, ds, w\<lparr>x_tenants := map (map_prod (\<lambda>k. k) (t_Status_update (\<lambda>_. Disabled))) (x_tenants w)\<rparr>))"

lemma sample_disabled_tenants:
  "x_tenants (snd (snd (snd (snd sample_disabled)))) =
     [(Did ''t'', \<lparr>t_ID = Did ''t'', t_ExternalID = ''ext'', t_Status = Disabled, t_CreatedAt = 0, t_UpdatedAt = 0\<rparr>)]"
  "map_option fst (DeleteTenant sample_tenant_service 1 ''ext'' sample_disabled) = Some (Inr ())"
  by code_simp+


text \<open>
  A removal that fails to deactivate the DID has already dropped what the tenant's keys hold:
  not all local state is intact.
\<close>

lemma aborted_removal_drops_delegations:
  "map_option (\<lambda>(r, _, _, _, ds, _). (r, byAudience ds))
     (DeleteTenant (sample_tenant_service\<lparr>g_Deactivate := \<lambda>_ _ e. (Inl (Internal ''timeout''), e)\<rparr>) 1 ''ext'' sample_disabled) =
     Some (Inl (Api ErrDIDDeactivation), [])"
  "byAudience (fst (snd (snd (snd sample_disabled)))) \<noteq> []"
  by code_simp+

end
