(* ===== verification/Bucket_Creation.thy ===== *)
theory Bucket_Creation
  imports Bucket_Service Auth_Properties Tenant_Removal
begin

text \<open>
  Creating a bucket, step by step, and the property that it is created whole or not at all.
\<close>

subsection \<open>Creation\<close>

lemma onExt_ext: "onExt f w = (r, w') \<Longrightarrow> f (x_ext w) = (r, x_ext w')"
  by (auto simp: onExt_def split: prod.splits)

definition bucket_root :: "did \<Rightarrow> did \<Rightarrow> dlg \<Rightarrow> bool" where
  "bucket_root b ten d \<longleftrightarrow> d_Issuer d = b \<and> d_Audience d = ten \<and> d_Subject d = b \<and> d_Command d = Top \<and> d_Expiration d = None"

text \<open>The space was provisioned for the tenant and routed, where the provider has a policy.\<close>

definition opened :: "'e bucket_service \<Rightarrow> did \<Rightarrow> did option \<Rightarrow> did \<Rightarrow> dlg_store \<Rightarrow> 'e \<Rightarrow> 'e \<Rightarrow> bool" where
  "opened S ten policy b ds e e' \<longleftrightarrow>
     (\<exists>account sub e1. fst account = ten \<and> bs_ProvisionSpace S account b e = (Inr sub, e1) \<and>
        (case policy of None \<Rightarrow> e' = e1 | Some p \<Rightarrow> bs_UseRoutingPolicy S account ds b p e1 = (Inr (), e')))"

lemma PutBatch_effect:
  assumes "delegate_ok U V" and "\<forall>a. authority ds a \<subseteq> V" and "d \<in> V" and "PutBatch [Some d] ds = (r, ds')"
  shows "authority ds' a = authority ds a \<union> (if r = Inr () \<and> a = d_Audience d then {d} else {})"
  using assms set_heldBy_put[of V ds "[d]" a]
  by (auto simp: PutBatch_def authority_def delegate_ok_def split: sum.splits)

lemma openBucket_effect:
  assumes dl: "delegate_ok (r_ucan (bs_rotator S)) V" and sub: "\<forall>a. authority ds a \<subseteq> V"
    and run: "openBucket S ent ten policy (b, signer) (ds, w) = (r, ds', w')"
  shows "beyond w w'" and "a \<noteq> ten \<Longrightarrow> authority ds' a = authority ds a"
    and "\<exists>R. authority ds' ten = authority ds ten \<union> R \<and> R \<subseteq> V \<and> (\<forall>d \<in> R. bucket_root b ten d) \<and> (r = Inr () \<longrightarrow> R \<noteq> {})"
    and "r = Inr () \<Longrightarrow> opened S ten policy b ds' (x_ext w) (x_ext w')"
proof -
  let ?R = "r_ucan (bs_rotator S)"
  have "beyond w w' \<and> (a \<noteq> ten \<longrightarrow> authority ds' a = authority ds a) \<and>
    (\<exists>R. authority ds' ten = authority ds ten \<union> R \<and> R \<subseteq> V \<and> (\<forall>d \<in> R. bucket_root b ten d) \<and> (r = Inr () \<longrightarrow> R \<noteq> {})) \<and>
    (r = Inr () \<longrightarrow> opened S ten policy b ds' (x_ext w) (x_ext w'))"
  proof (cases "Delegate ?R (b, signer) ent ten b Top None")
    case None
    with run have "r = Inl (Internal ''issuing root delegation'')" "ds' = ds" "w' = w"
      by (simp_all add: openBucket_def Let_def)
    then show ?thesis by (intro conjI exI[of _ "{}"]) simp_all
  next
    case (Some root)
    have root: "root \<in> V" "bucket_root b ten root" using delegate_okD[OF dl Some] by (simp_all add: bucket_root_def)
    obtain q ds1 where p: "PutBatch [Some root] ds = (q, ds1)" by force
    note put = PutBatch_effect[OF dl sub root(1) p]
    show ?thesis
    proof (cases q)
      case (Inl e)
      with run Some p have "r = Inl e" "ds' = ds1" "w' = w" by (simp_all add: openBucket_def Let_def)
      with put Inl show ?thesis by (intro conjI exI[of _ "{}"]) simp_all
    next
      case q: (Inr u)
      have auth: "authority ds1 x = authority ds x \<union> (if x = ten then {root} else {})" for x
        using put[of x] q root(2) by (simp add: bucket_root_def)
      have kept: "(a \<noteq> ten \<longrightarrow> authority ds1 a = authority ds a) \<and> (\<exists>R. authority ds1 ten = authority ds ten \<union> R \<and> R \<subseteq> V \<and>
          (\<forall>d \<in> R. bucket_root b ten d) \<and> (r = Inr () \<longrightarrow> R \<noteq> {}))"
        using auth root by auto
      have "ds' = ds1 \<and> beyond w w' \<and> (r = Inr () \<longrightarrow> opened S ten policy b ds1 (x_ext w) (x_ext w'))"
      proof (cases "TenantIssuer (bs_keylib S) (vault_Read (x_vault w)) ten")
        case (Inl e)
        with run Some p q have "r = Inl e" "ds' = ds1" "w' = w" by (simp_all add: openBucket_def Let_def)
        then show ?thesis by simp
      next
        case t: (Inr account)
        have ten: "fst account = ten" using t by (auto simp: TenantIssuer_def split: sum.splits option.splits)
        obtain q1 w1 where e1: "onExt (bs_ProvisionSpace S account b) w = (q1, w1)" by force
        show ?thesis
        proof (cases q1)
          case (Inl e)
          with run Some p q t e1 have "r = Inl e" "ds' = ds1" "w' = w1" by (simp_all add: openBucket_def Let_def)
          with onExt_beyond[OF e1] show ?thesis by simp
        next
          case q1: (Inr sub')
          show ?thesis
          proof (cases policy)
            case None
            with run Some p q t e1 q1 have "ds' = ds1" "w' = w1" by (simp_all add: openBucket_def Let_def)
            with onExt_beyond[OF e1] onExt_ext[OF e1] q1 ten None show ?thesis by (cases account) (auto simp: opened_def)
          next
            case pol: (Some x)
            obtain q2 w2 where e2: "onExt (bs_UseRoutingPolicy S account ds1 b x) w1 = (q2, w2)" by force
            with run Some p q t e1 q1 pol have "r = q2" "ds' = ds1" "w' = w2" by (simp_all add: openBucket_def Let_def)
            with beyond_trans[OF onExt_beyond[OF e1] onExt_beyond[OF e2]] onExt_ext[OF e1] onExt_ext[OF e2] q1 ten pol
            show ?thesis by (cases account) (auto simp: opened_def)
          qed
        qed
      qed
      with kept show ?thesis by simp
    qed
  qed
  then show "beyond w w'" "a \<noteq> ten \<Longrightarrow> authority ds' a = authority ds a"
    "\<exists>R. authority ds' ten = authority ds ten \<union> R \<and> R \<subseteq> V \<and> (\<forall>d \<in> R. bucket_root b ten d) \<and> (r = Inr () \<longrightarrow> R \<noteq> {})"
    "r = Inr () \<Longrightarrow> opened S ten policy b ds' (x_ext w) (x_ext w')" by blast+
qed

lemma addBlocks_links: "d_Link ` set (addBlocks proofs blocks) = d_Link ` set blocks \<union> d_Link ` set proofs"
  unfolding addBlocks_def by (induction proofs arbitrary: blocks) auto

text \<open>Each chain answered is of one of the delegations, as the store had it when it was searched.\<close>

lemma chainLoop_Inr:
  assumes "chainLoop chain stores key b dels n proofSet blocks = Inr (proofSet', blocks')"
  shows "d_Link ` set blocks \<subseteq> d_Link ` set blocks'"
    and "map_of proofSet' l = Some links \<Longrightarrow> map_of proofSet l = Some links \<or>
      (\<exists>i d proofs. i < length dels \<and> d = dels ! i \<and> d_Link d = l \<and> proofs \<noteq> [] \<and>
         ProofChain chain (stores (n + i)) key (d_Command d) b = Inr (proofs, links) \<and> d_Link ` set proofs \<subseteq> d_Link ` set blocks')"
proof -
  have "d_Link ` set blocks \<subseteq> d_Link ` set blocks' \<and>
    (map_of proofSet' l = Some links \<longrightarrow> map_of proofSet l = Some links \<or>
      (\<exists>i d proofs. i < length dels \<and> d = dels ! i \<and> d_Link d = l \<and> proofs \<noteq> [] \<and>
         ProofChain chain (stores (n + i)) key (d_Command d) b = Inr (proofs, links) \<and> d_Link ` set proofs \<subseteq> d_Link ` set blocks'))"
    using assms
  proof (induction dels arbitrary: n proofSet blocks)
    case (Cons d dels)
    obtain proofs ls where pc: "ProofChain chain (stores n) key (d_Command d) b = Inr (proofs, ls)"
      using Cons.prems by (auto simp: on_ok_Inr_iff)
    define ps bs where "ps = (if length proofs = 0 then proofSet else AList.update (d_Link d) ls proofSet)"
      and "bs = (if length proofs = 0 then blocks else addBlocks proofs blocks)"
    have rest: "chainLoop chain stores key b dels (n + 1) ps bs = Inr (proofSet', blocks')"
      using Cons.prems pc by (simp add: ps_def bs_def split: if_splits)
    note IH = Cons.IH[OF rest]
    have sub: "d_Link ` set blocks \<subseteq> d_Link ` set bs" "proofs \<noteq> [] \<Longrightarrow> d_Link ` set proofs \<subseteq> d_Link ` set bs"
      by (auto simp: bs_def addBlocks_links)
    show ?case
    proof (intro conjI impI)
      show "d_Link ` set blocks \<subseteq> d_Link ` set blocks'" by (rule order_trans[OF sub(1) IH[THEN conjunct1]])
      assume l: "map_of proofSet' l = Some links"
      from IH[THEN conjunct2, rule_format, OF l] consider "map_of ps l = Some links"
        | i e qs where "i < length dels" "e = dels ! i" "d_Link e = l" "qs \<noteq> []"
          "ProofChain chain (stores (n + 1 + i)) key (d_Command e) b = Inr (qs, links)" "d_Link ` set qs \<subseteq> d_Link ` set blocks'"
        by blast
      then show "map_of proofSet l = Some links \<or>
          (\<exists>i e qs. i < length (d # dels) \<and> e = (d # dels) ! i \<and> d_Link e = l \<and> qs \<noteq> [] \<and>
             ProofChain chain (stores (n + i)) key (d_Command e) b = Inr (qs, links) \<and> d_Link ` set qs \<subseteq> d_Link ` set blocks')"
      proof cases
        case 1
        show ?thesis
        proof (cases "proofs \<noteq> [] \<and> d_Link d = l")
          case True
          then have "map_of ps l = Some ls" by (simp add: ps_def update_conv')
          with 1 have links: "ls = links" by simp
          have "d_Link ` set proofs \<subseteq> d_Link ` set blocks'"
            using order_trans[OF sub(2) IH[THEN conjunct1]] True by blast
          then show ?thesis
            using True pc[unfolded links] by (intro disjI2 exI[of _ 0] exI[of _ d] exI[of _ proofs]) simp
        next
          case False
          with 1 have "map_of proofSet l = Some links" by (auto simp: ps_def update_conv' split: if_splits)
          then show ?thesis by simp
        qed
      next
        case (2 i e qs)
        then show ?thesis by (intro disjI2 exI[of _ "Suc i"] exI[of _ e] exI[of _ qs]) simp
      qed
    qed
  qed simp
  then show "d_Link ` set blocks \<subseteq> d_Link ` set blocks'"
    "map_of proofSet' l = Some links \<Longrightarrow> map_of proofSet l = Some links \<or>
      (\<exists>i d proofs. i < length dels \<and> d = dels ! i \<and> d_Link d = l \<and> proofs \<noteq> [] \<and>
         ProofChain chain (stores (n + i)) key (d_Command d) b = Inr (proofs, links) \<and> d_Link ` set proofs \<subseteq> d_Link ` set blocks')"
    by blast+
qed

lemma heldBy_whole: "dlgs_ok (byAudience ds) \<Longrightarrow> heldBy ds key = Some (Inr (dlgsOf ds key))"
  using dlg_pages.collect_whole[of ds "(key, None)"] by (simp add: heldBy_def)

lemma openBucket_dlgs_ok:
  assumes "dlgs_ok (byAudience ds)" and "openBucket S ent ten policy bkey (ds, w) = (r, ds', w')"
  shows "dlgs_ok (byAudience ds')"
proof -
  have "dlgs_ok (byAudience ds1)" if "PutBatch dels ds = (q, ds1)" for dels q ds1
    using assms(1) that dlgs_ok_put by (auto simp: PutBatch_def split: if_splits sum.splits)
  with assms show ?thesis
    by (auto simp: openBucket_def Let_def split: option.splits sum.splits prod.splits)
qed

text \<open>The record of a bucket and its root are there, its space is open, and nothing else changed.\<close>

definition bucket_created ::
  "'e bucket_service \<Rightarrow> instant \<Rightarrow> authorized_request \<Rightarrow> did \<Rightarrow> 'e Policy_Service.world \<Rightarrow> 'e Policy_Service.world \<Rightarrow> bool" where
  "bucket_created S now ar b st st' \<longleftrightarrow>
     (let (ps, pol, ds, w) = st; (ps', pol', ds', w') = st'; ten = t_ID (ar_Tenant ar) in
      map_of (x_buckets w) b = None \<and> (\<forall>bk. bucket_GetByName (x_buckets w) (ar_BucketName ar) \<noteq> Inr bk) \<and>
      x_buckets w' = AList.update b \<lparr>b_ID = b, b_Tenant = ten, b_Provider = pr_ID (ar_Provider ar),
          b_Name = ar_BucketName ar, b_CreatedAt = now\<rparr> (x_buckets w) \<and>
      (\<exists>root \<in> authority ds' ten. bucket_root b ten root) \<and>
      opened S ten (pr_Policy (ar_Provider ar)) b ds' (x_ext w) (x_ext w'))"

text \<open>What a creation leaves alone: all but the buckets and the tenant's own delegations, which only grow by roots.\<close>

definition creation_frame :: "did \<Rightarrow> did \<Rightarrow> 'e Policy_Service.world \<Rightarrow> 'e Policy_Service.world \<Rightarrow> bool" where
  "creation_frame ten b st st' \<longleftrightarrow>
     (let (ps, pol, ds, w) = st; (ps', pol', ds', w') = st' in
      ps' = ps \<and> pol' = pol \<and> x_keys w' = x_keys w \<and> x_tenants w' = x_tenants w \<and> x_providers w' = x_providers w \<and>
      x_vault w' = x_vault w \<and> (\<forall>a. a \<noteq> ten \<longrightarrow> authority ds' a = authority ds a) \<and>
      authority ds ten \<subseteq> authority ds' ten \<and> (\<forall>d \<in> authority ds' ten - authority ds ten. bucket_root b ten d))"

text \<open>The chains answered are of the key's delegations that name no bucket.\<close>

definition powerline_chains :: "'e bucket_service \<Rightarrow> dlg_store \<Rightarrow> did \<Rightarrow> did \<Rightarrow> authorize_ok \<times> dlg list \<Rightarrow> bool" where
  "powerline_chains S ds key b ans \<longleftrightarrow>
     (\<forall>l links. map_of (ok_Delegations (fst ans)) l = Some links \<longrightarrow>
        (\<exists>d proofs. d \<in> authority ds key \<and> d_Subject d = Undef \<and> d_Link d = l \<and>
           ProofChain (bs_chain S) ds key (d_Command d) b = Inr (proofs, links) \<and> d_Link ` set proofs \<subseteq> d_Link ` set (snd ans)))"

lemma createdAnswer_effect:
  assumes "dlgs_ok (byAudience ds)"
  shows "\<exists>q. createdAnswer S ar b (ps, pol, ds, w) = Some q \<and>
    (\<forall>ans. q = Inr ans \<longrightarrow> ok_Bucket (fst ans) = Some b \<and> ok_Tenant (fst ans) = t_ID (ar_Tenant ar) \<and>
       powerline_chains S ds (k_ID (ar_AccessKey ar)) b ans)"
proof (cases "verificationKey (authorizerOf S (ps, pol, ds, w)) ar")
  case (Inl e)
  then show ?thesis by (simp add: createdAnswer_def Let_def)
next
  case (Inr x)
  let ?key = "k_ID (ar_AccessKey ar)"
  let ?dels = "filter (\<lambda>d. \<not> defined (d_Subject d)) (dlgsOf ds ?key)"
  obtain signer kind k where x: "x = (signer, kind, k)" by (rule prod_cases3)
  show ?thesis
  proof (cases "chainLoop (bs_chain S) (\<lambda>_. ds) ?key b ?dels 0 [] []")
    case (Inl e)
    with Inr x show ?thesis by (simp add: createdAnswer_def Let_def heldBy_whole[OF assms])
  next
    case loop: (Inr res)
    obtain proofSet blocks where res: "res = (proofSet, blocks)" by force
    have "\<exists>d proofs. d \<in> authority ds ?key \<and> d_Subject d = Undef \<and> d_Link d = l \<and>
        ProofChain (bs_chain S) ds ?key (d_Command d) b = Inr (proofs, links) \<and> d_Link ` set proofs \<subseteq> d_Link ` set blocks"
      if l: "map_of proofSet l = Some links" for l links
    proof -
      obtain i d proofs where d: "i < length ?dels" "d = ?dels ! i" "d_Link d = l"
        "ProofChain (bs_chain S) ds ?key (d_Command d) b = Inr (proofs, links)" "d_Link ` set proofs \<subseteq> d_Link ` set blocks"
        using chainLoop_Inr(2)[OF loop[unfolded res] l] by auto
      have "d \<in> set ?dels" unfolding d(2) by (rule nth_mem[OF d(1)])
      then have "d \<in> authority ds ?key" "d_Subject d = Undef" by (simp_all add: authority_def defined_def)
      with d(3-5) show ?thesis by blast
    qed
    with Inr x loop res show ?thesis
      by (simp add: createdAnswer_def Let_def heldBy_whole[OF assms] powerline_chains_def)
  qed
qed

lemma storedBucket_effect:
  assumes dl: "delegate_ok (r_ucan (bs_rotator S)) V" and sub: "\<forall>a. authority ds a \<subseteq> V" and ok: "dlgs_ok (byAudience ds)"
  obtains r ps' pol' ds' w' where "storedBucket S ent ar bkey (ps, pol, ds, w) = Some (r, ps', pol', ds', w')"
    "creation_frame (t_ID (ar_Tenant ar)) (fst bkey) (ps, pol, ds, w) (ps', pol', ds', w')" "dlgs_ok (byAudience ds')"
    "\<forall>a. authority ds' a \<subseteq> V"
    "\<forall>e. r = Inl e \<longrightarrow> x_buckets w' = bucket_Delete (fst bkey) (x_buckets w)"
    "\<forall>ans. r = Inr ans \<longrightarrow> x_buckets w' = x_buckets w \<and> ok_Bucket (fst ans) = Some (fst bkey) \<and>
       ok_Tenant (fst ans) = t_ID (ar_Tenant ar) \<and> powerline_chains S ds' (k_ID (ar_AccessKey ar)) (fst bkey) ans \<and>
       (\<exists>root \<in> authority ds' (t_ID (ar_Tenant ar)). bucket_root (fst bkey) (t_ID (ar_Tenant ar)) root) \<and>
       opened S (t_ID (ar_Tenant ar)) (pr_Policy (ar_Provider ar)) (fst bkey) ds' (x_ext w) (x_ext w')"
proof -
  note answer = that
  let ?ten = "t_ID (ar_Tenant ar)"
  obtain b signer where bkey: "bkey = (b, signer)" by force
  obtain q ds1 w1 where o: "openBucket S ent ?ten (pr_Policy (ar_Provider ar)) bkey (ds, w) = (q, ds1, w1)" by (rule prod_cases3)
  note eff = openBucket_effect[OF dl sub o[unfolded bkey]] and ok1 = openBucket_dlgs_ok[OF ok o]
  note bw = beyond_sel[OF eff(1)]
  obtain R where R: "authority ds1 ?ten = authority ds ?ten \<union> R" "R \<subseteq> V" "\<forall>d \<in> R. bucket_root b ?ten d" "q = Inr () \<longrightarrow> R \<noteq> {}"
    using eff(3) by blast
  have V: "\<forall>a. authority ds1 a \<subseteq> V" using eff(2) R(1,2) sub by (metis Un_least)
  have fr: "creation_frame ?ten b (ps, pol, ds, w) (ps, pol, ds1, w1\<lparr>x_buckets := bs\<rparr>)" for bs
    using eff(2) R(1,3) by (auto simp: creation_frame_def bw)
  from fr[of "x_buckets w1"] have fr1: "creation_frame ?ten b (ps, pol, ds, w) (ps, pol, ds1, w1)" by simp
  have undone: thesis if "storedBucket S ent ar bkey (ps, pol, ds, w) = Some (Inl e, rollbackBucket (fst bkey) (ps, pol, ds1, w1))" for e
    by (rule answer[OF that[unfolded rollbackBucket_def prod.case Let_def] _ ok1 V])
      (simp_all add: fr bkey bw)
  show thesis
  proof (cases q)
    case (Inl e)
    with o show thesis by (intro undone[of e]) (simp add: storedBucket_def)
  next
    case q: (Inr u)
    obtain a where a: "createdAnswer S ar b (ps, pol, ds1, w1) = Some a"
      "\<forall>ans. a = Inr ans \<longrightarrow> ok_Bucket (fst ans) = Some b \<and> ok_Tenant (fst ans) = ?ten \<and>
         powerline_chains S ds1 (k_ID (ar_AccessKey ar)) b ans"
      using createdAnswer_effect[OF ok1] by blast
    show thesis
    proof (cases a)
      case (Inl e)
      with o q a(1) show thesis by (intro undone[of e]) (simp add: storedBucket_def bkey)
    next
      case (Inr ans)
      have "storedBucket S ent ar bkey (ps, pol, ds, w) = Some (Inr ans, ps, pol, ds1, w1)"
        using o q a(1) Inr by (simp add: storedBucket_def bkey)
      moreover have "\<exists>root \<in> authority ds1 ?ten. bucket_root b ?ten root" using R q by auto
      ultimately show thesis
        using answer[of "Inr ans" ps pol ds1 w1] fr1 ok1 V a(2) Inr eff(4) q bw(3) by (simp add: bkey)
    qed
  qed
qed

text \<open>A frame over which no key's holdings or policy changed keeps the invariants.\<close>

lemma creation_frame_tracks:
  assumes "creation_frame ten b (ps, pol, ds, w) (ps', pol', ds', w')" and "map_of (x_keys w) ten = None"
    and "tracks rel L (ps, pol, ds, w)"
  shows "tracks rel L (ps', pol', ds', w')"
proof (rule tracksI)
  note fr = assms(1)[unfolded creation_frame_def Let_def prod.case]
  fix key p c
  assume k: "map_of (x_keys w') (k_ID key) = Some key" "k_Principal key = Some p"
  with fr assms(2) have "k_ID key \<noteq> ten" "map_of (x_keys w) (k_ID key) = Some key" by auto
  with fr tracksD[OF assms(3) this(2) k(2), of c]
  show "rel (commandsOver ds' (k_ID key) c) (granted L (policyOf pol' (k_Tenant key) c) p)"
    by (simp add: over_def)
qed

lemma creation_frame_ok:
  assumes "creation_frame ten b (ps, pol, ds, w) (ps', pol', ds', w')" and "Tracking.world_ok L V (ps, pol, ds, w)"
    and "\<forall>a. authority ds' a \<subseteq> V" and "owned pol (x_buckets w')"
  shows "Tracking.world_ok L V (ps', pol', ds', w')"
  using assms by (auto simp: creation_frame_def Tracking.world_ok_def)

text \<open>What a request to create a bucket comes to.\<close>

definition creation_outcome ::
  "'e bucket_service \<Rightarrow> (nat \<Rightarrow> instant) \<Rightarrow> (did \<times> string) option \<Rightarrow> authorized_request \<Rightarrow> 'e Policy_Service.world \<Rightarrow>
   (err + authorize_ok \<times> dlg list) \<Rightarrow> 'e Policy_Service.world \<Rightarrow> bool" where
  "creation_outcome S clock gen ar st r st' \<longleftrightarrow>
     (let buckets = (\<lambda>st. x_buckets (snd (snd (snd st)))) in
      if ar_Operation ar \<noteq> OpCreateBucket then r = Inl (Rpc ErrOperationMismatch) \<and> st' = st
      else
        (case bucket_GetByName (buckets st) (ar_BucketName ar) of
           Inr rec \<Rightarrow> r = Inl (Rpc (if b_Tenant rec = t_ID (ar_Tenant ar) then ErrBucketAlreadyOwned else ErrBucketExists)) \<and> st' = st
         | Inl _ \<Rightarrow>
             (st' = st \<and> (\<exists>e. r = Inl e)) \<or>
             (\<exists>b signer. gen = Some (b, signer) \<and> creation_frame (t_ID (ar_Tenant ar)) b st st' \<and>
                (case r of
                   Inl _ \<Rightarrow> buckets st' = buckets st
                 | Inr ans \<Rightarrow> bucket_created S (clock 2) ar b st st' \<and> ok_Bucket (fst ans) = Some b \<and>
                     ok_Tenant (fst ans) = t_ID (ar_Tenant ar) \<and>
                     powerline_chains S (fst (snd (snd st'))) (k_ID (ar_AccessKey ar)) b ans))))"

lemma storedBucket_outcome:
  assumes dl: "delegate_ok (r_ucan (bs_rotator S)) V" and sub: "\<forall>a. authority ds a \<subseteq> V" and ok: "dlgs_ok (byAudience ds)"
    and bs: "buckets_ok (x_buckets w)" and op: "ar_Operation ar = OpCreateBucket"
    and add: "bucket_Add (clock 2) (fst bkey) (t_ID (ar_Tenant ar)) (pr_ID (ar_Provider ar)) (ar_BucketName ar) (x_buckets w) = (Inr (), bs')"
  obtains r ps' pol' ds' w' where
    "storedBucket S ent ar bkey (ps, pol, ds, w\<lparr>x_buckets := bs'\<rparr>) = Some (r, ps', pol', ds', w')"
    "creation_outcome S clock (Some bkey) ar (ps, pol, ds, w) r (ps', pol', ds', w')"
    "creation_frame (t_ID (ar_Tenant ar)) (fst bkey) (ps, pol, ds, w) (ps', pol', ds', w')" "dlgs_ok (byAudience ds')"
    "\<forall>a. authority ds' a \<subseteq> V" "x_buckets w' = x_buckets w \<or> x_buckets w' = bs'"
proof -
  let ?w = "w\<lparr>x_buckets := bs'\<rparr>" and ?ten = "t_ID (ar_Tenant ar)"
  obtain b signer where bkey: "bkey = (b, signer)" by force
  note a = bucket_Add_Inr[OF add, unfolded bkey fst_conv]
  have fresh: "b \<notin> fst ` set (x_buckets w)"
    using a(5) buckets_okD(3)[OF bs] map_of_is_SomeI[of "x_buckets w" b] buckets_okD(1)[OF bs]
    by (fastforce simp: wf_gomap_def)
  have free: "bucket_GetByName (x_buckets w) (ar_BucketName ar) = Inl (Store ErrRecordNotFound)"
    using a(5) bs by (auto simp: bucket_GetByName_def findRecord_None buckets_ok_def dest!: map_of_SomeD)
  have undo: "bucket_Delete b bs' = x_buckets w"
    by (simp add: bucket_Delete_def a(6) delete_update_same delete_fresh[OF fresh])
  obtain r ps' pol' ds' w' where st: "storedBucket S ent ar bkey (ps, pol, ds, ?w) = Some (r, ps', pol', ds', w')"
    and fr: "creation_frame ?ten b (ps, pol, ds, ?w) (ps', pol', ds', w')" and ok': "dlgs_ok (byAudience ds')"
    and V: "\<forall>a. authority ds' a \<subseteq> V"
    and failed: "\<forall>e. r = Inl e \<longrightarrow> x_buckets w' = bucket_Delete b bs'"
    and made: "\<forall>ans. r = Inr ans \<longrightarrow> x_buckets w' = bs' \<and> ok_Bucket (fst ans) = Some b \<and>
       ok_Tenant (fst ans) = ?ten \<and> powerline_chains S ds' (k_ID (ar_AccessKey ar)) b ans \<and>
       (\<exists>root \<in> authority ds' ?ten. bucket_root b ?ten root) \<and>
       opened S ?ten (pr_Policy (ar_Provider ar)) b ds' (x_ext w) (x_ext w')"
    using storedBucket_effect[OF dl sub ok, of ent ar bkey ps pol ?w] by (simp add: bkey) blast
  have fr: "creation_frame ?ten b (ps, pol, ds, w) (ps', pol', ds', w')" using fr by (simp add: creation_frame_def)
  have "creation_outcome S clock (Some bkey) ar (ps, pol, ds, w) r (ps', pol', ds', w')"
  proof (cases r)
    case (Inl e)
    with fr failed undo show ?thesis by (simp add: creation_outcome_def op free bkey)
  next
    case (Inr ans)
    have "map_of (x_buckets w) b = None" using fresh by (simp add: map_of_eq_None_iff)
    with fr made Inr show ?thesis
      by (simp add: creation_outcome_def op free bkey bucket_created_def a(6))
  qed
  moreover have "x_buckets w' = x_buckets w \<or> x_buckets w' = bs'" using failed made undo by (cases r) auto
  ultimately show thesis using that[OF st] fr ok' V by (simp add: bkey)
qed

lemma CreateBucket_effect:
  assumes dl: "delegate_ok (r_ucan (bs_rotator S)) V" and wok: "Tracking.world_ok (bs_lib S) V (ps, pol, ds, w)"
    and bs: "buckets_ok (x_buckets w)" and ok: "dlgs_ok (byAudience ds)"
    and auth: "Authorize (authorizerOf S (ps, pol, ds, w)) (clock 0) (clock 1) issuer req = Inr ar"
    and ten: "map_of (x_keys w) (t_ID (ar_Tenant ar)) = None"
  obtains r ps' pol' ds' w' where
    "CreateBucket S clock ent gen issuer req (ps, pol, ds, w) = Some (r, ps', pol', ds', w')"
    "creation_outcome S clock gen ar (ps, pol, ds, w) r (ps', pol', ds', w')"
    "Tracking.world_ok (bs_lib S) V (ps', pol', ds', w')" "buckets_ok (x_buckets w')" "dlgs_ok (byAudience ds')"
    "\<And>rel. tracks rel (bs_lib S) (ps, pol, ds, w) \<Longrightarrow> tracks rel (bs_lib S) (ps', pol', ds', w')"
proof -
  note answer = that
  let ?st = "(ps, pol, ds, w)"
  have refused: thesis if "CreateBucket S clock ent gen issuer req ?st = Some (r, ?st)" "creation_outcome S clock gen ar ?st r ?st" for r
    using answer[OF that wok bs ok] by blast
  show thesis
  proof (cases "ar_Operation ar = OpCreateBucket")
    case False
    with auth show thesis by (intro refused) (simp_all add: CreateBucket_def creation_outcome_def)
  next
    case op: True
    show thesis
    proof (cases "bucket_GetByName (x_buckets w) (ar_BucketName ar)")
      case (Inr rec)
      with auth op show thesis by (intro refused) (simp_all add: CreateBucket_def creation_outcome_def)
    next
      case free: (Inl e)
      then have e: "e = Store ErrRecordNotFound" unfolding bucket_GetByName_def by (rule findRecord_set(3))
      show thesis
      proof (cases gen)
        case None
        with auth op free e show thesis by (intro refused) (auto simp: CreateBucket_def creation_outcome_def)
      next
        case gen: (Some bkey)
        obtain q bs' where add: "bucket_Add (clock 2) (fst bkey) (t_ID (ar_Tenant ar)) (pr_ID (ar_Provider ar))
            (ar_BucketName ar) (x_buckets w) = (q, bs')" by force
        show thesis
        proof (cases q)
          case (Inl e')
          then have "bs' = x_buckets w" using add by (auto simp: bucket_Add_def split: if_splits sum.splits)
          with auth op free e gen add Inl show thesis
            by (intro refused[of "Inl e'"]) (auto simp: CreateBucket_def creation_outcome_def)
        next
          case (Inr u)
          with add have add: "bucket_Add (clock 2) (fst bkey) (t_ID (ar_Tenant ar)) (pr_ID (ar_Provider ar))
            (ar_BucketName ar) (x_buckets w) = (Inr (), bs')" by simp
          obtain r ps' pol' ds' w' where
            st: "storedBucket S ent ar bkey (ps, pol, ds, w\<lparr>x_buckets := bs'\<rparr>) = Some (r, ps', pol', ds', w')"
            "creation_outcome S clock (Some bkey) ar ?st r (ps', pol', ds', w')"
            and fr: "creation_frame (t_ID (ar_Tenant ar)) (fst bkey) ?st (ps', pol', ds', w')"
            and s: "dlgs_ok (byAudience ds')" "\<forall>a. authority ds' a \<subseteq> V" "x_buckets w' = x_buckets w \<or> x_buckets w' = bs'"
            by (rule storedBucket_outcome[where clock = clock, OF dl world_okD(5)[OF wok] ok bs op add])
          have "owned pol bs'"
            using world_okD(3)[OF wok] bucket_Add_Inr(5,6)[OF add] buckets_okD(3)[OF bs]
            by (fastforce simp: owned_def update_conv' dest: map_of_SomeD)
          then have "owned pol (x_buckets w')" using s(3) world_okD(3)[OF wok] by auto
          note ok' = creation_frame_ok[OF fr wok s(2) this]
          have "buckets_ok (x_buckets w')" using s(3) bs buckets_ok_Add[OF bs add] by auto
          moreover have "CreateBucket S clock ent gen issuer req ?st = Some (r, ps', pol', ds', w')"
            using auth op free e gen add st(1) by (simp add: CreateBucket_def)
          ultimately show thesis
            using answer st(2) gen ok' s(1) creation_frame_tracks[OF fr ten] by blast
        qed
      qed
    qed
  qed
qed

subsection \<open>Properties\<close>

text \<open>
  C10. A bucket is created whole or not at all. Creating one always answers. A request that is
  not authorized, is not one to create a bucket, or names a bucket that exists, its own
  tenant's or another's told apart, changes nothing. Otherwise either the record of the
  bucket is there under its name, with the tenant as owner and the provider that was invoked,
  its root delegation is the tenant's, its space was provisioned and routed, and the answer
  carries the chains of the key's delegations that name no bucket; or no bucket was added, whatever
  step failed. Policies, principals, keys and the delegations of all but the tenant are
  untouched, the stores stay consistent, and no key holds more or less than before.
\<close>

theorem bucket_creation:
  assumes "delegate_ok (r_ucan (bs_rotator S)) V" and "Tracking.world_ok (bs_lib S) V (ps, pol, ds, w)"
    and "buckets_ok (x_buckets w)" and "dlgs_ok (byAudience ds)" and "tenants_ok (x_tenants w)"
    and "\<forall>t. map_of (x_tenants w) t \<noteq> None \<longrightarrow> map_of (x_keys w) t = None"
  shows "\<exists>r ps' pol' ds' w'. CreateBucket S clock ent gen issuer req (ps, pol, ds, w) = Some (r, ps', pol', ds', w') \<and>
    (case Authorize (authorizerOf S (ps, pol, ds, w)) (clock 0) (clock 1) issuer req of
       Inl e \<Rightarrow> r = Inl e \<and> (ps', pol', ds', w') = (ps, pol, ds, w)
     | Inr ar \<Rightarrow> creation_outcome S clock gen ar (ps, pol, ds, w) r (ps', pol', ds', w')) \<and>
    Tracking.world_ok (bs_lib S) V (ps', pol', ds', w') \<and> buckets_ok (x_buckets w') \<and> dlgs_ok (byAudience ds') \<and>
    (\<forall>rel. tracks rel (bs_lib S) (ps, pol, ds, w) \<longrightarrow> tracks rel (bs_lib S) (ps', pol', ds', w'))"
proof (cases "Authorize (authorizerOf S (ps, pol, ds, w)) (clock 0) (clock 1) issuer req")
  case (Inl e)
  with assms(2-4) show ?thesis by (simp add: CreateBucket_def)
next
  case (Inr ar)
  have "tenant_Get (x_tenants w) (k_Tenant (ar_AccessKey ar)) = Inr (ar_Tenant ar)"
    by (rule Authorize_InrD[OF Inr]) (simp add: authorizerOf_def memory_authorizer_def)
  then have "map_of (x_tenants w) (t_ID (ar_Tenant ar)) = Some (ar_Tenant ar)"
    using assms(5) by (auto simp: tenant_Get_def mapGet_Inr tenants_ok_def all_records_def)
  with assms(6) have "map_of (x_keys w) (t_ID (ar_Tenant ar)) = None" by simp
  from CreateBucket_effect[OF assms(1-4) Inr this] show ?thesis unfolding Inr sum.case by metis
qed

text \<open>A library that signs the root of one bucket.\<close>

definition sample_root :: dlg where
  "sample_root = \<lparr>d_Link = ''r'', d_Issuer = Did ''b2'', d_Audience = Did ''t'', d_Subject = Did ''b2'',
     d_Command = Top, d_Expiration = None\<rparr>"

definition root_ucan :: ucan_lib where
  "root_ucan = sample_ucan\<lparr>Delegate := (\<lambda>issuer nonce aud sub cmd exp.
     if fst issuer = Did ''b2'' \<and> aud = Did ''t'' \<and> sub = Did ''b2'' \<and> cmd = Top \<and> exp = None then Some sample_root else None)\<rparr>"

definition sample_bucket_service :: "dlg list bucket_service" where
  "sample_bucket_service = \<lparr>bs_codec = sample_auth_codec,
     bs_policies = \<lparr>v_policy = sample_lib, v_rotator = sample_rotator\<lparr>r_ucan := root_ucan\<rparr>\<rparr>,
     bs_chain = (\<lambda>_ _ _ _. Inr ([], [])),
     bs_ProvisionSpace = (\<lambda>_ _ e. (Inr ''sub'', e)), bs_SpaceEmpty = (\<lambda>_ _ _ e. (Inr True, e)),
     bs_UseRoutingPolicy = (\<lambda>_ _ _ _ e. (Inr (), e))\<rparr>"

text \<open>A world in which the tenant's key holds some permissions, and there are some buckets, policies and delegations.\<close>

definition bucket_world :: "string list \<Rightarrow> buckets \<Rightarrow> policies \<Rightarrow> dlg_store \<Rightarrow> dlg list Policy_Service.world" where
  "bucket_world perms bs pol ds = (\<lparr>p_rows = [], p_held = [], p_wait = (\<lambda>_. None)\<rparr>, pol, ds,
     \<lparr>x_tenants = w_tenants (Auth_Properties.sample_world None Allow), x_providers = w_providers (Auth_Properties.sample_world None Allow),
      x_buckets = bs, x_keys = [(Did ''did:key:k'', (sample_key None)\<lparr>k_Permissions := perms\<rparr>)],
      x_vault = [(''/tenant/t'', ''s''), (''/tenant/t/access-key/did:key:k'', ''secret'')], x_ext = []\<rparr>)"

definition signed_call :: "string \<Rightarrow> s3_request" where
  "signed_call m = sample_get\<lparr>Method := m\<rparr>"

definition at_sample :: "nat \<Rightarrow> instant" where "at_sample n = sample_time"


lemma root_ucan_ok: "delegate_ok root_ucan {sample_root}"
  by (auto simp: delegate_ok_def root_ucan_def sample_root_def)

lemma bucket_world_ok:
  assumes "policies_ok sample_lib pol" and "owned pol bs" and "\<forall>a. authority ds a \<subseteq> V"
  shows "Tracking.world_ok sample_lib V (bucket_world perms bs pol ds)"
  using assms by (simp add: bucket_world_def Tracking.world_ok_def keys_ok_def one_record key_wf_def sample_key_def bound_live_def)

lemma bucket_world_tenants: "tenants_ok (x_tenants (snd (snd (snd (bucket_world perms bs pol ds)))))"
  by (simp add: bucket_world_def tenants_ok_def one_record Auth_Properties.sample_world_def)

abbreviation sample_bucket_creation :: "((err + authorize_ok \<times> dlg list) \<times> dlg list Policy_Service.world) option" where
  "sample_bucket_creation \<equiv> CreateBucket sample_bucket_service at_sample [] (Some (Did ''b2'', ''z'')) (Did ''p'')
     (signed_call ''PUT'') (bucket_world [''s3:CreateBucket''] [] [] \<lparr>byAudience = [], d_wait = None\<rparr>)"

lemma sample_bucket_creation_ok: "map_option (map_sum (\<lambda>_. ()) (ok_Bucket \<circ> fst) \<circ> fst) sample_bucket_creation = Some (Inr (Some (Did ''b2'')))"
  by code_simp

theorem bucket_creation_witness:
  "\<exists>ans st'. sample_bucket_creation = Some (Inr ans, st') \<and> ok_Bucket (fst ans) = Some (Did ''b2'') \<and>
     Tracking.world_ok sample_lib {sample_root} st' \<and> buckets_ok (x_buckets (snd (snd (snd st'))))"
proof -
  let ?ds = "\<lparr>byAudience = [], d_wait = None\<rparr>"
  obtain ps pol ds w where s: "bucket_world [''s3:CreateBucket''] [] [] ?ds = (ps, pol, ds, w)" by (rule prod_cases4)
  have lib: "bs_lib sample_bucket_service = sample_lib" "r_ucan (bs_rotator sample_bucket_service) = root_ucan"
    by (simp_all add: sample_bucket_service_def)
  have sel: "x_buckets w = []" "ds = ?ds" "\<forall>t. map_of (x_tenants w) t \<noteq> None \<longrightarrow> map_of (x_keys w) t = None"
    using s by (auto simp: bucket_world_def Auth_Properties.sample_world_def)
  have "owned [] []" "policies_ok sample_lib []" by (simp_all add: owned_def policies_ok_def all_records_def)
  then have ok: "Tracking.world_ok sample_lib {sample_root} (ps, pol, ds, w)"
    using bucket_world_ok[of "[]" "[]" ?ds "{sample_root}"] by (simp add: s[symmetric] authority_def)
  have ts: "tenants_ok (x_tenants w)" using bucket_world_tenants[of _ "[]" "[]" ?ds, of "[''s3:CreateBucket'']"] by (simp add: s)
  have bs: "buckets_ok (x_buckets w)" "dlgs_ok (byAudience ds)" by (simp_all add: sel buckets_ok_def unique_by_def all_records_def)
  from bucket_creation[of sample_bucket_service, unfolded lib, OF root_ucan_ok ok bs ts sel(3),
      of at_sample "[]" "Some (Did ''b2'', ''z'')" "Did ''p''" "signed_call ''PUT''"]
  obtain r st' where c: "sample_bucket_creation = Some (r, st')" and inv: "Tracking.world_ok sample_lib {sample_root} st'"
    "buckets_ok (x_buckets (snd (snd (snd st'))))"
    unfolding s by (metis snd_conv)
  with sample_bucket_creation_ok obtain ans where "r = Inr ans" "ok_Bucket (fst ans) = Some (Did ''b2'')"
    by (cases r) auto
  with c inv show ?thesis by blast
qed

text \<open>A tenant that is write-locked creates buckets as an active one does.\<close>

definition write_locked :: "'e Policy_Service.world \<Rightarrow> 'e Policy_Service.world" where
  "write_locked st = (let (ps, pol, ds, w) = st
     in (ps, pol, ds, w\<lparr>x_tenants := map (map_prod (\<lambda>k. k) (t_Status_update (\<lambda>_. WriteLocked))) (x_tenants w)\<rparr>))"

lemma write_locked_tenant_creates_buckets:
  "map_option (map_sum (\<lambda>_. ()) (ok_Bucket \<circ> fst) \<circ> fst)
     (CreateBucket sample_bucket_service at_sample [] (Some (Did ''b2'', ''z'')) (Did ''p'') (signed_call ''PUT'')
        (write_locked (bucket_world [''s3:CreateBucket''] [] [] \<lparr>byAudience = [], d_wait = None\<rparr>))) = Some (Inr (Some (Did ''b2'')))"
  by code_simp

end
