(* ===== verification/Bucket_Removal.thy ===== *)
theory Bucket_Removal
  imports Bucket_Creation
begin

text \<open>
  Removing a bucket: only an empty one, what the tenant delegated over it revoked first, and
  then the bucket, its policy and its delegations together or none of them.
\<close>

subsection \<open>The bucket a request acts on\<close>

lemma accepted_target:
  assumes "Authorize A now now' issuer req = Inr ar"
  shows "ar_Bucket ar = Some b \<Longrightarrow> found A (ar_Provider ar) (t_ID (ar_Tenant ar)) (ar_BucketName ar) b"
    and "addressesExistingBucket (ar_Operation ar) \<Longrightarrow> ar_Bucket ar \<noteq> None"
    and "ungranted (ar_Operation ar) \<Longrightarrow> k_Principal (ar_AccessKey ar) = None"
proof -
  obtain c where d: "authorizeOperation A (ar_AccessKey ar) (t_ID (ar_Tenant ar)) (ar_Provider ar) c =
       Inr (ar_Permissions ar, ar_Bucket ar, ar_SourceBucket ar)"
    and c: "ar_Operation ar = c_op c" "ar_BucketName ar = c_bucket c"
    by (rule Authorize_InrD[OF assms]) blast
  have "(ar_Bucket ar = Some b \<longrightarrow> found A (ar_Provider ar) (t_ID (ar_Tenant ar)) (ar_BucketName ar) b) \<and>
      (addressesExistingBucket (ar_Operation ar) \<longrightarrow> ar_Bucket ar \<noteq> None) \<and>
      (ungranted (ar_Operation ar) \<longrightarrow> k_Principal (ar_AccessKey ar) = None)"
  proof (cases "k_Principal (ar_AccessKey ar)")
    case None
    note k = authorizeServiceKey_Inr[OF d[unfolded authorizeOperation_def None option.case]]
    from k(3) k(4)[of b] None show ?thesis by (simp add: c resolveBucketInScope_Inr)
  next
    case (Some p)
    note k = authorizePrincipal_Inr[OF d[unfolded authorizeOperation_def Some option.case]]
    have "\<not> addressesExistingBucket OpListBuckets" by code_simp
    with k(2,3) principalAccess_Inr(1)[OF k(5)] show ?thesis by (auto simp: c)
  qed
  then show "ar_Bucket ar = Some b \<Longrightarrow> found A (ar_Provider ar) (t_ID (ar_Tenant ar)) (ar_BucketName ar) b"
    "addressesExistingBucket (ar_Operation ar) \<Longrightarrow> ar_Bucket ar \<noteq> None"
    "ungranted (ar_Operation ar) \<Longrightarrow> k_Principal (ar_AccessKey ar) = None" by blast+
qed

lemma authorized_bucket:
  assumes "buckets_ok (x_buckets w)" and "Authorize (authorizerOf S (ps, pol, ds, w)) now now' issuer req = Inr ar"
    and "ar_Bucket ar = Some bk"
  shows "map_of (x_buckets w) (b_ID bk) = Some bk" "b_Tenant bk = t_ID (ar_Tenant ar)" "b_ID bk \<noteq> Undef"
    "b_Name bk = ar_BucketName ar"
  using accepted_target(1)[OF assms(2,3)] bucket_GetByName_Inr[OF assms(1)] buckets_okD(3)[OF assms(1)]
  by (auto simp: found_def authorizerOf_def memory_authorizer_def)

subsection \<open>The delegations over a bucket\<close>

lemma heldIn_wf: "wf_gomap m \<Longrightarrow> (a, ds) \<in> set m \<Longrightarrow> heldIn m a = ds"
  by (simp add: heldIn_def wf_gomap_def)

lemma set_overSubject:
  assumes "dlgs_ok (byAudience ds)"
  shows "set (overSubject ds b) = (\<Union>a. over ds a b)"
proof -
  have "wf_gomap (byAudience ds)" using assms by (simp add: dlgs_ok_def)
  note held = heldIn_wf[OF this]
  show ?thesis
  proof (intro equalityI subsetI)
    fix d
    assume "d \<in> set (overSubject ds b)"
    then obtain a es where "(a, es) \<in> set (byAudience ds)" "d \<in> set es" "d_Subject d = b" by (auto simp: overSubject_def)
    with held show "d \<in> (\<Union>a. over ds a b)" by (auto simp: over_def authority_def)
  next
    fix d
    assume "d \<in> (\<Union>a. over ds a b)"
    then obtain a where d: "d \<in> set (dlgsOf ds a)" "d_Subject d = b" by (auto simp: over_def authority_def)
    then obtain es where "map_of (byAudience ds) a = Some es" "d \<in> set es"
      by (cases "map_of (byAudience ds) a") (simp_all add: heldIn_def)
    with d(2) show "d \<in> set (overSubject ds b)" by (force simp: overSubject_def dest: map_of_SomeD)
  qed
qed

text \<open>One link per delegation, of whatever audience, since links are content addresses.\<close>

lemma overSubject_distinct:
  assumes ok: "dlgs_ok (byAudience ds)" and dl: "content_addressed V" and sub: "\<forall>a. authority ds a \<subseteq> V"
  shows "distinct (map d_Link (overSubject ds b))"
proof -
  have wf: "wf_gomap (byAudience ds)" using ok by (simp add: dlgs_ok_def)
  have "distinct (map d_Link (concat (map snd m)))" if "wf_gomap m" "set m \<subseteq> set (byAudience ds)" for m
    using that
  proof (induction m)
    case (Cons e m)
    obtain a es where e: "e = (a, es)" by force
    have es: "heldIn (byAudience ds) a = es" using heldIn_wf[OF wf] Cons.prems(2) e by simp
    have "d_Link x \<noteq> d_Link y" if x: "x \<in> set es" and y: "(a', fs) \<in> set m" "y \<in> set fs" for x y a' fs
    proof
      assume l: "d_Link x = d_Link y"
      have fs: "heldIn (byAudience ds) a' = fs" using heldIn_wf[OF wf] Cons.prems(2) y(1) by auto
      have "x \<in> V" "y \<in> V" using sub x y(2) es fs by (auto simp: authority_def)
      with dl l have "x = y" by (simp add: inj_onD)
      moreover have "d_Audience x = a" "d_Audience y = a'" using dlgs_ok_held(3)[OF ok] x y(2) es fs by auto
      ultimately show False using Cons.prems(1) y(1) e by (force simp: wf_gomap_def)
    qed
    then have "d_Link ` set es \<inter> d_Link ` set (concat (map snd m)) = {}" by force
    moreover have "distinct (map d_Link es)" using dlgs_ok_held(2)[OF ok, of a] es by simp
    moreover have "distinct (map d_Link (concat (map snd m)))"
      using Cons.IH Cons.prems by (simp add: wf_gomap_def)
    ultimately show ?case unfolding e list.map snd_conv concat.simps map_append distinct_append set_map by blast
  qed simp
  from this[OF wf] have "distinct (map d_Link (filter (\<lambda>d. d_Subject d = b) (concat (map snd (byAudience ds)))))"
    by (auto intro: distinct_map_filter)
  then show ?thesis by (simp add: overSubject_def distinct_map_sort_key)
qed

text \<open>Listing by subject is paged too, over a store whose delegations are content-addressed.\<close>

definition addressed_dlgs :: "dlg_store \<Rightarrow> bool" where
  "addressed_dlgs s \<longleftrightarrow> (\<forall>b. distinct (map d_Link (overSubject s b)))"

lemma subject_page_after:
  assumes "addressed_dlgs s" and "b \<noteq> Undef" and "overSubject s b = pre @ rest"
  shows "ListBySubject s (b, limit) (after d_Link pre) = Inr (cutPage d_Link (dlgLimit limit) rest)"
proof -
  have "afterCursor (after d_Link pre) (overSubject s b) = rest"
    using assms(1) unfolding addressed_dlgs_def by (metis assms(3) afterCursor_after)
  moreover have "take (dlgLimit limit) rest \<noteq> []" if "dlgLimit limit < length rest"
    using that dlgLimit_pos[of limit] by auto
  ultimately show ?thesis
    using assms(2) by (simp add: ListBySubject_def pageOf_def cutPage_def after_def Let_def del: take_eq_Nil)
qed

interpretation subject_pages: paged addressed_dlgs "\<lambda>q. fst q \<noteq> Undef" "\<lambda>s q. overSubject s (fst q)" d_Link
    ListBySubject "\<lambda>q. dlgLimit (snd q)"
  by unfold_locales (simp add: dlgLimit_pos, metis subject_page_after prod.collapse)

lemma DeleteBySubject_effect:
  assumes "dlgs_ok (byAudience ds)" and "DeleteBySubject b ds = (r, ds')"
  shows "authority ds' a = (if r = Inr () then {d \<in> authority ds a. d_Subject d \<noteq> b} else authority ds a)"
    and "dlgs_ok (byAudience ds')"
proof -
  have wf: "wf_gomap (byAudience ds)" using assms(1) by (simp add: dlgs_ok_def)
  let ?m = "filter (\<lambda>(aud, ds). ds \<noteq> []) (map (\<lambda>(aud, ds). (aud, filter (\<lambda>d. d_Subject d \<noteq> b) ds)) (byAudience ds))"
  have keys: "map fst (map (\<lambda>(aud, ds). (aud, filter (\<lambda>d. d_Subject d \<noteq> b) ds)) (byAudience ds)) = map fst (byAudience ds)"
    by (simp add: case_prod_beta)
  then have wf': "wf_gomap ?m" using wf unfolding wf_gomap_def by (metis distinct_map_filter)
  have "heldIn ?m a = filter (\<lambda>d. d_Subject d \<noteq> b) (heldIn (byAudience ds) a)" for a
  proof (cases "heldIn ?m a = []")
    case True
    have "filter (\<lambda>d. d_Subject d \<noteq> b) (heldIn (byAudience ds) a) = []"
    proof (rule ccontr)
      assume ne: "filter (\<lambda>d. d_Subject d \<noteq> b) (heldIn (byAudience ds) a) \<noteq> []"
      then obtain es where "map_of (byAudience ds) a = Some es" by (cases "map_of (byAudience ds) a") (auto simp: heldIn_def)
      with ne have "(a, filter (\<lambda>d. d_Subject d \<noteq> b) (heldIn (byAudience ds) a)) \<in> set ?m"
        by (force simp: heldIn_def dest: map_of_SomeD)
      from heldIn_wf[OF wf' this] True ne show False by simp
    qed
    with True show ?thesis by simp
  next
    case False
    then have "(a, heldIn ?m a) \<in> set ?m" by (auto simp: heldIn_def split: option.splits dest: map_of_SomeD)
    then obtain es where "(a, es) \<in> set (byAudience ds)" "heldIn ?m a = filter (\<lambda>d. d_Subject d \<noteq> b) es" by auto
    with heldIn_wf[OF wf] show ?thesis by simp
  qed
  with assms(2) show "authority ds' a = (if r = Inr () then {d \<in> authority ds a. d_Subject d \<noteq> b} else authority ds a)"
    by (auto simp: DeleteBySubject_def authority_def split: if_splits sum.splits)
  have "audience_ok a (filter (\<lambda>d. d_Subject d \<noteq> b) es)"
    if "(a, es) \<in> set (byAudience ds)" "filter (\<lambda>d. d_Subject d \<noteq> b) es \<noteq> []" for a es
  proof -
    have "audience_ok a es" using assms(1) that(1) wf by (auto simp: dlgs_ok_def all_records_def gomap_in_iff)
    with that(2) show ?thesis by (auto simp: audience_ok_def intro: sorted_filter distinct_map_filter)
  qed
  then have "all_records audience_ok ?m"
    by (auto simp: all_records_def dest!: map_of_SomeD)
  with wf' have "dlgs_ok ?m" by (simp add: dlgs_ok_def)
  with assms show "dlgs_ok (byAudience ds')"
    by (auto simp: DeleteBySubject_def split: if_splits sum.splits)
qed

subsection \<open>Removal\<close>

lemma deleteGrants_effect:
  assumes ok: "dlgs_ok (byAudience ds)" and b: "b \<noteq> Undef"
    and run: "deleteGrants R now ten b account (Inr (overSubject ds b)) (ds, w) = (r, ds', w')" and account: "fst account = ten"
  shows "r \<noteq> Inr () \<Longrightarrow> ds' = ds \<and> beyond w w'"
    and "r = Inr () \<Longrightarrow> (\<forall>a. authority ds' a = {d \<in> authority ds a. d_Subject d \<noteq> b}) \<and> dlgs_ok (byAudience ds') \<and>
      beyond (w\<lparr>x_buckets := bucket_Delete b (x_buckets w)\<rparr>) w' \<and>
      (\<forall>a. \<forall>d \<in> over ds a b. d_Issuer d = ten \<longrightarrow> NotExpired (r_ucan R) d (unixSeconds now) \<longrightarrow>
         revoked_by R ten (x_ext w) (x_ext w') d)"
proof -
  have "(r \<noteq> Inr () \<longrightarrow> ds' = ds \<and> beyond w w') \<and>
    (r = Inr () \<longrightarrow> (\<forall>a. authority ds' a = {d \<in> authority ds a. d_Subject d \<noteq> b}) \<and> dlgs_ok (byAudience ds') \<and>
      beyond (w\<lparr>x_buckets := bucket_Delete b (x_buckets w)\<rparr>) w' \<and>
      (\<forall>a. \<forall>d \<in> over ds a b. d_Issuer d = ten \<longrightarrow> NotExpired (r_ucan R) d (unixSeconds now) \<longrightarrow>
         revoked_by R ten (x_ext w) (x_ext w') d))"
  proof -
    obtain q w1 where p: "PublishRevocations R now account (filter (\<lambda>d. d_Issuer d = ten) (overSubject ds b)) w = (q, w1)" by force
    note bw = PublishRevocations_beyond[OF p]
    show ?thesis
    proof (cases q)
      case (Inl e)
      with run p have "r = Inl e" "ds' = ds" "w' = w1" by (simp_all add: deleteGrants_def revokeDelegations_def)
      with bw show ?thesis by simp
    next
      case (Inr u)
      obtain q2 ds2 where d: "DeleteBySubject b ds = (q2, ds2)" by force
      note eff = DeleteBySubject_effect[OF ok d]
      have rev: "revoked_by R ten (x_ext w) (x_ext w1) x"
        if x: "x \<in> over ds a b" "d_Issuer x = ten" "NotExpired (r_ucan R) x (unixSeconds now)" for a x
      proof -
        have "x \<in> set (filter (\<lambda>d. d_Issuer d = ten) (overSubject ds b))"
          unfolding set_filter using x(1,2) set_overSubject[OF ok, of b] by blast
        from PublishRevocations_Inr[OF p[unfolded Inr] this x(3)] account show ?thesis
          unfolding revoked_by_def by blast
      qed
      show ?thesis
      proof (cases q2)
        case (Inl e)
        then have "ds2 = ds" using d by (auto simp: DeleteBySubject_def split: if_splits sum.splits)
        with run p Inr d Inl have "r = Inl e" "ds' = ds" "w' = w1" by (simp_all add: deleteGrants_def revokeDelegations_def)
        with bw show ?thesis by simp
      next
        case q2: (Inr v)
        have out: "r = Inr ()" "ds' = ds2" "w' = w1\<lparr>x_buckets := bucket_Delete b (x_buckets w1)\<rparr>"
          using run p Inr d q2 by (simp_all add: deleteGrants_def revokeDelegations_def)
        have "beyond (w\<lparr>x_buckets := bucket_Delete b (x_buckets w)\<rparr>) w'"
          unfolding out(3) using bw by (cases w; cases w1) (simp add: beyond_def)
        with eff q2 out rev show ?thesis by simp
      qed
    qed
  qed
  then show "r \<noteq> Inr () \<Longrightarrow> ds' = ds \<and> beyond w w'"
    "r = Inr () \<Longrightarrow> (\<forall>a. authority ds' a = {d \<in> authority ds a. d_Subject d \<noteq> b}) \<and> dlgs_ok (byAudience ds') \<and>
      beyond (w\<lparr>x_buckets := bucket_Delete b (x_buckets w)\<rparr>) w' \<and>
      (\<forall>a. \<forall>d \<in> over ds a b. d_Issuer d = ten \<longrightarrow> NotExpired (r_ucan R) d (unixSeconds now) \<longrightarrow>
         revoked_by R ten (x_ext w) (x_ext w') d)" by blast+
qed

text \<open>Found empty, revoked, and gone with its policy and every delegation over it; nothing else changed.\<close>

definition bucket_removed ::
  "'e bucket_service \<Rightarrow> instant \<Rightarrow> did \<Rightarrow> did \<Rightarrow> 'e Policy_Service.world \<Rightarrow> 'e Policy_Service.world \<Rightarrow> bool" where
  "bucket_removed S now ten b st st' \<longleftrightarrow>
     (let (ps, pol, ds, w) = st; (ps', pol', ds', w') = st' in
      ps' = ps \<and> pol' = AList.delete b pol \<and> (\<forall>a. authority ds' a = {d \<in> authority ds a. d_Subject d \<noteq> b}) \<and>
      beyond (w\<lparr>x_buckets := bucket_Delete b (x_buckets w)\<rparr>) w' \<and>
      (\<exists>account e. fst account = ten \<and> bs_SpaceEmpty S account ds b (x_ext w) = (Inr True, e) \<and>
         (\<forall>a. \<forall>d \<in> over ds a b. d_Issuer d = ten \<longrightarrow> NotExpired (r_ucan (bs_rotator S)) d (unixSeconds now) \<longrightarrow>
            revoked_by (bs_rotator S) ten e (x_ext w') d)))"

definition bucket_kept :: "'e Policy_Service.world \<Rightarrow> 'e Policy_Service.world \<Rightarrow> bool" where
  "bucket_kept st st' \<longleftrightarrow>
     (let (ps, pol, ds, w) = st; (ps', pol', ds', w') = st' in (ps', pol', ds') = (ps, pol, ds) \<and> beyond w w')"

lemma DeleteBucket_effect:
  assumes ok: "dlgs_ok (byAudience ds)" and wok: "Tracking.world_ok (bs_lib S) V (ps, pol, ds, w)" and dl: "content_addressed V"
    and bs: "buckets_ok (x_buckets w)"
    and auth: "Authorize (authorizerOf S (ps, pol, ds, w)) (clock 0) (clock 1) issuer req = Inr ar"
    and op: "ar_Operation ar = OpDeleteBucket" and bk: "ar_Bucket ar = Some bk"
  obtains r st' where "DeleteBucket S clock issuer req (ps, pol, ds, w) = Some (r, st')"
    "if r = Inr () then bucket_removed S (clock 2) (t_ID (ar_Tenant ar)) (b_ID bk) (ps, pol, ds, w) st' \<and>
        dlgs_ok (byAudience (fst (snd (snd st'))))
     else bucket_kept (ps, pol, ds, w) st'"
    "\<forall>account e. TenantIssuer (bs_keylib S) (vault_Read (x_vault w)) (t_ID (ar_Tenant ar)) = Inr account \<longrightarrow>
       bs_SpaceEmpty S account ds (b_ID bk) (x_ext w) = (Inr False, e) \<longrightarrow> r = Inl (Rpc ErrBucketNotEmpty)"
proof -
  let ?ten = "t_ID (ar_Tenant ar)"
  note target = authorized_bucket[OF bs auth bk]
  show thesis
  proof (cases "TenantIssuer (bs_keylib S) (vault_Read (x_vault w)) ?ten")
    case (Inl e)
    show thesis using auth Inl
      by (intro that[of "Inl e" "(ps, pol, ds, w)"]) (auto simp: DeleteBucket_def op bucket_kept_def)
  next
    case t: (Inr account)
    have account: "fst account = ?ten" using t by (auto simp: TenantIssuer_def split: sum.splits option.splits)
    obtain q w1 where e1: "onExt (bs_SpaceEmpty S account ds (b_ID bk)) w = (q, w1)" by force
    note b1 = onExt_beyond[OF e1] and x1 = onExt_ext[OF e1]
    show thesis
    proof (cases q)
      case (Inl e)
      show thesis using auth b1 x1 Inl
        by (intro that[of "Inl e" "(ps, pol, ds, w1)"]) (auto simp: DeleteBucket_def op bk t e1 bucket_kept_def)
    next
      case q: (Inr isEmpty)
      show thesis
      proof (cases isEmpty)
        case False
        show thesis using auth b1 x1 q False
          by (intro that[of "Inl (Rpc ErrBucketNotEmpty)" "(ps, pol, ds, w1)"]) (auto simp: DeleteBucket_def op bk t e1 bucket_kept_def)
      next
        case True
        have "addressed_dlgs ds"
          unfolding addressed_dlgs_def using overSubject_distinct[OF ok dl world_okD(5)[OF wok]] by blast
        with target(3) have listed: "Collect_pages (ListBySubject ds (b_ID bk, None)) = Some (Inr (overSubject ds (b_ID bk)))"
          using subject_pages.collect_whole[of ds "(b_ID bk, None)"] by simp
        obtain r ds' w' where dg: "deleteGrants (bs_rotator S) (clock 2) ?ten (b_ID bk) account (Inr (overSubject ds (b_ID bk))) (ds, w1) = (r, ds', w')"
          by (rule prod_cases3)
        note eff = deleteGrants_effect[OF ok target(3) dg account]
        have run: "DeleteBucket S clock issuer req (ps, pol, ds, w) =
            Some (r, ps, if r = Inr () then AList.delete (b_ID bk) pol else pol, ds', w')"
          using auth q True by (cases r) (simp_all add: DeleteBucket_def op bk t e1 listed DeleteByBucket_def dg)
        have b2: "beyond w w'" if "beyond w1 w'" using beyond_trans[OF b1 that] .
        have b3: "beyond (w\<lparr>x_buckets := B\<rparr>) w'" if "beyond (w1\<lparr>x_buckets := B\<rparr>) w'" for B
          using b1 that by (cases w; cases w1; cases w') (simp add: beyond_def)
        show thesis
        proof (rule that[OF run])
          show "if r = Inr () then bucket_removed S (clock 2) ?ten (b_ID bk) (ps, pol, ds, w)
                (ps, if r = Inr () then AList.delete (b_ID bk) pol else pol, ds', w') \<and>
              dlgs_ok (byAudience (fst (snd (snd (ps, if r = Inr () then AList.delete (b_ID bk) pol else pol, ds', w')))))
            else bucket_kept (ps, pol, ds, w) (ps, if r = Inr () then AList.delete (b_ID bk) pol else pol, ds', w')"
          proof (cases "r = Inr ()")
            case True
            have empty': "bs_SpaceEmpty S account ds (b_ID bk) (x_ext w) = (Inr True, x_ext w1)" using x1 q \<open>isEmpty\<close> by simp
            have "beyond (w\<lparr>x_buckets := bucket_Delete (b_ID bk) (x_buckets w)\<rparr>) w'"
              using eff(2)[OF True] b3 beyond_sel(3)[OF b1] by simp
            with eff(2)[OF True] True account empty' show ?thesis
              by (cases account) (auto simp: bucket_removed_def)
          next
            case False
            with eff(1) b2 show ?thesis by (simp add: bucket_kept_def)
          qed
          show "\<forall>account e. TenantIssuer (bs_keylib S) (vault_Read (x_vault w)) ?ten = Inr account \<longrightarrow>
              bs_SpaceEmpty S account ds (b_ID bk) (x_ext w) = (Inr False, e) \<longrightarrow> r = Inl (Rpc ErrBucketNotEmpty)"
            using t x1 q True by simp
        qed
      qed
    qed
  qed
qed

lemma bucket_removed_state:
  assumes rm: "bucket_removed S now ten b (ps, pol, ds, w) (ps', pol', ds', w')"
    and wok: "Tracking.world_ok L V (ps, pol, ds, w)" and bs: "buckets_ok (x_buckets w)"
  shows "Tracking.world_ok L V (ps', pol', ds', w')" "buckets_ok (x_buckets w')"
    and "rel {} {} \<Longrightarrow> tracks rel L (ps, pol, ds, w) \<Longrightarrow> tracks rel L (ps', pol', ds', w')"
proof -
  note rm = rm[unfolded bucket_removed_def Let_def prod.case]
  have sel: "x_keys w' = x_keys w" "x_buckets w' = bucket_Delete b (x_buckets w)"
    using beyond_sel[of "w\<lparr>x_buckets := bucket_Delete b (x_buckets w)\<rparr>" w'] rm by simp_all
  note wk = world_okD[OF wok]
  show "buckets_ok (x_buckets w')" using bs by (simp add: sel buckets_ok_Delete)
  show "Tracking.world_ok L V (ps', pol', ds', w')"
  proof (rule world_okI)
    show "owned pol' (x_buckets w')" using wk(3) rm by (auto simp: owned_def sel bucket_Delete_def)
  qed (use wk rm in \<open>auto simp: sel policies_ok_delete\<close>)
  show "tracks rel L (ps', pol', ds', w')" if rel: "rel {} {}" "tracks rel L (ps, pol, ds, w)"
  proof (rule tracksI)
    fix key p c
    assume k: "map_of (x_keys w') (k_ID key) = Some key" "k_Principal key = Some p"
    have "over ds' (k_ID key) c = (if c = b then {} else over ds (k_ID key) c)" using rm by (auto simp: over_def)
    with rel tracksD[OF rel(2) _ k(2), of c] k(1) rm
    show "rel (commandsOver ds' (k_ID key) c) (granted L (policyOf pol' (k_Tenant key) c) p)"
      by (simp add: sel policyOf_delete)
  qed
qed

lemma bucket_kept_state:
  assumes "bucket_kept (ps, pol, ds, w) (ps', pol', ds', w')"
  shows "Tracking.world_ok L V (ps', pol', ds', w') \<longleftrightarrow> Tracking.world_ok L V (ps, pol, ds, w)"
    and "buckets_ok (x_buckets w') \<longleftrightarrow> buckets_ok (x_buckets w)"
    and "tracks rel L (ps', pol', ds', w') \<longleftrightarrow> tracks rel L (ps, pol, ds, w)"
  using assms same_world[where ps = ps and ps' = ps and w = w and w' = w', OF HOL.refl] beyond_sel(3)[of w w']
  by (auto simp: bucket_kept_def)

text \<open>What a request to delete a bucket comes to.\<close>

definition removal_answer ::
  "'e bucket_service \<Rightarrow> (nat \<Rightarrow> instant) \<Rightarrow> authorized_request \<Rightarrow> 'e Policy_Service.world \<Rightarrow> err + unit \<Rightarrow> 'e Policy_Service.world \<Rightarrow> bool" where
  "removal_answer S clock ar st r st' \<longleftrightarrow>
     (let (ps, pol, ds, w) = st; ten = t_ID (ar_Tenant ar) in
      if ar_Operation ar \<noteq> OpDeleteBucket then r = Inl (Rpc ErrOperationMismatch) \<and> st' = st
      else
        (\<exists>bk. map_of (x_buckets w) (b_ID bk) = Some bk \<and> b_Name bk = ar_BucketName ar \<and> b_Tenant bk = ten \<and>
           k_Principal (ar_AccessKey ar) = None \<and>
           (if r = Inr () then bucket_removed S (clock 2) ten (b_ID bk) st st' else bucket_kept st st') \<and>
           (\<forall>account e. TenantIssuer (bs_keylib S) (vault_Read (x_vault w)) ten = Inr account \<longrightarrow>
              bs_SpaceEmpty S account ds (b_ID bk) (x_ext w) = (Inr False, e) \<longrightarrow> r = Inl (Rpc ErrBucketNotEmpty))))"

lemma DeleteBucket_whole:
  assumes "content_addressed V" and "Tracking.world_ok (bs_lib S) V (ps, pol, ds, w)"
    and "buckets_ok (x_buckets w)" and "dlgs_ok (byAudience ds)"
  shows "\<exists>r ps' pol' ds' w'. DeleteBucket S clock issuer req (ps, pol, ds, w) = Some (r, ps', pol', ds', w') \<and>
    (case Authorize (authorizerOf S (ps, pol, ds, w)) (clock 0) (clock 1) issuer req of
       Inl e \<Rightarrow> r = Inl e \<and> (ps', pol', ds', w') = (ps, pol, ds, w)
     | Inr ar \<Rightarrow> removal_answer S clock ar (ps, pol, ds, w) r (ps', pol', ds', w')) \<and>
    Tracking.world_ok (bs_lib S) V (ps', pol', ds', w') \<and> buckets_ok (x_buckets w') \<and> dlgs_ok (byAudience ds') \<and>
    (\<forall>rel. rel {} {} \<longrightarrow> tracks rel (bs_lib S) (ps, pol, ds, w) \<longrightarrow> tracks rel (bs_lib S) (ps', pol', ds', w'))"
proof (cases "Authorize (authorizerOf S (ps, pol, ds, w)) (clock 0) (clock 1) issuer req")
  case (Inl e)
  with assms(2-4) show ?thesis by (simp add: DeleteBucket_def)
next
  case auth: (Inr ar)
  show ?thesis
  proof (cases "ar_Operation ar = OpDeleteBucket")
    case False
    with auth assms(2-4) show ?thesis by (simp add: DeleteBucket_def removal_answer_def)
  next
    case op: True
    have kinds: "addressesExistingBucket OpDeleteBucket" "ungranted OpDeleteBucket" by code_simp+
    note target = accepted_target[OF auth, unfolded op]
    obtain bk where bk: "ar_Bucket ar = Some bk" using target(2)[OF kinds(1)] by blast
    note b = authorized_bucket[OF assms(3) auth bk]
    obtain r st' where run: "DeleteBucket S clock issuer req (ps, pol, ds, w) = Some (r, st')"
      and eff: "if r = Inr () then bucket_removed S (clock 2) (t_ID (ar_Tenant ar)) (b_ID bk) (ps, pol, ds, w) st' \<and>
          dlgs_ok (byAudience (fst (snd (snd st')))) else bucket_kept (ps, pol, ds, w) st'"
      and full: "\<forall>account e. TenantIssuer (bs_keylib S) (vault_Read (x_vault w)) (t_ID (ar_Tenant ar)) = Inr account \<longrightarrow>
          bs_SpaceEmpty S account ds (b_ID bk) (x_ext w) = (Inr False, e) \<longrightarrow> r = Inl (Rpc ErrBucketNotEmpty)"
      by (rule DeleteBucket_effect[where clock = clock, OF assms(4,2,1,3) auth op bk])
    obtain ps' pol' ds' w' where st': "st' = (ps', pol', ds', w')" by (rule prod_cases4)
    have "removal_answer S clock ar (ps, pol, ds, w) r st'"
      unfolding removal_answer_def Let_def prod.case using op eff full b target(3)[OF kinds(2)] by auto
    moreover have "Tracking.world_ok (bs_lib S) V st' \<and> buckets_ok (x_buckets w') \<and> dlgs_ok (byAudience ds') \<and>
        (\<forall>rel. rel {} {} \<longrightarrow> tracks rel (bs_lib S) (ps, pol, ds, w) \<longrightarrow> tracks rel (bs_lib S) st')"
    proof (cases "r = Inr ()")
      case True
      with eff have rm: "bucket_removed S (clock 2) (t_ID (ar_Tenant ar)) (b_ID bk) (ps, pol, ds, w) (ps', pol', ds', w')"
        "dlgs_ok (byAudience ds')" by (simp_all add: st')
      show ?thesis using bucket_removed_state[OF rm(1) assms(2,3)] rm(2) unfolding st' by blast
    next
      case False
      with eff bucket_kept_state[of ps pol ds w ps' pol' ds' w'] assms(2-4) show ?thesis
        by (simp add: st') (simp add: bucket_kept_def)
    qed
    ultimately show ?thesis using run auth by (simp add: st')
  qed
qed

subsection \<open>Properties\<close>

text \<open>
  C11. A bucket is removed only empty, revoked first, and whole. Deleting one always answers; a
  request that is not authorized, or is for another operation, changes nothing. Otherwise it
  is a service key's, of the bucket of that name of its own tenant: a deletion that succeeds
  found the space empty, then had every delegation the tenant issued over the bucket that
  could still be used revoked, and took the bucket, its policy and all the delegations over it,
  of every holder, and nothing else; one that fails, as on a bucket that is not empty, takes none
  of them. The stores stay consistent and keys keep tracking their policies.
\<close>

theorem bucket_removal:
  assumes "content_addressed V" and "Tracking.world_ok (bs_lib S) V (ps, pol, ds, w)"
    and "buckets_ok (x_buckets w)" and "dlgs_ok (byAudience ds)"
  shows "\<exists>r ps' pol' ds' w'. DeleteBucket S clock issuer req (ps, pol, ds, w) = Some (r, ps', pol', ds', w') \<and>
    (case Authorize (authorizerOf S (ps, pol, ds, w)) (clock 0) (clock 1) issuer req of
       Inl e \<Rightarrow> r = Inl e \<and> (ps', pol', ds', w') = (ps, pol, ds, w)
     | Inr ar \<Rightarrow> removal_answer S clock ar (ps, pol, ds, w) r (ps', pol', ds', w')) \<and>
    Tracking.world_ok (bs_lib S) V (ps', pol', ds', w') \<and> buckets_ok (x_buckets w') \<and> dlgs_ok (byAudience ds') \<and>
    (\<forall>rel. rel {} {} \<longrightarrow> tracks rel (bs_lib S) (ps, pol, ds, w) \<longrightarrow> tracks rel (bs_lib S) (ps', pol', ds', w'))"
  using assms by (rule DeleteBucket_whole)

text \<open>The bucket photos, with a policy, and a delegation of the tenant's over it.\<close>

definition photos_world :: "string list \<Rightarrow> dlg list Policy_Service.world" where
  "photos_world perms = bucket_world perms (w_buckets (Auth_Properties.sample_world None Allow))
     (w_policies (Auth_Properties.sample_world None Allow))
     \<lparr>byAudience = [(Did ''k'', [sample_dlg ''1'' ''k'' ''b''])], d_wait = None\<rparr>"

lemma photos_world_ok:
  "Tracking.world_ok sample_lib sample_universe (photos_world perms)" "buckets_ok (x_buckets (snd (snd (snd (photos_world perms)))))"
  "dlgs_ok (byAudience (fst (snd (snd (photos_world perms)))))"
proof -
  have s: "buckets_ok (w_buckets (Auth_Properties.sample_world None Allow))" "policies_ok sample_lib (w_policies (Auth_Properties.sample_world None Allow))"
    using sample_tenancy_ok[of Allow] by (simp_all add: Auth.world_ok_def)
  then show "buckets_ok (x_buckets (snd (snd (snd (photos_world perms)))))" by (simp add: photos_world_def bucket_world_def)
  have "owned (w_policies (Auth_Properties.sample_world None Allow)) (w_buckets (Auth_Properties.sample_world None Allow))"
    by (simp add: owned_def Auth_Properties.sample_world_def sample_photos_def policyEntry_def split: prod.split)
  then show "Tracking.world_ok sample_lib sample_universe (photos_world perms)"
    unfolding photos_world_def using s(2)
    by (intro bucket_world_ok) (auto simp: authority_def heldIn_def sample_universe_def)
  show "dlgs_ok (byAudience (fst (snd (snd (photos_world perms)))))"
    by (simp add: photos_world_def bucket_world_def dlgs_ok_def one_record audience_ok_def sample_dlg_def)
qed

lemma sample_universe_addressed: "content_addressed sample_universe"
  using sample_delegate_ok by (simp add: delegate_ok_def)

abbreviation sample_bucket_removal :: "((err + unit) \<times> dlg list Policy_Service.world) option" where
  "sample_bucket_removal \<equiv> DeleteBucket sample_bucket_service at_sample (Did ''p'') (signed_call ''DELETE'') (photos_world [''s3:DeleteBucket''])"

lemma sample_bucket_removal_ok: "map_option (\<lambda>(r, ps, pol, ds, w). (r, pol, byAudience ds, x_buckets w, map d_Link (x_ext w))) sample_bucket_removal =
  Some (Inr (), [], [], [], [''1''])"
  by code_simp

theorem bucket_removal_witness:
  "\<exists>st'. sample_bucket_removal = Some (Inr (), st') \<and> Tracking.world_ok sample_lib sample_universe st' \<and>
     x_buckets (snd (snd (snd st'))) = [] \<and> map d_Link (x_ext (snd (snd (snd st')))) = [''1'']"
proof -
  obtain ps pol ds w where s: "photos_world [''s3:DeleteBucket''] = (ps, pol, ds, w)" by (rule prod_cases4)
  note ok = photos_world_ok[of "[''s3:DeleteBucket'']", unfolded s fst_conv snd_conv]
  have lib: "bs_lib sample_bucket_service = sample_lib" by (simp add: sample_bucket_service_def)
  from bucket_removal[of sample_universe sample_bucket_service, unfolded lib, OF sample_universe_addressed ok,
      of at_sample "Did ''p''" "signed_call ''DELETE''"]
  obtain r st' where c: "sample_bucket_removal = Some (r, st')" and inv: "Tracking.world_ok sample_lib sample_universe st'"
    unfolding s by metis
  with sample_bucket_removal_ok show ?thesis by (cases st') auto
qed

end
