(* ===== verification/Bucket_Listing.thy ===== *)
theory Bucket_Listing
  imports Bucket_Removal
begin

text \<open>
  What a listing of buckets answers: a page of the tenant's, under the options of the signed
  URL, each in the region that serves it.
\<close>

subsection \<open>Regions\<close>

lemma provider_Get_Some:
  assumes "providers_ok s" and "p \<in> set s"
  shows "provider_Get s (pr_ID p) = Inr p"
proof (cases "provider_Get s (pr_ID p)")
  case (Inl e)
  with assms(2) show ?thesis by (auto simp: provider_Get_def firstProvider_def find_None_iff split: option.splits)
next
  case (Inr q)
  from firstProvider_Inr[OF this[unfolded provider_Get_def]] have "q \<in> set s" "pr_ID q = pr_ID p" by simp_all
  with assms have "q = p" by (auto simp: providers_ok_def distinct_map inj_on_def)
  with Inr show ?thesis by simp
qed

text \<open>The buckets out are those in, each in its provider's region.\<close>

definition reported :: "providers \<Rightarrow> bucket \<Rightarrow> listed_bucket \<Rightarrow> bool" where
  "reported provs b lb \<longleftrightarrow> lb_Name lb = b_Name b \<and> lb_ARN lb = ''arn:aws:s3:::'' @ b_Name b \<and>
     lb_CreationDate lb = unixSeconds (b_CreatedAt b) \<and> (\<exists>p \<in> set provs. pr_ID p = b_Provider b \<and> lb_Region lb = pr_Region p)"

lemma listLoop_Inr:
  assumes "listLoop provs bks regions out = Inr out'"
    and "\<forall>p r. map_of regions p = Some r \<longrightarrow> (\<exists>q \<in> set provs. pr_ID q = p \<and> r = pr_Region q)"
  shows "\<exists>lbs. out' = out @ lbs \<and> list_all2 (reported provs) bks lbs"
  using assms
proof (induction provs bks regions out rule: listLoop.induct)
  case (2 provs b bks regions out)
  obtain region regions' where step: "(case map_of regions (b_Provider b) of
      Some region \<Rightarrow> Inr (region, regions)
    | None \<Rightarrow> on_ok (provider_Get provs (b_Provider b)) (\<lambda>prov.
                Inr (pr_Region prov, AList.update (b_Provider b) (pr_Region prov) regions))) = Inr (region, regions')"
    using "2.prems"(1) by (auto simp: on_ok_Inr_iff)
  have r: "\<exists>p \<in> set provs. pr_ID p = b_Provider b \<and> region = pr_Region p"
      "\<forall>p r. map_of regions' p = Some r \<longrightarrow> (\<exists>q \<in> set provs. pr_ID q = p \<and> r = pr_Region q)"
  proof -
    have "(\<exists>p \<in> set provs. pr_ID p = b_Provider b \<and> region = pr_Region p) \<and>
        (\<forall>p r. map_of regions' p = Some r \<longrightarrow> (\<exists>q \<in> set provs. pr_ID q = p \<and> r = pr_Region q))"
    proof (cases "map_of regions (b_Provider b)")
      case None
      with step obtain prov where g: "provider_Get provs (b_Provider b) = Inr prov" and x: "region = pr_Region prov"
        "regions' = AList.update (b_Provider b) (pr_Region prov) regions"
        by (auto simp: on_ok_Inr_iff)
      from firstProvider_Inr[OF g[unfolded provider_Get_def]] have "prov \<in> set provs" "pr_ID prov = b_Provider b" by simp_all
      with x "2.prems"(2) show ?thesis by (auto simp: update_conv')
    next
      case (Some y)
      with step "2.prems"(2) show ?thesis by auto
    qed
    then show "\<exists>p \<in> set provs. pr_ID p = b_Provider b \<and> region = pr_Region p"
      "\<forall>p r. map_of regions' p = Some r \<longrightarrow> (\<exists>q \<in> set provs. pr_ID q = p \<and> r = pr_Region q)" by blast+
  qed
  let ?lb = "\<lparr>lb_ARN = ''arn:aws:s3:::'' @ b_Name b, lb_Region = region,
          lb_CreationDate = unixSeconds (b_CreatedAt b), lb_Name = b_Name b\<rparr>"
  have rest: "listLoop provs bks regions' (out @ [?lb]) = Inr out'" using "2.prems"(1) step by (simp add: on_ok_Inr_iff)
  obtain lbs where "out' = (out @ [?lb]) @ lbs" "list_all2 (reported provs) bks lbs"
    using "2.IH"[OF step HOL.refl rest r(2)] by blast
  moreover have "reported provs b ?lb" using r(1) by (simp add: reported_def)
  ultimately show ?case by (intro exI[of _ "?lb # lbs"]) simp
qed simp

subsection \<open>Pages\<close>

text \<open>What the options of a request select of the tenant's buckets.\<close>

definition listed :: "providers \<Rightarrow> did \<Rightarrow> url_values \<Rightarrow> bucket \<Rightarrow> bool" where
  "listed provs ten query b \<longleftrightarrow> b_Tenant b = ten \<and> prefix (queryGet query ''prefix'') (b_Name b) \<and>
     (queryGet query ''continuation-token'' = [] \<or> queryGet query ''continuation-token'' < b_Name b) \<and>
     (queryGet query ''bucket-region'' = [] \<or>
        (\<exists>p \<in> set provs. pr_Region p = queryGet query ''bucket-region'' \<and> b_Provider b = pr_ID p))"

definition selection :: "providers \<Rightarrow> buckets \<Rightarrow> did \<Rightarrow> url_values \<Rightarrow> bucket list" where
  "selection provs bs ten query = sort_key b_Name (filter (listed provs ten query) (map snd bs))"

lemma listPage_Inr:
  assumes provs: "providers_ok provs" and mx: "mx > 0" and pg: "listPage provs bs ten query mx = Inr pg"
  shows "Results pg = take (nat mx) (selection provs bs ten query)"
    and "Cursor pg = (if nat mx < length (selection provs bs ten query) then Some (b_Name (last (Results pg))) else None)"
proof -
  let ?token = "queryGet query ''continuation-token''" and ?region = "queryGet query ''bucket-region''"
  let ?q = "\<lambda>prov. \<lparr>q_IDs = [], q_Names = [], q_Prefix = queryGet query ''prefix'', q_Provider = prov, q_Limit = Some mx\<rparr>"
  let ?cur = "if ?token = [] then None else Some ?token"
  have page: "pg = (if length recs > nat mx then \<lparr>Cursor = Some (b_Name (last (take (nat mx) recs))), Results = take (nat mx) recs\<rparr>
       else \<lparr>Cursor = None, Results = recs\<rparr>)"
    if "bucket_ListByTenant bs (ten, ?q prov) ?cur = Inr pg"
      "recs = sort_key b_Name (filter (\<lambda>b. bucket_selected ten (?q prov) b \<and> past ?cur b) (map snd bs))" for prov recs
    using that(1) mx unfolding that(2) by (auto simp: bucket_ListByTenant_def Let_def split: if_splits)
  have sel: "bucket_selected ten (?q prov) b \<and> past ?cur b \<longleftrightarrow> b_Tenant b = ten \<and> prefix (queryGet query ''prefix'') (b_Name b) \<and>
     (?token = [] \<or> ?token < b_Name b) \<and> (prov = Undef \<or> b_Provider b = prov)" for prov b
    by (auto simp: bucket_selected_def past_def defined_def not_le)
  consider (every) "?region = []" "bucket_ListByTenant bs (ten, ?q Undef) ?cur = Inr pg"
    | (none) "?region \<noteq> []" "\<forall>p \<in> set provs. pr_Region p \<noteq> ?region" "pg = \<lparr>Cursor = None, Results = []\<rparr>"
    | (one) prov where "?region \<noteq> []" "provider_GetByRegion provs ?region = Inr prov" "bucket_ListByTenant bs (ten, ?q (pr_ID prov)) ?cur = Inr pg"
    using pg by (auto simp: listPage_def Let_def provider_GetByRegion_def firstProvider_def find_None_iff split: if_splits sum.splits option.splits)
  then have "\<exists>recs. recs = selection provs bs ten query \<and> pg = (if length recs > nat mx
       then \<lparr>Cursor = Some (b_Name (last (take (nat mx) recs))), Results = take (nat mx) recs\<rparr> else \<lparr>Cursor = None, Results = recs\<rparr>)"
  proof cases
    case every
    have "selection provs bs ten query = sort_key b_Name (filter (\<lambda>b. bucket_selected ten (?q Undef) b \<and> past ?cur b) (map snd bs))"
      unfolding selection_def sel listed_def using every(1) by simp
    from page[OF every(2) this] show ?thesis by blast
  next
    case none
    then have "selection provs bs ten query = []" by (auto simp: selection_def listed_def filter_empty_conv)
    with none(3) show ?thesis by simp
  next
    case (one prov)
    note p = provider_GetByRegion_Inr[OF provs one(2)]
    have "pr_ID prov \<noteq> Undef" using provs p(1) by (simp add: providers_ok_def)
    with one(1) p have "listed provs ten query = (\<lambda>b. bucket_selected ten (?q (pr_ID prov)) b \<and> past ?cur b)"
      unfolding sel listed_def fun_eq_iff by blast
    then have "selection provs bs ten query = sort_key b_Name (filter (\<lambda>b. bucket_selected ten (?q (pr_ID prov)) b \<and> past ?cur b) (map snd bs))"
      by (simp only: selection_def)
    from page[OF one(3) this] show ?thesis by blast
  qed
  then show "Results pg = take (nat mx) (selection provs bs ten query)"
    "Cursor pg = (if nat mx < length (selection provs bs ten query) then Some (b_Name (last (Results pg))) else None)"
    by auto
qed

subsection \<open>Properties\<close>

text \<open>
  C39. A listing answers the tenant's buckets and only them. An answer is to a signed request
  to list buckets; it names, in order of name, the tenant's buckets that have the prefix, come
  after the continuation token and are served in the region, each where the request's URL asks
  for one, as many as the maximum asked for, or ten thousand; each with the region of the
  provider serving it and the moment it was created; and the token to go on with is the last
  name answered when there are more, and none otherwise.
\<close>

theorem list_buckets:
  assumes "keys_ok (x_keys w)" and "tenants_ok (x_tenants w)" and "providers_ok (x_providers w)"
    and "ListBuckets S clock issuer req (ps, pol, ds, w) = Inr ans"
  shows "\<exists>ar u mx. Authorize (authorizerOf S (ps, pol, ds, w)) (clock 0) (clock 1) issuer req = Inr ar \<and>
    ar_Operation ar = OpListBuckets \<and> UrlParse (bs_codec S) (URL req) = Some u \<and>
    (let query = parseQuery (url_query u);
         matches = selection (x_providers w) (x_buckets w) (t_ID (ar_Tenant ar)) query in
     maxBuckets (queryGet query ''max-buckets'') = Inr mx \<and> 0 < mx \<and> mx \<le> maxListBuckets \<and>
     list_all2 (reported (x_providers w)) (take (nat mx) matches) (lo_Buckets ans) \<and>
     lo_ContinuationToken ans = (if nat mx < length matches then lb_Name (last (lo_Buckets ans)) else []) \<and>
     lo_OwnerID ans = did_string (k_Tenant (ar_AccessKey ar)))"
proof -
  have "UrlParse (bs_codec S) (URL req) \<noteq> None"
    using assms(4) by (cases "UrlParse (bs_codec S) (URL req)") (auto simp: ListBuckets_def Let_def on_ok_Inr_iff split: if_split_asm)
  then obtain u where u: "UrlParse (bs_codec S) (URL req) = Some u" by blast
  from assms(4) obtain ar mx pg out where auth: "Authorize (authorizerOf S (ps, pol, ds, w)) (clock 0) (clock 1) issuer req = Inr ar"
    and s: "ar_Operation ar = OpListBuckets"
    "maxBuckets (queryGet (parseQuery (url_query u)) ''max-buckets'') = Inr mx"
    "listPage (x_providers w) (x_buckets w) (t_ID (ar_Tenant ar)) (parseQuery (url_query u)) mx = Inr pg"
    "listLoop (x_providers w) (Results pg) [(pr_ID (ar_Provider ar), ar_Region ar)] [] = Inr out"
    and ans: "ans = \<lparr>lo_Buckets = out, lo_Prefix = queryGet (parseQuery (url_query u)) ''prefix'',
       lo_OwnerID = did_string (t_ID (ar_Tenant ar)), lo_ContinuationToken = (case Cursor pg of None \<Rightarrow> [] | Some c \<Rightarrow> c)\<rparr>"
    by (auto simp: ListBuckets_def Let_def on_ok_Inr_iff u split: if_split_asm)
  let ?matches = "selection (x_providers w) (x_buckets w) (t_ID (ar_Tenant ar)) (parseQuery (url_query u))"
  have mx: "0 < mx" "mx \<le> maxListBuckets"
    using s(2) by (auto simp: maxBuckets_def Let_def maxListBuckets_def split: if_split_asm prod.splits)
  note pg = listPage_Inr[OF assms(3) mx(1) s(3)]
  obtain kid where "tenant_Get (x_tenants w) (k_Tenant (ar_AccessKey ar)) = Inr (ar_Tenant ar)"
    and r: "resolveLoop (provider_GetByRegion (x_providers w)) issuer (Regions (ar_Signed ar)) False = Inr (ar_Provider ar, ar_Region ar)"
    by (rule Authorize_InrD[OF auth]) (simp add: authorizerOf_def memory_authorizer_def resolveProvider_def)
  then have ten: "t_ID (ar_Tenant ar) = k_Tenant (ar_AccessKey ar)"
    using assms(2) by (auto simp: tenant_Get_def mapGet_Inr tenants_ok_def all_records_def)
  have "ar_Provider ar \<in> set (x_providers w)" "pr_Region (ar_Provider ar) = ar_Region ar"
    using resolveLoop_Inr[OF r] provider_GetByRegion_Inr(1,2)[OF assms(3)] by blast+
  then have "\<forall>p r. map_of [(pr_ID (ar_Provider ar), ar_Region ar)] p = Some r \<longrightarrow> (\<exists>q \<in> set (x_providers w). pr_ID q = p \<and> r = pr_Region q)"
    by auto
  from listLoop_Inr[OF s(4) this] have all: "list_all2 (reported (x_providers w)) (take (nat mx) ?matches) out" by (simp add: pg(1))
  have "lb_Name (last out) = b_Name (last (take (nat mx) ?matches))" if "nat mx < length ?matches"
  proof -
    have "take (nat mx) ?matches \<noteq> []" using that mx(1) by auto
    with all have "reported (x_providers w) (last (take (nat mx) ?matches)) (last out)"
      by (metis list_all2_Nil2 list_all2_conv_all_nth last_conv_nth length_0_conv diff_less length_greater_0_conv zero_less_one)
    then show ?thesis by (simp add: reported_def)
  qed
  with pg have "(case Cursor pg of None \<Rightarrow> [] | Some c \<Rightarrow> c) = (if nat mx < length ?matches then lb_Name (last out) else [])" by simp
  with auth s(1,2) u mx all ten show ?thesis by (intro exI[of _ ar] exI[of _ u] exI[of _ mx]) (simp add: ans)
qed

text \<open>A tenant with two buckets, listed one at a time.\<close>

definition listing_service :: "dlg list bucket_service" where
  "listing_service = sample_bucket_service\<lparr>bs_codec := sample_auth_codec\<lparr>UrlParse :=
     (\<lambda>_. Some (sample_url\<lparr>url_path := ''/'', url_query := ''max-buckets=1''\<rparr>))\<rparr>\<rparr>"

abbreviation two_buckets :: "dlg list Policy_Service.world" where
  "two_buckets \<equiv> bucket_world [''s3:ListAllMyBuckets''] [(Did ''b'', sample_photos), (Did ''c'', sample_photos\<lparr>b_ID := Did ''c'', b_Name := ''archive''\<rparr>)]
     [] \<lparr>byAudience = [], d_wait = None\<rparr>"

lemma sample_listing_ok: "map_sum (\<lambda>e. e) (\<lambda>ans. (map lb_Name (lo_Buckets ans), lo_ContinuationToken ans))
    (ListBuckets listing_service at_sample (Did ''p'') (signed_call ''GET'') two_buckets) = Inr ([''archive''], ''archive'')"
  by code_simp

theorem list_buckets_witness:
  "\<exists>ans. ListBuckets listing_service at_sample (Did ''p'') (signed_call ''GET'') two_buckets = Inr ans \<and>
     map lb_Name (lo_Buckets ans) = [''archive''] \<and> lo_ContinuationToken ans = ''archive'' \<and> lo_OwnerID ans = ''t''"
proof -
  obtain ps pol ds w where s: "two_buckets = (ps, pol, ds, w)" by (rule prod_cases4)
  obtain ans where run: "ListBuckets listing_service at_sample (Did ''p'') (signed_call ''GET'') two_buckets = Inr ans"
    "map lb_Name (lo_Buckets ans) = [''archive'']" "lo_ContinuationToken ans = ''archive''"
    using sample_listing_ok by (cases "ListBuckets listing_service at_sample (Did ''p'') (signed_call ''GET'') two_buckets") auto
  have ks: "x_keys w = [(Did ''did:key:k'', (sample_key None)\<lparr>k_Permissions := [''s3:ListAllMyBuckets'']\<rparr>)]"
    and ok: "keys_ok (x_keys w)" "tenants_ok (x_tenants w)" "providers_ok (x_providers w)"
    using s by (auto simp: bucket_world_def keys_ok_def tenants_ok_def providers_ok_def one_record key_wf_def sample_key_def Auth_Properties.sample_world_def)
  from list_buckets[OF ok run(1)[unfolded s]] obtain ar
    where auth: "Authorize (authorizerOf listing_service (ps, pol, ds, w)) (at_sample 0) (at_sample 1) (Did ''p'') (signed_call ''GET'') = Inr ar"
      and own: "lo_OwnerID ans = did_string (k_Tenant (ar_AccessKey ar))" unfolding Let_def by blast
  have "key_Get (x_keys w) k = Inr (ar_AccessKey ar) \<Longrightarrow> k_Tenant (ar_AccessKey ar) = Did ''t''" for k
    by (auto simp: ks key_Get_def mapGet_Inr sample_key_def split: if_splits dest!: sym[of _ "ar_AccessKey ar"])
  moreover obtain kid where "lookupKey (authorizerOf listing_service (ps, pol, ds, w)) (at_sample 0) (ar_Signed ar) = Inr (kid, ar_AccessKey ar)"
    by (rule Authorize_InrD[OF auth]) blast
  then have "key_Get (x_keys w) kid = Inr (ar_AccessKey ar)" by (simp add: lookupKey_Inr authorizerOf_def memory_authorizer_def)
  ultimately have "k_Tenant (ar_AccessKey ar) = Did ''t''" .
  with own have "lo_OwnerID ans = ''t''" by simp
  with run show ?thesis by (intro exI[of _ ans] conjI)
qed

end
