(* ===== verification/Metrics.thy ===== *)
theory Metrics
  imports Tenant_Removal "HOL-Library.Word"
begin

text \<open>
  \<open>pkg/api/service/metrics\<close>: the usage series of a bucket, which the upload service
  answers, and of a tenant, the sum of its buckets'.
\<close>

subsection \<open>Ranges and windows\<close>

text \<open>
  \<open>time.Parse\<close> for the layout \<open>time.RFC3339\<close>: an hour may have one digit, a fraction may
  follow the seconds, and the zone is \<open>Z\<close> or an offset of up to 24 hours and 60 minutes.
\<close>

fun getnum :: "string \<Rightarrow> (int \<times> string) option" where
  "getnum [] = None"
| "getnum (a # s) =
     (if \<not> is_digit a then None
      else (case s of
              [] \<Rightarrow> Some (int (digitsValue [a]), [])
            | b # s' \<Rightarrow> if is_digit b then Some (int (digitsValue [a, b]), s') else Some (int (digitsValue [a]), s)))"

definition getLit :: "char \<Rightarrow> string \<Rightarrow> string option" where
  "getLit c s = (case s of [] \<Rightarrow> None | x # s' \<Rightarrow> if x = c then Some s' else None)"

text \<open>The offset of a zone, in seconds, and what follows it.\<close>

definition getZone :: "string \<Rightarrow> (int \<times> string) option" where
  "getZone s =
     (if s \<noteq> [] \<and> hd s = CHR ''Z'' then Some (0, tl s)
      else if length s < 6 \<or> s ! 3 \<noteq> CHR '':'' then None
      else
        (case (getnum2 (take 2 (drop 1 s)), getnum2 (take 2 (drop 4 s))) of
           (Some (hr, _), Some (mm, _)) \<Rightarrow>
             if hr > 24 \<or> mm > 60 then None
             else if hd s = CHR ''+'' then Some ((hr * 60 + mm) * 60, drop 6 s)
             else if hd s = CHR ''-'' then Some (- ((hr * 60 + mm) * 60), drop 6 s)
             else None
         | _ \<Rightarrow> None))"

definition getDate :: "string \<Rightarrow> (int \<times> int \<times> int \<times> string) option" where
  "getDate s =
     (case getYear s of None \<Rightarrow> None | Some (y, s) \<Rightarrow>
     (case getLit CHR ''-'' s of None \<Rightarrow> None | Some s \<Rightarrow>
     (case getnum2 s of None \<Rightarrow> None | Some (mon, s) \<Rightarrow>
     if mon < 1 \<or> mon > 12 then None else
     (case getLit CHR ''-'' s of None \<Rightarrow> None | Some s \<Rightarrow>
     (case getnum2 s of None \<Rightarrow> None | Some (d, s) \<Rightarrow>
      if d < 1 \<or> d > daysIn y (nat mon) then None else Some (y, mon, d, s))))))"

definition getClock :: "string \<Rightarrow> (int \<times> string) option" where
  "getClock s =
     (case getnum s of None \<Rightarrow> None | Some (hh, s) \<Rightarrow>
     if hh > 23 then None else
     (case getLit CHR '':'' s of None \<Rightarrow> None | Some s \<Rightarrow>
     (case getnum2 s of None \<Rightarrow> None | Some (mm, s) \<Rightarrow>
     if mm > 59 then None else
     (case getLit CHR '':'' s of None \<Rightarrow> None | Some s \<Rightarrow>
     (case getnum2 s of None \<Rightarrow> None | Some (ss, s) \<Rightarrow>
      if ss > 59 then None
      else (let (nsec, s) = getFraction s in Some ((hh * 3600 + mm * 60 + ss) * second + nsec, s)))))))"

definition parseRFC3339 :: "string \<Rightarrow> instant option" where
  "parseRFC3339 s =
     (case getDate s of None \<Rightarrow> None | Some (y, mon, d, s) \<Rightarrow>
     (case getLit CHR ''T'' s of None \<Rightarrow> None | Some s \<Rightarrow>
     (case getClock s of None \<Rightarrow> None | Some (clock, s) \<Rightarrow>
     (case getZone s of None \<Rightarrow> None | Some (offset, s) \<Rightarrow>
      if s \<noteq> [] then None else Some (unixDay y (nat mon) d * 86400 * second + clock - offset * second)))))"

text \<open>\<open>t.UTC().Truncate(time.Second)\<close>.\<close>

definition wholeSecond :: "instant \<Rightarrow> instant" where
  "wholeSecond t = t - t mod second"

text \<open>The regular expression \<open>^([0-9]+)h$\<close>: the digits.\<close>

definition windowDigits :: "string \<Rightarrow> string option" where
  "windowDigits s =
     (if s \<noteq> [] \<and> last s = CHR ''h'' \<and> butlast s \<noteq> [] \<and> list_all is_digit (butlast s) then Some (butlast s) else None)"

definition maxHours :: int where "maxHours = (2 ^ 63 - 1) div hour"

definition ParseRange :: "string \<Rightarrow> string \<Rightarrow> string \<Rightarrow> err + instant \<times> instant \<times> duration" where
  "ParseRange from to window =
     (case (parseRFC3339 from, parseRFC3339 to) of
        (Some start, Some end) \<Rightarrow>
          (let start = wholeSecond start; end = wholeSecond end in
           if \<not> end > start then Inl (Api ErrInvalidRange)
           else
             (case windowDigits window of
                None \<Rightarrow> Inl (Api ErrInvalidWindow)
              | Some ds \<Rightarrow>
                  (let (hours, ok) = atoi ds in
                   if \<not> ok \<or> hours \<le> 0 \<or> hours > maxHours then Inl (Api ErrInvalidWindow)
                   else Inr (start, end, hours * hour))))
      | _ \<Rightarrow> Inl (Api ErrInvalidRange))"

subsection \<open>The series\<close>

text \<open>The reading of the upload service; counts are 64 bits wide.\<close>

record usage_item =
  it_Timestamp :: int
  it_BytesStored :: "64 word"
  it_BytesIngested :: "64 word"
  it_UploadCount :: "64 word"

record sample =
  End :: instant
  BytesStored :: "64 word"
  BytesIngested :: "64 word"
  ObjectCount :: "64 word"

text \<open>
  \<open>SampleUsage\<close> is a call of the upload service, signed by the issuer and proven from the
  delegation store; the last argument says which call it is, calls being answered in any order.
\<close>

record metrics_service =
  ms_keylib :: key_lib
  SampleUsage :: "issuer \<Rightarrow> dlg_store \<Rightarrow> did \<Rightarrow> instant \<Rightarrow> instant \<Rightarrow> duration \<Rightarrow> nat \<Rightarrow> err + usage_item list"

definition sampleOf :: "usage_item \<Rightarrow> sample" where
  "sampleOf it = \<lparr>End = it_Timestamp it * second, BytesStored = it_BytesStored it, BytesIngested = it_BytesIngested it,
     ObjectCount = it_UploadCount it\<rparr>"

definition sampleSpace ::
  "metrics_service \<Rightarrow> issuer \<Rightarrow> dlg_store \<Rightarrow> instant \<Rightarrow> instant \<Rightarrow> duration \<Rightarrow> did \<Rightarrow> nat \<Rightarrow> err + sample list" where
  "sampleSpace S issuer ds from to window space n =
     map_sum (\<lambda>e. e) (map sampleOf) (SampleUsage S issuer ds space from to window n)"

text \<open>The sums by instant and how many samples each instant got.\<close>

definition addSample :: "sample \<Rightarrow> (int, sample) gomap \<times> (int, nat) gomap \<Rightarrow> (int, sample) gomap \<times> (int, nat) gomap" where
  "addSample smp acc =
     (let (totals, seen) = acc; at = unixSeconds (End smp);
          old = (case map_of totals at of
                   Some x \<Rightarrow> x
                 | None \<Rightarrow> \<lparr>End = End smp, BytesStored = 0, BytesIngested = 0, ObjectCount = 0\<rparr>)
      in (AList.update at (old\<lparr>BytesStored := BytesStored old + BytesStored smp,
              BytesIngested := BytesIngested old + BytesIngested smp, ObjectCount := ObjectCount old + ObjectCount smp\<rparr>) totals,
          AList.update at ((case map_of seen at of None \<Rightarrow> 0 | Some n \<Rightarrow> n) + 1) seen))"

definition sumRuns :: "sample list list \<Rightarrow> sample list" where
  "sumRuns runs =
     (let (totals, seen) = fold addSample (concat runs) ([], []);
          ends = sort (map fst (filter (\<lambda>(at, count). count = length runs) seen))
      in List.map_filter (map_of totals) ends)"

definition clampEnd :: "instant \<Rightarrow> instant \<Rightarrow> instant" where
  "clampEnd now to = (let now = wholeSecond now in if to > now then now else to)"

subsection \<open>The service\<close>

definition metricsTenant :: "tenants \<Rightarrow> string \<Rightarrow> err + tenant" where
  "metricsTenant s ext =
     (case tenant_GetByExternalID s ext of
        Inl e \<Rightarrow> Inl (if e = Store ErrRecordNotFound then Api ErrTenantNotFound else e)
      | Inr rec \<Rightarrow> Inr rec)"

definition metricsIssuer :: "metrics_service \<Rightarrow> vault \<Rightarrow> did \<Rightarrow> err + issuer" where
  "metricsIssuer S v ten =
     (case vault_Read v (TenantKeyPath ten) of
        Inl e \<Rightarrow> Inl e
      | Inr bytes \<Rightarrow>
          (case Secp256k1Decode (ms_keylib S) bytes of
             None \<Rightarrow> Inl (Internal ''decoding tenant key'')
           | Some signer \<Rightarrow> Inr (ten, signer)))"

definition BucketUsage ::
  "metrics_service \<Rightarrow> instant \<Rightarrow> tenants \<Rightarrow> buckets \<Rightarrow> vault \<Rightarrow> dlg_store \<Rightarrow> string \<Rightarrow> string \<Rightarrow> instant \<Rightarrow> instant \<Rightarrow> duration \<Rightarrow>
   err + sample list" where
  "BucketUsage S now ts bs v ds ext nm from to window =
     on_ok (metricsTenant ts ext) (\<lambda>ten.
     on_ok (bucket_ListByTenant bs (t_ID ten, \<lparr>q_IDs = [], q_Names = [nm], q_Prefix = [], q_Provider = Undef, q_Limit = None\<rparr>) None) (\<lambda>page.
       case Results page of
         [] \<Rightarrow> Inl (Api ErrBucketNotFound)
       | b # _ \<Rightarrow>
           (let end = clampEnd now to in
            if \<not> end > from then Inr []
            else on_ok (metricsIssuer S v (t_ID ten)) (\<lambda>issuer. sampleSpace S issuer ds from end window (b_ID b) 0))))"

text \<open>The runs of the buckets, answered in the order of \<open>order\<close>; the first failure ends the query.\<close>

fun runAll :: "(nat \<Rightarrow> nat \<Rightarrow> err + sample list) \<Rightarrow> nat list \<Rightarrow> nat \<Rightarrow> sample list list \<Rightarrow> err + sample list list" where
  "runAll ask [] n runs = Inr runs"
| "runAll ask (i # is) n runs = on_ok (ask i n) (\<lambda>samples. runAll ask is (n + 1) (runs[i := samples]))"

definition TenantUsage ::
  "metrics_service \<Rightarrow> (nat \<Rightarrow> nat list) \<Rightarrow> instant \<Rightarrow> tenants \<Rightarrow> buckets \<Rightarrow> vault \<Rightarrow> dlg_store \<Rightarrow> string \<Rightarrow> instant \<Rightarrow> instant \<Rightarrow> duration \<Rightarrow>
   (err + sample list) option" where
  "TenantUsage S order now ts bs v ds ext from to window =
     (case metricsTenant ts ext of
        Inl e \<Rightarrow> Some (Inl e)
      | Inr ten \<Rightarrow>
          (let end = clampEnd now to in
           if \<not> end > from then Some (Inr [])
           else
             (case Collect_pages (bucket_ListByTenant bs (t_ID ten, \<lparr>q_IDs = [], q_Names = [], q_Prefix = [], q_Provider = Undef, q_Limit = None\<rparr>)) of
                None \<Rightarrow> None
              | Some (Inl e) \<Rightarrow> Some (Inl e)
              | Some (Inr bks) \<Rightarrow>
                  if length bks = 0 then Some (Inr [])
                  else Some
                    (on_ok (metricsIssuer S v (t_ID ten)) (\<lambda>issuer.
                     on_ok (runAll (\<lambda>i. sampleSpace S issuer ds from end window (b_ID (bks ! i))) (order (length bks)) 0
                         (replicate (length bks) [])) (\<lambda>runs. Inr (sumRuns runs)))))))"

subsection \<open>What a range and a window may be\<close>

lemma atoi_digits:
  assumes "ds \<noteq> []" and "list_all is_digit ds" and "atoi ds = (n, True)"
  shows "n = int (digitsValue ds)" and "n \<le> 2 ^ 63 - 1"
proof -
  obtain c cs where ds: "ds = c # cs" using assms(1) by (cases ds) auto
  have signs: "\<not> is_digit CHR ''-''" "\<not> is_digit CHR ''+''" by code_simp+
  then have "c \<noteq> CHR ''-''" "c \<noteq> CHR ''+''" using assms(2) unfolding ds by auto
  then have neg: "(case ds of c # _ \<Rightarrow> c = CHR ''-'' | [] \<Rightarrow> False) = False"
    and body: "(case ds of c # cs \<Rightarrow> if c = CHR ''-'' \<or> c = CHR ''+'' then cs else ds | [] \<Rightarrow> []) = ds"
    by (simp_all add: ds)
  have "n = int (digitsValue ds) \<and> n \<le> 2 ^ 63 - 1"
    using assms(3) unfolding atoi_def Let_def neg body
    by (simp add: assms(1,2) split: if_splits)
  then show "n = int (digitsValue ds)" and "n \<le> 2 ^ 63 - 1" by blast+
qed

lemma windowDigits_Some: "windowDigits s = Some ds \<longleftrightarrow> s = ds @ ''h'' \<and> ds \<noteq> [] \<and> list_all is_digit ds"
proof
  show "windowDigits s = Some ds \<Longrightarrow> s = ds @ ''h'' \<and> ds \<noteq> [] \<and> list_all is_digit ds"
    by (cases s rule: rev_cases) (auto simp: windowDigits_def split: if_splits)
qed (simp add: windowDigits_def butlast_append)

lemma wholeSecond_bounds: "second dvd wholeSecond t" "wholeSecond t \<le> t" "t < wholeSecond t + second"
  by (auto simp: wholeSecond_def minus_mod_eq_mult_div)

subsection \<open>The sum of the buckets\<close>

abbreviation at :: "sample \<Rightarrow> int" where "at s \<equiv> unixSeconds (End s)"

abbreviation here :: "int \<Rightarrow> sample list \<Rightarrow> sample list" where
  "here a \<equiv> filter (\<lambda>s. at s = a)"

definition totalOf :: "sample list \<Rightarrow> sample" where
  "totalOf ss = \<lparr>End = End (hd ss), BytesStored = sum_list (map BytesStored ss),
     BytesIngested = sum_list (map BytesIngested ss), ObjectCount = sum_list (map ObjectCount ss)\<rparr>"

lemma totalOf_snoc:
  "ss \<noteq> [] \<Longrightarrow> totalOf (ss @ [s]) = (totalOf ss)\<lparr>BytesStored := BytesStored (totalOf ss) + BytesStored s,
     BytesIngested := BytesIngested (totalOf ss) + BytesIngested s, ObjectCount := ObjectCount (totalOf ss) + ObjectCount s\<rparr>"
  by (simp add: totalOf_def)

lemma folded:
  fixes ss :: "sample list"
  defines "acc \<equiv> fold addSample ss ([], [])"
  shows "distinct (map fst (snd acc))"
    and "map_of (fst acc) a = (if here a ss = [] then None else Some (totalOf (here a ss)))"
    and "map_of (snd acc) a = (if here a ss = [] then None else Some (length (here a ss)))"
proof -
  let ?good = "\<lambda>ss acc. distinct (map fst (snd acc)) \<and>
    (\<forall>a. map_of (fst acc) a = (if here a ss = [] then None else Some (totalOf (here a ss)))) \<and>
    (\<forall>a. map_of (snd acc) a = (if here a ss = [] then None else Some (length (here a ss))))"
  have "?good ss (fold addSample ss ([], []))"
  proof (induction ss rule: rev_induct)
    case Nil
    then show ?case by simp
  next
    case (snoc s ss)
    obtain totals seen where eq: "fold addSample ss ([], []) = (totals, seen)" by force
    have ih: "distinct (map fst seen)"
      "map_of totals a = (if here a ss = [] then None else Some (totalOf (here a ss)))"
      "map_of seen a = (if here a ss = [] then None else Some (length (here a ss)))" for a
      using snoc unfolding eq fst_conv snd_conv by blast+
    have "totalOf [s] = \<lparr>End = End s, BytesStored = BytesStored s, BytesIngested = BytesIngested s, ObjectCount = ObjectCount s\<rparr>"
      by (simp add: totalOf_def)
    then show ?case
      unfolding fold_append comp_def eq by (auto simp: addSample_def Let_def ih update_conv' distinct_update totalOf_snoc)
  qed
  then show "distinct (map fst (snd acc))"
    and "map_of (fst acc) a = (if here a ss = [] then None else Some (totalOf (here a ss)))"
    and "map_of (snd acc) a = (if here a ss = [] then None else Some (length (here a ss)))"
    unfolding acc_def by blast+
qed

text \<open>The instants every run reached, and what a run reads at one of them.\<close>

definition reached :: "sample list list \<Rightarrow> int set" where
  "reached runs = {a. \<forall>run \<in> set runs. a \<in> at ` set run}"

definition reading :: "int \<Rightarrow> sample list \<Rightarrow> sample" where
  "reading a run = hd (here a run)"

lemma here_once:
  assumes "distinct (map at run)"
  shows "here a run = (if a \<in> at ` set run then [reading a run] else [])"
proof -
  have "distinct (map at (here a run))" using assms by (rule distinct_map_filter)
  then have "length (here a run) = card (set (map at (here a run)))" by (metis distinct_card length_map)
  also have "\<dots> \<le> card {a}" by (rule card_mono) auto
  finally have "length (here a run) \<le> 1" by simp
  moreover have "here a run = [] \<longleftrightarrow> a \<notin> at ` set run" by (auto simp: filter_empty_conv)
  ultimately show ?thesis by (cases "here a run") (simp_all add: reading_def)
qed

lemma here_everywhere:
  assumes "\<forall>run \<in> set runs. distinct (map at run)"
  shows "length (here a (concat runs)) \<le> length runs"
    and "length (here a (concat runs)) = length runs \<longleftrightarrow> a \<in> reached runs"
proof -
  have "length (here a (concat runs)) \<le> length runs \<and> (length (here a (concat runs)) = length runs \<longleftrightarrow> a \<in> reached runs)"
    using assms by (induction runs) (auto simp: here_once reached_def)
  then show "length (here a (concat runs)) \<le> length runs"
    and "length (here a (concat runs)) = length runs \<longleftrightarrow> a \<in> reached runs" by blast+
qed

lemma here_readings:
  assumes "\<forall>run \<in> set runs. distinct (map at run)" and "a \<in> reached runs"
  shows "here a (concat runs) = map (reading a) runs"
  using assms by (induction runs) (auto simp: here_once reached_def)

lemma sumRuns_spec:
  assumes "\<forall>run \<in> set runs. distinct (map at run)" and "runs \<noteq> []"
  shows "set (map at (sumRuns runs)) = reached runs" and "sorted_wrt (<) (map at (sumRuns runs))"
    and "smp \<in> set (sumRuns runs) \<Longrightarrow>
      BytesStored smp = (\<Sum>run\<leftarrow>runs. BytesStored (reading (at smp) run)) \<and>
      BytesIngested smp = (\<Sum>run\<leftarrow>runs. BytesIngested (reading (at smp) run)) \<and>
      ObjectCount smp = (\<Sum>run\<leftarrow>runs. ObjectCount (reading (at smp) run))"
proof -
  obtain totals seen where eq: "fold addSample (concat runs) ([], []) = (totals, seen)" by force
  note acc = folded[of "concat runs", unfolded eq fst_conv snd_conv]
  let ?ends = "sort (map fst (filter (\<lambda>(a, count). count = length runs) seen))"
  have ends: "set ?ends = reached runs"
  proof -
    have "a \<in> set ?ends \<longleftrightarrow> map_of seen a = Some (length runs)" for a
      using acc(1) by (force simp: image_iff)
    moreover have "map_of seen a = Some (length runs) \<longleftrightarrow> a \<in> reached runs" for a
      using here_everywhere[OF assms(1), of a] assms(2) by (auto simp: acc(3))
    ultimately show ?thesis by blast
  qed
  have dist: "distinct ?ends"
    using acc(1) by (simp add: distinct_map_filter)
  have some: "map_of totals a = Some (totalOf (map (reading a) runs))" if "a \<in> reached runs" for a
    using here_readings[OF assms(1) that] assms(2) by (simp add: acc(2))
  have out: "sumRuns runs = map (\<lambda>a. totalOf (map (reading a) runs)) ?ends"
  proof -
    have all: "\<forall>a \<in> set ?ends. map_of totals a = Some (totalOf (map (reading a) runs))"
      unfolding ends using some by blast
    then have "filter (\<lambda>a. map_of totals a \<noteq> None) ?ends = ?ends" by (intro filter_True) auto
    then show ?thesis
      unfolding sumRuns_def eq Let_def prod.case List.map_filter_def using all by simp
  qed
  have same: "at (totalOf (map (reading a) runs)) = a" if "a \<in> reached runs" for a
  proof -
    obtain run rest where runs: "runs = run # rest" using assms(2) by (cases runs) auto
    then have "here a run = [reading a run]" using that assms(1) by (simp add: here_once reached_def)
    then have "reading a run \<in> set (here a run)" by simp
    then show ?thesis by (simp add: runs totalOf_def)
  qed
  have ats: "map at (sumRuns runs) = ?ends"
    unfolding out map_map by (rule map_idI) (unfold comp_def ends, rule same)
  show "set (map at (sumRuns runs)) = reached runs" unfolding ats by (rule ends)
  show "sorted_wrt (<) (map at (sumRuns runs))"
    unfolding ats using dist by (simp add: strict_sorted_iff)
  assume "smp \<in> set (sumRuns runs)"
  then obtain a where a: "a \<in> reached runs" "smp = totalOf (map (reading a) runs)"
    unfolding out set_map ends by blast
  then show "BytesStored smp = (\<Sum>run\<leftarrow>runs. BytesStored (reading (at smp) run)) \<and>
      BytesIngested smp = (\<Sum>run\<leftarrow>runs. BytesIngested (reading (at smp) run)) \<and>
      ObjectCount smp = (\<Sum>run\<leftarrow>runs. ObjectCount (reading (at smp) run))"
    unfolding a(2) same[OF a(1)] by (simp add: totalOf_def comp_def)
qed

subsection \<open>Calls answered in any order\<close>

lemma runAll_Inr:
  assumes "runAll ask order n runs = Inr runs'" and "distinct order" and "\<forall>i \<in> set order. i < length runs"
  shows "length runs' = length runs"
    and "i < length runs \<Longrightarrow> if i \<in> set order then \<exists>k. ask i k = Inr (runs' ! i) else runs' ! i = runs ! i"
proof -
  have "length runs' = length runs \<and>
    (\<forall>i < length runs. if i \<in> set order then \<exists>k. ask i k = Inr (runs' ! i) else runs' ! i = runs ! i)"
    using assms
  proof (induction order arbitrary: n runs)
    case Nil
    then show ?case by simp
  next
    case (Cons j order)
    from Cons.prems(1) obtain samples where ask: "ask j n = Inr samples"
      and rest: "runAll ask order (n + 1) (runs[j := samples]) = Inr runs'"
      unfolding runAll.simps by (elim on_ok_InrD)
    have ih: "length runs' = length runs \<and>
      (\<forall>i < length runs. if i \<in> set order then \<exists>k. ask i k = Inr (runs' ! i) else runs' ! i = runs[j := samples] ! i)"
      using Cons.IH[OF rest] Cons.prems(2,3) by auto
    show ?case
    proof (intro conjI allI impI)
      show "length runs' = length runs" using ih by blast
      fix i assume "i < length runs"
      with ih Cons.prems ask show "if i \<in> set (j # order) then \<exists>k. ask i k = Inr (runs' ! i) else runs' ! i = runs ! i"
        by (cases "i = j") (auto split: if_splits)
    qed
  qed
  then show "length runs' = length runs"
    and "i < length runs \<Longrightarrow> if i \<in> set order then \<exists>k. ask i k = Inr (runs' ! i) else runs' ! i = runs ! i"
    by blast+
qed

lemma runAll_Inl: "runAll ask order n runs = Inl e \<Longrightarrow> \<exists>i \<in> set order. \<exists>k. ask i k = Inl e"
  by (induction ask order n runs rule: runAll.induct) (auto simp: on_ok_def split: sum.splits)

lemma at_sampleOf: "at (sampleOf it) = it_Timestamp it"
  by (simp add: sampleOf_def unixSeconds_def)

lemma sampleSpace_Inr:
  "sampleSpace S issuer ds from to window space k = Inr run \<longleftrightarrow>
    (\<exists>items. SampleUsage S issuer ds space from to window k = Inr items \<and> run = map sampleOf items)"
  by (cases "SampleUsage S issuer ds space from to window k") (auto simp: sampleSpace_def)

lemma sampleSpace_Inl:
  "sampleSpace S issuer ds from to window space k = Inl e \<longleftrightarrow> SampleUsage S issuer ds space from to window k = Inl e"
  by (cases "SampleUsage S issuer ds space from to window k") (auto simp: sampleSpace_def)

subsection \<open>Properties\<close>

definition ownBuckets :: "buckets \<Rightarrow> did \<Rightarrow> bucket set" where
  "ownBuckets bs ten = {b. map_of bs (b_ID b) = Some b \<and> b_Tenant b = ten}"

abbreviation every :: "did \<Rightarrow> did \<times> bucket_query" where
  "every ten \<equiv> (ten, \<lparr>q_IDs = [], q_Names = [], q_Prefix = [], q_Provider = Undef, q_Limit = None\<rparr>)"

lemma every_bucket:
  assumes "buckets_ok bs"
  obtains bks where "Collect_pages (bucket_ListByTenant bs (every ten)) = Some (Inr bks)"
    and "set bks = ownBuckets bs ten" and "distinct bks"
proof
  have "valid_query (every ten)" by (simp add: valid_query_def bucket_limit_def defaultListLimit_def)
  then show "Collect_pages (bucket_ListByTenant bs (every ten)) = Some (Inr (all_buckets bs (every ten)))"
    by (rule bucket_pages.collect_whole[OF assms])
  show "set (all_buckets bs (every ten)) = ownBuckets bs ten"
    using set_all_buckets[OF assms] by (auto simp: ownBuckets_def bucket_selected_def)
  show "distinct (all_buckets bs (every ten))"
    using names_distinct[OF assms] by (simp add: distinct_map)
qed

text \<open>What a bucket's series adds to the tenant's, \<open>f\<close> being the series of each.\<close>

definition sumOver :: "bucket set \<Rightarrow> (bucket \<Rightarrow> sample list) \<Rightarrow> sample list \<Rightarrow> bool" where
  "sumOver own f out \<longleftrightarrow>
     set (map at out) = {a. \<forall>b \<in> own. a \<in> at ` set (f b)} \<and> sorted_wrt (<) (map at out) \<and>
     (\<forall>smp \<in> set out. BytesStored smp = (\<Sum>b \<in> own. BytesStored (reading (at smp) (f b))) \<and>
        BytesIngested smp = (\<Sum>b \<in> own. BytesIngested (reading (at smp) (f b))) \<and>
        ObjectCount smp = (\<Sum>b \<in> own. ObjectCount (reading (at smp) (f b))))"

lemma sumOver_runs:
  assumes "\<forall>b \<in> set bks. distinct (map at (f b))" and "bks \<noteq> []" and "distinct bks"
  shows "sumOver (set bks) f (sumRuns (map f bks))"
proof -
  have reg: "\<forall>run \<in> set (map f bks). distinct (map at run)" and ne: "map f bks \<noteq> []" using assms(1,2) by auto
  note spec = sumRuns_spec[OF reg ne]
  have sum: "(\<Sum>run\<leftarrow>map f bks. g run) = (\<Sum>b \<in> set bks. g (f b))" for g :: "sample list \<Rightarrow> 64 word"
    using sum_list_distinct_conv_sum_set[OF assms(3), of "\<lambda>b. g (f b)"] by (simp add: comp_def)
  show ?thesis
    unfolding sumOver_def spec(1) using spec(2,3) unfolding sum by (auto simp: reached_def)
qed

lemma atoi_Some:
  assumes "ds \<noteq> []" and "list_all is_digit ds" and "int (digitsValue ds) \<le> 2 ^ 63 - 1"
  shows "atoi ds = (int (digitsValue ds), True)"
proof (cases "atoi ds")
  case (Pair n ok)
  obtain c cs where ds: "ds = c # cs" using assms(1) by (cases ds) auto
  have signs: "\<not> is_digit CHR ''-''" "\<not> is_digit CHR ''+''" by code_simp+
  then have "c \<noteq> CHR ''-''" "c \<noteq> CHR ''+''" using assms(2) unfolding ds by auto
  then show ?thesis using assms(2,3) by (simp add: atoi_def ds)
qed

text \<open>
  A metrics query is accepted exactly when its bounds are RFC 3339 timestamps whose whole
  seconds are in order and its window is a number of hours above zero that a 64-bit duration
  holds; what the service gets is those whole seconds and that duration. A query whose bounds
  are not such is refused for its range, every other for its window.
\<close>

theorem parse_range:
  "(ParseRange from to window = Inr (start, end, w) \<longleftrightarrow>
      (\<exists>f t ds. parseRFC3339 from = Some f \<and> parseRFC3339 to = Some t \<and> start = wholeSecond f \<and> end = wholeSecond t \<and>
         start < end \<and> window = ds @ ''h'' \<and> list_all is_digit ds \<and> w = int (digitsValue ds) * hour \<and>
         0 < w \<and> w \<le> 2 ^ 63 - 1)) \<and>
   (ParseRange from to window = Inl (Api ErrInvalidRange) \<longleftrightarrow>
      \<not> (\<exists>f t. parseRFC3339 from = Some f \<and> parseRFC3339 to = Some t \<and> wholeSecond f < wholeSecond t)) \<and>
   ParseRange from to window \<in> {Inl (Api ErrInvalidRange), Inl (Api ErrInvalidWindow)} \<union> range Inr"
  (is "?ok \<and> ?bad \<and> ?or")
proof (intro conjI)
  show ?ok
  proof
    assume "ParseRange from to window = Inr (start, end, w)"
    then obtain f t ds hours where parsed: "parseRFC3339 from = Some f" "parseRFC3339 to = Some t" "windowDigits window = Some ds"
      and n: "atoi ds = (hours, True)" and lim: "wholeSecond f < wholeSecond t" "0 < hours" "hours \<le> maxHours"
      and res: "start = wholeSecond f" "end = wholeSecond t" "w = hours * hour"
      by (auto simp: ParseRange_def Let_def split: option.splits prod.splits if_splits)
    note ds = parsed(3)[unfolded windowDigits_Some]
    have "hours = int (digitsValue ds)" using atoi_digits(1)[OF _ _ n] ds by blast
    moreover have "0 < w \<and> w \<le> 2 ^ 63 - 1" using lim(2,3) by (simp add: maxHours_def res(3))
    ultimately show "\<exists>f t ds. parseRFC3339 from = Some f \<and> parseRFC3339 to = Some t \<and> start = wholeSecond f \<and>
        end = wholeSecond t \<and> start < end \<and> window = ds @ ''h'' \<and> list_all is_digit ds \<and>
        w = int (digitsValue ds) * hour \<and> 0 < w \<and> w \<le> 2 ^ 63 - 1"
      using parsed(1,2) ds lim(1) res by blast
  next
    assume "\<exists>f t ds. parseRFC3339 from = Some f \<and> parseRFC3339 to = Some t \<and> start = wholeSecond f \<and>
        end = wholeSecond t \<and> start < end \<and> window = ds @ ''h'' \<and> list_all is_digit ds \<and>
        w = int (digitsValue ds) * hour \<and> 0 < w \<and> w \<le> 2 ^ 63 - 1"
    then obtain f t ds where parsed: "parseRFC3339 from = Some f" "parseRFC3339 to = Some t"
      and res: "start = wholeSecond f" "end = wholeSecond t" "wholeSecond f < wholeSecond t"
      and ds: "window = ds @ ''h''" "list_all is_digit ds"
      and w: "w = int (digitsValue ds) * hour" "0 < int (digitsValue ds) * hour" "int (digitsValue ds) * hour \<le> 2 ^ 63 - 1"
      by blast
    have "ds \<noteq> []" using w(2) by (auto simp: digitsValue_def)
    moreover have "0 < int (digitsValue ds)" "int (digitsValue ds) \<le> maxHours" using w(2,3) by (simp_all add: maxHours_def)
    moreover have "windowDigits window = Some ds" unfolding windowDigits_Some using ds \<open>ds \<noteq> []\<close> by blast
    ultimately show "ParseRange from to window = Inr (start, end, w)"
      using parsed res w(1) atoi_Some[OF _ ds(2)] by (simp add: ParseRange_def maxHours_def)
  qed
  show ?bad by (auto simp: ParseRange_def Let_def split: option.splits prod.splits if_splits)
  show ?or by (auto simp: ParseRange_def Let_def split: option.splits prod.splits if_splits)
qed

lemma parse_range_example:
  "ParseRange ''1970-01-01T00:00:00Z'' ''1970-01-02T00:00:00.5+01:00'' ''24h'' = Inr (0, 82800 * second, 24 * hour)"
  by code_simp

lemma parse_range_same_second:
  "ParseRange ''1970-01-01T00:00:00.1Z'' ''1970-01-01T00:00:00.9Z'' ''24h'' = Inl (Api ErrInvalidRange)"
  by code_simp

text \<open>
  C40. A tenant's usage is the sum of its buckets', in whatever order the calls to the upload
  service are answered: at exactly the instants every bucket's series reached, ascending, each
  reading the 64-bit sum of the buckets'. A range that lies in the future and a tenant without
  buckets give no samples, and a failure is the tenant's absence, its key's, or one of the
  answers of the upload service.
\<close>

theorem tenant_usage:
  assumes "buckets_ok bs" and "\<forall>n. distinct (order n) \<and> set (order n) = {..<n}"
    and "\<forall>issuer space k items. SampleUsage S issuer ds space from (clampEnd now to) window k = Inr items \<longrightarrow>
           distinct (map it_Timestamp items)"
  shows "\<exists>r. TenantUsage S order now ts bs v ds ext from to window = Some r \<and>
    (\<forall>e. r = Inl e \<longrightarrow> metricsTenant ts ext = Inl e \<or>
       (\<exists>ten. metricsTenant ts ext = Inr ten \<and> (metricsIssuer S v (t_ID ten) = Inl e \<or>
          (\<exists>issuer k. \<exists>b \<in> ownBuckets bs (t_ID ten).
             SampleUsage S issuer ds (b_ID b) from (clampEnd now to) window k = Inl e)))) \<and>
    (\<forall>out. r = Inr out \<longrightarrow> (\<exists>ten. metricsTenant ts ext = Inr ten \<and>
       (if clampEnd now to \<le> from \<or> ownBuckets bs (t_ID ten) = {} then out = []
        else \<exists>issuer f. metricsIssuer S v (t_ID ten) = Inr issuer \<and>
          (\<forall>b \<in> ownBuckets bs (t_ID ten). \<exists>k. sampleSpace S issuer ds from (clampEnd now to) window (b_ID b) k = Inr (f b)) \<and>
          sumOver (ownBuckets bs (t_ID ten)) f out)))"
proof (cases "metricsTenant ts ext")
  case (Inl e)
  then show ?thesis by (simp add: TenantUsage_def)
next
  case (Inr ten)
  obtain bks where bks: "Collect_pages (bucket_ListByTenant bs (every (t_ID ten))) = Some (Inr bks)"
    "set bks = ownBuckets bs (t_ID ten)" "distinct bks"
    by (rule every_bucket[OF assms(1)])
  show ?thesis
  proof (cases "clampEnd now to \<le> from \<or> bks = []")
    case True
    then have "TenantUsage S order now ts bs v ds ext from to window = Some (Inr [])"
      using Inr bks(1) by (auto simp: TenantUsage_def Let_def)
    then show ?thesis using True Inr bks(2) by auto
  next
    case False
    let ?ask = "\<lambda>issuer i. sampleSpace S issuer ds from (clampEnd now to) window (b_ID (bks ! i))"
    let ?r = "on_ok (metricsIssuer S v (t_ID ten)) (\<lambda>issuer.
        on_ok (runAll (?ask issuer) (order (length bks)) 0 (replicate (length bks) [])) (\<lambda>runs. Inr (sumRuns runs)))"
    have run: "TenantUsage S order now ts bs v ds ext from to window = Some ?r"
      using Inr bks(1) False by (simp add: TenantUsage_def Let_def)
    have own: "ownBuckets bs (t_ID ten) \<noteq> {}" using False bks(2) by auto
    have ord: "distinct (order (length bks))" "set (order (length bks)) = {..<length bks}" using assms(2) by blast+
    have failed: "metricsIssuer S v (t_ID ten) = Inl e \<or> (\<exists>issuer k. \<exists>b \<in> ownBuckets bs (t_ID ten).
        SampleUsage S issuer ds (b_ID b) from (clampEnd now to) window k = Inl e)" if r: "?r = Inl e" for e
    proof (cases "metricsIssuer S v (t_ID ten)")
      case (Inr issuer)
      with r have "runAll (?ask issuer) (order (length bks)) 0 (replicate (length bks) []) = Inl e"
        by (auto simp: on_ok_def split: sum.splits)
      from runAll_Inl[OF this] obtain i k where "i < length bks" "?ask issuer i k = Inl e" using ord(2) by auto
      then show ?thesis using bks(2) nth_mem unfolding sampleSpace_Inl by blast
    qed (use r in simp)
    have summed: "\<exists>issuer f. metricsIssuer S v (t_ID ten) = Inr issuer \<and>
        (\<forall>b \<in> ownBuckets bs (t_ID ten). \<exists>k. sampleSpace S issuer ds from (clampEnd now to) window (b_ID b) k = Inr (f b)) \<and>
        sumOver (ownBuckets bs (t_ID ten)) f out" if r: "?r = Inr out" for out
    proof -
      obtain issuer runs where iss: "metricsIssuer S v (t_ID ten) = Inr issuer"
        and all: "runAll (?ask issuer) (order (length bks)) 0 (replicate (length bks) []) = Inr runs" and out: "out = sumRuns runs"
        using r by (auto simp: on_ok_Inr_iff)
      have len: "length runs = length bks" and got: "i < length bks \<Longrightarrow> \<exists>k. ?ask issuer i k = Inr (runs ! i)" for i
        using runAll_Inr[OF all ord(1)] ord(2) by simp_all
      define f where "f = (\<lambda>b. the (map_of (zip bks runs) b))"
      have f: "f (bks ! i) = runs ! i" if "i < length bks" for i
        using map_of_zip_nth[OF _ bks(3), of runs i] len that by (simp add: f_def)
      have runs: "runs = map f bks" by (rule nth_equalityI) (simp_all add: len f)
      have ans: "\<exists>k. sampleSpace S issuer ds from (clampEnd now to) window (b_ID b) k = Inr (f b)" if "b \<in> set bks" for b
        using that got f by (metis in_set_conv_nth)
      have "\<forall>b \<in> set bks. distinct (map at (f b))"
        using ans assms(3) unfolding sampleSpace_Inr by (fastforce simp: at_sampleOf comp_def)
      then have "sumOver (set bks) f out" unfolding out runs using False bks(3) by (intro sumOver_runs) auto
      then show ?thesis using iss ans unfolding bks(2) by blast
    qed
    show ?thesis
      using run Inr own False failed summed by (auto simp del: on_ok_simps)
  qed
qed

text \<open>
  A bucket's series is read for the bucket of that name that the tenant owns; a name of another
  tenant's bucket is answered as one of no bucket, and the upload service is not asked.
\<close>

lemma bucket_usage:
  assumes "buckets_ok bs" and "metricsTenant ts ext = Inr ten"
  shows "BucketUsage S now ts bs v ds ext nm from to window =
    (case bucket_GetByName bs nm of
       Inl e \<Rightarrow> Inl (Api ErrBucketNotFound)
     | Inr b \<Rightarrow>
         if b_Tenant b \<noteq> t_ID ten then Inl (Api ErrBucketNotFound)
         else if clampEnd now to \<le> from then Inr []
         else on_ok (metricsIssuer S v (t_ID ten)) (\<lambda>issuer. sampleSpace S issuer ds from (clampEnd now to) window (b_ID b) 0))"
proof -
  let ?q = "(t_ID ten, \<lparr>q_IDs = [], q_Names = [nm], q_Prefix = [], q_Provider = Undef, q_Limit = None\<rparr>)"
  have lim: "valid_query ?q" "bucket_limit (snd ?q) = 1000"
    by (simp_all add: valid_query_def bucket_limit_def defaultListLimit_def)
  have page: "bucket_ListByTenant bs ?q None = Inr (cutPage b_Name 1000 (all_buckets bs ?q))"
    using bucket_page_after[OF assms(1) lim(1), of "[]" "all_buckets bs ?q"] lim(2) by (simp add: after_def)
  note mem = set_all_buckets[OF assms(1), of _ "t_ID ten" "snd ?q", unfolded snd_conv]
  have named: "bucket_GetByName bs nm = Inr b \<and> b_Tenant b = t_ID ten" if "b \<in> set (all_buckets bs ?q)" for b
    using that bucket_GetByName_Some[OF assms(1)] unfolding mem by (auto simp: bucket_selected_def)
  show ?thesis
  proof (cases "all_buckets bs ?q")
    case Nil
    have "b_Tenant b \<noteq> t_ID ten" if "bucket_GetByName bs nm = Inr b" for b
    proof
      assume own: "b_Tenant b = t_ID ten"
      have "b_Name b = nm" "map_of bs (b_ID b) = Some b" using bucket_GetByName_Inr[OF assms(1) that] by auto
      then have "b \<in> set (all_buckets bs ?q)" unfolding mem by (simp add: bucket_selected_def own)
      then show False by (simp add: Nil)
    qed
    then show ?thesis
      using page by (simp add: BucketUsage_def assms(2) cutPage_def Nil split: sum.split)
  next
    case (Cons b rest)
    then have "bucket_GetByName bs nm = Inr b" "b_Tenant b = t_ID ten" using named[of b] by auto
    then show ?thesis using page by (simp add: BucketUsage_def assms(2) cutPage_def Cons Let_def)
  qed
qed

text \<open>A tenant of two buckets, one of whose series is a reading short.\<close>

definition short_series :: "did \<Rightarrow> usage_item list" where
  "short_series b =
     \<lparr>it_Timestamp = 3600, it_BytesStored = 5, it_BytesIngested = 1, it_UploadCount = 1\<rparr> #
     (if b = Did ''1'' then [] else [\<lparr>it_Timestamp = 7200, it_BytesStored = 6, it_BytesIngested = 1, it_UploadCount = 1\<rparr>])"

definition sample_metrics :: metrics_service where
  "sample_metrics = \<lparr>ms_keylib = sample_keylib, SampleUsage = (\<lambda>issuer ds b from to window k. Inr (short_series b))\<rparr>"

abbreviation no_dlgs :: dlg_store where "no_dlgs \<equiv> \<lparr>byAudience = [], d_wait = None\<rparr>"

abbreviation sample_usage :: "(err + sample list) option" where
  "sample_usage \<equiv> TenantUsage sample_metrics (\<lambda>n. rev [0..<n]) (9000 * second)
     [(Did ''t'', \<lparr>t_ID = Did ''t'', t_ExternalID = ''ext'', t_Status = Active, t_CreatedAt = 0, t_UpdatedAt = 0\<rparr>)]
     sample_buckets [(TenantKeyPath (Did ''t''), ''key'')] no_dlgs ''ext'' 0 (7200 * second) hour"

lemma usage_buckets_ok: "buckets_ok sample_buckets"
proof -
  have v: "ValidateName ''zoo'' = Inr ()" "ValidateName ''art'' = Inr ()" by code_simp+
  show ?thesis
    by (auto simp: buckets_ok_def wf_gomap_def all_records_def unique_by_def sample_buckets_def sample_bucket_def v split: if_splits)
qed

theorem tenant_usage_witness:
  "sample_usage = Some (Inr [\<lparr>End = 3600 * second, BytesStored = 10, BytesIngested = 2, ObjectCount = 2\<rparr>]) \<and>
   (\<exists>f. sumOver (ownBuckets sample_buckets (Did ''t'')) f
      [\<lparr>End = 3600 * second, BytesStored = 10, BytesIngested = 2, ObjectCount = 2\<rparr>])"
proof -
  let ?out = "[\<lparr>End = 3600 * second, BytesStored = 10, BytesIngested = 2, ObjectCount = 2\<rparr>]"
  let ?ts = "[(Did ''t'', \<lparr>t_ID = Did ''t'', t_ExternalID = ''ext'', t_Status = Active, t_CreatedAt = 0, t_UpdatedAt = 0\<rparr>)]"
  have ord: "\<forall>n. distinct (rev [0..<n]) \<and> set (rev [0..<n]) = {..<n}" by auto
  have reg: "\<forall>issuer space k items. SampleUsage sample_metrics issuer no_dlgs space 0 (clampEnd (9000 * second) (7200 * second)) hour k =
      Inr items \<longrightarrow> distinct (map it_Timestamp items)"
    by (simp add: sample_metrics_def short_series_def)
  note general = tenant_usage[OF usage_buckets_ok ord reg, of ?ts "[(TenantKeyPath (Did ''t''), ''key'')]" "''ext''"]
  have run: "sample_usage = Some (Inr ?out)" by code_simp
  have ten: "metricsTenant ?ts ''ext'' = Inr ten \<Longrightarrow> t_ID ten = Did ''t''" for ten by (auto simp: metricsTenant_def tenant_GetByExternalID_def)
  from general[unfolded run] obtain f where "sumOver (ownBuckets sample_buckets (Did ''t'')) f ?out"
    using ten by (fastforce split: if_splits)
  with run show ?thesis by blast
qed

end
