(* ===== verification/Openbao.thy ===== *)
theory Openbao
  imports Vault "HOL-Library.Word"
begin

text \<open>
  \<open>pkg/vault/openbao\<close>: the vault that keeps its secrets in an OpenBao server, and the login it
  renews when the server refuses its token. The client of the server is a parameter; what is
  shown is that the vault answers as the memory backend does, and that callers whose tokens
  are refused together share one login.
\<close>

subsection \<open>The client\<close>

text \<open>
  An error of the client, by what the code asks of it: \<open>api.ErrSecretNotFound\<close>, an
  \<open>api.ResponseError\<close> with its status, another, or two wrapped in one.
\<close>

datatype (plugins only: code size) bao_err =
    SecretNotFound | ResponseError nat | OtherError | Joined bao_err bao_err

fun wrapsNotFound :: "bao_err \<Rightarrow> bool" where
  "wrapsNotFound SecretNotFound = True"
| "wrapsNotFound (Joined a b) = (wrapsNotFound a \<or> wrapsNotFound b)"
| "wrapsNotFound _ = False"

text \<open>\<open>errors.As\<close>: the first response error in the order of wrapping.\<close>

fun firstResponse :: "bao_err \<Rightarrow> nat option" where
  "firstResponse (ResponseError st) = Some st"
| "firstResponse (Joined a b) = (case firstResponse a of None \<Rightarrow> firstResponse b | Some st \<Rightarrow> Some st)"
| "firstResponse _ = None"

definition isStatus :: "bao_err \<Rightarrow> nat \<Rightarrow> bool" where
  "isStatus e status \<longleftrightarrow> firstResponse e = Some status"

abbreviation StatusForbidden :: nat where "StatusForbidden \<equiv> 403"

text \<open>A field of a secret is a string or some other JSON value.\<close>

datatype (plugins only: code) kv_field = JString string | JOther

type_synonym kv_data = "(string \<times> kv_field) list"

text \<open>
  The client over a world \<open>'e\<close> of the server and the client's token: the KV v2 engine mounted at
  the store's mount, the login the store was built with, if any, and \<open>encoding/base64\<close>. A secret
  read back without data was deleted softly.
\<close>

record 'e openbao =
  kv_Get :: "string \<Rightarrow> 'e \<Rightarrow> (bao_err + kv_data option) \<times> 'e"
  kv_Put :: "string \<Rightarrow> kv_data \<Rightarrow> 'e \<Rightarrow> (bao_err + unit) \<times> 'e"
  kv_DeleteMetadata :: "string \<Rightarrow> 'e \<Rightarrow> (bao_err + unit) \<times> 'e"
  bao_reauth :: "('e \<Rightarrow> (bao_err + unit) \<times> 'e) option"
  EncodeToString :: "string \<Rightarrow> string"
  DecodeString :: "string \<Rightarrow> string option"

text \<open>The store's counter of logins and the world; what other callers do while this one waits.\<close>

type_synonym 'e bao = "64 word \<times> 'e"
type_synonym 'e others = "'e bao \<Rightarrow> 'e bao"

subsection \<open>Logging in again\<close>

definition reauthOnce :: "('e \<Rightarrow> (bao_err + unit) \<times> 'e) \<Rightarrow> 64 word \<Rightarrow> 'e bao \<Rightarrow> (bao_err + unit) \<times> 'e bao" where
  "reauthOnce login seenGen s =
     (let (loginGen, e) = s in
      if loginGen \<noteq> seenGen then (Inr (), s)
      else (case login e of
              (Inl er, e') \<Rightarrow> (Inl er, loginGen, e')
            | (Inr _, e') \<Rightarrow> (Inr (), loginGen + 1, e')))"

text \<open>\<open>oth\<close> is what happens between the refusal and the moment the caller has the login's mutex.\<close>

definition withReauth ::
  "'e openbao \<Rightarrow> 'e others \<Rightarrow> ('e \<Rightarrow> (bao_err + 'a) \<times> 'e) \<Rightarrow> 'e bao \<Rightarrow> (bao_err + 'a) \<times> 'e bao" where
  "withReauth B oth op s =
     (let (gen, e) = s; (r, e') = op e in
      case r of
        Inr x \<Rightarrow> (Inr x, gen, e')
      | Inl er \<Rightarrow>
          (case bao_reauth B of
             None \<Rightarrow> (Inl er, gen, e')
           | Some login \<Rightarrow>
               (if \<not> isStatus er StatusForbidden then (Inl er, gen, e')
                else (case reauthOnce login gen (oth (gen, e')) of
                        (Inl loginErr, s') \<Rightarrow> (Inl (Joined er loginErr), s')
                      | (Inr _, s') \<Rightarrow> (let (r', e'') = op (snd s') in (r', fst s', e''))))))"

subsection \<open>The vault\<close>

definition dataKey :: string where "dataKey = ''value''"

text \<open>\<open>strings.TrimPrefix(key, "/")\<close>.\<close>

definition secretPath :: "string \<Rightarrow> string" where
  "secretPath k = (case k of [] \<Rightarrow> [] | c # cs \<Rightarrow> if c = CHR ''/'' then cs else k)"

definition bao_Read :: "'e openbao \<Rightarrow> 'e others \<Rightarrow> string \<Rightarrow> 'e bao \<Rightarrow> (err + string) \<times> 'e bao" where
  "bao_Read B oth k s =
     (case withReauth B oth (kv_Get B (secretPath k)) s of
        (Inl e, s') \<Rightarrow> (Inl (if wrapsNotFound e then Store ErrKeyNotFound else Internal ''reading secret''), s')
      | (Inr None, s') \<Rightarrow> (Inl (Store ErrKeyNotFound), s')
      | (Inr (Some fs), s') \<Rightarrow>
          (case map_of fs dataKey of
             Some (JString encoded) \<Rightarrow>
               (case DecodeString B encoded of
                  None \<Rightarrow> (Inl (Internal ''decoding secret value''), s')
                | Some b \<Rightarrow> (Inr b, s'))
           | _ \<Rightarrow> (Inl (Internal ''secret missing field''), s')))"

definition bao_Write :: "'e openbao \<Rightarrow> 'e others \<Rightarrow> string \<Rightarrow> string \<Rightarrow> 'e bao \<Rightarrow> (err + unit) \<times> 'e bao" where
  "bao_Write B oth k b s =
     (case withReauth B oth (kv_Put B (secretPath k) [(dataKey, JString (EncodeToString B b))]) s of
        (Inl e, s') \<Rightarrow> (Inl (Internal ''writing secret''), s')
      | (Inr _, s') \<Rightarrow> (Inr (), s'))"

definition bao_Delete :: "'e openbao \<Rightarrow> 'e others \<Rightarrow> string \<Rightarrow> 'e bao \<Rightarrow> (err + unit) \<times> 'e bao" where
  "bao_Delete B oth k s =
     (case withReauth B oth (kv_DeleteMetadata B (secretPath k)) s of
        (Inl e, s') \<Rightarrow> (Inl (Internal ''deleting secret''), s')
      | (Inr _, s') \<Rightarrow> (Inr (), s'))"

subsection \<open>What the server is documented to do\<close>

text \<open>
  \<open>secrets e\<close> is what the engine keeps by path, and \<open>authorised e\<close> whether the server takes the
  client's token. A token refused is answered 403 and nothing is done; a token taken, the
  operation is done. A token may expire at any time. A login changes no secret, and its failure
  is not that of a missing secret.
\<close>

definition documented_kv :: "'e openbao \<Rightarrow> ('e \<Rightarrow> string \<Rightarrow> kv_data option) \<Rightarrow> ('e \<Rightarrow> bool) \<Rightarrow> bool" where
  "documented_kv B secrets authorised \<longleftrightarrow>
     (\<forall>p e. if authorised e
        then fst (kv_Get B p e) = (case secrets e p of None \<Rightarrow> Inl SecretNotFound | Some d \<Rightarrow> Inr (Some d)) \<and>
             secrets (snd (kv_Get B p e)) = secrets e
        else kv_Get B p e = (Inl (ResponseError StatusForbidden), e)) \<and>
     (\<forall>p d e. if authorised e
        then fst (kv_Put B p d e) = Inr () \<and> secrets (snd (kv_Put B p d e)) = (secrets e)(p := Some d)
        else kv_Put B p d e = (Inl (ResponseError StatusForbidden), e)) \<and>
     (\<forall>p e. if authorised e
        then fst (kv_DeleteMetadata B p e) = Inr () \<and> secrets (snd (kv_DeleteMetadata B p e)) = (secrets e)(p := None)
        else kv_DeleteMetadata B p e = (Inl (ResponseError StatusForbidden), e)) \<and>
     (\<forall>login e. bao_reauth B = Some login \<longrightarrow> secrets (snd (login e)) = secrets e \<and>
        (case fst (login e) of Inr _ \<Rightarrow> authorised (snd (login e)) | Inl er \<Rightarrow> \<not> wrapsNotFound er)) \<and>
     (\<forall>b. DecodeString B (EncodeToString B b) = Some b)"

text \<open>
  Other callers, while this one waits: they write no secret, and a generation they moved the
  counter to is that of a login.
\<close>

definition quiet_others :: "('e \<Rightarrow> string \<Rightarrow> kv_data option) \<Rightarrow> ('e \<Rightarrow> bool) \<Rightarrow> 'e others \<Rightarrow> bool" where
  "quiet_others secrets authorised oth \<longleftrightarrow>
     (\<forall>gen e. secrets (snd (oth (gen, e))) = secrets e \<and>
        (fst (oth (gen, e)) \<noteq> gen \<longrightarrow> authorised (snd (oth (gen, e)))))"

text \<open>The server keeps what the memory vault does, under paths without their slash.\<close>

definition backs_vault :: "'e openbao \<Rightarrow> ('e \<Rightarrow> string \<Rightarrow> kv_data option) \<Rightarrow> vault \<Rightarrow> 'e \<Rightarrow> bool" where
  "backs_vault B secrets m e \<longleftrightarrow>
     (\<forall>p. secrets e p = map_option (\<lambda>b. [(dataKey, JString (EncodeToString B b))]) (map_of m (CHR ''/'' # p)))"

text \<open>A login that succeeds whenever it is asked for.\<close>

definition can_login :: "'e openbao \<Rightarrow> bool" where
  "can_login B \<longleftrightarrow> (\<exists>login. bao_reauth B = Some login \<and> (\<forall>e. fst (login e) = Inr ()))"


subsection \<open>AppRole\<close>

text \<open>
  The login of \<open>auth.go\<close>, over the client's write to the auth method, which answers the token it
  was issued, if any, and over its \<open>SetToken\<close>.
\<close>

definition AppRoleLogin ::
  "(string \<Rightarrow> kv_data \<Rightarrow> 'e \<Rightarrow> (bao_err + string option) \<times> 'e) \<Rightarrow> (string \<Rightarrow> 'e \<Rightarrow> 'e) \<Rightarrow>
   string \<Rightarrow> string \<Rightarrow> string \<Rightarrow> 'e \<Rightarrow> (bao_err + unit) \<times> 'e" where
  "AppRoleLogin writeAuth SetToken authMount roleID secretID e =
     (case writeAuth (''auth/'' @ authMount @ ''/login'') [(''role_id'', JString roleID), (''secret_id'', JString secretID)] e of
        (Inl er, e') \<Rightarrow> (Inl er, e')
      | (Inr None, e') \<Rightarrow> (Inl OtherError, e')
      | (Inr (Some token), e') \<Rightarrow> (if token = [] then (Inl OtherError, e') else (Inr (), SetToken token e')))"

text \<open>
  It is a login of the kind the vault asks for, when the auth method touches no secret and issues
  tokens the server takes.
\<close>

lemma AppRoleLogin_login:
  assumes "\<And>p d e. secrets (snd (writeAuth p d e)) = secrets e" and "\<And>t e. secrets (SetToken t e) = secrets e"
    and "\<And>p d e t e'. writeAuth p d e = (Inr (Some t), e') \<Longrightarrow> authorised (SetToken t e')"
    and "\<And>p d e er e'. writeAuth p d e = (Inl er, e') \<Longrightarrow> \<not> wrapsNotFound er"
  shows "secrets (snd (AppRoleLogin writeAuth SetToken m r x e)) = secrets e \<and>
    (case fst (AppRoleLogin writeAuth SetToken m r x e) of Inr _ \<Rightarrow> authorised (snd (AppRoleLogin writeAuth SetToken m r x e))
     | Inl er \<Rightarrow> \<not> wrapsNotFound er)"
proof -
  let ?p = "''auth/'' @ m @ ''/login''"
  let ?d = "[(''role_id'', JString r), (''secret_id'', JString x)]"
  obtain a e' where w: "writeAuth ?p ?d e = (a, e')" by (rule prod.exhaust)
  have "secrets e' = secrets e" using assms(1)[of ?p ?d e] w by simp
  moreover have "\<not> wrapsNotFound er" if "a = Inl er" for er using assms(4) w that by blast
  moreover have "authorised (SetToken t e')" if "a = Inr (Some t)" for t using assms(3) w that by blast
  ultimately show ?thesis
    using w by (simp add: AppRoleLogin_def assms(2) split: sum.split option.split)
qed

subsection \<open>Histories\<close>

text \<open>A history of the vault's operations, on the server and on the memory backend.\<close>

datatype (plugins only: code) vault_op = VRead string | VWrite string string | VDelete string

definition bao_step :: "'e openbao \<Rightarrow> 'e others \<Rightarrow> vault_op \<Rightarrow> 'e bao \<Rightarrow> (err + string option) \<times> 'e bao" where
  "bao_step B oth op s =
     (case op of
        VRead k \<Rightarrow> map_prod (map_sum id Some) id (bao_Read B oth k s)
      | VWrite k b \<Rightarrow> map_prod (map_sum id (\<lambda>_. None)) id (bao_Write B oth k b s)
      | VDelete k \<Rightarrow> map_prod (map_sum id (\<lambda>_. None)) id (bao_Delete B oth k s))"

definition vault_step :: "vault_op \<Rightarrow> vault \<Rightarrow> (err + string option) \<times> vault" where
  "vault_step op m =
     (case op of
        VRead k \<Rightarrow> (map_sum id Some (vault_Read m k), m)
      | VWrite k b \<Rightarrow> (Inr None, vault_Write k b m)
      | VDelete k \<Rightarrow> (Inr None, vault_Delete k m))"

fun bao_run :: "'e openbao \<Rightarrow> (vault_op \<times> 'e others) list \<Rightarrow> 'e bao \<Rightarrow> (err + string option) list \<times> 'e bao" where
  "bao_run B [] s = ([], s)"
| "bao_run B ((op, oth) # ops) s =
     (let (r, s') = bao_step B oth op s; (rs, s'') = bao_run B ops s' in (r # rs, s''))"

fun vault_run :: "vault_op list \<Rightarrow> vault \<Rightarrow> (err + string option) list \<times> vault" where
  "vault_run [] m = ([], m)"
| "vault_run (op # ops) m = (let (r, m') = vault_step op m; (rs, m'') = vault_run ops m' in (r # rs, m''))"

fun vault_key :: "vault_op \<Rightarrow> string" where
  "vault_key (VRead k) = k"
| "vault_key (VWrite k b) = k"
| "vault_key (VDelete k) = k"

subsection \<open>A rejected token is renewed\<close>

lemma reauthOnce_Inr:
  assumes "documented_kv B secrets authorised" and "bao_reauth B = Some login" and "quiet_others secrets authorised oth"
    and "reauthOnce login gen (oth (gen, e)) = (r, s')"
  shows "secrets (snd s') = secrets e" "r = Inr () \<Longrightarrow> authorised (snd s')"
    "r = Inl er \<Longrightarrow> \<not> wrapsNotFound er \<and> (\<exists>e. fst (login e) \<noteq> Inr ())"
proof -
  obtain g2 e2 where o: "oth (gen, e) = (g2, e2)" by force
  have q: "secrets e2 = secrets e" "g2 \<noteq> gen \<Longrightarrow> authorised e2"
    using assms(3) o unfolding quiet_others_def by (metis fst_conv snd_conv)+
  have l: "secrets (snd (login e2)) = secrets e2"
    "case fst (login e2) of Inr _ \<Rightarrow> authorised (snd (login e2)) | Inl er \<Rightarrow> \<not> wrapsNotFound er"
    using assms(1,2) unfolding documented_kv_def by blast+
  obtain x e3 where x: "login e2 = (x, e3)" by force
  have "secrets (snd s') = secrets e \<and> (r = Inr () \<longrightarrow> authorised (snd s')) \<and>
      (\<forall>er. r = Inl er \<longrightarrow> \<not> wrapsNotFound er \<and> (\<exists>e. fst (login e) \<noteq> Inr ()))"
  proof (cases "g2 = gen")
    case False
    with assms(4)[unfolded o] q show ?thesis by (auto simp: reauthOnce_def)
  next
    case True
    have f: "fst (login e2) = x" using x by simp
    show ?thesis
    proof (cases x)
      case (Inl er)
      with f have "\<exists>e. fst (login e) \<noteq> Inr ()" by (metis Inl_Inr_False)
      with assms(4)[unfolded o] q l x True Inl show ?thesis by (auto simp: reauthOnce_def)
    next
      case (Inr u)
      with assms(4)[unfolded o] q l x True show ?thesis by (auto simp: reauthOnce_def)
    qed
  qed
  then show "secrets (snd s') = secrets e" "r = Inr () \<Longrightarrow> authorised (snd s')"
    "r = Inl er \<Longrightarrow> \<not> wrapsNotFound er \<and> (\<exists>e. fst (login e) \<noteq> Inr ())"
    by blast+
qed

text \<open>
  An operation that is refused or done, is done under \<open>withReauth\<close>, unless no new login could be
  had: then it failed, and nothing was done.
\<close>

lemma withReauth_does:
  assumes kv: "documented_kv B secrets authorised" and quiet: "quiet_others secrets authorised oth"
    and refused: "\<And>e. \<not> authorised e \<Longrightarrow> op e = (Inl (ResponseError StatusForbidden), e)"
    and does: "\<And>e. authorised e \<Longrightarrow> fst (op e) = answer (secrets e) \<and> secrets (snd (op e)) = effect (secrets e)"
    and answer: "\<And>f er. answer f = Inl er \<Longrightarrow> \<not> isStatus er StatusForbidden"
    and run: "withReauth B oth op s = (r, s')"
  shows "r = answer (secrets (snd s)) \<and> secrets (snd s') = effect (secrets (snd s)) \<or>
    (\<exists>er. r = Inl er \<and> \<not> wrapsNotFound er \<and> secrets (snd s') = secrets (snd s) \<and> \<not> can_login B)"
proof -
  obtain gen e where s: "s = (gen, e)" by force
  obtain x e' where x: "op e = (x, e')" by force
  show ?thesis
  proof (cases "authorised e")
    case True
    with does[of e] x have d: "x = answer (secrets e)" "secrets e' = effect (secrets e)" by simp_all
    have "withReauth B oth op s = (x, gen, e')"
    proof (cases x)
      case (Inl er)
      with answer d(1) have "\<not> isStatus er StatusForbidden" by metis
      with Inl x s show ?thesis by (simp add: withReauth_def split: option.split)
    qed (use x s in \<open>simp add: withReauth_def\<close>)
    with run d s show ?thesis by auto
  next
    case False
    with refused[of e] x have d: "x = Inl (ResponseError StatusForbidden)" "e' = e" by simp_all
    show ?thesis
    proof (cases "bao_reauth B")
      case None
      with run d x s show ?thesis by (auto simp: withReauth_def can_login_def)
    next
      case (Some login)
      obtain y g2 e2 where y: "reauthOnce login gen (oth (gen, e)) = (y, g2, e2)" by (metis prod_cases3)
      note ro = reauthOnce_Inr[OF kv Some quiet y]
      show ?thesis
      proof (cases y)
        case (Inl er)
        with run d x s Some y have "r = Inl (Joined (ResponseError StatusForbidden) er)" "s' = (g2, e2)"
          by (auto simp: withReauth_def isStatus_def)
        moreover have "\<not> can_login B" using ro(3)[OF Inl] Some by (auto simp: can_login_def)
        ultimately show ?thesis using ro(1) ro(3)[OF Inl] s by simp
      next
        case (Inr u)
        then have "authorised e2" using ro(2) by simp
        moreover have "(r, s') = (fst (op e2), g2, snd (op e2))"
          using run d x s Some y Inr by (simp add: withReauth_def isStatus_def split: prod.splits)
        ultimately show ?thesis using does[of e2] ro(1) s by simp
      qed
    qed
  qed
qed

lemma secretPath_slash [simp]: "secretPath (CHR ''/'' # p) = p"
  by (simp add: secretPath_def)

subsection \<open>The server is the memory vault\<close>

lemma backs_vault_Write:
  assumes "backs_vault B secrets m e"
    and "secrets e' = (secrets e)(p := Some [(dataKey, JString (EncodeToString B b))])"
  shows "backs_vault B secrets (vault_Write (CHR ''/'' # p) b m) e'"
  using assms by (simp add: backs_vault_def vault_Write_def update_conv')

lemma backs_vault_Delete:
  assumes "backs_vault B secrets m e" and "secrets e' = (secrets e)(p := None)"
  shows "backs_vault B secrets (vault_Delete (CHR ''/'' # p) m) e'"
  using assms by (simp add: backs_vault_def vault_Delete_def)

lemma backs_vault_same: "backs_vault B secrets m e \<Longrightarrow> secrets e' = secrets e \<Longrightarrow> backs_vault B secrets m e'"
  by (simp add: backs_vault_def)

definition getAnswer :: "string \<Rightarrow> (string \<Rightarrow> kv_data option) \<Rightarrow> bao_err + kv_data option" where
  "getAnswer p f = (case f p of None \<Rightarrow> Inl SecretNotFound | Some d \<Rightarrow> Inr (Some d))"

lemma kv_does:
  assumes "documented_kv B secrets authorised"
  shows "\<And>e. \<not> authorised e \<Longrightarrow> kv_Get B p e = (Inl (ResponseError StatusForbidden), e)"
    "\<And>e. \<not> authorised e \<Longrightarrow> kv_Put B p d e = (Inl (ResponseError StatusForbidden), e)"
    "\<And>e. \<not> authorised e \<Longrightarrow> kv_DeleteMetadata B p e = (Inl (ResponseError StatusForbidden), e)"
    "\<And>e. authorised e \<Longrightarrow> fst (kv_Get B p e) = getAnswer p (secrets e) \<and> secrets (snd (kv_Get B p e)) = secrets e"
    "\<And>e. authorised e \<Longrightarrow> fst (kv_Put B p d e) = Inr () \<and> secrets (snd (kv_Put B p d e)) = (secrets e)(p := Some d)"
    "\<And>e. authorised e \<Longrightarrow> fst (kv_DeleteMetadata B p e) = Inr () \<and>
       secrets (snd (kv_DeleteMetadata B p e)) = (secrets e)(p := None)"
    "DecodeString B (EncodeToString B b) = Some b"
  using assms unfolding documented_kv_def getAnswer_def by metis+

lemma getAnswer_status: "getAnswer p f = Inl er \<Longrightarrow> \<not> isStatus er StatusForbidden"
  by (auto simp: getAnswer_def isStatus_def split: option.splits)

text \<open>What one operation comes to.\<close>

definition step_agrees ::
  "'e openbao \<Rightarrow> ('e \<Rightarrow> string \<Rightarrow> kv_data option) \<Rightarrow> vault_op \<Rightarrow> vault \<Rightarrow> (err + string option) \<times> 'e bao \<Rightarrow> bool" where
  "step_agrees B secrets op m rs \<longleftrightarrow>
     (fst rs = fst (vault_step op m) \<and> backs_vault B secrets (snd (vault_step op m)) (snd (snd rs)) \<or>
      (\<exists>e. fst rs = Inl (Internal e)) \<and> backs_vault B secrets m (snd (snd rs)) \<and> \<not> can_login B)"

lemma bao_step_agrees:
  assumes kv: "documented_kv B secrets authorised" and quiet: "quiet_others secrets authorised oth"
    and backs: "backs_vault B secrets m (snd s)" and key: "vault_key op = CHR ''/'' # p"
  shows "step_agrees B secrets op m (bao_step B oth op s)"
proof (cases op)
  case (VRead k)
  with key have k: "k = CHR ''/'' # p" by simp
  obtain r s' where run: "withReauth B oth (kv_Get B p) s = (r, s')" by (rule prod.exhaust)
  have m: "secrets (snd s) p = map_option (\<lambda>b. [(dataKey, JString (EncodeToString B b))]) (map_of m k)"
    using backs by (simp add: backs_vault_def k)
  from withReauth_does[OF kv quiet kv_does(1)[OF kv] kv_does(4)[OF kv, of _ p, unfolded getAnswer_def[of p]] _ run]
  have "r = getAnswer p (secrets (snd s)) \<and> secrets (snd s') = secrets (snd s) \<or>
    (\<exists>er. r = Inl er \<and> \<not> wrapsNotFound er \<and> secrets (snd s') = secrets (snd s) \<and> \<not> can_login B)"
    using getAnswer_status unfolding getAnswer_def by blast
  then show ?thesis
  proof
    assume d: "r = getAnswer p (secrets (snd s)) \<and> secrets (snd s') = secrets (snd s)"
    have "fst (bao_step B oth op s) = fst (vault_step op m) \<and> snd (bao_step B oth op s) = s'"
      by (cases "map_of m k")
        (simp_all add: bao_step_def vault_step_def VRead bao_Read_def k run d getAnswer_def m[unfolded k] vault_Read_def
          kv_does(7)[OF kv])
    with d backs_vault_same[OF backs] show ?thesis by (simp add: step_agrees_def vault_step_def VRead)
  next
    assume "\<exists>er. r = Inl er \<and> \<not> wrapsNotFound er \<and> secrets (snd s') = secrets (snd s) \<and> \<not> can_login B"
    with backs_vault_same[OF backs] show ?thesis
      by (auto simp: step_agrees_def bao_step_def VRead bao_Read_def k run)
  qed
next
  case (VWrite k b)
  with key have k: "k = CHR ''/'' # p" by simp
  let ?d = "[(dataKey, JString (EncodeToString B b))]"
  obtain r s' where run: "withReauth B oth (kv_Put B p ?d) s = (r, s')" by (rule prod.exhaust)
  from withReauth_does[OF kv quiet kv_does(2)[OF kv] kv_does(5)[OF kv] _ run]
  have "r = Inr () \<and> secrets (snd s') = (secrets (snd s))(p := Some ?d) \<or>
    (\<exists>er. r = Inl er \<and> \<not> wrapsNotFound er \<and> secrets (snd s') = secrets (snd s) \<and> \<not> can_login B)"
    by blast
  with backs_vault_Write[OF backs] backs_vault_same[OF backs] show ?thesis
    by (auto simp: step_agrees_def bao_step_def vault_step_def VWrite bao_Write_def k run)
next
  case (VDelete k)
  with key have k: "k = CHR ''/'' # p" by simp
  obtain r s' where run: "withReauth B oth (kv_DeleteMetadata B p) s = (r, s')" by (rule prod.exhaust)
  from withReauth_does[OF kv quiet kv_does(3)[OF kv] kv_does(6)[OF kv] _ run]
  have "r = Inr () \<and> secrets (snd s') = (secrets (snd s))(p := None) \<or>
    (\<exists>er. r = Inl er \<and> \<not> wrapsNotFound er \<and> secrets (snd s') = secrets (snd s) \<and> \<not> can_login B)"
    by blast
  with backs_vault_Delete[OF backs] backs_vault_same[OF backs] show ?thesis
    by (auto simp: step_agrees_def bao_step_def vault_step_def VDelete bao_Delete_def k run)
qed

lemma bao_run_agrees:
  assumes kv: "documented_kv B secrets authorised" and "can_login B"
    and "backs_vault B secrets m (snd s)"
    and "\<And>op oth. (op, oth) \<in> set ops \<Longrightarrow> quiet_others secrets authorised oth \<and> (\<exists>p. vault_key op = CHR ''/'' # p)"
  shows "fst (bao_run B ops s) = fst (vault_run (map fst ops) m) \<and>
    backs_vault B secrets (snd (vault_run (map fst ops) m)) (snd (snd (bao_run B ops s)))"
  using assms(3,4)
proof (induction ops arbitrary: s m)
  case (Cons x ops)
  obtain op oth where x: "x = (op, oth)" by force
  obtain r s' where st: "bao_step B oth op s = (r, s')" by (rule prod.exhaust)
  obtain r' m' where vs: "vault_step op m = (r', m')" by force
  have "quiet_others secrets authorised oth" "\<exists>p. vault_key op = CHR ''/'' # p"
    using Cons.prems(2) x by auto
  then have "step_agrees B secrets op m (r, s')"
    using bao_step_agrees[OF kv _ Cons.prems(1)] st by metis
  with vs assms(2) have "r = r'" "backs_vault B secrets m' (snd s')" by (simp_all add: step_agrees_def)
  then have "fst (bao_run B ops s') = fst (vault_run (map fst ops) m') \<and>
      backs_vault B secrets (snd (vault_run (map fst ops) m')) (snd (snd (bao_run B ops s')))"
    using Cons.IH[of m' s'] Cons.prems(2) by auto
  with \<open>r = r'\<close> show ?case
    by (simp add: x st vs case_prod_beta)
qed simp

text \<open>
  C25. The OpenBao vault is the memory vault, as its callers see it: any operation answers as the memory
  backend would and leaves the server keeping what the memory backend would keep, also when
  the token had expired and other callers renew it meanwhile; or no login could be had, the
  operation fails (a read not as if the secret were missing), and nothing changed. Where
  logins succeed a whole history of operations is answered alike.
\<close>

theorem openbao_refines:
  assumes "documented_kv B secrets authorised" and "backs_vault B secrets m (snd s)"
    and "\<And>op oth. (op, oth) \<in> set ops \<Longrightarrow> quiet_others secrets authorised oth \<and> (\<exists>p. vault_key op = CHR ''/'' # p)"
  shows "(\<forall>(op, oth) \<in> set ops. step_agrees B secrets op m (bao_step B oth op s)) \<and>
    (can_login B \<longrightarrow> fst (bao_run B ops s) = fst (vault_run (map fst ops) m) \<and>
       backs_vault B secrets (snd (vault_run (map fst ops) m)) (snd (snd (bao_run B ops s))))"
  using bao_step_agrees[OF assms(1) _ assms(2)] bao_run_agrees[OF assms(1) _ assms(2,3)] assms(3) by fast

text \<open>A server for the witness: its secrets, and whether the token is still good.\<close>

type_synonym sample_server = "(string \<Rightarrow> kv_data option) \<times> bool"

definition sample_bao :: "sample_server openbao" where
  "sample_bao = \<lparr>
     kv_Get = (\<lambda>p (f, ok). if ok then (case f p of None \<Rightarrow> Inl SecretNotFound | Some d \<Rightarrow> Inr (Some d), f, ok)
                 else (Inl (ResponseError 403), f, ok)),
     kv_Put = (\<lambda>p d (f, ok). if ok then (Inr (), f(p := Some d), False) else (Inl (ResponseError 403), f, ok)),
     kv_DeleteMetadata = (\<lambda>p (f, ok). if ok then (Inr (), f(p := None), ok) else (Inl (ResponseError 403), f, ok)),
     bao_reauth = Some (\<lambda>(f, ok). (Inr (), f, True)), EncodeToString = (\<lambda>b. b), DecodeString = Some\<rparr>"

lemma sample_bao_documented: "documented_kv sample_bao fst snd" "can_login sample_bao"
  by (auto simp: documented_kv_def sample_bao_def can_login_def)

definition sample_vault_ops :: "vault_op list" where
  "sample_vault_ops = [VWrite ''/tenant/t'' ''k'', VRead ''/tenant/t'', VDelete ''/tenant/t'', VRead ''/tenant/t'']"

theorem openbao_refines_witness:
  "fst (bao_run sample_bao (map (\<lambda>op. (op, \<lambda>s. s)) sample_vault_ops) (0, Map.empty, False)) =
     [Inr None, Inr (Some ''k''), Inr None, Inl (Store ErrKeyNotFound)]"
proof -
  have quiet: "quiet_others fst snd (\<lambda>s :: sample_server bao. s)" by (simp add: quiet_others_def)
  have backs: "backs_vault sample_bao fst [] (snd (0, Map.empty, False))" by (simp add: backs_vault_def)
  let ?ops = "map (\<lambda>op. (op, \<lambda>s :: sample_server bao. s)) sample_vault_ops"
  have slash: "quiet_others fst snd oth \<and> (\<exists>p. vault_key op = CHR ''/'' # p)" if "(op, oth) \<in> set ?ops" for op oth
    using that quiet by (auto simp: sample_vault_ops_def)
  have "fst (bao_run sample_bao ?ops (0, Map.empty, False)) = fst (vault_run (map fst ?ops) [])"
    using openbao_refines[OF sample_bao_documented(1) backs slash] sample_bao_documented(2) by blast
  also have "\<dots> = [Inr None, Inr (Some ''k''), Inr None, Inl (Store ErrKeyNotFound)]"
    by (simp add: sample_vault_ops_def vault_step_def vault_Read_Write vault_Read_Delete comp_def Let_def)
  finally show ?thesis .
qed

subsection \<open>Callers share a login\<close>

text \<open>
  Many callers of one store. A caller reads the counter and runs its operation; refused, it waits
  for the login's mutex and runs \<open>reauthOnce\<close> under it; unless that failed, it runs its operation
  again. The world of a login is the list of those that succeeded.
\<close>

datatype (plugins only: code) phase = Idle | Trying "64 word" | Refused "64 word" | Retrying "64 word"

text \<open>\<open>f_logins\<close> holds the logins that succeeded, the newest first, with the counter each found.\<close>

record flight =
  f_gen :: "64 word"
  f_phase :: "nat \<Rightarrow> phase"
  f_logins :: "(nat \<times> 64 word) list"

definition moved :: "nat \<Rightarrow> phase \<Rightarrow> flight \<Rightarrow> flight" where
  "moved i ph s = s\<lparr>f_phase := (f_phase s)(i := ph)\<rparr>"

inductive flight_step :: "flight \<Rightarrow> flight \<Rightarrow> bool" where
  start: "f_phase s i = Idle \<Longrightarrow> flight_step s (moved i (Trying (f_gen s)) s)"
| served: "f_phase s i = Trying g \<Longrightarrow> flight_step s (moved i Idle s)"
| refused: "f_phase s i = Trying g \<Longrightarrow> flight_step s (moved i (Refused g) s)"
| mutex: "f_phase s i = Refused g \<Longrightarrow>
    reauthOnce (\<lambda>l. (r, case r of Inl _ \<Rightarrow> l | Inr _ \<Rightarrow> (i, g) # l)) g (f_gen s, f_logins s) = (a, gen, ls) \<Longrightarrow>
    flight_step s \<lparr>f_gen = gen, f_phase = (f_phase s)(i := (case a of Inl _ \<Rightarrow> Idle | Inr _ \<Rightarrow> Retrying g)), f_logins = ls\<rparr>"
| retried: "f_phase s i = Retrying g \<Longrightarrow> flight_step s (moved i Idle s)"

definition flight_start :: flight where
  "flight_start = \<lparr>f_gen = 0, f_phase = (\<lambda>_. Idle), f_logins = []\<rparr>"

inductive flight_reachable :: "flight \<Rightarrow> bool" where
  initial: "flight_reachable flight_start"
| step: "flight_reachable s \<Longrightarrow> flight_step s s' \<Longrightarrow> flight_reachable s'"

text \<open>
  The counter is the number of logins, wrapped; the logins found it at 0, 1, and so on; and what
  a caller saw is a value it has had, of a login since for one that retries.
\<close>

fun seen_by :: "flight \<Rightarrow> phase \<Rightarrow> bool" where
  "seen_by s Idle = True"
| "seen_by s (Trying g) = (\<exists>n \<le> length (f_logins s). g = word_of_nat n)"
| "seen_by s (Refused g) = (\<exists>n \<le> length (f_logins s). g = word_of_nat n)"
| "seen_by s (Retrying g) = (\<exists>n < length (f_logins s). g = word_of_nat n)"

definition flight_ok :: "flight \<Rightarrow> bool" where
  "flight_ok s \<longleftrightarrow> f_gen s = word_of_nat (length (f_logins s)) \<and>
     map snd (rev (f_logins s)) = map word_of_nat [0..<length (f_logins s)] \<and>
     (\<forall>i. seen_by s (f_phase s i))"

lemma moved_sel [simp]:
  "f_gen (moved i ph s) = f_gen s" "f_logins (moved i ph s) = f_logins s"
  "f_phase (moved i ph s) = (f_phase s)(i := ph)"
  by (simp_all add: moved_def)

lemma seen_by_mono: "seen_by s ph \<Longrightarrow> length (f_logins s) \<le> length (f_logins s') \<Longrightarrow> seen_by s' ph"
  by (cases ph) (auto intro: order.trans order.strict_trans2)

lemma flight_ok_moved: "flight_ok s \<Longrightarrow> seen_by s ph \<Longrightarrow> flight_ok (moved i ph s)"
  using seen_by_mono[of s _ "moved i ph s"] by (auto simp: flight_ok_def)

lemma flight_ok_step: "flight_step s s' \<Longrightarrow> flight_ok s \<Longrightarrow> flight_ok s'"
proof (induction rule: flight_step.induct)
  case (start s i)
  then show ?case by (intro flight_ok_moved) (auto simp: flight_ok_def)
next
  case (refused s i g)
  then have "seen_by s (Trying g)" by (metis flight_ok_def)
  with refused show ?case by (intro flight_ok_moved) simp_all
next
  case (mutex s i g r a gen ls)
  let ?s' = "\<lparr>f_gen = gen, f_phase = (f_phase s)(i := (case a of Inl _ \<Rightarrow> Idle | Inr _ \<Rightarrow> Retrying g)), f_logins = ls\<rparr>"
  have seen: "seen_by s (f_phase s j)" for j using mutex(3) by (simp add: flight_ok_def)
  have all: "\<forall>j. seen_by ?s' (f_phase ?s' j)"
    if "length (f_logins s) \<le> length ls" "a = Inr () \<Longrightarrow> seen_by ?s' (Retrying g)"
    using that seen_by_mono[OF seen, of ?s'] by (auto split: sum.split)
  show ?case
  proof (cases "f_gen s = g")
    case False
    with mutex(2) have l: "gen = f_gen s" "ls = f_logins s" by (auto simp: reauthOnce_def)
    obtain n where n: "n \<le> length (f_logins s)" "g = word_of_nat n" using seen[of i] mutex(1) by auto
    with False mutex(3) have "n \<noteq> length (f_logins s)" by (metis flight_ok_def)
    with n have "n < length (f_logins s)" by simp
    with n(2) l(2) have "\<forall>j. seen_by ?s' (f_phase ?s' j)" by (intro all) auto
    with l mutex(3) show ?thesis by (simp add: flight_ok_def)
  next
    case True
    show ?thesis
    proof (cases r)
      case (Inl e)
      with mutex(2) True have l: "gen = f_gen s" "ls = f_logins s" "a = Inl e" by (auto simp: reauthOnce_def)
      then have "\<forall>j. seen_by ?s' (f_phase ?s' j)" by (intro all) auto
      with l mutex(3) show ?thesis by (simp add: flight_ok_def)
    next
      case (Inr u)
      with mutex(2) True have l: "gen = f_gen s + 1" "ls = (i, g) # f_logins s" by (auto simp: reauthOnce_def)
      have g: "g = word_of_nat (length (f_logins s))" using True mutex(3) by (simp add: flight_ok_def)
      then have "\<forall>j. seen_by ?s' (f_phase ?s' j)" using l(2) by (intro all) auto
      with l g mutex(3) show ?thesis by (simp add: flight_ok_def)
    qed
  qed
qed (auto intro!: flight_ok_moved)

lemma flight_reachable_ok: "flight_reachable s \<Longrightarrow> flight_ok s"
proof (induction rule: flight_reachable.induct)
  case initial
  show ?case by (simp add: flight_ok_def flight_start_def)
qed (rule flight_ok_step)

lemma distinct_generations:
  assumes "flight_ok s" and "length (f_logins s) \<le> 2 ^ 64"
  shows "distinct (map snd (f_logins s))"
proof -
  have "inj_on (word_of_nat :: nat \<Rightarrow> 64 word) {0..<length (f_logins s)}"
  proof (rule inj_onI)
    fix x y
    assume "x \<in> {0..<length (f_logins s)}" "y \<in> {0..<length (f_logins s)}" and e: "word_of_nat x = (word_of_nat y :: 64 word)"
    then have "x < 2 ^ 64" "y < 2 ^ 64" using assms(2) by auto
    with arg_cong[OF e, of unat] show "x = y" by (simp add: unat_of_nat take_bit_nat_eq_self)
  qed
  then have "distinct (map (word_of_nat :: nat \<Rightarrow> 64 word) [0..<length (f_logins s)])" by (simp add: distinct_map)
  then have "distinct (map snd (rev (f_logins s)))" using assms(1) by (simp only: flight_ok_def)
  then show ?thesis by (metis rev_map distinct_rev)
qed

text \<open>
  C26. A refused token costs one login, however many callers it is refused to: in every
  interleaving, as long as the counter has not wrapped, no two logins that succeeded found it
  at the same value; and a caller that runs its operation again does so after a login that
  found what the caller had seen, so under a token newer than the one refused to it.
\<close>

theorem single_flight:
  assumes "flight_reachable s" and "length (f_logins s) \<le> 2 ^ 64"
  shows "distinct (map snd (f_logins s)) \<and>
    (\<forall>i g. f_phase s i = Retrying g \<longrightarrow> (\<exists>j. (j, g) \<in> set (f_logins s)))"
proof (intro conjI allI impI)
  have ok: "flight_ok s" by (rule flight_reachable_ok[OF assms(1)])
  show "distinct (map snd (f_logins s))" by (rule distinct_generations[OF ok assms(2)])
  fix i g
  assume "f_phase s i = Retrying g"
  then have "seen_by s (Retrying g)" using ok by (metis flight_ok_def)
  then have "g \<in> set (map word_of_nat [0..<length (f_logins s)])" by auto
  then have "g \<in> set (map snd (rev (f_logins s)))" using ok by (simp only: flight_ok_def)
  then show "\<exists>j. (j, g) \<in> set (f_logins s)" by auto
qed

text \<open>Two callers, refused together; the first logs in, the second retries on that login.\<close>

definition sample_flight :: flight where
  "sample_flight = \<lparr>f_gen = 1, f_phase = (\<lambda>_. Idle)(1 := Retrying 0, 2 := Retrying 0), f_logins = [(1, 0)]\<rparr>"

lemma sample_flight_reachable: "flight_reachable sample_flight"
proof -
  let ?s2 = "moved 2 (Trying 0) (moved 1 (Trying 0) flight_start)"
  let ?s4 = "moved 2 (Refused 0) (moved 1 (Refused 0) ?s2)"
  let ?s5 = "\<lparr>f_gen = 1, f_phase = (f_phase ?s4)(1 := Retrying 0), f_logins = [(1, 0)]\<rparr>"
  have "flight_step flight_start (moved 1 (Trying 0) flight_start)"
    using start[of flight_start 1] by (simp add: flight_start_def)
  moreover have "flight_step (moved 1 (Trying 0) flight_start) ?s2"
    using start[of "moved 1 (Trying 0) flight_start" 2] by (simp add: flight_start_def)
  moreover have "flight_step ?s2 (moved 1 (Refused 0) ?s2)" by (rule refused[where g = 0]) simp
  moreover have "flight_step (moved 1 (Refused 0) ?s2) ?s4" by (rule refused[where g = 0]) simp
  moreover have "flight_step ?s4 ?s5"
    using mutex[of ?s4 1 0 "Inr ()" "Inr ()" 1 "[(1, 0)]"] by (simp add: flight_start_def reauthOnce_def)
  moreover have "flight_step ?s5 sample_flight"
    using mutex[of ?s5 2 0 "Inr ()" "Inr ()" 1 "[(1, 0)]"]
    by (simp add: flight_start_def reauthOnce_def sample_flight_def fun_upd_twist[of 2 1])
  ultimately show ?thesis by (metis flight_reachable.intros)
qed

theorem single_flight_witness:
  "f_phase sample_flight 2 = Retrying 0 \<and> distinct (map snd (f_logins sample_flight)) \<and>
     (\<exists>j. (j, 0) \<in> set (f_logins sample_flight))"
proof -
  have n: "length (f_logins sample_flight) \<le> 2 ^ 64" by (simp add: sample_flight_def)
  have ph: "f_phase sample_flight 2 = Retrying 0" by (simp add: sample_flight_def)
  from single_flight[OF sample_flight_reachable n] ph show ?thesis by blast
qed

end
