(* ===== verification/Pg_Tables.thy ===== *)
theory Pg_Tables
  imports Paging Wrap_Keys Principal_Store Policy_Store
begin

text \<open>
  The tables of \<open>pkg/migrations/sql\<close>, and what the postgres backends share: how a statement
  runs, how a transaction does, and \<open>pkg/store/pglock\<close>. A table is the list of its rows in the
  order they were inserted, with the columns and constraints all migrations together leave; a
  column of text is a string, one that may be NULL an option. The
  SQL of the backends is translated statement by statement in the theories above this one.
\<close>

subsection \<open>Tables\<close>

record tenant_row =
  tr_id :: string
  tr_external_id :: "string option"
  tr_status :: string
  tr_created_at :: instant
  tr_updated_at :: instant

record provider_row =
  vr_id :: string
  vr_region :: "string option"
  vr_policy :: "string option"
  vr_created_at :: instant
  vr_updated_at :: instant

record bucket_row =
  br_id :: string
  br_tenant_id :: string
  br_provider_id :: string
  br_name :: "string option"
  br_created_at :: instant

record key_row =
  ar_id :: string
  ar_tenant_id :: string
  ar_name :: string
  ar_buckets :: "string list option"
  ar_permissions :: "string list option"
  ar_principal_id :: "string option"
  ar_expires_at :: "instant option"
  ar_created_at :: instant

record principal_row =
  sr_tenant_id :: string
  sr_external_id :: string
  sr_created_at :: instant
  sr_deleted_at :: "instant option"

record wrap_row =
  xr_tenant_id :: string
  xr_version :: int
  xr_kid :: string
  xr_status :: string
  xr_epoch :: int
  xr_vault_key :: string
  xr_created_at :: instant
  xr_archived_at :: "instant option"

text \<open>A document is stored as JSON: \<open>'j\<close>.\<close>

record 'j policy_row =
  or_bucket_id :: string
  or_document :: 'j
  or_etag :: string
  or_updated_at :: instant

record index_row =
  ir_bucket_id :: string
  ir_tenant_id :: string
  ir_principal_id :: "string option"

record 'j db =
  t_tenant :: "tenant_row list"
  t_provider :: "provider_row list"
  t_bucket :: "bucket_row list"
  t_access_key :: "key_row list"
  t_principal :: "principal_row list"
  t_wrap_key :: "wrap_row list"
  t_bucket_policy :: "'j policy_row list"
  t_policy_index :: "index_row list"

subsection \<open>Statements\<close>

text \<open>
  The codes of \<open>pgerrcode\<close> the backends look at; a foreign key violation carries the name of the
  constraint. \<open>OtherFailure\<close> is any other failure, of the server or of the connection.
\<close>

datatype (plugins only: code size) pg_code =
    UniqueViolation | ForeignKeyViolation string | CheckViolation
  | LockNotAvailable | DeadlockDetected | OtherFailure

text \<open>A statement over the tables: the server refuses it whole, or does it.\<close>

type_synonym ('j, 'a) stmt = "'j db \<Rightarrow> pg_code + 'a \<times> 'j db"

text \<open>
  What else may happen to a statement: the server fails it with a code, having done nothing, or
  does it and the answer is lost.
\<close>

datatype (plugins only: code size) fault = Refuses pg_code | AnswerLost

type_synonym faults = "nat \<Rightarrow> fault option"

abbreviation no_faults :: faults where "no_faults \<equiv> \<lambda>_. None"

text \<open>A statement on the pool commits by itself.\<close>

definition exec :: "fault option \<Rightarrow> ('j, 'a) stmt \<Rightarrow> 'j db \<Rightarrow> (pg_code + 'a) \<times> 'j db" where
  "exec f st db =
     (case f of
        Some (Refuses c) \<Rightarrow> (Inl c, db)
      | Some AnswerLost \<Rightarrow> (Inl OtherFailure, (case st db of Inl c \<Rightarrow> db | Inr (x, db') \<Rightarrow> db'))
      | None \<Rightarrow> (case st db of Inl c \<Rightarrow> (Inl c, db) | Inr (x, db') \<Rightarrow> (Inr x, db')))"

text \<open>A query on the pool.\<close>

definition fetch :: "fault option \<Rightarrow> 'a \<Rightarrow> pg_code + 'a" where
  "fetch f x = (case f of Some (Refuses c) \<Rightarrow> Inl c | Some AnswerLost \<Rightarrow> Inl OtherFailure | None \<Rightarrow> Inr x)"

subsection \<open>Transactions\<close>

text \<open>
  A failure inside a transaction: one of the server's, which \<open>MapError\<close> reads, or the code's own.
\<close>

datatype (plugins only: code size) pg_fail = Server pg_code string | Own err

definition MapError :: "pg_fail \<Rightarrow> err" where
  "MapError f =
     (case f of
        Server LockNotAvailable _ \<Rightarrow> Store ErrLockTimeout
      | Server DeadlockDetected _ \<Rightarrow> Store ErrLockTimeout
      | Server _ wrap \<Rightarrow> Internal wrap
      | Own e \<Rightarrow> e)"

text \<open>
  The body of a transaction works on the tables it sees; whatever fails in it ends it, and what
  it did is rolled back. \<open>run\<close> is a statement of the body, wrapped with what the code says of
  its failure; a lost answer is a lost connection, which ends the transaction too.
\<close>

type_synonym ('j, 'a) body = "'j db \<Rightarrow> pg_fail + 'a \<times> 'j db"

definition run :: "fault option \<Rightarrow> string \<Rightarrow> ('j, 'a) stmt \<Rightarrow> ('j, 'a) body" where
  "run f wrap st db =
     (case f of
        Some (Refuses c) \<Rightarrow> Inl (Server c wrap)
      | Some AnswerLost \<Rightarrow> Inl (Server OtherFailure wrap)
      | None \<Rightarrow> (case st db of Inl c \<Rightarrow> Inl (Server c wrap) | Inr r \<Rightarrow> Inr r))"

definition thn :: "pg_fail + 'a \<times> 'j db \<Rightarrow> ('a \<Rightarrow> ('j, 'b) body) \<Rightarrow> pg_fail + 'b \<times> 'j db" where
  "thn r k = (case r of Inl e \<Rightarrow> Inl e | Inr (x, db) \<Rightarrow> k x db)"

lemma thn_simps [simp]: "thn (Inl e) k = Inl e" "thn (Inr (x, db)) k = k x db"
  by (simp_all add: thn_def)

text \<open>
  An advisory lock or a row lock that is had in time changes no table: waiting too long is a
  refusal with \<open>LockNotAvailable\<close>.
\<close>

definition lockStmt :: "('j, unit) stmt" where "lockStmt db = Inr ((), db)"

text \<open>
  \<open>Begin\<close> is the first statement of the call, \<open>SetTimeout\<close> the second, \<open>Commit\<close> the third; the
  statements of the body follow. Inside an enclosing transaction \<open>Begin\<close> is a savepoint, and the
  tables are those that transaction sees.
\<close>

definition Begin :: "fault option \<Rightarrow> ('j, unit) body" where
  "Begin f = run f ''beginning transaction'' lockStmt"

lemma Begin_None [simp]: "Begin None db = Inr ((), db)"
  by (simp add: Begin_def run_def lockStmt_def)

definition transaction :: "faults \<Rightarrow> ('j, 'a) body \<Rightarrow> 'j db \<Rightarrow> (err + 'a) \<times> 'j db" where
  "transaction F body db =
     (case thn (Begin (F 0) db) (\<lambda>_. body) of
        Inl f \<Rightarrow> (Inl (MapError f), db)
      | Inr (x, db') \<Rightarrow>
          (case F 2 of
             Some (Refuses c) \<Rightarrow> (Inl (MapError (Server c ''committing transaction'')), db)
           | Some AnswerLost \<Rightarrow> (Inl (Internal ''committing transaction''), db')
           | None \<Rightarrow> (Inr x, db')))"

definition SetTimeout :: "faults \<Rightarrow> ('j, unit) body" where
  "SetTimeout F = run (F 1) ''setting lock timeout'' (\<lambda>db. Inr ((), db))"

definition Advisory :: "fault option \<Rightarrow> ('j, unit) body" where
  "Advisory f = run f ''taking advisory lock'' lockStmt"

text \<open>A read inside a transaction.\<close>

definition query :: "('j db \<Rightarrow> 'a) \<Rightarrow> ('j, 'a) stmt" where
  "query q db = Inr (q db, db)"

text \<open>\<open>pglock.Found\<close>: no row, or a row that does not scan, or a record.\<close>

definition Found :: "string \<Rightarrow> pg_code + (err + 'a) option \<Rightarrow> pg_fail + 'a" where
  "Found recordType r =
     (case r of
        Inl c \<Rightarrow> Inl (Server c (''getting '' @ recordType))
      | Inr None \<Rightarrow> Inl (Own (Store ErrRecordNotFound))
      | Inr (Some (Inl e)) \<Rightarrow> Inl (Own e)
      | Inr (Some (Inr x)) \<Rightarrow> Inr x)"

subsection \<open>Columns\<close>

text \<open>
  \<open>did.Parse\<close> is a parameter; a DID the program can hold is the undefined one or one it parses.
\<close>

definition real :: "(string \<Rightarrow> did option) \<Rightarrow> did \<Rightarrow> bool" where
  "real parse d \<longleftrightarrow> parse (did_string d) = Some d"

definition scanDid :: "(string \<Rightarrow> did option) \<Rightarrow> string \<Rightarrow> string \<Rightarrow> err + did" where
  "scanDid parse what s = (case parse s of None \<Rightarrow> Inl (Internal what) | Some d \<Rightarrow> Inr d)"

text \<open>A time is stored to the microsecond; \<open>pgx\<close> drops the rest.\<close>

definition micros :: "instant \<Rightarrow> instant" where "micros t = t div 1000 * 1000"

lemma micros_idem [simp]: "micros (micros t) = micros t"
  by (simp add: micros_def)

text \<open>
  \<open>collate\<close> is the order of the database's default collation, by a sort key; a deterministic
  collation tells any two texts apart.
\<close>

type_synonym collation = "string \<Rightarrow> string"

definition did_law :: "(string \<Rightarrow> did option) \<Rightarrow> bool" where
  "did_law parse \<longleftrightarrow> parse [] = None"

lemma real_defined: "did_law parse \<Longrightarrow> real parse d \<Longrightarrow> d \<noteq> Undef \<and> d \<noteq> Did [] \<and> did_string d \<noteq> []"
  by (cases d) (auto simp: real_def did_law_def)

lemma real_inject: "real parse d \<Longrightarrow> real parse e \<Longrightarrow> did_string d = did_string e \<Longrightarrow> d = e"
  by (simp add: real_def)

lemma scanDid_real [simp]: "real parse d \<Longrightarrow> scanDid parse what (did_string d) = Inr d"
  by (simp add: scanDid_def real_def)

subsection \<open>Rows and maps\<close>

text \<open>
  The table of a Go map: a row for each record. What a statement does to the rows is what the
  map's operation does to the map.
\<close>

definition table_of :: "('r \<Rightarrow> 'row) \<Rightarrow> ('k, 'r) gomap \<Rightarrow> 'row list" where
  "table_of row m = map (row \<circ> snd) m"

lemma table_of_Nil [simp]: "table_of row [] = []"
  by (simp add: table_of_def)

lemma update_fresh: "map_of m k = None \<Longrightarrow> AList.update k r m = m @ [(k, r)]"
  by (induction m) (auto split: if_splits)

lemma table_of_insert: "map_of m k = None \<Longrightarrow> table_of row (AList.update k r m) = table_of row m @ [row r]"
  by (simp add: table_of_def update_fresh)

text \<open>\<open>picks P row k m\<close>: of the map's rows, the test picks the one under the key.\<close>

definition picks :: "('row \<Rightarrow> bool) \<Rightarrow> ('r \<Rightarrow> 'row) \<Rightarrow> 'k \<Rightarrow> ('k, 'r) gomap \<Rightarrow> bool" where
  "picks P row k m \<longleftrightarrow> (\<forall>(k', r) \<in> set m. P (row r) \<longleftrightarrow> k' = k)"

lemma picksI: "(\<And>k' r. (k', r) \<in> set m \<Longrightarrow> P (row r) \<longleftrightarrow> k' = k) \<Longrightarrow> picks P row k m"
  by (auto simp: picks_def)

lemma table_find: "picks P row k m \<Longrightarrow> List.find P (table_of row m) = map_option row (map_of m k)"
  by (induction m) (auto simp: table_of_def picks_def)

lemma table_ex: "picks P row k m \<Longrightarrow> list_ex P (table_of row m) \<longleftrightarrow> map_of m k \<noteq> None"
  by (induction m) (auto simp: table_of_def picks_def)

lemma table_update:
  assumes "picks P row k m" and "wf_gomap m" and "map_of m k = Some r" and "row r' = f (row r)"
  shows "map (\<lambda>x. if P x then f x else x) (table_of row m) = table_of row (AList.update k r' m)"
  using assms
proof (induction m)
  case (Cons x m)
  obtain k1 r1 where x: "x = (k1, r1)" by force
  have p: "P (row r1) \<longleftrightarrow> k1 = k" "picks P row k m" using Cons.prems(1) by (simp_all add: picks_def x)
  show ?case
  proof (cases "k1 = k")
    case True
    with Cons.prems(2) x have "\<forall>(k2, r2) \<in> set m. k2 \<noteq> k" by (force simp: wf_gomap_def)
    with p(2) have "map (\<lambda>x. if P x then f x else x) (table_of row m) = table_of row m"
      by (auto simp: table_of_def picks_def)
    then show ?thesis using p(1) Cons.prems(3,4) x True by (simp add: table_of_def)
  next
    case False
    have "map (\<lambda>x. if P x then f x else x) (table_of row m) = table_of row (AList.update k r' m)"
      using Cons.prems p x False by (intro Cons.IH) (auto simp: wf_gomap_def)
    then show ?thesis using p(1) x False by (simp add: table_of_def)
  qed
qed simp

lemma table_filter:
  "\<forall>(k, r) \<in> set m. P (row r) = Q k \<Longrightarrow> filter P (table_of row m) = table_of row (filter (\<lambda>(k, _). Q k) m)"
  by (induction m) (auto simp: table_of_def)

lemma table_delete:
  assumes "picks P row k m"
  shows "filter (\<lambda>x. \<not> P x) (table_of row m) = table_of row (AList.delete k m)"
proof -
  have "filter (\<lambda>x. \<not> P x) (table_of row m) = table_of row (filter (\<lambda>(k', _). k' \<noteq> k) m)"
    using assms by (intro table_filter) (auto simp: picks_def)
  also have "filter (\<lambda>(k', _). k' \<noteq> k) m = AList.delete k m"
    unfolding AList.delete_eq by (rule filter_cong) auto
  finally show ?thesis .
qed

text \<open>The first row that passes a test, and the map's first record that does.\<close>

lemma table_first:
  "\<forall>(k, r) \<in> set m. P (row r) = Q r \<Longrightarrow>
   List.find P (table_of row m) = (case findRecord Q m of Inl _ \<Rightarrow> None | Inr r \<Rightarrow> Some (row r))"
  by (induction m) (auto simp: table_of_def)

lemma set_table: "x \<in> set (table_of row m) \<longleftrightarrow> (\<exists>k r. (k, r) \<in> set m \<and> x = row r)"
  by (force simp: table_of_def)

lemma ex_table: "list_ex P (table_of row m) \<longleftrightarrow> list_ex (\<lambda>p. P (row (snd p))) m"
  by (simp add: table_of_def list_ex_iff)

end
