(* ===== verification/Pg_Stores.thy ===== *)
theory Pg_Stores
  imports Pg_Tables
begin

text \<open>
  The postgres backends of the tenant, provider, bucket, access key and wrap key stores, and of
  what the principal store does without a callback. Every method is its Go code with each SQL
  statement as a function of the tables: the checks of the schema in the order the server
  makes them (CHECK, then the unique indexes, then the foreign keys), and what it changes.
\<close>

subsection \<open>Reading rows\<close>

text \<open>\<open>QueryRow\<close> and \<open>Scan\<close>: the first row, or \<open>pgx.ErrNoRows\<close>.\<close>

definition queryRow :: "fault option \<Rightarrow> string \<Rightarrow> ('row \<Rightarrow> err + 'a) \<Rightarrow> 'row option \<Rightarrow> err + 'a" where
  "queryRow f wrap scan r =
     (case fetch f r of
        Inl c \<Rightarrow> Inl (Internal wrap)
      | Inr None \<Rightarrow> Inl (Store ErrRecordNotFound)
      | Inr (Some row) \<Rightarrow> scan row)"

text \<open>The loop over \<open>rows.Next\<close>.\<close>

fun scanAll :: "('row \<Rightarrow> err + 'a) \<Rightarrow> 'row list \<Rightarrow> err + 'a list" where
  "scanAll scan [] = Inr []"
| "scanAll scan (r # rs) = on_ok (scan r) (\<lambda>x. on_ok (scanAll scan rs) (\<lambda>xs. Inr (x # xs)))"

definition queryAll :: "fault option \<Rightarrow> string \<Rightarrow> ('row \<Rightarrow> err + 'a) \<Rightarrow> 'row list \<Rightarrow> err + 'a list" where
  "queryAll f wrap scan rs = (case fetch f rs of Inl c \<Rightarrow> Inl (Internal wrap) | Inr rs \<Rightarrow> scanAll scan rs)"

subsection \<open>Tenants\<close>

fun status_text :: "status \<Rightarrow> string" where
  "status_text Active = ''active''"
| "status_text WriteLocked = ''write-locked''"
| "status_text Disabled = ''disabled''"
| "status_text (OtherStatus s) = s"

definition text_status :: "string \<Rightarrow> status" where
  "text_status s = (if s = ''active'' then Active else if s = ''write-locked'' then WriteLocked
     else if s = ''disabled'' then Disabled else OtherStatus s)"

definition statusValid :: "string \<Rightarrow> bool" where
  "statusValid s \<longleftrightarrow> s \<in> {''active'', ''write-locked'', ''disabled''}"

definition scanTenant :: "(string \<Rightarrow> did option) \<Rightarrow> tenant_row \<Rightarrow> err + tenant" where
  "scanTenant parse r = on_ok (scanDid parse ''parsing tenant DID'' (tr_id r)) (\<lambda>ident.
     Inr \<lparr>t_ID = ident, t_ExternalID = (case tr_external_id r of None \<Rightarrow> [] | Some x \<Rightarrow> x),
          t_Status = text_status (tr_status r), t_CreatedAt = tr_created_at r, t_UpdatedAt = tr_updated_at r\<rparr>)"

definition insertTenant :: "instant \<Rightarrow> string \<Rightarrow> string \<Rightarrow> string \<Rightarrow> ('j, unit) stmt" where
  "insertTenant now i ext st db =
     (if \<not> statusValid st then Inl CheckViolation
      else if list_ex (\<lambda>r. tr_id r = i \<or> tr_external_id r = Some ext) (t_tenant db) then Inl UniqueViolation
      else Inr ((), db\<lparr>t_tenant := t_tenant db @ [\<lparr>tr_id = i, tr_external_id = Some ext, tr_status = st,
             tr_created_at = now, tr_updated_at = now\<rparr>]\<rparr>))"

definition pg_tenant_Add :: "fault option \<Rightarrow> instant \<Rightarrow> did \<Rightarrow> string \<Rightarrow> status \<Rightarrow> 'j db \<Rightarrow> (err + unit) \<times> 'j db" where
  "pg_tenant_Add f now ident externalID status db =
     (if ident = Undef then (Inl (Store ErrInvalidArgument), db)
      else if \<not> valid_status status then (Inl (Store ErrInvalidArgument), db)
      else (case exec f (insertTenant now (did_string ident) externalID (status_text status)) db of
              (Inl c, db') \<Rightarrow> (Inl (if c = UniqueViolation then Store ErrRecordExists else Internal ''adding tenant''), db')
            | (Inr _, db') \<Rightarrow> (Inr (), db')))"

definition pg_tenant_Get :: "fault option \<Rightarrow> (string \<Rightarrow> did option) \<Rightarrow> 'j db \<Rightarrow> did \<Rightarrow> err + tenant" where
  "pg_tenant_Get f parse db ident =
     queryRow f ''getting tenant'' (scanTenant parse) (List.find (\<lambda>r. tr_id r = did_string ident) (t_tenant db))"

definition pg_tenant_GetByExternalID :: "fault option \<Rightarrow> (string \<Rightarrow> did option) \<Rightarrow> 'j db \<Rightarrow> string \<Rightarrow> err + tenant" where
  "pg_tenant_GetByExternalID f parse db externalID =
     queryRow f ''getting tenant by external id'' (scanTenant parse)
       (List.find (\<lambda>r. tr_external_id r = Some externalID) (t_tenant db))"

text \<open>An update answers how many rows it changed.\<close>

definition updateTenant :: "instant \<Rightarrow> string \<Rightarrow> string \<Rightarrow> ('j, nat) stmt" where
  "updateTenant now i st db =
     (if list_ex (\<lambda>r. tr_id r = i) (t_tenant db) \<and> \<not> statusValid st then Inl CheckViolation
      else Inr (length (filter (\<lambda>r. tr_id r = i) (t_tenant db)),
             db\<lparr>t_tenant := map (\<lambda>r. if tr_id r = i then r\<lparr>tr_status := st, tr_updated_at := now\<rparr> else r) (t_tenant db)\<rparr>))"

definition pg_tenant_SetStatus :: "fault option \<Rightarrow> instant \<Rightarrow> did \<Rightarrow> status \<Rightarrow> 'j db \<Rightarrow> (err + unit) \<times> 'j db" where
  "pg_tenant_SetStatus f now ident status db =
     (if \<not> valid_status status then (Inl (Store ErrInvalidArgument), db)
      else (case exec f (updateTenant now (did_string ident) (status_text status)) db of
              (Inl c, db') \<Rightarrow> (Inl (Internal ''setting tenant status''), db')
            | (Inr n, db') \<Rightarrow> (if n = 0 then Inl (Store ErrRecordNotFound) else Inr (), db')))"

text \<open>The keys that refer to a tenant, all \<open>ON DELETE RESTRICT\<close>.\<close>

definition deleteTenant :: "string \<Rightarrow> ('j, unit) stmt" where
  "deleteTenant i db =
     (if list_ex (\<lambda>r. tr_id r = i) (t_tenant db) \<and>
         (list_ex (\<lambda>r. br_tenant_id r = i) (t_bucket db) \<or> list_ex (\<lambda>r. ar_tenant_id r = i) (t_access_key db) \<or>
          list_ex (\<lambda>r. sr_tenant_id r = i) (t_principal db))
      then Inl (ForeignKeyViolation ''tenant'')
      else Inr ((), db\<lparr>t_tenant := filter (\<lambda>r. tr_id r \<noteq> i) (t_tenant db)\<rparr>))"

definition pg_tenant_Delete :: "fault option \<Rightarrow> did \<Rightarrow> 'j db \<Rightarrow> (err + unit) \<times> 'j db" where
  "pg_tenant_Delete f ident db =
     (case exec f (deleteTenant (did_string ident)) db of
        (Inl c, db') \<Rightarrow> (Inl (Internal ''deleting tenant''), db')
      | (Inr _, db') \<Rightarrow> (Inr (), db'))"

subsection \<open>Providers\<close>

definition scanProvider :: "(string \<Rightarrow> did option) \<Rightarrow> provider_row \<Rightarrow> err + provider" where
  "scanProvider parse r = on_ok (scanDid parse ''parsing provider DID'' (vr_id r)) (\<lambda>ident.
     on_ok (case vr_policy r of None \<Rightarrow> Inr None
            | Some s \<Rightarrow> on_ok (scanDid parse ''parsing provider policy DID'' s) (\<lambda>d. Inr (Some d))) (\<lambda>policy.
     Inr \<lparr>pr_ID = ident, pr_Region = (case vr_region r of None \<Rightarrow> [] | Some x \<Rightarrow> x), pr_Policy = policy,
          pr_CreatedAt = vr_created_at r, pr_UpdatedAt = vr_updated_at r\<rparr>))"

definition insertProvider :: "instant \<Rightarrow> string \<Rightarrow> string \<Rightarrow> string option \<Rightarrow> ('j, unit) stmt" where
  "insertProvider now i region policy db =
     (if list_ex (\<lambda>r. vr_id r = i \<or> vr_region r = Some region) (t_provider db) then Inl UniqueViolation
      else Inr ((), db\<lparr>t_provider := t_provider db @ [\<lparr>vr_id = i, vr_region = Some region, vr_policy = policy,
             vr_created_at = now, vr_updated_at = now\<rparr>]\<rparr>))"

definition pg_provider_Add ::
  "fault option \<Rightarrow> instant \<Rightarrow> did \<Rightarrow> string \<Rightarrow> did option \<Rightarrow> 'j db \<Rightarrow> (err + unit) \<times> 'j db" where
  "pg_provider_Add f now ident region policy db =
     (if ident = Undef then (Inl (Store ErrInvalidArgument), db)
      else if region = [] then (Inl (Store ErrInvalidArgument), db)
      else if policy = Some Undef then (Inl (Store ErrInvalidArgument), db)
      else (case exec f (insertProvider now (did_string ident) region (map_option did_string policy)) db of
              (Inl c, db') \<Rightarrow> (Inl (if c = UniqueViolation then Store ErrRecordExists else Internal ''adding provider''), db')
            | (Inr _, db') \<Rightarrow> (Inr (), db')))"

definition pg_provider_Get :: "fault option \<Rightarrow> (string \<Rightarrow> did option) \<Rightarrow> 'j db \<Rightarrow> did \<Rightarrow> err + provider" where
  "pg_provider_Get f parse db ident =
     queryRow f ''getting provider'' (scanProvider parse) (List.find (\<lambda>r. vr_id r = did_string ident) (t_provider db))"

definition pg_provider_GetByRegion :: "fault option \<Rightarrow> (string \<Rightarrow> did option) \<Rightarrow> 'j db \<Rightarrow> string \<Rightarrow> err + provider" where
  "pg_provider_GetByRegion f parse db region =
     queryRow f ''getting provider by region'' (scanProvider parse)
       (List.find (\<lambda>r. vr_region r = Some region) (t_provider db))"

definition updateProvider :: "instant \<Rightarrow> string \<Rightarrow> string \<Rightarrow> ('j, nat) stmt" where
  "updateProvider now i policy db =
     Inr (length (filter (\<lambda>r. vr_id r = i) (t_provider db)),
       db\<lparr>t_provider := map (\<lambda>r. if vr_id r = i then r\<lparr>vr_policy := Some policy, vr_updated_at := now\<rparr> else r) (t_provider db)\<rparr>)"

definition pg_provider_SetPolicy :: "fault option \<Rightarrow> instant \<Rightarrow> did \<Rightarrow> did \<Rightarrow> 'j db \<Rightarrow> (err + unit) \<times> 'j db" where
  "pg_provider_SetPolicy f now ident policy db =
     (if policy = Undef then (Inl (Store ErrInvalidArgument), db)
      else (case exec f (updateProvider now (did_string ident) (did_string policy)) db of
              (Inl c, db') \<Rightarrow> (Inl (Internal ''setting provider policy''), db')
            | (Inr n, db') \<Rightarrow> (if n = 0 then Inl (Store ErrRecordNotFound) else Inr (), db')))"

text \<open>\<open>COLLATE "C"\<close> is the order of the bytes.\<close>

definition pg_provider_List :: "fault option \<Rightarrow> (string \<Rightarrow> did option) \<Rightarrow> 'j db \<Rightarrow> err + provider list" where
  "pg_provider_List f parse db =
     queryAll f ''listing providers'' (scanProvider parse) (sort_key vr_id (t_provider db))"

subsection \<open>Buckets\<close>

text \<open>
  The columns other than the id are scanned as nullable; an empty or NULL owner is the undefined
  DID.
\<close>

definition scanOwner :: "(string \<Rightarrow> did option) \<Rightarrow> string \<Rightarrow> string \<Rightarrow> err + did" where
  "scanOwner parse what s = (if s = [] then Inr Undef else scanDid parse what s)"

definition scanBucket :: "(string \<Rightarrow> did option) \<Rightarrow> bucket_row \<Rightarrow> err + bucket" where
  "scanBucket parse r = on_ok (scanDid parse ''parsing bucket DID'' (br_id r)) (\<lambda>ident.
     on_ok (scanOwner parse ''parsing tenant DID'' (br_tenant_id r)) (\<lambda>ten.
     on_ok (scanOwner parse ''parsing provider DID'' (br_provider_id r)) (\<lambda>prov.
     Inr \<lparr>b_ID = ident, b_Tenant = ten, b_Provider = prov,
          b_Name = (case br_name r of None \<Rightarrow> [] | Some x \<Rightarrow> x), b_CreatedAt = br_created_at r\<rparr>)))"

text \<open>
  The schema checks a name as \<open>bucket.ValidateName\<close> does; \<open>(id, tenant_id)\<close> is unique where \<open>id\<close>
  is.
\<close>

definition insertBucket :: "instant \<Rightarrow> string \<Rightarrow> string \<Rightarrow> string \<Rightarrow> string \<Rightarrow> ('j, unit) stmt" where
  "insertBucket now i ten prov nm db =
     (if ValidateName nm \<noteq> Inr () then Inl CheckViolation
      else if list_ex (\<lambda>r. br_id r = i \<or> br_name r = Some nm) (t_bucket db) then Inl UniqueViolation
      else if \<not> list_ex (\<lambda>r. tr_id r = ten) (t_tenant db) then Inl (ForeignKeyViolation ''bucket_tenant_id_fkey'')
      else if \<not> list_ex (\<lambda>r. vr_id r = prov) (t_provider db) then Inl (ForeignKeyViolation ''bucket_provider_id_fkey'')
      else Inr ((), db\<lparr>t_bucket := t_bucket db @ [\<lparr>br_id = i, br_tenant_id = ten, br_provider_id = prov,
             br_name = Some nm, br_created_at = now\<rparr>]\<rparr>))"

definition pg_bucket_Add ::
  "fault option \<Rightarrow> instant \<Rightarrow> did \<Rightarrow> did \<Rightarrow> did \<Rightarrow> string \<Rightarrow> 'j db \<Rightarrow> (err + unit) \<times> 'j db" where
  "pg_bucket_Add f now ident ten prov nm db =
     (if ident = Undef then (Inl (Store ErrInvalidArgument), db)
      else if ten = Undef then (Inl (Store ErrInvalidArgument), db)
      else if prov = Undef then (Inl (Store ErrInvalidArgument), db)
      else (case ValidateName nm of
              Inl e \<Rightarrow> (Inl e, db)
            | Inr _ \<Rightarrow>
                (case exec f (insertBucket now (did_string ident) (did_string ten) (did_string prov) nm) db of
                   (Inl c, db') \<Rightarrow> (Inl (if c = UniqueViolation then Store ErrRecordExists else Internal ''adding bucket''), db')
                 | (Inr _, db') \<Rightarrow> (Inr (), db'))))"

definition pg_bucket_GetByName :: "fault option \<Rightarrow> (string \<Rightarrow> did option) \<Rightarrow> 'j db \<Rightarrow> string \<Rightarrow> err + bucket" where
  "pg_bucket_GetByName f parse db nm =
     queryRow f ''getting bucket by name'' (scanBucket parse) (List.find (\<lambda>r. br_name r = Some nm) (t_bucket db))"

text \<open>
  The WHERE clause of the listing, its filters as the code appends them, and its ORDER BY under
  the default collation, a NULL name last.
\<close>

definition bucketWhere :: "collation \<Rightarrow> did \<times> bucket_query \<Rightarrow> string option \<Rightarrow> bucket_row \<Rightarrow> bool" where
  "bucketWhere collate tq cursor r =
     (let (ten, q) = tq in
      br_tenant_id r = did_string ten \<and>
      (length (q_IDs q) > 0 \<longrightarrow> br_id r \<in> set (map did_string (q_IDs q))) \<and>
      (length (q_Names q) > 0 \<longrightarrow> (case br_name r of None \<Rightarrow> False | Some n \<Rightarrow> n \<in> set (q_Names q))) \<and>
      (q_Prefix q \<noteq> [] \<longrightarrow> (case br_name r of None \<Rightarrow> False | Some n \<Rightarrow> prefix (q_Prefix q) n)) \<and>
      (defined (q_Provider q) \<longrightarrow> br_provider_id r = did_string (q_Provider q)) \<and>
      (case cursor of None \<Rightarrow> True
       | Some c \<Rightarrow> (case br_name r of None \<Rightarrow> False | Some n \<Rightarrow> collate c < collate n)))"

definition nameOrder :: "collation \<Rightarrow> bucket_row \<Rightarrow> bool \<times> string" where
  "nameOrder collate r = (case br_name r of None \<Rightarrow> (True, []) | Some n \<Rightarrow> (False, collate n))"

definition pg_bucket_ListByTenant ::
  "fault option \<Rightarrow> (string \<Rightarrow> did option) \<Rightarrow> collation \<Rightarrow> 'j db \<Rightarrow> did \<times> bucket_query \<Rightarrow> string option \<Rightarrow> err + bucket page" where
  "pg_bucket_ListByTenant f parse collate db tq cursor =
     (let (ten, q) = tq in
      if length (q_IDs q) > 0 \<and> length (q_Names q) > 0 then Inl (Store ErrConflictingFilters)
      else
        (let lim = (case q_Limit q of None \<Rightarrow> defaultListLimit | Some n \<Rightarrow> if n > 0 then n else defaultListLimit)
         in on_ok (queryAll f ''listing buckets by tenant'' (scanBucket parse)
                (take (nat (lim + 1)) (sort_key (nameOrder collate) (filter (bucketWhere collate tq cursor) (t_bucket db)))))
              (\<lambda>recs. Inr (if int (length recs) > lim
                 then \<lparr>Cursor = Some (b_Name (recs ! nat (lim - 1))), Results = take (nat lim) recs\<rparr>
                 else \<lparr>Cursor = None, Results = recs\<rparr>))))"

text \<open>A bucket's policy and its index rows go with it, by cascade.\<close>

definition deleteBucket :: "string \<Rightarrow> ('j, unit) stmt" where
  "deleteBucket i db = Inr ((), db\<lparr>t_bucket := filter (\<lambda>r. br_id r \<noteq> i) (t_bucket db),
     t_bucket_policy := filter (\<lambda>r. or_bucket_id r \<noteq> i) (t_bucket_policy db),
     t_policy_index := filter (\<lambda>r. ir_bucket_id r \<noteq> i) (t_policy_index db)\<rparr>)"

text \<open>This transaction bounds no wait, and its errors are not read by \<open>MapError\<close>.\<close>

definition pg_bucket_Delete :: "faults \<Rightarrow> did \<Rightarrow> 'j db \<Rightarrow> (err + unit) \<times> 'j db" where
  "pg_bucket_Delete F ident db =
     (if F 0 \<noteq> None then (Inl (Internal ''beginning transaction''), db)
      else
        (case run (F 1) ''deleting bucket'' (deleteBucket (did_string ident)) db of
           Inl f \<Rightarrow> (Inl (Internal ''deleting bucket''), db)
         | Inr (_, db') \<Rightarrow>
             (case F 2 of
                Some (Refuses c) \<Rightarrow> (Inl (Internal ''committing transaction''), db)
              | Some AnswerLost \<Rightarrow> (Inl (Internal ''committing transaction''), db')
              | None \<Rightarrow> (Inr (), db'))))"

subsection \<open>Access keys\<close>

fun scanDids :: "(string \<Rightarrow> did option) \<Rightarrow> string list \<Rightarrow> err + did list" where
  "scanDids parse [] = Inr []"
| "scanDids parse (s # ss) =
     on_ok (scanDid parse ''parsing bucket DID'' s) (\<lambda>d. on_ok (scanDids parse ss) (\<lambda>ds. Inr (d # ds)))"

text \<open>A NULL list scans as the nil slice.\<close>

definition scanKey :: "(string \<Rightarrow> did option) \<Rightarrow> key_row \<Rightarrow> err + access_key" where
  "scanKey parse r = on_ok (scanDid parse ''parsing access key DID'' (ar_id r)) (\<lambda>ident.
     on_ok (scanDid parse ''parsing tenant DID'' (ar_tenant_id r)) (\<lambda>ten.
     on_ok (scanDids parse (case ar_buckets r of None \<Rightarrow> [] | Some bs \<Rightarrow> bs)) (\<lambda>bs.
     Inr \<lparr>k_ID = ident, k_Tenant = ten, k_Name = ar_name r, k_Buckets = bs,
          k_Permissions = (case ar_permissions r of None \<Rightarrow> [] | Some ps \<Rightarrow> ps), k_Principal = ar_principal_id r,
          k_CreatedAt = ar_created_at r, k_ExpiresAt = ar_expires_at r\<rparr>)))"

text \<open>The CHECK that tells the two kinds of key apart, and the two partial unique indexes.\<close>

definition unscoped :: "key_row \<Rightarrow> bool" where
  "unscoped r \<longleftrightarrow> ar_principal_id r = None \<and> ar_permissions r \<noteq> None \<or>
     ar_principal_id r \<noteq> None \<and> ar_permissions r = None \<and> ar_buckets r = None"

definition key_clash :: "key_row \<Rightarrow> key_row \<Rightarrow> bool" where
  "key_clash r q \<longleftrightarrow> ar_id q = ar_id r \<or>
     ar_principal_id r = None \<and> ar_principal_id q = None \<and> ar_tenant_id q = ar_tenant_id r \<and> ar_name q = ar_name r \<or>
     ar_principal_id r \<noteq> None \<and> ar_principal_id q = ar_principal_id r \<and> ar_tenant_id q = ar_tenant_id r \<and> ar_name q = ar_name r"

definition insertKey :: "key_row \<Rightarrow> ('j, unit) stmt" where
  "insertKey r db =
     (if \<not> unscoped r then Inl CheckViolation
      else if list_ex (key_clash r) (t_access_key db) then Inl UniqueViolation
      else if \<not> list_ex (\<lambda>q. tr_id q = ar_tenant_id r) (t_tenant db)
      then Inl (ForeignKeyViolation ''access_key_tenant_id_fkey'')
      else if ar_principal_id r \<noteq> None \<and>
        \<not> list_ex (\<lambda>q. sr_tenant_id q = ar_tenant_id r \<and> Some (sr_external_id q) = ar_principal_id r) (t_principal db)
      then Inl (ForeignKeyViolation ''access_key_principal_fkey'')
      else Inr ((), db\<lparr>t_access_key := t_access_key db @ [r]\<rparr>))"

text \<open>The share-locked check that the principal a key is bound to is live.\<close>

definition findPrincipal :: "string \<Rightarrow> string \<Rightarrow> 'j db \<Rightarrow> principal_row option" where
  "findPrincipal ten x db = List.find (\<lambda>r. sr_tenant_id r = ten \<and> sr_external_id r = x) (t_principal db)"

definition checkPrincipal :: "fault option \<Rightarrow> string \<Rightarrow> string option \<Rightarrow> ('j, unit) body" where
  "checkPrincipal f ten p db =
     (case p of
        None \<Rightarrow> Inr ((), db)
      | Some x \<Rightarrow>
          thn (run f ''checking principal'' (query (findPrincipal ten x)) db) (\<lambda>row db.
            case row of
              None \<Rightarrow> Inl (Own (Store ErrInvalidArgument))
            | Some r \<Rightarrow> if sr_deleted_at r \<noteq> None then Inl (Own (Store ErrInvalidArgument)) else Inr ((), db)))"

definition key_row_of :: "instant \<Rightarrow> key_input \<Rightarrow> key_row" where
  "key_row_of now i =
     \<lparr>ar_id = did_string (in_ID i), ar_tenant_id = did_string (in_Tenant i), ar_name = in_Name i,
      ar_buckets = (if in_Principal i = None then Some (map did_string (in_Buckets i)) else None),
      ar_permissions = (if in_Principal i = None then Some (in_Permissions i) else None),
      ar_principal_id = in_Principal i, ar_expires_at = map_option micros (in_ExpiresAt i), ar_created_at = now\<rparr>"

text \<open>What the code makes of the insert's failure, before \<open>MapError\<close>.\<close>

definition keyFailure :: "pg_fail \<Rightarrow> pg_fail" where
  "keyFailure f =
     (case f of
        Server UniqueViolation _ \<Rightarrow> Own (Store ErrRecordExists)
      | Server (ForeignKeyViolation _) _ \<Rightarrow> Own (Store ErrInvalidArgument)
      | Server CheckViolation _ \<Rightarrow> Own (Store ErrInvalidArgument)
      | _ \<Rightarrow> f)"

definition pg_key_Add :: "faults \<Rightarrow> instant \<Rightarrow> key_input \<Rightarrow> 'j db \<Rightarrow> (err + unit) \<times> 'j db" where
  "pg_key_Add F now i db =
     (case key_Validate i of
        Inl e \<Rightarrow> (Inl e, db)
      | Inr _ \<Rightarrow>
          transaction F (\<lambda>db.
            thn (SetTimeout F db) (\<lambda>_ db.
            thn (checkPrincipal (F 3) (did_string (in_Tenant i)) (in_Principal i) db) (\<lambda>_ db.
            case run (F 4) ''adding access key'' (insertKey (key_row_of now i)) db of
              Inl f \<Rightarrow> Inl (keyFailure f)
            | Inr r \<Rightarrow> Inr r))) db)"

text \<open>A share-locked read is rolled back: it commits nothing.\<close>

definition findKey :: "string \<Rightarrow> 'j db \<Rightarrow> key_row option" where
  "findKey i db = List.find (\<lambda>r. ar_id r = i) (t_access_key db)"

definition pg_key_Get :: "faults \<Rightarrow> (string \<Rightarrow> did option) \<Rightarrow> bool \<Rightarrow> 'j db \<Rightarrow> did \<Rightarrow> err + access_key" where
  "pg_key_Get F parse share db ident =
     map_sum MapError id
       (if \<not> share then
          Found ''access key'' (map_sum id (map_option (scanKey parse)) (fetch (F 0) (findKey (did_string ident) db)))
        else (case thn (Begin (F 0) db) (\<lambda>_. SetTimeout F) of
                Inl f \<Rightarrow> Inl f
              | Inr (_, db) \<Rightarrow>
                  Found ''access key'' (map_sum id (map_option (scanKey parse)) (fetch (F 3) (findKey (did_string ident) db)))))"

definition keyWhere :: "did \<Rightarrow> key_list_config \<Rightarrow> key_row \<Rightarrow> bool" where
  "keyWhere ten cfg r \<longleftrightarrow> ar_tenant_id r = did_string ten \<and>
     (case l_Principal cfg of None \<Rightarrow> True | Some p \<Rightarrow> ar_principal_id r = Some p) \<and>
     (case l_Principals cfg of None \<Rightarrow> True
      | Some ps \<Rightarrow> (case ar_principal_id r of None \<Rightarrow> False | Some p \<Rightarrow> p \<in> set ps)) \<and>
     (case l_IDs cfg of None \<Rightarrow> True | Some ids \<Rightarrow> ar_id r \<in> set (map did_string ids))"

definition pg_key_ListByTenant ::
  "fault option \<Rightarrow> (string \<Rightarrow> did option) \<Rightarrow> collation \<Rightarrow> 'j db \<Rightarrow> did \<Rightarrow> key_list_config \<Rightarrow> err + access_key list" where
  "pg_key_ListByTenant f parse collate db ten cfg =
     queryAll f ''listing access keys by tenant'' (scanKey parse)
       (sort_key (\<lambda>r. collate (ar_id r)) (filter (keyWhere ten cfg) (t_access_key db)))"

definition deleteKey :: "string \<Rightarrow> ('j, unit) stmt" where
  "deleteKey i db = Inr ((), db\<lparr>t_access_key := filter (\<lambda>r. ar_id r \<noteq> i) (t_access_key db)\<rparr>)"

definition pg_key_Delete :: "faults \<Rightarrow> did \<Rightarrow> 'j db \<Rightarrow> (err + unit) \<times> 'j db" where
  "pg_key_Delete F ident =
     transaction F (\<lambda>db. thn (SetTimeout F db) (\<lambda>_.
       run (F 3) ''deleting access key'' (deleteKey (did_string ident))))"

subsection \<open>Principals\<close>

definition scanPrincipal :: "(string \<Rightarrow> did option) \<Rightarrow> principal_row \<Rightarrow> err + principal_rec" where
  "scanPrincipal parse r = on_ok (scanDid parse ''parsing tenant DID'' (sr_tenant_id r)) (\<lambda>ten.
     Inr \<lparr>p_Tenant = ten, p_ExternalID = sr_external_id r, p_CreatedAt = sr_created_at r\<rparr>)"

definition principalRow :: "string \<Rightarrow> string \<Rightarrow> principal_row \<Rightarrow> bool" where
  "principalRow ten x r \<longleftrightarrow> sr_tenant_id r = ten \<and> sr_external_id r = x"

text \<open>
  The upsert: it inserts, revives a tombstone, or touches nothing. The row it would insert refers
  to its tenant.
\<close>

definition upsertPrincipal :: "instant \<Rightarrow> string \<Rightarrow> string \<Rightarrow> ('j, nat) stmt" where
  "upsertPrincipal now ten x db =
     (case List.find (principalRow ten x) (t_principal db) of
        Some r \<Rightarrow>
          (if sr_deleted_at r = None then Inr (0, db)
           else Inr (1, db\<lparr>t_principal := map (\<lambda>r. if principalRow ten x r
                  then r\<lparr>sr_deleted_at := None, sr_created_at := now\<rparr> else r) (t_principal db)\<rparr>))
      | None \<Rightarrow>
          (if \<not> list_ex (\<lambda>r. tr_id r = ten) (t_tenant db) then Inl (ForeignKeyViolation ''principal_tenant_id_fkey'')
           else Inr (1, db\<lparr>t_principal := t_principal db @ [\<lparr>sr_tenant_id = ten, sr_external_id = x,
                  sr_created_at = now, sr_deleted_at = None\<rparr>]\<rparr>)))"

definition pg_principal_Add :: "faults \<Rightarrow> instant \<Rightarrow> did \<Rightarrow> string \<Rightarrow> 'j db \<Rightarrow> (err + unit) \<times> 'j db" where
  "pg_principal_Add F now ten x db =
     (if ten = Undef then (Inl (Store ErrInvalidArgument), db)
      else if x = [] then (Inl (Store ErrInvalidArgument), db)
      else transaction F (\<lambda>db.
        thn (SetTimeout F db) (\<lambda>_ db.
        thn (Advisory (F 3) db) (\<lambda>_ db.
        thn (run (F 4) ''adding principal'' (upsertPrincipal now (did_string ten) x) db) (\<lambda>n db.
        if n = 0 then Inl (Own (Store ErrRecordExists)) else Inr ((), db))))) db)"

definition findLive :: "string \<Rightarrow> string \<Rightarrow> 'j db \<Rightarrow> principal_row option" where
  "findLive ten x db = List.find (\<lambda>r. principalRow ten x r \<and> sr_deleted_at r = None) (t_principal db)"

definition pg_principal_Get ::
  "faults \<Rightarrow> (string \<Rightarrow> did option) \<Rightarrow> bool \<Rightarrow> 'j db \<Rightarrow> did \<Rightarrow> string \<Rightarrow> err + principal_rec" where
  "pg_principal_Get F parse share db ten x =
     map_sum MapError id
       (if \<not> share then
          Found ''principal'' (map_sum id (map_option (scanPrincipal parse)) (fetch (F 0) (findLive (did_string ten) x db)))
        else (case thn (Begin (F 0) db) (\<lambda>_. SetTimeout F) of
                Inl f \<Rightarrow> Inl f
              | Inr (_, db) \<Rightarrow>
                  Found ''principal''
                    (map_sum id (map_option (scanPrincipal parse)) (fetch (F 3) (findLive (did_string ten) x db)))))"

definition liveRowsOf :: "string \<Rightarrow> 'j db \<Rightarrow> principal_row list" where
  "liveRowsOf ten db = filter (\<lambda>r. sr_tenant_id r = ten \<and> sr_deleted_at r = None) (t_principal db)"

definition pg_principal_ListByTenant ::
  "fault option \<Rightarrow> (string \<Rightarrow> did option) \<Rightarrow> collation \<Rightarrow> 'j db \<Rightarrow> did \<Rightarrow> err + principal_rec list" where
  "pg_principal_ListByTenant f parse collate db ten =
     queryAll f ''listing principals by tenant'' (scanPrincipal parse)
       (sort_key (\<lambda>r. collate (sr_external_id r)) (liveRowsOf (did_string ten) db))"

definition pg_ListIDsByTenant :: "fault option \<Rightarrow> collation \<Rightarrow> 'j db \<Rightarrow> did \<Rightarrow> err + string list" where
  "pg_ListIDsByTenant f collate db ten =
     queryAll f ''listing principal ids by tenant'' (\<lambda>r. Inr (sr_external_id r))
       (sort_key (\<lambda>r. collate (sr_external_id r)) (liveRowsOf (did_string ten) db))"

text \<open>A key that refers to a principal restricts; an index row goes with its principal.\<close>

definition refersTo :: "string \<Rightarrow> string option \<Rightarrow> 'j db \<Rightarrow> bool" where
  "refersTo ten p db = (case p of None \<Rightarrow> False | Some x \<Rightarrow> list_ex (principalRow ten x) (t_principal db))"

definition deletePrincipals :: "string \<Rightarrow> ('j, unit) stmt" where
  "deletePrincipals ten db =
     (if list_ex (\<lambda>r. ar_tenant_id r = ten \<and> refersTo ten (ar_principal_id r) db) (t_access_key db)
      then Inl (ForeignKeyViolation ''access_key_principal_fkey'')
      else Inr ((), db\<lparr>t_principal := filter (\<lambda>r. sr_tenant_id r \<noteq> ten) (t_principal db),
             t_policy_index := filter (\<lambda>i. \<not> (ir_tenant_id i = ten \<and> refersTo ten (ir_principal_id i) db)) (t_policy_index db)\<rparr>))"

definition pg_principal_DeleteByTenant :: "faults \<Rightarrow> did \<Rightarrow> 'j db \<Rightarrow> (err + unit) \<times> 'j db" where
  "pg_principal_DeleteByTenant F ten =
     transaction F (\<lambda>db. thn (SetTimeout F db) (\<lambda>_.
       run (F 3) ''deleting principals by tenant'' (deletePrincipals (did_string ten))))"

subsection \<open>Wrap keys\<close>

text \<open>An \<open>INTEGER\<close> column has 32 bits; \<open>pgx\<close> refuses a parameter that does not fit.\<close>

definition int4 :: "int \<Rightarrow> bool" where
  "int4 n \<longleftrightarrow> - (2 ^ 31) \<le> n \<and> n < 2 ^ 31"

fun wrap_text :: "wrap_status \<Rightarrow> string" where
  "wrap_text Current = ''active''"
| "wrap_text Archived = ''archived''"

text \<open>
  The schema admits the two statuses and no other, so a scanned status is one of them; the
  zero time of a key that is not archived is \<open>None\<close>.
\<close>

definition scanWrap :: "(string \<Rightarrow> did option) \<Rightarrow> wrap_row \<Rightarrow> err + wrap_rec" where
  "scanWrap parse r = on_ok (scanDid parse ''parsing tenant DID'' (xr_tenant_id r)) (\<lambda>ten.
     Inr \<lparr>wr_Tenant = ten, wr_Version = xr_version r, wr_KID = xr_kid r,
          wr_Status = (if xr_status r = ''active'' then Current else Archived),
          wr_Epoch = xr_epoch r, wr_VaultKey = xr_vault_key r, wr_CreatedAt = xr_created_at r,
          wr_ArchivedAt = xr_archived_at r\<rparr>)"

definition insertWrap :: "wrap_row \<Rightarrow> ('j, unit) stmt" where
  "insertWrap r db =
     (if xr_status r \<notin> {''active'', ''archived''} then Inl CheckViolation
      else if list_ex (\<lambda>q. xr_tenant_id q = xr_tenant_id r \<and> xr_version q = xr_version r \<or> xr_kid q = xr_kid r \<or>
            xr_tenant_id q = xr_tenant_id r \<and> xr_status q = ''active'' \<and> xr_status r = ''active'') (t_wrap_key db)
      then Inl UniqueViolation
      else Inr ((), db\<lparr>t_wrap_key := t_wrap_key db @ [r]\<rparr>))"

definition pg_wrap_Add :: "fault option \<Rightarrow> instant \<Rightarrow> wrap_input \<Rightarrow> 'j db \<Rightarrow> (err + unit) \<times> 'j db" where
  "pg_wrap_Add f now i db =
     (if \<not> (int4 (wi_Version i) \<and> int4 (wi_Epoch i)) then (Inl (Internal ''adding wrap key''), db)
      else (case exec f (insertWrap \<lparr>xr_tenant_id = did_string (wi_Tenant i), xr_version = wi_Version i,
                xr_kid = wi_KID i, xr_status = wrap_text Current, xr_epoch = wi_Epoch i, xr_vault_key = wi_VaultKey i,
                xr_created_at = now, xr_archived_at = None\<rparr>) db of
              (Inl c, db') \<Rightarrow> (Inl (if c = UniqueViolation then Store ErrRecordExists else Internal ''adding wrap key''), db')
            | (Inr _, db') \<Rightarrow> (Inr (), db')))"

definition pg_wrap_Get :: "fault option \<Rightarrow> (string \<Rightarrow> did option) \<Rightarrow> 'j db \<Rightarrow> did \<Rightarrow> err + wrap_rec" where
  "pg_wrap_Get f parse db ten =
     queryRow f ''getting active wrap key'' (scanWrap parse)
       (List.find (\<lambda>r. xr_tenant_id r = did_string ten \<and> xr_status r = ''active'') (t_wrap_key db))"

definition pg_wrap_GetVersion :: "fault option \<Rightarrow> (string \<Rightarrow> did option) \<Rightarrow> 'j db \<Rightarrow> did \<Rightarrow> int \<Rightarrow> err + wrap_rec" where
  "pg_wrap_GetVersion f parse db ten version =
     (if \<not> int4 version then Inl (Internal ''getting wrap key'')
      else queryRow f ''getting wrap key'' (scanWrap parse)
        (List.find (\<lambda>r. xr_tenant_id r = did_string ten \<and> xr_version r = version) (t_wrap_key db)))"

definition pg_wrap_GetByKID :: "fault option \<Rightarrow> (string \<Rightarrow> did option) \<Rightarrow> 'j db \<Rightarrow> string \<Rightarrow> err + wrap_rec" where
  "pg_wrap_GetByKID f parse db kid =
     queryRow f ''getting wrap key by kid'' (scanWrap parse) (List.find (\<lambda>r. xr_kid r = kid) (t_wrap_key db))"

definition pg_wrap_List :: "fault option \<Rightarrow> (string \<Rightarrow> did option) \<Rightarrow> 'j db \<Rightarrow> did \<Rightarrow> err + wrap_rec list" where
  "pg_wrap_List f parse db ten =
     queryAll f ''listing wrap keys'' (scanWrap parse)
       (sort_key (\<lambda>r. - xr_version r) (filter (\<lambda>r. xr_tenant_id r = did_string ten) (t_wrap_key db)))"

definition archiveWrap :: "instant \<Rightarrow> string \<Rightarrow> int \<Rightarrow> ('j, nat) stmt" where
  "archiveWrap now ten version db =
     (let hit = (\<lambda>r. xr_tenant_id r = ten \<and> xr_version r = version \<and> xr_status r = ''active'')
      in Inr (length (filter hit (t_wrap_key db)),
           db\<lparr>t_wrap_key := map (\<lambda>r. if hit r then r\<lparr>xr_status := ''archived'', xr_archived_at := Some (micros now)\<rparr> else r)
                (t_wrap_key db)\<rparr>))"

definition pg_wrap_Archive :: "fault option \<Rightarrow> instant \<Rightarrow> did \<Rightarrow> int \<Rightarrow> 'j db \<Rightarrow> (err + unit) \<times> 'j db" where
  "pg_wrap_Archive f now ten version db =
     (if \<not> int4 version then (Inl (Internal ''archiving wrap key''), db)
      else (case exec f (archiveWrap now (did_string ten) version) db of
              (Inl c, db') \<Rightarrow> (Inl (Internal ''archiving wrap key''), db')
            | (Inr n, db') \<Rightarrow> (if n = 0 then Inl (Store ErrRecordNotFound) else Inr (), db')))"

definition deleteWraps :: "string \<Rightarrow> ('j, unit) stmt" where
  "deleteWraps ten db = Inr ((), db\<lparr>t_wrap_key := filter (\<lambda>r. xr_tenant_id r \<noteq> ten) (t_wrap_key db)\<rparr>)"

definition pg_wrap_Delete :: "fault option \<Rightarrow> did \<Rightarrow> 'j db \<Rightarrow> (err + unit) \<times> 'j db" where
  "pg_wrap_Delete f ten db =
     (case exec f (deleteWraps (did_string ten)) db of
        (Inl c, db') \<Rightarrow> (Inl (Internal ''deleting wrap keys''), db')
      | (Inr _, db') \<Rightarrow> (Inr (), db'))"

text \<open>The tables as the migrations leave them.\<close>

definition new_db :: "'j db" where
  "new_db = \<lparr>t_tenant = [], t_provider = [], t_bucket = [], t_access_key = [], t_principal = [], t_wrap_key = [],
     t_bucket_policy = [], t_policy_index = []\<rparr>"

subsection \<open>Commands on the registries\<close>

text \<open>A call of one of these stores, with what varies from call to call: the time.\<close>

datatype (plugins only: code size) registry_cmd =
    TenantAdd did string status | TenantGet did | TenantByExternal string | TenantSetStatus did status | TenantDelete did
  | ProviderAdd did string "did option" | ProviderGet did | ProviderByRegion string | ProviderSetPolicy did did | ProviderList
  | BucketAdd did did did string | BucketByName string | BucketList did bucket_query "string option" | BucketDelete did
  | KeyAdd key_input | KeyGet bool did | KeyList did key_list_config | KeyDelete did
  | PrincipalAdd did string | PrincipalGet bool did string | PrincipalList did | PrincipalIDs did | PrincipalsDelete did
  | WrapAdd wrap_input | WrapGet did | WrapVersion did int | WrapByKID string | WrapList did | WrapArchive did int | WrapDelete did

datatype (plugins only: code size) registry_answer =
    Ok | TheTenant tenant | TheProvider provider | TheProviders "provider list" | TheBucket bucket | TheBuckets "bucket page"
  | TheKey access_key | TheKeys "access_key list" | ThePrincipal principal_rec | ThePrincipals "principal_rec list"
  | TheIDs "string list" | TheWrap wrap_rec | TheWraps "wrap_rec list"

text \<open>The answer of a write, and of a read.\<close>

definition wrote :: "(err + unit) \<times> 's \<Rightarrow> (err + registry_answer) \<times> 's" where
  "wrote r = (map_sum id (\<lambda>_. Ok) (fst r), snd r)"

definition answered :: "('a \<Rightarrow> registry_answer) \<Rightarrow> err + 'a \<Rightarrow> 's \<Rightarrow> (err + registry_answer) \<times> 's" where
  "answered tag r s = (map_sum id tag r, s)"

fun pg_call ::
  "(string \<Rightarrow> did option) \<Rightarrow> collation \<Rightarrow> faults \<Rightarrow> instant \<Rightarrow> registry_cmd \<Rightarrow> 'j db \<Rightarrow> (err + registry_answer) \<times> 'j db" where
  "pg_call parse collate F now (TenantAdd d x st) db = wrote (pg_tenant_Add (F 0) now d x st db)"
| "pg_call parse collate F now (TenantGet d) db = answered TheTenant (pg_tenant_Get (F 0) parse db d) db"
| "pg_call parse collate F now (TenantByExternal x) db = answered TheTenant (pg_tenant_GetByExternalID (F 0) parse db x) db"
| "pg_call parse collate F now (TenantSetStatus d st) db = wrote (pg_tenant_SetStatus (F 0) now d st db)"
| "pg_call parse collate F now (TenantDelete d) db = wrote (pg_tenant_Delete (F 0) d db)"
| "pg_call parse collate F now (ProviderAdd d region policy) db = wrote (pg_provider_Add (F 0) now d region policy db)"
| "pg_call parse collate F now (ProviderGet d) db = answered TheProvider (pg_provider_Get (F 0) parse db d) db"
| "pg_call parse collate F now (ProviderByRegion x) db = answered TheProvider (pg_provider_GetByRegion (F 0) parse db x) db"
| "pg_call parse collate F now (ProviderSetPolicy d policy) db = wrote (pg_provider_SetPolicy (F 0) now d policy db)"
| "pg_call parse collate F now ProviderList db = answered TheProviders (pg_provider_List (F 0) parse db) db"
| "pg_call parse collate F now (BucketAdd d t p n) db = wrote (pg_bucket_Add (F 0) now d t p n db)"
| "pg_call parse collate F now (BucketByName n) db = answered TheBucket (pg_bucket_GetByName (F 0) parse db n) db"
| "pg_call parse collate F now (BucketList t q c) db = answered TheBuckets (pg_bucket_ListByTenant (F 0) parse collate db (t, q) c) db"
| "pg_call parse collate F now (BucketDelete d) db = wrote (pg_bucket_Delete F d db)"
| "pg_call parse collate F now (KeyAdd i) db = wrote (pg_key_Add F now i db)"
| "pg_call parse collate F now (KeyGet share d) db = answered TheKey (pg_key_Get F parse share db d) db"
| "pg_call parse collate F now (KeyList t cfg) db = answered TheKeys (pg_key_ListByTenant (F 0) parse collate db t cfg) db"
| "pg_call parse collate F now (KeyDelete d) db = wrote (pg_key_Delete F d db)"
| "pg_call parse collate F now (PrincipalAdd t x) db = wrote (pg_principal_Add F now t x db)"
| "pg_call parse collate F now (PrincipalGet share t x) db = answered ThePrincipal (pg_principal_Get F parse share db t x) db"
| "pg_call parse collate F now (PrincipalList t) db = answered ThePrincipals (pg_principal_ListByTenant (F 0) parse collate db t) db"
| "pg_call parse collate F now (PrincipalIDs t) db = answered TheIDs (pg_ListIDsByTenant (F 0) collate db t) db"
| "pg_call parse collate F now (PrincipalsDelete t) db = wrote (pg_principal_DeleteByTenant F t db)"
| "pg_call parse collate F now (WrapAdd i) db = wrote (pg_wrap_Add (F 0) now i db)"
| "pg_call parse collate F now (WrapGet t) db = answered TheWrap (pg_wrap_Get (F 0) parse db t) db"
| "pg_call parse collate F now (WrapVersion t v) db = answered TheWrap (pg_wrap_GetVersion (F 0) parse db t v) db"
| "pg_call parse collate F now (WrapByKID x) db = answered TheWrap (pg_wrap_GetByKID (F 0) parse db x) db"
| "pg_call parse collate F now (WrapList t) db = answered TheWraps (pg_wrap_List (F 0) parse db t) db"
| "pg_call parse collate F now (WrapArchive t v) db = wrote (pg_wrap_Archive (F 0) now t v db)"
| "pg_call parse collate F now (WrapDelete t) db = wrote (pg_wrap_Delete (F 0) t db)"

end
