(* ===== verification/Pg_Registries.thy ===== *)
theory Pg_Registries
  imports Pg_Stores
begin

text \<open>
  The postgres backends of tenants, providers and buckets against the memory ones: each call on
  tables that hold what the memory store does gives the same answer, and tables that hold what
  the memory store then does. \<open>Pg_Credentials\<close> goes on with the other stores.
\<close>

subsection \<open>Reading\<close>

text \<open>A lookup by the key, and by another column, on rows that scan back.\<close>

lemma queryRow_key:
  assumes "picks P row k s" and "\<forall>(k, r) \<in> set s. scan (row r) = Inr r"
  shows "queryRow None wrap scan (List.find P (table_of row s)) = mapGet s k"
  using table_find[OF assms(1)] assms(2)
  by (cases "map_of s k") (auto simp: queryRow_def fetch_def mapGet_def dest: map_of_SomeD)

lemma queryRow_first:
  assumes "\<forall>(k, r) \<in> set s. P (row r) = Q r" and "\<forall>(k, r) \<in> set s. scan (row r) = Inr r"
  shows "queryRow None wrap scan (List.find P (table_of row s)) = findRecord Q s"
proof (cases "findRecord Q s")
  case (Inl e)
  with findRecord_set(3) have "e = Store ErrRecordNotFound" by metis
  with Inl table_first[where P = P and row = row and Q = Q and m = s, OF assms(1)] show ?thesis by (simp add: queryRow_def fetch_def)
next
  case (Inr r)
  with findRecord_set(1)[of Q s r] assms(2) have "scan (row r) = Inr r" by auto
  with Inr table_first[where P = P and row = row and Q = Q and m = s, OF assms(1)] show ?thesis by (simp add: queryRow_def fetch_def)
qed

lemma insort_key_map: "insort_key f (g x) (map g xs) = map g (insort_key (\<lambda>x. f (g x)) x xs)"
  by (induction xs) auto

lemma sort_key_map: "sort_key f (map g xs) = map g (sort_key (\<lambda>x. f (g x)) xs)"
  by (induction xs) (simp_all add: insort_key_map)

lemma scanAll_rows: "\<forall>r \<in> set rs. scan (row r) = Inr r \<Longrightarrow> scanAll scan (map row rs) = Inr rs"
  by (induction rs) simp_all

subsection \<open>Tenants\<close>

definition tenantRow :: "tenant \<Rightarrow> tenant_row" where
  "tenantRow r = \<lparr>tr_id = did_string (t_ID r), tr_external_id = Some (t_ExternalID r),
     tr_status = status_text (t_Status r), tr_created_at = t_CreatedAt r, tr_updated_at = t_UpdatedAt r\<rparr>"

definition tenants_back :: "(string \<Rightarrow> did option) \<Rightarrow> tenants \<Rightarrow> tenant_row list \<Rightarrow> bool" where
  "tenants_back parse s rows \<longleftrightarrow> rows = table_of tenantRow s \<and> tenants_ok s \<and> all_records (\<lambda>k r. real parse k) s"

text \<open>A DID as the program holds it.\<close>

definition holdable :: "(string \<Rightarrow> did option) \<Rightarrow> did \<Rightarrow> bool" where
  "holdable parse d \<longleftrightarrow> d = Undef \<or> real parse d"

lemma real_same: "did_law parse \<Longrightarrow> real parse d \<Longrightarrow> did_string d = did_string e \<longleftrightarrow> d = e"
  using real_defined[of parse d] by (cases d; cases e) auto

lemma text_status_valid: "valid_status st \<Longrightarrow> text_status (status_text st) = st \<and> statusValid (status_text st)"
  by (cases st) (auto simp: text_status_def statusValid_def)

lemma scanTenant_row:
  "real parse (t_ID r) \<Longrightarrow> valid_status (t_Status r) \<Longrightarrow> scanTenant parse (tenantRow r) = Inr r"
  by (simp add: scanTenant_def tenantRow_def text_status_valid)

lemma tenants_backD:
  assumes "tenants_back parse s rows"
  shows "rows = table_of tenantRow s" "wf_gomap s" "unique_by t_ExternalID s" "tenants_ok s"
    "(k, r) \<in> set s \<Longrightarrow> t_ID r = k \<and> real parse k \<and> valid_status (t_Status r)"
proof -
  note t = assms[unfolded tenants_back_def tenants_ok_def]
  show "rows = table_of tenantRow s" "wf_gomap s" "unique_by t_ExternalID s" using t by blast+
  show "tenants_ok s" using assms by (simp add: tenants_back_def)
  assume "(k, r) \<in> set s"
  then have m: "map_of s k = Some r" using t by (simp add: wf_gomap_def)
  have a: "all_records (\<lambda>k r. t_ID r = k \<and> k \<noteq> Undef \<and> valid_status (t_Status r)) s"
      "all_records (\<lambda>k r. real parse k) s"
    using t by blast+
  show "t_ID r = k \<and> real parse k \<and> valid_status (t_Status r)"
    using all_recordsD[OF a(1) m] all_recordsD[OF a(2) m] by simp
qed

lemma tenant_picks:
  assumes "did_law parse" and "tenants_back parse s rows"
  shows "picks (\<lambda>r. tr_id r = did_string d) tenantRow d s"
proof (rule picksI)
  fix k r
  assume "(k, r) \<in> set s"
  from tenants_backD(5)[OF assms(2) this] show "tr_id (tenantRow r) = did_string d \<longleftrightarrow> k = d"
    using real_same[OF assms(1)] by (auto simp: tenantRow_def)
qed

lemma tenant_has:
  assumes "did_law parse" and "tenants_back parse s rows"
  shows "list_ex (\<lambda>r. tr_id r = did_string d) rows \<longleftrightarrow> map_of s d \<noteq> None"
  using table_ex[OF tenant_picks[OF assms]] tenants_backD(1)[OF assms(2)] by simp

lemma pg_tenant_Add_agrees:
  assumes law: "did_law parse" and bk: "tenants_back parse s (t_tenant db)" and d: "holdable parse ident"
    and run: "tenant_Add now ident x st s = (r, s')"
  shows "\<exists>rows. pg_tenant_Add None now ident x st db = (r, db\<lparr>t_tenant := rows\<rparr>) \<and> tenants_back parse s' rows"
proof (cases "ident = Undef \<or> \<not> valid_status st")
  case True
  with run have "pg_tenant_Add None now ident x st db = (r, db)" "s' = s"
    by (cases "ident = Undef"; simp add: pg_tenant_Add_def tenant_Add_def)+
  with bk show ?thesis by (intro exI[of _ "t_tenant db"]) simp
next
  case False
  note b = tenants_backD[OF bk]
  have clash: "list_ex (\<lambda>r. tr_id r = did_string ident \<or> tr_external_id r = Some x) (t_tenant db) \<longleftrightarrow>
      map_of s ident \<noteq> None \<or> list_ex (\<lambda>p. t_ExternalID (snd p) = x) s"
  proof -
    have "list_ex (\<lambda>r. tr_id r = did_string ident \<or> tr_external_id r = Some x) (t_tenant db) \<longleftrightarrow>
        list_ex (\<lambda>r. tr_id r = did_string ident) (t_tenant db) \<or> list_ex (\<lambda>r. tr_external_id r = Some x) (t_tenant db)"
      by (auto simp: list_ex_iff)
    moreover have "list_ex (\<lambda>r. tr_external_id r = Some x) (t_tenant db) \<longleftrightarrow> list_ex (\<lambda>p. t_ExternalID (snd p) = x) s"
      unfolding b(1) ex_table by (simp add: tenantRow_def)
    ultimately show ?thesis using tenant_has[OF law bk] by simp
  qed
  let ?rec = "\<lparr>t_ID = ident, t_ExternalID = x, t_Status = st, t_CreatedAt = now, t_UpdatedAt = now\<rparr>"
  have v: "statusValid (status_text st)" using text_status_valid False by simp
  show ?thesis
  proof (cases "map_of s ident \<noteq> None \<or> list_ex (\<lambda>p. t_ExternalID (snd p) = x) s")
    case True
    with run False have "r = Inl (Store ErrRecordExists)" "s' = s" by (auto simp: tenant_Add_def split: if_splits)
    with True False bk clash show ?thesis
      by (intro exI[of _ "t_tenant db"]) (simp add: pg_tenant_Add_def exec_def insertTenant_def v)
  next
    case free: False
    with run False have r: "r = Inr ()" "s' = AList.update ident ?rec s" by (auto simp: tenant_Add_def)
    have "tenants_ok s'" using run r(1) by (intro tenants_ok_Add[OF b(4)]) simp
    moreover have "all_records (\<lambda>k r. real parse k) s'"
      using bk d False unfolding r(2) by (intro all_records_update) (auto simp: tenants_back_def holdable_def)
    moreover have "table_of tenantRow s' = t_tenant db @ [tenantRow ?rec]"
      using free unfolding r(2) by (simp add: table_of_insert b(1))
    ultimately have "tenants_back parse s' (t_tenant db @ [tenantRow ?rec])" by (simp add: tenants_back_def)
    moreover have "pg_tenant_Add None now ident x st db = (r, db\<lparr>t_tenant := t_tenant db @ [tenantRow ?rec]\<rparr>)"
      using free False clash by (simp add: pg_tenant_Add_def exec_def insertTenant_def v r(1) tenantRow_def)
    ultimately show ?thesis by blast
  qed
qed

lemma tenants_scan: "tenants_back parse s rows \<Longrightarrow> \<forall>(k, r) \<in> set s. scanTenant parse (tenantRow r) = Inr r"
  using tenants_backD(5) by (auto intro: scanTenant_row)

lemma pg_tenant_Get_agrees:
  assumes "did_law parse" and "tenants_back parse s (t_tenant db)"
  shows "pg_tenant_Get None parse db ident = tenant_Get s ident"
  unfolding pg_tenant_Get_def tenant_Get_def tenants_backD(1)[OF assms(2)]
  by (rule queryRow_key[OF tenant_picks[OF assms] tenants_scan[OF assms(2)]])

lemma pg_tenant_GetByExternalID_agrees:
  assumes "tenants_back parse s (t_tenant db)"
  shows "pg_tenant_GetByExternalID None parse db x = tenant_GetByExternalID s x"
  unfolding pg_tenant_GetByExternalID_def tenant_GetByExternalID_def tenants_backD(1)[OF assms]
  by (rule queryRow_first[where row = tenantRow and s = s, OF _ tenants_scan[OF assms]]) (simp add: tenantRow_def case_prod_beta)

lemma pg_tenant_SetStatus_agrees:
  assumes law: "did_law parse" and bk: "tenants_back parse s (t_tenant db)"
    and run: "tenant_SetStatus now ident st s = (r, s')"
  shows "\<exists>rows. pg_tenant_SetStatus None now ident st db = (r, db\<lparr>t_tenant := rows\<rparr>) \<and> tenants_back parse s' rows"
proof (cases "valid_status st")
  case False
  with run bk show ?thesis
    by (intro exI[of _ "t_tenant db"]) (auto simp: pg_tenant_SetStatus_def tenant_SetStatus_def)
next
  case True
  note b = tenants_backD[OF bk]
  note p = tenant_picks[OF law bk]
  let ?P = "\<lambda>r. tr_id r = did_string ident"
  let ?f = "\<lambda>r. r\<lparr>tr_status := status_text st, tr_updated_at := now\<rparr>"
  have n: "length (filter ?P (t_tenant db)) = 0 \<longleftrightarrow> map_of s ident = None"
    using tenant_has[OF law bk, of ident] by (auto simp: filter_empty_conv list_ex_iff)
  have "statusValid (status_text st)" using text_status_valid True by simp
  then have pg: "pg_tenant_SetStatus None now ident st db =
      (if map_of s ident = None then Inl (Store ErrRecordNotFound) else Inr (),
       db\<lparr>t_tenant := map (\<lambda>r. if ?P r then ?f r else r) (t_tenant db)\<rparr>)"
    using True n by (simp add: pg_tenant_SetStatus_def exec_def updateTenant_def del: length_0_conv)
  show ?thesis
  proof (cases "map_of s ident")
    case None
    then have "\<forall>r \<in> set (t_tenant db). \<not> ?P r" using tenant_has[OF law bk, of ident] by (simp add: list_ex_iff)
    then have "map (\<lambda>r. if ?P r then ?f r else r) (t_tenant db) = t_tenant db" by (intro map_idI) auto
    with pg None run True bk show ?thesis
      by (intro exI[of _ "t_tenant db"]) (auto simp: tenant_SetStatus_def)
  next
    case (Some rec)
    let ?rec = "rec\<lparr>t_Status := st, t_UpdatedAt := now\<rparr>"
    have r: "r = Inr ()" "s' = AList.update ident ?rec s" using Some run True by (auto simp: tenant_SetStatus_def)
    have "map (\<lambda>r. if ?P r then ?f r else r) (t_tenant db) = table_of tenantRow s'"
      unfolding b(1) r(2) by (rule table_update[OF p b(2) Some]) (simp add: tenantRow_def)
    moreover have "tenants_ok s'" by (rule tenants_ok_SetStatus[OF b(4) run])
    moreover have "real parse ident" using b(5)[OF map_of_SomeD[OF Some]] by simp
    then have "all_records (\<lambda>k r. real parse k) s'"
      using bk unfolding r(2) by (intro all_records_update) (simp_all add: tenants_back_def)
    ultimately show ?thesis using pg Some r(1) by (auto simp: tenants_back_def)
  qed
qed

lemma pg_tenant_Delete_agrees:
  assumes law: "did_law parse" and bk: "tenants_back parse s (t_tenant db)"
    and free: "\<not> list_ex (\<lambda>r. br_tenant_id r = did_string ident) (t_bucket db)"
      "\<not> list_ex (\<lambda>r. ar_tenant_id r = did_string ident) (t_access_key db)"
      "\<not> list_ex (\<lambda>r. sr_tenant_id r = did_string ident) (t_principal db)"
  shows "\<exists>rows. pg_tenant_Delete None ident db = (Inr (), db\<lparr>t_tenant := rows\<rparr>) \<and>
    tenants_back parse (tenant_Delete ident s) rows"
proof -
  have "filter (\<lambda>r. tr_id r \<noteq> did_string ident) (t_tenant db) = table_of tenantRow (tenant_Delete ident s)"
    unfolding tenants_backD(1)[OF bk] tenant_Delete_def by (rule table_delete[OF tenant_picks[OF law bk]])
  moreover have "tenants_back parse (tenant_Delete ident s) (table_of tenantRow (tenant_Delete ident s))"
    using bk tenants_ok_Delete by (auto simp: tenants_back_def tenant_Delete_def)
  ultimately show ?thesis using free by (auto simp: pg_tenant_Delete_def exec_def deleteTenant_def)
qed

subsection \<open>Providers\<close>

definition providerRow :: "provider \<Rightarrow> provider_row" where
  "providerRow p = \<lparr>vr_id = did_string (pr_ID p), vr_region = Some (pr_Region p),
     vr_policy = map_option did_string (pr_Policy p), vr_created_at = pr_CreatedAt p, vr_updated_at = pr_UpdatedAt p\<rparr>"

definition provider_real :: "(string \<Rightarrow> did option) \<Rightarrow> provider \<Rightarrow> bool" where
  "provider_real parse p \<longleftrightarrow> real parse (pr_ID p) \<and> (\<forall>d. pr_Policy p = Some d \<longrightarrow> real parse d)"

definition providers_back :: "(string \<Rightarrow> did option) \<Rightarrow> providers \<Rightarrow> provider_row list \<Rightarrow> bool" where
  "providers_back parse s rows \<longleftrightarrow> rows = map providerRow s \<and> providers_ok s \<and> (\<forall>p \<in> set s. provider_real parse p)"

lemma scanProvider_row: "provider_real parse p \<Longrightarrow> scanProvider parse (providerRow p) = Inr p"
  by (cases "pr_Policy p") (auto simp: scanProvider_def providerRow_def provider_real_def)

lemma provider_id:
  assumes "did_law parse" and "provider_real parse p"
  shows "vr_id (providerRow p) = did_string d \<longleftrightarrow> pr_ID p = d"
  using assms real_same[OF assms(1)] by (simp add: provider_real_def providerRow_def)

lemma provider_region: "vr_region (providerRow p) = Some x \<longleftrightarrow> pr_Region p = x"
  by (simp add: providerRow_def)

lemma providers_first:
  assumes "\<forall>p \<in> set s. provider_real parse p \<and> P (providerRow p) = Q p"
  shows "queryRow None wrap (scanProvider parse) (List.find P (map providerRow s)) = firstProvider Q s"
  using assms by (induction s) (auto simp: queryRow_def fetch_def firstProvider_def scanProvider_row)

lemma pg_provider_Get_agrees:
  assumes "did_law parse" and "providers_back parse s (t_provider db)"
  shows "pg_provider_Get None parse db ident = provider_Get s ident"
  using assms(2) provider_id[OF assms(1)]
  unfolding pg_provider_Get_def provider_Get_def providers_back_def by (auto intro: providers_first)

lemma pg_provider_GetByRegion_agrees:
  assumes "providers_back parse s (t_provider db)"
  shows "pg_provider_GetByRegion None parse db x = provider_GetByRegion s x"
  using assms provider_region
  unfolding pg_provider_GetByRegion_def provider_GetByRegion_def providers_back_def by (auto intro: providers_first)

lemma pg_provider_List_agrees:
  assumes "providers_back parse s (t_provider db)"
  shows "pg_provider_List None parse db = Inr (provider_List s)"
proof -
  have "sort_key vr_id (map providerRow s) = map providerRow (provider_List s)"
    by (simp add: provider_List_def sort_key_map providerRow_def)
  moreover have "scanAll (scanProvider parse) (map providerRow (provider_List s)) = Inr (provider_List s)"
    using assms by (intro scanAll_rows) (simp add: providers_back_def provider_List_def scanProvider_row)
  ultimately show ?thesis using assms by (simp add: pg_provider_List_def queryAll_def fetch_def providers_back_def)
qed

lemma pg_provider_Add_agrees:
  assumes law: "did_law parse" and bk: "providers_back parse s (t_provider db)" and d: "holdable parse ident"
    and pol: "\<And>e. policy = Some e \<Longrightarrow> real parse e" and run: "provider_Add now ident region policy s = (r, s')"
  shows "\<exists>rows. pg_provider_Add None now ident region policy db = (r, db\<lparr>t_provider := rows\<rparr>) \<and>
    providers_back parse s' rows"
proof -
  have policy: "policy \<noteq> Some Undef" using pol real_defined[OF law] by auto
  note b = bk[unfolded providers_back_def]
  show ?thesis
  proof (cases "ident = Undef \<or> region = []")
    case True
    with run have "pg_provider_Add None now ident region policy db = (r, db)" "s' = s"
      by (cases "ident = Undef"; simp add: pg_provider_Add_def provider_Add_def)+
    with bk show ?thesis by (intro exI[of _ "t_provider db"]) simp
  next
    case False
    have "(\<exists>p \<in> set s. vr_id (providerRow p) = did_string ident \<or> vr_region (providerRow p) = Some region) \<longleftrightarrow>
        (\<exists>p \<in> set s. pr_ID p = ident \<or> pr_Region p = region)"
      using b provider_id[OF law] provider_region by (intro bex_cong) auto
    then have clash: "list_ex (\<lambda>r. vr_id r = did_string ident \<or> vr_region r = Some region) (t_provider db) \<longleftrightarrow>
        list_ex (\<lambda>p. pr_ID p = ident \<or> pr_Region p = region) s"
      using b by (simp add: list_ex_iff)
    let ?p = "\<lparr>pr_ID = ident, pr_Region = region, pr_Policy = policy, pr_CreatedAt = now, pr_UpdatedAt = now\<rparr>"
    show ?thesis
    proof (cases "list_ex (\<lambda>p. pr_ID p = ident \<or> pr_Region p = region) s")
      case True
      with False have "provider_Add now ident region policy s = (Inl (Store ErrRecordExists), s)" by (simp add: provider_Add_def)
      with run have "r = Inl (Store ErrRecordExists)" "s' = s" by simp_all
      with True False bk clash policy show ?thesis
        by (intro exI[of _ "t_provider db"]) (simp add: pg_provider_Add_def exec_def insertProvider_def)
    next
      case free: False
      with False policy have "provider_Add now ident region policy s = (Inr (), s @ [?p])" by (simp add: provider_Add_def)
      with run have r: "r = Inr ()" "s' = s @ [?p]" by simp_all
      have "providers_ok s'" by (rule providers_ok_Add[OF _ run[unfolded r(1)]]) (use b in blast)
      moreover have "provider_real parse ?p" using d False pol by (auto simp: provider_real_def holdable_def)
      ultimately have "providers_back parse s' (t_provider db @ [providerRow ?p])"
        using b by (simp add: providers_back_def r(2))
      moreover have "pg_provider_Add None now ident region policy db = (r, db\<lparr>t_provider := t_provider db @ [providerRow ?p]\<rparr>)"
        using free False clash policy by (simp add: pg_provider_Add_def exec_def insertProvider_def r(1) providerRow_def)
      ultimately show ?thesis by blast
    qed
  qed
qed

lemma setPolicyLoop_rows:
  assumes "distinct (map pr_ID s)" and "\<forall>p \<in> set s. provider_real parse p" and "did_law parse"
    and "setPolicyLoop now ident policy s = (r, s')"
  shows "map (\<lambda>r. if vr_id r = did_string ident then r\<lparr>vr_policy := Some (did_string policy), vr_updated_at := now\<rparr> else r)
      (map providerRow s) = map providerRow s' \<and>
    r = (if ident \<in> pr_ID ` set s then Inr () else Inl (Store ErrRecordNotFound))"
  using assms
proof (induction s arbitrary: r s')
  case (Cons p s)
  have i: "vr_id (providerRow p) = did_string ident \<longleftrightarrow> pr_ID p = ident"
    using Cons.prems by (intro provider_id) auto
  have ids: "vr_id (providerRow q) = did_string ident \<longleftrightarrow> pr_ID q = ident" if "q \<in> set s" for q
    using Cons.prems that by (intro provider_id) auto
  obtain r1 s1 where l: "setPolicyLoop now ident policy s = (r1, s1)" by force
  show ?case
  proof (cases "pr_ID p = ident")
    case True
    then have "\<forall>q \<in> set s. pr_ID q \<noteq> ident" using Cons.prems(1) by (metis distinct.simps(2) image_eqI list.set_map list.simps(9))
    with True Cons.prems(4) i ids show ?thesis by (auto simp: providerRow_def)
  next
    case False
    with Cons.IH[OF _ _ Cons.prems(3) l] Cons.prems i l show ?thesis by (auto split: if_splits)
  qed
qed simp

lemma pg_provider_SetPolicy_agrees:
  assumes law: "did_law parse" and bk: "providers_back parse s (t_provider db)"
    and pol: "holdable parse policy" and run: "provider_SetPolicy now ident policy s = (r, s')"
  shows "\<exists>rows. pg_provider_SetPolicy None now ident policy db = (r, db\<lparr>t_provider := rows\<rparr>) \<and>
    providers_back parse s' rows"
proof (cases "policy = Undef")
  case True
  with run bk show ?thesis
    by (intro exI[of _ "t_provider db"]) (simp add: pg_provider_SetPolicy_def provider_SetPolicy_def)
next
  case False
  note b = bk[unfolded providers_back_def]
  have l: "setPolicyLoop now ident policy s = (r, s')" using run False by (simp add: provider_SetPolicy_def)
  have rows: "map (\<lambda>r. if vr_id r = did_string ident then r\<lparr>vr_policy := Some (did_string policy), vr_updated_at := now\<rparr> else r)
        (t_provider db) = map providerRow s'"
    and r: "r = (if ident \<in> pr_ID ` set s then Inr () else Inl (Store ErrRecordNotFound))"
    using setPolicyLoop_rows[OF _ _ law l] b by (auto simp: providers_ok_def)
  have "length (filter (\<lambda>r. vr_id r = did_string ident) (t_provider db)) = 0 \<longleftrightarrow> ident \<notin> pr_ID ` set s"
    using b provider_id[OF law] by (auto simp: filter_empty_conv)
  then have "pg_provider_SetPolicy None now ident policy db = (r, db\<lparr>t_provider := map providerRow s'\<rparr>)"
    using False rows r by (simp add: pg_provider_SetPolicy_def exec_def updateProvider_def del: length_0_conv)
  moreover have "\<forall>p \<in> set s'. provider_real parse p"
  proof
    fix p
    assume "p \<in> set s'"
    with setPolicyLoop_same[OF l] have "p \<in> set s \<or> (pr_Policy p = Some policy \<and>
        (\<exists>q \<in> set s. pr_ID p = pr_ID q \<and> pr_Region p = pr_Region q))" by blast
    with b pol False show "provider_real parse p" by (auto simp: provider_real_def holdable_def)
  qed
  ultimately show ?thesis
    using b providers_ok_SetPolicy[OF _ run] by (auto simp: providers_back_def)
qed

subsection \<open>Buckets\<close>

definition bucketRow :: "bucket \<Rightarrow> bucket_row" where
  "bucketRow b = \<lparr>br_id = did_string (b_ID b), br_tenant_id = did_string (b_Tenant b),
     br_provider_id = did_string (b_Provider b), br_name = Some (b_Name b), br_created_at = b_CreatedAt b\<rparr>"

definition bucket_real :: "(string \<Rightarrow> did option) \<Rightarrow> bucket \<Rightarrow> bool" where
  "bucket_real parse b \<longleftrightarrow> real parse (b_ID b) \<and> real parse (b_Tenant b) \<and> real parse (b_Provider b)"

definition buckets_back :: "(string \<Rightarrow> did option) \<Rightarrow> buckets \<Rightarrow> bucket_row list \<Rightarrow> bool" where
  "buckets_back parse s rows \<longleftrightarrow> rows = table_of bucketRow s \<and> buckets_ok s \<and> all_records (\<lambda>k b. bucket_real parse b) s"

lemma buckets_backD:
  assumes "buckets_back parse s rows"
  shows "rows = table_of bucketRow s" "buckets_ok s"
    "(k, b) \<in> set s \<Longrightarrow> b_ID b = k \<and> bucket_real parse b"
proof -
  note t = assms[unfolded buckets_back_def]
  show "rows = table_of bucketRow s" "buckets_ok s" using t by blast+
  assume "(k, b) \<in> set s"
  then have m: "map_of s k = Some b" using buckets_okD(1) t by (simp add: wf_gomap_def)
  have "all_records (\<lambda>k b. bucket_real parse b) s" using t by blast
  from all_recordsD[OF this m] show "b_ID b = k \<and> bucket_real parse b" using buckets_okD(3)[OF _ m] t by blast
qed

lemma scanBucket_row: "did_law parse \<Longrightarrow> bucket_real parse b \<Longrightarrow> scanBucket parse (bucketRow b) = Inr b"
  using real_defined by (simp add: scanBucket_def bucketRow_def bucket_real_def scanOwner_def)

lemma bucket_picks:
  assumes "did_law parse" and "buckets_back parse s rows"
  shows "picks (\<lambda>r. br_id r = did_string d) bucketRow d s"
proof (rule picksI)
  fix k b
  assume "(k, b) \<in> set s"
  from buckets_backD(3)[OF assms(2) this] show "br_id (bucketRow b) = did_string d \<longleftrightarrow> k = d"
    using real_same[OF assms(1)] by (auto simp: bucketRow_def bucket_real_def)
qed

lemma buckets_scan:
  "did_law parse \<Longrightarrow> buckets_back parse s rows \<Longrightarrow> \<forall>(k, b) \<in> set s. scanBucket parse (bucketRow b) = Inr b"
  using buckets_backD(3) by (auto intro: scanBucket_row)

lemma pg_bucket_GetByName_agrees:
  assumes "did_law parse" and "buckets_back parse s (t_bucket db)"
  shows "pg_bucket_GetByName None parse db nm = bucket_GetByName s nm"
  unfolding pg_bucket_GetByName_def bucket_GetByName_def buckets_backD(1)[OF assms(2)]
  by (rule queryRow_first[where row = bucketRow and s = s, OF _ buckets_scan[OF assms]]) (simp add: bucketRow_def case_prod_beta)

lemma pg_bucket_Add_agrees:
  assumes law: "did_law parse" and bk: "buckets_back parse s (t_bucket db)"
    and d: "holdable parse ident" "holdable parse ten" "holdable parse prov"
    and run: "bucket_Add now ident ten prov nm s = (r, s')"
    and refs: "r = Inr () \<Longrightarrow> list_ex (\<lambda>q. tr_id q = did_string ten) (t_tenant db) \<and>
      list_ex (\<lambda>q. vr_id q = did_string prov) (t_provider db)"
  shows "\<exists>rows. pg_bucket_Add None now ident ten prov nm db = (r, db\<lparr>t_bucket := rows\<rparr>) \<and> buckets_back parse s' rows"
proof (cases "ident = Undef \<or> ten = Undef \<or> prov = Undef \<or> (\<exists>e. ValidateName nm = Inl e)")
  case True
  with run have "pg_bucket_Add None now ident ten prov nm db = (r, db)" "s' = s"
    by (auto simp: pg_bucket_Add_def bucket_Add_def split: if_splits sum.splits)
  with bk show ?thesis by (intro exI[of _ "t_bucket db"]) simp
next
  case False
  then have v: "ValidateName nm = Inr ()" by (cases "ValidateName nm") auto
  note b = buckets_backD[OF bk]
  have has: "list_ex (\<lambda>r. br_id r = did_string ident) (t_bucket db) \<longleftrightarrow> map_of s ident \<noteq> None"
    using table_ex[OF bucket_picks[OF law bk]] b(1) by simp
  have name: "list_ex (\<lambda>r. br_name r = Some nm) (t_bucket db) \<longleftrightarrow> list_ex (\<lambda>p. b_Name (snd p) = nm) s"
    unfolding b(1) ex_table by (simp add: bucketRow_def)
  have ids: "map_of s ident \<noteq> None \<longleftrightarrow> list_ex (\<lambda>p. b_ID (snd p) = ident) s"
    using buckets_okD(1)[OF b(2)] b(3) by (force simp: list_ex_gomap gomap_in_iff)
  have clash: "list_ex (\<lambda>r. br_id r = did_string ident \<or> br_name r = Some nm) (t_bucket db) \<longleftrightarrow>
      list_ex (\<lambda>p. b_ID (snd p) = ident \<or> b_Name (snd p) = nm) s"
    using has name ids by (auto simp: list_ex_iff)
  let ?b = "\<lparr>b_ID = ident, b_Tenant = ten, b_Provider = prov, b_Name = nm, b_CreatedAt = now\<rparr>"
  show ?thesis
  proof (cases "list_ex (\<lambda>p. b_ID (snd p) = ident \<or> b_Name (snd p) = nm) s")
    case True
    with False v have "bucket_Add now ident ten prov nm s = (Inl (Store ErrRecordExists), s)" by (simp add: bucket_Add_def)
    with run have "r = Inl (Store ErrRecordExists)" "s' = s" by simp_all
    with True False bk clash v show ?thesis
      by (intro exI[of _ "t_bucket db"]) (simp add: pg_bucket_Add_def exec_def insertBucket_def)
  next
    case free: False
    with False v have "bucket_Add now ident ten prov nm s = (Inr (), AList.update ident ?b s)"
      by (simp add: bucket_Add_def)
    with run have r: "r = Inr ()" "s' = AList.update ident ?b s" by simp_all
    have "map_of s ident = None" using free ids by (auto simp: list_ex_iff)
    then have "table_of bucketRow s' = t_bucket db @ [bucketRow ?b]" unfolding r(2) by (simp add: table_of_insert b(1))
    moreover have "buckets_ok s'" by (rule buckets_ok_Add[OF b(2) run[unfolded r(1)]])
    moreover have "bucket_real parse ?b" using d False by (auto simp: holdable_def bucket_real_def)
    then have "all_records (\<lambda>k b. bucket_real parse b) s'"
      using bk unfolding r(2) by (intro all_records_update) (simp_all add: buckets_back_def)
    ultimately have "buckets_back parse s' (t_bucket db @ [bucketRow ?b])" by (simp add: buckets_back_def)
    moreover have "pg_bucket_Add None now ident ten prov nm db = (r, db\<lparr>t_bucket := t_bucket db @ [bucketRow ?b]\<rparr>)"
      using free False clash v refs[OF r(1)]
      by (simp add: pg_bucket_Add_def exec_def insertBucket_def r(1) bucketRow_def)
    ultimately show ?thesis by blast
  qed
qed

lemma pg_bucket_Delete_agrees:
  assumes law: "did_law parse" and bk: "buckets_back parse s (t_bucket db)"
  shows "\<exists>rows pol idx. pg_bucket_Delete no_faults ident db =
      (Inr (), db\<lparr>t_bucket := rows, t_bucket_policy := pol, t_policy_index := idx\<rparr>) \<and>
    buckets_back parse (bucket_Delete ident s) rows"
proof -
  have "filter (\<lambda>r. br_id r \<noteq> did_string ident) (t_bucket db) = table_of bucketRow (bucket_Delete ident s)"
    unfolding buckets_backD(1)[OF bk] bucket_Delete_def by (rule table_delete[OF bucket_picks[OF law bk]])
  moreover have "buckets_back parse (bucket_Delete ident s) (table_of bucketRow (bucket_Delete ident s))"
    using bk buckets_ok_Delete by (auto simp: buckets_back_def bucket_Delete_def)
  ultimately show ?thesis by (auto simp: pg_bucket_Delete_def run_def deleteBucket_def)
qed

text \<open>
  The listing, under whatever collation: a page cut of the buckets past the cursor in the
  collation's order.
\<close>

definition pgLimit :: "bucket_query \<Rightarrow> nat" where
  "pgLimit q = nat (case q_Limit q of None \<Rightarrow> defaultListLimit | Some n \<Rightarrow> if n > 0 then n else defaultListLimit)"

lemma pgLimit_pos: "pgLimit q > 0"
  by (simp add: pgLimit_def defaultListLimit_def split: option.split)

definition pastC :: "collation \<Rightarrow> string option \<Rightarrow> bucket \<Rightarrow> bool" where
  "pastC collate cursor b \<longleftrightarrow> (case cursor of None \<Rightarrow> True | Some c \<Rightarrow> collate c < collate (b_Name b))"

lemma bucketWhere_row:
  assumes law: "did_law parse" and "bucket_real parse b"
  shows "bucketWhere collate (ten, q) cursor (bucketRow b) \<longleftrightarrow> bucket_selected ten q b \<and> pastC collate cursor b"
proof -
  have h: "real parse (b_ID b)" "real parse (b_Tenant b)" "real parse (b_Provider b)"
    using assms(2) by (simp_all add: bucket_real_def)
  note t = real_same[OF law h(1)] real_same[OF law h(2)] real_same[OF law h(3)]
  have "did_string (b_ID b) \<in> did_string ` set (q_IDs q) \<longleftrightarrow> b_ID b \<in> set (q_IDs q)" by (auto simp: image_iff t(1))
  then show ?thesis
    by (simp add: bucketWhere_def bucketRow_def bucket_selected_def pastC_def t split: option.split)
qed

lemma filter_rows: "\<forall>r \<in> set rs. P (row r) = Q r \<Longrightarrow> filter P (map row rs) = map row (filter Q rs)"
  by (induction rs) simp_all

lemma cut_last:
  assumes "0 < n" and "n < length R"
  shows "take n R \<noteq> []" "last (take n R) = take (n + 1) R ! (n - 1)"
proof -
  show "take n R \<noteq> []" using assms by auto
  then show "last (take n R) = take (n + 1) R ! (n - 1)" using assms by (simp add: last_conv_nth)
qed

lemma pg_bucket_list:
  assumes law: "did_law parse" and bk: "buckets_back parse s (t_bucket db)"
    and "\<not> (length (q_IDs q) > 0 \<and> length (q_Names q) > 0)"
  shows "pg_bucket_ListByTenant None parse collate db (ten, q) cursor =
    Inr (cutPage b_Name (pgLimit q)
      (sort_key (\<lambda>b. (False, collate (b_Name b)))
        (filter (\<lambda>b. bucket_selected ten q b \<and> pastC collate cursor b) (map snd s))))"
proof -
  let ?lim = "case q_Limit q of None \<Rightarrow> defaultListLimit | Some n \<Rightarrow> if n > 0 then n else defaultListLimit"
  let ?R = "sort_key (\<lambda>b. (False, collate (b_Name b)))
        (filter (\<lambda>b. bucket_selected ten q b \<and> pastC collate cursor b) (map snd s))"
  define n where "n = pgLimit q"
  have n: "n > 0" "nat ?lim = n" "?lim = int n"
    using pgLimit_pos[of q] by (simp_all add: n_def pgLimit_def defaultListLimit_def split: option.split)
  have rows: "t_bucket db = map bucketRow (map snd s)" using buckets_backD(1)[OF bk] by (simp add: table_of_def)
  have ok: "\<forall>b \<in> set (map snd s). bucket_real parse b" using buckets_backD(3)[OF bk] by auto
  have "filter (bucketWhere collate (ten, q) cursor) (t_bucket db) =
      map bucketRow (filter (\<lambda>b. bucket_selected ten q b \<and> pastC collate cursor b) (map snd s))"
    unfolding rows using ok bucketWhere_row[OF law] by (intro filter_rows) blast
  then have sorted: "sort_key (nameOrder collate) (filter (bucketWhere collate (ten, q) cursor) (t_bucket db)) = map bucketRow ?R"
    by (simp add: sort_key_map nameOrder_def bucketRow_def del: filter_map)
  have "\<forall>b \<in> set (take (n + 1) ?R). scanBucket parse (bucketRow b) = Inr b"
    using ok by (fastforce dest!: in_set_takeD intro!: scanBucket_row[OF law])
  from scanAll_rows[where row = bucketRow, OF this]
  have scan: "scanAll (scanBucket parse) (take (n + 1) (map bucketRow ?R)) = Inr (take (n + 1) ?R)"
    by (simp add: take_map)
  have "nat (int n + 1) = n + 1" "nat (int n - 1) = n - 1" by simp_all
  with assms(3) sorted scan n have pg: "pg_bucket_ListByTenant None parse collate db (ten, q) cursor =
      Inr (if n < length (take (n + 1) ?R)
        then \<lparr>Cursor = Some (b_Name (take (n + 1) ?R ! (n - 1))), Results = take n (take (n + 1) ?R)\<rparr>
        else \<lparr>Cursor = None, Results = take (n + 1) ?R\<rparr>)"
    by (simp add: pg_bucket_ListByTenant_def queryAll_def fetch_def del: length_take)
  show ?thesis
  proof (cases "n < length ?R")
    case True
    then have "n < length (take (n + 1) ?R)" by (simp del: length_sort)
    with cut_last[OF n(1) True] True pg show ?thesis
      unfolding cutPage_def after_def n_def[symmetric] by (simp add: min_def del: take_eq_Nil length_take length_sort)
  next
    case False
    then have "take (n + 1) ?R = ?R" "take n ?R = ?R" by (simp_all del: length_sort)
    with False pg show ?thesis unfolding cutPage_def n_def[symmetric] by (simp del: length_sort)
  qed
qed

definition bytewise :: "collation \<Rightarrow> bool" where
  "bytewise collate \<longleftrightarrow> (\<forall>a b. collate a < collate b \<longleftrightarrow> a < b)"

lemma insort_key_order:
  "\<forall>y \<in> set xs. f x \<le> f y \<longleftrightarrow> g x \<le> g y \<Longrightarrow> insort_key f x xs = insort_key g x xs"
  by (induction xs) auto

lemma sort_key_order:
  "\<forall>x \<in> set xs. \<forall>y \<in> set xs. f x \<le> f y \<longleftrightarrow> g x \<le> g y \<Longrightarrow> sort_key f xs = sort_key g xs"
proof (induction xs)
  case (Cons x xs)
  then have "sort_key f xs = sort_key g xs" by simp
  moreover have "insort_key f x (sort_key g xs) = insort_key g x (sort_key g xs)"
    using Cons.prems by (intro insort_key_order) simp
  ultimately show ?case by simp
qed simp

lemma bytewise_le: "bytewise collate \<Longrightarrow> collate a \<le> collate b \<longleftrightarrow> a \<le> b"
  unfolding bytewise_def by (simp add: not_less[symmetric])

lemma mem_bucket_list:
  assumes "\<not> (length (q_IDs q) > 0 \<and> length (q_Names q) > 0)" and "bucket_limit q > 0"
  shows "bucket_ListByTenant s (ten, q) cursor = Inr (cutPage b_Name (bucket_limit q)
    (sort_key b_Name (filter (\<lambda>b. bucket_selected ten q b \<and> past cursor b) (map snd s))))"
proof -
  let ?lim = "case q_Limit q of None \<Rightarrow> defaultListLimit | Some n \<Rightarrow> n"
  let ?R = "sort_key b_Name (filter (\<lambda>b. bucket_selected ten q b \<and> past cursor b) (map snd s))"
  have lim: "?lim > 0" "nat ?lim = bucket_limit q" using assms(2) by (simp_all add: bucket_limit_def)
  have "bucket_ListByTenant s (ten, q) cursor =
      (if int (length ?R) > ?lim then
         (if ?lim \<le> 0 then Inl (Internal ''panic: index out of range'')
          else Inr \<lparr>Cursor = Some (b_Name (last (take (nat ?lim) ?R))), Results = take (nat ?lim) ?R\<rparr>)
       else Inr \<lparr>Cursor = None, Results = ?R\<rparr>)"
    unfolding bucket_ListByTenant_def Let_def prod.case if_not_P[OF assms(1)] by (rule refl)
  moreover have "int (length ?R) > ?lim \<longleftrightarrow> bucket_limit q < length ?R" using lim by linarith
  moreover have "take (bucket_limit q) ?R \<noteq> []" if "bucket_limit q < length ?R" by (rule cut_last(1)[OF assms(2) that])
  ultimately show ?thesis using lim by (simp add: cutPage_def after_def del: take_eq_Nil)
qed

lemma pg_bucket_list_agrees:
  assumes law: "did_law parse" and bk: "buckets_back parse s (t_bucket db)" and c: "bytewise collate"
    and lim: "bucket_limit q > 0"
  shows "pg_bucket_ListByTenant None parse collate db (ten, q) cursor = bucket_ListByTenant s (ten, q) cursor"
proof (cases "length (q_IDs q) > 0 \<and> length (q_Names q) > 0")
  case True
  then show ?thesis by (simp add: pg_bucket_ListByTenant_def bucket_ListByTenant_def)
next
  case False
  have "pgLimit q = bucket_limit q" using lim by (auto simp: pgLimit_def bucket_limit_def split: option.split)
  moreover have "pastC collate cursor = past cursor"
    using c by (auto simp: fun_eq_iff pastC_def past_def bytewise_def not_le split: option.split)
  moreover have "sort_key (\<lambda>b :: bucket. (False, collate (b_Name b))) = sort_key b_Name"
    by (intro ext sort_key_order) (simp add: bytewise_le[OF c])
  ultimately show ?thesis
    unfolding pg_bucket_list[OF law bk False] mem_bucket_list[OF False lim] by (simp only:)
qed

end
