(* ===== verification/Pg_Credentials.thy ===== *)
theory Pg_Credentials
  imports Pg_Registries
begin

text \<open>
  The postgres backends of access keys, principals and wrap keys against the memory ones, as
  \<open>Pg_Registries\<close> does for the other stores.
\<close>

subsection \<open>Access keys\<close>

definition keyRow :: "access_key \<Rightarrow> key_row" where
  "keyRow r = \<lparr>ar_id = did_string (k_ID r), ar_tenant_id = did_string (k_Tenant r), ar_name = k_Name r,
     ar_buckets = (if k_Principal r = None then Some (map did_string (k_Buckets r)) else None),
     ar_permissions = (if k_Principal r = None then Some (k_Permissions r) else None),
     ar_principal_id = k_Principal r, ar_expires_at = k_ExpiresAt r, ar_created_at = k_CreatedAt r\<rparr>"

definition key_real :: "(string \<Rightarrow> did option) \<Rightarrow> access_key \<Rightarrow> bool" where
  "key_real parse r \<longleftrightarrow> real parse (k_ID r) \<and> real parse (k_Tenant r) \<and> (\<forall>b \<in> set (k_Buckets r). real parse b)"

definition keys_back :: "(string \<Rightarrow> did option) \<Rightarrow> access_keys \<Rightarrow> key_row list \<Rightarrow> bool" where
  "keys_back parse s rows \<longleftrightarrow> rows = table_of keyRow s \<and> keys_ok s \<and> all_records (\<lambda>k r. key_real parse r) s"

lemma keys_backD:
  assumes "keys_back parse s rows"
  shows "rows = table_of keyRow s" "keys_ok s" "wf_gomap s"
    "(k, r) \<in> set s \<Longrightarrow> k_ID r = k \<and> key_real parse r \<and> key_wf k r"
proof -
  note t = assms[unfolded keys_back_def]
  show "rows = table_of keyRow s" "keys_ok s" using t by blast+
  then show w: "wf_gomap s" by (simp add: keys_ok_def)
  assume "(k, r) \<in> set s"
  then have m: "map_of s k = Some r" using w by (simp add: wf_gomap_def)
  have a: "all_records (\<lambda>k r. key_real parse r) s" "all_records key_wf s" using t by (auto simp: keys_ok_def)
  show "k_ID r = k \<and> key_real parse r \<and> key_wf k r"
    using all_recordsD[OF a(1) m] all_recordsD[OF a(2) m] by (simp add: key_wf_def)
qed

lemma scanDids_row: "\<forall>d \<in> set ds. real parse d \<Longrightarrow> scanDids parse (map did_string ds) = Inr ds"
  by (induction ds) simp_all

lemma scanKey_row: "key_real parse r \<Longrightarrow> key_wf k r \<Longrightarrow> scanKey parse (keyRow r) = Inr r"
  by (cases "k_Principal r") (auto simp: scanKey_def keyRow_def key_real_def key_wf_def scanDids_row)

lemma keys_scan: "keys_back parse s rows \<Longrightarrow> \<forall>(k, r) \<in> set s. scanKey parse (keyRow r) = Inr r"
  using keys_backD(4)[of parse s rows] scanKey_row by blast

lemma key_picks:
  assumes "did_law parse" and "keys_back parse s rows"
  shows "picks (\<lambda>r. ar_id r = did_string d) keyRow d s"
proof (rule picksI)
  fix k r
  assume "(k, r) \<in> set s"
  from keys_backD(4)[OF assms(2) this] show "ar_id (keyRow r) = did_string d \<longleftrightarrow> k = d"
    using real_same[OF assms(1)] by (auto simp: keyRow_def key_real_def)
qed

text \<open>The live-principal guard of the memory store, and the share-locked check.\<close>

definition guard_of :: "(string \<Rightarrow> bool) \<Rightarrow> did \<Rightarrow> string \<Rightarrow> err + unit" where
  "guard_of L t x = (if L x then Inr () else Inl (Store ErrInvalidArgument))"

definition micro_input :: "key_input \<Rightarrow> bool" where
  "micro_input i \<longleftrightarrow> map_option micros (in_ExpiresAt i) = in_ExpiresAt i"

definition input_real :: "(string \<Rightarrow> did option) \<Rightarrow> key_input \<Rightarrow> bool" where
  "input_real parse i \<longleftrightarrow> holdable parse (in_ID i) \<and> holdable parse (in_Tenant i) \<and> (\<forall>b \<in> set (in_Buckets i). holdable parse b)"

lemma key_Validate_real:
  "input_real parse i \<Longrightarrow> key_Validate i = Inr u \<Longrightarrow> key_real parse (key_record now i)"
  by (auto simp: input_real_def key_Validate_def key_real_def key_record_def holdable_def split: if_splits)

lemma key_row_of_record:
  "micro_input i \<Longrightarrow> key_row_of now i = keyRow (key_record now i)"
  by (simp add: key_row_of_def keyRow_def key_record_def micro_input_def)

lemma key_clash_rows:
  assumes "did_law parse" and "keys_back parse s rows"
  shows "list_ex (key_clash (keyRow (key_record now i))) rows \<longleftrightarrow>
    map_of s (in_ID i) \<noteq> None \<or> list_ex (\<lambda>p. name_taken i (snd p)) s"
proof -
  let ?name = "\<lambda>q. ar_tenant_id q = did_string (in_Tenant i) \<and> ar_principal_id q = in_Principal i \<and> ar_name q = in_Name i"
  have "key_clash (keyRow (key_record now i)) q \<longleftrightarrow> ar_id q = did_string (in_ID i) \<or> ?name q" for q
    by (cases "in_Principal i") (auto simp: key_clash_def keyRow_def key_record_def)
  then have "list_ex (key_clash (keyRow (key_record now i))) rows \<longleftrightarrow>
      list_ex (\<lambda>q. ar_id q = did_string (in_ID i)) rows \<or> list_ex ?name rows"
    by (auto simp: list_ex_iff)
  moreover have "list_ex (\<lambda>q. ar_id q = did_string (in_ID i)) rows \<longleftrightarrow> map_of s (in_ID i) \<noteq> None"
    using table_ex[OF key_picks[OF assms]] keys_backD(1)[OF assms(2)] by simp
  moreover have "?name (keyRow r) \<longleftrightarrow> name_taken i r" if "(k, r) \<in> set s" for k r
  proof -
    have "did_string (k_Tenant r) = did_string (in_Tenant i) \<longleftrightarrow> k_Tenant r = in_Tenant i"
      using keys_backD(4)[OF assms(2) that] real_same[OF assms(1)] by (simp add: key_real_def)
    then show ?thesis by (auto simp: name_taken_iff keyRow_def)
  qed
  then have "?name (keyRow (snd p)) \<longleftrightarrow> name_taken i (snd p)" if "p \<in> set s" for p
    using that by (metis prod.collapse)
  then have "list_ex ?name rows \<longleftrightarrow> list_ex (\<lambda>p. name_taken i (snd p)) s"
    unfolding keys_backD(1)[OF assms(2)] ex_table unfolding list_ex_iff by (intro bex_cong refl)
  ultimately show ?thesis by simp
qed

lemma keyRow_sel [simp]:
  "ar_tenant_id (keyRow (key_record now i)) = did_string (in_Tenant i)"
  "ar_principal_id (keyRow (key_record now i)) = in_Principal i"
  by (simp_all add: keyRow_def key_record_def)

lemma pg_key_Add_agrees:
  assumes law: "did_law parse" and bk: "keys_back parse s (t_access_key db)" and i: "input_real parse i" "micro_input i"
    and live: "\<And>x. in_Principal i = Some x \<Longrightarrow> checkPrincipal None (did_string (in_Tenant i)) (Some x) db =
      (if L x then Inr ((), db) else Inl (Own (Store ErrInvalidArgument)))"
    and run: "key_Add (Some (guard_of L)) now i s = (r, s')"
    and refs: "r = Inr () \<Longrightarrow> list_ex (\<lambda>q. tr_id q = did_string (in_Tenant i)) (t_tenant db) \<and>
      (\<forall>x. in_Principal i = Some x \<longrightarrow> findPrincipal (did_string (in_Tenant i)) x db \<noteq> None)"
  shows "\<exists>rows. pg_key_Add no_faults now i db = (r, db\<lparr>t_access_key := rows\<rparr>) \<and> keys_back parse s' rows"
proof (cases "key_Validate i")
  case (Inl e)
  with run have "r = Inl e" "s' = s" by (simp_all add: key_Add_def)
  with Inl bk show ?thesis by (intro exI[of _ "t_access_key db"]) (simp add: pg_key_Add_def)
next
  case (Inr u)
  note b = keys_backD[OF bk]
  have check: "checkPrincipal None (did_string (in_Tenant i)) (in_Principal i) db =
      (case in_Principal i of None \<Rightarrow> Inr ((), db) | Some x \<Rightarrow> if L x then Inr ((), db) else Inl (Own (Store ErrInvalidArgument)))"
    using live by (cases "in_Principal i") (simp_all add: checkPrincipal_def)
  show ?thesis
  proof (cases "\<exists>x. in_Principal i = Some x \<and> \<not> L x")
    case True
    with run Inr have "r = Inl (Store ErrInvalidArgument)" "s' = s" by (auto simp: key_Add_def guard_of_def)
    with True Inr bk check show ?thesis
      by (intro exI[of _ "t_access_key db"]) (auto simp: pg_key_Add_def transaction_def SetTimeout_def run_def MapError_def)
  next
    case False
    with run Inr have add: "key_add now i s = (r, s')" by (auto simp: key_Add_def guard_of_def split: option.splits)
    have check': "checkPrincipal None (did_string (in_Tenant i)) (in_Principal i) db = Inr ((), db)"
      using check False by (auto split: option.splits)
    let ?row = "keyRow (key_record now i)"
    have un: "unscoped ?row" by (auto simp: unscoped_def keyRow_def)
    have ins: "pg_key_Add no_faults now i db = (case insertKey ?row db of
        Inl c \<Rightarrow> (Inl (MapError (keyFailure (Server c ''adding access key''))), db) | Inr (_, db') \<Rightarrow> (Inr (), db'))"
      using Inr check' key_row_of_record[OF i(2)]
      by (simp add: pg_key_Add_def transaction_def SetTimeout_def run_def split: sum.split)
    note clash = key_clash_rows[OF law bk, of now i]
    show ?thesis
    proof (cases "map_of s (in_ID i) \<noteq> None \<or> list_ex (\<lambda>p. name_taken i (snd p)) s")
      case True
      with add have "r = Inl (Store ErrRecordExists)" "s' = s" by (auto simp: key_add_def split: if_splits)
      with True clash un bk ins show ?thesis
        by (intro exI[of _ "t_access_key db"]) (simp add: insertKey_def keyFailure_def MapError_def)
    next
      case free: False
      then have "key_add now i s = (Inr (), AList.update (in_ID i) (key_record now i) s)" by (simp add: key_add_def)
      with add have r: "r = Inr ()" "s' = AList.update (in_ID i) (key_record now i) s" by simp_all
      have "list_ex (\<lambda>q. sr_tenant_id q = ar_tenant_id ?row \<and> Some (sr_external_id q) = ar_principal_id ?row) (t_principal db)"
        if "in_Principal i = Some x" for x
        using that refs[OF r(1)] by (auto simp: findPrincipal_def find_None_iff list_ex_iff)
      then have "insertKey ?row db = Inr ((), db\<lparr>t_access_key := t_access_key db @ [?row]\<rparr>)"
        using un clash free refs[OF r(1)] by (cases "in_Principal i") (simp_all add: insertKey_def)
      moreover have "table_of keyRow s' = t_access_key db @ [?row]" using free unfolding r(2) by (simp add: table_of_insert b(1))
      moreover have "keys_ok s'" by (rule keys_ok_Add[OF b(2) run[unfolded r(1)]])
      moreover have "all_records (\<lambda>k r. key_real parse r) s'"
        using bk key_Validate_real[OF i(1) Inr] unfolding r(2) by (intro all_records_update) (simp_all add: keys_back_def)
      ultimately show ?thesis using ins r(1) by (auto simp: keys_back_def)
    qed
  qed
qed

lemma MapError_Own [simp]: "MapError (Own e) = e"
  by (simp add: MapError_def)

lemma Found_no_faults:
  "map_sum MapError id (Found what (map_sum id (map_option scan) (fetch None row))) = queryRow None wrap scan row"
  by (cases row) (auto simp: Found_def fetch_def queryRow_def split: sum.split)

lemma pg_key_Get_agrees:
  assumes "did_law parse" and "keys_back parse s (t_access_key db)"
  shows "pg_key_Get no_faults parse share db ident = key_Get s ident"
proof -
  have "pg_key_Get no_faults parse share db ident =
      queryRow None ''getting access key'' (scanKey parse) (findKey (did_string ident) db)"
    using Found_no_faults[of "''access key''" "scanKey parse" "findKey (did_string ident) db" "''getting access key''"]
    by (simp add: pg_key_Get_def SetTimeout_def run_def)
  also have "\<dots> = key_Get s ident"
    unfolding findKey_def key_Get_def keys_backD(1)[OF assms(2)]
    by (rule queryRow_key[OF key_picks[OF assms] keys_scan[OF assms(2)]])
  finally show ?thesis .
qed

lemma keyWhere_row:
  assumes law: "did_law parse" and "key_real parse r"
  shows "keyWhere ten cfg (keyRow r) \<longleftrightarrow> key_selected ten cfg r"
proof -
  have h: "real parse (k_ID r)" "real parse (k_Tenant r)" using assms(2) by (simp_all add: key_real_def)
  note t = real_same[OF law h(1)] real_same[OF law h(2)]
  have "did_string (k_ID r) \<in> did_string ` set ids \<longleftrightarrow> k_ID r \<in> set ids" for ids by (auto simp: image_iff t(1))
  then show ?thesis by (simp add: keyWhere_def keyRow_def key_selected_def t split: option.split)
qed

lemma pg_key_ListByTenant_agrees:
  assumes law: "did_law parse" and bk: "keys_back parse s (t_access_key db)"
  shows "\<exists>rs. pg_key_ListByTenant None parse collate db ten cfg = Inr rs \<and> mset rs = mset (key_ListByTenant s ten cfg)"
proof -
  have rows: "t_access_key db = map keyRow (map snd s)" using keys_backD(1)[OF bk] by (simp add: table_of_def)
  have ok: "\<forall>r \<in> set (map snd s). key_real parse r" using keys_backD(4)[OF bk] by auto
  let ?R = "sort_key (\<lambda>r. collate (ar_id (keyRow r))) (key_ListByTenant s ten cfg)"
  have "filter (keyWhere ten cfg) (t_access_key db) = map keyRow (key_ListByTenant s ten cfg)"
    unfolding rows key_ListByTenant_def using ok keyWhere_row[OF law] by (intro filter_rows) blast
  then have "sort_key (\<lambda>r. collate (ar_id r)) (filter (keyWhere ten cfg) (t_access_key db)) = map keyRow ?R"
    by (simp add: sort_key_map)
  moreover have "\<forall>r \<in> set ?R. scanKey parse (keyRow r) = Inr r"
    using keys_scan[OF bk] by (auto simp: key_ListByTenant_def)
  ultimately have "pg_key_ListByTenant None parse collate db ten cfg = Inr ?R"
    using scanAll_rows[where row = keyRow and rs = ?R and scan = "scanKey parse"]
    by (simp add: pg_key_ListByTenant_def queryAll_def fetch_def)
  then show ?thesis by simp
qed

lemma pg_key_Delete_agrees:
  assumes law: "did_law parse" and bk: "keys_back parse s (t_access_key db)"
  shows "\<exists>rows. pg_key_Delete no_faults ident db = (Inr (), db\<lparr>t_access_key := rows\<rparr>) \<and> keys_back parse (key_Delete ident s) rows"
proof -
  have "filter (\<lambda>r. ar_id r \<noteq> did_string ident) (t_access_key db) = table_of keyRow (key_Delete ident s)"
    unfolding keys_backD(1)[OF bk] key_Delete_def by (rule table_delete[OF key_picks[OF law bk]])
  moreover have "keys_back parse (key_Delete ident s) (table_of keyRow (key_Delete ident s))"
    using bk keys_ok_Delete by (auto simp: keys_back_def key_Delete_def)
  ultimately show ?thesis by (auto simp: pg_key_Delete_def transaction_def SetTimeout_def run_def deleteKey_def)
qed

subsection \<open>Principals\<close>

text \<open>
  A tombstone's time is kept by postgres alone: a row is compared by whether it is one.
\<close>

definition markRow :: "principal_row \<Rightarrow> string \<times> string \<times> instant \<times> bool" where
  "markRow r = (sr_tenant_id r, sr_external_id r, sr_created_at r, sr_deleted_at r \<noteq> None)"

definition markEntry :: "entry \<Rightarrow> string \<times> string \<times> instant \<times> bool" where
  "markEntry e = (did_string (p_Tenant (p_rec e)), p_ExternalID (p_rec e), p_CreatedAt (p_rec e), p_deleted e)"

definition idle :: "principals \<Rightarrow> bool" where
  "idle ps \<longleftrightarrow> p_held ps = [] \<and> (\<forall>r. p_wait ps r = None)"

definition principals_back :: "(string \<Rightarrow> did option) \<Rightarrow> principals \<Rightarrow> principal_row list \<Rightarrow> bool" where
  "principals_back parse ps rows \<longleftrightarrow> map markRow rows = table_of markEntry (p_rows ps) \<and> wf_gomap (p_rows ps) \<and>
     (\<forall>(k, e) \<in> set (p_rows ps). k = (p_Tenant (p_rec e), p_ExternalID (p_rec e)) \<and> real parse (fst k)) \<and> idle ps"

definition markOf :: "string \<Rightarrow> string \<Rightarrow> string \<times> string \<times> instant \<times> bool \<Rightarrow> bool" where
  "markOf t x m \<longleftrightarrow> fst m = t \<and> fst (snd m) = x"

lemma principalRow_mark: "principalRow t x r \<longleftrightarrow> markOf t x (markRow r)"
  by (simp add: principalRow_def markOf_def markRow_def)

lemma find_map: "List.find P (map f xs) = map_option f (List.find (\<lambda>x. P (f x)) xs)"
  by (induction xs) simp_all

lemma principal_picks:
  assumes "did_law parse" and "principals_back parse ps rows"
  shows "picks (markOf (did_string t) x) markEntry (t, x) (p_rows ps)"
proof (rule picksI)
  fix k e
  assume "(k, e) \<in> set (p_rows ps)"
  with assms(2) have "k = (p_Tenant (p_rec e), p_ExternalID (p_rec e))" "real parse (fst k)"
    by (auto simp: principals_back_def)
  then show "markOf (did_string t) x (markEntry e) \<longleftrightarrow> k = (t, x)"
    using real_same[OF assms(1)] by (auto simp: markOf_def markEntry_def)
qed

lemma principal_found:
  assumes "did_law parse" and "principals_back parse ps rows"
  shows "map_option markRow (List.find (principalRow (did_string t) x) rows) = map_option markEntry (map_of (p_rows ps) (t, x))"
proof -
  have "map_option markRow (List.find (principalRow (did_string t) x) rows) =
      List.find (markOf (did_string t) x) (map markRow rows)"
    by (simp add: find_map principalRow_mark[abs_def])
  also have "\<dots> = map_option markEntry (map_of (p_rows ps) (t, x))"
    using assms(2) table_find[OF principal_picks[OF assms]] by (simp add: principals_back_def)
  finally show ?thesis .
qed

lemma findPrincipal_row: "findPrincipal t x db = List.find (principalRow t x) (t_principal db)"
  by (simp add: findPrincipal_def principalRow_def[abs_def])

text \<open>The check a key is added under is the guard of the memory store.\<close>

lemma checkPrincipal_live:
  assumes "did_law parse" and "principals_back parse ps (t_principal db)"
  shows "checkPrincipal None (did_string t) (Some x) db =
    (if live ps (t, x) then Inr ((), db) else Inl (Own (Store ErrInvalidArgument)))"
proof (cases "map_of (p_rows ps) (t, x)")
  case None
  with principal_found[OF assms, of t x] show ?thesis
    by (simp add: checkPrincipal_def run_def query_def findPrincipal_row live_def)
next
  case (Some e)
  with principal_found[OF assms, of t x] obtain r
    where r: "List.find (principalRow (did_string t) x) (t_principal db) = Some r" "markRow r = markEntry e" by auto
  then have "sr_deleted_at r \<noteq> None \<longleftrightarrow> p_deleted e" by (simp add: markRow_def markEntry_def)
  with r(1) Some show ?thesis
    by (auto simp: checkPrincipal_def run_def query_def findPrincipal_row live_def)
qed

lemma hold_idle: "idle ps \<Longrightarrow> hold rs ps = (Inr (), ps\<lparr>p_held := rev (sortedRows rs)\<rparr>)"
  by (subst hold_free) (auto simp: idle_def)

lemma release_idle: "release rs (ps\<lparr>p_held := rev (sortedRows rs)\<rparr>) = ps\<lparr>p_held := []\<rparr>"
  by (simp add: release_def filter_empty_conv)

lemma principal_Add_idle:
  assumes "idle ps" and "t \<noteq> Undef" and "x \<noteq> []"
  shows "principal_Add now t x (ps, w) =
    (if live ps (t, x) then (Inl (Store ErrRecordExists), ps, w)
     else (Inr (), ps\<lparr>p_rows := AList.update (t, x) (newEntry now t x) (p_rows ps)\<rparr>, w))"
proof -
  have "p_held ps = []" using assms(1) by (simp add: idle_def)
  then have h: "ps\<lparr>p_held := []\<rparr> = ps" by simp
  have l: "live (ps\<lparr>p_held := hs\<rparr>) = live ps" for hs by (simp add: live_def fun_eq_iff)
  have "release [(t, x)] (ps\<lparr>p_held := [(t, x)], p_rows := rs\<rparr>) = ps\<lparr>p_rows := rs\<rparr>" for rs
    using assms(1) by (cases ps) (simp add: release_def idle_def)
  moreover have "release [(t, x)] (ps\<lparr>p_held := [(t, x)]\<rparr>) = ps" using h by (simp add: release_def)
  ultimately show ?thesis
    using assms hold_idle[OF assms(1), of "[(t, x)]"] by (simp add: principal_Add_def withRows_def l)
qed

lemma principals_back_update:
  assumes law: "did_law parse" and bk: "principals_back parse ps rows" and "real parse t"
    and marks: "map markRow rows' = table_of markEntry (AList.update (t, x) (newEntry now t x) (p_rows ps))"
  shows "principals_back parse (ps\<lparr>p_rows := AList.update (t, x) (newEntry now t x) (p_rows ps)\<rparr>) rows'"
  using assms by (auto simp: principals_back_def set_update_gomap newEntry_def idle_def)

lemma pg_principal_Add_agrees:
  assumes law: "did_law parse" and bk: "principals_back parse ps (t_principal db)" and t: "holdable parse t"
    and add: "principal_Add now t x (ps, ()) = (r, ps', ())"
    and refs: "r = Inr () \<Longrightarrow> list_ex (\<lambda>q. tr_id q = did_string t) (t_tenant db)"
  shows "\<exists>rows. pg_principal_Add no_faults now t x db = (r, db\<lparr>t_principal := rows\<rparr>) \<and> principals_back parse ps' rows"
proof (cases "t = Undef \<or> x = []")
  case True
  with add have "pg_principal_Add no_faults now t x db = (r, db)" "ps' = ps"
    by (cases "t = Undef"; simp add: pg_principal_Add_def principal_Add_def)+
  with bk show ?thesis by (intro exI[of _ "t_principal db"]) simp
next
  case False
  note b = bk[unfolded principals_back_def]
  have rt: "real parse t" using t False by (simp add: holdable_def)
  have m: "principal_Add now t x (ps, ()) = (if live ps (t, x) then (Inl (Store ErrRecordExists), ps, ())
     else (Inr (), ps\<lparr>p_rows := AList.update (t, x) (newEntry now t x) (p_rows ps)\<rparr>, ()))"
    using False b by (intro principal_Add_idle) simp_all
  have pg: "pg_principal_Add no_faults now t x db = (case upsertPrincipal now (did_string t) x db of
      Inl c \<Rightarrow> (Inl (MapError (Server c ''adding principal'')), db)
    | Inr (n, db') \<Rightarrow> if n = 0 then (Inl (Store ErrRecordExists), db) else (Inr (), db'))"
    using False by (simp add: pg_principal_Add_def transaction_def SetTimeout_def Advisory_def lockStmt_def run_def
        split: sum.split)
  note f = principal_found[OF law bk, of t x]
  let ?new = "markEntry (newEntry now t x)"
  have new: "?new = (did_string t, x, now, False)" by (simp add: markEntry_def newEntry_def)
  show ?thesis
  proof (cases "map_of (p_rows ps) (t, x)")
    case None
    then have fnd: "List.find (principalRow (did_string t) x) (t_principal db) = None" using f by simp
    have "\<not> live ps (t, x)" using None by (simp add: live_def)
    with m add have r: "r = Inr ()" "ps' = ps\<lparr>p_rows := AList.update (t, x) (newEntry now t x) (p_rows ps)\<rparr>" by simp_all
    let ?rows = "t_principal db @ [\<lparr>sr_tenant_id = did_string t, sr_external_id = x, sr_created_at = now, sr_deleted_at = None\<rparr>]"
    have "map markRow ?rows = table_of markEntry (AList.update (t, x) (newEntry now t x) (p_rows ps))"
      using b None by (simp add: table_of_insert new) (simp add: markRow_def)
    from principals_back_update[OF law bk rt this] have "principals_back parse ps' ?rows" by (simp add: r(2))
    moreover have "pg_principal_Add no_faults now t x db = (r, db\<lparr>t_principal := ?rows\<rparr>)"
      using pg fnd refs[OF r(1)] r(1) by (simp add: upsertPrincipal_def)
    ultimately show ?thesis by blast
  next
    case (Some e)
    with f obtain row where row: "List.find (principalRow (did_string t) x) (t_principal db) = Some row"
      "markRow row = markEntry e" by auto
    have dead: "sr_deleted_at row = None \<longleftrightarrow> live ps (t, x)"
      using row(2) Some by (auto simp: markRow_def markEntry_def live_def)
    show ?thesis
    proof (cases "live ps (t, x)")
      case True
      with m add have "r = Inl (Store ErrRecordExists)" "ps' = ps" by simp_all
      with True pg row(1) dead bk show ?thesis
        by (intro exI[of _ "t_principal db"]) (simp add: upsertPrincipal_def)
    next
      case dd: False
      with m add have r: "r = Inr ()" "ps' = ps\<lparr>p_rows := AList.update (t, x) (newEntry now t x) (p_rows ps)\<rparr>" by simp_all
      let ?P = "principalRow (did_string t) x"
      let ?rows = "map (\<lambda>r. if ?P r then r\<lparr>sr_deleted_at := None, sr_created_at := now\<rparr> else r) (t_principal db)"
      have "map markRow ?rows = map (\<lambda>m. if markOf (did_string t) x m then ?new else m) (map markRow (t_principal db))"
        by (auto simp: principalRow_mark new) (auto simp: markRow_def markOf_def)
      also have "\<dots> = table_of markEntry (AList.update (t, x) (newEntry now t x) (p_rows ps))"
        using b Some principal_picks[OF law bk] by (simp add: table_update[where f = "\<lambda>_. ?new"])
      finally have "principals_back parse ps' ?rows" using principals_back_update[OF law bk rt] by (simp add: r(2))
      moreover have "pg_principal_Add no_faults now t x db = (r, db\<lparr>t_principal := ?rows\<rparr>)"
        using pg row(1) dead dd r(1) by (simp add: upsertPrincipal_def)
      ultimately show ?thesis by blast
    qed
  qed
qed

text \<open>The live rows are the records the memory store reads.\<close>

lemma scanPrincipal_row:
  assumes "markRow r = markEntry e" and "real parse (p_Tenant (p_rec e))"
  shows "scanPrincipal parse r = Inr (p_rec e)"
  using assms by (auto simp: markRow_def markEntry_def scanPrincipal_def)

lemma find_also:
  assumes "distinct (map f rs)"
  shows "List.find (\<lambda>r. f r = k \<and> Q r) rs =
    (case List.find (\<lambda>r. f r = k) rs of None \<Rightarrow> None | Some r \<Rightarrow> if Q r then Some r else None)"
  using assms
proof (induction rs)
  case (Cons a rs)
  have "List.find (\<lambda>r. f r = k) rs = None" if "f a = k"
    using Cons.prems that by (auto simp: find_None_iff) (metis image_eqI)
  with Cons show ?case by auto
qed simp

lemma pg_principal_Get_agrees:
  assumes law: "did_law parse" and bk: "principals_back parse ps (t_principal db)"
  shows "pg_principal_Get no_faults parse share db t x = principal_Get share ps t x"
proof -
  have "principal_Get share ps t x = lookup ps (t, x)"
    using bk hold_idle[of ps "[(t, x)]"] by (simp add: principal_Get_def principals_back_def lookup_def)
  moreover have "pg_principal_Get no_faults parse share db t x =
      queryRow None ''getting principal'' (scanPrincipal parse) (findLive (did_string t) x db)"
    using Found_no_faults[of "''principal''" "scanPrincipal parse" "findLive (did_string t) x db" "''getting principal''"]
    by (simp add: pg_principal_Get_def SetTimeout_def run_def)
  moreover have "queryRow None ''getting principal'' (scanPrincipal parse) (findLive (did_string t) x db) = lookup ps (t, x)"
  proof -
    note b = bk[unfolded principals_back_def]
    have live: "findLive (did_string t) x db = (case List.find (principalRow (did_string t) x) (t_principal db) of
        None \<Rightarrow> None | Some r \<Rightarrow> if sr_deleted_at r = None then Some r else None)"
    proof -
      have "distinct (map (\<lambda>m. (fst m, fst (snd m))) (map markRow (t_principal db)))"
      proof -
        have eq: "map (\<lambda>m. (fst m, fst (snd m))) (map markRow (t_principal db)) =
            map (\<lambda>k. (did_string (fst k), snd k)) (map fst (p_rows ps))"
          using b by (auto simp: table_of_def markEntry_def)
        have "inj_on (\<lambda>k. (did_string (fst k), snd k)) (set (map fst (p_rows ps)))"
          using b real_same[OF law] by (auto simp: inj_on_def)
        with b show ?thesis unfolding eq by (auto simp: distinct_map wf_gomap_def intro: comp_inj_on)
      qed
      then have "distinct (map (\<lambda>r. (sr_tenant_id r, sr_external_id r)) (t_principal db))"
        by (simp add: markRow_def comp_def)
      from find_also[OF this, of "(did_string t, x)" "\<lambda>r. sr_deleted_at r = None"] show ?thesis
        unfolding findLive_def by (simp add: principalRow_def[abs_def])
    qed
    show ?thesis
    proof (cases "map_of (p_rows ps) (t, x)")
      case None
      with principal_found[OF law bk, of t x] live show ?thesis by (simp add: queryRow_def fetch_def lookup_def)
    next
      case (Some e)
      with principal_found[OF law bk, of t x] obtain r
        where r: "List.find (principalRow (did_string t) x) (t_principal db) = Some r" "markRow r = markEntry e" by auto
      have "real parse (p_Tenant (p_rec e))" using b map_of_SomeD[OF Some] by auto
      from scanPrincipal_row[OF r(2) this] r live Some show ?thesis
        by (auto simp: queryRow_def fetch_def lookup_def markRow_def markEntry_def)
    qed
  qed
  ultimately show ?thesis by simp
qed

lemma scanAll_map: "map scan rows = map Inr xs \<Longrightarrow> scanAll scan rows = Inr xs"
  by (induction rows arbitrary: xs) auto

lemma liveRows_scan:
  assumes law: "did_law parse" and "map markRow rows = map (markEntry \<circ> snd) m"
    and "\<forall>(k, e) \<in> set m. k = (p_Tenant (p_rec e), p_ExternalID (p_rec e)) \<and> real parse (fst k)"
  shows "map (scanPrincipal parse) (filter (\<lambda>r. sr_tenant_id r = did_string t \<and> sr_deleted_at r = None) rows) =
      map (Inr \<circ> p_rec \<circ> snd) (filter (\<lambda>(r, e). fst r = t \<and> \<not> p_deleted e) m) \<and>
    map sr_external_id (filter (\<lambda>r. sr_tenant_id r = did_string t \<and> sr_deleted_at r = None) rows) =
      map (snd \<circ> fst) (filter (\<lambda>(r, e). fst r = t \<and> \<not> p_deleted e) m)"
  using assms(2,3)
proof (induction m arbitrary: rows)
  case (Cons ke m)
  obtain k e where ke: "ke = (k, e)" by (rule prod.exhaust)
  from Cons.prems(1) obtain r rs where rows: "rows = r # rs" "markRow r = markEntry e" "map markRow rs = map (markEntry \<circ> snd) m"
    by (cases rows) (auto simp: ke)
  have e: "k = (p_Tenant (p_rec e), p_ExternalID (p_rec e))" "real parse (p_Tenant (p_rec e))"
    using Cons.prems(2) by (auto simp: ke)
  have "sr_tenant_id r = did_string t \<and> sr_deleted_at r = None \<longleftrightarrow> fst k = t \<and> \<not> p_deleted e"
    using rows(2) e real_same[OF law e(2)] by (auto simp: markRow_def markEntry_def)
  moreover have "scanPrincipal parse r = Inr (p_rec e)" by (rule scanPrincipal_row[OF rows(2) e(2)])
  moreover have "sr_external_id r = snd k" using rows(2) e(1) by (simp add: markRow_def markEntry_def)
  ultimately show ?case using Cons.IH[OF rows(3)] Cons.prems(2) by (simp add: rows(1) ke)
qed simp

text \<open>Sorting rows sorts what they scan to.\<close>

lemma scanAll_sorted:
  assumes "map scan rows = map Inr xs"
  shows "\<exists>ys. scanAll scan (sort_key f rows) = Inr ys \<and> mset ys = mset xs"
proof -
  let ?g = "\<lambda>r. case scan r of Inr x \<Rightarrow> x"
  have "\<forall>r \<in> set rows. scan r = Inr (?g r)"
  proof
    fix r
    assume "r \<in> set rows"
    then have "scan r \<in> set (map Inr xs)" unfolding assms[symmetric] by simp
    then show "scan r = Inr (?g r)" by auto
  qed
  then have "scanAll scan (sort_key f rows) = Inr (map ?g (sort_key f rows))" by (intro scanAll_map) simp
  moreover have "map ?g rows = xs"
  proof -
    have "map ?g rows = map (\<lambda>y. case y of Inr x \<Rightarrow> x) (map scan rows)" by simp
    then show ?thesis by (simp add: assms comp_def)
  qed
  then have "mset (map ?g (sort_key f rows)) = mset xs" by (metis mset_map mset_sort)
  ultimately show ?thesis by blast
qed

lemma pg_principal_lists_agree:
  assumes law: "did_law parse" and bk: "principals_back parse ps (t_principal db)"
  shows "\<exists>recs. pg_principal_ListByTenant None parse collate db t = Inr recs \<and>
      mset recs = mset (principal_ListByTenant ps t)"
    "\<exists>ids. pg_ListIDsByTenant None collate db t = Inr ids \<and> mset ids = mset (ListIDsByTenant ps t)"
proof -
  note b = bk[unfolded principals_back_def table_of_def]
  note l = liveRows_scan[OF law, where rows = "t_principal db" and m = "p_rows ps" and t = t]
  have "map (scanPrincipal parse) (liveRowsOf (did_string t) db) = map Inr (map (p_rec \<circ> snd) (liveOf ps t))"
    using l b by (simp add: liveRowsOf_def liveOf_def)
  from scanAll_sorted[OF this] show "\<exists>recs. pg_principal_ListByTenant None parse collate db t = Inr recs \<and>
      mset recs = mset (principal_ListByTenant ps t)"
    by (simp add: pg_principal_ListByTenant_def queryAll_def fetch_def principal_ListByTenant_def)
  have "map (\<lambda>r. Inr (sr_external_id r) :: err + string) (liveRowsOf (did_string t) db) =
      map Inr (map sr_external_id (liveRowsOf (did_string t) db))"
    by simp
  moreover have "map sr_external_id (liveRowsOf (did_string t) db) = map (snd \<circ> fst) (liveOf ps t)"
    using l b by (simp add: liveRowsOf_def liveOf_def)
  ultimately have "map (\<lambda>r. Inr (sr_external_id r) :: err + string) (liveRowsOf (did_string t) db) =
      map Inr (map (snd \<circ> fst) (liveOf ps t))"
    by simp
  from scanAll_sorted[OF this] show "\<exists>ids. pg_ListIDsByTenant None collate db t = Inr ids \<and> mset ids = mset (ListIDsByTenant ps t)"
    by (simp add: pg_ListIDsByTenant_def queryAll_def fetch_def ListIDsByTenant_def)
qed

lemma principal_DeleteByTenant_idle:
  assumes "idle ps"
  shows "principal_DeleteByTenant t (ps, w) = (Inr (), ps\<lparr>p_rows := filter (\<lambda>(r, e). fst r \<noteq> t) (p_rows ps)\<rparr>, w)"
  using assms hold_idle[OF assms, of "filter (\<lambda>r. fst r = t) (map fst (p_rows ps))"]
  by (cases ps) (simp add: principal_DeleteByTenant_def withRows_def release_def idle_def filter_empty_conv)

lemma pg_principal_DeleteByTenant_agrees:
  assumes law: "did_law parse" and bk: "principals_back parse ps (t_principal db)"
    and del: "principal_DeleteByTenant t (ps, ()) = (r, ps', ())"
    and free: "\<not> list_ex (\<lambda>r. ar_tenant_id r = did_string t \<and> ar_principal_id r \<noteq> None) (t_access_key db)"
  shows "\<exists>rows idx. pg_principal_DeleteByTenant no_faults t db = (r, db\<lparr>t_principal := rows, t_policy_index := idx\<rparr>) \<and>
    principals_back parse ps' rows"
proof -
  note b = bk[unfolded principals_back_def]
  have "idle ps" using b by blast
  from principal_DeleteByTenant_idle[OF this, of t "()"] del
  have r: "r = Inr ()" "ps' = ps\<lparr>p_rows := filter (\<lambda>(r, e). fst r \<noteq> t) (p_rows ps)\<rparr>" by simp_all
  let ?rows = "filter (\<lambda>r. sr_tenant_id r \<noteq> did_string t) (t_principal db)"
  have "map markRow ?rows = filter (\<lambda>m. fst m \<noteq> did_string t) (map markRow (t_principal db))"
    by (simp add: filter_map comp_def markRow_def)
  also have "\<dots> = filter (\<lambda>m. fst m \<noteq> did_string t) (table_of markEntry (p_rows ps))" using b by simp
  also have "\<dots> = table_of markEntry (filter (\<lambda>(k, _). fst k \<noteq> t) (p_rows ps))"
    using b real_same[OF law] by (intro table_filter) (auto simp: markEntry_def)
  finally have "principals_back parse ps' ?rows" using b r(2) by (auto simp: principals_back_def idle_def)
  moreover have "\<not> list_ex (\<lambda>r. ar_tenant_id r = did_string t \<and> refersTo (did_string t) (ar_principal_id r) db) (t_access_key db)"
    using free by (auto simp: list_ex_iff refersTo_def)
  ultimately show ?thesis
    using r(1) by (auto simp: pg_principal_DeleteByTenant_def transaction_def SetTimeout_def run_def deletePrincipals_def)
qed

subsection \<open>Wrap keys\<close>

definition wrapRow :: "wrap_rec \<Rightarrow> wrap_row" where
  "wrapRow r = \<lparr>xr_tenant_id = did_string (wr_Tenant r), xr_version = wr_Version r, xr_kid = wr_KID r,
     xr_status = wrap_text (wr_Status r), xr_epoch = wr_Epoch r, xr_vault_key = wr_VaultKey r,
     xr_created_at = wr_CreatedAt r, xr_archived_at = wr_ArchivedAt r\<rparr>"

definition wraps_back :: "(string \<Rightarrow> did option) \<Rightarrow> wrap_keys \<Rightarrow> wrap_row list \<Rightarrow> bool" where
  "wraps_back parse s rows \<longleftrightarrow> rows = table_of wrapRow s \<and> wraps_ok s \<and> all_records (\<lambda>k r. real parse (wr_Tenant r)) s"

lemma wrap_text_inject [simp]: "wrap_text a = wrap_text b \<longleftrightarrow> a = b" "wrap_text a = ''active'' \<longleftrightarrow> a = Current"
  by (cases a; cases b; simp) (cases a; simp)

lemma wraps_backD:
  assumes "wraps_back parse s rows"
  shows "rows = table_of wrapRow s" "wraps_ok s" "wf_gomap s"
    "(k, r) \<in> set s \<Longrightarrow> k = wrap_key_of r \<and> real parse (wr_Tenant r)"
proof -
  note t = assms[unfolded wraps_back_def]
  show "rows = table_of wrapRow s" "wraps_ok s" using t by blast+
  then show w: "wf_gomap s" by (simp add: wraps_okD)
  assume "(k, r) \<in> set s"
  then have m: "map_of s k = Some r" using w by (simp add: wf_gomap_def)
  have "all_records (\<lambda>k r. real parse (wr_Tenant r)) s" using t by blast
  from all_recordsD[OF this m] wraps_okD(3)[OF conjunct1[OF conjunct2[OF t]] m]
  show "k = wrap_key_of r \<and> real parse (wr_Tenant r)" by simp
qed

lemma wraps_scan: "wraps_back parse s rows \<Longrightarrow> \<forall>(k, r) \<in> set s. scanWrap parse (wrapRow r) = Inr r"
  using wraps_backD(4)[of parse s rows]
  by (auto simp: scanWrap_def wrapRow_def intro: wrap_status.exhaust)

lemma wrap_picks:
  assumes "did_law parse" and "wraps_back parse s rows"
  shows "picks (\<lambda>r. xr_tenant_id r = did_string t \<and> xr_version r = v) wrapRow (did_string t, v) s"
  using wraps_backD(4)[OF assms(2)] by (intro picksI) (auto simp: wrapRow_def wrap_key_of_def)

lemma pg_wrap_Get_agrees:
  assumes law: "did_law parse" and bk: "wraps_back parse s (t_wrap_key db)"
  shows "pg_wrap_Get None parse db t = wrap_Get s t"
proof -
  have "\<forall>(k, r) \<in> set s. (xr_tenant_id (wrapRow r) = did_string t \<and> xr_status (wrapRow r) = ''active'') =
      (wr_Tenant r = t \<and> wr_Status r = Current)"
    using wraps_backD(4)[OF bk] real_same[OF law] by (auto simp: wrapRow_def)
  then show ?thesis
    unfolding pg_wrap_Get_def wrap_Get_def wraps_backD(1)[OF bk]
    by (rule queryRow_first[where row = wrapRow and s = s, OF _ wraps_scan[OF bk]])
qed

lemma pg_wrap_GetByKID_agrees:
  assumes "wraps_back parse s (t_wrap_key db)"
  shows "pg_wrap_GetByKID None parse db kid = wrap_GetByKID s kid"
  unfolding pg_wrap_GetByKID_def wrap_GetByKID_def wraps_backD(1)[OF assms]
  by (rule queryRow_first[where row = wrapRow and s = s, OF _ wraps_scan[OF assms]]) (simp add: wrapRow_def case_prod_beta)

lemma pg_wrap_GetVersion_agrees:
  assumes "did_law parse" and "wraps_back parse s (t_wrap_key db)" and "int4 v"
  shows "pg_wrap_GetVersion None parse db t v = wrap_GetVersion s t v"
  using assms(3) queryRow_key[OF wrap_picks[OF assms(1,2)] wraps_scan[OF assms(2)]]
  by (simp add: pg_wrap_GetVersion_def wrap_GetVersion_def wraps_backD(1)[OF assms(2)])

lemma pg_wrap_List_agrees:
  assumes law: "did_law parse" and bk: "wraps_back parse s (t_wrap_key db)"
  shows "pg_wrap_List None parse db t = Inr (wrap_List s t)"
proof -
  have rows: "t_wrap_key db = map wrapRow (map snd s)" using wraps_backD(1)[OF bk] by (simp add: table_of_def)
  have "\<forall>r \<in> set (map snd s). (xr_tenant_id (wrapRow r) = did_string t) = (wr_Tenant r = t)"
    using wraps_backD(4)[OF bk] real_same[OF law] by (auto simp: wrapRow_def)
  then have "filter (\<lambda>r. xr_tenant_id r = did_string t) (t_wrap_key db) = map wrapRow (filter (\<lambda>r. wr_Tenant r = t) (map snd s))"
    unfolding rows by (rule filter_rows)
  then have "sort_key (\<lambda>r. - xr_version r) (filter (\<lambda>r. xr_tenant_id r = did_string t) (t_wrap_key db)) =
      map wrapRow (wrap_List s t)"
    by (simp add: sort_key_map wrap_List_def) (simp add: wrapRow_def)
  moreover have "\<forall>r \<in> set (wrap_List s t). scanWrap parse (wrapRow r) = Inr r"
    using wraps_scan[OF bk] by (auto simp: wrap_List_def)
  ultimately show ?thesis
    using scanAll_rows[where row = wrapRow and rs = "wrap_List s t" and scan = "scanWrap parse"]
    by (simp add: pg_wrap_List_def queryAll_def fetch_def)
qed

lemma pg_wrap_Add_agrees:
  assumes law: "did_law parse" and bk: "wraps_back parse s (t_wrap_key db)"
    and i: "real parse (wi_Tenant i)" "int4 (wi_Version i)" "int4 (wi_Epoch i)"
    and run: "wrap_Add now i s = (r, s')"
  shows "\<exists>rows. pg_wrap_Add None now i db = (r, db\<lparr>t_wrap_key := rows\<rparr>) \<and> wraps_back parse s' rows"
proof -
  note b = wraps_backD[OF bk]
  let ?rec = "wrap_record now i"
  let ?k = "wrap_key_of ?rec"
  have row: "\<lparr>xr_tenant_id = did_string (wi_Tenant i), xr_version = wi_Version i, xr_kid = wi_KID i,
      xr_status = wrap_text Current, xr_epoch = wi_Epoch i, xr_vault_key = wi_VaultKey i, xr_created_at = now,
      xr_archived_at = None\<rparr> = wrapRow ?rec"
    by (simp add: wrapRow_def wrap_record_def)
  have pg: "pg_wrap_Add None now i db = (case exec None (insertWrap (wrapRow ?rec)) db of
      (Inl c, db') \<Rightarrow> (Inl (if c = UniqueViolation then Store ErrRecordExists else Internal ''adding wrap key''), db')
    | (Inr _, db') \<Rightarrow> (Inr (), db'))"
    unfolding pg_wrap_Add_def row using i by simp
  have k: "?k = (did_string (wi_Tenant i), wi_Version i)" by (simp add: wrap_key_of_def wrap_record_def)
  let ?P1 = "\<lambda>q. xr_tenant_id q = did_string (wi_Tenant i) \<and> xr_version q = wi_Version i"
  let ?P2 = "\<lambda>q. xr_kid q = wi_KID i \<or> xr_tenant_id q = did_string (wi_Tenant i) \<and> xr_status q = ''active''"
  let ?Q2 = "\<lambda>e. wr_KID e = wi_KID i \<or> wr_Tenant e = wi_Tenant i \<and> wr_Status e = Current"
  have "?P2 (wrapRow (snd p)) \<longleftrightarrow> ?Q2 (snd p)" if "p \<in> set s" for p
    using b(4)[of "fst p" "snd p"] that real_same[OF law, of "wr_Tenant (snd p)"] by (auto simp: wrapRow_def)
  then have two: "list_ex ?P2 (t_wrap_key db) \<longleftrightarrow> list_ex (\<lambda>(_, e). ?Q2 e) s"
    unfolding b(1) ex_table by (simp add: list_ex_iff case_prod_beta)
  have one: "list_ex ?P1 (t_wrap_key db) \<longleftrightarrow> map_of s ?k \<noteq> None"
    unfolding b(1) k by (rule table_ex[OF wrap_picks[OF law bk]])
  have clash: "list_ex (\<lambda>q. xr_tenant_id q = xr_tenant_id (wrapRow ?rec) \<and> xr_version q = xr_version (wrapRow ?rec) \<or>
        xr_kid q = xr_kid (wrapRow ?rec) \<or>
        xr_tenant_id q = xr_tenant_id (wrapRow ?rec) \<and> xr_status q = ''active'' \<and> xr_status (wrapRow ?rec) = ''active'')
      (t_wrap_key db) \<longleftrightarrow> map_of s ?k \<noteq> None \<or> list_ex (\<lambda>(_, e). ?Q2 e) s"
    using one two by (auto simp: list_ex_iff wrapRow_def wrap_record_def)
  have st: "xr_status (wrapRow ?rec) \<in> {''active'', ''archived''}" by (simp add: wrapRow_def wrap_record_def)
  have mem: "wrap_Add now i s = (if map_of s ?k \<noteq> None \<or> list_ex (\<lambda>(_, e). ?Q2 e) s then (Inl (Store ErrRecordExists), s)
      else (Inr (), AList.update ?k ?rec s))"
    by (simp add: wrap_Add_def Let_def wrap_record_def)
  show ?thesis
  proof (cases "map_of s ?k \<noteq> None \<or> list_ex (\<lambda>(_, e). ?Q2 e) s")
    case True
    then have "insertWrap (wrapRow ?rec) db = Inl UniqueViolation"
      unfolding insertWrap_def using clash st by (simp only: if_True if_False) simp
    moreover have "r = Inl (Store ErrRecordExists)" "s' = s" using True mem run by simp_all
    ultimately show ?thesis
      using bk by (intro exI[of _ "t_wrap_key db"]) (simp add: pg exec_def)
  next
    case False
    then have ins: "insertWrap (wrapRow ?rec) db = Inr ((), db\<lparr>t_wrap_key := t_wrap_key db @ [wrapRow ?rec]\<rparr>)"
      unfolding insertWrap_def using clash st by (simp only: if_False) simp
    have r: "r = Inr ()" "s' = AList.update ?k ?rec s" using False mem run by simp_all
    have "table_of wrapRow s' = t_wrap_key db @ [wrapRow ?rec]" using False unfolding r(2) by (simp add: table_of_insert b(1))
    moreover have "wraps_ok s'"
      using real_defined[OF law i(1)] by (intro wraps_ok_Add[OF b(2) _ run[unfolded r(1)]]) simp
    moreover have "all_records (\<lambda>k r. real parse (wr_Tenant r)) s'"
      using bk i(1) unfolding r(2) by (intro all_records_update) (simp_all add: wraps_back_def wrap_record_def)
    ultimately have "wraps_back parse s' (t_wrap_key db @ [wrapRow ?rec])" by (simp add: wraps_back_def)
    with ins r(1) show ?thesis by (auto simp: pg exec_def)
  qed
qed

lemma pg_wrap_Archive_agrees:
  assumes law: "did_law parse" and bk: "wraps_back parse s (t_wrap_key db)" and v: "int4 v" and now: "micros now = now"
    and run: "wrap_Archive now t v s = (r, s')"
  shows "\<exists>rows. pg_wrap_Archive None now t v db = (r, db\<lparr>t_wrap_key := rows\<rparr>) \<and> wraps_back parse s' rows"
proof -
  note b = wraps_backD[OF bk]
  note p = wrap_picks[OF law bk, of t v]
  let ?k = "(did_string t, v)"
  let ?P = "\<lambda>r. xr_tenant_id r = did_string t \<and> xr_version r = v \<and> xr_status r = ''active''"
  let ?f = "\<lambda>r. r\<lparr>xr_status := ''archived'', xr_archived_at := Some now\<rparr>"
  have pg: "pg_wrap_Archive None now t v db =
      (if length (filter ?P (t_wrap_key db)) = 0 then Inl (Store ErrRecordNotFound) else Inr (),
       db\<lparr>t_wrap_key := map (\<lambda>r. if ?P r then ?f r else r) (t_wrap_key db)\<rparr>)"
    using v now by (simp add: pg_wrap_Archive_def exec_def archiveWrap_def Let_def del: length_0_conv)
  have row: "?P (wrapRow rec) \<longleftrightarrow> k = ?k \<and> wr_Status rec = Current" if "(k, rec) \<in> set s" for k rec
    using p that by (auto simp: picks_def wrapRow_def)
  show ?thesis
  proof (cases "\<exists>rec. map_of s ?k = Some rec \<and> wr_Status rec = Current")
    case True
    then obtain rec where rec: "map_of s ?k = Some rec" "wr_Status rec = Current" by blast
    let ?rec = "rec\<lparr>wr_Status := Archived, wr_ArchivedAt := Some now\<rparr>"
    have r: "r = Inr ()" "s' = AList.update ?k ?rec s" using run rec by (simp_all add: wrap_Archive_def)
    have "picks ?P wrapRow ?k s"
    proof (rule picksI)
      fix k' e
      assume m: "(k', e) \<in> set s"
      then have "k' = ?k \<Longrightarrow> e = rec" using rec(1) b(3) by (simp add: gomap_in_iff)
      then show "?P (wrapRow e) \<longleftrightarrow> k' = ?k" using row[OF m] rec(2) by auto
    qed
    from table_update[OF this b(3) rec(1), of ?rec ?f]
    have "map (\<lambda>r. if ?P r then ?f r else r) (t_wrap_key db) = table_of wrapRow s'"
      unfolding b(1) r(2) by (simp add: wrapRow_def)
    moreover have "wrapRow rec \<in> set (t_wrap_key db)" "?P (wrapRow rec)"
      using row[OF map_of_SomeD[OF rec(1)]] map_of_SomeD[OF rec(1)] rec(2) unfolding b(1) by (auto simp: set_table)
    then have "length (filter ?P (t_wrap_key db)) \<noteq> 0" by (auto simp: filter_empty_conv)
    moreover have "wraps_ok s'" by (rule wraps_ok_Archive[OF b(2) run])
    moreover have "real parse (wr_Tenant ?rec)" using b(4)[OF map_of_SomeD[OF rec(1)]] by simp
    then have "all_records (\<lambda>k r. real parse (wr_Tenant r)) s'"
      using bk unfolding r(2) by (intro all_records_update) (simp_all add: wraps_back_def)
    ultimately show ?thesis using pg r(1) by (auto simp: wraps_back_def)
  next
    case False
    then have r: "r = Inl (Store ErrRecordNotFound)" "s' = s"
      using run by (auto simp: wrap_Archive_def Let_def split: option.splits if_splits)
    have none: "\<not> ?P q" if "q \<in> set (t_wrap_key db)" for q
      using that row False b(3) unfolding b(1) set_table by (auto simp: gomap_in_iff)
    have "map (\<lambda>r. if ?P r then ?f r else r) (t_wrap_key db) = t_wrap_key db"
      by (rule map_idI) (simp only: none if_False)
    moreover have "filter ?P (t_wrap_key db) = []" using none by (auto simp: filter_empty_conv)
    ultimately have "map (\<lambda>r. if ?P r then ?f r else r) (t_wrap_key db) = t_wrap_key db" "filter ?P (t_wrap_key db) = []" .
    with pg r bk show ?thesis by (intro exI[of _ "t_wrap_key db"]) simp
  qed
qed

lemma pg_wrap_Delete_agrees:
  assumes law: "did_law parse" and bk: "wraps_back parse s (t_wrap_key db)"
  shows "\<exists>rows. pg_wrap_Delete None t db = (Inr (), db\<lparr>t_wrap_key := rows\<rparr>) \<and> wraps_back parse (wrap_Delete t s) rows"
proof -
  note b = wraps_backD[OF bk]
  have "filter (\<lambda>r. xr_tenant_id r \<noteq> did_string t) (t_wrap_key db) =
      table_of wrapRow (filter (\<lambda>(k, _). fst k \<noteq> did_string t) s)"
    unfolding b(1) using b(4) by (intro table_filter) (auto simp: wrapRow_def wrap_key_of_def)
  also have "filter (\<lambda>(k, _). fst k \<noteq> did_string t) s = wrap_Delete t s"
    unfolding wrap_Delete_def by (rule filter_cong) auto
  finally have rows: "filter (\<lambda>r. xr_tenant_id r \<noteq> did_string t) (t_wrap_key db) = table_of wrapRow (wrap_Delete t s)" .
  have "all_records (\<lambda>k r. real parse (wr_Tenant r)) (wrap_Delete t s)"
    using bk by (auto simp: wraps_back_def all_records_def map_of_wrap_Delete)
  then have "wraps_back parse (wrap_Delete t s) (table_of wrapRow (wrap_Delete t s))"
    using wraps_ok_Delete[OF b(2)] by (simp add: wraps_back_def)
  with rows show ?thesis by (auto simp: pg_wrap_Delete_def exec_def deleteWraps_def)
qed

end
