(* ===== verification/Pg_Agreement.thy ===== *)
theory Pg_Agreement
  imports Pg_Credentials
begin

text \<open>
  The stores taken together: a history of calls on the postgres backends has the answers it has
  on the memory backends, as long as no reference is left dangling and the server does what it
  is asked.
\<close>

subsection \<open>The memory backends together\<close>

record registry =
  g_tenants :: tenants
  g_providers :: providers
  g_buckets :: buckets
  g_keys :: access_keys
  g_principals :: principals
  g_wraps :: wrap_keys

text \<open>The guard the memory store of access keys is built with: the principal store's \<open>WithLive\<close>.\<close>

definition memGuard :: "principals \<Rightarrow> did \<Rightarrow> string \<Rightarrow> err + unit" where
  "memGuard ps t x = fst (WithLive t x (\<lambda>s. (Inr (), s)) (ps, ()))"

fun mem_call :: "instant \<Rightarrow> registry_cmd \<Rightarrow> registry \<Rightarrow> (err + registry_answer) \<times> registry" where
  "mem_call now (TenantAdd d x st) m =
     (let (r, s) = tenant_Add now d x st (g_tenants m) in (map_sum id (\<lambda>_. Ok) r, m\<lparr>g_tenants := s\<rparr>))"
| "mem_call now (TenantGet d) m = answered TheTenant (tenant_Get (g_tenants m) d) m"
| "mem_call now (TenantByExternal x) m = answered TheTenant (tenant_GetByExternalID (g_tenants m) x) m"
| "mem_call now (TenantSetStatus d st) m =
     (let (r, s) = tenant_SetStatus now d st (g_tenants m) in (map_sum id (\<lambda>_. Ok) r, m\<lparr>g_tenants := s\<rparr>))"
| "mem_call now (TenantDelete d) m = (Inr Ok, m\<lparr>g_tenants := tenant_Delete d (g_tenants m)\<rparr>)"
| "mem_call now (ProviderAdd d region policy) m =
     (let (r, s) = provider_Add now d region policy (g_providers m) in (map_sum id (\<lambda>_. Ok) r, m\<lparr>g_providers := s\<rparr>))"
| "mem_call now (ProviderGet d) m = answered TheProvider (provider_Get (g_providers m) d) m"
| "mem_call now (ProviderByRegion x) m = answered TheProvider (provider_GetByRegion (g_providers m) x) m"
| "mem_call now (ProviderSetPolicy d policy) m =
     (let (r, s) = provider_SetPolicy now d policy (g_providers m) in (map_sum id (\<lambda>_. Ok) r, m\<lparr>g_providers := s\<rparr>))"
| "mem_call now ProviderList m = (Inr (TheProviders (provider_List (g_providers m))), m)"
| "mem_call now (BucketAdd d t p n) m =
     (let (r, s) = bucket_Add now d t p n (g_buckets m) in (map_sum id (\<lambda>_. Ok) r, m\<lparr>g_buckets := s\<rparr>))"
| "mem_call now (BucketByName n) m = answered TheBucket (bucket_GetByName (g_buckets m) n) m"
| "mem_call now (BucketList t q c) m = answered TheBuckets (bucket_ListByTenant (g_buckets m) (t, q) c) m"
| "mem_call now (BucketDelete d) m = (Inr Ok, m\<lparr>g_buckets := bucket_Delete d (g_buckets m)\<rparr>)"
| "mem_call now (KeyAdd i) m =
     (let (r, s) = key_Add (Some (memGuard (g_principals m))) now i (g_keys m) in (map_sum id (\<lambda>_. Ok) r, m\<lparr>g_keys := s\<rparr>))"
| "mem_call now (KeyGet share d) m = answered TheKey (key_Get (g_keys m) d) m"
| "mem_call now (KeyList t cfg) m = (Inr (TheKeys (key_ListByTenant (g_keys m) t cfg)), m)"
| "mem_call now (KeyDelete d) m = (Inr Ok, m\<lparr>g_keys := key_Delete d (g_keys m)\<rparr>)"
| "mem_call now (PrincipalAdd t x) m =
     (let (r, ps, _) = principal_Add now t x (g_principals m, ()) in (map_sum id (\<lambda>_. Ok) r, m\<lparr>g_principals := ps\<rparr>))"
| "mem_call now (PrincipalGet share t x) m = answered ThePrincipal (principal_Get share (g_principals m) t x) m"
| "mem_call now (PrincipalList t) m = (Inr (ThePrincipals (principal_ListByTenant (g_principals m) t)), m)"
| "mem_call now (PrincipalIDs t) m = (Inr (TheIDs (ListIDsByTenant (g_principals m) t)), m)"
| "mem_call now (PrincipalsDelete t) m =
     (let (r, ps, _) = principal_DeleteByTenant t (g_principals m, ()) in (map_sum id (\<lambda>_. Ok) r, m\<lparr>g_principals := ps\<rparr>))"
| "mem_call now (WrapAdd i) m =
     (let (r, s) = wrap_Add now i (g_wraps m) in (map_sum id (\<lambda>_. Ok) r, m\<lparr>g_wraps := s\<rparr>))"
| "mem_call now (WrapGet t) m = answered TheWrap (wrap_Get (g_wraps m) t) m"
| "mem_call now (WrapVersion t v) m = answered TheWrap (wrap_GetVersion (g_wraps m) t v) m"
| "mem_call now (WrapByKID x) m = answered TheWrap (wrap_GetByKID (g_wraps m) x) m"
| "mem_call now (WrapList t) m = (Inr (TheWraps (wrap_List (g_wraps m) t)), m)"
| "mem_call now (WrapArchive t v) m =
     (let (r, s) = wrap_Archive now t v (g_wraps m) in (map_sum id (\<lambda>_. Ok) r, m\<lparr>g_wraps := s\<rparr>))"
| "mem_call now (WrapDelete t) m = (Inr Ok, m\<lparr>g_wraps := wrap_Delete t (g_wraps m)\<rparr>)"

subsection \<open>What is compared\<close>

text \<open>The tables hold what the memory stores do.\<close>

definition backs :: "(string \<Rightarrow> did option) \<Rightarrow> registry \<Rightarrow> 'j db \<Rightarrow> bool" where
  "backs parse m db \<longleftrightarrow> tenants_back parse (g_tenants m) (t_tenant db) \<and> providers_back parse (g_providers m) (t_provider db) \<and>
     buckets_back parse (g_buckets m) (t_bucket db) \<and> keys_back parse (g_keys m) (t_access_key db) \<and>
     principals_back parse (g_principals m) (t_principal db) \<and> wraps_back parse (g_wraps m) (t_wrap_key db)"

text \<open>No reference dangles: what the foreign keys of the schema say, over the memory stores.\<close>

definition refs_ok :: "registry \<Rightarrow> bool" where
  "refs_ok m \<longleftrightarrow>
     (\<forall>(k, b) \<in> set (g_buckets m). map_of (g_tenants m) (b_Tenant b) \<noteq> None \<and> b_Provider b \<in> pr_ID ` set (g_providers m)) \<and>
     (\<forall>(k, r) \<in> set (g_keys m). map_of (g_tenants m) (k_Tenant r) \<noteq> None \<and>
        (case k_Principal r of None \<Rightarrow> True | Some x \<Rightarrow> map_of (p_rows (g_principals m)) (k_Tenant r, x) \<noteq> None)) \<and>
     (\<forall>(k, e) \<in> set (p_rows (g_principals m)). map_of (g_tenants m) (fst k) \<noteq> None)"

text \<open>
  Calls both backends take alike: with DIDs a program can hold, times to the microsecond, integers
  of 32 bits, and a listing of buckets, whose page the limit cuts, with a positive limit.
\<close>

definition alike :: "(string \<Rightarrow> did option) \<Rightarrow> instant \<Rightarrow> registry_cmd \<Rightarrow> bool" where
  "alike parse now c \<longleftrightarrow> micros now = now \<and>
     (case c of
        TenantAdd d x st \<Rightarrow> holdable parse d
      | ProviderAdd d region policy \<Rightarrow> holdable parse d \<and> (case policy of None \<Rightarrow> True | Some e \<Rightarrow> real parse e)
      | ProviderSetPolicy d policy \<Rightarrow> holdable parse policy
      | BucketAdd d t p n \<Rightarrow> holdable parse d \<and> holdable parse t \<and> holdable parse p
      | BucketList t q cursor \<Rightarrow> bucket_limit q > 0
      | KeyAdd i \<Rightarrow> input_real parse i \<and> micro_input i
      | PrincipalAdd t x \<Rightarrow> holdable parse t
      | WrapAdd i \<Rightarrow> real parse (wi_Tenant i) \<and> int4 (wi_Version i) \<and> int4 (wi_Epoch i)
      | WrapVersion t v \<Rightarrow> int4 v
      | WrapArchive t v \<Rightarrow> int4 v
      | _ \<Rightarrow> True)"

text \<open>Listings of keys and of principals are sets: the memory store promises no order of keys.\<close>

fun same_listing :: "registry_answer \<Rightarrow> registry_answer \<Rightarrow> bool" where
  "same_listing (TheKeys xs) (TheKeys ys) = (mset xs = mset ys)"
| "same_listing (ThePrincipals xs) (ThePrincipals ys) = (mset xs = mset ys)"
| "same_listing (TheIDs xs) (TheIDs ys) = (mset xs = mset ys)"
| "same_listing a b = (a = b)"

fun same_answer :: "err + registry_answer \<Rightarrow> err + registry_answer \<Rightarrow> bool" where
  "same_answer (Inr a) (Inr b) = same_listing a b"
| "same_answer a b = (a = b)"

lemma same_listing_refl [simp]: "same_listing a a"
  by (cases a) simp_all

lemma same_answer_refl [simp]: "same_answer a a"
  by (cases a) simp_all

subsection \<open>One call\<close>

text \<open>What a call comes to on the tables, given what it comes to in memory.\<close>

definition call_agrees ::
  "(string \<Rightarrow> did option) \<Rightarrow> (err + registry_answer) \<times> registry \<Rightarrow> (err + registry_answer) \<times> 'j db \<Rightarrow> bool" where
  "call_agrees parse mr pr \<longleftrightarrow> same_answer (fst pr) (fst mr) \<and> backs parse (snd mr) (snd pr)"

text \<open>Which store a call is on.\<close>

definition tenant_call :: "registry_cmd \<Rightarrow> bool" where
  "tenant_call c \<longleftrightarrow> (case c of TenantAdd _ _ _ \<Rightarrow> True | TenantGet _ \<Rightarrow> True | TenantByExternal _ \<Rightarrow> True | TenantSetStatus _ _ \<Rightarrow> True | TenantDelete _ \<Rightarrow> True | _ \<Rightarrow> False)"

definition provider_call :: "registry_cmd \<Rightarrow> bool" where
  "provider_call c \<longleftrightarrow> (case c of ProviderAdd _ _ _ \<Rightarrow> True | ProviderGet _ \<Rightarrow> True | ProviderByRegion _ \<Rightarrow> True | ProviderSetPolicy _ _ \<Rightarrow> True | ProviderList \<Rightarrow> True | _ \<Rightarrow> False)"

definition bucket_call :: "registry_cmd \<Rightarrow> bool" where
  "bucket_call c \<longleftrightarrow> (case c of BucketAdd _ _ _ _ \<Rightarrow> True | BucketByName _ \<Rightarrow> True | BucketList _ _ _ \<Rightarrow> True | BucketDelete _ \<Rightarrow> True | _ \<Rightarrow> False)"

definition key_call :: "registry_cmd \<Rightarrow> bool" where
  "key_call c \<longleftrightarrow> (case c of KeyAdd _ \<Rightarrow> True | KeyGet _ _ \<Rightarrow> True | KeyList _ _ \<Rightarrow> True | KeyDelete _ \<Rightarrow> True | _ \<Rightarrow> False)"

definition principal_call :: "registry_cmd \<Rightarrow> bool" where
  "principal_call c \<longleftrightarrow> (case c of PrincipalAdd _ _ \<Rightarrow> True | PrincipalGet _ _ _ \<Rightarrow> True | PrincipalList _ \<Rightarrow> True | PrincipalIDs _ \<Rightarrow> True | PrincipalsDelete _ \<Rightarrow> True | _ \<Rightarrow> False)"

definition wrap_call :: "registry_cmd \<Rightarrow> bool" where
  "wrap_call c \<longleftrightarrow> (case c of WrapAdd _ \<Rightarrow> True | WrapGet _ \<Rightarrow> True | WrapVersion _ _ \<Rightarrow> True | WrapByKID _ \<Rightarrow> True | WrapList _ \<Rightarrow> True | WrapArchive _ _ \<Rightarrow> True | WrapDelete _ \<Rightarrow> True | _ \<Rightarrow> False)"

lemma wrote_pair: "wrote (r, s) = (map_sum id (\<lambda>_. Ok) r, s)"
  by (simp add: wrote_def)

lemma answered_agrees: "r = r' \<Longrightarrow> backs parse m db \<Longrightarrow> call_agrees parse (answered tag r m) (answered tag r' db)"
  by (simp add: call_agrees_def answered_def)

lemma memGuard_idle: "idle ps \<Longrightarrow> memGuard ps t x = guard_of (\<lambda>x. live ps (t, x)) t x"
  using hold_idle[of ps "[(t, x)]"] by (simp add: memGuard_def WithLive_def withRows_def live_def guard_of_def)

lemma key_Add_guard:
  assumes "idle ps"
  shows "key_Add (Some (memGuard ps)) now i s = key_Add (Some (guard_of (\<lambda>x. live ps (in_Tenant i, x)))) now i s"
  using memGuard_idle[OF assms] by (simp add: key_Add_def split: sum.split option.split)

lemma tenant_call_agrees:
  assumes law: "did_law parse" and bk: "backs parse m db" and ok: "alike parse now c"
    and refs: "refs_ok (snd (mem_call now c m))"
    and c: "tenant_call c"
  shows "call_agrees parse (mem_call now c m) (pg_call parse collate no_faults now c db)"
proof -
  have t: "tenants_back parse (g_tenants m) (t_tenant db)" using bk by (simp add: backs_def)
  have keep: "backs parse (m\<lparr>g_tenants := s\<rparr>) (db\<lparr>t_tenant := rows\<rparr>)" if "tenants_back parse s rows" for s rows
    using that bk by (simp add: backs_def)
  from c consider (1) d x st where "c = TenantAdd d x st"
    | (2) d where "c = TenantGet d"
    | (3) x where "c = TenantByExternal x"
    | (4) d st where "c = TenantSetStatus d st"
    | (5) d where "c = TenantDelete d"
    by (cases c) (simp_all add: tenant_call_def)
  then show ?thesis
  proof cases
    case 1
    obtain r s where run: "tenant_Add now d x st (g_tenants m) = (r, s)" by (rule prod.exhaust)
    have "holdable parse d" using ok by (simp add: alike_def 1)
    from pg_tenant_Add_agrees[OF law t this run] keep show ?thesis by (auto simp: 1 run call_agrees_def wrote_def)
  next
    case 2
    then show ?thesis using pg_tenant_Get_agrees[OF law t] bk by (simp add: answered_agrees)
  next
    case 3
    then show ?thesis using pg_tenant_GetByExternalID_agrees[OF t] bk by (simp add: answered_agrees)
  next
    case 4
    obtain r s where run: "tenant_SetStatus now d st (g_tenants m) = (r, s)" by (rule prod.exhaust)
    from pg_tenant_SetStatus_agrees[OF law t run] keep show ?thesis by (auto simp: 4 run call_agrees_def wrote_def)
  next
    case 5
    have gone: "map_of (tenant_Delete d (g_tenants m)) d = None" by (simp add: tenant_Delete_def)
    note r = refs[unfolded 5 refs_ok_def, simplified]
    have b: "buckets_back parse (g_buckets m) (t_bucket db)" "keys_back parse (g_keys m) (t_access_key db)"
      "principals_back parse (g_principals m) (t_principal db)" using bk by (simp_all add: backs_def)
    have "\<not> list_ex (\<lambda>r. br_tenant_id r = did_string d) (t_bucket db)"
    proof -
      have "did_string (b_Tenant bu) \<noteq> did_string d" if "(k, bu) \<in> set (g_buckets m)" for k bu
        using that r gone buckets_backD(3)[OF b(1) that] real_same[OF law] by (fastforce simp: bucket_real_def)
      then show ?thesis unfolding buckets_backD(1)[OF b(1)] ex_table by (auto simp: list_ex_iff bucketRow_def)
    qed
    moreover have "\<not> list_ex (\<lambda>r. ar_tenant_id r = did_string d) (t_access_key db)"
    proof -
      have "did_string (k_Tenant ak) \<noteq> did_string d" if "(k, ak) \<in> set (g_keys m)" for k ak
        using that r gone keys_backD(4)[OF b(2) that] real_same[OF law] by (fastforce simp: key_real_def)
      then show ?thesis unfolding keys_backD(1)[OF b(2)] ex_table by (auto simp: list_ex_iff keyRow_def)
    qed
    moreover have "\<not> list_ex (\<lambda>r. sr_tenant_id r = did_string d) (t_principal db)"
    proof -
      note p = b(3)[unfolded principals_back_def]
      have "did_string (p_Tenant (p_rec e)) \<noteq> did_string d" if "(k, e) \<in> set (p_rows (g_principals m))" for k e
        using that r gone p real_same[OF law] by fastforce
      then have "\<forall>(k, e) \<in> set (p_rows (g_principals m)). fst (markEntry e) \<noteq> did_string d"
        by (auto simp: markEntry_def)
      then have "\<forall>q \<in> set (table_of markEntry (p_rows (g_principals m))). fst q \<noteq> did_string d"
        by (simp add: table_of_def case_prod_beta)
      then have "\<forall>q \<in> set (map markRow (t_principal db)). fst q \<noteq> did_string d" using p by simp
      then show ?thesis by (auto simp: list_ex_iff markRow_def)
    qed
    ultimately obtain rows where "pg_tenant_Delete None d db = (Inr (), db\<lparr>t_tenant := rows\<rparr>)"
      "tenants_back parse (tenant_Delete d (g_tenants m)) rows"
      using pg_tenant_Delete_agrees[OF law t] by blast
    with keep show ?thesis by (simp add: 5 call_agrees_def wrote_def)
  qed
qed

lemma provider_call_agrees:
  assumes law: "did_law parse" and bk: "backs parse m db" and ok: "alike parse now c"
    and c: "provider_call c"
  shows "call_agrees parse (mem_call now c m) (pg_call parse collate no_faults now c db)"
proof -
  have t: "providers_back parse (g_providers m) (t_provider db)" using bk by (simp add: backs_def)
  have keep: "backs parse (m\<lparr>g_providers := s\<rparr>) (db\<lparr>t_provider := rows\<rparr>)" if "providers_back parse s rows" for s rows
    using that bk by (simp add: backs_def)
  from c consider (1) d x policy where "c = ProviderAdd d x policy"
    | (2) d where "c = ProviderGet d"
    | (3) x where "c = ProviderByRegion x"
    | (4) d e where "c = ProviderSetPolicy d e"
    | (5) "c = ProviderList"
    by (cases c) (simp_all add: provider_call_def)
  then show ?thesis
  proof cases
    case 1
    obtain r s where run: "provider_Add now d x policy (g_providers m) = (r, s)" by (rule prod.exhaust)
    have "holdable parse d" "\<And>e. policy = Some e \<Longrightarrow> real parse e" using ok by (simp_all add: alike_def 1)
    from pg_provider_Add_agrees[OF law t this run] keep show ?thesis by (auto simp: 1 run call_agrees_def wrote_def)
  next
    case 2
    then show ?thesis using pg_provider_Get_agrees[OF law t] bk by (simp add: answered_agrees)
  next
    case 3
    then show ?thesis using pg_provider_GetByRegion_agrees[OF t] bk by (simp add: answered_agrees)
  next
    case 4
    obtain r s where run: "provider_SetPolicy now d e (g_providers m) = (r, s)" by (rule prod.exhaust)
    have "holdable parse e" using ok by (simp add: alike_def 4)
    from pg_provider_SetPolicy_agrees[OF law t this run] keep show ?thesis by (auto simp: 4 run call_agrees_def wrote_def)
  next
    case 5
    then show ?thesis using pg_provider_List_agrees[OF t] bk by (simp add: call_agrees_def answered_def)
  qed
qed

lemma bucket_call_agrees:
  assumes law: "did_law parse" and coll: "bytewise collate" and bk: "backs parse m db" and ok: "alike parse now c"
    and refs: "refs_ok (snd (mem_call now c m))"
    and c: "bucket_call c"
  shows "call_agrees parse (mem_call now c m) (pg_call parse collate no_faults now c db)"
proof -
  have b: "buckets_back parse (g_buckets m) (t_bucket db)" "tenants_back parse (g_tenants m) (t_tenant db)"
    "providers_back parse (g_providers m) (t_provider db)" using bk by (simp_all add: backs_def)
  from c consider (1) d t p n where "c = BucketAdd d t p n"
    | (2) n where "c = BucketByName n"
    | (3) t q cursor where "c = BucketList t q cursor"
    | (4) d where "c = BucketDelete d"
    by (cases c) (simp_all add: bucket_call_def)
  then show ?thesis
  proof cases
    case 1
    obtain r s where run: "bucket_Add now d t p n (g_buckets m) = (r, s)" by (rule prod.exhaust)
    have h: "holdable parse d" "holdable parse t" "holdable parse p" using ok by (simp_all add: alike_def 1)
    have fk: "list_ex (\<lambda>q. tr_id q = did_string t) (t_tenant db) \<and> list_ex (\<lambda>q. vr_id q = did_string p) (t_provider db)"
      if "r = Inr ()"
    proof -
      have "(d, \<lparr>b_ID = d, b_Tenant = t, b_Provider = p, b_Name = n, b_CreatedAt = now\<rparr>) \<in> set s"
        using bucket_Add_Inr(6)[OF run[unfolded that]] by (simp add: map_of_SomeD update_conv')
      then have "map_of (g_tenants m) t \<noteq> None" "p \<in> pr_ID ` set (g_providers m)"
        using refs unfolding 1 refs_ok_def by (auto simp: run)
      then show ?thesis
        using tenant_has[OF law b(2)] b(3) by (auto simp: providers_back_def list_ex_iff providerRow_def)
    qed
    from pg_bucket_Add_agrees[OF law b(1) h run fk] bk show ?thesis
      by (auto simp: 1 run call_agrees_def wrote_def backs_def)
  next
    case 2
    then show ?thesis using pg_bucket_GetByName_agrees[OF law b(1)] bk by (simp add: answered_agrees)
  next
    case 3
    have "bucket_limit q > 0" using ok by (simp add: alike_def 3)
    then show ?thesis using pg_bucket_list_agrees[OF law b(1) coll] bk by (simp add: 3 answered_agrees)
  next
    case 4
    from pg_bucket_Delete_agrees[OF law b(1), of d] bk show ?thesis
      by (auto simp: 4 call_agrees_def wrote_def backs_def)
  qed
qed

lemma key_call_agrees:
  assumes law: "did_law parse" and bk: "backs parse m db" and ok: "alike parse now c"
    and refs: "refs_ok (snd (mem_call now c m))"
    and c: "key_call c"
  shows "call_agrees parse (mem_call now c m) (pg_call parse collate no_faults now c db)"
proof -
  have b: "keys_back parse (g_keys m) (t_access_key db)" "tenants_back parse (g_tenants m) (t_tenant db)"
    "principals_back parse (g_principals m) (t_principal db)" using bk by (simp_all add: backs_def)
  have idle: "idle (g_principals m)" using b(3) by (simp add: principals_back_def)
  from c consider (1) i where "c = KeyAdd i"
    | (2) share d where "c = KeyGet share d"
    | (3) d cfg where "c = KeyList d cfg"
    | (4) d where "c = KeyDelete d"
    by (cases c) (simp_all add: key_call_def)
  then show ?thesis
  proof cases
    case 1
    let ?L = "\<lambda>x. live (g_principals m) (in_Tenant i, x)"
    obtain r s where run: "key_Add (Some (guard_of ?L)) now i (g_keys m) = (r, s)" by (rule prod.exhaust)
    have h: "input_real parse i" "micro_input i" using ok by (simp_all add: alike_def 1)
    have fk: "list_ex (\<lambda>q. tr_id q = did_string (in_Tenant i)) (t_tenant db) \<and>
        (\<forall>x. in_Principal i = Some x \<longrightarrow> findPrincipal (did_string (in_Tenant i)) x db \<noteq> None)" if "r = Inr ()"
    proof -
      have "(in_ID i, key_record now i) \<in> set s"
        using key_add_Inr(3)[OF key_Add_Inr(2)[OF run[unfolded that]]] by (simp add: map_of_SomeD update_conv')
      then have "map_of (g_tenants m) (in_Tenant i) \<noteq> None"
          "\<And>x. in_Principal i = Some x \<Longrightarrow> map_of (p_rows (g_principals m)) (in_Tenant i, x) \<noteq> None"
        using refs unfolding 1 refs_ok_def by (auto simp: run key_Add_guard[OF idle] key_record_def)
      moreover have "findPrincipal (did_string (in_Tenant i)) x db = None \<longleftrightarrow>
          map_of (p_rows (g_principals m)) (in_Tenant i, x) = None" for x
        unfolding findPrincipal_row by (metis principal_found[OF law b(3)] option.map_disc_iff)
      ultimately show ?thesis using tenant_has[OF law b(2)] by simp
    qed
    from pg_key_Add_agrees[OF law b(1) h checkPrincipal_live[OF law b(3)] run fk] bk show ?thesis
      by (auto simp: 1 run key_Add_guard[OF idle] call_agrees_def wrote_def backs_def)
  next
    case 2
    then show ?thesis using pg_key_Get_agrees[OF law b(1)] bk by (simp add: answered_agrees)
  next
    case 3
    from pg_key_ListByTenant_agrees[OF law b(1), of collate d cfg] bk show ?thesis
      by (auto simp: 3 call_agrees_def answered_def)
  next
    case 4
    from pg_key_Delete_agrees[OF law b(1), of d] bk show ?thesis
      by (auto simp: 4 call_agrees_def wrote_def backs_def)
  qed
qed

lemma principal_call_agrees:
  assumes law: "did_law parse" and bk: "backs parse m db" and ok: "alike parse now c"
    and refs: "refs_ok (snd (mem_call now c m))"
    and c: "principal_call c"
  shows "call_agrees parse (mem_call now c m) (pg_call parse collate no_faults now c db)"
proof -
  have b: "principals_back parse (g_principals m) (t_principal db)" "tenants_back parse (g_tenants m) (t_tenant db)"
    "keys_back parse (g_keys m) (t_access_key db)" using bk by (simp_all add: backs_def)
  have idle: "idle (g_principals m)" using b(1) by (simp add: principals_back_def)
  from c consider (1) t x where "c = PrincipalAdd t x"
    | (2) share t x where "c = PrincipalGet share t x"
    | (3) t where "c = PrincipalList t"
    | (4) t where "c = PrincipalIDs t"
    | (5) t where "c = PrincipalsDelete t"
    by (cases c) (simp_all add: principal_call_def)
  then show ?thesis
  proof cases
    case 1
    obtain r ps u where run: "principal_Add now t x (g_principals m, ()) = (r, ps, u)" by (rule prod_cases3)
    have run': "principal_Add now t x (g_principals m, ()) = (r, ps, ())" using run by simp
    have h: "holdable parse t" using ok by (simp add: alike_def 1)
    have fk: "list_ex (\<lambda>q. tr_id q = did_string t) (t_tenant db)" if "r = Inr ()"
    proof -
      have "t \<noteq> Undef" "x \<noteq> []" using run that by (auto simp: principal_Add_def split: if_splits)
      from principal_Add_idle[OF idle this, of now "()"] run that
      have "p_rows ps = AList.update (t, x) (newEntry now t x) (p_rows (g_principals m))" by (auto split: if_splits)
      then have "((t, x), newEntry now t x) \<in> set (p_rows ps)" by (simp add: map_of_SomeD update_conv')
      then have "map_of (g_tenants m) t \<noteq> None" using refs unfolding 1 refs_ok_def by (auto simp: run)
      then show ?thesis using tenant_has[OF law b(2)] by blast
    qed
    from pg_principal_Add_agrees[OF law b(1) h run' fk] bk show ?thesis
      by (auto simp: 1 run call_agrees_def wrote_def backs_def)
  next
    case 2
    then show ?thesis using pg_principal_Get_agrees[OF law b(1)] bk by (simp add: answered_agrees)
  next
    case 3
    from pg_principal_lists_agree(1)[OF law b(1), of collate t] bk show ?thesis
      by (auto simp: 3 call_agrees_def answered_def)
  next
    case 4
    from pg_principal_lists_agree(2)[OF law b(1), of collate t] bk show ?thesis
      by (auto simp: 4 call_agrees_def answered_def)
  next
    case 5
    obtain r ps u where run: "principal_DeleteByTenant t (g_principals m, ()) = (r, ps, u)" by (rule prod_cases3)
    have run': "principal_DeleteByTenant t (g_principals m, ()) = (r, ps, ())" using run by simp
    have rows: "p_rows ps = filter (\<lambda>(r, e). fst r \<noteq> t) (p_rows (g_principals m))"
      using principal_DeleteByTenant_idle[OF idle, of t "()"] run by auto
    have "k_Principal ak = None" if "(k, ak) \<in> set (g_keys m)" "did_string (k_Tenant ak) = did_string t" for k ak
    proof (rule ccontr)
      assume "k_Principal ak \<noteq> None"
      then obtain y where "k_Principal ak = Some y" by blast
      then have "map_of (p_rows ps) (k_Tenant ak, y) \<noteq> None"
        using refs that(1) unfolding 5 refs_ok_def by (auto simp: run)
      moreover have "k_Tenant ak = t"
        using that keys_backD(4)[OF b(3) that(1)] real_same[OF law] by (auto simp: key_real_def)
      ultimately show False by (auto simp: rows dest!: map_of_SomeD)
    qed
    then have "\<not> list_ex (\<lambda>r. ar_tenant_id r = did_string t \<and> ar_principal_id r \<noteq> None) (t_access_key db)"
      unfolding keys_backD(1)[OF b(3)] ex_table by (fastforce simp: list_ex_iff keyRow_def)
    from pg_principal_DeleteByTenant_agrees[OF law b(1) run' this] bk show ?thesis
      by (auto simp: 5 run call_agrees_def wrote_def backs_def)
  qed
qed

lemma wrap_call_agrees:
  assumes law: "did_law parse" and bk: "backs parse m db" and ok: "alike parse now c"
    and c: "wrap_call c"
  shows "call_agrees parse (mem_call now c m) (pg_call parse collate no_faults now c db)"
proof -
  have b: "wraps_back parse (g_wraps m) (t_wrap_key db)" using bk by (simp add: backs_def)
  have keep: "backs parse (m\<lparr>g_wraps := s\<rparr>) (db\<lparr>t_wrap_key := rows\<rparr>)" if "wraps_back parse s rows" for s rows
    using that bk by (simp add: backs_def)
  from c consider (1) i where "c = WrapAdd i"
    | (2) t where "c = WrapGet t"
    | (3) t v where "c = WrapVersion t v"
    | (4) x where "c = WrapByKID x"
    | (5) t where "c = WrapList t"
    | (6) t v where "c = WrapArchive t v"
    | (7) t where "c = WrapDelete t"
    by (cases c) (simp_all add: wrap_call_def)
  then show ?thesis
  proof cases
    case 1
    obtain r s where run: "wrap_Add now i (g_wraps m) = (r, s)" by (rule prod.exhaust)
    have "real parse (wi_Tenant i)" "int4 (wi_Version i)" "int4 (wi_Epoch i)" using ok by (simp_all add: alike_def 1)
    from pg_wrap_Add_agrees[OF law b this run] keep show ?thesis by (auto simp: 1 run call_agrees_def wrote_def)
  next
    case 2
    then show ?thesis using pg_wrap_Get_agrees[OF law b] bk by (simp add: answered_agrees)
  next
    case 3
    have "int4 v" using ok by (simp add: alike_def 3)
    then show ?thesis using pg_wrap_GetVersion_agrees[OF law b] bk by (simp add: 3 answered_agrees)
  next
    case 4
    then show ?thesis using pg_wrap_GetByKID_agrees[OF b] bk by (simp add: answered_agrees)
  next
    case 5
    then show ?thesis using pg_wrap_List_agrees[OF law b] bk by (simp add: call_agrees_def answered_def)
  next
    case 6
    obtain r s where run: "wrap_Archive now t v (g_wraps m) = (r, s)" by (rule prod.exhaust)
    have "int4 v" "micros now = now" using ok by (simp_all add: alike_def 6)
    from pg_wrap_Archive_agrees[OF law b this run] keep show ?thesis by (auto simp: 6 run call_agrees_def wrote_def)
  next
    case 7
    from pg_wrap_Delete_agrees[OF law b, of t] keep show ?thesis by (auto simp: 7 call_agrees_def wrote_def)
  qed
qed

lemma call_agrees_any:
  assumes law: "did_law parse" and coll: "bytewise collate" and bk: "backs parse m db" and ok: "alike parse now c"
    and refs: "refs_ok (snd (mem_call now c m))"
  shows "call_agrees parse (mem_call now c m) (pg_call parse collate no_faults now c db)"
proof -
  consider "tenant_call c" | "provider_call c" | "bucket_call c" | "key_call c" | "principal_call c" | "wrap_call c"
    by (cases c) (simp_all add: tenant_call_def provider_call_def bucket_call_def key_call_def principal_call_def wrap_call_def)
  then show ?thesis
    by cases (fact tenant_call_agrees[OF law bk ok refs] provider_call_agrees[OF law bk ok] bucket_call_agrees[OF assms]
      key_call_agrees[OF law bk ok refs] principal_call_agrees[OF law bk ok refs] wrap_call_agrees[OF law bk ok])+
qed

subsection \<open>A history of calls\<close>

fun mem_run :: "(instant \<times> registry_cmd) list \<Rightarrow> registry \<Rightarrow> (err + registry_answer) list \<times> registry" where
  "mem_run [] m = ([], m)"
| "mem_run ((now, c) # cs) m =
     (let (r, m') = mem_call now c m; (rs, m'') = mem_run cs m' in (r # rs, m''))"

fun pg_run ::
  "(string \<Rightarrow> did option) \<Rightarrow> collation \<Rightarrow> (instant \<times> registry_cmd) list \<Rightarrow> 'j db \<Rightarrow> (err + registry_answer) list \<times> 'j db" where
  "pg_run parse collate [] db = ([], db)"
| "pg_run parse collate ((now, c) # cs) db =
     (let (r, db') = pg_call parse collate no_faults now c db; (rs, db'') = pg_run parse collate cs db' in (r # rs, db''))"

text \<open>Every call of the history is one both backends take alike, and leaves no reference dangling.\<close>

fun kept :: "(string \<Rightarrow> did option) \<Rightarrow> (instant \<times> registry_cmd) list \<Rightarrow> registry \<Rightarrow> bool" where
  "kept parse [] m = True"
| "kept parse ((now, c) # cs) m =
     (alike parse now c \<and> refs_ok (snd (mem_call now c m)) \<and> kept parse cs (snd (mem_call now c m)))"

definition new_registry :: registry where
  "new_registry = \<lparr>g_tenants = [], g_providers = [], g_buckets = [], g_keys = [],
     g_principals = \<lparr>p_rows = [], p_held = [], p_wait = (\<lambda>_. None)\<rparr>, g_wraps = []\<rparr>"

lemma new_backs: "backs parse new_registry new_db"
  by (simp add: backs_def new_registry_def new_db_def tenants_ok_def providers_ok_def buckets_ok_def keys_ok_def wraps_ok_def
      tenants_back_def providers_back_def buckets_back_def keys_back_def
      principals_back_def wraps_back_def wf_gomap_def idle_def)

lemma run_agrees:
  assumes law: "did_law parse" and coll: "bytewise collate" and "backs parse m db" and "kept parse cs m"
  shows "list_all2 same_answer (fst (pg_run parse collate cs db)) (fst (mem_run cs m)) \<and>
    backs parse (snd (mem_run cs m)) (snd (pg_run parse collate cs db))"
  using assms(3,4)
proof (induction cs arbitrary: m db)
  case (Cons nc cs)
  obtain now c where nc: "nc = (now, c)" by (rule prod.exhaust)
  obtain r m' where mr: "mem_call now c m = (r, m')" by (rule prod.exhaust)
  obtain q db' where pr: "pg_call parse collate no_faults now c db = (q, db')" by (rule prod.exhaust)
  from Cons.prems have "alike parse now c" "refs_ok (snd (mem_call now c m))" "kept parse cs m'"
    by (simp_all add: nc mr)
  with call_agrees_any[OF law coll Cons.prems(1)] have "same_answer q r" "backs parse m' db'"
    by (fastforce simp: call_agrees_def mr pr)+
  with Cons.IH[of m' db'] \<open>kept parse cs m'\<close> show ?case by (simp add: nc mr pr case_prod_beta)
qed simp


definition plainDid :: "string \<Rightarrow> did option" where
  "plainDid s = (if s = [] then None else Some (Did s))"

definition someHistory :: "(instant \<times> registry_cmd) list" where
  "someHistory =
     [(0, ProviderAdd (Did ''p'') ''eu'' None),
      (0, TenantAdd (Did ''t'') ''ext'' Active),
      (1000, BucketAdd (Did ''b'') (Did ''t'') (Did ''p'') ''photos''),
      (1000, BucketAdd (Did ''c'') (Did ''t'') (Did ''p'') ''photos''),
      (1000, PrincipalAdd (Did ''t'') ''alice''),
      (2000, KeyAdd \<lparr>in_ID = Did ''k'', in_Tenant = Did ''t'', in_Name = ''key'', in_Buckets = [],
          in_Permissions = [], in_Principal = Some ''alice'', in_ExpiresAt = None\<rparr>),
      (2000, KeyAdd \<lparr>in_ID = Did ''l'', in_Tenant = Did ''t'', in_Name = ''key'', in_Buckets = [],
          in_Permissions = [], in_Principal = Some ''bob'', in_ExpiresAt = None\<rparr>),
      (2000, BucketList (Did ''t'') \<lparr>q_IDs = [], q_Names = [], q_Prefix = [], q_Provider = Undef, q_Limit = Some 1\<rparr> None),
      (3000, BucketDelete (Did ''b'')),
      (3000, BucketByName ''photos'')]"


subsection \<open>The order of a listing\<close>

text \<open>
  The hypothesis on the order of names is needed: a locale's collation that passes over hyphens, as
  that of a database made with a language's locale does, lists two buckets the other way round.
\<close>

definition passesHyphens :: collation where
  "passesHyphens s = filter (\<lambda>c. c \<noteq> CHR ''-'') s @ s"

definition twoBuckets :: "(instant \<times> registry_cmd) list" where
  "twoBuckets =
     [(0, ProviderAdd (Did ''p'') ''eu'' None), (0, TenantAdd (Did ''t'') ''ext'' Active),
      (0, BucketAdd (Did ''b'') (Did ''t'') (Did ''p'') ''ab-z''), (0, BucketAdd (Did ''c'') (Did ''t'') (Did ''p'') ''abc''),
      (0, BucketList (Did ''t'') \<lparr>q_IDs = [], q_Names = [], q_Prefix = [], q_Provider = Undef, q_Limit = None\<rparr> None)]"

fun listedNames :: "err + registry_answer \<Rightarrow> string list" where
  "listedNames (Inr (TheBuckets p)) = map b_Name (Results p)"
| "listedNames _ = []"

lemma locale_order_differs:
  "kept plainDid twoBuckets new_registry \<and>
   map listedNames (fst (mem_run twoBuckets new_registry)) = [[], [], [], [], [''ab-z'', ''abc'']] \<and>
   map listedNames (fst (pg_run plainDid passesHyphens twoBuckets (new_db :: unit db))) = [[], [], [], [], [''abc'', ''ab-z'']]"
  by code_simp

end
