(* ===== verification/Pg_Integrity.thy ===== *)
theory Pg_Integrity
  imports Pg_Stores
begin

text \<open>
  The constraints of the schema over the tables, and that no call loses them, whatever fails: the
  statements as the backends' SQL words them keep every key, CHECK and reference, a failed
  statement does nothing, and a transaction that does not commit is undone.
\<close>

subsection \<open>The constraints\<close>

text \<open>A unique index over a nullable column: two NULLs do not clash.\<close>

definition unique_col :: "('row \<Rightarrow> 'v option) \<Rightarrow> 'row list \<Rightarrow> bool" where
  "unique_col f rows \<longleftrightarrow> distinct (List.map_filter f rows)"

definition has_tenant :: "tenant_row list \<Rightarrow> string \<Rightarrow> bool" where
  "has_tenant ts i \<longleftrightarrow> i \<in> set (map tr_id ts)"

definition has_principal :: "principal_row list \<Rightarrow> string \<Rightarrow> string option \<Rightarrow> bool" where
  "has_principal ps ten p =
     (case p of None \<Rightarrow> True | Some x \<Rightarrow> (ten, x) \<in> set (map (\<lambda>r. (sr_tenant_id r, sr_external_id r)) ps))"

definition tenant_schema :: "tenant_row list \<Rightarrow> bool" where
  "tenant_schema ts \<longleftrightarrow> distinct (map tr_id ts) \<and> unique_col tr_external_id ts \<and> (\<forall>r \<in> set ts. statusValid (tr_status r))"

definition provider_schema :: "provider_row list \<Rightarrow> bool" where
  "provider_schema vs \<longleftrightarrow> distinct (map vr_id vs) \<and> unique_col vr_region vs"

definition bucket_schema :: "tenant_row list \<Rightarrow> provider_row list \<Rightarrow> bucket_row list \<Rightarrow> bool" where
  "bucket_schema ts vs bs \<longleftrightarrow> distinct (map br_id bs) \<and> unique_col br_name bs \<and>
     (\<forall>r \<in> set bs. has_tenant ts (br_tenant_id r) \<and> br_provider_id r \<in> set (map vr_id vs) \<and>
        (case br_name r of None \<Rightarrow> True | Some n \<Rightarrow> ValidateName n = Inr ()))"

text \<open>The two partial indexes together: the name is unique for a tenant and an optional principal.\<close>

definition key_schema :: "tenant_row list \<Rightarrow> principal_row list \<Rightarrow> key_row list \<Rightarrow> bool" where
  "key_schema ts ps ks \<longleftrightarrow> distinct (map ar_id ks) \<and>
     distinct (map (\<lambda>r. (ar_tenant_id r, ar_principal_id r, ar_name r)) ks) \<and>
     (\<forall>r \<in> set ks. unscoped r \<and> has_tenant ts (ar_tenant_id r) \<and> has_principal ps (ar_tenant_id r) (ar_principal_id r))"

definition principal_schema :: "tenant_row list \<Rightarrow> principal_row list \<Rightarrow> bool" where
  "principal_schema ts ps \<longleftrightarrow> distinct (map (\<lambda>r. (sr_tenant_id r, sr_external_id r)) ps) \<and>
     (\<forall>r \<in> set ps. has_tenant ts (sr_tenant_id r))"

definition wrap_schema :: "wrap_row list \<Rightarrow> bool" where
  "wrap_schema ws \<longleftrightarrow> distinct (map (\<lambda>r. (xr_tenant_id r, xr_version r)) ws) \<and> distinct (map xr_kid ws) \<and>
     distinct (map xr_tenant_id (filter (\<lambda>r. xr_status r = ''active'') ws)) \<and>
     (\<forall>r \<in> set ws. xr_status r \<in> {''active'', ''archived''})"

definition policy_schema :: "bucket_row list \<Rightarrow> 'j policy_row list \<Rightarrow> bool" where
  "policy_schema bs os \<longleftrightarrow> distinct (map or_bucket_id os) \<and> (\<forall>r \<in> set os. or_bucket_id r \<in> set (map br_id bs))"

definition index_schema :: "bucket_row list \<Rightarrow> principal_row list \<Rightarrow> index_row list \<Rightarrow> bool" where
  "index_schema bs ps is \<longleftrightarrow> distinct (map (\<lambda>r. (ir_bucket_id r, ir_principal_id r)) is) \<and>
     (\<forall>r \<in> set is. (ir_bucket_id r, ir_tenant_id r) \<in> set (map (\<lambda>b. (br_id b, br_tenant_id b)) bs) \<and>
        has_principal ps (ir_tenant_id r) (ir_principal_id r))"

definition schema_ok :: "'j db \<Rightarrow> bool" where
  "schema_ok db \<longleftrightarrow> tenant_schema (t_tenant db) \<and> provider_schema (t_provider db) \<and>
     bucket_schema (t_tenant db) (t_provider db) (t_bucket db) \<and>
     key_schema (t_tenant db) (t_principal db) (t_access_key db) \<and>
     principal_schema (t_tenant db) (t_principal db) \<and> wrap_schema (t_wrap_key db) \<and>
     policy_schema (t_bucket db) (t_bucket_policy db) \<and>
     index_schema (t_bucket db) (t_principal db) (t_policy_index db)"

subsection \<open>Tables that grow and shrink\<close>

lemma map_filter_append: "List.map_filter f (xs @ ys) = List.map_filter f xs @ List.map_filter f ys"
  by (simp add: List.map_filter_def)

lemma in_map_filter: "x \<in> set (List.map_filter f xs) \<longleftrightarrow> (\<exists>r \<in> set xs. f r = Some x)"
  by (force simp: List.map_filter_def)

lemma unique_col_snoc: "unique_col f (rows @ [r]) \<longleftrightarrow>
    unique_col f rows \<and> (case f r of None \<Rightarrow> True | Some x \<Rightarrow> \<forall>q \<in> set rows. f q \<noteq> Some x)"
  by (auto simp: unique_col_def map_filter_simps map_filter_append in_map_filter split: option.split)

lemma unique_col_Cons: "unique_col f (r # rows) \<longleftrightarrow>
    unique_col f rows \<and> (case f r of None \<Rightarrow> True | Some x \<Rightarrow> \<forall>q \<in> set rows. f q \<noteq> Some x)"
  by (auto simp: unique_col_def map_filter_simps in_map_filter split: option.split)

lemma unique_col_filter: "unique_col f rows \<Longrightarrow> unique_col f (filter P rows)"
proof (induction rows)
  case (Cons r rows)
  then show ?case by (auto simp: unique_col_Cons split: option.splits)
qed simp

lemma unique_col_map: "(\<And>r. f (g r) = f r) \<Longrightarrow> unique_col f (map g rows) = unique_col f rows"
  by (induction rows) (simp_all add: unique_col_Cons unique_col_def[of f "[]"] split: option.split)

lemma distinct_map_filter: "distinct (map f rows) \<Longrightarrow> distinct (map f (filter P rows))"
  by (simp add: distinct_map inj_on_def)

text \<open>References to a table survive when its keys do.\<close>

lemma bucket_schema_mono:
  "bucket_schema ts vs bs \<Longrightarrow> set (map tr_id ts) \<subseteq> set (map tr_id ts') \<Longrightarrow> set (map vr_id vs) \<subseteq> set (map vr_id vs') \<Longrightarrow>
   bucket_schema ts' vs' bs"
  unfolding bucket_schema_def has_tenant_def by blast

lemma key_schema_mono:
  "key_schema ts ps ks \<Longrightarrow> set (map tr_id ts) \<subseteq> set (map tr_id ts') \<Longrightarrow>
   (\<And>ten p. has_principal ps ten p \<Longrightarrow> has_principal ps' ten p) \<Longrightarrow> key_schema ts' ps' ks"
  unfolding key_schema_def has_tenant_def by blast

lemma principal_schema_mono:
  "principal_schema ts ps \<Longrightarrow> set (map tr_id ts) \<subseteq> set (map tr_id ts') \<Longrightarrow> principal_schema ts' ps"
  unfolding principal_schema_def has_tenant_def by blast

lemma index_schema_mono:
  "index_schema bs ps is \<Longrightarrow> set (map (\<lambda>b. (br_id b, br_tenant_id b)) bs) \<subseteq> set (map (\<lambda>b. (br_id b, br_tenant_id b)) bs') \<Longrightarrow>
   (\<And>ten p. has_principal ps ten p \<Longrightarrow> has_principal ps' ten p) \<Longrightarrow> index_schema bs' ps' is"
  unfolding index_schema_def by blast

lemma policy_schema_mono:
  "policy_schema bs os \<Longrightarrow> set (map br_id bs) \<subseteq> set (map br_id bs') \<Longrightarrow> policy_schema bs' os"
  unfolding policy_schema_def by blast

lemma has_principal_snoc: "has_principal ps ten p \<Longrightarrow> has_principal (ps @ [r]) ten p"
  by (auto simp: has_principal_def split: option.splits)

subsection \<open>Statements keep them\<close>

definition sound :: "('j, 'a) stmt \<Rightarrow> bool" where
  "sound st \<longleftrightarrow> (\<forall>db x db'. st db = Inr (x, db') \<longrightarrow> schema_ok db \<longrightarrow> schema_ok db')"

named_theorems sound_intros

lemma soundI: "(\<And>db x db'. st db = Inr (x, db') \<Longrightarrow> schema_ok db \<Longrightarrow> schema_ok db') \<Longrightarrow> sound st"
  by (auto simp: sound_def)

lemma soundD: "sound st \<Longrightarrow> st db = Inr (x, db') \<Longrightarrow> schema_ok db \<Longrightarrow> schema_ok db'"
  by (auto simp: sound_def)

lemma insertTenant_sound [sound_intros]: "sound (insertTenant now i ext st)"
  by (rule soundI) (auto simp: insertTenant_def schema_ok_def tenant_schema_def unique_col_snoc list_ex_iff
      elim!: bucket_schema_mono key_schema_mono principal_schema_mono split: if_splits)

lemma updateTenant_sound [sound_intros]: "sound (updateTenant now i st)"
proof (rule soundI)
  fix db :: "'j db" and x db'
  assume run: "updateTenant now i st db = Inr (x, db')" and ok: "schema_ok db"
  let ?g = "\<lambda>r. if tr_id r = i then r\<lparr>tr_status := st, tr_updated_at := now\<rparr> else r"
  have db': "db' = db\<lparr>t_tenant := map ?g (t_tenant db)\<rparr>" and v: "list_ex (\<lambda>r. tr_id r = i) (t_tenant db) \<longrightarrow> statusValid st"
    using run by (auto simp: updateTenant_def split: if_splits)
  have k: "tr_id \<circ> ?g = tr_id" by auto
  have m: "map tr_id (map ?g (t_tenant db)) = map tr_id (t_tenant db)" by (simp add: k)
  have "tenant_schema (map ?g (t_tenant db))"
    using ok v by (auto simp: schema_ok_def tenant_schema_def k unique_col_map list_ex_iff)
  then show "schema_ok db'" using ok
    by (auto simp: db' schema_ok_def m[unfolded map_map] has_tenant_def
        intro: bucket_schema_mono key_schema_mono principal_schema_mono)
qed

lemma deleteTenant_sound [sound_intros]: "sound (deleteTenant i)"
proof (rule soundI)
  fix db :: "'j db" and x db'
  assume run: "deleteTenant i db = Inr (x, db')" and ok: "schema_ok db"
  let ?ts = "filter (\<lambda>r. tr_id r \<noteq> i) (t_tenant db)"
  have db': "db' = db\<lparr>t_tenant := ?ts\<rparr>" using run by (simp add: deleteTenant_def split: if_splits)
  have had: "list_ex (\<lambda>r. tr_id r = i) (t_tenant db) \<longrightarrow> \<not> list_ex (\<lambda>r. br_tenant_id r = i) (t_bucket db) \<and>
      \<not> list_ex (\<lambda>r. ar_tenant_id r = i) (t_access_key db) \<and> \<not> list_ex (\<lambda>r. sr_tenant_id r = i) (t_principal db)"
    using run by (auto simp: deleteTenant_def split: if_splits)
  have "tenant_schema ?ts" using ok by (auto simp: schema_ok_def tenant_schema_def distinct_map_filter unique_col_filter)
  moreover have "bucket_schema ?ts (t_provider db) (t_bucket db)" "key_schema ?ts (t_principal db) (t_access_key db)"
    "principal_schema ?ts (t_principal db)"
    using ok had by (fastforce simp: schema_ok_def bucket_schema_def key_schema_def principal_schema_def has_tenant_def list_ex_iff)+
  ultimately show "schema_ok db'" using ok by (simp add: db' schema_ok_def)
qed

lemma insertProvider_sound [sound_intros]: "sound (insertProvider now i region policy)"
  by (rule soundI) (auto simp: insertProvider_def schema_ok_def provider_schema_def unique_col_snoc list_ex_iff
      elim!: bucket_schema_mono split: if_splits)

lemma updateProvider_sound [sound_intros]: "sound (updateProvider now i policy)"
proof (rule soundI)
  fix db :: "'j db" and x db'
  assume run: "updateProvider now i policy db = Inr (x, db')" and ok: "schema_ok db"
  let ?g = "\<lambda>r. if vr_id r = i then r\<lparr>vr_policy := Some policy, vr_updated_at := now\<rparr> else r"
  have db': "db' = db\<lparr>t_provider := map ?g (t_provider db)\<rparr>" using run by (auto simp: updateProvider_def)
  have k: "vr_id \<circ> ?g = vr_id" by auto
  have m: "map vr_id (map ?g (t_provider db)) = map vr_id (t_provider db)" by (simp add: k)
  have "provider_schema (map ?g (t_provider db))"
    using ok by (auto simp: schema_ok_def provider_schema_def k unique_col_map)
  moreover have "bucket_schema (t_tenant db) (map ?g (t_provider db)) (t_bucket db)"
    using ok unfolding schema_ok_def bucket_schema_def m by blast
  ultimately show "schema_ok db'" using ok by (simp add: db' schema_ok_def)
qed

lemma insertBucket_sound [sound_intros]: "sound (insertBucket now i ten prov nm)"
proof (rule soundI)
  fix db :: "'j db" and x db'
  assume run: "insertBucket now i ten prov nm db = Inr (x, db')" and ok: "schema_ok db"
  let ?r = "\<lparr>br_id = i, br_tenant_id = ten, br_provider_id = prov, br_name = Some nm, br_created_at = now\<rparr>"
  have db': "db' = db\<lparr>t_bucket := t_bucket db @ [?r]\<rparr>" and g: "ValidateName nm = Inr ()"
    "\<forall>q \<in> set (t_bucket db). br_id q \<noteq> i \<and> br_name q \<noteq> Some nm"
    "has_tenant (t_tenant db) ten" "prov \<in> set (map vr_id (t_provider db))"
    using run by (auto simp: insertBucket_def has_tenant_def list_ex_iff split: if_splits)
  have "bucket_schema (t_tenant db) (t_provider db) (t_bucket db @ [?r])"
    using ok g by (auto simp: schema_ok_def bucket_schema_def unique_col_snoc)
  then show "schema_ok db'" using ok by (auto simp: db' schema_ok_def elim!: policy_schema_mono index_schema_mono)
qed

lemma deleteBucket_sound [sound_intros]: "sound (deleteBucket i)"
  by (rule soundI) (auto simp: deleteBucket_def schema_ok_def bucket_schema_def policy_schema_def index_schema_def
      distinct_map_filter unique_col_filter)

lemma insertKey_sound [sound_intros]: "sound (insertKey r)"
proof (rule soundI)
  fix db :: "'j db" and x db'
  assume run: "insertKey r db = Inr (x, db')" and ok: "schema_ok db"
  have db': "db' = db\<lparr>t_access_key := t_access_key db @ [r]\<rparr>" and g: "unscoped r" "\<forall>q \<in> set (t_access_key db). \<not> key_clash r q"
    using run by (auto simp: insertKey_def list_ex_iff split: if_splits)
  have t: "has_tenant (t_tenant db) (ar_tenant_id r)"
    using run by (force simp: insertKey_def has_tenant_def list_ex_iff split: if_splits)
  have p: "has_principal (t_principal db) (ar_tenant_id r) (ar_principal_id r)"
    using run by (force simp: insertKey_def has_principal_def list_ex_iff split: if_splits option.split)
  have "\<forall>q \<in> set (t_access_key db). ar_id q \<noteq> ar_id r \<and>
      (ar_tenant_id q, ar_principal_id q, ar_name q) \<noteq> (ar_tenant_id r, ar_principal_id r, ar_name r)"
    using g(2) by (auto simp: key_clash_def)
  then have "key_schema (t_tenant db) (t_principal db) (t_access_key db @ [r])"
    using ok g t p by (auto simp: schema_ok_def key_schema_def)
  then show "schema_ok db'" using ok by (simp add: db' schema_ok_def)
qed

lemma deleteKey_sound [sound_intros]: "sound (deleteKey i)"
  by (rule soundI) (auto simp: deleteKey_def schema_ok_def key_schema_def distinct_map_filter)

lemma upsertPrincipal_sound [sound_intros]: "sound (upsertPrincipal now ten x)"
proof (rule soundI)
  fix db :: "'j db" and n db'
  assume run: "upsertPrincipal now ten x db = Inr (n, db')" and ok: "schema_ok db"
  show "schema_ok db'"
  proof (cases "List.find (principalRow ten x) (t_principal db)")
    case None
    let ?r = "\<lparr>sr_tenant_id = ten, sr_external_id = x, sr_created_at = now, sr_deleted_at = None\<rparr>"
    have db': "db' = db\<lparr>t_principal := t_principal db @ [?r]\<rparr>" and t: "has_tenant (t_tenant db) ten"
      using run None by (auto simp: upsertPrincipal_def has_tenant_def list_ex_iff split: if_splits)
    have "principal_schema (t_tenant db) (t_principal db @ [?r])"
      using ok t None by (auto simp: schema_ok_def principal_schema_def find_None_iff principalRow_def)
    then show ?thesis using ok
      by (auto simp: db' schema_ok_def elim!: key_schema_mono index_schema_mono intro: has_principal_snoc)
  next
    case (Some r)
    let ?g = "\<lambda>r. if principalRow ten x r then r\<lparr>sr_deleted_at := None, sr_created_at := now\<rparr> else r"
    have k: "(\<lambda>r. (sr_tenant_id r, sr_external_id r)) \<circ> ?g = (\<lambda>r. (sr_tenant_id r, sr_external_id r))" by auto
    have h: "has_principal (map ?g (t_principal db)) = has_principal (t_principal db)"
      by (simp only: has_principal_def[abs_def] map_map k)
    have "principal_schema (t_tenant db) (map ?g (t_principal db))"
      using ok by (auto simp: schema_ok_def principal_schema_def k)
    moreover have "key_schema (t_tenant db) (map ?g (t_principal db)) (t_access_key db)"
      "index_schema (t_bucket db) (map ?g (t_principal db)) (t_policy_index db)"
      using ok unfolding schema_ok_def key_schema_def index_schema_def h by blast+
    ultimately have "schema_ok (db\<lparr>t_principal := map ?g (t_principal db)\<rparr>)" using ok by (simp add: schema_ok_def)
    then show ?thesis using run ok Some by (auto simp: upsertPrincipal_def split: if_splits)
  qed
qed

lemma has_principal_filter:
  "has_principal ps ten p \<Longrightarrow> ten \<noteq> gone \<or> p = None \<Longrightarrow> has_principal (filter (\<lambda>r. sr_tenant_id r \<noteq> gone) ps) ten p"
  by (force simp: has_principal_def split: option.splits)

lemma refersTo_iff: "refersTo ten p db \<longleftrightarrow> p \<noteq> None \<and> has_principal (t_principal db) ten p"
  by (force simp: refersTo_def has_principal_def principalRow_def list_ex_iff split: option.split)

lemma deletePrincipals_sound [sound_intros]: "sound (deletePrincipals ten)"
proof (rule soundI)
  fix db :: "'j db" and n db'
  assume run: "deletePrincipals ten db = Inr (n, db')" and ok: "schema_ok db"
  let ?ps = "filter (\<lambda>r. sr_tenant_id r \<noteq> ten) (t_principal db)"
  let ?is = "filter (\<lambda>i. \<not> (ir_tenant_id i = ten \<and> refersTo ten (ir_principal_id i) db)) (t_policy_index db)"
  have db': "db' = db\<lparr>t_principal := ?ps, t_policy_index := ?is\<rparr>"
    and free: "\<forall>r \<in> set (t_access_key db). ar_tenant_id r = ten \<longrightarrow> \<not> refersTo ten (ar_principal_id r) db"
    using run by (auto simp: deletePrincipals_def list_ex_iff split: if_splits)
  have "principal_schema (t_tenant db) ?ps"
    using ok by (auto simp: schema_ok_def principal_schema_def distinct_map_filter)
  moreover have "key_schema (t_tenant db) ?ps (t_access_key db)"
    using ok free by (auto simp: schema_ok_def key_schema_def refersTo_iff intro!: has_principal_filter)
  moreover have "index_schema (t_bucket db) ?ps ?is"
    using ok by (auto simp: schema_ok_def index_schema_def refersTo_iff distinct_map_filter intro!: has_principal_filter)
  ultimately show "schema_ok db'" using ok by (simp add: db' schema_ok_def)
qed

lemma insertWrap_sound [sound_intros]: "sound (insertWrap r)"
proof (rule soundI)
  fix db :: "'j db" and x db'
  assume run: "insertWrap r db = Inr (x, db')" and ok: "schema_ok db"
  have db': "db' = db\<lparr>t_wrap_key := t_wrap_key db @ [r]\<rparr>" and st: "xr_status r \<in> {''active'', ''archived''}"
    and g: "\<forall>q \<in> set (t_wrap_key db). (xr_tenant_id q, xr_version q) \<noteq> (xr_tenant_id r, xr_version r) \<and> xr_kid q \<noteq> xr_kid r \<and>
      (xr_status q = ''active'' \<longrightarrow> xr_status r = ''active'' \<longrightarrow> xr_tenant_id q \<noteq> xr_tenant_id r)"
    using run by (simp_all add: insertWrap_def list_ex_iff split: if_splits) blast+
  have "(xr_tenant_id r, xr_version r) \<notin> set (map (\<lambda>r. (xr_tenant_id r, xr_version r)) (t_wrap_key db))"
    "xr_kid r \<notin> set (map xr_kid (t_wrap_key db))"
    "xr_status r = ''active'' \<Longrightarrow> xr_tenant_id r \<notin> set (map xr_tenant_id (filter (\<lambda>r. xr_status r = ''active'') (t_wrap_key db)))"
    using g by fastforce+
  then have "wrap_schema (t_wrap_key db @ [r])" using ok st by (simp add: schema_ok_def wrap_schema_def)
  then show "schema_ok db'" using ok by (simp add: db' schema_ok_def)
qed

lemma archiveWrap_sound [sound_intros]: "sound (archiveWrap now ten version)"
proof (rule soundI)
  fix db :: "'j db" and n db'
  assume run: "archiveWrap now ten version db = Inr (n, db')" and ok: "schema_ok db"
  let ?hit = "\<lambda>r. xr_tenant_id r = ten \<and> xr_version r = version \<and> xr_status r = ''active''"
  define g :: "wrap_row \<Rightarrow> wrap_row" where "g = (\<lambda>r. if ?hit r then r\<lparr>xr_status := ''archived'', xr_archived_at := Some (micros now)\<rparr> else r)"
  have db': "db' = db\<lparr>t_wrap_key := map g (t_wrap_key db)\<rparr>" using run by (simp add: archiveWrap_def Let_def g_def)
  have k: "map (\<lambda>r. (xr_tenant_id r, xr_version r)) (map g rows) = map (\<lambda>r. (xr_tenant_id r, xr_version r)) rows"
    "map xr_kid (map g rows) = map xr_kid rows"
    "map xr_tenant_id (filter (\<lambda>r. xr_status r = ''active'') (map g rows)) =
      map xr_tenant_id (filter (\<lambda>r. \<not> ?hit r) (filter (\<lambda>r. xr_status r = ''active'') rows))" for rows
    by (induction rows) (auto simp: g_def)
  note w = ok[unfolded schema_ok_def wrap_schema_def]
  have "distinct (map xr_tenant_id (filter (\<lambda>r. \<not> ?hit r) (filter (\<lambda>r. xr_status r = ''active'') (t_wrap_key db))))"
    using w by (blast intro: distinct_map_filter)
  moreover have "\<forall>r \<in> set (map g (t_wrap_key db)). xr_status r \<in> {''active'', ''archived''}" using w by (auto simp: g_def)
  ultimately have "wrap_schema (map g (t_wrap_key db))" using w unfolding wrap_schema_def k by blast
  then show "schema_ok db'" using ok by (simp add: db' schema_ok_def)
qed

lemma deleteWraps_sound [sound_intros]: "sound (deleteWraps ten)"
proof (rule soundI)
  fix db :: "'j db" and n db'
  assume run: "deleteWraps ten db = Inr (n, db')" and ok: "schema_ok db"
  let ?ws = "filter (\<lambda>r. xr_tenant_id r \<noteq> ten) (t_wrap_key db)"
  have "filter (\<lambda>r. xr_status r = ''active'') ?ws = filter (\<lambda>r. xr_tenant_id r \<noteq> ten) (filter (\<lambda>r. xr_status r = ''active'') (t_wrap_key db))"
    by (simp add: conj_commute)
  then have "wrap_schema ?ws"
    using ok by (simp add: schema_ok_def wrap_schema_def distinct_map_filter del: filter_filter)
  then show "schema_ok db'" using run ok by (auto simp: deleteWraps_def schema_ok_def)
qed

subsection \<open>Calls keep them\<close>

text \<open>A call changes the tables by one statement, or not at all.\<close>

definition settles :: "(nat \<Rightarrow> fault option) \<Rightarrow> ('j db \<Rightarrow> (err + 'a) \<times> 'j db) \<Rightarrow> bool" where
  "settles F f \<longleftrightarrow> (\<forall>db. (schema_ok db \<longrightarrow> schema_ok (snd (f db))) \<and>
     ((\<forall>n. F n \<noteq> Some AnswerLost) \<longrightarrow> isl (fst (f db)) \<longrightarrow> snd (f db) = db))"

definition body_sound :: "('j, 'a) body \<Rightarrow> bool" where
  "body_sound b \<longleftrightarrow> (\<forall>db x db'. b db = Inr (x, db') \<longrightarrow> schema_ok db \<longrightarrow> schema_ok db')"

lemma settles_ok: "settles F f \<Longrightarrow> schema_ok db \<Longrightarrow> schema_ok (snd (f db))"
  by (simp add: settles_def)

lemma settles_refused: "settles F f \<Longrightarrow> \<forall>n. F n \<noteq> Some AnswerLost \<Longrightarrow> isl (fst (f db)) \<Longrightarrow> snd (f db) = db"
  by (simp add: settles_def)

lemma body_soundD: "body_sound b \<Longrightarrow> b db = Inr (x, db') \<Longrightarrow> schema_ok db \<Longrightarrow> schema_ok db'"
  by (auto simp: body_sound_def)

lemma body_soundI: "(\<And>db x db'. b db = Inr (x, db') \<Longrightarrow> schema_ok db \<Longrightarrow> schema_ok db') \<Longrightarrow> body_sound b"
  by (auto simp: body_sound_def)

lemma run_sound: "sound st \<Longrightarrow> body_sound (run f wrap st)"
  by (auto simp: run_def sound_def body_sound_def split: option.splits fault.splits sum.splits)

lemma thn_sound: "body_sound b \<Longrightarrow> (\<And>x. body_sound (k x)) \<Longrightarrow> body_sound (\<lambda>db. thn (b db) k)"
  by (fastforce simp: body_sound_def thn_def split: sum.splits)

lemma SetTimeout_sound: "body_sound (SetTimeout F)"
  by (auto simp: SetTimeout_def intro!: run_sound soundI)

lemma Advisory_sound: "body_sound (Advisory f)"
  by (auto simp: Advisory_def lockStmt_def intro!: run_sound soundI)

lemma checkPrincipal_sound: "body_sound (checkPrincipal f ten p)"
  by (rule body_soundI)
    (auto simp: checkPrincipal_def run_def query_def split: option.splits fault.splits sum.splits if_splits)

lemma exec_sound: "sound st \<Longrightarrow> schema_ok db \<Longrightarrow> schema_ok (snd (exec f st db))"
  by (auto simp: exec_def sound_def split: option.splits fault.splits sum.splits)

lemma exec_failed: "f \<noteq> Some AnswerLost \<Longrightarrow> fst (exec f st db) = Inl c \<Longrightarrow> snd (exec f st db) = db"
  by (auto simp: exec_def split: option.splits fault.splits sum.splits)

lemma transaction_settles: "body_sound b \<Longrightarrow> settles F (transaction F b)"
  by (auto simp: settles_def transaction_def body_sound_def Begin_def run_def lockStmt_def split: option.splits fault.splits sum.splits)

lemma answered_settles: "settles F (\<lambda>db. answered tag (r db) db)"
  by (simp add: settles_def answered_def)

lemma wrote_settles: "settles F f \<Longrightarrow> settles F (\<lambda>db. wrote (f db))"
  by (auto simp: settles_def wrote_def isl_def map_sum_def split: prod.splits sum.splits)

text \<open>A statement on the pool, its failure read by \<open>e\<close>.\<close>

lemma exec_settles:
  assumes "sound st" and "\<And>db x db'. st db = Inr (x, db') \<Longrightarrow> isl (ans x) \<Longrightarrow> db' = db"
  shows "settles F (\<lambda>db. case exec (F 0) st db of (Inl c, db') \<Rightarrow> (Inl (e c), db') | (Inr x, db') \<Rightarrow> (ans x, db'))"
  using assms(2) exec_sound[OF assms(1)]
  by (fastforce simp: settles_def exec_def split: option.splits fault.splits sum.splits prod.splits)

lemma keep_settles: "settles F (\<lambda>db. (r, db))"
  by (simp add: settles_def)

lemma if_settles: "settles F f \<Longrightarrow> settles F g \<Longrightarrow> settles F (\<lambda>db. if b then f db else g db)"
  by (simp add: settles_def)

lemma sum_settles: "(\<And>x. settles F (f x)) \<Longrightarrow> (\<And>x. settles F (g x)) \<Longrightarrow> settles F (\<lambda>db. case s of Inl x \<Rightarrow> f x db | Inr x \<Rightarrow> g x db)"
  by (cases s) simp_all

lemma missed: "length (filter P xs) = 0 \<Longrightarrow> map (\<lambda>r. if P r then h r else r) xs = xs"
  by (induction xs) (auto split: if_splits)

lemma isl_missing: "isl (if (n :: nat) = 0 then Inl a else Inr b) \<longleftrightarrow> n = 0"
  by simp

lemma updateTenant_missed: "updateTenant now i st db = Inr (0, db') \<Longrightarrow> db' = db"
  using missed[of "\<lambda>r. tr_id r = i" "t_tenant db"] by (auto simp: updateTenant_def split: if_splits)

lemma updateProvider_missed: "updateProvider now i policy db = Inr (0, db') \<Longrightarrow> db' = db"
  using missed[of "\<lambda>r. vr_id r = i" "t_provider db"] by (auto simp: updateProvider_def)

lemma archiveWrap_missed: "archiveWrap now ten version db = Inr (0, db') \<Longrightarrow> db' = db"
  using missed[of "\<lambda>r. xr_tenant_id r = ten \<and> xr_version r = version \<and> xr_status r = ''active''" "t_wrap_key db"]
  by (auto simp: archiveWrap_def Let_def)

lemmas call_settles = wrote_settles answered_settles exec_settles keep_settles if_settles sum_settles transaction_settles
lemmas body_settles = thn_sound run_sound SetTimeout_sound Advisory_sound checkPrincipal_sound

lemma settles_cong: "(\<And>db. f db = g db) \<Longrightarrow> settles F g \<Longrightarrow> settles F f"
  by (simp add: settles_def)

lemma tenant_settles:
  "settles F (pg_tenant_Add (F 0) now d x st)"
  "settles F (pg_tenant_SetStatus (F 0) now d st)"
  "settles F (pg_tenant_Delete (F 0) d)"
  unfolding pg_tenant_Add_def[abs_def] pg_tenant_SetStatus_def[abs_def] pg_tenant_Delete_def[abs_def]
  by (intro call_settles sound_intros; auto dest: updateTenant_missed split: if_splits)+

lemma provider_settles:
  "settles F (pg_provider_Add (F 0) now d region policy)"
  "settles F (pg_provider_SetPolicy (F 0) now d p)"
  unfolding pg_provider_Add_def[abs_def] pg_provider_SetPolicy_def[abs_def]
  by (intro call_settles sound_intros; auto dest: updateProvider_missed split: if_splits)+

lemma bucket_settles:
  "settles F (pg_bucket_Add (F 0) now d t p n)"
  "settles F (pg_bucket_Delete F d)"
proof -
  show "settles F (pg_bucket_Add (F 0) now d t p n)"
    unfolding pg_bucket_Add_def[abs_def] by (intro call_settles sound_intros; simp)
  show "settles F (pg_bucket_Delete F d)"
    using body_soundD[OF run_sound[OF deleteBucket_sound]]
    by (auto simp: settles_def pg_bucket_Delete_def split: option.splits fault.splits sum.splits)
qed

lemma key_settles:
  "settles F (pg_key_Add F now i)"
  "settles F (pg_key_Delete F d)"
proof -
  have "body_sound (\<lambda>db. case run f w (insertKey r) db of Inl e \<Rightarrow> Inl (g e) | Inr x \<Rightarrow> Inr x)" for f w r and g :: "pg_fail \<Rightarrow> pg_fail"
    using body_soundD[OF run_sound[OF insertKey_sound]] by (auto intro!: body_soundI split: sum.splits)
  then show "settles F (pg_key_Add F now i)"
    unfolding pg_key_Add_def[abs_def] by (intro call_settles body_settles)
  show "settles F (pg_key_Delete F d)"
    unfolding pg_key_Delete_def[abs_def] by (intro call_settles body_settles sound_intros)
qed

lemma principal_settles:
  "settles F (pg_principal_Add F now t x)"
  "settles F (pg_principal_DeleteByTenant F t)"
proof -
  have "body_sound (\<lambda>db. if b then Inl e else Inr ((), db))" for b and e :: pg_fail
    by (rule body_soundI) (simp split: if_splits)
  then show "settles F (pg_principal_Add F now t x)"
    unfolding pg_principal_Add_def[abs_def] by (intro call_settles body_settles sound_intros)
  show "settles F (pg_principal_DeleteByTenant F t)"
    unfolding pg_principal_DeleteByTenant_def[abs_def] by (intro call_settles body_settles sound_intros)
qed

lemma wrap_settles:
  "settles F (pg_wrap_Add (F 0) now i)"
  "settles F (pg_wrap_Archive (F 0) now t v)"
  "settles F (pg_wrap_Delete (F 0) t)"
  unfolding pg_wrap_Add_def[abs_def] pg_wrap_Archive_def[abs_def] pg_wrap_Delete_def[abs_def]
  by (intro call_settles sound_intros; auto dest: archiveWrap_missed split: if_splits)+

lemma pg_call_settles: "settles F (pg_call parse collate F now c)"
  by (cases c; hypsubst; (rule settles_cong, rule pg_call.simps,
      intro wrote_settles answered_settles tenant_settles provider_settles bucket_settles key_settles principal_settles wrap_settles))

subsection \<open>A history with failures\<close>

type_synonym attempt = "faults \<times> instant \<times> registry_cmd"

definition attempts ::
  "(string \<Rightarrow> did option) \<Rightarrow> collation \<Rightarrow> attempt list \<Rightarrow> 'j db \<Rightarrow> 'j db" where
  "attempts parse collate = fold (\<lambda>(F, now, c) db. snd (pg_call parse collate F now c db))"

lemma attempts_ok: "schema_ok db \<Longrightarrow> schema_ok (attempts parse collate as db)"
proof (induction as arbitrary: db)
  case (Cons a as)
  obtain F now c where a: "a = (F, now, c)" by (rule prod_cases3)
  have "schema_ok (snd (pg_call parse collate F now c db))"
    by (rule settles_ok[OF pg_call_settles Cons.prems])
  from Cons.IH[OF this] show ?case by (simp add: attempts_def a)
qed (simp add: attempts_def)

text \<open>
  C24. Whatever the history of calls on the postgres stores, and whatever fails in it (any statement
  refused with any code, any answer lost on the way), the tables keep every constraint of the
  schema: unique ids, external ids, regions, bucket names, key names for a tenant and principal,
  one current wrap key for a tenant; valid statuses and names; and no bucket, key, principal or
  policy index row that refers to what is not there. A call that reports an error has changed
  nothing, unless it is the answer that was lost.
\<close>

theorem schema_kept:
  assumes "schema_ok db"
  shows "schema_ok (attempts parse collate as db) \<and>
    ((\<forall>n. F n \<noteq> Some AnswerLost) \<longrightarrow> isl (fst (pg_call parse collate F now c (attempts parse collate as db))) \<longrightarrow>
       snd (pg_call parse collate F now c (attempts parse collate as db)) = attempts parse collate as db)"
  by (intro conjI impI attempts_ok[OF assms] settles_refused[OF pg_call_settles])

theorem schema_kept_witness:
  "schema_ok (attempts (\<lambda>s. None) (\<lambda>s. s)
      [(\<lambda>_. None, 0, TenantAdd (Did ''t'') ''ext'' Active), (\<lambda>_. Some AnswerLost, 0, TenantAdd (Did ''u'') ''other'' Active)]
      (new_db :: unit db)) \<and>
   map tr_id (t_tenant (attempts (\<lambda>s. None) (\<lambda>s. s)
      [(\<lambda>_. None, 0, TenantAdd (Did ''t'') ''ext'' Active), (\<lambda>_. Some AnswerLost, 0, TenantAdd (Did ''u'') ''other'' Active)]
      (new_db :: unit db))) = [''t'', ''u'']"
proof -
  have "schema_ok (new_db :: unit db)"
    by (simp add: schema_ok_def tenant_schema_def provider_schema_def bucket_schema_def key_schema_def principal_schema_def
        wrap_schema_def policy_schema_def index_schema_def unique_col_def map_filter_simps new_db_def)
  note kept = schema_kept[OF this]
  show ?thesis by (intro conjI, rule kept[THEN conjunct1], code_simp)
qed

end
