(* ===== verification/Presign.thy ===== *)
theory Presign
  imports Sigv4_Sign
begin

text \<open>
  \<open>pkg/sigv4/sign.go\<close>: presigning a request, and what the verifier makes of the result.
\<close>

subsection \<open>strconv.Itoa and time.Format\<close>

definition digit :: "nat \<Rightarrow> char" where
  "digit n = char_of (48 + n mod 10)"

fun decimal :: "nat \<Rightarrow> string" where
  "decimal n = (if n < 10 then [digit n] else decimal (n div 10) @ [digit n])"

declare decimal.simps [simp del]

definition itoa :: "int \<Rightarrow> string" where
  "itoa n = (if n < 0 then CHR ''-'' # decimal (nat (- n)) else decimal (nat n))"

definition padded :: "nat \<Rightarrow> int \<Rightarrow> string" where
  "padded w n = (let ds = decimal (nat \<bar>n\<bar>) in (if n < 0 then ''-'' else []) @ replicate (w - length ds) CHR ''0'' @ ds)"

text \<open>The year of a day counted from the first of January of year 0, and the month and day in it.\<close>

definition yearOf :: "int \<Rightarrow> int" where
  "yearOf d = (let y = 400 * d div 146097 in
     if d < daysToYear y then y - 1 else if daysToYear (y + 1) \<le> d then y + 1 else y)"

fun monthLoop :: "int \<Rightarrow> nat list \<Rightarrow> int \<Rightarrow> nat \<times> int" where
  "monthLoop y [] d = (12, d + 1)"
| "monthLoop y (m # ms) d = (if d < daysIn y m then (m, d + 1) else monthLoop y ms (d - daysIn y m))"

definition civil :: "int \<Rightarrow> int \<times> nat \<times> int" where
  "civil d = (let d = d + 719528; y = yearOf d; (m, dd) = monthLoop y [1..<13] (d - daysToYear y) in (y, m, dd))"

text \<open>The layouts \<open>20060102\<close> and \<open>20060102T150405Z\<close>, of an instant in UTC.\<close>

definition formatDate :: "instant \<Rightarrow> string" where
  "formatDate t = (let (y, m, d) = civil (t div (24 * hour)) in padded 4 y @ padded 2 (int m) @ padded 2 d)"

definition formatAmzDate :: "instant \<Rightarrow> string" where
  "formatAmzDate t =
     (let s = t div second mod 86400
      in formatDate t @ ''T'' @ padded 2 (s div 3600) @ padded 2 (s div 60 mod 60) @ padded 2 (s mod 60) @ ''Z'')"

subsection \<open>net/url: Values.Set and Values.Encode\<close>

definition setValue :: "string \<Rightarrow> string \<Rightarrow> url_values \<Rightarrow> url_values" where
  "setValue k v q = AList.update k [v] q"

definition queryEscape :: "string \<Rightarrow> string" where
  "queryEscape s = concat (map (\<lambda>c. if c = CHR '' '' then ''+'' else encodeChar True c) s)"

definition formPairs :: "url_values \<Rightarrow> (string \<times> string) list" where
  "formPairs q = concat (map (\<lambda>(k, vs). map (Pair k) vs) (sort_key fst q))"

definition encodeValues :: "url_values \<Rightarrow> string" where
  "encodeValues q = join ''&'' (map (\<lambda>(k, v). queryEscape k @ ''='' @ queryEscape v) (formPairs q))"

subsection \<open>Presign\<close>

text \<open>The options: the headers to sign besides the host, and the payload's hash.\<close>

datatype presign_option = WithSignedHeaders "string list" | WithPayloadHash string

fun presignConfig :: "presign_option list \<Rightarrow> string list \<times> string \<Rightarrow> string list \<times> string" where
  "presignConfig [] cfg = cfg"
| "presignConfig (WithSignedHeaders ns # os) cfg = presignConfig os (fst cfg @ map toLower ns, snd cfg)"
| "presignConfig (WithPayloadHash h # os) cfg = presignConfig os (fst cfg, h)"

text \<open>\<open>int(expires.Seconds())\<close>: whole seconds; the float it passes through is exact below 97 days.\<close>

definition wholeSeconds :: "duration \<Rightarrow> int" where
  "wholeSeconds d = (if d < 0 then - (- d div second) else d div second)"

definition presignScope :: "scheme \<Rightarrow> string \<Rightarrow> instant \<Rightarrow> string" where
  "presignScope sch region signedAt =
     (if sch = SchemeV4a then formatDate signedAt @ ''/'' @ ''s3'' @ ''/'' @ terminator
      else formatDate signedAt @ ''/'' @ region @ ''/'' @ ''s3'' @ ''/'' @ terminator)"

text \<open>The query that is signed.\<close>

definition presignQuery ::
  "scheme \<Rightarrow> string \<Rightarrow> string \<Rightarrow> instant \<Rightarrow> duration \<Rightarrow> string list \<times> string \<Rightarrow> url_values \<Rightarrow> url_values" where
  "presignQuery sch ak region signedAt exps cfg q =
     (let q = setValue ''X-Amz-Algorithm'' (schemeString sch) q;
          q = setValue ''X-Amz-Credential'' (ak @ ''/'' @ presignScope sch region signedAt) q;
          q = setValue ''X-Amz-Date'' (formatAmzDate signedAt) q;
          q = setValue ''X-Amz-Expires'' (itoa (wholeSeconds exps)) q;
          q = setValue ''X-Amz-SignedHeaders'' (join '';'' (fst cfg)) q;
          q = (if snd cfg \<noteq> UnsignedPayload then setValue ''X-Amz-Content-Sha256'' (snd cfg) q else q)
      in if sch = SchemeV4a then setValue ''X-Amz-Region-Set'' region q else q)"

text \<open>
  The request the signature is made over: \<open>signature\<close>, \<open>presigned\<close> and \<open>expires\<close> are the zero
  values, signing reads none of them. \<open>U\<close> is \<open>url.URL.String\<close>.
\<close>

definition presignRequest ::
  "request \<Rightarrow> url \<Rightarrow> headers \<Rightarrow> string \<Rightarrow> string \<Rightarrow> scheme \<Rightarrow> instant \<Rightarrow> string list \<times> string \<Rightarrow> url_values \<Rightarrow> signed_request" where
  "presignRequest req u hs ak region sch signedAt cfg q =
     \<lparr>Scheme = sch, AccessKeyID = ak, Regions = [region], sr_method = Method req,
      canonicalURI = (if url_path u = [] then ''/'' else url_path u), sr_query = q, sr_headers = hs, host = url_host u,
      signedHeaders = fst cfg, payloadHash = snd cfg, amzDate = formatAmzDate signedAt,
      scope = presignScope sch region signedAt, signature = [], presigned = False, expires = 0\<rparr>"

definition Presign ::
  "url_parser \<Rightarrow> (url \<Rightarrow> string) \<Rightarrow> crypto \<Rightarrow> string \<Rightarrow> request \<Rightarrow> string \<Rightarrow> string \<Rightarrow> string \<Rightarrow> scheme \<Rightarrow> instant \<Rightarrow> duration \<Rightarrow>
   presign_option list \<Rightarrow> err + request" where
  "Presign P U C ent req ak secret region sch signedAt exps opts =
     (case P (URL req) of
        None \<Rightarrow> Inl (Internal ''parsing request URL'')
      | Some u \<Rightarrow>
          (let cfg = presignConfig opts ([''host''], UnsignedPayload);
               cfg = (remdups_adj (sort (fst cfg)), snd cfg);
               q = presignQuery sch ak region signedAt exps cfg (parseQuery (url_query u))
           in on_ok (toHeader (Headers req)) (\<lambda>hs.
                let sr = presignRequest req u hs ak region sch signedAt cfg q in
                on_ok (case sch of
                         SchemeV4 \<Rightarrow> Inr (signV4 C sr secret)
                       | SchemeV4a \<Rightarrow> signV4a C ent sr secret
                       | OtherScheme _ \<Rightarrow> Inl (Internal ''unsupported signature algorithm'')) (\<lambda>sig.
                  Inr (req\<lparr>URL := U (u\<lparr>url_query := encodeValues (setValue ''X-Amz-Signature'' sig q)\<rparr>)\<rparr>)))))"

subsection \<open>Numbers and dates read back\<close>

lemma byte_digit: "byte (digit n) = 48 + n mod 10"
  by (simp add: digit_def)

lemma is_digit_digit [simp]: "is_digit (digit n)"
  by (simp add: is_digit_def byte_digit)

lemma digitsValue_snoc: "digitsValue (s @ [c]) = 10 * digitsValue s + (byte c - 48)"
  by (simp add: digitsValue_def)

lemma decimal_digits: "list_all is_digit (decimal n) \<and> decimal n \<noteq> []"
  by (induction n rule: decimal.induct) (subst decimal.simps, simp)+

lemma digitsValue_decimal: "digitsValue (decimal n) = n"
proof (induction n rule: decimal.induct)
  case (1 n)
  then show ?case
    by (subst decimal.simps) (auto simp: digitsValue_snoc byte_digit digitsValue_def)
qed

lemma atoi_itoa:
  assumes "0 \<le> n" and "n < 2 ^ 63"
  shows "atoi (itoa n) = (n, True)"
proof -
  have d: "list_all is_digit (decimal (nat n))" "decimal (nat n) \<noteq> []" using decimal_digits by blast+
  obtain c cs where ds: "decimal (nat n) = c # cs" using d(2) by (cases "decimal (nat n)") auto
  have "\<not> is_digit CHR ''-''" "\<not> is_digit CHR ''+''" by code_simp+
  then have "c \<noteq> CHR ''-''" "c \<noteq> CHR ''+''" using d(1) ds by auto
  then show ?thesis
    using assms d(1) digitsValue_decimal[of "nat n"] by (simp add: itoa_def atoi_def ds)
qed

fun fixed :: "nat \<Rightarrow> nat \<Rightarrow> string" where
  "fixed 0 n = []"
| "fixed (Suc w) n = fixed w (n div 10) @ [digit n]"

lemma digit_0: "digit 0 = CHR ''0''"
  by code_simp

lemma fixed_0: "fixed w 0 = replicate w CHR ''0''"
  by (induction w) (simp_all add: digit_0 replicate_append_same)

lemma padded_fixed:
  assumes "n < 10 ^ Suc w"
  shows "replicate (Suc w - length (decimal n)) CHR ''0'' @ decimal n = fixed (Suc w) n"
  using assms
proof (induction w arbitrary: n)
  case 0
  then show ?case by (subst (1 2) decimal.simps) simp
next
  case (Suc w)
  show ?case
  proof (cases "n < 10")
    case True
    then show ?thesis by (subst (1 2) decimal.simps) (simp add: fixed_0 digit_0 replicate_append_same)
  next
    case False
    have dec: "decimal n = decimal (n div 10) @ [digit n]" using False by (subst decimal.simps) simp
    have "n div 10 < 10 ^ Suc w" using Suc.prems by simp
    from Suc.IH[OF this] show ?thesis by (simp add: dec)
  qed
qed

lemma padded_small:
  assumes "0 \<le> n" and "n < 10 ^ Suc w"
  shows "padded (Suc w) n = fixed (Suc w) (nat n)"
  using assms padded_fixed[of "nat n" w] by (simp add: padded_def nat_less_iff)

lemma padded_two: "0 \<le> n \<Longrightarrow> n < 100 \<Longrightarrow> padded 2 n = [digit (nat n div 10), digit (nat n)]"
  using padded_small[of n 1] by (simp add: numeral_2_eq_2)

lemma fixed_digits:
  "length (fixed w n) = w" "list_all is_digit (fixed w n)" "digitsValue (fixed w n) = n mod 10 ^ w"
proof -
  show "length (fixed w n) = w" by (induction w n rule: fixed.induct) simp_all
  show "list_all is_digit (fixed w n)" by (induction w n rule: fixed.induct) simp_all
  show "digitsValue (fixed w n) = n mod 10 ^ w"
  proof (induction w n rule: fixed.induct)
    case (1 n)
    then show ?case by (simp add: digitsValue_def)
  next
    case (2 w n)
    then show ?case by (simp add: digitsValue_snoc byte_digit mod_mult2_eq[of n 10 "10 ^ w"])
  qed
qed

lemma getnum2_padded: "0 \<le> n \<Longrightarrow> n < 100 \<Longrightarrow> getnum2 (padded 2 n @ s) = Some (n, s)"
  by (simp add: padded_two digitsValue_def byte_digit)

lemma getYear_padded:
  assumes "0 \<le> n" and "n < 10000"
  shows "getYear (padded 4 n @ s) = Some (n, s)"
proof -
  have p: "padded 4 n = fixed 4 (nat n)" using padded_small[of n 3] assms by simp
  show ?thesis using assms by (simp add: getYear_def p fixed_digits nat_less_iff)
qed

subsection \<open>The calendar, backwards\<close>

lemma div_bounds:
  fixes n k :: int
  assumes "0 < k"
  shows "k * (n div k) \<le> n" "n < k * (n div k) + k"
  using mult_div_mod_eq[of k n] pos_mod_sign[OF assms, of n] pos_mod_bound[OF assms, of n] by linarith+

lemma daysToYear_bounds: "146097 * y - 396 \<le> 400 * daysToYear y" "400 * daysToYear y \<le> 146097 * y + 699"
  using div_bounds[of 4 "y - 1"] div_bounds[of 100 "y - 1"] div_bounds[of 400 "y - 1"]
  by (simp_all add: daysToYear_def)

lemma yearOf_day: "daysToYear (yearOf d) \<le> d" "d < daysToYear (yearOf d + 1)"
proof -
  have near: "daysToYear (q - 1) \<le> d \<and> d < daysToYear (q + 1 + 1)" if "146097 * q \<le> 400 * d" "400 * d < 146097 * q + 146097" for q
    using daysToYear_bounds(2)[of "q - 1"] daysToYear_bounds(1)[of "q + 1 + 1"] that by (simp add: algebra_simps)
  note close = near[of "400 * d div 146097", OF div_bounds(1) div_bounds(2)]
  show "daysToYear (yearOf d) \<le> d" "d < daysToYear (yearOf d + 1)"
    using close by (auto simp: yearOf_def Let_def not_less)
qed

lemma monthLoop_day:
  assumes "0 \<le> d" and "d < sum_list (map (daysIn y) ms)" and "distinct ms" and "monthLoop y ms d = (m, dd)"
  shows "m \<in> set ms \<and> 1 \<le> dd \<and> dd \<le> daysIn y m \<and>
    sum_list (map (daysIn y) (takeWhile (\<lambda>k. k \<noteq> m) ms)) + (dd - 1) = d"
  using assms
proof (induction ms arbitrary: d)
  case (Cons k ms)
  show ?case
  proof (cases "d < daysIn y k")
    case True
    with Cons.prems show ?thesis by auto
  next
    case False
    with Cons.prems have "0 \<le> d - daysIn y k" "d - daysIn y k < sum_list (map (daysIn y) ms)" "distinct ms"
      "monthLoop y ms (d - daysIn y k) = (m, dd)" by auto
    from Cons.IH[OF this] Cons.prems(3) show ?thesis by auto
  qed
qed simp

lemma year_length: "sum_list (map (daysIn y) [1..<13]) = (if isLeap y then 366 else 365)"
  by (simp add: upt_rec daysIn_def)

lemma takeWhile_upt: "m \<in> set [a..<n] \<Longrightarrow> takeWhile (\<lambda>k. k \<noteq> m) [a..<n] = [a..<m]"
proof (induction "m - a" arbitrary: a)
  case 0
  then show ?case by (simp add: upt_conv_Cons)
next
  case (Suc d)
  then have "takeWhile (\<lambda>k. k \<noteq> m) [Suc a..<n] = [Suc a..<m]" by auto
  with Suc show ?case by (simp add: upt_conv_Cons)
qed

lemma civil_day:
  assumes "civil D = (y, m, d)"
  shows "1 \<le> m \<and> m \<le> 12 \<and> 1 \<le> d \<and> d \<le> daysIn y m \<and> unixDay y m d = D"
proof -
  let ?D = "D + 719528"
  have y: "y = yearOf ?D" and loop: "monthLoop y [1..<13] (?D - daysToYear y) = (m, d)"
    using assms by (auto simp: civil_def Let_def split: prod.splits)
  have "0 \<le> ?D - daysToYear y" "?D - daysToYear y < sum_list (map (daysIn y) [1..<13])"
    using yearOf_day[of ?D] unfolding year_length y daysToYear_Suc by linarith+
  from monthLoop_day[OF this _ loop] have *: "m \<in> set [1..<13] \<and> 1 \<le> d \<and> d \<le> daysIn y m \<and>
      sum_list (map (daysIn y) (takeWhile (\<lambda>k. k \<noteq> m) [1..<13])) + (d - 1) = ?D - daysToYear y"
    by (simp only: distinct_upt)
  then have "takeWhile (\<lambda>k. k \<noteq> m) [1..<13] = [1..<m]" by (intro takeWhile_upt) blast
  with * show ?thesis unfolding unixDay_def set_upt by auto
qed

lemma parseAmzDate_parts:
  assumes "0 \<le> y" "y < 10000" and "1 \<le> m" "m \<le> 12" and "1 \<le> d" "d \<le> daysIn y m"
    and "0 \<le> hh" "hh < 24" and "0 \<le> mm" "mm < 60" and "0 \<le> ss" "ss < 60"
  shows "parseAmzDate (padded 4 y @ padded 2 (int m) @ padded 2 d @ CHR ''T'' # padded 2 hh @ padded 2 mm @ padded 2 ss @ ''Z'') =
    Some ((unixDay y m d * 86400 + hh * 3600 + mm * 60 + ss) * second)"
proof -
  have frac: "getFraction ''Z'' = (0, ''Z'')" by (simp add: getFraction_def)
  have "d < 100" using assms(6) by (auto simp: daysIn_def split: if_splits)
  then have nums: "getYear (padded 4 y @ r) = Some (y, r)" "getnum2 (padded 2 (int m) @ r) = Some (int m, r)"
    "getnum2 (padded 2 d @ r) = Some (d, r)" "getnum2 (padded 2 hh @ r) = Some (hh, r)"
    "getnum2 (padded 2 mm @ r) = Some (mm, r)" "getnum2 (padded 2 ss @ r) = Some (ss, r)" for r
    using assms by (auto intro!: getYear_padded getnum2_padded)
  show ?thesis
    unfolding parseAmzDate_def nums frac option.case prod.case list.case Let_def
    using assms by (simp only: nat_int) simp
qed

lemma parseAmzDate_format:
  assumes "fst (civil (t div (24 * hour))) \<in> {0..<10000}"
  shows "parseAmzDate (formatAmzDate t) = Some (t - t mod second)"
proof -
  obtain y m d where c: "civil (t div (24 * hour)) = (y, m, d)" by (rule prod_cases3)
  note v = civil_day[OF c]
  define s where "s = t div second mod 86400"
  define hh mm ss where "hh = s div 3600" and "mm = s div 60 mod 60" and "ss = s mod 60"
  have s: "0 \<le> s" "s < 86400" unfolding s_def by simp_all
  have "hh = s div 60 div 60" by (simp add: hh_def zdiv_zmult2_eq[symmetric])
  then have sum: "hh * 3600 + mm * 60 + ss = s"
    using mult_div_mod_eq[of 60 s] mult_div_mod_eq[of 60 "s div 60"] unfolding mm_def ss_def by linarith
  have clock: "0 \<le> hh" "hh < 24" "0 \<le> mm" "mm < 60" "0 \<le> ss" "ss < 60"
    using s by (auto simp: hh_def mm_def ss_def)
  have out: "formatAmzDate t = padded 4 y @ padded 2 (int m) @ padded 2 d @ CHR ''T'' # padded 2 hh @ padded 2 mm @ padded 2 ss @ ''Z''"
    by (simp add: formatAmzDate_def formatDate_def Let_def c[simplified] s_def hh_def mm_def ss_def)
  have "parseAmzDate (formatAmzDate t) = Some ((unixDay y m d * 86400 + hh * 3600 + mm * 60 + ss) * second)"
    unfolding out using assms c v clock by (intro parseAmzDate_parts) auto
  moreover have "unixDay y m d * 86400 + s = t div second"
  proof -
    have "unixDay y m d = t div second div 86400" using v by (simp add: div_mult2_eq[symmetric])
    then show ?thesis unfolding s_def by simp
  qed
  ultimately show ?thesis using sum by (simp add: minus_mod_eq_div_mult add.assoc)
qed

subsection \<open>A query read back\<close>

lemma upperHex_plain: "list_all (\<lambda>n. upperHex ! n \<notin> {CHR ''&'', CHR '';'', CHR ''=''}) [0..<16]"
  by code_simp

lemma encodeChar_plain: "CHR ''&'' \<notin> set (encodeChar True c) \<and> CHR '';'' \<notin> set (encodeChar True c) \<and> CHR ''='' \<notin> set (encodeChar True c)"
proof (cases "unreserved c")
  case True
  have "\<not> unreserved CHR ''&''" "\<not> unreserved CHR '';''" "\<not> unreserved CHR ''=''" by code_simp+
  with True have "c \<notin> {CHR ''&'', CHR '';'', CHR ''=''}" by auto
  with True show ?thesis by (auto simp: encodeChar_def)
next
  case False
  have "byte c div 16 < 16" "byte c mod 16 < 16" by simp_all
  then have "upperHex ! (byte c div 16) \<notin> {CHR ''&'', CHR '';'', CHR ''=''}" "upperHex ! (byte c mod 16) \<notin> {CHR ''&'', CHR '';'', CHR ''=''}"
    using upperHex_plain by (simp_all add: list_all_iff)
  with False show ?thesis by (auto simp: encodeChar_def)
qed

lemma queryEscape_plain: "CHR ''&'' \<notin> set (queryEscape s)" "CHR '';'' \<notin> set (queryEscape s)" "CHR ''='' \<notin> set (queryEscape s)"
  using encodeChar_plain by (induction s) (auto simp: queryEscape_def)

lemma queryUnescape_queryEscape: "queryUnescape (queryEscape s) = Some s"
  by (induction s) (simp_all add: queryEscape_def queryUnescape_encodeChar)

lemma cut_first: "CHR ''='' \<notin> set k \<Longrightarrow> cut (k @ CHR ''='' # v) ''='' = (k, v, True)"
  by (induction k) auto

lemma parsePairs_form:
  "parsePairs (map (\<lambda>(k, v). queryEscape k @ ''='' @ queryEscape v) ps) q = fold (\<lambda>(k, v). addValue k v) ps q"
proof (induction ps arbitrary: q)
  case (Cons p ps)
  obtain k v where p: "p = (k, v)" by force
  have "cut (queryEscape k @ CHR ''='' # queryEscape v) ''='' = (queryEscape k, queryEscape v, True)"
    by (rule cut_first) (rule queryEscape_plain)
  then show ?case
    using queryEscape_plain[of k] queryEscape_plain[of v] Cons.IH by (simp add: p queryUnescape_queryEscape)
qed simp

definition valuesOf :: "string \<Rightarrow> (string \<times> string) list \<Rightarrow> string list" where
  "valuesOf k ps = map snd (filter (\<lambda>p. fst p = k) ps)"

lemma map_of_added:
  "map_of (fold (\<lambda>(k, v). addValue k v) ps q) k =
    (if valuesOf k ps = [] then map_of q k else Some ((case map_of q k of None \<Rightarrow> [] | Some vs \<Rightarrow> vs) @ valuesOf k ps))"
proof (induction ps arbitrary: q)
  case Nil
  then show ?case by (simp add: valuesOf_def)
next
  case (Cons p ps)
  obtain k' v where p: "p = (k', v)" by force
  show ?case using Cons.IH[of "addValue k' v q"]
    by (auto simp: p valuesOf_def addValue_def update_conv' split: option.splits)
qed

lemma valuesOf_concat:
  "distinct (map fst es) \<Longrightarrow>
   valuesOf k (concat (map (\<lambda>(k, vs). map (Pair k) vs) es)) = (case map_of es k of None \<Rightarrow> [] | Some vs \<Rightarrow> vs)"
proof (induction es)
  case Nil
  then show ?case by (simp add: valuesOf_def)
next
  case (Cons e es)
  obtain k' vs where e: "e = (k', vs)" by force
  have same: "valuesOf k (map (Pair k') vs) = (if k' = k then vs else [])"
    by (induction vs) (auto simp: valuesOf_def)
  have app: "valuesOf k (xs @ ys) = valuesOf k xs @ valuesOf k ys" for xs ys by (simp add: valuesOf_def)
  have "map_of es k' = None" using Cons.prems by (simp add: e map_of_eq_None_iff)
  with Cons same show ?case by (auto simp: e app)
qed

lemma valuesOf_formPairs:
  assumes "wf_gomap q"
  shows "valuesOf k (formPairs q) = (case map_of q k of None \<Rightarrow> [] | Some vs \<Rightarrow> vs)"
proof -
  have d: "distinct (map fst q)" using assms by (simp add: wf_gomap_def)
  then have d': "distinct (map fst (sort_key fst q))"
    by (metis distinct_map distinct_sort set_sort)
  have "map_of (sort_key fst q) = map_of q" using d d' by (intro map_of_inject_set[THEN iffD2]) simp_all
  with valuesOf_concat[OF d', of k] show ?thesis by (simp add: formPairs_def)
qed

definition filled :: "url_values \<Rightarrow> bool" where
  "filled q \<longleftrightarrow> wf_gomap q \<and> (\<forall>k vs. map_of q k = Some vs \<longrightarrow> vs \<noteq> [])"

lemma filled_setValue: "filled q \<Longrightarrow> filled (setValue k v q)"
  by (auto simp: filled_def setValue_def update_conv' split: if_splits)

lemma filled_addValue: "filled q \<Longrightarrow> filled (addValue k v q)"
  by (auto simp: filled_def addValue_def update_conv' split: if_splits)

lemma filled_parsePairs: "filled q \<Longrightarrow> filled (parsePairs ps q)"
proof (induction ps arbitrary: q)
  case (Cons p ps)
  then show ?case by (auto simp: Let_def filled_addValue split: prod.split option.split)
qed simp

lemma filled_parseQuery: "filled (parseQuery raw)"
  unfolding parseQuery_def by (rule filled_parsePairs) (simp add: filled_def)

lemma parseQuery_encodeValues:
  assumes "filled q"
  shows "map_of (parseQuery (encodeValues q)) = map_of q"
proof
  fix k
  let ?parts = "map (\<lambda>(k, v). queryEscape k @ ''='' @ queryEscape v) (formPairs q)"
  have "parsePairs (splitOn CHR ''&'' (join ''&'' ?parts)) [] = parsePairs ?parts []"
  proof (cases "?parts = []")
    case False
    then have "splitOn CHR ''&'' (join ''&'' ?parts) = ?parts"
      by (rule splitOn_join) (auto simp: queryEscape_plain)
    then show ?thesis by simp
  qed simp
  then have "parseQuery (encodeValues q) = fold (\<lambda>(k, v). addValue k v) (formPairs q) []"
    unfolding parseQuery_def encodeValues_def parsePairs_form by simp
  then show "map_of (parseQuery (encodeValues q)) k = map_of q k"
    using assms by (auto simp: map_of_added valuesOf_formPairs filled_def split: option.splits)
qed

lemma mset_gomap:
  assumes "wf_gomap p" and "wf_gomap q" and "map_of p = map_of q"
  shows "mset p = mset q"
proof -
  have "set p = set q" using assms map_of_inject_set unfolding wf_gomap_def by blast
  moreover have "distinct p" "distinct q" using assms(1,2) by (simp_all add: wf_gomap_def distinct_map)
  ultimately show ?thesis by (simp add: set_eq_iff_mset_eq_distinct)
qed

subsection \<open>The header names and the credential read back\<close>

fun option_ok :: "presign_option \<Rightarrow> bool" where
  "option_ok (WithSignedHeaders ns) \<longleftrightarrow> list_all (\<lambda>n. n \<noteq> [] \<and> list_all is_token n) ns"
| "option_ok (WithPayloadHash h) \<longleftrightarrow> h \<noteq> []"

definition header_name :: "string \<Rightarrow> bool" where
  "header_name n \<longleftrightarrow> n \<noteq> [] \<and> list_all is_token n \<and> toLower n = n"

lemma presignConfig_ok:
  assumes "list_all option_ok opts" and "\<forall>n \<in> set (fst cfg). header_name n" and "snd cfg \<noteq> []"
  shows "(\<forall>n \<in> set (fst (presignConfig opts cfg)). header_name n) \<and> snd (presignConfig opts cfg) \<noteq> [] \<and>
    set (fst cfg) \<subseteq> set (fst (presignConfig opts cfg))"
  using assms
proof (induction opts cfg rule: presignConfig.induct)
  case (2 ns os cfg)
  have "header_name (toLower n)" if "n \<in> set ns" for n
    using 2(2) that tokens_toLower[of n] by (auto simp: header_name_def list_all_iff toLower_def)
  then show ?case using 2 by auto
qed auto

lemma token_plain: "is_token c \<Longrightarrow> c \<noteq> CHR '';'' \<and> \<not> is_space c"
proof -
  assume t: "is_token c"
  have "\<not> is_token CHR '';''" by code_simp
  moreover have "list_all (\<lambda>c. \<not> is_space c) ''!#$%&*+-.^_`|~''" by code_simp
  then have "c \<in> set ''!#$%&*+-.^_`|~'' \<Longrightarrow> \<not> is_space c" unfolding list_all_iff by blast
  moreover have "is_upper c \<or> is_lower c \<or> is_digit c \<or> byte c = 39 \<Longrightarrow> \<not> is_space c"
    by (auto simp: is_space_def is_upper_def is_lower_def is_digit_def)
  ultimately show ?thesis using t unfolding is_token_def by blast
qed

lemma trimSpace_id: "list_all (\<lambda>c. \<not> is_space c) s \<Longrightarrow> trimSpace s = s"
proof -
  assume a: "list_all (\<lambda>c. \<not> is_space c) s"
  have "dropWhile is_space t = t" if "\<forall>c \<in> set t. \<not> is_space c" for t using that by (cases t) auto
  from this[of s] this[of "rev s"] a show ?thesis by (simp add: trimSpace_def list_all_iff)
qed

lemma toLower_join: "toLower (join '';'' ns) = join '';'' (map toLower ns)"
proof (induction ns)
  case (Cons n ns)
  have "toLower '';'' = '';''" by code_simp
  with Cons show ?case by (cases "ns = []") (simp_all add: join_Cons toLower_def)
qed (simp add: toLower_def)

lemma splitSignedHeaders_join:
  assumes "\<forall>n \<in> set ns. header_name n" and "ns \<noteq> []" and "sorted ns"
  shows "splitSignedHeaders (join '';'' ns) = ns"
proof -
  have low: "map toLower ns = ns" using assms(1) by (intro map_idI) (simp add: header_name_def)
  have "splitOn CHR '';'' (join '';'' ns) = ns"
    using assms(1,2) token_plain by (intro splitOn_join) (auto simp: header_name_def list_all_iff)
  moreover have "map trimSpace ns = ns"
    using assms(1) token_plain by (intro map_idI trimSpace_id) (auto simp: header_name_def list_all_iff)
  moreover have "filter (\<lambda>h. h \<noteq> []) ns = ns" using assms(1) by (intro filter_True) (simp add: header_name_def)
  ultimately show ?thesis using assms(3) by (simp add: splitSignedHeaders_def toLower_join low sorted_sort_id)
qed

lemma slash_not_digit: "\<not> is_digit CHR ''/''"
  by code_simp

lemma padded_plain: "CHR ''/'' \<notin> set (padded w n)"
proof -
  have "CHR ''/'' \<notin> set (decimal k)" for k using decimal_digits[of k] slash_not_digit by (auto simp: list_all_iff)
  then show ?thesis by (auto simp: padded_def Let_def)
qed

lemma formatDate_plain: "CHR ''/'' \<notin> set (formatDate t)"
  by (auto simp: formatDate_def padded_plain split: prod.splits)

lemma scope_split:
  assumes "CHR ''/'' \<notin> set region" and "CHR ''/'' \<notin> set ak" and "sch = SchemeV4 \<or> sch = SchemeV4a"
  shows "splitOn CHR ''/'' (ak @ ''/'' @ presignScope sch region t) =
    (if sch = SchemeV4a then [ak, formatDate t, ''s3'', terminator] else [ak, formatDate t, region, ''s3'', terminator])"
proof -
  let ?parts = "if sch = SchemeV4a then [ak, formatDate t, ''s3'', terminator] else [ak, formatDate t, region, ''s3'', terminator]"
  have "ak @ ''/'' @ presignScope sch region t = join ''/'' ?parts" by (simp add: presignScope_def)
  moreover have "splitOn CHR ''/'' (join ''/'' ?parts) = ?parts"
    using assms formatDate_plain by (intro splitOn_join) (auto simp: terminator_def)
  ultimately show ?thesis by simp
qed

subsection \<open>The string that was signed\<close>

lemma stringToSign_cong:
  assumes "Scheme sr = Scheme sr'" "amzDate sr = amzDate sr'" "scope sr = scope sr'" "sr_method sr = sr_method sr'"
    "canonicalURI sr = canonicalURI sr'" "mset (sr_query sr) = mset (sr_query sr')" "sr_headers sr = sr_headers sr'"
    "host sr = host sr'" "signedHeaders sr = signedHeaders sr'" "payloadHash sr = payloadHash sr'"
  shows "stringToSign C sr = stringToSign C sr'"
proof -
  have "canonicalQueryString sr = canonicalQueryString sr'" by (rule canonicalQueryString_cong) (rule assms)
  moreover have "headerLine sr = headerLine sr'" by (rule ext) (simp add: headerLine_def assms)
  ultimately have "canonicalRequest sr = canonicalRequest sr'" by (simp add: canonicalRequest_def canonicalHeaders_def assms)
  then show ?thesis by (simp add: stringToSign_def assms)
qed

text \<open>
  The documented behaviour of the primitives: a MAC is not empty, nor is a signature, which
  its key's public half verifies.
\<close>

definition signing_laws :: "crypto \<Rightarrow> bool" where
  "signing_laws C \<longleftrightarrow> (\<forall>k m. HMAC C k m \<noteq> []) \<and>
     (\<forall>ent priv h der. SignASN1 C ent priv h = Some der \<longrightarrow> der \<noteq> [] \<and> VerifyASN1 C (PublicKey C priv) h der)"

definition signOf :: "crypto \<Rightarrow> string \<Rightarrow> signed_request \<Rightarrow> string \<Rightarrow> err + string" where
  "signOf C ent sr secret = (case Scheme sr of
     SchemeV4 \<Rightarrow> Inr (signV4 C sr secret) | SchemeV4a \<Rightarrow> signV4a C ent sr secret
   | OtherScheme _ \<Rightarrow> Inl (Internal ''unsupported signature algorithm''))"

lemma signature_verifies:
  assumes "signing_laws C" and "signOf C ent sr secret = Inr sig" and "stringToSign C sr' = stringToSign C sr"
    and "Scheme sr' = Scheme sr" "scope sr' = scope sr" "AccessKeyID sr' = AccessKeyID sr" and "signature sr' = sig"
  shows "Verify C sr' secret = Inr ()" and "sig \<noteq> []"
proof -
  have scopes: "scopeDate sr' = scopeDate sr" "scopeRegion sr' = scopeRegion sr" "scopeService sr' = scopeService sr"
    by (simp_all add: scopeDate_def scopeRegion_def scopeService_def scopeParts_def assms(5))
  have "Verify C sr' secret = Inr () \<and> sig \<noteq> []"
  proof (cases "Scheme sr")
    case SchemeV4
    then have "sig = signV4 C sr secret" using assms(2) by (simp add: signOf_def)
    moreover have "hexEncode bs \<noteq> []" if "bs \<noteq> []" for bs using that by (cases bs) (simp_all add: hexEncode_def)
    ultimately show ?thesis
      using assms(1,3,4,7) SchemeV4
      by (simp add: Verify_def verifyV4_def verifyV4WithKey_def signV4_def signV4WithKey_def scopes signing_laws_def)
  next
    case SchemeV4a
    then obtain priv der where key: "deriveKeyV4a C (AccessKeyID sr) secret = Inr priv"
      and der: "SignASN1 C ent priv (SHA256 C (stringToSign C sr)) = Some der" and sig: "sig = hexEncode der"
      using assms(2) by (auto simp: signOf_def signV4a_def split: sum.splits option.splits)
    have "der \<noteq> []" "VerifyASN1 C (PublicKey C priv) (SHA256 C (stringToSign C sr)) der"
      using assms(1) der unfolding signing_laws_def by blast+
    moreover have "hexEncode der \<noteq> []" if "der \<noteq> []" using that by (cases der) (simp_all add: hexEncode_def)
    ultimately show ?thesis
      using SchemeV4a key by (simp add: Verify_def verifyV4a_def verifyV4aWithPublicKey_def assms(3-7) sig)
  qed (use assms(2) in \<open>simp add: signOf_def\<close>)
  then show "Verify C sr' secret = Inr ()" and "sig \<noteq> []" by blast+
qed

subsection \<open>Property\<close>

lemma queryGet_set [simp]: "queryGet (setValue k v q) k' = (if k' = k then v else queryGet q k')"
  by (simp add: queryGet_def setValue_def update_conv')

lemma extractHost_query: "extractHost hs (u\<lparr>url_query := q\<rparr>) = extractHost hs u"
proof -
  have "url_host (u\<lparr>url_query := q\<rparr>) = url_host u" "url_scheme (u\<lparr>url_query := q\<rparr>) = url_scheme u" by simp_all
  then show ?thesis unfolding extractHost_def by metis
qed

lemma presignQuery_get:
  fixes sch ak region t exps ns h and q :: url_values
  defines "p \<equiv> presignQuery sch ak region t exps (ns, h) q"
  shows "queryGet p ''X-Amz-Algorithm'' = schemeString sch"
    "queryGet p ''X-Amz-Credential'' = ak @ ''/'' @ presignScope sch region t"
    "queryGet p ''X-Amz-SignedHeaders'' = join '';'' ns" "queryGet p ''X-Amz-Date'' = formatAmzDate t"
    "queryGet p ''X-Amz-Expires'' = itoa (wholeSeconds exps)"
    "queryGet p ''X-Amz-Content-Sha256'' = (if h = UnsignedPayload then queryGet q ''X-Amz-Content-Sha256'' else h)"
    "sch = SchemeV4a \<Longrightarrow> queryGet p ''X-Amz-Region-Set'' = region"
    "map_of p ''X-Amz-Signature'' = map_of q ''X-Amz-Signature''" "filled q \<Longrightarrow> filled p"
proof -
  show "queryGet p ''X-Amz-Algorithm'' = schemeString sch"
    "queryGet p ''X-Amz-Credential'' = ak @ ''/'' @ presignScope sch region t"
    "queryGet p ''X-Amz-SignedHeaders'' = join '';'' ns" "queryGet p ''X-Amz-Date'' = formatAmzDate t"
    "queryGet p ''X-Amz-Expires'' = itoa (wholeSeconds exps)"
    "queryGet p ''X-Amz-Content-Sha256'' = (if h = UnsignedPayload then queryGet q ''X-Amz-Content-Sha256'' else h)"
    "sch = SchemeV4a \<Longrightarrow> queryGet p ''X-Amz-Region-Set'' = region"
    by (simp_all add: p_def presignQuery_def Let_def)
  show "map_of p ''X-Amz-Signature'' = map_of q ''X-Amz-Signature''"
    by (simp add: p_def presignQuery_def Let_def setValue_def update_conv')
  show "filled q \<Longrightarrow> filled p"
    by (simp add: p_def presignQuery_def Let_def filled_setValue)
qed

text \<open>
  What the caller of \<open>Presign\<close> must see to: the parts of the credential hold no slash, the URL
  is not presigned already and names no payload hash of its own, and its host is what a
  verifier reads from the request, no proxy header and no default port changing it. \<open>U\<close> prints
  a URL that parses back.
\<close>

definition presignable :: "url_parser \<Rightarrow> (url \<Rightarrow> string) \<Rightarrow> request \<Rightarrow> string \<Rightarrow> string \<Rightarrow> bool" where
  "presignable P U req ak region \<longleftrightarrow> CHR ''/'' \<notin> set ak \<and> CHR ''/'' \<notin> set region \<and>
     (\<forall>u hs. P (URL req) = Some u \<and> toHeader (Headers req) = Inr hs \<longrightarrow>
        extractHost hs u = url_host u \<and>
        map_of (parseQuery (url_query u)) ''X-Amz-Signature'' = None \<and>
        queryGet (parseQuery (url_query u)) ''X-Amz-Content-Sha256'' = [] \<and>
        (\<forall>q. P (U (u\<lparr>url_query := encodeValues q\<rparr>)) = Some (u\<lparr>url_query := encodeValues q\<rparr>)))"

lemma Presign_Inr:
  assumes "Presign P U C ent req ak secret region sch signedAt exps opts = Inr req'"
  obtains u hs ns h sig where "P (URL req) = Some u" "toHeader (Headers req) = Inr hs"
    "presignConfig opts ([''host''], UnsignedPayload) = (ns, h)"
    "signOf C ent (presignRequest req u hs ak region sch signedAt (remdups_adj (sort ns), h)
       (presignQuery sch ak region signedAt exps (remdups_adj (sort ns), h) (parseQuery (url_query u)))) secret = Inr sig"
    "req' = req\<lparr>URL := U (u\<lparr>url_query := encodeValues (setValue ''X-Amz-Signature'' sig
       (presignQuery sch ak region signedAt exps (remdups_adj (sort ns), h) (parseQuery (url_query u))))\<rparr>)\<rparr>"
proof -
  obtain ns h where cfg: "presignConfig opts ([''host''], UnsignedPayload) = (ns, h)" by force
  from assms obtain u where u: "P (URL req) = Some u" by (auto simp: Presign_def split: option.splits)
  from assms obtain hs where hs: "toHeader (Headers req) = Inr hs"
    by (auto simp: Presign_def u Let_def on_ok_Inr_iff)
  let ?q = "presignQuery sch ak region signedAt exps (remdups_adj (sort ns), h) (parseQuery (url_query u))"
  let ?sr = "presignRequest req u hs ak region sch signedAt (remdups_adj (sort ns), h) ?q"
  have sch: "Scheme ?sr = sch" by (simp add: presignRequest_def)
  have "on_ok (signOf C ent ?sr secret) (\<lambda>sig.
      Inr (req\<lparr>URL := U (u\<lparr>url_query := encodeValues (setValue ''X-Amz-Signature'' sig ?q)\<rparr>)\<rparr>)) = Inr req'"
    using assms unfolding signOf_def sch Presign_def u hs cfg Let_def option.case on_ok_simps fst_conv snd_conv .
  then show ?thesis using that[OF u hs cfg] by (auto simp: on_ok_Inr_iff)
qed

lemma within_expiry:
  assumes "presigned sr" and "parseAmzDate (amzDate sr) = Some t" and "0 < expires sr" and "expires sr \<le> 604800"
  shows "ValidateTimeBounds sr now = Inr () \<longleftrightarrow> t \<le> now \<and> now \<le> t + expires sr * second"
  using assms by (auto simp: ValidateTimeBounds_def maxPresignExpiry_def Let_def)

text \<open>
  C19. A presigned URL is one the verifier accepts: it parses back to the key, the scheme, the
  headers and the region it was made with, verifies under the secret it was signed with, and
  is within its time from the second it was signed until it expires.
\<close>

theorem presign_roundtrip:
  assumes "Presign P U C ent req ak secret region sch signedAt exps opts = Inr req'"
    and "presignable P U req ak region" and "signing_laws C" and "list_all option_ok opts"
    and "second \<le> exps" and "exps \<le> 7 * 24 * hour" and "fst (civil (signedAt div (24 * hour))) \<in> {0..<10000}"
  shows "\<exists>sr. Parse P req' = Inr sr \<and> Verify C sr secret = Inr () \<and> Scheme sr = sch \<and> AccessKeyID sr = ak \<and>
    Regions sr = (if sch = SchemeV4a then splitRegionSet region else [region]) \<and> presigned sr \<and>
    (\<forall>n \<in> set (fst (presignConfig opts ([''host''], UnsignedPayload))). HeaderSigned sr n) \<and>
    payloadHash sr = snd (presignConfig opts ([''host''], UnsignedPayload)) \<and>
    (\<forall>now. ValidateTimeBounds sr now = Inr () \<longleftrightarrow>
       signedAt - signedAt mod second \<le> now \<and> now \<le> signedAt - signedAt mod second + exps div second * second)"
proof -
  obtain u hs ns h sig where u: "P (URL req) = Some u" and hs: "toHeader (Headers req) = Inr hs"
    and cfg: "presignConfig opts ([''host''], UnsignedPayload) = (ns, h)"
    and sig: "signOf C ent (presignRequest req u hs ak region sch signedAt (remdups_adj (sort ns), h)
       (presignQuery sch ak region signedAt exps (remdups_adj (sort ns), h) (parseQuery (url_query u)))) secret = Inr sig"
    and req': "req' = req\<lparr>URL := U (u\<lparr>url_query := encodeValues (setValue ''X-Amz-Signature'' sig
       (presignQuery sch ak region signedAt exps (remdups_adj (sort ns), h) (parseQuery (url_query u))))\<rparr>)\<rparr>"
    by (rule Presign_Inr[OF assms(1)])
  define signed where "signed = remdups_adj (sort ns)"
  define q where "q = presignQuery sch ak region signedAt exps (signed, h) (parseQuery (url_query u))"
  define qs where "qs = setValue ''X-Amz-Signature'' sig q"
  define sr0 where "sr0 = presignRequest req u hs ak region sch signedAt (signed, h) q"
  note get = presignQuery_get[where sch = sch and ak = ak and region = region and t = signedAt and exps = exps and ns = signed and h = h
      and q = "parseQuery (url_query u)", folded q_def]
  have pre: "CHR ''/'' \<notin> set ak" "CHR ''/'' \<notin> set region" "extractHost hs u = url_host u"
    "map_of (parseQuery (url_query u)) ''X-Amz-Signature'' = None"
    "queryGet (parseQuery (url_query u)) ''X-Amz-Content-Sha256'' = []"
    "P (URL req') = Some (u\<lparr>url_query := encodeValues qs\<rparr>)"
    using assms(2) u hs unfolding presignable_def req' qs_def q_def signed_def by auto
  have names: "\<forall>n \<in> set signed. header_name n" "h \<noteq> []" "''host'' \<in> set signed"
  proof -
    have "header_name ''host''" by code_simp
    then have "\<forall>n \<in> set (fst ([''host''], UnsignedPayload)). header_name n" by simp
    from presignConfig_ok[OF assms(4) this]
    have k: "(\<forall>n \<in> set ns. header_name n) \<and> h \<noteq> [] \<and> set [''host''] \<subseteq> set ns"
      unfolding cfg fst_conv snd_conv by (simp add: UnsignedPayload_def)
    have "set signed = set ns" by (simp add: signed_def)
    with k show "\<forall>n \<in> set signed. header_name n" "h \<noteq> []" "''host'' \<in> set signed" by simp_all
  qed
  have "sorted signed" by (simp add: signed_def)
  then have hdrs: "splitSignedHeaders (join '';'' signed) = signed"
    using names(1,3) by (intro splitSignedHeaders_join) auto
  have sch: "sch = SchemeV4 \<or> sch = SchemeV4a"
    using sig by (cases sch) (auto simp: signOf_def presignRequest_def)
  then have alg: "schemeOf (schemeString sch) = sch" "schemeString sch \<noteq> []" by (auto simp: schemeOf_def)
  have full: "filled q" "filled qs" using get(9) filled_parseQuery by (simp_all add: qs_def filled_setValue)
  have reread: "map_of (parseQuery (encodeValues qs)) = map_of qs" by (rule parseQuery_encodeValues[OF full(2)])
  then have bget: "queryGet (parseQuery (encodeValues qs)) k = queryGet qs k" for k by (simp add: queryGet_def reread)
  let ?cred = "ak @ ''/'' @ presignScope sch region signedAt"
  note parts = scope_split[OF pre(2,1) sch, of signedAt]
  let ?f = "(schemeString sch, ?cred, join '';'' signed, sig, formatAmzDate signedAt,
      queryGet qs ''X-Amz-Region-Set'', h, True, fst (atoi (itoa (wholeSeconds exps))))"
  have payload: "queryGet qs ''X-Amz-Content-Sha256'' = (if h = UnsignedPayload then [] else h)"
    by (simp add: qs_def get(6) pre(5))
  have fields: "authFields (parseQuery (encodeValues qs)) hs = Inr ?f"
    using alg(2) names(2) unfolding authFields_def bget payload
    by (simp add: qs_def get(1-5) Let_def)
  let ?sr = "signedRequest req' (u\<lparr>url_query := encodeValues qs\<rparr>) hs ?f"
  have scope: "join ''/'' (drop 1 (splitOn CHR ''/'' ?cred)) = presignScope sch region signedAt"
    unfolding parts by (simp add: presignScope_def)
  have ids: "splitOn CHR ''/'' ?cred ! 0 = ak" unfolding parts by simp
  have sel: "Scheme ?sr = sch" "AccessKeyID ?sr = ak" "scope ?sr = presignScope sch region signedAt" "signature ?sr = sig"
    "signedHeaders ?sr = signed" "payloadHash ?sr = h" "presigned ?sr" "expires ?sr = wholeSeconds exps" "amzDate ?sr = formatAmzDate signedAt"
    using assms(5,6) scope ids by (simp_all add: signedRequest_def Let_def alg(1) hdrs atoi_itoa wholeSeconds_def)
  have "mset (AList.delete ''X-Amz-Signature'' (parseQuery (encodeValues qs))) = mset q"
  proof (rule mset_gomap)
    show "map_of (AList.delete ''X-Amz-Signature'' (parseQuery (encodeValues qs))) = map_of q"
    proof
      fix k
      have "map_of (AList.delete ''X-Amz-Signature'' (parseQuery (encodeValues qs))) k = ((map_of qs)(''X-Amz-Signature'' := None)) k"
        by (simp only: delete_conv' reread)
      also have "\<dots> = map_of q k" using get(8) pre(4) by (simp add: qs_def setValue_def update_conv')
      finally show "map_of (AList.delete ''X-Amz-Signature'' (parseQuery (encodeValues qs))) k = map_of q k" .
    qed
  qed (use full in \<open>simp_all add: filled_def\<close>)
  then have same: "stringToSign C ?sr = stringToSign C sr0"
    using pre(3) sel(1,3,5,6,9)
    by (intro stringToSign_cong) (simp_all add: sr0_def presignRequest_def signedRequest_def Let_def req' extractHost_query)
  have signed0: "signOf C ent sr0 secret = Inr sig" using sig unfolding sr0_def q_def signed_def .
  have sel0: "Scheme ?sr = Scheme sr0" "scope ?sr = scope sr0" "AccessKeyID ?sr = AccessKeyID sr0"
    unfolding sel by (simp_all add: sr0_def presignRequest_def)
  note verified = signature_verifies[OF assms(3) signed0 same sel0 sel(4)]
  have "?cred \<noteq> []" "join '';'' signed \<noteq> []" "formatAmzDate signedAt \<noteq> []"
    using hdrs names(3) by (auto simp: splitSignedHeaders_def toLower_def trimSpace_def formatAmzDate_def Let_def)
  then have "parseCheck ?f = None"
    unfolding parseCheck_def Let_def prod.case parts alg(1) using sch verified(2) by (auto simp: terminator_def)
  then have parsed: "Parse P req' = Inr ?sr" using pre(6) hs fields by (simp add: Parse_def req')
  have regions: "Regions ?sr = (if sch = SchemeV4a then splitRegionSet region else [region])"
    using sch unfolding signedRequest_def Let_def prod.case parts by (auto simp: alg(1)) (simp add: qs_def get(7))
  have times: "ValidateTimeBounds ?sr now = Inr () \<longleftrightarrow>
       signedAt - signedAt mod second \<le> now \<and> now \<le> signedAt - signedAt mod second + exps div second * second" for now
  proof -
    have w: "wholeSeconds exps = exps div second" "0 < exps div second" "exps div second \<le> 604800"
      using assms(5,6) by (simp_all add: wholeSeconds_def)
    have t: "parseAmzDate (amzDate ?sr) = Some (signedAt - signedAt mod second)" unfolding sel(9) by (rule parseAmzDate_format[OF assms(7)])
    have e: "expires ?sr = exps div second" unfolding sel(8) by (rule w(1))
    show ?thesis using within_expiry[OF sel(7) t] w(2,3) unfolding e by blast
  qed
  have "HeaderSigned ?sr n" if "n \<in> set ns" for n
  proof -
    have n: "n \<in> set signed" using that by (simp add: signed_def)
    moreover have "toLower n = n" using n names(1) by (simp add: header_name_def)
    ultimately show ?thesis unfolding HeaderSigned_def sel(5) by simp
  qed
  then have hdr: "\<forall>n \<in> set (fst (ns, h)). HeaderSigned ?sr n" by simp
  have hash: "payloadHash ?sr = snd (ns, h)" unfolding sel(6) by simp
  show ?thesis
    unfolding cfg
    by (intro exI[of _ ?sr] conjI allI) (rule parsed verified(1) sel(1,2,7) regions hdr hash times)+
qed

text \<open>A request for an object, presigned for a minute with a header and its body covered.\<close>

definition query_url :: url_parser where
  "query_url s = Some \<lparr>url_scheme = ''https'', url_host = ''h'', url_path = ''/b/k'', url_query = s\<rparr>"

definition tiny_crypto :: crypto where
  "tiny_crypto = \<lparr>SHA256 = (\<lambda>s. [char_of (length s mod 256)]), HMAC = (\<lambda>k m. CHR ''m'' # k @ m), ParseRawPrivateKey = (\<lambda>_. None),
     PublicKey = (\<lambda>k. k), PublicBytes = (\<lambda>_. None), UnmarshalCompressed = (\<lambda>_. None), ParseUncompressed = (\<lambda>_. None),
     SignASN1 = (\<lambda>_ _ _. None), VerifyASN1 = (\<lambda>_ _ _. False)\<rparr>"

abbreviation "tiny_presign \<equiv> Presign query_url url_query tiny_crypto [] \<lparr>Method = ''PUT'', Headers = [], URL = ''versionId=v''\<rparr>
  ''AK'' ''secret'' ''eu'' SchemeV4 (5 * second) (60 * second) [WithSignedHeaders [''X-Foo''], WithPayloadHash ''ab'']"

theorem presign_roundtrip_witness:
  "\<exists>req' sr. tiny_presign = Inr req' \<and> Parse query_url req' = Inr sr \<and> Verify tiny_crypto sr ''secret'' = Inr () \<and>
    HeaderSigned sr ''x-foo'' \<and> payloadHash sr = ''ab'' \<and> ValidateTimeBounds sr (65 * second) = Inr () \<and>
    ValidateTimeBounds sr (66 * second) \<noteq> Inr ()"
proof -
  obtain req' where run: "tiny_presign = Inr req'" by (simp add: Presign_def query_url_def Let_def toHeader_def)
  have "map_of (parseQuery ''versionId=v'') ''X-Amz-Signature'' = None" "queryGet (parseQuery ''versionId=v'') ''X-Amz-Content-Sha256'' = []"
    by code_simp+
  moreover have "extractHost [] \<lparr>url_scheme = ''https'', url_host = ''h'', url_path = ''/b/k'', url_query = ''versionId=v''\<rparr> = ''h''"
    by code_simp
  ultimately have pres: "presignable query_url url_query \<lparr>Method = ''PUT'', Headers = [], URL = ''versionId=v''\<rparr> ''AK'' ''eu''"
    by (simp add: presignable_def query_url_def toHeader_def)
  have laws: "signing_laws tiny_crypto" by (simp add: signing_laws_def tiny_crypto_def)
  have opts: "list_all option_ok [WithSignedHeaders [''X-Foo''], WithPayloadHash ''ab'']" by code_simp
  have "civil 0 = (1970, 1, 1)" by code_simp
  then have year: "fst (civil (5 * second div (24 * hour))) \<in> {0..<10000}" by simp
  have exps: "second \<le> 60 * second" "60 * second \<le> 7 * 24 * hour" by simp_all
  obtain sr where sr: "Parse query_url req' = Inr sr" "Verify tiny_crypto sr ''secret'' = Inr ()"
    and hdr: "\<forall>n \<in> set (fst (presignConfig [WithSignedHeaders [''X-Foo''], WithPayloadHash ''ab''] ([''host''], UnsignedPayload))). HeaderSigned sr n"
    and hash: "payloadHash sr = snd (presignConfig [WithSignedHeaders [''X-Foo''], WithPayloadHash ''ab''] ([''host''], UnsignedPayload))"
    and times: "\<forall>now. ValidateTimeBounds sr now = Inr () \<longleftrightarrow>
       5 * second - 5 * second mod second \<le> now \<and> now \<le> 5 * second - 5 * second mod second + 60 * second div second * second"
    using presign_roundtrip[OF run pres laws opts exps year] by (elim exE conjE)
  have "toLower ''X-Foo'' = ''x-foo''" by code_simp
  then have "HeaderSigned sr ''x-foo''" "payloadHash sr = ''ab''" using hdr hash by simp_all
  then show ?thesis using run sr times by (intro exI[of _ req'] exI[of _ sr]) simp
qed

text \<open>
  \<open>Presign\<close> signs the host as it stands in the URL; the verifier drops a default port, so a URL
  that spells one out is signed over another host than the one verified.
\<close>

lemma default_port_differs:
  "host (presignRequest req \<lparr>url_scheme = ''https'', url_host = ''h:443'', url_path = p, url_query = s\<rparr> [] ak region sch t cfg q) = ''h:443''"
  "extractHost [] \<lparr>url_scheme = ''https'', url_host = ''h:443'', url_path = ''/b'', url_query = []\<rparr> = ''h''"
proof -
  show "extractHost [] \<lparr>url_scheme = ''https'', url_host = ''h:443'', url_path = ''/b'', url_query = []\<rparr> = ''h''" by code_simp
qed (simp add: presignRequest_def)

end
