(* ===== verification/Bucket_Policy_Requests.thy ===== *)
theory Bucket_Policy_Requests
  imports Bucket_Removal
begin

text \<open>
  The policy requests of a gateway: what one that is accepted was, what it leaves, and that
  keys keep tracking the policies.
\<close>

lemma HeaderValue_in: "HeaderValue hs n = Some v \<Longrightarrow> \<exists>k. (k, v) \<in> set hs \<and> equalFold k n"
  by (induction hs n rule: HeaderValue.induct) (auto split: if_split_asm)

lemma bodyMatchesSignature_Inr:
  "bodyMatchesSignature G sr body = Inr u \<longleftrightarrow> payloadHash sr \<noteq> UnsignedPayload \<and>
     equalFold (hexEncode (SHA256 (Crypto G) body)) (payloadHash sr)"
  by (simp add: bodyMatchesSignature_def)

text \<open>A condition read from the headers is of a header that is signed and says something.\<close>

definition condition_read :: "signed_request \<Rightarrow> (string, string) gomap \<Rightarrow> condition option \<Rightarrow> bool" where
  "condition_read sr hs cond \<longleftrightarrow>
     (case cond of
        None \<Rightarrow> HeaderValue hs ''If-Match'' = None \<and> HeaderValue hs ''If-None-Match'' = None
      | Some c \<Rightarrow>
          if Negate c
          then Match c = ''*'' \<and> HeaderSigned sr ''If-None-Match'' \<and> HeaderValue hs ''If-Match'' = None \<and>
            (\<exists>v. HeaderValue hs ''If-None-Match'' = Some v \<and> trimSpace v = ''*'')
          else HeaderSigned sr ''If-Match'' \<and> HeaderValue hs ''If-None-Match'' = None \<and>
            (\<exists>v. HeaderValue hs ''If-Match'' = Some v \<and> Match c = trimSpace v \<and> trimSpace v \<noteq> []))"

lemma precondition_Inr:
  assumes "precondition sr hs = Inr cond"
  shows "condition_read sr hs cond"
proof -
  have ne: "trimSpace v \<noteq> []" if "HeaderValue hs ''If-Match'' = Some v" for v
    using HeaderValue_in[OF that] assms by (auto simp: precondition_def list_ex_iff split: if_split_asm)
  show ?thesis
    using assms ne
    by (cases "HeaderValue hs ''If-Match''"; cases "HeaderValue hs ''If-None-Match''")
       (auto simp: precondition_def condition_read_def IfMatch_def IfNoneMatch_def split: if_split_asm)
qed

text \<open>What the condition of a write that succeeded found.\<close>

lemma WritePolicy_condition:
  assumes "WritePolicy S alive now ent ten b nm doc [c] (ps, pol, ds, w) = (Inr x, st')"
  shows "map_option pol_ETag (stored pol b) = (if Negate c then None else Some (Match c))"
proof -
  let ?i = "\<lparr>i_Bucket = b, i_Tenant = ten, i_Policy = doc, i_Conditional = True,
    i_IfMatch = (if Negate c then None else Some (Match c))\<rparr>"
  from assms have c: "withOptions [c] \<lparr>i_Bucket = b, i_Tenant = ten, i_Policy = doc, i_Conditional = False, i_IfMatch = None\<rparr> = Inr ?i"
    and put: "\<exists>tag s'. policy_Put (v_policy S) (Some (hasBucket w)) now ?i (Some (onWrite S now ent ten b doc)) (pol, ps, ds, w) = (Inr tag, s')"
    by (auto simp: WritePolicy_def WithCondition_def Let_def onPolicies_def split: sum.splits if_splits prod.splits)
  then obtain tag pol1 s1 where "policy_Put (v_policy S) (Some (hasBucket w)) now ?i (Some (onWrite S now ent ten b doc)) (pol, ps, ds, w) = (Inr tag, pol1, s1)"
    by (metis prod.collapse)
  then have "CheckInputPrecondition ?i (stored pol (i_Bucket ?i)) = Inr ()" by (rule policy_Put_Inr)
  then show ?thesis by (simp add: CheckInputPrecondition_Inr)
qed

lemma RemovePolicy_condition:
  assumes "RemovePolicy S alive now ent ten b (Some tag) (ps, pol, ds, w) = (Inr x, st')" and "tag \<noteq> []"
  shows "map_option pol_ETag (stored pol b) = Some tag"
proof -
  obtain q pol1 s1 where del: "policy_Delete b tag (Some (\<lambda>old s. rotateChanged S now ent ten b (Some (pol_Policy old)) None
             (ListIDsByTenant (fst s) ten) s)) (pol, ps, ds, w) = (q, pol1, s1)" by (rule prod_cases3)
  with assms have "q = Inr ()" by (auto simp: RemovePolicy_def onPolicies_def split: sum.splits prod.splits)
  with policy_Delete_cases[OF del] assms(2) show ?thesis by (auto simp: stored_def)
qed

subsection \<open>What an accepted request did\<close>

text \<open>The condition a request carried held of the policy it changed.\<close>

definition condition_held :: "signed_request \<Rightarrow> (string, string) gomap \<Rightarrow> policy_record option \<Rightarrow> bool" where
  "condition_held sr hs old \<longleftrightarrow>
     (\<forall>v. HeaderValue hs ''If-Match'' = Some v \<longrightarrow>
        HeaderSigned sr ''If-Match'' \<and> map_option pol_ETag old = Some (trimSpace v)) \<and>
     (\<forall>v. HeaderValue hs ''If-None-Match'' = Some v \<longrightarrow>
        HeaderSigned sr ''If-None-Match'' \<and> trimSpace v = ''*'' \<and> old = None)"

text \<open>What a request that is accepted was and did, by its operation.\<close>

definition policy_request_done ::
  "'e bucket_service \<Rightarrow> authorized_request \<Rightarrow> bucket \<Rightarrow> s3_request \<Rightarrow> string \<Rightarrow> policies \<Rightarrow> policies \<Rightarrow>
   policy_document option \<Rightarrow> bool" where
  "policy_request_done S ar bk req body pol pol' ans \<longleftrightarrow>
     (if ar_Operation ar = OpGetBucketPolicy
      then pol' = pol \<and> (\<exists>rec. stored pol (b_ID bk) = Some rec \<and> ans = Some (pol_Policy rec))
      else if ar_Operation ar = OpPutBucketPolicy
      then payloadHash (ar_Signed ar) \<noteq> UnsignedPayload \<and>
        equalFold (hexEncode (SHA256 (Crypto (bs_codec S)) body)) (payloadHash (ar_Signed ar)) \<and>
        (\<exists>doc doc'. Decode (bs_lib S) body = Inr doc \<and> Normalize (bs_lib S) doc = Some doc' \<and>
           policyOf pol' (b_Tenant bk) (b_ID bk) = Some doc') \<and>
        condition_held (ar_Signed ar) (Headers req) (stored pol (b_ID bk)) \<and> ans = None
      else ar_Operation ar = OpDeleteBucketPolicy \<and> HeaderValue (Headers req) ''If-None-Match'' = None \<and>
        condition_held (ar_Signed ar) (Headers req) (stored pol (b_ID bk)) \<and>
        map_of pol' (b_ID bk) = None \<and> ans = None)"

lemma putPolicy_effect:
  assumes env: "env_ok (bs_lib S) (bs_rotator S) V" and wok: "Tracking.world_ok (bs_lib S) V (ps, pol, ds, w)"
    and refl: "reflp rel" and mine: "tenantBucket (x_buckets w) (b_ID bk) (t_ID (ar_Tenant ar))"
    and op: "ar_Operation ar = OpPutBucketPolicy" and ten: "b_Tenant bk = t_ID (ar_Tenant ar)"
    and run: "putPolicy S alive now ent ar bk req body (ps, pol, ds, w) = (r, ps', pol', ds', w')"
  shows "Tracking.world_ok (bs_lib S) V (ps', pol', ds', w') \<and>
    (tracks rel (bs_lib S) (ps, pol, ds, w) \<longrightarrow> tracks rel (bs_lib S) (ps', pol', ds', w')) \<and>
    (\<forall>e. r = Inl e \<longrightarrow> pol' = pol) \<and> (\<forall>ans. r = Inr ans \<longrightarrow> policy_request_done S ar bk req body pol pol' ans)"
proof (cases "on_ok (bodyMatchesSignature (bs_codec S) (ar_Signed ar) body) (\<lambda>_.
     on_ok (Decode (bs_lib S) body) (\<lambda>doc. on_ok (precondition (ar_Signed ar) (Headers req)) (\<lambda>cond. Inr (doc, cond))))")
  case (Inl e)
  with run have "r = Inl e" "(ps', pol', ds', w') = (ps, pol, ds, w)" by (simp_all add: putPolicy_def)
  with wok show ?thesis by simp
next
  case (Inr y)
  then obtain doc cond where y: "y = (doc, cond)" and c: "bodyMatchesSignature (bs_codec S) (ar_Signed ar) body = Inr ()"
    "Decode (bs_lib S) body = Inr doc" "precondition (ar_Signed ar) (Headers req) = Inr cond"
    by (auto simp: on_ok_Inr_iff)
  let ?opts = "case cond of None \<Rightarrow> [] | Some c \<Rightarrow> [c]"
  let ?run = "WritePolicy (bs_policies S) alive now ent (t_ID (ar_Tenant ar)) (b_ID bk) (ar_BucketName ar) doc ?opts (ps, pol, ds, w)"
  obtain q ps1 pol1 ds1 w1 where wr: "?run = (q, ps1, pol1, ds1, w1)" by (rule prod_cases5[of ?run])
  have out: "(ps', pol', ds', w') = (ps1, pol1, ds1, w1)" "(\<exists>e. r = Inl e) \<longleftrightarrow> (\<exists>e. q = Inl e)" "r = Inr ans \<Longrightarrow> ans = None" for ans
    using run wr unfolding putPolicy_def Inr y by (cases q; force)+
  have "condition_held (ar_Signed ar) (Headers req) (stored pol (b_ID bk))" if "q = Inr z" for z
    using precondition_Inr[OF c(3)] WritePolicy_condition[of "bs_policies S" alive now ent] wr that
    by (cases cond) (fastforce simp: condition_read_def condition_held_def split: if_splits)+
  with WritePolicy_tracks[OF env wok refl mine wr] out c op ten show ?thesis
    by (cases q) (auto simp: policy_request_done_def bodyMatchesSignature_Inr)
qed

lemma deletePolicy_effect:
  assumes env: "env_ok (bs_lib S) (bs_rotator S) V" and wok: "Tracking.world_ok (bs_lib S) V (ps, pol, ds, w)"
    and refl: "reflp rel" and mine: "tenantBucket (x_buckets w) (b_ID bk) (t_ID (ar_Tenant ar))"
    and op: "ar_Operation ar = OpDeleteBucketPolicy" and ten: "b_Tenant bk = t_ID (ar_Tenant ar)"
    and run: "deletePolicy S alive now ent ar bk req (ps, pol, ds, w) = (r, ps', pol', ds', w')"
  shows "Tracking.world_ok (bs_lib S) V (ps', pol', ds', w') \<and>
    (tracks rel (bs_lib S) (ps, pol, ds, w) \<longrightarrow> tracks rel (bs_lib S) (ps', pol', ds', w')) \<and>
    (\<forall>e. r = Inl e \<longrightarrow> pol' = pol) \<and> (\<forall>ans. r = Inr ans \<longrightarrow> policy_request_done S ar bk req body pol pol' ans)"
proof -
  have refused: ?thesis if "\<exists>e. (Inl e, ps, pol, ds, w) = (r, ps', pol', ds', w')"
  proof -
    from that obtain e where "r = Inl e" "(ps', pol', ds', w') = (ps, pol, ds, w)" by auto
    with wok show ?thesis by simp
  qed
  show ?thesis
  proof (cases "precondition (ar_Signed ar) (Headers req)")
    case (Inl e)
    show ?thesis by (rule refused) (use Inl run in \<open>auto simp: deletePolicy_def\<close>)
  next
    case c: (Inr cond)
    let ?run = "RemovePolicy (bs_policies S) alive now ent (t_ID (ar_Tenant ar)) (b_ID bk) (map_option Match cond) (ps, pol, ds, w)"
    obtain q ps1 pol1 ds1 w1 where rm: "?run = (q, ps1, pol1, ds1, w1)" by (rule prod_cases5[of ?run])
    show ?thesis
    proof (cases "case cond of None \<Rightarrow> False | Some c \<Rightarrow> Negate c")
      case True
      show ?thesis by (rule refused) (use True c run in \<open>auto simp: deletePolicy_def\<close>)
    next
      case pos: False
      have out: "(ps', pol', ds', w') = (ps1, pol1, ds1, w1)" "(\<exists>e. r = Inl e) \<longleftrightarrow> (\<exists>e. q = Inl e)" "r = Inr ans \<Longrightarrow> ans = None" for ans
        using run rm pos unfolding deletePolicy_def c by (cases q; force)+
      have "condition_held (ar_Signed ar) (Headers req) (stored pol (b_ID bk)) \<and> HeaderValue (Headers req) ''If-None-Match'' = None"
        if "q = Inr z" for z
        using precondition_Inr[OF c] RemovePolicy_condition[of "bs_policies S" alive now ent] rm that pos
        by (cases cond) (fastforce simp: condition_read_def condition_held_def split: if_splits)+
      with RemovePolicy_tracks[OF env wok refl mine rm] out op ten show ?thesis
        by (cases q) (auto simp: policy_request_done_def)
    qed
  qed
qed

lemma BucketPolicy_effect:
  assumes "env_ok (bs_lib S) (bs_rotator S) V" and "Tracking.world_ok (bs_lib S) V (ps, pol, ds, w)"
    and "buckets_ok (x_buckets w)" and "rel \<in> {(\<subseteq>), (=)}"
    and "BucketPolicy S alive clock ent issuer req body (ps, pol, ds, w) = (r, ps', pol', ds', w')"
  shows "Tracking.world_ok (bs_lib S) V (ps', pol', ds', w') \<and>
    (tracks rel (bs_lib S) (ps, pol, ds, w) \<longrightarrow> tracks rel (bs_lib S) (ps', pol', ds', w')) \<and>
    (\<forall>e. r = Inl e \<longrightarrow> pol' = pol) \<and>
    (\<forall>ans. r = Inr ans \<longrightarrow> (\<exists>ar bk. Authorize (authorizerOf S (ps, pol, ds, w)) (clock 0) (clock 1) issuer req = Inr ar \<and>
       k_Principal (ar_AccessKey ar) = None \<and> map_of (x_buckets w) (b_ID bk) = Some bk \<and> b_Name bk = ar_BucketName ar \<and>
       b_Tenant bk = t_ID (ar_Tenant ar) \<and> policy_request_done S ar bk req body pol pol' ans))"
proof (cases "Authorize (authorizerOf S (ps, pol, ds, w)) (clock 0) (clock 1) issuer req")
  case (Inl e)
  with assms(5) have "r = Inl e" "(ps', pol', ds', w') = (ps, pol, ds, w)" by (simp_all add: BucketPolicy_def)
  with assms(2) show ?thesis by simp
next
  case auth: (Inr ar)
  have refused: ?thesis if "\<exists>e. (Inl e, ps, pol, ds, w) = (r, ps', pol', ds', w')"
  proof -
    from that obtain e where "r = Inl e" "(ps', pol', ds', w') = (ps, pol, ds, w)" by auto
    with assms(2) show ?thesis by simp
  qed
  have refl: "reflp rel" using assms(4) by (auto simp: reflp_def)
  show ?thesis
  proof (cases "ar_Bucket ar")
    case None
    show ?thesis by (rule refused) (use None auth assms(5) in \<open>auto simp: BucketPolicy_def\<close>)
  next
    case bk: (Some bk)
    note b = authorized_bucket[OF assms(3) auth bk]
    have mine: "tenantBucket (x_buckets w) (b_ID bk) (t_ID (ar_Tenant ar))" using b by (simp add: tenantBucket_def)
    have service: "k_Principal (ar_AccessKey ar) = None"
      if "ar_Operation ar \<in> {OpGetBucketPolicy, OpPutBucketPolicy, OpDeleteBucketPolicy}"
    proof (rule accepted_target(3)[OF auth])
      have "ungranted OpGetBucketPolicy" "ungranted OpPutBucketPolicy" "ungranted OpDeleteBucketPolicy" by code_simp+
      with that show "ungranted (ar_Operation ar)" by auto
    qed
    consider (get) "ar_Operation ar = OpGetBucketPolicy" | (put) "ar_Operation ar = OpPutBucketPolicy"
      | (del) "ar_Operation ar = OpDeleteBucketPolicy"
      | (other) "ar_Operation ar \<notin> {OpGetBucketPolicy, OpPutBucketPolicy, OpDeleteBucketPolicy}" by blast
    then show ?thesis
    proof cases
      case get
      with auth bk assms(2,5) b service show ?thesis
        by (auto simp: BucketPolicy_def policy_request_done_def policy_Get_stored split: option.splits)
    next
      case other
      show ?thesis
        by (rule refused, cases "ar_Operation ar")
           (use auth bk assms(5) other in \<open>auto simp: BucketPolicy_def\<close>)
    next
      case put
      then have run: "putPolicy S alive (clock 2) ent ar bk req body (ps, pol, ds, w) = (r, ps', pol', ds', w')"
        using auth bk assms(5) by (simp add: BucketPolicy_def)
      from putPolicy_effect[OF assms(1,2) refl mine put b(2) run] service put auth b show ?thesis by auto
    next
      case del
      then have run: "deletePolicy S alive (clock 2) ent ar bk req (ps, pol, ds, w) = (r, ps', pol', ds', w')"
        using auth bk assms(5) by (simp add: BucketPolicy_def)
      from deletePolicy_effect[OF assms(1,2) refl mine del b(2) run] service del auth b show ?thesis by auto
    qed
  qed
qed

subsection \<open>Properties\<close>


definition policy_requests_service :: "dlg list bucket_service" where
  "policy_requests_service = sample_bucket_service\<lparr>bs_policies := sample_service,
     bs_codec := sample_auth_codec\<lparr>UrlParse := (\<lambda>_. Some (sample_url\<lparr>url_query := ''policy''\<rparr>))\<rparr>\<rparr>"

abbreviation sample_policy_removal :: "(err + policy_document option) \<times> dlg list Policy_Service.world" where
  "sample_policy_removal \<equiv> BucketPolicy policy_requests_service True at_sample (\<lambda>_ _. []) (Did ''p'')
     (signed_call ''DELETE'') [] (photos_world [''s3:DeleteBucketPolicy''])"

lemma sample_policy_removal_ok: "(\<lambda>(r, ps, pol, ds, w). (r, pol)) sample_policy_removal = (Inr None, [])"
  by code_simp


text \<open>
  A request for an operation without a bucket, as one to create it, is not answered as a
  mismatch: the handler reads the bucket the authorizer resolved before it looks at the operation.
\<close>

lemma policy_of_no_bucket_panics:
  assumes "Authorize (authorizerOf S st) (clock 0) (clock 1) issuer req = Inr ar" and "ar_Operation ar = OpCreateBucket"
  shows "BucketPolicy S alive clock ent issuer req body st = (Inl (Internal ''panic: nil pointer''), st)"
proof -
  obtain c where d: "authorizeOperation (authorizerOf S st) (ar_AccessKey ar) (t_ID (ar_Tenant ar)) (ar_Provider ar) c =
       Inr (ar_Permissions ar, ar_Bucket ar, ar_SourceBucket ar)" and c: "ar_Operation ar = c_op c"
    by (rule Authorize_InrD[OF assms(1)]) blast
  have kinds: "ungranted OpCreateBucket" "\<not> addressesExistingBucket OpCreateBucket" by code_simp+
  have "k_Principal (ar_AccessKey ar) = None" using accepted_target(3)[OF assms(1)] kinds(1) assms(2) by simp
  from authorizeServiceKey_Inr(3)[OF d[unfolded authorizeOperation_def this option.case]] have "ar_Bucket ar = None"
    using c assms(2) kinds(2) by simp
  with assms(1) show ?thesis by (simp add: BucketPolicy_def)
qed

text \<open>A request with neither header is not refused: the write is unconditional.\<close>

lemma unconditional_write_allowed:
  assumes "\<forall>(k, v) \<in> set hs. \<not> equalFold k ''If-Match'' \<and> \<not> equalFold k ''If-None-Match''"
  shows "precondition sr hs = Inr None"
proof -
  have "HeaderValue hs n = None" if "n = ''If-Match'' \<or> n = ''If-None-Match''" for n
    using assms HeaderValue_in[of hs n] that by (cases "HeaderValue hs n") auto
  moreover have "\<not> list_ex (\<lambda>(k, v). (equalFold k ''If-Match'' \<or> equalFold k ''If-None-Match'') \<and> trimSpace v = []) hs"
    using assms by (auto simp: list_ex_iff)
  ultimately show ?thesis by (simp add: precondition_def)
qed

text \<open>An empty tag removes whatever policy there is, although it is no policy's tag.\<close>

lemma empty_tag_removes_any:
  "RemovePolicy S alive now ent ten b (Some []) st = RemovePolicy S alive now ent ten b None st"
  by (simp add: RemovePolicy_def)

end
