(* ===== verification/Bucket_Info.thy ===== *)
theory Bucket_Info
  imports Bucket_Removal
begin

text \<open>
  The lookup of a bucket for a key bound to a principal: while other requests rewrite policies
  and grants between its reads, what it answers is of one moment.
\<close>

abbreviation at_dlgs :: "(nat \<Rightarrow> 'e Policy_Service.world) \<Rightarrow> nat \<Rightarrow> dlg_store" where "at_dlgs at n \<equiv> fst (snd (snd (at n)))"
abbreviation at_policies :: "(nat \<Rightarrow> 'e Policy_Service.world) \<Rightarrow> nat \<Rightarrow> policies" where "at_policies at n \<equiv> fst (snd (at n))"
abbreviation at_backend :: "(nat \<Rightarrow> 'e Policy_Service.world) \<Rightarrow> nat \<Rightarrow> 'e backend" where "at_backend at n \<equiv> snd (snd (snd (at n)))"

text \<open>
  What passes between the reads: stores stay well-formed and delegations content-addressed, a
  delegation that is gone does not come back, since each is issued with a nonce of its own, and
  the entity tag of a policy, a hash of its normal form, tells documents of different effect apart.
\<close>

definition history :: "policy_lib \<Rightarrow> dlg set \<Rightarrow> did \<Rightarrow> (nat \<Rightarrow> 'e Policy_Service.world) \<Rightarrow> bool" where
  "history L V key at \<longleftrightarrow> content_addressed V \<and>
     (\<forall>n. dlgs_ok (byAudience (at_dlgs at n)) \<and> authority (at_dlgs at n) key \<subseteq> V \<and> policies_ok L (at_policies at n)) \<and>
     (\<forall>i j k d. i \<le> j \<longrightarrow> j \<le> k \<longrightarrow> d \<in> authority (at_dlgs at i) key \<longrightarrow> d \<in> authority (at_dlgs at k) key \<longrightarrow>
        d \<in> authority (at_dlgs at j) key) \<and>
     (\<forall>i j b r r'. stored (at_policies at i) b = Some r \<longrightarrow> stored (at_policies at j) b = Some r' \<longrightarrow>
        pol_ETag r \<noteq> [] \<and> (pol_ETag r = pol_ETag r' \<longrightarrow> Effective L (Some (pol_Policy r)) = Effective L (Some (pol_Policy r'))))"

definition reaching :: "dlg_store \<Rightarrow> did \<Rightarrow> did \<Rightarrow> dlg list" where
  "reaching ds key b = filter (\<lambda>d. \<not> defined (d_Subject d) \<or> d_Subject d = b) (dlgsOf ds key)"

lemma listGrants_whole: "dlgs_ok (byAudience ds) \<Longrightarrow> listGrants ds key b = Some (Inr (reaching ds key b))"
  by (simp add: listGrants_def heldBy_whole reaching_def)

text \<open>The same links, of lists of different links that are as long, are those of the same delegations.\<close>

lemma sameLinks_kept:
  assumes "sameLinks gs now" and "content_addressed V" and "set gs \<subseteq> V" and "set now \<subseteq> V"
    and "distinct (map d_Link gs)" and "distinct (map d_Link now)" and "d \<in> set gs"
  shows "d \<in> set now"
proof -
  have "d_Link ` set now \<subseteq> d_Link ` set gs" "length gs = length now"
    using assms(1) by (auto simp: sameLinks_def list_all_iff)
  moreover have "card (d_Link ` set gs) = length gs" "card (d_Link ` set now) = length now"
    using assms(5,6) distinct_card[of "map d_Link gs"] distinct_card[of "map d_Link now"] by simp_all
  ultimately have "d_Link ` set now = d_Link ` set gs" by (intro card_subset_eq) simp_all
  with assms(7) obtain d' where "d' \<in> set now" "d_Link d' = d_Link d" by (metis imageE imageI)
  with assms(2-4,7) show ?thesis by (metis inj_onD subsetD)
qed

lemma InfoBucket_InrD:
  assumes h: "history L V key at" and run: "InfoBucket S at issuer nm key = Some (Inr (ok, blocks))"
    and ak: "key_Get (x_keys (at_backend at 1)) key = Inr ak" and p: "k_Principal ak = Some p"
  obtains b perms etag gs where "bucket_GetByName (x_buckets (at_backend at 0)) nm = Inr b" "issuer = b_Provider b"
    "k_Tenant ak = b_Tenant b" "effectiveActions (authorizerOf S (fst (at 2), snd (at 3))) p (b_ID b) = Inr (perms, etag)" "perms \<noteq> []"
    "gs = reaching (at_dlgs at 4) key (b_ID b)" "io_ID ok = b_ID b" "io_Permissions ok = [(key, perms)]"
    "chainLoop (bs_chain S) (at_dlgs at) key (b_ID b) gs 5 [] [] = Inr (io_Delegations ok, blocks)"
    "policyETag (policy_Get (at_policies at (5 + length gs)) (b_ID b)) = Inr etag"
    "sameLinks gs (reaching (at_dlgs at (6 + length gs)) key (b_ID b))"
proof -
  have ds: "listGrants (at_dlgs at n) key b = Some (Inr (reaching (at_dlgs at n) key b))" for n b
    by (rule listGrants_whole) (use h in \<open>simp add: history_def\<close>)
  obtain b where b: "bucket_GetByName (x_buckets (at_backend at 0)) nm = Inr b" "issuer = b_Provider b"
    "k_Tenant ak = b_Tenant b"
    using run ak by (auto simp: InfoBucket_def Let_def split: sum.splits if_splits)
  obtain perms etag where e: "infoAccess (authorizerOf S (fst (at 2), snd (at 3))) b ak = Inr (perms, etag)"
    using run ak b by (auto simp: InfoBucket_def Let_def split: sum.splits)
  then have eff: "effectiveActions (authorizerOf S (fst (at 2), snd (at 3))) p (b_ID b) = Inr (perms, etag)" "perms \<noteq> []"
    using p by (auto simp: infoAccess_def EffectiveActions_def on_ok_Inr_iff split: sum.splits if_splits)
  let ?gs = "reaching (at_dlgs at 4) key (b_ID b)"
  obtain proofSet bl where c: "chainLoop (bs_chain S) (at_dlgs at) key (b_ID b) ?gs 5 [] [] = Inr (proofSet, bl)"
    using run ak b e ds by (auto simp: InfoBucket_def Let_def split: sum.splits)
  have "infoSettled (at_policies at (5 + length ?gs)) (at_dlgs at (6 + length ?gs)) key (b_ID b) etag ?gs = Some (Inr ())"
    and ok: "ok = \<lparr>io_ID = b_ID b, io_Permissions = [(key, perms)], io_Delegations = proofSet\<rparr>" "blocks = bl"
    using run ak b e ds c p by (auto simp: InfoBucket_def Let_def on_ok_Inr_iff)
  then have "policyETag (policy_Get (at_policies at (5 + length ?gs)) (b_ID b)) = Inr etag"
    "sameLinks ?gs (reaching (at_dlgs at (6 + length ?gs)) key (b_ID b))"
    by (auto simp: infoSettled_def ds split: sum.splits if_splits)
  with that b eff c ok show thesis by simp
qed

text \<open>What a key's delegation that reaches a bucket allows, where keys hold no more than policies grant.\<close>

lemma reaching_within:
  assumes wok: "Tracking.world_ok L V (ps, pol, ds, w)" and tr: "within L (ps, pol, ds, w)"
    and key: "map_of (x_keys w) (k_ID ak) = Some ak" "k_Principal ak = Some p"
    and b: "map_of (x_buckets w) (b_ID b) = Some b" "b_Tenant b = k_Tenant ak" and rec: "stored pol (b_ID b) = Some rec"
    and d: "d \<in> authority ds (k_ID ak)" "d_Subject d = Undef \<or> d_Subject d = b_ID b"
  shows "d_Command d \<in> set (commandsFor (Effective L (Some (pol_Policy rec)) p))"
proof -
  have held: "d_Command d \<in> granted L (policyOf pol (k_Tenant ak) (d_Subject d)) p"
    using tracksD[OF tr key, of "d_Subject d"] d(1) by (auto simp: over_def)
  have "map_of pol Undef = None"
    using world_okD(2)[OF wok] by (cases "map_of pol Undef") (auto simp: policies_ok_def entry_ok_def dest: all_recordsD)
  with held have "d_Subject d = b_ID b" using d(2) by (auto simp: policyOf_def)
  moreover obtain e where e: "map_of pol (b_ID b) = Some e" "e_rec e = rec" using rec by (auto simp: stored_def)
  moreover have "e_tenant e = k_Tenant ak" using world_okD(3)[OF wok] e(1) b by (fastforce simp: owned_def)
  ultimately show ?thesis using held by (simp add: policyOf_def)
qed

subsection \<open>Properties\<close>

text \<open>One moment \<open>m\<close> that the permissions and the delegations answered are both of.\<close>

definition settled_at ::
  "'e bucket_service \<Rightarrow> dlg set \<Rightarrow> (nat \<Rightarrow> 'e Policy_Service.world) \<Rightarrow> access_key \<Rightarrow> string \<Rightarrow> bucket \<Rightarrow> info_ok \<Rightarrow> dlg list \<Rightarrow> nat \<Rightarrow> bool" where
  "settled_at S V at ak p b ok blocks m \<longleftrightarrow>
     (\<exists>rec perms. stored (at_policies at m) (b_ID b) = Some rec \<and> perms = Effective (bs_lib S) (Some (pol_Policy rec)) p \<and>
        perms \<noteq> [] \<and> io_Permissions ok = [(k_ID ak, perms)] \<and>
        (\<forall>l links. map_of (io_Delegations ok) l = Some links \<longrightarrow>
           (\<exists>d n proofs. d \<in> authority (at_dlgs at m) (k_ID ak) \<and> d_Link d = l \<and>
              ProofChain (bs_chain S) (at_dlgs at n) (k_ID ak) (d_Command d) (b_ID b) = Inr (proofs, links) \<and>
              d_Link ` set proofs \<subseteq> d_Link ` set blocks \<and>
              (Tracking.world_ok (bs_lib S) V (at m) \<and> within (bs_lib S) (at m) \<and>
               map_of (x_keys (at_backend at m)) (k_ID ak) = Some ak \<and> map_of (x_buckets (at_backend at m)) (b_ID b) = Some b \<longrightarrow>
                 d_Command d \<in> set (commandsFor perms)))))"

text \<open>
  C13. A bucket lookup answers one settled state. Whatever other requests commit between its
  reads, when it answers for a key bound to a principal there is a moment, that of the policy's
  second read, at which the permissions answered are exactly the policy's effective actions
  for the principal, and the key held every delegation a chain is answered for; so if keys held
  no more than the policies granted at that moment, no chain serves a command the permissions do
  not stand for. The caller is the bucket's provider and the key of the bucket's tenant.
\<close>

theorem info_settled:
  assumes "history (bs_lib S) V key at" and "InfoBucket S at issuer nm key = Some (Inr (ok, blocks))"
    and "key_Get (x_keys (at_backend at 1)) key = Inr ak" and "k_ID ak = key" and "k_Principal ak = Some p"
  shows "\<exists>b m. bucket_GetByName (x_buckets (at_backend at 0)) nm = Inr b \<and> issuer = b_Provider b \<and> b_Tenant b = k_Tenant ak \<and>
    io_ID ok = b_ID b \<and> settled_at S V at ak p b ok blocks m"
proof -
  let ?L = "bs_lib S"
  obtain b perms etag gs where b: "bucket_GetByName (x_buckets (at_backend at 0)) nm = Inr b" "issuer = b_Provider b"
    "k_Tenant ak = b_Tenant b" and eff: "effectiveActions (authorizerOf S (fst (at 2), snd (at 3))) p (b_ID b) = Inr (perms, etag)" "perms \<noteq> []"
    and gs: "gs = reaching (at_dlgs at 4) key (b_ID b)" and ok: "io_ID ok = b_ID b" "io_Permissions ok = [(key, perms)]"
    and loop: "chainLoop (bs_chain S) (at_dlgs at) key (b_ID b) gs 5 [] [] = Inr (io_Delegations ok, blocks)"
    and tag: "policyETag (policy_Get (at_policies at (5 + length gs)) (b_ID b)) = Inr etag"
    and same: "sameLinks gs (reaching (at_dlgs at (6 + length gs)) key (b_ID b))"
    by (rule InfoBucket_InrD[OF assms(1,2,3,5)])
  let ?m = "5 + length gs"
  note h = assms(1)[unfolded history_def]
  note stores = h[THEN conjunct2, THEN conjunct1, rule_format]
    and stays = h[THEN conjunct2, THEN conjunct2, THEN conjunct1, rule_format]
    and tags = h[THEN conjunct2, THEN conjunct2, THEN conjunct2, rule_format]
  have A: "a_policies (authorizerOf S (fst (at 2), snd (at 3))) = policy_Get (at_policies at 3)" "a_policy (authorizerOf S (fst (at 2), snd (at 3))) = ?L"
    by (simp_all add: authorizerOf_def memory_authorizer_def split: prod.splits)
  obtain r where r: "stored (at_policies at 3) (b_ID b) = Some r" "perms = Effective ?L (Some (pol_Policy r)) p" "etag = pol_ETag r"
    using eff by (auto simp: effectiveActions_def A policy_Get_stored split: option.splits if_splits)
  have "etag \<noteq> []" unfolding r(3) by (rule tags[OF r(1) r(1), THEN conjunct1])
  with tag obtain r' where r': "stored (at_policies at ?m) (b_ID b) = Some r'" "etag = pol_ETag r'"
    by (auto simp: policyETag_def policy_Get_stored split: option.splits if_splits)
  have "Effective ?L (Some (pol_Policy r)) = Effective ?L (Some (pol_Policy r'))" 
    by (rule tags[OF r(1) r'(1), THEN conjunct2, rule_format]) (simp add: r(3)[symmetric] r'(2)[symmetric])
  with r(2) have perms: "perms = Effective ?L (Some (pol_Policy r')) p" by simp
  have reach: "set (reaching (at_dlgs at n) key (b_ID b)) \<subseteq> V" "distinct (map d_Link (reaching (at_dlgs at n) key (b_ID b)))" for n
  proof -
    have "dlgs_ok (byAudience (at_dlgs at n))" "authority (at_dlgs at n) key \<subseteq> V" using stores[of n] by simp_all
    then show "set (reaching (at_dlgs at n) key (b_ID b)) \<subseteq> V" "distinct (map d_Link (reaching (at_dlgs at n) key (b_ID b)))"
      using dlgs_ok_held(2) by (auto simp: reaching_def authority_def intro: distinct_map_filter)
  qed
  have kept: "d \<in> authority (at_dlgs at ?m) key" if d: "d \<in> set gs" for d
  proof -
    have "d \<in> set (reaching (at_dlgs at (6 + length gs)) key (b_ID b))"
      by (rule sameLinks_kept[OF same h[THEN conjunct1] _ reach(1) _ reach(2) d]) (simp_all add: gs reach)
    then have "d \<in> authority (at_dlgs at (6 + length gs)) key" by (simp add: reaching_def authority_def)
    moreover have "d \<in> authority (at_dlgs at 4) key" using d by (simp add: gs reaching_def authority_def)
    ultimately show ?thesis using stays[of 4 ?m "6 + length gs" d] by simp
  qed
  have within: "d_Command d \<in> set (commandsFor perms)"
    if d: "d \<in> set gs" and w: "Tracking.world_ok ?L V (at ?m)" "within ?L (at ?m)"
      "map_of (x_keys (at_backend at ?m)) key = Some ak" "map_of (x_buckets (at_backend at ?m)) (b_ID b) = Some b" for d
  proof -
    obtain ps pol ds w where at: "at ?m = (ps, pol, ds, w)" by (rule prod_cases4)
    have "d_Subject d = Undef \<or> d_Subject d = b_ID b" using d by (auto simp: gs reaching_def defined_def)
    with reaching_within[of ?L V ps pol ds w ak p b r' d] w kept[OF d] r'(1) b(3) assms(4,5) show ?thesis
      unfolding perms by (simp add: at)
  qed
  have "\<exists>d n proofs. d \<in> authority (at_dlgs at ?m) key \<and> d_Link d = l \<and>
      ProofChain (bs_chain S) (at_dlgs at n) key (d_Command d) (b_ID b) = Inr (proofs, links) \<and> d_Link ` set proofs \<subseteq> d_Link ` set blocks \<and>
      (Tracking.world_ok ?L V (at ?m) \<and> within ?L (at ?m) \<and>
       map_of (x_keys (at_backend at ?m)) key = Some ak \<and> map_of (x_buckets (at_backend at ?m)) (b_ID b) = Some b \<longrightarrow>
         d_Command d \<in> set (commandsFor perms))" if l: "map_of (io_Delegations ok) l = Some links" for l links
  proof -
    obtain i d proofs where d: "i < length gs" "d = gs ! i" "d_Link d = l"
      "ProofChain (bs_chain S) (at_dlgs at (5 + i)) key (d_Command d) (b_ID b) = Inr (proofs, links)" "d_Link ` set proofs \<subseteq> d_Link ` set blocks"
      using chainLoop_Inr(2)[OF loop l] by auto
    have "d \<in> set gs" unfolding d(2) by (rule nth_mem[OF d(1)])
    with d(3-5) kept within show ?thesis by blast
  qed
  then have "settled_at S V at ak p b ok blocks ?m"
    unfolding settled_at_def assms(4) using r'(1) perms eff(2) ok(2) by blast
  with b ok(1) show ?thesis by auto
qed

text \<open>A principal's key that may read photos, and a service that finds a chain of one delegation.\<close>

definition info_dlg :: dlg where
  "info_dlg = (sample_dlg ''1'' ''did:key:k'' ''b'')\<lparr>d_Command := Content_Retrieve\<rparr>"

definition info_world :: "dlg list Policy_Service.world" where
  "info_world = (let (ps, pol, ds, w) = bucket_world [] (w_buckets (Auth_Properties.sample_world None Allow))
       (w_policies (Auth_Properties.sample_world None Allow)) \<lparr>byAudience = [(Did ''did:key:k'', [info_dlg])], d_wait = None\<rparr>
     in (w_principals (Auth_Properties.sample_world None Allow), pol, ds, w\<lparr>x_keys := [(Did ''did:key:k'', sample_key (Some ''alice''))]\<rparr>))"

definition info_service :: "dlg list bucket_service" where
  "info_service = sample_bucket_service\<lparr>bs_chain := (\<lambda>m aud cmd sub. Inr (m aud cmd sub, map d_Link (m aud cmd sub)))\<rparr>"

lemma info_world_history: "history sample_lib {info_dlg} (Did ''did:key:k'') (\<lambda>_. info_world)"
proof -
  have "policies_ok sample_lib (w_policies (Auth_Properties.sample_world None Allow))"
    using sample_tenancy_ok[of Allow] by (simp add: Auth.world_ok_def)
  then show ?thesis
    unfolding history_def
    by (auto simp: info_world_def bucket_world_def Let_def dlgs_ok_def one_record audience_ok_def authority_def heldIn_def
        info_dlg_def sample_dlg_def stored_def Auth_Properties.sample_world_def policyEntry_def sample_lib_def sample_policy_def
        split: if_splits prod.splits)
qed

lemma info_world_ok: "map_option (map_sum (\<lambda>_. ()) (\<lambda>(ok, blocks). (io_Permissions ok, io_Delegations ok, map d_Link blocks)))
    (InfoBucket info_service (\<lambda>_. info_world) (Did ''p'') ''photos'' (Did ''did:key:k'')) =
  Some (Inr ([(Did ''did:key:k'', [''s3:ListBucket''])], [(''1'', [''1''])], [''1'']))"
  by code_simp

theorem info_settled_witness:
  "\<exists>ok blocks m. InfoBucket info_service (\<lambda>_. info_world) (Did ''p'') ''photos'' (Did ''did:key:k'') = Some (Inr (ok, blocks)) \<and>
     io_Permissions ok = [(Did ''did:key:k'', [''s3:ListBucket''])] \<and>
     settled_at info_service {info_dlg} (\<lambda>_. info_world) (sample_key (Some ''alice'')) ''alice'' sample_photos ok blocks m"
proof -
  let ?run = "InfoBucket info_service (\<lambda>_. info_world) (Did ''p'') ''photos'' (Did ''did:key:k'')"
  obtain ok blocks where run: "?run = Some (Inr (ok, blocks))" and perms: "io_Permissions ok = [(Did ''did:key:k'', [''s3:ListBucket''])]"
  proof (cases ?run)
    case (Some r)
    with info_world_ok that show thesis by (cases r) auto
  qed (use info_world_ok in simp)
  have lib: "bs_lib info_service = sample_lib" by (simp add: info_service_def sample_bucket_service_def)
  have k: "key_Get (x_keys (snd (snd (snd info_world)))) (Did ''did:key:k'') = Inr (sample_key (Some ''alice''))"
    "k_ID (sample_key (Some ''alice'')) = Did ''did:key:k''" "k_Principal (sample_key (Some ''alice'')) = Some ''alice''"
    "x_buckets (snd (snd (snd info_world))) = [(Did ''b'', sample_photos)]"
    by (simp_all add: info_world_def bucket_world_def key_Get_def mapGet_Inr sample_key_def Auth_Properties.sample_world_def)
  from info_settled[OF info_world_history[folded lib] run k(1-3)] obtain b m
    where b: "bucket_GetByName (x_buckets (snd (snd (snd info_world)))) ''photos'' = Inr b"
      and m: "settled_at info_service {info_dlg} (\<lambda>_. info_world) (sample_key (Some ''alice'')) ''alice'' b ok blocks m" by blast
  have "b = sample_photos" using b by (simp add: k(4) bucket_GetByName_def sample_photos_def split: if_splits)
  with m run perms show ?thesis by (intro exI conjI) simp_all
qed

end
