(* ===== verification/Provider_Admin.thy ===== *)
theory Provider_Admin
  imports Bucket_Creation
begin

text \<open>
  \<open>pkg/rpc/admin.go\<close>: registering the regional providers and setting the storage nodes each
  operates, the candidates of its routing policy at the upload service.
\<close>

subsection \<open>The commands\<close>

text \<open>
  \<open>pa_service\<close> is the service's identity, \<open>pa_PutRoutingPolicy\<close> the upload service's answer,
  which is handed the delegations as proofs; \<open>pa_meanwhile\<close> is what other commands commit
  between a command's reads and its write of the provider's record.
\<close>

record 'e provider_admin =
  pa_ucan :: ucan_lib
  pa_service :: did
  pa_PutRoutingPolicy :: "dlg_store \<Rightarrow> did \<Rightarrow> did list \<Rightarrow> 'e \<Rightarrow> (err + unit) \<times> 'e"
  pa_meanwhile :: "dlg_store \<times> 'e backend \<Rightarrow> dlg_store \<times> 'e backend"

record add_args =
  add_Provider :: did
  add_Region :: string
  add_Nodes :: "did list"

text \<open>\<open>gen\<close> is the key drawn for the policy, \<open>None\<close> when none could be.\<close>

definition issuePolicy ::
  "'e provider_admin \<Rightarrow> issuer option \<Rightarrow> string \<Rightarrow> dlg_store \<Rightarrow> (err + did) \<times> dlg_store" where
  "issuePolicy A gen ent ds =
     (case gen of
        None \<Rightarrow> (Inl (Internal ''generating policy key''), ds)
      | Some policyKey \<Rightarrow>
          (case Delegate (pa_ucan A) policyKey ent (pa_service A) (fst policyKey) Top None of
             None \<Rightarrow> (Inl (Internal ''issuing policy root delegation''), ds)
           | Some root \<Rightarrow>
               (case PutBatch [Some root] ds of
                  (Inl e, ds) \<Rightarrow> (Inl e, ds)
                | (Inr _, ds) \<Rightarrow> (Inr (fst policyKey), ds))))"

definition setPolicyNodes ::
  "'e provider_admin \<Rightarrow> did \<Rightarrow> did list \<Rightarrow> dlg_store \<times> 'e backend \<Rightarrow> (err + unit) \<times> dlg_store \<times> 'e backend" where
  "setPolicyNodes A policy nodes sw =
     (let (ds, w) = sw; (r, w) = onExt (pa_PutRoutingPolicy A ds policy nodes) w in (r, ds, w))"

text \<open>A fresh policy, with its candidates.\<close>

definition newPolicy ::
  "'e provider_admin \<Rightarrow> issuer option \<Rightarrow> string \<Rightarrow> did list \<Rightarrow> dlg_store \<times> 'e backend \<Rightarrow>
   (err + did) \<times> dlg_store \<times> 'e backend" where
  "newPolicy A gen ent nodes sw =
     (case issuePolicy A gen ent (fst sw) of
        (Inl e, ds) \<Rightarrow> (Inl e, ds, snd sw)
      | (Inr policy, ds) \<Rightarrow>
          (case setPolicyNodes A policy nodes (ds, snd sw) of
             (Inl e, sw) \<Rightarrow> (Inl e, sw)
           | (Inr _, sw) \<Rightarrow> (Inr policy, sw)))"

definition AddProvider ::
  "'e provider_admin \<Rightarrow> instant \<Rightarrow> issuer option \<Rightarrow> string \<Rightarrow> add_args \<Rightarrow> dlg_store \<times> 'e backend \<Rightarrow>
   (err + unit) \<times> dlg_store \<times> 'e backend" where
  "AddProvider A now gen ent args sw =
     (let provs = x_providers (snd sw) in
      if add_Provider args = Undef then (Inl (Store ErrInvalidArgument), sw)
      else if add_Region args = [] then (Inl (Store ErrInvalidArgument), sw)
      else
        (case provider_Get provs (add_Provider args) of
           Inr _ \<Rightarrow> (Inl (Rpc ErrProviderExists), sw)
         | Inl e \<Rightarrow>
             if e \<noteq> Store ErrRecordNotFound then (Inl e, sw)
             else
               (case provider_GetByRegion provs (add_Region args) of
                  Inr _ \<Rightarrow> (Inl (Rpc ErrProviderExists), sw)
                | Inl e \<Rightarrow>
                    if e \<noteq> Store ErrRecordNotFound then (Inl e, sw)
                    else
                      (case (if length (add_Nodes args) > 0
                             then (case newPolicy A gen ent (add_Nodes args) sw of
                                     (Inl e, sw) \<Rightarrow> (Inl e, sw) | (Inr p, sw) \<Rightarrow> (Inr (Some p), sw))
                             else (Inr None, sw)) of
                         (Inl e, sw) \<Rightarrow> (Inl e, sw)
                       | (Inr policy, sw) \<Rightarrow>
                           (let (ds, w) = pa_meanwhile A sw in
                            case provider_Add now (add_Provider args) (add_Region args) policy (x_providers w) of
                              (Inl e, _) \<Rightarrow> (Inl (if e = Store ErrRecordExists then Rpc ErrProviderExists else e), ds, w)
                            | (Inr _, provs) \<Rightarrow> (Inr (), ds, w\<lparr>x_providers := provs\<rparr>))))))"

definition SetProviderNodes ::
  "'e provider_admin \<Rightarrow> instant \<Rightarrow> issuer option \<Rightarrow> string \<Rightarrow> did \<Rightarrow> did list \<Rightarrow> dlg_store \<times> 'e backend \<Rightarrow>
   (err + unit) \<times> dlg_store \<times> 'e backend" where
  "SetProviderNodes A now gen ent prov nodes sw =
     (if prov = Undef then (Inl (Store ErrInvalidArgument), sw)
      else if length nodes = 0 then (Inl (Rpc ErrInvalidNodes), sw)
      else
        (case provider_Get (x_providers (snd sw)) prov of
           Inl e \<Rightarrow> (Inl (if e = Store ErrRecordNotFound then Rpc ErrProviderNotFound else e), sw)
         | Inr rec \<Rightarrow>
             (case pr_Policy rec of
                None \<Rightarrow>
                  (case newPolicy A gen ent nodes sw of
                     (Inl e, sw) \<Rightarrow> (Inl e, sw)
                   | (Inr policy, sw) \<Rightarrow>
                       (let (ds, w) = pa_meanwhile A sw; (r, provs) = provider_SetPolicy now prov policy (x_providers w)
                        in (r, ds, w\<lparr>x_providers := provs\<rparr>)))
              | Some policy \<Rightarrow> setPolicyNodes A policy nodes sw)))"

text \<open>The answer to a list: each provider's DID, region and policy.\<close>

definition ListProviders :: "providers \<Rightarrow> (did \<times> string \<times> did option) list" where
  "ListProviders provs = map (\<lambda>rec. (pr_ID rec, pr_Region rec, pr_Policy rec)) (provider_List provs)"

subsection \<open>What a policy needs\<close>

text \<open>
  A recorded policy can be put to use when the service holds a root delegation of it: the
  policy's own, over itself, of every command, without an end.
\<close>

definition usable :: "did \<Rightarrow> dlg_store \<Rightarrow> did \<Rightarrow> bool" where
  "usable service ds policy \<longleftrightarrow> (\<exists>d \<in> authority ds service. bucket_root policy service d)"

definition routed :: "did \<Rightarrow> dlg_store \<times> 'e backend \<Rightarrow> bool" where
  "routed service sw \<longleftrightarrow> providers_ok (x_providers (snd sw)) \<and>
     (\<forall>p \<in> set (x_providers (snd sw)). \<forall>policy. pr_Policy p = Some policy \<longrightarrow> usable service (fst sw) policy)"

definition put_for :: "'e provider_admin \<Rightarrow> did \<Rightarrow> did list \<Rightarrow> bool" where
  "put_for A policy nodes \<longleftrightarrow> (\<exists>ds e. usable (pa_service A) ds policy \<and> fst (pa_PutRoutingPolicy A ds policy nodes e) = Inr ())"

text \<open>
  The delegations stay in the universe \<open>V\<close> of those signed, and what other commands commit
  keeps the providers routed and takes no delegation of the service away.
\<close>

definition admin_ok :: "'e provider_admin \<Rightarrow> dlg set \<Rightarrow> bool" where
  "admin_ok A V \<longleftrightarrow> delegate_ok (pa_ucan A) V \<and>
     (\<forall>sw. routed (pa_service A) sw \<and> (\<forall>a. authority (fst sw) a \<subseteq> V) \<longrightarrow>
        routed (pa_service A) (pa_meanwhile A sw) \<and> (\<forall>a. authority (fst (pa_meanwhile A sw)) a \<subseteq> V) \<and>
        authority (fst sw) (pa_service A) \<subseteq> authority (fst (pa_meanwhile A sw)) (pa_service A))"

subsection \<open>Issuing a policy and setting its nodes\<close>

lemma issuePolicy_effect:
  assumes "delegate_ok (pa_ucan A) V" and "\<forall>a. authority ds a \<subseteq> V" and "issuePolicy A gen ent ds = (r, ds')"
  shows "\<forall>a. authority ds' a \<subseteq> V" and "authority ds a \<subseteq> authority ds' a"
    and "r = Inr policy \<Longrightarrow> \<exists>signer. gen = Some (policy, signer) \<and> usable (pa_service A) ds' policy"
    and "a \<noteq> pa_service A \<Longrightarrow> authority ds' a = authority ds a"
proof -
  let ?all = "(\<forall>a. authority ds' a \<subseteq> V) \<and> (\<forall>a. authority ds a \<subseteq> authority ds' a) \<and>
    (\<forall>policy. r = Inr policy \<longrightarrow> (\<exists>signer. gen = Some (policy, signer) \<and> usable (pa_service A) ds' policy)) \<and>
    (\<forall>a. a \<noteq> pa_service A \<longrightarrow> authority ds' a = authority ds a)"
  have kept: ?all if "ds' = ds" "\<exists>e. r = Inl e" using that assms(2) by auto
  have ?all
  proof (cases gen)
    case None
    with kept assms(3) show ?thesis by (auto simp: issuePolicy_def)
  next
    case (Some policyKey)
    show ?thesis
    proof (cases "Delegate (pa_ucan A) policyKey ent (pa_service A) (fst policyKey) Top None")
      case None
      with kept Some assms(3) show ?thesis by (auto simp: issuePolicy_def)
    next
      case root: (Some root)
      obtain q ds1 where put: "PutBatch [Some root] ds = (q, ds1)" by force
      note d = delegate_okD[OF assms(1) root]
      have auth: "authority ds1 a = authority ds a \<union> (if q = Inr () \<and> a = pa_service A then {root} else {})" for a
        using PutBatch_effect[OF assms(1,2) _ put, of a] d by simp
      have ds1: "ds' = ds1" and res: "r = map_sum (\<lambda>e. e) (\<lambda>_. fst policyKey) q"
        using assms(3) Some root put by (auto simp: issuePolicy_def split: sum.splits)
      have "bucket_root (fst policyKey) (pa_service A) root" using d by (simp add: bucket_root_def)
      then show ?thesis
        using auth assms(2) d Some unfolding ds1 res usable_def by (cases q; cases policyKey) auto
    qed
  qed
  then show "\<forall>a. authority ds' a \<subseteq> V" and "authority ds a \<subseteq> authority ds' a"
    and "r = Inr policy \<Longrightarrow> \<exists>signer. gen = Some (policy, signer) \<and> usable (pa_service A) ds' policy"
    and "a \<noteq> pa_service A \<Longrightarrow> authority ds' a = authority ds a" by blast+
qed

lemma setPolicyNodes_effect:
  assumes "setPolicyNodes A policy nodes (ds, w) = (r, ds', w')"
  shows "ds' = ds" and "x_providers w' = x_providers w"
    and "r = Inr () \<Longrightarrow> usable (pa_service A) ds policy \<Longrightarrow> put_for A policy nodes"
  using assms by (auto simp: setPolicyNodes_def onExt_def put_for_def split: prod.splits) (metis fst_conv)

text \<open>The new policy is usable before the upload service is asked, and no provider is touched.\<close>

lemma newPolicy_effect:
  assumes "delegate_ok (pa_ucan A) V" and "\<forall>a. authority ds a \<subseteq> V" and "newPolicy A gen ent nodes (ds, w) = (r, ds', w')"
  shows "\<forall>a. authority ds' a \<subseteq> V" and "authority ds a \<subseteq> authority ds' a" and "x_providers w' = x_providers w"
    and "r = Inr policy \<Longrightarrow> (\<exists>signer. gen = Some (policy, signer)) \<and> usable (pa_service A) ds' policy \<and> put_for A policy nodes"
proof -
  obtain q ds1 where iss: "issuePolicy A gen ent ds = (q, ds1)" by force
  note i = issuePolicy_effect[OF assms(1,2) iss]
  have "(\<forall>a. authority ds' a \<subseteq> V) \<and> (\<forall>a. authority ds a \<subseteq> authority ds' a) \<and> x_providers w' = x_providers w \<and>
    (\<forall>policy. r = Inr policy \<longrightarrow> (\<exists>signer. gen = Some (policy, signer)) \<and> usable (pa_service A) ds' policy \<and> put_for A policy nodes)"
  proof (cases q)
    case (Inl e)
    with assms(3) iss have "r = Inl e" "ds' = ds1" "w' = w" by (simp_all add: newPolicy_def)
    with i show ?thesis by simp
  next
    case (Inr p)
    obtain q' ds2 w2 where put: "setPolicyNodes A p nodes (ds1, w) = (q', ds2, w2)" by (rule prod_cases3)
    note n = setPolicyNodes_effect[OF put]
    have eq: "ds' = ds2" "w' = w2" "r = map_sum (\<lambda>e. e) (\<lambda>_. p) q'"
      using assms(3) iss Inr put by (auto simp: newPolicy_def split: sum.splits)
    have "\<exists>signer. gen = Some (p, signer) \<and> usable (pa_service A) ds1 p" by (rule i(3)[OF Inr])
    then show ?thesis using i(1,2) n unfolding eq by (cases q') auto
  qed
  then show "\<forall>a. authority ds' a \<subseteq> V" and "authority ds a \<subseteq> authority ds' a" and "x_providers w' = x_providers w"
    and "r = Inr policy \<Longrightarrow> (\<exists>signer. gen = Some (policy, signer)) \<and> usable (pa_service A) ds' policy \<and> put_for A policy nodes"
    by blast+
qed

lemma usable_mono: "authority ds service \<subseteq> authority ds' service \<Longrightarrow> usable service ds p \<Longrightarrow> usable service ds' p"
  by (auto simp: usable_def)

lemma routed_mono:
  assumes "routed service (ds, w)" and "authority ds service \<subseteq> authority ds' service" and "x_providers w' = x_providers w"
  shows "routed service (ds', w')"
  using assms usable_mono[OF assms(2)] by (auto simp: routed_def)

lemma routed_Add:
  assumes "routed service (ds, w)" and "provider_Add now ident region policy (x_providers w) = (Inr (), provs)"
    and "\<forall>p. policy = Some p \<longrightarrow> usable service ds p"
  shows "routed service (ds, w\<lparr>x_providers := provs\<rparr>)"
    and "provs = x_providers w @ [\<lparr>pr_ID = ident, pr_Region = region, pr_Policy = policy, pr_CreatedAt = now, pr_UpdatedAt = now\<rparr>]"
proof -
  show added: "provs = x_providers w @ [\<lparr>pr_ID = ident, pr_Region = region, pr_Policy = policy, pr_CreatedAt = now, pr_UpdatedAt = now\<rparr>]"
    using assms(2) by (auto simp: provider_Add_def split: if_splits)
  show "routed service (ds, w\<lparr>x_providers := provs\<rparr>)"
    using assms(1,3) providers_ok_Add[OF _ assms(2)] by (auto simp: routed_def added)
qed

lemma routed_SetPolicy:
  assumes "routed service (ds, w)" and "provider_SetPolicy now prov policy (x_providers w) = (r, provs)"
    and "usable service ds policy"
  shows "routed service (ds, w\<lparr>x_providers := provs\<rparr>)"
proof -
  have "pr_Policy p = Some policy \<or> p \<in> set (x_providers w)" if "p \<in> set provs" for p
    using that assms(2) setPolicyLoop_same by (fastforce simp: provider_SetPolicy_def split: if_splits)
  then show ?thesis
    using assms(1,3) providers_ok_SetPolicy[OF _ assms(2)] by (fastforce simp: routed_def)
qed

lemma setPolicyLoop_Inr:
  "setPolicyLoop now ident policy s = (Inr (), s') \<Longrightarrow> \<exists>p. provider_Get s' ident = Inr p \<and> pr_Policy p = Some policy"
  by (induction s arbitrary: s') (auto simp: provider_Get_def firstProvider_def split: if_splits prod.splits)

lemma setPolicyLoop_Inl: "setPolicyLoop now ident policy s = (Inl e, s') \<Longrightarrow> s' = s"
  by (induction s arbitrary: s') (auto split: if_splits prod.splits)

lemma provider_Get_snoc:
  assumes "provider_Get s ident = Inl e"
  shows "provider_Get (s @ [p]) ident = (if pr_ID p = ident then Inr p else Inl (Store ErrRecordNotFound))"
  using assms by (induction s) (auto simp: provider_Get_def firstProvider_def split: if_splits option.splits)

lemma provider_Add_unregistered:
  assumes "provider_Add now ident region policy s = (Inr (), s')"
  shows "provider_Get s ident = Inl (Store ErrRecordNotFound)"
  using assms by (auto simp: provider_Add_def provider_Get_def firstProvider_def list_ex_iff find_None_iff split: if_splits option.splits)

text \<open>What a refused command leaves: the providers it found or those other commands stored.\<close>

definition unrecorded :: "'e provider_admin \<Rightarrow> dlg_store \<times> 'e backend \<Rightarrow> dlg_store \<times> 'e backend \<Rightarrow> bool" where
  "unrecorded A sw sw' \<longleftrightarrow> x_providers (snd sw') = x_providers (snd sw) \<or>
     (\<exists>sw1. x_providers (snd sw1) = x_providers (snd sw) \<and> x_providers (snd sw') = x_providers (snd (pa_meanwhile A sw1)))"

definition command_keeps :: "'e provider_admin \<Rightarrow> dlg set \<Rightarrow> dlg_store \<times> 'e backend \<Rightarrow> dlg_store \<times> 'e backend \<Rightarrow> bool" where
  "command_keeps A V sw sw' \<longleftrightarrow> routed (pa_service A) sw' \<and> (\<forall>a. authority (fst sw') a \<subseteq> V) \<and>
     authority (fst sw) (pa_service A) \<subseteq> authority (fst sw') (pa_service A)"

text \<open>The state in which a command with a fresh policy, or none, writes the provider's record.\<close>

lemma before_record:
  assumes ok: "admin_ok A V" and st: "routed (pa_service A) (ds, w)" "\<forall>a. authority ds a \<subseteq> V"
    and new: "newPolicy A gen ent nodes (ds, w) = (r, ds1, w1)" and others: "pa_meanwhile A (ds1, w1) = (ds2, w2)"
  shows "command_keeps A V (ds, w) (ds1, w1)" and "command_keeps A V (ds, w) (ds2, w2)"
    and "x_providers w1 = x_providers w" and "unrecorded A (ds, w) (ds1, w1)" and "unrecorded A (ds, w) (ds2, w2)"
    and "r = Inr p \<Longrightarrow> (\<exists>signer. gen = Some (p, signer)) \<and> usable (pa_service A) ds2 p \<and> put_for A p nodes"
proof -
  note n = newPolicy_effect[OF conjunct1[OF ok[unfolded admin_ok_def]] st(2) new]
  show a: "command_keeps A V (ds, w) (ds1, w1)"
    using n(1,2) routed_mono[OF st(1) n(2,3)] by (simp add: command_keeps_def)
  have m: "routed (pa_service A) (ds2, w2) \<and> (\<forall>a. authority ds2 a \<subseteq> V) \<and> authority ds1 (pa_service A) \<subseteq> authority ds2 (pa_service A)"
    using ok[unfolded admin_ok_def, THEN conjunct2, rule_format, of "(ds1, w1)"] a others by (simp add: command_keeps_def)
  then show "command_keeps A V (ds, w) (ds2, w2)" using n(2)[of "pa_service A"] by (auto simp: command_keeps_def)
  show prov: "x_providers w1 = x_providers w" by (rule n(3))
  show "unrecorded A (ds, w) (ds1, w1)" by (simp add: unrecorded_def prov)
  show "unrecorded A (ds, w) (ds2, w2)" unfolding unrecorded_def using prov others by (metis snd_conv)
  show "r = Inr p \<Longrightarrow> (\<exists>signer. gen = Some (p, signer)) \<and> usable (pa_service A) ds2 p \<and> put_for A p nodes"
    using n(4) usable_mono[OF m[THEN conjunct2, THEN conjunct2]] by blast
qed

lemma AddProvider_effect:
  assumes ok: "admin_ok A V" and st: "routed (pa_service A) (ds, w)" "\<forall>a. authority ds a \<subseteq> V"
    and run: "AddProvider A now gen ent args (ds, w) = (r, sw')"
  shows "command_keeps A V (ds, w) sw' \<and> (r \<noteq> Inr () \<longrightarrow> unrecorded A (ds, w) sw') \<and>
    (r = Inr () \<longrightarrow> (\<exists>p. provider_Get (x_providers (snd sw')) (add_Provider args) = Inr p \<and> pr_Region p = add_Region args \<and>
       (if add_Nodes args = [] then pr_Policy p = None
        else \<exists>policy signer. gen = Some (policy, signer) \<and> pr_Policy p = Some policy \<and> put_for A policy (add_Nodes args))))"
    (is "?goal r sw'")
proof -
  have kept: "command_keeps A V (ds, w) (ds, w)" "unrecorded A (ds, w) (ds, w)"
    using st by (simp_all add: command_keeps_def unrecorded_def)
  have refused: "?goal (Inl e) (ds, w)" for e using kept by simp
  let ?putRec = "\<lambda>policy sw. (let (ds, w) = pa_meanwhile A sw in
     case provider_Add now (add_Provider args) (add_Region args) policy (x_providers w) of
       (Inl e, _) \<Rightarrow> (Inl (if e = Store ErrRecordExists then Rpc ErrProviderExists else e), ds, w)
     | (Inr _, provs) \<Rightarrow> (Inr (), ds, w\<lparr>x_providers := provs\<rparr>))"
  have recorded: "?goal (fst (?putRec policy sw1)) (snd (?putRec policy sw1))"
    if others: "pa_meanwhile A sw1 = (ds2, w2)" and k: "command_keeps A V (ds, w) (ds2, w2)" "unrecorded A (ds, w) (ds2, w2)"
      and pol: "case policy of None \<Rightarrow> add_Nodes args = [] | Some p \<Rightarrow> add_Nodes args \<noteq> [] \<and>
        (\<exists>signer. gen = Some (p, signer)) \<and> usable (pa_service A) ds2 p \<and> put_for A p (add_Nodes args)"
    for policy sw1 ds2 w2
  proof -
    obtain q provs where add: "provider_Add now (add_Provider args) (add_Region args) policy (x_providers w2) = (q, provs)" by force
    show ?thesis
    proof (cases q)
      case (Inl e)
      then show ?thesis using k by (simp add: others add)
    next
      case (Inr u)
      with add have add: "provider_Add now (add_Provider args) (add_Region args) policy (x_providers w2) = (Inr (), provs)" by simp
      have r: "routed (pa_service A) (ds2, w2)" using k(1) by (simp add: command_keeps_def)
      have "\<forall>p. policy = Some p \<longrightarrow> usable (pa_service A) ds2 p" using pol by auto
      note a = routed_Add[OF r add this]
      have eq: "?putRec policy sw1 = (Inr (), ds2, w2\<lparr>x_providers := provs\<rparr>)" by (simp add: others add)
      have get: "provider_Get provs (add_Provider args) = Inr \<lparr>pr_ID = add_Provider args, pr_Region = add_Region args,
          pr_Policy = policy, pr_CreatedAt = now, pr_UpdatedAt = now\<rparr>"
        using provider_Get_snoc[OF provider_Add_unregistered[OF add]] by (simp add: a(2))
      show ?thesis
        unfolding eq fst_conv snd_conv using a(1) k(1) pol get by (cases policy) (auto simp: command_keeps_def)
    qed
  qed
  consider (refused) e where "(r, sw') = (Inl e, ds, w)"
    | (plain) "add_Nodes args = []" "(r, sw') = ?putRec None (ds, w)"
    | (failed) e sw1 where "newPolicy A gen ent (add_Nodes args) (ds, w) = (Inl e, sw1)" "(r, sw') = (Inl e, sw1)"
    | (routed) p sw1 where "add_Nodes args \<noteq> []" "newPolicy A gen ent (add_Nodes args) (ds, w) = (Inr p, sw1)" "(r, sw') = ?putRec (Some p) sw1"
    using run unfolding AddProvider_def Let_def snd_conv
    by (auto split: if_splits sum.splits prod.splits)
  then show ?thesis
  proof cases
    case refused
    with kept show ?thesis by simp
  next
    case plain
    obtain ds2 w2 where m: "pa_meanwhile A (ds, w) = (ds2, w2)" by force
    have "command_keeps A V (ds, w) (ds2, w2)"
      using ok[unfolded admin_ok_def, THEN conjunct2, rule_format, of "(ds, w)"] st m by (simp add: command_keeps_def)
    moreover have "unrecorded A (ds, w) (ds2, w2)" unfolding unrecorded_def using m by (metis snd_conv)
    ultimately have "?goal (fst (?putRec None (ds, w))) (snd (?putRec None (ds, w)))"
      by (intro recorded[OF m]) (use plain(1) in simp_all)
    then show ?thesis unfolding plain(2)[symmetric] fst_conv snd_conv .
  next
    case failed
    obtain ds1 w1 ds2 w2 where sw1: "sw1 = (ds1, w1)" and m: "pa_meanwhile A (ds1, w1) = (ds2, w2)" by force
    note b = before_record[OF ok st failed(1)[unfolded sw1] m]
    show ?thesis using b(1,4) failed(2) sw1 by simp
  next
    case routed
    obtain ds1 w1 ds2 w2 where sw1: "sw1 = (ds1, w1)" and m: "pa_meanwhile A (ds1, w1) = (ds2, w2)" by force
    note b = before_record[OF ok st routed(2)[unfolded sw1] m]
    have "?goal (fst (?putRec (Some p) sw1)) (snd (?putRec (Some p) sw1))"
      by (rule recorded[OF m[folded sw1] b(2,5)]) (use b(6) routed(1) in simp)
    then show ?thesis unfolding routed(3)[symmetric] fst_conv snd_conv .
  qed
qed

lemma SetProviderNodes_effect:
  assumes ok: "admin_ok A V" and st: "routed (pa_service A) (ds, w)" "\<forall>a. authority ds a \<subseteq> V"
    and run: "SetProviderNodes A now gen ent prov nodes (ds, w) = (r, sw')"
  shows "command_keeps A V (ds, w) sw' \<and> (r \<noteq> Inr () \<longrightarrow> unrecorded A (ds, w) sw') \<and>
    (r = Inr () \<longrightarrow> (\<exists>p p' policy. provider_Get (x_providers w) prov = Inr p \<and>
       provider_Get (x_providers (snd sw')) prov = Inr p' \<and> pr_Policy p' = Some policy \<and> put_for A policy nodes \<and>
       (pr_Policy p = Some policy \<or> pr_Policy p = None \<and> (\<exists>signer. gen = Some (policy, signer)))))"
    (is "?goal r sw'")
proof -
  have kept: "command_keeps A V (ds, w) (ds, w)" "unrecorded A (ds, w) (ds, w)"
    using st by (simp_all add: command_keeps_def unrecorded_def)
  consider (refused) e where "(r, sw') = (Inl e, ds, w)"
    | (old) p policy where "provider_Get (x_providers w) prov = Inr p" "pr_Policy p = Some policy"
        "(r, sw') = setPolicyNodes A policy nodes (ds, w)"
    | (failed) e sw1 where "newPolicy A gen ent nodes (ds, w) = (Inl e, sw1)" "(r, sw') = (Inl e, sw1)"
    | (fresh) p policy sw1 where "provider_Get (x_providers w) prov = Inr p" "pr_Policy p = None"
        "newPolicy A gen ent nodes (ds, w) = (Inr policy, sw1)"
        "(r, sw') = (let (ds, w) = pa_meanwhile A sw1; (r, provs) = provider_SetPolicy now prov policy (x_providers w)
           in (r, ds, w\<lparr>x_providers := provs\<rparr>))"
    using run unfolding SetProviderNodes_def snd_conv
    by (cases "provider_Get (x_providers w) prov") (auto split: if_splits option.splits sum.splits prod.splits)
  then show ?thesis
  proof cases
    case refused
    with kept show ?thesis by simp
  next
    case old
    obtain ds1 w1 where sw': "sw' = (ds1, w1)" by force
    note n = setPolicyNodes_effect[OF old(3)[unfolded sw', symmetric]]
    have "usable (pa_service A) ds policy"
      using st(1) old(1,2) firstProvider_Inr[OF old(1)[unfolded provider_Get_def]] by (auto simp: routed_def)
    then show ?thesis
      using kept n old(1,2) routed_mono[OF st(1) _ n(2)] by (simp add: sw' command_keeps_def unrecorded_def)
  next
    case failed
    obtain ds1 w1 ds2 w2 where sw1: "sw1 = (ds1, w1)" and m: "pa_meanwhile A (ds1, w1) = (ds2, w2)" by force
    note b = before_record[OF ok st failed(1)[unfolded sw1] m]
    show ?thesis using b(1,4) failed(2) sw1 by simp
  next
    case fresh
    obtain ds1 w1 ds2 w2 where sw1: "sw1 = (ds1, w1)" and m: "pa_meanwhile A (ds1, w1) = (ds2, w2)" by force
    note b = before_record[OF ok st fresh(3)[unfolded sw1] m]
    note p = b(6)[OF HOL.refl]
    obtain q provs where set: "provider_SetPolicy now prov policy (x_providers w2) = (q, provs)" by force
    have eq: "r = q" "sw' = (ds2, w2\<lparr>x_providers := provs\<rparr>)" using fresh(4) by (simp_all add: sw1 m set)
    have "routed (pa_service A) (ds2, w2)" using b(2) by (simp add: command_keeps_def)
    from routed_SetPolicy[OF this set] p have "command_keeps A V (ds, w) sw'"
      using b(2) by (simp add: eq(2) command_keeps_def)
    moreover have "unrecorded A (ds, w) sw'" if "q \<noteq> Inr ()"
    proof -
      have "provs = x_providers w2"
        using set that setPolicyLoop_Inl by (cases q) (auto simp: provider_SetPolicy_def split: if_splits)
      then show ?thesis using b(5) by (simp add: eq(2) unrecorded_def)
    qed
    moreover have "\<exists>p'. provider_Get provs prov = Inr p' \<and> pr_Policy p' = Some policy" if "q = Inr ()"
      using set that setPolicyLoop_Inr by (auto simp: provider_SetPolicy_def split: if_splits)
    ultimately show ?thesis using fresh(1,2) p by (auto simp: eq)
  qed
qed

subsection \<open>Property\<close>

text \<open>
  C17. Whatever the admin commands answer and whatever others commit between their steps, every
  region and every provider is registered once, every recorded routing policy is one the service
  holds the root delegation of, and no delegation is lost. A provider is registered with its region, with a policy exactly
  when it has nodes, which the upload service took before the record was stored; setting nodes
  keeps a policy the provider has. A refused command records nothing, and a registration of a known provider
  or a served region asks nobody for anything.
\<close>

theorem providers_routed:
  assumes "admin_ok A V" and "routed (pa_service A) (ds, w)" and "\<forall>a. authority ds a \<subseteq> V"
  shows "(\<exists>r sw'. AddProvider A now gen ent args (ds, w) = (r, sw') \<and> command_keeps A V (ds, w) sw' \<and>
      (r \<noteq> Inr () \<longrightarrow> unrecorded A (ds, w) sw') \<and>
      ((\<exists>p \<in> set (x_providers w). pr_ID p = add_Provider args \<or> pr_Region p = add_Region args) \<longrightarrow> r \<noteq> Inr () \<and> sw' = (ds, w)) \<and>
      (r = Inr () \<longrightarrow> (\<exists>p. provider_Get (x_providers (snd sw')) (add_Provider args) = Inr p \<and> pr_Region p = add_Region args \<and>
         (if add_Nodes args = [] then pr_Policy p = None
          else \<exists>policy signer. gen = Some (policy, signer) \<and> pr_Policy p = Some policy \<and> put_for A policy (add_Nodes args))))) \<and>
    (\<exists>r sw'. SetProviderNodes A now gen ent prov nodes (ds, w) = (r, sw') \<and> command_keeps A V (ds, w) sw' \<and>
      (r \<noteq> Inr () \<longrightarrow> unrecorded A (ds, w) sw') \<and>
      (r = Inr () \<longrightarrow> (\<exists>p p' policy. provider_Get (x_providers w) prov = Inr p \<and>
         provider_Get (x_providers (snd sw')) prov = Inr p' \<and> pr_Policy p' = Some policy \<and> put_for A policy nodes \<and>
         (pr_Policy p = Some policy \<or> pr_Policy p = None \<and> (\<exists>signer. gen = Some (policy, signer))))))"
proof (intro conjI)
  obtain r sw' where run: "AddProvider A now gen ent args (ds, w) = (r, sw')" by (rule prod.exhaust)
  have "r \<noteq> Inr () \<and> sw' = (ds, w)"
    if "\<exists>p \<in> set (x_providers w). pr_ID p = add_Provider args \<or> pr_Region p = add_Region args"
    using run that
    by (auto simp: AddProvider_def Let_def provider_Get_def provider_GetByRegion_def firstProvider_def find_None_iff
        split: if_splits option.splits)
  with AddProvider_effect[OF assms run] run
  show "\<exists>r sw'. AddProvider A now gen ent args (ds, w) = (r, sw') \<and> command_keeps A V (ds, w) sw' \<and>
      (r \<noteq> Inr () \<longrightarrow> unrecorded A (ds, w) sw') \<and>
      ((\<exists>p \<in> set (x_providers w). pr_ID p = add_Provider args \<or> pr_Region p = add_Region args) \<longrightarrow> r \<noteq> Inr () \<and> sw' = (ds, w)) \<and>
      (r = Inr () \<longrightarrow> (\<exists>p. provider_Get (x_providers (snd sw')) (add_Provider args) = Inr p \<and> pr_Region p = add_Region args \<and>
         (if add_Nodes args = [] then pr_Policy p = None
          else \<exists>policy signer. gen = Some (policy, signer) \<and> pr_Policy p = Some policy \<and> put_for A policy (add_Nodes args))))"
    by blast
  obtain r sw' where run: "SetProviderNodes A now gen ent prov nodes (ds, w) = (r, sw')" by (rule prod.exhaust)
  show "\<exists>r sw'. SetProviderNodes A now gen ent prov nodes (ds, w) = (r, sw') \<and> command_keeps A V (ds, w) sw' \<and>
      (r \<noteq> Inr () \<longrightarrow> unrecorded A (ds, w) sw') \<and>
      (r = Inr () \<longrightarrow> (\<exists>p p' policy. provider_Get (x_providers w) prov = Inr p \<and>
         provider_Get (x_providers (snd sw')) prov = Inr p' \<and> pr_Policy p' = Some policy \<and> put_for A policy nodes \<and>
         (pr_Policy p = Some policy \<or> pr_Policy p = None \<and> (\<exists>signer. gen = Some (policy, signer)))))"
    using run SetProviderNodes_effect[OF assms run] by blast
qed

text \<open>A provider registered with a storage node.\<close>

definition sample_policy_root :: dlg where
  "sample_policy_root = \<lparr>d_Link = ''r'', d_Issuer = Did ''policy'', d_Audience = Did ''hilt'', d_Subject = Did ''policy'',
     d_Command = Top, d_Expiration = None\<rparr>"

definition sample_admin :: "did list provider_admin" where
  "sample_admin = \<lparr>pa_ucan = sample_ucan\<lparr>Delegate := (\<lambda>issuer nonce aud sub cmd exp.
       if fst issuer = Did ''policy'' \<and> aud = Did ''hilt'' \<and> sub = Did ''policy'' \<and> cmd = Top \<and> exp = None
       then Some sample_policy_root else None)\<rparr>, pa_service = Did ''hilt'',
     pa_PutRoutingPolicy = (\<lambda>ds policy nodes e. (Inr (), nodes)), pa_meanwhile = (\<lambda>sw. sw)\<rparr>"

abbreviation admin_backend :: "did list backend" where
  "admin_backend \<equiv> \<lparr>x_tenants = [], x_providers = [], x_buckets = [], x_keys = [], x_vault = [], x_ext = []\<rparr>"

abbreviation "sample_registration \<equiv> AddProvider sample_admin 7 (Some (Did ''policy'', ''secret'')) ''nonce''
  \<lparr>add_Provider = Did ''p'', add_Region = ''eu'', add_Nodes = [Did ''n'']\<rparr> (\<lparr>byAudience = [], d_wait = None\<rparr>, admin_backend)"

theorem providers_routed_witness:
  "\<exists>sw'. sample_registration = (Inr (), sw') \<and> routed (Did ''hilt'') sw' \<and> usable (Did ''hilt'') (fst sw') (Did ''policy'') \<and>
    ListProviders (x_providers (snd sw')) = [(Did ''p'', ''eu'', Some (Did ''policy''))] \<and> x_ext (snd sw') = [Did ''n'']"
proof -
  have ok: "admin_ok sample_admin {sample_policy_root}"
    by (auto simp: admin_ok_def sample_admin_def delegate_ok_def sample_policy_root_def)
  have r: "routed (pa_service sample_admin) (\<lparr>byAudience = [], d_wait = None\<rparr>, admin_backend)" by (simp add: routed_def providers_ok_def)
  have a: "\<forall>a. authority \<lparr>byAudience = [], d_wait = None\<rparr> a \<subseteq> {sample_policy_root}" by (simp add: authority_def heldIn_def)
  have run: "fst sample_registration = Inr ()" "x_ext (snd (snd sample_registration)) = [Did ''n'']"
    "ListProviders (x_providers (snd (snd sample_registration))) = [(Did ''p'', ''eu'', Some (Did ''policy''))]"
    "map pr_Policy (x_providers (snd (snd sample_registration))) = [Some (Did ''policy'')]"
    by code_simp+
  obtain sw' where s: "sample_registration = (Inr (), sw')" using run(1) by (cases sample_registration) simp
  have svc: "pa_service sample_admin = Did ''hilt''" by (simp add: sample_admin_def)
  obtain r' sw2 where same: "sample_registration = (r', sw2)"
    and k: "command_keeps sample_admin {sample_policy_root} (\<lparr>byAudience = [], d_wait = None\<rparr>, admin_backend) sw2"
    using providers_routed[OF ok r a, of 7 "Some (Did ''policy'', ''secret'')" "''nonce''"
        "\<lparr>add_Provider = Did ''p'', add_Region = ''eu'', add_Nodes = [Did ''n'']\<rparr>", THEN conjunct1]
    by (elim exE conjE)
  have "sw2 = sw'" using same s by simp
  then have rt: "routed (Did ''hilt'') sw'" using k unfolding command_keeps_def svc by blast
  note run = run[unfolded s snd_conv]
  obtain p where p: "p \<in> set (x_providers (snd sw'))" "pr_Policy p = Some (Did ''policy'')"
    using run(4) by (cases "x_providers (snd sw')") auto
  have "usable (Did ''hilt'') (fst sw') (Did ''policy'')"
    using rt[unfolded routed_def, THEN conjunct2, rule_format, OF p] .
  then show ?thesis using s rt run(2,3) by (intro exI[of _ sw'] conjI)
qed

end
