(* ===== verification/Failures.thy ===== *)
theory Failures
  imports Prelude
begin

text \<open>
  What a refusal is called: the stable names of the services' errors, and \<open>pkg/rpc/failure.go\<close>,
  which of them a command's receipt carries.
\<close>

subsection \<open>Names\<close>

text \<open>\<open>None\<close>: an error made with Go's own \<open>errors\<close> package, which has no name.\<close>

fun storeErrorName :: "store_err \<Rightarrow> string option" where
  "storeErrorName ErrRecordExists = Some ''RecordExists''"
| "storeErrorName ErrRecordNotFound = Some ''RecordNotFound''"
| "storeErrorName ErrInvalidArgument = Some ''InvalidArgument''"
| "storeErrorName ErrPreconditionFailed = Some ''PreconditionFailed''"
| "storeErrorName ErrLockTimeout = Some ''LockTimeout''"
| "storeErrorName ErrKeyNotFound = Some ''KeyNotFound''"
| "storeErrorName ErrConflictingFilters = None"

fun apiErrorName :: "api_err \<Rightarrow> string option" where
  "apiErrorName ErrTenantNotFound = Some ''TenantNotFound''"
| "apiErrorName ErrInvalidTenantID = Some ''InvalidTenantID''"
| "apiErrorName ErrInvalidStatus = Some ''InvalidStatus''"
| "apiErrorName ErrTenantNotDisabled = Some ''TenantNotDisabled''"
| "apiErrorName ErrDIDRegistration = Some ''DIDRegistration''"
| "apiErrorName ErrUploadRegistration = Some ''UploadRegistration''"
| "apiErrorName ErrDIDDeactivation = Some ''DIDDeactivation''"
| "apiErrorName ErrPrincipalNotFound = Some ''PrincipalNotFound''"
| "apiErrorName ErrInvalidPrincipalID = Some ''InvalidPrincipalID''"
| "apiErrorName ErrConcurrentChange = Some ''ConcurrentChange''"
| "apiErrorName ErrNamedAgain = None"
| "apiErrorName ErrBucketNotFound = Some ''BucketNotFound''"
| "apiErrorName ErrPolicyNotFound = Some ''PolicyNotFound''"
| "apiErrorName ErrInvalidPrecondition = Some ''InvalidPrecondition''"
| "apiErrorName ErrPolicyPreconditionFailed = Some ''PreconditionFailed''"
| "apiErrorName ErrInvalidPolicy = Some ''InvalidBucketPolicy''"
| "apiErrorName ErrInvalidName = Some ''InvalidAccessKeyName''"
| "apiErrorName ErrNoPermissions = Some ''NoPermissions''"
| "apiErrorName (ErrInvalidPermission _) = Some ''InvalidPermission''"
| "apiErrorName (ErrNoSuchBucket _) = Some ''UnknownBucket''"
| "apiErrorName ErrNameConflict = Some ''AccessKeyNameConflict''"
| "apiErrorName ErrAccessKeyNotFound = Some ''AccessKeyNotFound''"
| "apiErrorName ErrPrincipalScoped = Some ''PrincipalScopedAccessKey''"
| "apiErrorName ErrUnknownPrincipal = Some ''UnknownPrincipal''"
| "apiErrorName ErrInvalidRange = Some ''InvalidRange''"
| "apiErrorName ErrInvalidWindow = Some ''InvalidWindow''"

fun authErrorName :: "auth_err \<Rightarrow> string" where
  "authErrorName ErrMalformedSignature = ''MalformedSignature''"
| "authErrorName ErrInvalidAccessKeyID = ''InvalidAccessKeyID''"
| "authErrorName ErrUnknownAccessKey = ''UnknownAccessKey''"
| "authErrorName ErrSignatureMismatch = ''SignatureMismatch''"
| "authErrorName ErrSignatureExpired = ''SignatureExpired''"
| "authErrorName ErrAccessKeyExpired = ''AccessKeyExpired''"
| "authErrorName ErrTenantDisabled = ''TenantDisabled''"
| "authErrorName ErrIssuerForbidden = ''IssuerForbidden''"
| "authErrorName ErrRegionNotServed = ''RegionNotServed''"
| "authErrorName ErrUnsupportedOperation = ''UnsupportedOperation''"
| "authErrorName (ErrConflictingQuery _) = ''ConflictingQuery''"
| "authErrorName ErrOperationNotPermitted = ''OperationNotPermitted''"
| "authErrorName ErrUnknownBucket = ''UnknownBucket''"
| "authErrorName ErrForeignBucket = ''ForeignBucket''"
| "authErrorName ErrBucketNotPermitted = ''BucketNotPermitted''"
| "authErrorName (ErrUnsignedHeader _) = ''UnsignedHeader''"
| "authErrorName ErrInvalidBody = ''InvalidBody''"
| "authErrorName ErrTemporarilyUnavailable = ''TemporarilyUnavailable''"
| "authErrorName (BucketRegionMismatchError _ _) = ''BucketRegionMismatch''"

fun rpcErrorName :: "rpc_err \<Rightarrow> string" where
  "rpcErrorName ErrOperationMismatch = ''OperationMismatch''"
| "rpcErrorName ErrBucketExists = ''BucketExists''"
| "rpcErrorName ErrBucketAlreadyOwned = ''BucketAlreadyOwnedByTenant''"
| "rpcErrorName ErrBucketNotEmpty = ''BucketNotEmpty''"
| "rpcErrorName ErrBucketUnknown = ''UnknownBucket''"
| "rpcErrorName ErrKeyUnknown = ''UnknownAccessKey''"
| "rpcErrorName ErrInvalidParameter = ''InvalidArgument''"
| "rpcErrorName ErrProviderExists = ''ProviderExists''"
| "rpcErrorName ErrProviderNotFound = ''ProviderNotFound''"
| "rpcErrorName ErrInvalidNodes = ''InvalidNodes''"

text \<open>The name of the first error of the chain that has one, \<open>errors.As\<close> to \<open>Named\<close>.\<close>

fun errorName :: "err \<Rightarrow> string option" where
  "errorName (Store e) = storeErrorName e"
| "errorName (Auth e) = Some (authErrorName e)"
| "errorName (Api e) = apiErrorName e"
| "errorName (Rpc e) = Some (rpcErrorName e)"
| "errorName (Upstream nm) = Some nm"
| "errorName DeadlineExceeded = None"
| "errorName (Internal _) = None"

subsection \<open>Receipts\<close>

text \<open>
  A receipt's failure: the refusal itself, under its name, or the dispatcher's
  \<open>HandlerExecutionError\<close> for an error the handler returns.
\<close>

datatype failure = Refused err | HandlerExecutionError err

definition adminFailure :: "err \<Rightarrow> failure" where
  "adminFailure e =
     (if e = Rpc ErrProviderExists \<or> e = Rpc ErrProviderNotFound \<or> e = Rpc ErrInvalidNodes \<or> errorName e \<noteq> None
      then Refused e else HandlerExecutionError e)"

fun authFailure :: "err \<Rightarrow> failure" where
  "authFailure (Auth e) = Refused (Auth e)"
| "authFailure e = HandlerExecutionError e"

definition bucketErrors :: "err list" where
  "bucketErrors = [Rpc ErrOperationMismatch, Rpc ErrBucketExists, Rpc ErrBucketAlreadyOwned, Rpc ErrBucketNotEmpty,
     Rpc ErrBucketUnknown, Rpc ErrKeyUnknown, Rpc ErrInvalidParameter, Api ErrInvalidPolicy, Api ErrPolicyNotFound,
     Api ErrInvalidPrecondition, Api ErrPolicyPreconditionFailed, Api ErrConcurrentChange]"

definition bucketFailure :: "err \<Rightarrow> failure" where
  "bucketFailure e = (if e \<in> set bucketErrors then Refused e else authFailure e)"

lemma refused_named:
  "authFailure e = Refused e' \<Longrightarrow> e' = e \<and> errorName e \<noteq> None"
  "bucketFailure e = Refused e' \<Longrightarrow> e' = e \<and> errorName e \<noteq> None"
  "adminFailure e = Refused e' \<Longrightarrow> e' = e \<and> errorName e \<noteq> None"
proof -
  show a: "authFailure e = Refused e' \<Longrightarrow> e' = e \<and> errorName e \<noteq> None" for e by (cases e) auto
  have "e \<in> set bucketErrors \<Longrightarrow> errorName e \<noteq> None" by (auto simp: bucketErrors_def)
  then show "bucketFailure e = Refused e' \<Longrightarrow> e' = e \<and> errorName e \<noteq> None"
    using a by (auto simp: bucketFailure_def split: if_splits)
  show "adminFailure e = Refused e' \<Longrightarrow> e' = e \<and> errorName e \<noteq> None"
    by (auto simp: adminFailure_def split: if_splits)
qed

text \<open>A gateway tells the refusals of a signed request apart by their names.\<close>

lemma auth_names_distinct:
  "authErrorName e = authErrorName e' \<Longrightarrow>
    e = e' \<or> (\<exists>q q'. e = ErrConflictingQuery q \<and> e' = ErrConflictingQuery q') \<or>
    (\<exists>h h'. e = ErrUnsignedHeader h \<and> e' = ErrUnsignedHeader h') \<or>
    (\<exists>r s r' s'. e = BucketRegionMismatchError r s \<and> e' = BucketRegionMismatchError r' s')"
  by (cases e; cases e') simp_all

end
