(* ===== verification/Http_Api.thy ===== *)
theory Http_Api
  imports Metrics Policy_Service Failures
begin

text \<open>
  \<open>pkg/api\<close> and \<open>pkg/echo/middleware/partnerkey.go\<close>: the tenant management API, from the
  partner key and the route's parameters to the service's answer and its status. Echo matches
  the path and decodes the body, \<open>None\<close> being a body that does not decode.
\<close>

subsection \<open>Responses\<close>

text \<open>The body of an error: the name and the text of an error, or a text alone.\<close>

datatype error_body = ErrorBody "string option" err | MessageOnly string

datatype 'b response = Response nat 'b | HTTPError nat error_body

fun statusCode :: "'b response \<Rightarrow> nat" where
  "statusCode (Response n _) = n"
| "statusCode (HTTPError n _) = n"

definition httpError :: "nat \<Rightarrow> err \<Rightarrow> 'b response" where
  "httpError status e = HTTPError status (ErrorBody (errorName e) e)"

definition internalError :: "'b response" where
  "internalError = HTTPError 500 (MessageOnly ''internal error'')"

definition badBody :: "'b response" where
  "badBody = HTTPError 400 (MessageOnly ''invalid request body'')"

definition tenantHTTPError :: "err \<Rightarrow> 'b response" where
  "tenantHTTPError e =
     (if e = Api ErrTenantNotFound then httpError 404 e
      else if e = Api ErrInvalidTenantID then httpError 400 e
      else if e = Api ErrInvalidStatus then httpError 422 e
      else if e = Api ErrTenantNotDisabled then httpError 409 e
      else if e \<in> {Api ErrDIDRegistration, Api ErrUploadRegistration, Api ErrDIDDeactivation} then httpError 502 e
      else internalError)"

definition principalHTTPError :: "err \<Rightarrow> 'b response" where
  "principalHTTPError e =
     (if e \<in> {Api ErrTenantNotFound, Api ErrPrincipalNotFound} then httpError 404 e
      else if e = Api ErrInvalidPrincipalID then httpError 422 e
      else if e = Api ErrConcurrentChange then httpError 409 e
      else internalError)"

definition policyHTTPError :: "err \<Rightarrow> 'b response" where
  "policyHTTPError e =
     (if e \<in> {Api ErrTenantNotFound, Api ErrBucketNotFound, Api ErrPolicyNotFound, Api ErrPrincipalNotFound} then httpError 404 e
      else if e = Api ErrInvalidPrecondition then httpError 400 e
      else if e = Api ErrPolicyPreconditionFailed then httpError 412 e
      else if e = Api ErrConcurrentChange then httpError 409 e
      else if e = Api ErrInvalidPolicy then httpError 422 e
      else internalError)"

fun invalidKey :: "err \<Rightarrow> bool" where
  "invalidKey (Api (ErrInvalidPermission _)) = True"
| "invalidKey (Api (ErrNoSuchBucket _)) = True"
| "invalidKey e = (e \<in> {Api ErrInvalidName, Api ErrNoPermissions, Api ErrPrincipalScoped, Api ErrUnknownPrincipal,
     Api ErrInvalidPrincipalID})"

definition accessKeyHTTPError :: "err \<Rightarrow> 'b response" where
  "accessKeyHTTPError e =
     (if e \<in> {Api ErrTenantNotFound, Api ErrAccessKeyNotFound} then httpError 404 e
      else if invalidKey e then httpError 422 e
      else if e \<in> {Api ErrNameConflict, Api ErrConcurrentChange} then httpError 409 e
      else internalError)"

text \<open>The names the upload service gives its failures come from the command definitions it shares.\<close>

record usage_names =
  InvalidRangeErrorName :: string
  InvalidWindowErrorName :: string
  TooManySamplesErrorName :: string
  UsageUnstableErrorName :: string
  RangeTooBusyErrorName :: string

definition metricsHTTPError :: "usage_names \<Rightarrow> err \<Rightarrow> 'b response" where
  "metricsHTTPError N e =
     (if e \<in> {Api ErrTenantNotFound, Api ErrBucketNotFound} then httpError 404 e
      else if e \<in> {Api ErrInvalidRange, Api ErrInvalidWindow} then httpError 400 e
      else
        (case errorName e of
           None \<Rightarrow> internalError
         | Some nm \<Rightarrow>
             if nm \<in> {InvalidRangeErrorName N, InvalidWindowErrorName N, TooManySamplesErrorName N} then httpError 400 e
             else if nm \<in> {UsageUnstableErrorName N, RangeTooBusyErrorName N} then httpError 503 e
             else internalError))"

subsection \<open>Bodies\<close>

record tenant_json =
  tj_TenantID :: string
  tj_Status :: status
  tj_BucketCount :: int
  tj_BucketLimit :: int
  tj_AccessKeyCount :: int
  tj_AccessKeyLimit :: int
  tj_CreatedAt :: instant

definition tenantResponse :: "tenant \<Rightarrow> tenant_json" where
  "tenantResponse rec = \<lparr>tj_TenantID = t_ExternalID rec, tj_Status = t_Status rec, tj_BucketCount = 0, tj_BucketLimit = 0,
     tj_AccessKeyCount = 0, tj_AccessKeyLimit = 0, tj_CreatedAt = t_CreatedAt rec\<rparr>"

record principal_json =
  pj_PrincipalID :: string
  pj_CreatedAt :: instant

definition principalResponse :: "principal_rec \<Rightarrow> principal_json" where
  "principalResponse rec = \<lparr>pj_PrincipalID = p_ExternalID rec, pj_CreatedAt = p_CreatedAt rec\<rparr>"

record key_json =
  kj_AccessKeyID :: string
  kj_Name :: string
  kj_Type :: string
  kj_Permissions :: "string list"
  kj_Buckets :: "string list"
  kj_PrincipalID :: "string option"
  kj_ExpiresAt :: "instant option"
  kj_CreatedAt :: instant

definition accessKeyType :: "access_key \<Rightarrow> string" where
  "accessKeyType rec = (if k_Principal rec = None then ''service'' else ''principal'')"

text \<open>\<open>I\<close> is \<open>DID.Identifier\<close>.\<close>

definition keyJSON :: "(did \<Rightarrow> string) \<Rightarrow> access_key \<Rightarrow> string list \<Rightarrow> key_json" where
  "keyJSON I rec buckets = \<lparr>kj_AccessKeyID = I (k_ID rec), kj_Name = k_Name rec, kj_Type = accessKeyType rec,
     kj_Permissions = k_Permissions rec, kj_Buckets = buckets, kj_PrincipalID = k_Principal rec,
     kj_ExpiresAt = k_ExpiresAt rec, kj_CreatedAt = k_CreatedAt rec\<rparr>"

definition accessKeyResponse :: "(did \<Rightarrow> string) \<Rightarrow> access_key \<Rightarrow> (did, string) gomap \<Rightarrow> key_json" where
  "accessKeyResponse I rec nms =
     keyJSON I rec (map (\<lambda>b. case map_of nms b of Some nm \<Rightarrow> nm | None \<Rightarrow> did_string b) (k_Buckets rec))"

record key_request =
  kr_Name :: string
  kr_Permissions :: "string list"
  kr_Buckets :: "string list"
  kr_PrincipalID :: "string option"
  kr_ExpiresAt :: "instant option"

text \<open>The three series: storage, egress and ingress; egress has no reading.\<close>

record metrics_json =
  mj_Storage :: "(instant \<times> 64 word \<times> 64 word) list"
  mj_Egress :: "(instant \<times> 64 word) list"
  mj_Ingress :: "(instant \<times> 64 word) list"

definition metricsResponse :: "sample list \<Rightarrow> metrics_json" where
  "metricsResponse samples =
     \<lparr>mj_Storage = map (\<lambda>s. (End s, BytesStored s, ObjectCount s)) samples, mj_Egress = [],
      mj_Ingress = map (\<lambda>s. (End s, BytesIngested s)) samples\<rparr>"

datatype api_body =
    NoContent | TenantBody tenant_json | PrincipalBody principal_json | PrincipalList "principal_json list"
  | KeyBody key_json | CreatedKey key_json string | KeyList "key_json list"
  | PolicyList "(string \<times> policy_document) list" | AccessBody "(string \<times> string list) list" | MetricsBody metrics_json

subsection \<open>The handlers\<close>

text \<open>
  What a handler is called on: the services, and what a request draws from its surroundings, the
  clock, fresh keys and nonces, whether the caller still waits, and the order calls are answered in.
\<close>

record 'e api_service =
  a_PartnerKey :: "string list"
  a_tenants :: "'e tenant_service"
  a_policies :: "'e policy_service"
  a_metrics :: metrics_service
  a_usage_names :: usage_names
  a_Identifier :: "did \<Rightarrow> string"

record draws =
  dr_now :: instant
  dr_alive :: bool
  dr_tenantKey :: "(did \<times> string) option"
  dr_wrapKey :: "string option"
  dr_accessKey :: "(did \<times> string) option"
  dr_entropy :: "did \<Rightarrow> nat \<Rightarrow> string"
  dr_order :: "nat \<Rightarrow> nat list"

abbreviation siteOf :: "'e tenant_world \<Rightarrow> 'e site" where
  "siteOf st \<equiv> (fst st, snd (snd (snd (snd st))))"

definition onSite :: "'e site \<Rightarrow> 'e tenant_world \<Rightarrow> 'e tenant_world" where
  "onSite s st = (let (wk, ps, pol, ds, w) = st in (fst s, ps, pol, ds, snd s))"

definition created_or_ok :: "bool \<Rightarrow> nat" where
  "created_or_ok isNew = (if isNew then 201 else 200)"

definition HandleProvisionTenant :: "'e api_service \<Rightarrow> draws \<Rightarrow> string \<Rightarrow> 'e tenant_world \<Rightarrow> api_body response \<times> 'e tenant_world" where
  "HandleProvisionTenant A D tenantId st =
     (if tenantId = [] then (HTTPError 400 (MessageOnly ''missing tenant id''), st)
      else (case Provision (a_tenants A) (dr_now D) (dr_tenantKey D) (dr_wrapKey D) tenantId (siteOf st) of
              (Inl e, s) \<Rightarrow> (tenantHTTPError e, onSite s st)
            | (Inr (rec, isNew), s) \<Rightarrow> (Response (created_or_ok isNew) (TenantBody (tenantResponse rec)), onSite s st)))"

definition HandleGetTenant :: "string \<Rightarrow> 'e tenant_world \<Rightarrow> api_body response" where
  "HandleGetTenant tenantId st =
     (case GetTenant (siteOf st) tenantId of
        Inl e \<Rightarrow> tenantHTTPError e
      | Inr rec \<Rightarrow> Response 200 (TenantBody (tenantResponse rec)))"

definition HandleUpdateTenantStatus ::
  "draws \<Rightarrow> string \<Rightarrow> string option \<Rightarrow> 'e tenant_world \<Rightarrow> api_body response \<times> 'e tenant_world" where
  "HandleUpdateTenantStatus D tenantId body st =
     (case body of
        None \<Rightarrow> (badBody, st)
      | Some status \<Rightarrow>
          (case SetTenantStatus (dr_now D) tenantId status (siteOf st) of
             (Inl e, s) \<Rightarrow> (tenantHTTPError e, onSite s st)
           | (Inr _, s) \<Rightarrow> (Response 204 NoContent, onSite s st)))"

text \<open>A state's \<open>None\<close> would be a listing of buckets that never ends.\<close>

definition HandleDeleteTenant ::
  "'e api_service \<Rightarrow> draws \<Rightarrow> string \<Rightarrow> 'e tenant_world \<Rightarrow> (api_body response \<times> 'e tenant_world) option" where
  "HandleDeleteTenant A D tenantId st =
     (case DeleteTenant (a_tenants A) (dr_now D) tenantId st of
        None \<Rightarrow> None
      | Some (Inl e, st) \<Rightarrow> Some (tenantHTTPError e, st)
      | Some (Inr _, st) \<Rightarrow> Some (Response 204 NoContent, st))"

definition HandleCreateAccessKey ::
  "'e api_service \<Rightarrow> draws \<Rightarrow> string \<Rightarrow> key_request option \<Rightarrow> 'e tenant_world \<Rightarrow>
   (api_body response \<times> 'e tenant_world) option" where
  "HandleCreateAccessKey A D tenantId body st =
     (case body of
        None \<Rightarrow> Some (badBody, st)
      | Some req \<Rightarrow>
          (case CreateKey (a_policies A) (dr_now D) (dr_accessKey D) (dr_entropy D) tenantId (kr_Name req) (kr_Permissions req)
                  (kr_Buckets req) (kr_PrincipalID req) (kr_ExpiresAt req) (snd st) of
             None \<Rightarrow> None
           | Some (Inl e, s) \<Rightarrow> Some (accessKeyHTTPError e, fst st, s)
           | Some (Inr (rec, secret), s) \<Rightarrow>
               Some (Response 201 (CreatedKey (keyJSON (a_Identifier A) rec (kr_Buckets req)) secret), fst st, s)))"

definition HandleListAccessKeys ::
  "'e api_service \<Rightarrow> string \<Rightarrow> string \<Rightarrow> 'e tenant_world \<Rightarrow> api_body response option" where
  "HandleListAccessKeys A tenantId p st =
     (case ListKeys (snd st) tenantId (if p = [] then allKeys else withPrincipal p) of
        None \<Rightarrow> None
      | Some (Inl e) \<Rightarrow> Some (accessKeyHTTPError e)
      | Some (Inr (recs, nms)) \<Rightarrow> Some (Response 200 (KeyList (map (\<lambda>rec. accessKeyResponse (a_Identifier A) rec nms) recs))))"

definition HandleGetAccessKey :: "'e api_service \<Rightarrow> string \<Rightarrow> string \<Rightarrow> 'e tenant_world \<Rightarrow> api_body response option" where
  "HandleGetAccessKey A tenantId accessKeyId st =
     (case GetKey (r_keylib (v_rotator (a_policies A))) (snd st) tenantId accessKeyId of
        None \<Rightarrow> None
      | Some (Inl e) \<Rightarrow> Some (accessKeyHTTPError e)
      | Some (Inr (rec, nms)) \<Rightarrow> Some (Response 200 (KeyBody (accessKeyResponse (a_Identifier A) rec nms))))"

definition HandleDeleteAccessKey ::
  "'e api_service \<Rightarrow> draws \<Rightarrow> string \<Rightarrow> string \<Rightarrow> 'e tenant_world \<Rightarrow> api_body response \<times> 'e tenant_world" where
  "HandleDeleteAccessKey A D tenantId accessKeyId st =
     (case DeleteKey (v_rotator (a_policies A)) (dr_now D) tenantId accessKeyId (snd st) of
        (Inl e, s) \<Rightarrow> (accessKeyHTTPError e, fst st, s)
      | (Inr _, s) \<Rightarrow> (Response 204 NoContent, fst st, s))"

text \<open>The metrics queries; the delegations are those of the store, the clock reads the present.\<close>

definition metricsQuery :: "url_values \<Rightarrow> err + instant \<times> instant \<times> duration" where
  "metricsQuery q = ParseRange (queryGet q ''from'') (queryGet q ''to'') (queryGet q ''window'')"

definition HandleTenantMetrics ::
  "'e api_service \<Rightarrow> draws \<Rightarrow> string \<Rightarrow> url_values \<Rightarrow> 'e tenant_world \<Rightarrow> api_body response option" where
  "HandleTenantMetrics A D tenantId q st =
     (case metricsQuery q of
        Inl e \<Rightarrow> Some (metricsHTTPError (a_usage_names A) e)
      | Inr (from, to, window) \<Rightarrow>
          (let (wk, ps, pol, ds, w) = st in
           case TenantUsage (a_metrics A) (dr_order D) (dr_now D) (x_tenants w) (x_buckets w) (x_vault w) ds tenantId from to window of
             None \<Rightarrow> None
           | Some (Inl e) \<Rightarrow> Some (metricsHTTPError (a_usage_names A) e)
           | Some (Inr samples) \<Rightarrow> Some (Response 200 (MetricsBody (metricsResponse samples)))))"

definition HandleBucketMetrics ::
  "'e api_service \<Rightarrow> draws \<Rightarrow> string \<Rightarrow> string \<Rightarrow> url_values \<Rightarrow> 'e tenant_world \<Rightarrow> api_body response" where
  "HandleBucketMetrics A D tenantId bucketName q st =
     (case metricsQuery q of
        Inl e \<Rightarrow> metricsHTTPError (a_usage_names A) e
      | Inr (from, to, window) \<Rightarrow>
          (let (wk, ps, pol, ds, w) = st in
           case BucketUsage (a_metrics A) (dr_now D) (x_tenants w) (x_buckets w) (x_vault w) ds tenantId bucketName from to window of
             Inl e \<Rightarrow> metricsHTTPError (a_usage_names A) e
           | Inr samples \<Rightarrow> Response 200 (MetricsBody (metricsResponse samples))))"

definition HandleCreatePrincipal ::
  "'e api_service \<Rightarrow> draws \<Rightarrow> string \<Rightarrow> string \<Rightarrow> 'e tenant_world \<Rightarrow> api_body response \<times> 'e tenant_world" where
  "HandleCreatePrincipal A D tenantId principalId st =
     (case CreatePrincipal (v_policy (a_policies A)) (dr_now D) tenantId principalId (snd st) of
        (Inl e, s) \<Rightarrow> (principalHTTPError e, fst st, s)
      | (Inr (rec, isNew), s) \<Rightarrow> (Response (created_or_ok isNew) (PrincipalBody (principalResponse rec)), fst st, s))"

definition HandleListPrincipals :: "string \<Rightarrow> 'e tenant_world \<Rightarrow> api_body response" where
  "HandleListPrincipals tenantId st =
     (case ListPrincipals (snd st) tenantId of
        Inl e \<Rightarrow> principalHTTPError e
      | Inr recs \<Rightarrow> Response 200 (PrincipalList (map principalResponse recs)))"

definition HandleGetPrincipal :: "string \<Rightarrow> string \<Rightarrow> 'e tenant_world \<Rightarrow> api_body response" where
  "HandleGetPrincipal tenantId principalId st =
     (case GetPrincipal (snd st) tenantId principalId of
        Inl e \<Rightarrow> principalHTTPError e
      | Inr rec \<Rightarrow> Response 200 (PrincipalBody (principalResponse rec)))"

definition HandleDeletePrincipal ::
  "'e api_service \<Rightarrow> draws \<Rightarrow> string \<Rightarrow> string \<Rightarrow> 'e tenant_world \<Rightarrow> api_body response \<times> 'e tenant_world" where
  "HandleDeletePrincipal A D tenantId principalId st =
     (case DeletePrincipal (a_policies A) (dr_alive D) (dr_now D) tenantId principalId (snd st) of
        (Inl e, s) \<Rightarrow> (principalHTTPError e, fst st, s)
      | (Inr _, s) \<Rightarrow> (Response 204 NoContent, fst st, s))"

definition HandlePrincipalPolicies :: "string \<Rightarrow> string \<Rightarrow> 'e tenant_world \<Rightarrow> api_body response option" where
  "HandlePrincipalPolicies tenantId principalId st =
     (case PoliciesByPrincipal (snd st) tenantId principalId of
        None \<Rightarrow> None
      | Some (Inl e) \<Rightarrow> Some (policyHTTPError e)
      | Some (Inr recs) \<Rightarrow> Some (Response 200 (PolicyList (map (\<lambda>r. (n_BucketName r, n_Policy r)) recs))))"

definition HandlePrincipalAccess :: "'e api_service \<Rightarrow> string \<Rightarrow> string \<Rightarrow> 'e tenant_world \<Rightarrow> api_body response option" where
  "HandlePrincipalAccess A tenantId principalId st =
     (case PrincipalAccess (v_policy (a_policies A)) (snd st) tenantId principalId of
        None \<Rightarrow> None
      | Some (Inl e) \<Rightarrow> Some (policyHTTPError e)
      | Some (Inr access) \<Rightarrow> Some (Response 200 (AccessBody access)))"

subsection \<open>Routes and the partner key\<close>

text \<open>The routes, with the parameters Echo took from the path.\<close>

datatype api_call =
    ProvisionTenantRoute string | GetTenantRoute string | UpdateTenantStatusRoute string "string option"
  | DeleteTenantRoute string | CreateAccessKeyRoute string "key_request option" | ListAccessKeysRoute string
  | GetAccessKeyRoute string string | DeleteAccessKeyRoute string string
  | TenantMetricsRoute string | BucketMetricsRoute string string
  | CreatePrincipalRoute string string | ListPrincipalsRoute string | GetPrincipalRoute string string
  | DeletePrincipalRoute string string | PrincipalPoliciesRoute string string | PrincipalAccessRoute string string

fun tenantParam :: "api_call \<Rightarrow> string" where
  "tenantParam (ProvisionTenantRoute t) = t"
| "tenantParam (GetTenantRoute t) = t"
| "tenantParam (UpdateTenantStatusRoute t _) = t"
| "tenantParam (DeleteTenantRoute t) = t"
| "tenantParam (CreateAccessKeyRoute t _) = t"
| "tenantParam (ListAccessKeysRoute t) = t"
| "tenantParam (GetAccessKeyRoute t _) = t"
| "tenantParam (DeleteAccessKeyRoute t _) = t"
| "tenantParam (TenantMetricsRoute t) = t"
| "tenantParam (BucketMetricsRoute t _) = t"
| "tenantParam (CreatePrincipalRoute t _) = t"
| "tenantParam (ListPrincipalsRoute t) = t"
| "tenantParam (GetPrincipalRoute t _) = t"
| "tenantParam (DeletePrincipalRoute t _) = t"
| "tenantParam (PrincipalPoliciesRoute t _) = t"
| "tenantParam (PrincipalAccessRoute t _) = t"

fun principalParam :: "api_call \<Rightarrow> string" where
  "principalParam (CreatePrincipalRoute _ p) = p"
| "principalParam (GetPrincipalRoute _ p) = p"
| "principalParam (DeletePrincipalRoute _ p) = p"
| "principalParam (PrincipalPoliciesRoute _ p) = p"
| "principalParam (PrincipalAccessRoute _ p) = p"
| "principalParam _ = []"

fun handler ::
  "'e api_service \<Rightarrow> draws \<Rightarrow> url_values \<Rightarrow> api_call \<Rightarrow> 'e tenant_world \<Rightarrow> (api_body response \<times> 'e tenant_world) option" where
  "handler A D q (ProvisionTenantRoute t) st = Some (HandleProvisionTenant A D t st)"
| "handler A D q (GetTenantRoute t) st = Some (HandleGetTenant t st, st)"
| "handler A D q (UpdateTenantStatusRoute t b) st = Some (HandleUpdateTenantStatus D t b st)"
| "handler A D q (DeleteTenantRoute t) st = HandleDeleteTenant A D t st"
| "handler A D q (CreateAccessKeyRoute t b) st = HandleCreateAccessKey A D t b st"
| "handler A D q (ListAccessKeysRoute t) st =
     map_option (\<lambda>r. (r, st)) (HandleListAccessKeys A t (queryGet q ''principalId'') st)"
| "handler A D q (GetAccessKeyRoute t k) st = map_option (\<lambda>r. (r, st)) (HandleGetAccessKey A t k st)"
| "handler A D q (DeleteAccessKeyRoute t k) st = Some (HandleDeleteAccessKey A D t k st)"
| "handler A D q (TenantMetricsRoute t) st = map_option (\<lambda>r. (r, st)) (HandleTenantMetrics A D t q st)"
| "handler A D q (BucketMetricsRoute t b) st = Some (HandleBucketMetrics A D t b q st, st)"
| "handler A D q (CreatePrincipalRoute t p) st = Some (HandleCreatePrincipal A D t p st)"
| "handler A D q (ListPrincipalsRoute t) st = Some (HandleListPrincipals t st, st)"
| "handler A D q (GetPrincipalRoute t p) st = Some (HandleGetPrincipal t p st, st)"
| "handler A D q (DeletePrincipalRoute t p) st = Some (HandleDeletePrincipal A D t p st)"
| "handler A D q (PrincipalPoliciesRoute t p) st = map_option (\<lambda>r. (r, st)) (HandlePrincipalPolicies t p st)"
| "handler A D q (PrincipalAccessRoute t p) st = map_option (\<lambda>r. (r, st)) (HandlePrincipalAccess A t p st)"

definition NewRoute ::
  "'e api_service \<Rightarrow> draws \<Rightarrow> url_values \<Rightarrow> api_call \<Rightarrow> 'e tenant_world \<Rightarrow> (api_body response \<times> 'e tenant_world) option" where
  "NewRoute A D q c st =
     (if tenantParam c \<noteq> [] \<and> \<not> ValidTenantID (tenantParam c) then Some (httpError 400 (Api ErrInvalidTenantID), st)
      else if principalParam c \<noteq> [] \<and> \<not> ValidID (v_policy (a_policies A)) (principalParam c)
      then Some (httpError 422 (Api ErrInvalidPrincipalID), st)
      else handler A D q c st)"

definition bearerPrefix :: string where "bearerPrefix = ''Bearer ''"

definition partnerKeys :: "string list \<Rightarrow> string list" where
  "partnerKeys ks = filter (\<lambda>k. trimSpace k \<noteq> []) ks"

definition PartnerKeyAuth :: "string list \<Rightarrow> string \<Rightarrow> bool" where
  "PartnerKeyAuth partnerKey auth =
     (let keys = partnerKeys partnerKey in
      if length keys = 0 then False
      else if length auth \<le> length bearerPrefix \<or> \<not> equalFold (take (length bearerPrefix) auth) bearerPrefix then False
      else list_ex (\<lambda>key. drop (length bearerPrefix) auth = key) keys)"

definition unauthorized :: "'b response" where
  "unauthorized = HTTPError 401 (MessageOnly ''invalid or missing partner key'')"

definition ServeAPI ::
  "'e api_service \<Rightarrow> draws \<Rightarrow> string \<Rightarrow> url_values \<Rightarrow> api_call \<Rightarrow> 'e tenant_world \<Rightarrow>
   (api_body response \<times> 'e tenant_world) option" where
  "ServeAPI A D auth q c st =
     (if \<not> PartnerKeyAuth (a_PartnerKey A) auth then Some (unauthorized, st) else NewRoute A D q c st)"

end
