(* ===== verification/Rpc_Server.thy ===== *)
theory Rpc_Server
  imports Bucket_Policy_Requests Bucket_Info Bucket_Listing Provider_Admin Http_Api
begin

text \<open>
  The UCAN side of the process: the handlers of \<open>pkg/rpc\<close>, from an invocation's issuer and
  arguments to the receipt it is answered with, and the guards \<open>pkg/fx/rpc.go\<close> puts before each
  group of routes.
\<close>

subsection \<open>Receipts\<close>

datatype rpc_ok =
    AuthorizeOK authorize_ok | DeleteOK | ListOK list_ok | InfoOK info_ok | PolicyOK "policy_document option"
  | AddOK | SetOK | ListProvidersOK "(did \<times> string \<times> did option) list"

text \<open>A success with the delegations that ride back in the response's metadata, or a failure.\<close>

datatype receipt = Success rpc_ok "dlg list" | Failure failure

text \<open>
  The process: its identity, ucantone's checks, each given an invocation's issuer and subject
  and answering the failure it records, and the services; \<open>h_SetMetadata\<close> attaches delegations.
\<close>

record 'e hilt =
  h_ID :: did
  h_NotSelfSigned :: "did \<Rightarrow> did \<Rightarrow> err option"
  h_OnlySubject :: "did \<Rightarrow> did \<Rightarrow> did \<Rightarrow> err option"
  h_OnlyIssuer :: "did \<Rightarrow> did \<Rightarrow> did \<Rightarrow> err option"
  h_SetMetadata :: "dlg list \<Rightarrow> err option"
  h_buckets :: "'e bucket_service"
  h_admin :: "'e provider_admin"
  h_api :: "'e api_service"

text \<open>What a command draws: the clock's readings, a key, nonces, and whether the caller still waits.\<close>

record rpc_draws =
  rd_clock :: "nat \<Rightarrow> instant"
  rd_key :: "(did \<times> string) option"
  rd_nonce :: string
  rd_entropy :: "nat \<Rightarrow> nat \<Rightarrow> string"
  rd_rotation :: "did \<Rightarrow> nat \<Rightarrow> string"
  rd_alive :: bool

definition withBlocks :: "'e hilt \<Rightarrow> rpc_ok \<Rightarrow> dlg list \<Rightarrow> receipt" where
  "withBlocks H ok dlgs =
     (if length dlgs > 0
      then (case h_SetMetadata H dlgs of Some e \<Rightarrow> Failure (HandlerExecutionError e) | None \<Rightarrow> Success ok dlgs)
      else Success ok [])"

subsection \<open>The commands served for gateways\<close>

definition NewAuthorizeRequestHandler :: "'e hilt \<Rightarrow> rpc_draws \<Rightarrow> did \<Rightarrow> s3_request \<Rightarrow> 'e Policy_Service.world \<Rightarrow> receipt" where
  "NewAuthorizeRequestHandler H D issuer req st =
     (case AuthorizeRequest (authorizerOf (h_buckets H) st) (r_ucan (bs_rotator (h_buckets H))) (bs_chain (h_buckets H))
             (fst (snd (snd st))) (rd_clock D) (rd_entropy D) issuer req of
        Inl e \<Rightarrow> Failure (authFailure e)
      | Inr (ok, dlgs) \<Rightarrow> withBlocks H (AuthorizeOK ok) dlgs)"

text \<open>\<open>None\<close> in what follows would be a listing that never ends.\<close>

definition NewCreateBucketHandler ::
  "'e hilt \<Rightarrow> rpc_draws \<Rightarrow> did \<Rightarrow> s3_request \<Rightarrow> 'e Policy_Service.world \<Rightarrow> (receipt \<times> 'e Policy_Service.world) option" where
  "NewCreateBucketHandler H D issuer req st =
     (case CreateBucket (h_buckets H) (rd_clock D) (rd_nonce D) (rd_key D) issuer req st of
        None \<Rightarrow> None
      | Some (Inl e, st) \<Rightarrow> Some (Failure (bucketFailure e), st)
      | Some (Inr (ok, dlgs), st) \<Rightarrow> Some (withBlocks H (AuthorizeOK ok) dlgs, st))"

definition NewDeleteBucketHandler ::
  "'e hilt \<Rightarrow> rpc_draws \<Rightarrow> did \<Rightarrow> s3_request \<Rightarrow> 'e Policy_Service.world \<Rightarrow> (receipt \<times> 'e Policy_Service.world) option" where
  "NewDeleteBucketHandler H D issuer req st =
     (case DeleteBucket (h_buckets H) (rd_clock D) issuer req st of
        None \<Rightarrow> None
      | Some (Inl e, st) \<Rightarrow> Some (Failure (bucketFailure e), st)
      | Some (Inr _, st) \<Rightarrow> Some (Success DeleteOK [], st))"

definition NewListBucketsHandler :: "'e hilt \<Rightarrow> rpc_draws \<Rightarrow> did \<Rightarrow> s3_request \<Rightarrow> 'e Policy_Service.world \<Rightarrow> receipt" where
  "NewListBucketsHandler H D issuer req st =
     (case ListBuckets (h_buckets H) (rd_clock D) issuer req st of
        Inl e \<Rightarrow> Failure (bucketFailure e)
      | Inr ok \<Rightarrow> Success (ListOK ok) [])"

text \<open>\<open>moment n\<close> is the world at the moment of the read \<open>n\<close>.\<close>

definition NewBucketInfoHandler ::
  "'e hilt \<Rightarrow> (nat \<Rightarrow> 'e Policy_Service.world) \<Rightarrow> did \<Rightarrow> string \<Rightarrow> did \<Rightarrow> receipt option" where
  "NewBucketInfoHandler H moment issuer nm key =
     (case InfoBucket (h_buckets H) moment issuer nm key of
        None \<Rightarrow> None
      | Some (Inl e) \<Rightarrow> Some (Failure (bucketFailure e))
      | Some (Inr (ok, dlgs)) \<Rightarrow> Some (withBlocks H (InfoOK ok) dlgs))"

definition NewPolicyHandler ::
  "'e hilt \<Rightarrow> rpc_draws \<Rightarrow> did \<Rightarrow> s3_request \<Rightarrow> string \<Rightarrow> 'e Policy_Service.world \<Rightarrow> receipt \<times> 'e Policy_Service.world" where
  "NewPolicyHandler H D issuer req body st =
     (case BucketPolicy (h_buckets H) (rd_alive D) (rd_clock D) (rd_rotation D) issuer req body st of
        (Inl e, st) \<Rightarrow> (Failure (bucketFailure e), st)
      | (Inr ok, st) \<Rightarrow> (Success (PolicyOK ok) [], st))"

subsection \<open>The commands the service invokes on itself\<close>

definition onStores :: "(dlg_store \<times> 'e backend \<Rightarrow> 'r \<times> dlg_store \<times> 'e backend) \<Rightarrow> 'e Policy_Service.world \<Rightarrow> 'r \<times> 'e Policy_Service.world" where
  "onStores f st = (let (ps, pol, sw) = st; (r, sw) = f sw in (r, ps, pol, sw))"

definition NewAddProviderHandler ::
  "'e hilt \<Rightarrow> rpc_draws \<Rightarrow> add_args \<Rightarrow> 'e Policy_Service.world \<Rightarrow> receipt \<times> 'e Policy_Service.world" where
  "NewAddProviderHandler H D args st =
     (case onStores (AddProvider (h_admin H) (rd_clock D 0) (rd_key D) (rd_nonce D) args) st of
        (Inl e, st) \<Rightarrow> (Failure (adminFailure e), st)
      | (Inr _, st) \<Rightarrow> (Success AddOK [], st))"

definition NewSetProviderNodesHandler ::
  "'e hilt \<Rightarrow> rpc_draws \<Rightarrow> did \<Rightarrow> did list \<Rightarrow> 'e Policy_Service.world \<Rightarrow> receipt \<times> 'e Policy_Service.world" where
  "NewSetProviderNodesHandler H D prov nodes st =
     (case onStores (SetProviderNodes (h_admin H) (rd_clock D 0) (rd_key D) (rd_nonce D) prov nodes) st of
        (Inl e, st) \<Rightarrow> (Failure (adminFailure e), st)
      | (Inr _, st) \<Rightarrow> (Success SetOK [], st))"

definition NewListProvidersHandler :: "'e Policy_Service.world \<Rightarrow> receipt" where
  "NewListProvidersHandler st = Success (ListProvidersOK (ListProviders (x_providers (snd (snd (snd st)))))) []"

subsection \<open>Serving\<close>

datatype rpc_command =
    AuthorizeCommand s3_request | CreateCommand s3_request | DeleteCommand s3_request | ListCommand s3_request
  | InfoCommand string did | PolicyCommand s3_request string
  | AddProviderCommand add_args | SetNodesCommand did "did list" | ListProvidersCommand

fun is_admin :: "rpc_command \<Rightarrow> bool" where
  "is_admin (AddProviderCommand _) = True"
| "is_admin (SetNodesCommand _ _) = True"
| "is_admin ListProvidersCommand = True"
| "is_admin _ = False"

text \<open>One command at a time: the reads of a lookup all see the same world.\<close>

fun handleCommand ::
  "'e hilt \<Rightarrow> rpc_draws \<Rightarrow> did \<Rightarrow> rpc_command \<Rightarrow> 'e Policy_Service.world \<Rightarrow> (receipt \<times> 'e Policy_Service.world) option" where
  "handleCommand H D issuer (AuthorizeCommand req) st = Some (NewAuthorizeRequestHandler H D issuer req st, st)"
| "handleCommand H D issuer (CreateCommand req) st = NewCreateBucketHandler H D issuer req st"
| "handleCommand H D issuer (DeleteCommand req) st = NewDeleteBucketHandler H D issuer req st"
| "handleCommand H D issuer (ListCommand req) st = Some (NewListBucketsHandler H D issuer req st, st)"
| "handleCommand H D issuer (InfoCommand nm key) st =
     map_option (\<lambda>r. (r, st)) (NewBucketInfoHandler H (\<lambda>_. st) issuer nm key)"
| "handleCommand H D issuer (PolicyCommand req body) st = Some (NewPolicyHandler H D issuer req body st)"
| "handleCommand H D issuer (AddProviderCommand args) st = Some (NewAddProviderHandler H D args st)"
| "handleCommand H D issuer (SetNodesCommand prov nodes) st = Some (NewSetProviderNodesHandler H D prov nodes st)"
| "handleCommand H D issuer ListProvidersCommand st = Some (NewListProvidersHandler st, st)"

text \<open>The guards of a group of routes: the first that records a failure answers.\<close>

fun firstFailure :: "(did \<Rightarrow> did \<Rightarrow> err option) list \<Rightarrow> did \<Rightarrow> did \<Rightarrow> err option" where
  "firstFailure [] issuer subject = None"
| "firstFailure (g # gs) issuer subject =
     (case g issuer subject of Some e \<Rightarrow> Some e | None \<Rightarrow> firstFailure gs issuer subject)"

definition NewUCANServer ::
  "'e hilt \<Rightarrow> rpc_draws \<Rightarrow> did \<Rightarrow> did \<Rightarrow> rpc_command \<Rightarrow> 'e Policy_Service.world \<Rightarrow> (receipt \<times> 'e Policy_Service.world) option" where
  "NewUCANServer H D issuer subject cmd st =
     (case firstFailure [if is_admin cmd then h_OnlyIssuer H (h_ID H) else h_NotSelfSigned H, h_OnlySubject H (h_ID H)]
             issuer subject of
        Some e \<Rightarrow> Some (Failure (Refused e), st)
      | None \<Rightarrow> handleCommand H D issuer cmd st)"

end
