(* ===== verification/Frames.thy ===== *)
theory Frames
  imports Bucket_Policy_Requests
begin

text \<open>
  What the writes leave alone. A write of keys, principals or policies touches the delegations
  and, of the registries, the keys alone, which it can only remove: the relation \<open>lesser\<close>.
\<close>

definition lesser :: "dlg_store \<times> 'e backend \<Rightarrow> dlg_store \<times> 'e backend \<Rightarrow> bool" where
  "lesser sw sw' \<longleftrightarrow>
     (let (ds, w) = sw; (ds', w') = sw' in
      (dlgs_ok (byAudience ds) \<longrightarrow> dlgs_ok (byAudience ds')) \<and> x_tenants w' = x_tenants w \<and>
      x_providers w' = x_providers w \<and> x_buckets w' = x_buckets w \<and> (\<forall>k. map_of (x_keys w) k = None \<longrightarrow> map_of (x_keys w') k = None))"

lemma lesser_refl [simp]: "lesser sw sw"
  by (simp add: lesser_def split: prod.split)

lemma lesser_trans: "lesser s s' \<Longrightarrow> lesser s' s'' \<Longrightarrow> lesser s s''"
  by (auto simp: lesser_def split: prod.splits)

lemma lesser_beyond: "beyond w w' \<Longrightarrow> lesser (ds, w) (ds, w')"
  using beyond_sel[of w w'] by (simp add: lesser_def)

lemma lesser_vault [simp]: "lesser sw (ds, w\<lparr>x_vault := v\<rparr>) \<longleftrightarrow> lesser sw (ds, w)"
  by (simp add: lesser_def split: prod.split)

lemma lesser_key_Delete: "lesser sw (ds, w) \<Longrightarrow> lesser sw (ds, w\<lparr>x_keys := key_Delete k (x_keys w)\<rparr>)"
  by (auto simp: lesser_def key_Delete_def split: prod.split)

lemma lesser_fold_key_Delete:
  "lesser sw (ds, w) \<Longrightarrow> lesser sw (ds, w\<lparr>x_keys := fold (\<lambda>key. key_Delete (k_ID key)) keys (x_keys w)\<rparr>)"
  by (auto simp: lesser_def fold_key_Delete split: prod.split if_splits)

lemma lesser_DeleteByAudience: "DeleteByAudience a ds = (r, ds') \<Longrightarrow> lesser (ds, w) (ds', w)"
  by (auto simp: lesser_def DeleteByAudience_def dlgs_ok_delete split: sum.splits)

lemma replace_lesser:
  assumes keep: "\<And>cur x y. nxt cur w = (x, y) \<Longrightarrow> lesser (ds, w) (ds, y)"
    and run: "replace auds sel nxt checkR (ds, w) = (r, sw')"
  shows "lesser (ds, w) sw'"
proof (cases "holdWrites ds")
  case (Inl e)
  with run show ?thesis by (simp add: replace_def)
next
  case (Inr u)
  obtain x y where n: "nxt (currentOf sel auds ds) w = (x, y)" by force
  have "lesser (ds, y) (writeLoop sel R auds ds, y)" for R
    using writeLoop_ok[of ds sel R auds] by (simp add: lesser_def)
  with lesser_trans[OF keep[OF n]] keep[OF n] run Inr n show ?thesis
    by (auto simp: replace_def split: sum.splits)
qed

lemma Replace_lesser:
  assumes "\<And>cur x y. nxt cur w = (x, y) \<Longrightarrow> lesser (ds, w) (ds, y)"
  shows "Replace auds nxt (ds, w) = (r, sw') \<Longrightarrow> lesser (ds, w) sw'"
    and "ReplaceOver auds b nxt (ds, w) = (r, sw') \<Longrightarrow> lesser (ds, w) sw'"
proof -
  note rule = replace_lesser[where ds = ds and w = w and r = r and sw' = sw']
  show "Replace auds nxt (ds, w) = (r, sw') \<Longrightarrow> lesser (ds, w) sw'"
    unfolding Replace_def by (rule rule) (rule assms)
  show "ReplaceOver auds b nxt (ds, w) = (r, sw') \<Longrightarrow> lesser (ds, w) sw'"
    unfolding ReplaceOver_def by (cases "b = Undef") (auto intro: rule[OF assms])
qed

lemma publish_lesser: "PublishRevocations R now issuer dels w = (r, w') \<Longrightarrow> lesser (ds, w) (ds, w')"
  by (rule lesser_beyond) (rule PublishRevocations_beyond)

lemma next_lesser:
  "deleteNext R now ten key cur w = (x, y) \<Longrightarrow> lesser (ds, w) (ds, y)"
  "removeNext R now keys issuer cur w = (x, y) \<Longrightarrow> lesser (ds, w) (ds, y)"
  "revokeNext R now keys issuer cur w = (x, y) \<Longrightarrow> lesser (ds, w) (ds, y)"
  "rotateNext R now ent ten b actions keys issuer cur w = (x, y) \<Longrightarrow> lesser (ds, w) (ds, y)"
  by (auto simp: deleteNext_def removeNext_def split: if_splits sum.splits prod.splits
    intro: lesser_key_Delete lesser_fold_key_Delete dest: publish_lesser)
     (erule lesser_beyond[OF revokeNext_beyond] lesser_beyond[OF rotateNext_beyond])+

lemma replacements_lesser:
  "Replace auds (deleteNext R now ten key) (ds, w) = (r, sw') \<Longrightarrow> lesser (ds, w) sw'"
  "Replace auds (removeNext R now keys issuer) (ds, w) = (r, sw') \<Longrightarrow> lesser (ds, w) sw'"
  "Replace auds (revokeNext R now keys issuer) (ds, w) = (r, sw') \<Longrightarrow> lesser (ds, w) sw'"
  "ReplaceOver auds b (rotateNext R now ent ten b' actions keys issuer) (ds, w) = (r, sw') \<Longrightarrow> lesser (ds, w) sw'"
  by (erule Replace_lesser[rotated], erule next_lesser)+

lemma Revoke_lesser: "alone R \<Longrightarrow> Revoke R now ten p (ds, w) = (r, sw') \<Longrightarrow> lesser (ds, w) sw'"
  by (auto simp: Revoke_def alone_def split: sum.splits prod.splits option.splits dest: replacements_lesser)

lemma Rotate_lesser: "alone R \<Longrightarrow> Rotate R now ent ten b actions (ds, w) = (r, sw') \<Longrightarrow> lesser (ds, w) sw'"
  by (auto simp: Rotate_def alone_def split: sum.splits prod.splits option.splits dest: replacements_lesser)

lemma removeKeys_lesser: "alone R \<Longrightarrow> removeKeys R now ten p (ds, w) = (r, sw') \<Longrightarrow> lesser (ds, w) sw'"
  by (auto simp: removeKeys_def Let_def alone_def dropSecrets_def split: if_splits sum.splits prod.splits dest: replacements_lesser)

subsection \<open>Keys and principals\<close>

lemma DeleteKey_lesser:
  assumes "alone R" and "DeleteKey R now ext k (ps, pol, ds, w) = (r, ps', pol', ds', w')"
  shows "lesser (ds, w) (ds', w')"
  using assms
proof (cases rule: DeleteKey_cases)
  case (found ident rec q w1)
  from replacements_lesser(1)[OF found(4)] found(7) show ?thesis by simp
qed simp

lemma removeSteps_lesser:
  assumes "alone (v_rotator S)" and run: "removeSteps S now ten p (ps, pol, ds, w) = (r, ps', pol', ds', w')"
  shows "lesser (ds, w) (ds', w')"
proof -
  obtain q1 ds1 w1 where rv: "Revoke (v_rotator S) now ten p (ds, w) = (q1, ds1, w1)" by (rule prod_cases3)
  obtain q2 pol2 where st: "stripFromPolicies (v_policy S) (hasBucket w1) now ten p pol = (q2, pol2)" by force
  have "(ds', w') = (ds1, w1) \<or>
      Tombstone ten p (Some (removePrincipal S now ten p)) (ps, pol2, ds1, w1) = (r, ps', pol', ds', w')"
    using run rv st by (cases q1; cases q2) (simp_all add: removeSteps_def)
  then have "lesser (ds1, w1) (ds', w')"
  proof
    assume "Tombstone ten p (Some (removePrincipal S now ten p)) (ps, pol2, ds1, w1) = (r, ps', pol', ds', w')"
    then show ?thesis
    proof (cases rule: Tombstone_cases)
      case (ran ps3 q3 ps4)
      from ran(3) show ?thesis
        by (cases rule: removePrincipal_cases) (use removeKeys_lesser[OF assms(1)] in auto)
    qed simp_all
  qed simp
  with Revoke_lesser[OF assms(1) rv] show ?thesis by (rule lesser_trans)
qed

lemma DeletePrincipal_lesser:
  assumes "alone (v_rotator S)" and "DeletePrincipal S alive now ext p (ps, pol, ds, w) = (r, ps', pol', ds', w')"
  shows "lesser (ds, w) (ds', w')"
proof (cases "tenantOf (x_tenants w) ext")
  case (Inl e)
  with assms(2) show ?thesis by (simp add: DeletePrincipal_def)
next
  case (Inr ten)
  obtain q ps1 pol1 ds1 w1 where s: "removeSteps S now ten p (ps, pol, ds, w) = (q, ps1, pol1, ds1, w1)"
    by (rule prod_cases5)
  have "(ds', w') = (ds1, w1)" using assms(2) s Inr by (cases q) (simp_all add: DeletePrincipal_def)
  with removeSteps_lesser[OF assms(1) s] show ?thesis by simp
qed

subsection \<open>Policies\<close>

lemma rotateChanged_lesser:
  assumes "alone (v_rotator S)" and run: "rotateChanged S now ent ten b old new principals (ps, ds, w) = (r, ps', ds', w')"
  shows "lesser (ds, w) (ds', w')"
proof -
  let ?as = "Changed (v_policy S) old new principals"
  let ?rot = "onRest (Rotate (v_rotator S) now ent ten b (map (\<lambda>p. (p, Effective (v_policy S) new p)) ?as))"
  have step: "lesser (ds, w) (ds1, w1)" if "?rot (ps1, ds, w) = (q, ps2, ds1, w1)" for ps1 q ps2 ds1 w1
    using that by (auto simp: onRest_def split: prod.splits dest: Rotate_lesser[OF assms(1)])
  show ?thesis
  proof (cases "?as = []")
    case True
    with run show ?thesis by (simp add: rotateChanged_def)
  next
    case False
    with run have "withRows (liveRows ps ten ?as) ?rot (ps, ds, w) = (r, ps', ds', w')"
      by (simp add: rotateChanged_def WithLock_def Let_def)
    then show ?thesis using step by (auto simp: withRows_def Let_def split: sum.splits prod.splits)
  qed
qed

lemma policy_writes_lesser:
  assumes "alone (v_rotator S)"
  shows "WritePolicy S alive now ent ten b nm doc opts (ps, pol, ds, w) = (r, ps', pol', ds', w') \<Longrightarrow> lesser (ds, w) (ds', w')"
    and "RemovePolicy S alive now ent ten b tag (ps, pol, ds, w) = (q, ps', pol', ds', w') \<Longrightarrow> lesser (ds, w) (ds', w')"
proof -
  note rot = rotateChanged_lesser[OF assms]
  have on: "lesser (ds, w) (ds1, w1)" if "onWrite S now ent ten b doc old (ps, ds, w) = (x, ps1, ds1, w1)" for old x ps1 ds1 w1
    using that rot by (auto simp: onWrite_def Let_def split: if_splits)
  have put: "lesser (ds, w) (ds1, w1)"
    if "policy_Put L has now i (Some (onWrite S now ent ten b doc)) (pol, ps, ds, w) = (x, pol1, ps1, ds1, w1)" for L has i x pol1 ps1 ds1 w1
    using that by (auto simp: policy_Put_def split: if_splits sum.splits prod.splits option.splits dest!: on)
  show "lesser (ds, w) (ds', w')"
    if "WritePolicy S alive now ent ten b nm doc opts (ps, pol, ds, w) = (r, ps', pol', ds', w')"
    using that by (auto simp: WritePolicy_def onPolicies_def split: sum.splits prod.splits dest!: put)
  have del: "lesser (ds, w) (ds1, w1)"
    if "policy_Delete b t (Some (\<lambda>old s. rotateChanged S now ent ten b (Some (pol_Policy old)) None (ListIDsByTenant (fst s) ten) s))
        (pol, ps, ds, w) = (x, pol1, ps1, ds1, w1)" for t x pol1 ps1 ds1 w1
    using that by (auto simp: policy_Delete_def split: if_splits sum.splits prod.splits option.splits dest!: rot)
  show "lesser (ds, w) (ds', w')"
    if "RemovePolicy S alive now ent ten b tag (ps, pol, ds, w) = (q, ps', pol', ds', w')"
    using that by (auto simp: RemovePolicy_def onPolicies_def split: sum.splits prod.splits dest!: del)
qed

lemma BucketPolicy_lesser:
  assumes "alone (bs_rotator S)" and "BucketPolicy S alive clock ent issuer req body (ps, pol, ds, w) = (r, ps', pol', ds', w')"
  shows "lesser (ds, w) (ds', w')"
  using assms(2)
  by (auto simp: BucketPolicy_def putPolicy_def deletePolicy_def split: sum.splits option.splits operation.splits if_splits prod.splits
    dest!: policy_writes_lesser[OF assms(1)])

subsection \<open>The removal of a tenant\<close>

text \<open>A removal takes rows of the other registries too; it adds none.\<close>

definition fewer :: "dlg_store \<times> 'e backend \<Rightarrow> dlg_store \<times> 'e backend \<Rightarrow> bool" where
  "fewer sw sw' \<longleftrightarrow>
     (let (ds, w) = sw; (ds', w') = sw' in
      (dlgs_ok (byAudience ds) \<longrightarrow> dlgs_ok (byAudience ds')) \<and> x_providers w' = x_providers w \<and>
      (\<forall>t. map_of (x_tenants w) t = None \<longrightarrow> map_of (x_tenants w') t = None) \<and>
      (\<forall>k. map_of (x_keys w) k = None \<longrightarrow> map_of (x_keys w') k = None))"

lemma lesser_fewer: "lesser sw sw' \<Longrightarrow> fewer sw sw'"
  by (auto simp: lesser_def fewer_def)

lemma fewer_trans: "fewer s s' \<Longrightarrow> fewer s' s'' \<Longrightarrow> fewer s s''"
  by (auto simp: fewer_def split: prod.splits)

lemma onExt_lesser: "onExt f w = (r, w') \<Longrightarrow> lesser (ds, w) (ds, w')"
  by (rule lesser_beyond) (rule onExt_beyond)

lemma deactivateTenantDID_lesser: "deactivateTenantDID S path ten op w = (r, w') \<Longrightarrow> lesser (ds, w) (ds, w')"
  by (auto simp: deactivateTenantDID_def split: sum.splits option.splits dest: onExt_lesser)

lemma revokeKeyDelegations_lesser: "alone R \<Longrightarrow> revokeKeyDelegations R now ten keys (ds, w) = (r, sw') \<Longrightarrow> lesser (ds, w) sw'"
  by (auto simp: revokeKeyDelegations_def alone_def split: if_splits sum.splits dest: replacements_lesser)

lemma retireDID_lesser:
  assumes "alone (s_rotator S)" and run: "retireDID S now ten keys (ds, w) = (r, ds', w')"
  shows "lesser (ds, w) (ds', w')"
proof -
  obtain lst w1 where l: "onExt (g_Last S ten) w = (lst, w1)" by force
  obtain q ds2 w2 where v: "revokeKeyDelegations (s_rotator S) now ten keys (ds, w1) = (q, ds2, w2)" by (rule prod_cases3)
  note one = onExt_lesser[OF l, of ds] and two = revokeKeyDelegations_lesser[OF assms(1) v]
  have "lesser (ds, w1) (ds', w')"
  proof (cases lst)
    case (LastOperation op)
    obtain q3 w3 where d: "deactivateTenantDID S (TenantKeyPath ten) ten op w2 = (q3, w3)" by force
    have "(ds', w') = (ds2, w2) \<or> (ds', w') = (ds2, w3)"
      using run l v d LastOperation by (cases q; cases q3) (simp_all add: retireDID_def)
    then show ?thesis using two lesser_trans[OF two deactivateTenantDID_lesser[OF d]] by auto
  qed (use run l in \<open>simp_all add: retireDID_def\<close>)
  with one show ?thesis by (rule lesser_trans)
qed

lemma dropKeys_lesser: "dropKeys ten keys (ds, w) = (r, sw') \<Longrightarrow> lesser (ds, w) sw'"
proof (induction keys arbitrary: ds w)
  case (Cons ak keys)
  obtain q ds1 where d: "DeleteByAudience (k_ID ak) ds = (q, ds1)" by force
  let ?w = "w\<lparr>x_vault := vault_Delete (AccessKeyPath ten (k_ID ak)) (x_vault w), x_keys := key_Delete (k_ID ak) (x_keys w)\<rparr>"
  note one = lesser_DeleteByAudience[OF d, of w]
  have two: "lesser (ds, w) (ds1, ?w)"
    using lesser_key_Delete[of "(ds, w)" ds1 "w\<lparr>x_vault := vault_Delete (AccessKeyPath ten (k_ID ak)) (x_vault w)\<rparr>" "k_ID ak"] one
    by simp
  show ?case
  proof (cases q)
    case (Inl e)
    with Cons.prems d one show ?thesis by simp
  next
    case (Inr u)
    with Cons.prems d have "dropKeys ten keys (ds1, ?w) = (r, sw')" by simp
    from lesser_trans[OF two Cons.IH[OF this]] show ?thesis .
  qed
qed simp

lemma cascade_fewer:
  assumes "cascade ten (wk, ps, pol, ds, w) = Some (r, wk', ps', pol', ds', w')"
  shows "fewer (ds, w) (ds', w')"
proof -
  have drop: "x_providers (snd (dropWraps t s)) = x_providers (snd s)" "x_tenants (snd (dropWraps t s)) = x_tenants (snd s)"
    "x_keys (snd (dropWraps t s)) = x_keys (snd s)" for t and s :: "'a site"
    by (simp_all add: dropWraps_def)
  have del: "dlgs_ok (byAudience ds1)" if "DeleteByAudience ten ds = (q, ds1)" "dlgs_ok (byAudience ds)" for q ds1
    using that lesser_DeleteByAudience[OF that(1), of undefined] by (simp add: lesser_def)
  show ?thesis
    using assms drop[of ten "(wk, w)"]
    by (auto simp: cascade_def fewer_def Let_def tenant_Delete_def split: sum.splits option.splits prod.splits dest: del)
qed

lemma DeleteTenant_fewer:
  assumes "alone (s_rotator S)" and run: "DeleteTenant S now ext (wk, ps, pol, ds, w) = Some (r, wk', ps', pol', ds', w')"
  shows "fewer (ds, w) (ds', w')"
proof (cases "tenant_GetByExternalID (x_tenants w) ext")
  case (Inl e)
  with run lesser_fewer[OF lesser_refl] show ?thesis by (auto simp: DeleteTenant_def split: if_splits)
next
  case (Inr rec)
  let ?ten = "t_ID rec" and ?keys = "key_ListByTenant (x_keys w) (t_ID rec) allKeys"
  obtain q1 ds1 w1 where rt: "retireDID S now ?ten ?keys (ds, w) = (q1, ds1, w1)" by (rule prod_cases3)
  obtain q2 ds2 w2 where dk: "dropKeys ?ten ?keys (ds1, w1) = (q2, ds2, w2)" by (rule prod_cases3)
  note one = lesser_fewer[OF retireDID_lesser[OF assms(1) rt]] and two = lesser_fewer[OF dropKeys_lesser[OF dk]]
  show ?thesis
  proof (cases "t_Status rec = Disabled")
    case False
    with run Inr lesser_fewer[OF lesser_refl] show ?thesis by (simp add: DeleteTenant_def)
  next
    case True
    with run Inr rt dk have "(ds', w') = (ds1, w1) \<or> (ds', w') = (ds2, w2) \<or>
        cascade ?ten (wk, ps, pol, ds2, w2) = Some (r, wk', ps', pol', ds', w')"
      by (cases q1; cases q2) (simp_all add: DeleteTenant_def)
    with one fewer_trans[OF one two] cascade_fewer fewer_trans[OF fewer_trans[OF one two]] show ?thesis by blast
  qed
qed

end
