(* ===== verification/Api_Safety.thy ===== *)
theory Api_Safety
  imports Http_Api Tenant_Removal
begin

text \<open>
  What the tenant management API promises of any request: who is let in, what a refused request
  leaves, and the state that every request keeps consistent.
\<close>

subsection \<open>Statuses\<close>

named_theorems http_errors

lemmas [http_errors] = tenantHTTPError_def principalHTTPError_def policyHTTPError_def accessKeyHTTPError_def
  metricsHTTPError_def httpError_def internalError_def badBody_def

lemma never_unauthorized:
  "statusCode (tenantHTTPError e) \<noteq> 401" "statusCode (principalHTTPError e) \<noteq> 401"
  "statusCode (policyHTTPError e) \<noteq> 401" "statusCode (accessKeyHTTPError e) \<noteq> 401"
  "statusCode (metricsHTTPError N e) \<noteq> 401" "statusCode badBody \<noteq> 401"
  by (simp_all add: http_errors split: option.split)

lemma handler_never_unauthorized:
  "handler A D q c st = Some (resp, st') \<Longrightarrow> statusCode resp \<noteq> 401"
  by (cases c) (auto simp: HandleProvisionTenant_def HandleGetTenant_def HandleUpdateTenantStatus_def HandleDeleteTenant_def
    HandleCreateAccessKey_def HandleListAccessKeys_def HandleGetAccessKey_def HandleDeleteAccessKey_def HandleTenantMetrics_def
    HandleBucketMetrics_def HandleCreatePrincipal_def HandleListPrincipals_def HandleGetPrincipal_def HandleDeletePrincipal_def
    HandlePrincipalPolicies_def HandlePrincipalAccess_def Let_def created_or_ok_def never_unauthorized
    split: prod.splits sum.splits option.splits if_splits)


subsection \<open>Requests that change nothing\<close>

fun is_read :: "api_call \<Rightarrow> bool" where
  "is_read (GetTenantRoute _) = True"
| "is_read (ListAccessKeysRoute _) = True"
| "is_read (GetAccessKeyRoute _ _) = True"
| "is_read (TenantMetricsRoute _) = True"
| "is_read (BucketMetricsRoute _ _) = True"
| "is_read (ListPrincipalsRoute _) = True"
| "is_read (GetPrincipalRoute _ _) = True"
| "is_read (PrincipalPoliciesRoute _ _) = True"
| "is_read (PrincipalAccessRoute _ _) = True"
| "is_read _ = False"

lemma handler_read: "is_read c \<Longrightarrow> handler A D q c st = Some (resp, st') \<Longrightarrow> st' = st"
  by (cases c) auto

text \<open>Nobody is recorded under the id.\<close>

abbreviation unknownTenant :: "string \<Rightarrow> 'e tenant_world \<Rightarrow> bool" where
  "unknownTenant t st \<equiv> GetTenant (siteOf st) t = Inl (Api ErrTenantNotFound)"

lemma unknownTenant_row:
  assumes "unknownTenant t (wk, ps, pol, ds, w)"
  shows "tenant_GetByExternalID (x_tenants w) t = Inl (Store ErrRecordNotFound)"
proof (cases "tenant_GetByExternalID (x_tenants w) t")
  case (Inl e)
  then have "e = Store ErrRecordNotFound" unfolding tenant_GetByExternalID_def by (rule findRecord_set(3))
  with Inl show ?thesis by simp
qed (use assms in \<open>simp add: GetTenant_def\<close>)

lemma keyArgs_invalid: "keyArgs L nm perms bns prin = Inl e \<Longrightarrow> statusCode (accessKeyHTTPError e :: 'b response) = 422"
  by (auto simp: keyArgs_def http_errors split: if_splits option.splits)

lemma ParseRange_bad: "ParseRange from to window = Inl e \<Longrightarrow> statusCode (metricsHTTPError N e :: 'b response) = 400"
  by (auto simp: ParseRange_def http_errors Let_def split: if_splits option.splits prod.splits)

lemma handler_unknownTenant:
  assumes "unknownTenant (tenantParam c) st" and "\<forall>t. c \<noteq> ProvisionTenantRoute t"
  shows "\<exists>resp. handler A D q c st = Some (resp, st) \<and>
    (if \<exists>t. c = DeleteTenantRoute t then resp = Response 204 NoContent else statusCode resp \<in> {400, 404, 422})"
proof -
  obtain wk ps pol ds w where st: "st = (wk, ps, pol, ds, w)" by (rule prod_cases5)
  note row = unknownTenant_row[OF assms(1)[unfolded st]]
  then have ten: "tenantOf (x_tenants w) (tenantParam c) = Inl (Api ErrTenantNotFound)"
    "metricsTenant (x_tenants w) (tenantParam c) = Inl (Api ErrTenantNotFound)"
    by (simp_all add: tenantOf_def metricsTenant_def)
  show ?thesis
  proof (cases c)
    case (UpdateTenantStatusRoute t b)
    with row st show ?thesis
      by (auto simp: HandleUpdateTenantStatus_def SetTenantStatus_def onSite_def http_errors split: option.split)
  next
    case (CreateAccessKeyRoute t b)
    show ?thesis
    proof (cases b)
      case None
      with CreateAccessKeyRoute show ?thesis by (simp add: HandleCreateAccessKey_def badBody_def)
    next
      case (Some r)
      with CreateAccessKeyRoute ten st show ?thesis
        by (cases "keyArgs (v_policy (a_policies A)) (kr_Name r) (kr_Permissions r) (kr_Buckets r) (kr_PrincipalID r)")
           (auto simp: HandleCreateAccessKey_def CreateKey_def keyArgs_invalid, simp_all add: http_errors)
    qed
  next
    case (TenantMetricsRoute t)
    with ten st show ?thesis
      by (cases "metricsQuery q")
         (auto simp: HandleTenantMetrics_def TenantUsage_def ParseRange_bad metricsQuery_def, simp_all add: http_errors)
  next
    case (BucketMetricsRoute t b)
    with ten st show ?thesis
      by (cases "metricsQuery q")
         (auto simp: HandleBucketMetrics_def BucketUsage_def ParseRange_bad metricsQuery_def, simp_all add: http_errors)
  next
    case (CreatePrincipalRoute t p)
    with ten st show ?thesis by (auto simp: HandleCreatePrincipal_def CreatePrincipal_def http_errors)
  qed (use assms row ten st in \<open>simp_all add: HandleGetTenant_def GetTenant_def HandleDeleteTenant_def DeleteTenant_def
    HandleListAccessKeys_def ListKeys_def HandleGetAccessKey_def GetKey_def HandleDeleteAccessKey_def DeleteKey_def
    HandleListPrincipals_def ListPrincipals_def HandleGetPrincipal_def GetPrincipal_def HandleDeletePrincipal_def
    DeletePrincipal_def HandlePrincipalPolicies_def HandlePrincipalAccess_def PrincipalAccess_def PoliciesByPrincipal_def
    principalPolicies_def http_errors\<close>)
qed

subsection \<open>The partner key\<close>

lemma bearer_length [simp]: "length bearerPrefix = 7"
  by (simp add: bearerPrefix_def)

definition presents :: "string list \<Rightarrow> string \<Rightarrow> bool" where
  "presents ks auth \<longleftrightarrow> (\<exists>scheme key. auth = scheme @ key \<and> length scheme = 7 \<and> equalFold scheme bearerPrefix \<and>
     key \<in> set ks \<and> trimSpace key \<noteq> [])"

lemma PartnerKeyAuth_presents: "PartnerKeyAuth ks auth \<longleftrightarrow> presents ks auth"
proof
  assume "PartnerKeyAuth ks auth"
  then have a: "\<not> length auth \<le> 7" "equalFold (take 7 auth) bearerPrefix" "drop 7 auth \<in> set (partnerKeys ks)"
    by (auto simp: PartnerKeyAuth_def Let_def list_ex_iff split: if_splits)
  then show "presents ks auth"
    unfolding presents_def by (intro exI[of _ "take 7 auth"] exI[of _ "drop 7 auth"]) (simp add: partnerKeys_def)
next
  assume "presents ks auth"
  then obtain scheme key where k: "auth = scheme @ key" "length scheme = 7" "equalFold scheme bearerPrefix"
    "key \<in> set ks" "trimSpace key \<noteq> []" by (auto simp: presents_def)
  then have "key \<noteq> []" by (auto simp: trimSpace_def)
  moreover have "key \<in> set (partnerKeys ks)" using k by (simp add: partnerKeys_def)
  ultimately show "PartnerKeyAuth ks auth"
    using k by (auto simp: PartnerKeyAuth_def Let_def list_ex_iff)
qed


subsection \<open>What each write leaves\<close>

text \<open>The rows of tenants and buckets, which keys, principals and revocations leave alone.\<close>

abbreviation roots :: "'e backend \<Rightarrow> tenants \<times> buckets" where
  "roots w \<equiv> (x_tenants w, x_buckets w)"

lemma beyond_roots: "beyond w w' \<Longrightarrow> roots w' = roots w"
  using beyond_sel by blast

lemma replace_keeps:
  assumes keeps: "\<And>cur x y. next cur w = (x, y) \<Longrightarrow> f y = f w"
    and run: "replace auds sel next checkR (s, w) = (r, s', w')"
  shows "f w' = f w"
proof (cases "holdWrites s")
  case (Inl e)
  with run show ?thesis by (simp add: replace_def)
next
  case (Inr u)
  obtain x y where n: "next (currentOf sel auds s) w = (x, y)" by force
  with run Inr have "w' = y \<or> w' = w" by (auto simp: replace_def split: sum.splits)
  with keeps[OF n] show ?thesis by auto
qed

lemma Replace_keeps:
  assumes "\<And>cur x y. next cur w = (x, y) \<Longrightarrow> f y = f w" and "Replace auds next (s, w) = (r, s', w')"
  shows "f w' = f w"
  using assms(2) unfolding Replace_def by (rule replace_keeps[where f = f, rotated]) (rule assms(1))

lemma PublishRevocations_roots: "PublishRevocations R now issuer dels w = (r, w') \<Longrightarrow> roots w' = roots w"
  by (rule beyond_roots) (rule PublishRevocations_beyond)

lemma deleteNext_roots: "deleteNext R now ten key cur w = (x, y) \<Longrightarrow> roots y = roots w"
  by (auto simp: deleteNext_def split: if_splits sum.splits prod.splits dest: PublishRevocations_roots)

lemma removeNext_roots: "removeNext R now keys issuer cur w = (x, y) \<Longrightarrow> roots y = roots w"
  by (auto simp: removeNext_def split: sum.splits prod.splits dest: PublishRevocations_roots)

lemma DeleteKey_roots:
  assumes "alone R" and "DeleteKey R now ext k (ps, pol, ds, w) = (r, ps', pol', ds', w')"
  shows "roots w' = roots w"
  using assms
proof (cases rule: DeleteKey_cases)
  case (found ident rec q w1)
  have "roots w1 = roots w" by (rule Replace_keeps[OF _ found(4)]) (rule deleteNext_roots)
  with found(7) show ?thesis by simp
qed simp

lemma removeKeys_roots:
  assumes "alone R" and "removeKeys R now ten p (ds, w) = (r, ds', w')"
  shows "roots w' = roots w"
proof -
  let ?keys = "key_ListByTenant (x_keys w) ten (withPrincipal p)"
  consider "w' = w" | issuer q ds1 w1 where "Replace (audiences ?keys) (removeNext R now ?keys issuer) (ds, w) = (q, ds1, w1)"
      "w' = w1 \<or> w' = dropSecrets ten ?keys w1"
    using assms by (auto simp: removeKeys_def Let_def alone_def split: if_splits sum.splits prod.splits)
  then show ?thesis
  proof cases
    case 2
    have "roots w1 = roots w" by (rule Replace_keeps[OF _ 2(1)]) (rule removeNext_roots)
    with 2(2) show ?thesis by (auto simp: dropSecrets_def)
  qed simp
qed

lemma DeletePrincipal_roots:
  assumes "env_ok (v_policy S) (v_rotator S) V" and "world_ok (v_policy S) V (ps, pol, ds, w)"
    and "DeletePrincipal S alive now ext p (ps, pol, ds, w) = (r, ps', pol', ds', w')"
  shows "roots w' = roots w"
proof (cases "tenantOf (x_tenants w) ext")
  case (Inl e)
  with assms(3) show ?thesis by (simp add: DeletePrincipal_def)
next
  case (Inr ten)
  obtain q ps1 pol1 ds1 w1 where s: "removeSteps S now ten p (ps, pol, ds, w) = (q, ps1, pol1, ds1, w1)"
    by (rule prod_cases5)
  have w': "w' = w1" using assms(3) s Inr by (cases q) (simp_all add: DeletePrincipal_def)
  obtain q1 ds2 w2 where rv: "Revoke (v_rotator S) now ten p (ds, w) = (q1, ds2, w2)" by (rule prod_cases3)
  have w2: "roots w2 = roots w"
    by (rule beyond_roots[OF Revoke_effect(1)[OF assms(1) _ _ rv]]) (use world_okD[OF assms(2)] in simp_all)
  obtain q2 pol2 where st: "stripFromPolicies (v_policy S) (hasBucket w2) now ten p pol = (q2, pol2)" by force
  have "w1 = w2 \<or> Tombstone ten p (Some (removePrincipal S now ten p)) (ps, pol2, ds2, w2) = (q, ps1, pol1, ds1, w1)"
    using s rv st by (cases q1; cases q2) (simp_all add: removeSteps_def)
  then have "roots w1 = roots w2"
  proof
    assume "Tombstone ten p (Some (removePrincipal S now ten p)) (ps, pol2, ds2, w2) = (q, ps1, pol1, ds1, w1)"
    then show ?thesis
    proof (cases rule: Tombstone_cases)
      case (ran ps3 q3 ps4)
      from ran(3) show ?thesis
        by (cases rule: removePrincipal_cases) (use removeKeys_roots[OF env_okD(2)[OF assms(1)]] in auto)
    qed simp_all
  qed simp
  with w2 w' show ?thesis by simp
qed


subsection \<open>Provisioning keeps the rest\<close>

definition rest :: "'e backend \<Rightarrow> buckets \<times> access_keys \<times> providers" where
  "rest w = (x_buckets w, x_keys w, x_providers w)"

lemma rest_updates [simp]:
  "rest (w\<lparr>x_vault := v\<rparr>) = rest w" "rest (w\<lparr>x_tenants := t\<rparr>) = rest w" "rest (w\<lparr>x_ext := e\<rparr>) = rest w"
  by (simp_all add: rest_def)

lemma beyond_rest: "beyond w w' \<Longrightarrow> rest w' = rest w"
  using beyond_sel[of w w'] by (simp add: rest_def)

lemma cleanups_rest:
  "rest (snd (runCleanups [cleanupKey a, cleanupKey b] s)) = rest (snd s)"
  "rest (snd (runCleanups [cleanupKey a, cleanupKey b, cleanupWraps t] s)) = rest (snd s)"
  by (simp_all add: runCleanups_def cleanupKey_def cleanupWraps_def)

lemma recordTenant_rest:
  assumes "recordTenant S now ext ten wrap [cleanupKey a, cleanupKey b] s = (r, s')"
  shows "rest (snd s') = rest (snd s)"
proof -
  obtain q wk where add: "wrap_Add now \<lparr>wi_Tenant = ten, wi_Version = 1, wi_KID = wk_String (s_formats S) wrap, wi_Epoch = 0,
             wi_VaultKey = WrapVaultKey ten 1\<rparr> (fst s) = (q, wk)" by force
  obtain q2 ts where t: "tenant_Add now ten ext Active (x_tenants (snd s)) = (q2, ts)" by force
  have "rest (snd (snd (recordTenant S now ext ten wrap [cleanupKey a, cleanupKey b] s))) = rest (snd s)"
    unfolding recordTenant_def add t prod.case Let_def
    by (auto simp: cleanups_rest split: sum.split)
  with assms show ?thesis by simp
qed

lemma Provision_rest:
  assumes "g_meanwhile S = (\<lambda>s. s)" and "Provision S now gen wgen ext s = (r, s')"
  shows "rest (snd s') = rest (snd s)"
proof -
  have create: "rest (snd s') = rest (snd s)" if "createTenant S now ext ten genesis bytes wrap s = (r, s')" for ten genesis bytes wrap
  proof -
    let ?s = "writeSecret (WrapVaultKey ten 1) (wk_Bytes (s_formats S) wrap) (writeSecret (TenantKeyPath ten) bytes s)"
    obtain q w where reg: "registerTenant S ext ten genesis (snd ?s) = (q, w)" by force
    have w: "rest w = rest (snd s)" using beyond_rest[OF registerTenant_beyond[OF reg]] by (simp add: writeSecret_def)
    show ?thesis
    proof (cases q)
      case (Inl e)
      then have "s' = runCleanups [cleanupKey (TenantKeyPath ten), cleanupKey (WrapVaultKey ten 1)] (fst ?s, w)"
        using that reg by (simp add: createTenant_def Let_def)
      with w show ?thesis by (simp add: cleanups_rest)
    next
      case (Inr u)
      then have "recordTenant S now ext ten wrap [cleanupKey (TenantKeyPath ten), cleanupKey (WrapVaultKey ten 1)] (fst ?s, w) = (r, s')"
        using that reg assms(1) by (simp add: createTenant_def Let_def)
      with recordTenant_rest[OF this] w show ?thesis by simp
    qed
  qed
  with assms(2) show ?thesis by (auto simp: Provision_def split: sum.splits if_splits option.splits)
qed

text \<open>What a request may draw: a tenant and a key there are no traces of.\<close>

definition fresh_draws :: "'e api_service \<Rightarrow> draws \<Rightarrow> api_call \<Rightarrow> 'e tenant_world \<Rightarrow> bool" where
  "fresh_draws A D c st \<longleftrightarrow>
     (\<forall>bytes wrap ten genesis. generates (a_tenants A) (dr_tenantKey D) (dr_wrapKey D) bytes wrap ten genesis \<longrightarrow>
        ten \<noteq> Undef \<and> ten \<noteq> Did [] \<and> noTrace ten (siteOf st)) \<and>
     (\<forall>ten key bytes. tenantOf (x_tenants (snd (siteOf st))) (tenantParam c) = Inr ten \<and> dr_accessKey D = Some (key, bytes) \<longrightarrow>
        freshKey ten key (snd st))"

lemma Provision_keeps:
  assumes ok: "site_ok s" and m: "g_meanwhile S = (\<lambda>s. s)"
    and fr: "\<forall>bytes wrap ten genesis. generates S gen wgen bytes wrap ten genesis \<longrightarrow> ten \<noteq> Undef \<and> ten \<noteq> Did [] \<and> noTrace ten s"
    and run: "Provision S now gen wgen ext s = (r, s')"
  shows "site_ok s'"
proof -
  consider "s' = s" | bytes wrap ten genesis where "generates S gen wgen bytes wrap ten genesis"
      "createTenant S now ext ten genesis bytes wrap s = (r, s')"
    using run by (auto simp: Provision_def generates_def split: sum.splits if_splits option.splits)
  then show ?thesis
  proof cases
    case 2
    have "isolated S ten" by (simp add: isolated_def m)
    with fr 2(1) createTenant_effect[OF ok _ _ _ _ 2(2)] show ?thesis by blast
  qed (use ok in simp)
qed


subsection \<open>The state every request keeps\<close>

definition api_ok :: "policy_lib \<Rightarrow> dlg set \<Rightarrow> 'e tenant_world \<Rightarrow> bool" where
  "api_ok L V st \<longleftrightarrow>
     (let (wk, ps, pol, ds, w) = st in
      world_ok L V (ps, pol, ds, w) \<and> within L (ps, pol, ds, w) \<and> buckets_ok (x_buckets w) \<and> wraps_ok wk \<and> tenants_ok (x_tenants w))"

text \<open>The services share one policy service; no other request commits while one waits.\<close>

definition api_env :: "'e api_service \<Rightarrow> dlg set \<Rightarrow> bool" where
  "api_env A V \<longleftrightarrow> env_ok (v_policy (a_policies A)) (v_rotator (a_policies A)) V \<and>
     s_rotator (a_tenants A) = v_rotator (a_policies A) \<and> g_meanwhile (a_tenants A) = (\<lambda>s. s)"

lemma tracks_same:
  "rest w' = rest w \<Longrightarrow> tracks rel L (ps, pol, ds, w') \<longleftrightarrow> tracks rel L (ps, pol, ds, w)"
  "rest w' = rest w \<Longrightarrow> world_ok L V (ps, pol, ds, w') \<longleftrightarrow> world_ok L V (ps, pol, ds, w)"
  by (simp_all add: tracks_def world_ok_def rest_def)

lemma pages_end:
  assumes "buckets_ok bs"
  shows "(Collect_pages (bucket_ListByTenant bs (ten, \<lparr>q_IDs = ids, q_Names = [], q_Prefix = pre, q_Provider = Undef,
     q_Limit = None\<rparr>)) = None) = False"
  by (subst bucket_pages.collect_whole[OF assms]) (simp_all add: valid_query_def bucket_limit_def defaultListLimit_def)

lemma names_end:
  assumes "buckets_ok bs"
  shows "(keyBucketNames bs ten ids = None) = False" "(Policy_Service.bucketNames bs ten recs = None) = False"
  by (auto simp: keyBucketNames_def Policy_Service.bucketNames_def pages_end[OF assms] split: option.split sum.split)

lemma reads_end:
  assumes "buckets_ok (x_buckets w)"
  shows "(HandleListAccessKeys A t p (wk, ps, pol, ds, w) = None) = False"
    and "(HandleGetAccessKey A t k (wk, ps, pol, ds, w) = None) = False"
    and "(HandlePrincipalPolicies t p (wk, ps, pol, ds, w) = None) = False"
    and "(HandlePrincipalAccess A t p (wk, ps, pol, ds, w) = None) = False"
    and "(HandleTenantMetrics A D t q (wk, ps, pol, ds, w) = None) = False"
  by (auto simp: HandleListAccessKeys_def ListKeys_def HandleGetAccessKey_def GetKey_def HandlePrincipalPolicies_def
    HandlePrincipalAccess_def PrincipalAccess_def PoliciesByPrincipal_def HandleTenantMetrics_def TenantUsage_def Let_def
    names_end[OF assms] pages_end[OF assms] split: option.splits sum.splits prod.splits)

lemma CreateKey_keeps:
  assumes env: "env_ok (v_policy S) (v_rotator S) V" and ok: "api_ok (v_policy S) V (wk, ps, pol, ds, w)"
    and fr: "\<forall>ten key bytes. tenantOf (x_tenants w) ext = Inr ten \<and> gen = Some (key, bytes) \<longrightarrow> freshKey ten key (ps, pol, ds, w)"
  obtains r st' where "CreateKey S now gen ent ext nm perms bns prin exp (ps, pol, ds, w) = Some (r, st')"
    and "api_ok (v_policy S) V (wk, st')"
proof -
  let ?run = "CreateKey S now gen ent ext nm perms bns prin exp (ps, pol, ds, w)"
  have s: "world_ok (v_policy S) V (ps, pol, ds, w)" "within (v_policy S) (ps, pol, ds, w)" "buckets_ok (x_buckets w)"
    "wraps_ok wk" "tenants_ok (x_tenants w)" using ok by (simp_all add: api_ok_def)
  show thesis
  proof (cases rule: CreateKey_cases[OF s(3), where S = S and now = now and gen = gen and ent = ent and ext = ext and nm = nm
      and perms = perms and bns = bns and prin = prin and exp = exp and ps = ps and pol = pol and ds = ds])
    case (1 e)
    then show thesis using that ok by blast
  next
    case (2 ten issuer key bytes secret ids q st')
    let ?i = "newInput key ten nm ids perms prin exp"
    have "reflp ((\<subseteq>) :: command set \<Rightarrow> _)" by (simp add: reflp_def)
    moreover have "freshKey (in_Tenant ?i) (in_ID ?i) (ps, pol, ds, w)" using fr 2(1,3) by (simp add: newInput_def)
    moreover have "fst issuer = in_Tenant ?i" by (simp add: newInput_def 2(2))
    ultimately have eff: "(\<forall>e. q = Inl e \<longrightarrow> st' = (ps, pol, ds, w)) \<and>
        (\<forall>rec. q = Inr rec \<longrightarrow> world_ok (v_policy S) V st' \<and> (within (v_policy S) (ps, pol, ds, w) \<longrightarrow> within (v_policy S) st') \<and>
           (\<exists>dels. key_created V now ?i bytes dels (ps, pol, ds, w) st'))"
      using storeKey_effect[OF env s(1) _ _ _ 2(6)] by blast
    have "api_ok (v_policy S) V (wk, st')"
    proof (cases q)
      case (Inl e)
      with eff ok show ?thesis by simp
    next
      case (Inr rec)
      obtain ps' pol' ds' w' where st': "st' = (ps', pol', ds', w')" by (rule prod_cases4)
      from eff Inr have "world_ok (v_policy S) V st'" "within (v_policy S) st'" "x_buckets w' = x_buckets w" "x_tenants w' = x_tenants w"
        using s(2) st' by (auto simp: key_created_def)
      with s(3-5) show ?thesis by (simp add: api_ok_def st')
    qed
    moreover have "\<exists>r. ?run = Some (r, st')" using 2(7) by (auto split: sum.splits)
    ultimately show thesis using that by blast
  qed
qed


lemma CreatePrincipal_snd:
  assumes "CreatePrincipal L now ext p st = (r, st')"
  shows "snd st' = snd st"
proof -
  have same: "snd (createdPrincipal ten p c st) = st" for ten c and st :: "'a world"
    by (simp add: createdPrincipal_def split: sum.split)
  have add: "snd st1 = snd st" if "principal_Add now ten p st = (x, st1)" for ten x st1
    using principal_Add_effect[of now ten p "fst st" "snd st" x "fst st1" "snd st1"] that by simp
  have "snd (snd (CreatePrincipal L now ext p st)) = snd st"
    by (auto simp: CreatePrincipal_def same split: sum.split prod.split dest: add)
  with assms show ?thesis by simp
qed

lemma principals_keep:
  assumes env: "env_ok (v_policy S) (v_rotator S) V" and ok: "api_ok (v_policy S) V (wk, st)"
  shows "CreatePrincipal (v_policy S) now ext p st = (r, st') \<Longrightarrow> api_ok (v_policy S) V (wk, st')"
    and "DeletePrincipal S alive now ext p st = (q, st') \<Longrightarrow> api_ok (v_policy S) V (wk, st')"
    and "DeleteKey (v_rotator S) now ext k st = (q, st') \<Longrightarrow> api_ok (v_policy S) V (wk, st')"
proof -
  obtain ps pol ds w where st: "st = (ps, pol, ds, w)" by (rule prod_cases4)
  obtain ps' pol' ds' w' where st': "st' = (ps', pol', ds', w')" by (rule prod_cases4)
  have s: "world_ok (v_policy S) V (ps, pol, ds, w)" "within (v_policy S) (ps, pol, ds, w)" "buckets_ok (x_buckets w)"
    "wraps_ok wk" "tenants_ok (x_tenants w)" using ok by (simp_all add: api_ok_def st)
  have rule: "api_ok (v_policy S) V (wk, st')"
    if "world_ok (v_policy S) V st'" "within (v_policy S) st'" "roots w' = roots w"
    using that s by (simp add: api_ok_def st')
  show "api_ok (v_policy S) V (wk, st')" if run: "CreatePrincipal (v_policy S) now ext p st = (r, st')"
  proof -
    have "roots w' = roots w" using CreatePrincipal_snd[OF run] by (simp add: st st')
    with CreatePrincipal_effect[OF s(1) run[unfolded st]] s(2) show ?thesis by (intro rule) blast+
  qed
  show "api_ok (v_policy S) V (wk, st')" if run: "DeletePrincipal S alive now ext p st = (q, st')"
  proof (cases "tenantOf (x_tenants w) ext")
    case (Inl e)
    with run ok show ?thesis by (simp add: DeletePrincipal_def st)
  next
    case (Inr ten)
    obtain x where "removeSteps S now ten p (ps, pol, ds, w) = (x, ps', pol', ds', w')"
      using run Inr unfolding st st' by (auto simp: DeletePrincipal_def split: prod.splits sum.splits)
    from removeSteps_effect[OF env s(1) this] s(2) show ?thesis
      by (intro rule) (use DeletePrincipal_roots[OF env s(1) run[unfolded st st']] st' in auto)
  qed
  show "api_ok (v_policy S) V (wk, st')" if run: "DeleteKey (v_rotator S) now ext k st = (q, st')"
    using DeleteKey_effect[OF env s(1) run[unfolded st st'], of "(\<subseteq>)"] s(2)
      DeleteKey_roots[OF env_okD(2)[OF env] run[unfolded st st']]
    by (intro rule) (simp_all add: st')
qed

lemma handler_keeps:
  assumes env: "api_env A V" and ok: "api_ok (v_policy (a_policies A)) V st" and fr: "fresh_draws A D c st"
  shows "\<exists>resp st'. handler A D q c st = Some (resp, st') \<and> api_ok (v_policy (a_policies A)) V st'"
proof -
  obtain wk ps pol ds w where st: "st = (wk, ps, pol, ds, w)" by (rule prod_cases5)
  let ?P = "a_policies A" and ?L = "v_policy (a_policies A)"
  have e: "env_ok ?L (v_rotator ?P) V" "env_ok ?L (s_rotator (a_tenants A)) V" "g_meanwhile (a_tenants A) = (\<lambda>s. s)"
    using env by (simp_all add: api_env_def)
  have s: "world_ok ?L V (ps, pol, ds, w)" "within ?L (ps, pol, ds, w)" "buckets_ok (x_buckets w)"
    "wraps_ok wk" "tenants_ok (x_tenants w)" using ok by (simp_all add: api_ok_def st)
  note keep = principals_keep[OF e(1) ok[unfolded st]]
  show ?thesis
  proof (cases c)
    case (ProvisionTenantRoute t)
    obtain r wk' w' where run: "Provision (a_tenants A) (dr_now D) (dr_tenantKey D) (dr_wrapKey D) t (wk, w) = (r, wk', w')"
      by (rule prod_cases3)
    have "site_ok (wk, w)" using s(4,5) by (simp add: site_ok_def)
    note fr' = fr[unfolded fresh_draws_def st fst_conv snd_conv, THEN conjunct1]
    have so: "site_ok (wk', w')"
      by (rule Provision_keeps[OF \<open>site_ok (wk, w)\<close> e(3) fr' run])
    have rest: "rest w' = rest w" using Provision_rest[OF e(3) run] by simp
    then have "x_buckets w' = x_buckets w" by (simp add: rest_def)
    with s so have "api_ok ?L V (wk', ps, pol, ds, w')" by (simp add: api_ok_def site_ok_def tracks_same[OF rest])
    moreover have "\<exists>resp. HandleProvisionTenant A D t st = (resp, wk', ps, pol, ds, w') \<or> HandleProvisionTenant A D t st = (resp, st)"
    proof (cases r)
      case (Inr x)
      then show ?thesis using run by (cases x) (auto simp: HandleProvisionTenant_def st onSite_def)
    qed (use run in \<open>auto simp: HandleProvisionTenant_def st onSite_def\<close>)
    ultimately show ?thesis using ProvisionTenantRoute ok by (auto simp: st)
  next
    case (UpdateTenantStatusRoute t b)
    show ?thesis
    proof (cases b)
      case None
      with UpdateTenantStatusRoute ok show ?thesis by (simp add: HandleUpdateTenantStatus_def)
    next
      case (Some x)
      obtain r wk' w' where run: "SetTenantStatus (dr_now D) t x (wk, w) = (r, wk', w')" by (rule prod_cases3)
      then have "(wk', w') = (wk, w) \<or> (\<exists>rec ts. tenant_SetStatus (dr_now D) rec (statusOf x) (x_tenants w) = (Inr (), ts) \<and>
          (wk', w') = (wk, w\<lparr>x_tenants := ts\<rparr>))"
        by (auto simp: SetTenantStatus_def split: if_splits sum.splits prod.splits)
      then have "api_ok ?L V (wk', ps, pol, ds, w')"
        using ok st s tenants_ok_SetStatus[OF s(5)] by (auto simp: api_ok_def tracks_same[OF rest_updates(2)])
      moreover have "\<exists>resp. HandleUpdateTenantStatus D t b st = (resp, wk', ps, pol, ds, w')"
        using run by (auto simp: HandleUpdateTenantStatus_def Some st onSite_def split: sum.splits)
      ultimately show ?thesis using UpdateTenantStatusRoute by auto
    qed
  next
    case (DeleteTenantRoute t)
    have "\<exists>r st'. DeleteTenant (a_tenants A) (dr_now D) t st = Some (r, st') \<and> api_ok ?L V st'"
    proof (cases "tenant_GetByExternalID (x_tenants w) t")
      case (Inl x)
      with ok show ?thesis by (simp add: DeleteTenant_def st)
    next
      case (Inr rec)
      show ?thesis
        by (rule DeleteTenant_effect[OF e(2) s(1,3-5) Inr, of "dr_now D"]) (use s(2) st in \<open>simp add: api_ok_def\<close>)
    qed
    then obtain r st' where "DeleteTenant (a_tenants A) (dr_now D) t st = Some (r, st')" "api_ok ?L V st'" by blast
    with DeleteTenantRoute show ?thesis by (cases r) (simp_all add: HandleDeleteTenant_def)
  next
    case (CreateAccessKeyRoute t b)
    show ?thesis
    proof (cases b)
      case None
      with CreateAccessKeyRoute ok show ?thesis by (simp add: HandleCreateAccessKey_def)
    next
      case (Some x)
      have f: "\<forall>ten key bytes. tenantOf (x_tenants w) t = Inr ten \<and> dr_accessKey D = Some (key, bytes) \<longrightarrow> freshKey ten key (ps, pol, ds, w)"
        using fr by (simp add: fresh_draws_def st CreateAccessKeyRoute)
      obtain r st' where run: "CreateKey ?P (dr_now D) (dr_accessKey D) (dr_entropy D) t (kr_Name x) (kr_Permissions x) (kr_Buckets x)
          (kr_PrincipalID x) (kr_ExpiresAt x) (ps, pol, ds, w) = Some (r, st')" and "api_ok ?L V (wk, st')"
        by (rule CreateKey_keeps[OF e(1) ok[unfolded st] f])
      with CreateAccessKeyRoute Some show ?thesis by (cases r; cases st') (auto simp: HandleCreateAccessKey_def st)
    qed
  next
    case (DeleteAccessKeyRoute t k)
    obtain r st' where run: "DeleteKey (v_rotator ?P) (dr_now D) t k (ps, pol, ds, w) = (r, st')" by (rule prod.exhaust)
    from keep(3)[OF run] run DeleteAccessKeyRoute show ?thesis by (cases r) (simp_all add: HandleDeleteAccessKey_def st)
  next
    case (CreatePrincipalRoute t p)
    obtain r st' where run: "CreatePrincipal ?L (dr_now D) t p (ps, pol, ds, w) = (r, st')" by (rule prod.exhaust)
    from keep(1)[OF run] run CreatePrincipalRoute show ?thesis by (cases r; cases st') (auto simp: HandleCreatePrincipal_def st)
  next
    case (DeletePrincipalRoute t p)
    obtain r st' where run: "DeletePrincipal ?P (dr_alive D) (dr_now D) t p (ps, pol, ds, w) = (r, st')" by (rule prod.exhaust)
    from keep(2)[OF run] run DeletePrincipalRoute show ?thesis by (cases r) (simp_all add: HandleDeletePrincipal_def st)
  qed (use ok reads_end[OF s(3)] in \<open>auto simp: st\<close>)
qed


lemma ServeAPI_cases:
  obtains (refused) resp where "ServeAPI A D auth q c st = Some (resp, st)" "statusCode resp \<in> {400, 401, 422}"
      "\<not> presents (a_PartnerKey A) auth \<longleftrightarrow> statusCode resp = 401"
      "\<not> presents (a_PartnerKey A) auth \<or> tenantParam c \<noteq> [] \<and> \<not> ValidTenantID (tenantParam c) \<or>
         principalParam c \<noteq> [] \<and> \<not> ValidID (v_policy (a_policies A)) (principalParam c)"
  | (handled) "ServeAPI A D auth q c st = handler A D q c st" "presents (a_PartnerKey A) auth"
      "tenantParam c = [] \<or> ValidTenantID (tenantParam c)"
      "principalParam c = [] \<or> ValidID (v_policy (a_policies A)) (principalParam c)"
proof (cases "presents (a_PartnerKey A) auth")
  case False
  then show thesis
    by (intro refused[of unauthorized]) (simp_all add: ServeAPI_def PartnerKeyAuth_presents unauthorized_def)
next
  case key: True
  note step = ServeAPI_def NewRoute_def PartnerKeyAuth_presents
  show thesis
  proof (cases "tenantParam c \<noteq> [] \<and> \<not> ValidTenantID (tenantParam c)")
    case True
    with key show thesis by (intro refused[of "httpError 400 (Api ErrInvalidTenantID)"]) (simp_all add: step httpError_def)
  next
    case tenant: False
    show thesis
    proof (cases "principalParam c \<noteq> [] \<and> \<not> ValidID (v_policy (a_policies A)) (principalParam c)")
      case True
      with key tenant show thesis
        by (intro refused[of "httpError 422 (Api ErrInvalidPrincipalID)"]) (simp_all add: step httpError_def)
    next
      case False
      with key tenant show thesis by (intro handled) (auto simp: step)
    qed
  qed
qed

lemma ServeAPI_keeps:
  assumes "api_env A V" and "api_ok (v_policy (a_policies A)) V st" and "fresh_draws A D c st"
  shows "\<exists>resp st'. ServeAPI A D auth q c st = Some (resp, st') \<and> api_ok (v_policy (a_policies A)) V st'"
  by (cases rule: ServeAPI_cases[of A D auth q c st]) (use assms(2) handler_keeps[OF assms, of q] in auto)

subsection \<open>A sample\<close>

definition sample_api :: "dlg list api_service" where
  "sample_api = \<lparr>a_PartnerKey = ['' '', ''secret''], a_tenants = sample_tenant_service, a_policies = sample_service,
     a_metrics = sample_metrics, a_usage_names = \<lparr>InvalidRangeErrorName = ''a'', InvalidWindowErrorName = ''b'',
       TooManySamplesErrorName = ''c'', UsageUnstableErrorName = ''d'', RangeTooBusyErrorName = ''e''\<rparr>,
     a_Identifier = did_string\<rparr>"

definition sample_draws :: draws where
  "sample_draws = \<lparr>dr_now = 3, dr_alive = True, dr_tenantKey = None, dr_wrapKey = None, dr_accessKey = None,
     dr_entropy = (\<lambda>_ _. []), dr_order = (\<lambda>n. [0..<n])\<rparr>"

definition sample_site :: "dlg list tenant_world" where
  "sample_site = ([], sample_tenant_world)"

abbreviation sample_auth :: string where "sample_auth \<equiv> ''bEARER secret''"

lemma sample_api_env: "api_env sample_api sample_universe"
  using sample_env_ok
  by (simp add: api_env_def sample_api_def sample_service_def sample_tenant_service_def)

lemma sample_site_ok: "api_ok sample_lib sample_universe sample_site"
proof -
  obtain ps pol ds w where s: "sample_tenant_world = (ps, pol, ds, w)" by (rule prod_cases4)
  have "buckets_ok (x_buckets w)" using sample_buckets_ok by (simp add: key_world_def s)
  moreover have "x_tenants w = [(Did ''t'', \<lparr>t_ID = Did ''t'', t_ExternalID = ''ext'', t_Status = Active, t_CreatedAt = 0, t_UpdatedAt = 0\<rparr>)]"
  proof -
    have "x_tenants (snd (snd (snd sample_tenant_world))) =
      [(Did ''t'', \<lparr>t_ID = Did ''t'', t_ExternalID = ''ext'', t_Status = Active, t_CreatedAt = 0, t_UpdatedAt = 0\<rparr>)]" by code_simp
    then show ?thesis by (simp add: s)
  qed
  then have "tenants_ok (x_tenants w)" by (simp add: tenants_ok_def wf_gomap_def all_records_def unique_by_def)
  ultimately show ?thesis
    using sample_tenant_world_ok in_step_within[of sample_lib sample_tenant_world]
    unfolding api_ok_def sample_site_def s by (simp add: wraps_ok_def)
qed

lemma sample_fresh: "fresh_draws sample_api sample_draws c st"
  by (simp add: fresh_draws_def sample_draws_def generates_def)

subsection \<open>Properties\<close>

text \<open>
  C18. The API lets in exactly the requests that present one of the configured partner keys that
  is not blank, under the scheme Bearer in any case; any other is answered 401. A request let in
  is never answered 401. A request not let in, one with a tenant's or a principal's id that the
  services would refuse to create, one that reads, and one about a tenant nobody recorded (but to
  provision it) changes nothing, and the last is refused, unless it asks to delete the tenant.
\<close>

theorem api_guarded:
  assumes "ServeAPI A D auth q c st = Some (resp, st')"
  shows "(statusCode resp = 401 \<longleftrightarrow> \<not> presents (a_PartnerKey A) auth) \<and>
    (\<not> presents (a_PartnerKey A) auth \<or> tenantParam c \<noteq> [] \<and> \<not> ValidTenantID (tenantParam c) \<or>
       principalParam c \<noteq> [] \<and> \<not> ValidID (v_policy (a_policies A)) (principalParam c) \<longrightarrow>
       statusCode resp \<in> {400, 401, 422} \<and> st' = st) \<and>
    (is_read c \<longrightarrow> st' = st) \<and>
    (unknownTenant (tenantParam c) st \<and> (\<nexists>t. c = ProvisionTenantRoute t) \<longrightarrow>
       st' = st \<and> (statusCode resp \<in> {400, 401, 404, 422} \<or> c = DeleteTenantRoute (tenantParam c) \<and> resp = Response 204 NoContent))"
proof (cases rule: ServeAPI_cases[of A D auth q c st])
  case (refused r)
  with assms show ?thesis by auto
next
  case handled
  then have run: "handler A D q c st = Some (resp, st')" using assms by simp
  have unknown: "st' = st \<and> (statusCode resp \<in> {400, 401, 404, 422} \<or> c = DeleteTenantRoute (tenantParam c) \<and> resp = Response 204 NoContent)"
    if "unknownTenant (tenantParam c) st" "\<nexists>t. c = ProvisionTenantRoute t"
    using handler_unknownTenant[OF that(1), of A D q] that(2) run by (auto split: if_splits)
  show ?thesis using handled(2-4) handler_never_unauthorized[OF run] handler_read[OF _ run] unknown by blast
qed

theorem api_guarded_witness:
  "map_option (\<lambda>(resp, st'). (statusCode resp, st' = sample_site))
     (ServeAPI sample_api sample_draws ''Bearer  '' [] (DeleteTenantRoute ''ext'') sample_site) = Some (401, True)"
proof -
  have "map_option (statusCode \<circ> fst)
      (ServeAPI sample_api sample_draws ''Bearer  '' [] (DeleteTenantRoute ''ext'') sample_site) = Some 401"
    by code_simp
  then obtain resp st' where run: "ServeAPI sample_api sample_draws ''Bearer  '' [] (DeleteTenantRoute ''ext'') sample_site = Some (resp, st')"
    and "statusCode resp = 401" by auto
  with api_guarded[OF run] show ?thesis by simp
qed

end
