(* ===== verification/Server.thy ===== *)
theory Server
  imports Rpc_Server Frames Api_Safety
begin

text \<open>
  The whole process: requests to its API and commands to its UCAN server in any order, who may
  give which command, and the state all of them keep.
\<close>

subsection \<open>What an admin command leaves\<close>

text \<open>Every registry but the providers, and everyone's delegations but the service's.\<close>

definition registers :: "did \<Rightarrow> dlg set \<Rightarrow> dlg_store \<times> 'e backend \<Rightarrow> dlg_store \<times> 'e backend \<Rightarrow> bool" where
  "registers service V sw sw' \<longleftrightarrow>
     (let (ds, w) = sw; (ds', w') = sw' in
      x_tenants w' = x_tenants w \<and> x_buckets w' = x_buckets w \<and> x_keys w' = x_keys w \<and>
      (providers_ok (x_providers w) \<longrightarrow> providers_ok (x_providers w')) \<and>
      (dlgs_ok (byAudience ds) \<longrightarrow> dlgs_ok (byAudience ds')) \<and>
      ((\<forall>a. authority ds a \<subseteq> V) \<longrightarrow>
         (\<forall>a. authority ds' a \<subseteq> V) \<and> (\<forall>a. a \<noteq> service \<longrightarrow> authority ds' a = authority ds a)))"

lemma registers_refl [simp]: "registers service V sw sw"
  by (simp add: registers_def split: prod.split)

lemma registers_trans: "registers service V s s' \<Longrightarrow> registers service V s' s'' \<Longrightarrow> registers service V s s''"
  by (auto simp: registers_def split: prod.splits)

lemma registers_beyond: "beyond w w' \<Longrightarrow> registers service V (ds, w) (ds, w')"
  using beyond_sel[of w w'] by (simp add: registers_def)

lemma registers_providers:
  "registers service V sw (ds, w) \<Longrightarrow> (providers_ok (x_providers w) \<Longrightarrow> providers_ok provs) \<Longrightarrow>
    registers service V sw (ds, w\<lparr>x_providers := provs\<rparr>)"
  by (auto simp: registers_def split: prod.splits)

lemma issuePolicy_registers:
  assumes "delegate_ok (pa_ucan A) V" and run: "issuePolicy A gen ent ds = (r, ds')"
  shows "registers (pa_service A) V (ds, w) (ds', w)"
proof -
  have "dlgs_ok (byAudience ds1)" if "PutBatch dels ds = (q, ds1)" "dlgs_ok (byAudience ds)" for dels q ds1
    using that dlgs_ok_put by (auto simp: PutBatch_def split: if_splits sum.splits)
  then have "dlgs_ok (byAudience ds) \<longrightarrow> dlgs_ok (byAudience ds')"
    using run by (auto simp: issuePolicy_def split: option.splits sum.splits prod.splits)
  with issuePolicy_effect(1,4)[OF assms(1) _ run] show ?thesis by (simp add: registers_def)
qed

lemma setPolicyNodes_registers: "setPolicyNodes A policy nodes (ds, w) = (r, sw') \<Longrightarrow> registers service V (ds, w) sw'"
  by (auto simp: setPolicyNodes_def split: prod.splits intro: registers_beyond onExt_beyond)

lemma newPolicy_registers:
  assumes "delegate_ok (pa_ucan A) V" and run: "newPolicy A gen ent nodes (ds, w) = (r, sw')"
  shows "registers (pa_service A) V (ds, w) sw'"
proof -
  obtain q ds1 where iss: "issuePolicy A gen ent ds = (q, ds1)" by force
  note one = issuePolicy_registers[OF assms(1) iss, of w]
  show ?thesis
  proof (cases q)
    case (Inl e)
    with run iss one show ?thesis by (auto simp: newPolicy_def)
  next
    case (Inr p)
    obtain q' sw2 where put: "setPolicyNodes A p nodes (ds1, w) = (q', sw2)" by (rule prod.exhaust)
    have "sw' = sw2" using run iss Inr put by (auto simp: newPolicy_def split: sum.splits)
    with registers_trans[OF one setPolicyNodes_registers[OF put]] show ?thesis by simp
  qed
qed

lemma admin_registers:
  assumes "delegate_ok (pa_ucan A) V" and m: "pa_meanwhile A = (\<lambda>sw. sw)"
  shows "AddProvider A now gen ent args (ds, w) = (r, sw') \<Longrightarrow> registers (pa_service A) V (ds, w) sw'"
    and "SetProviderNodes A now gen ent prov nodes (ds, w) = (r, sw') \<Longrightarrow> registers (pa_service A) V (ds, w) sw'"
proof -
  note new = newPolicy_registers[OF assms(1)]
  have add: "registers (pa_service A) V (ds, w) (ds1, w1\<lparr>x_providers := provs\<rparr>)"
    if "provider_Add now prov region pol (x_providers w1) = (Inr (), provs)" "registers (pa_service A) V (ds, w) (ds1, w1)"
    for prov region pol ds1 w1 provs
    using that by (intro registers_providers) (auto intro: providers_ok_Add)
  have set: "registers (pa_service A) V (ds, w) (ds1, w1\<lparr>x_providers := provs\<rparr>)"
    if "provider_SetPolicy now prov policy (x_providers w1) = (q, provs)" "registers (pa_service A) V (ds, w) (ds1, w1)"
    for policy q ds1 w1 provs
    using that by (intro registers_providers) (auto intro: providers_ok_SetPolicy)
  show "AddProvider A now gen ent args (ds, w) = (r, sw') \<Longrightarrow> registers (pa_service A) V (ds, w) sw'"
    by (auto simp: AddProvider_def Let_def m split: if_splits sum.splits prod.splits dest!: new dest: add add[OF _ registers_refl])
  show "SetProviderNodes A now gen ent prov nodes (ds, w) = (r, sw') \<Longrightarrow> registers (pa_service A) V (ds, w) sw'"
    by (auto simp: SetProviderNodes_def m split: if_splits option.splits sum.splits prod.splits
      dest!: new dest: set setPolicyNodes_registers)
qed

subsection \<open>Keys, tenants and the service are different parties\<close>

definition servable :: "did \<Rightarrow> dlg_store \<times> 'e backend \<Rightarrow> bool" where
  "servable service sw \<longleftrightarrow>
     (let (ds, w) = sw in
      dlgs_ok (byAudience ds) \<and> providers_ok (x_providers w) \<and> map_of (x_keys w) service = None \<and>
      (\<forall>t. map_of (x_tenants w) t \<noteq> None \<longrightarrow> map_of (x_keys w) t = None))"

lemma servable_fewer: "fewer sw sw' \<Longrightarrow> servable service sw \<Longrightarrow> servable service sw'"
  by (cases sw; cases sw') (simp add: fewer_def servable_def, metis option.exhaust)

lemma servable_lesser: "lesser sw sw' \<Longrightarrow> servable service sw \<Longrightarrow> servable service sw'"
  by (rule servable_fewer) (rule lesser_fewer)

lemma servable_registers: "registers s V sw sw' \<Longrightarrow> servable service sw \<Longrightarrow> servable service sw'"
  by (auto simp: registers_def servable_def split: prod.splits)


definition hilt_ok :: "'e hilt \<Rightarrow> dlg set \<Rightarrow> 'e tenant_world \<Rightarrow> bool" where
  "hilt_ok H V st \<longleftrightarrow>
     api_ok (v_policy (a_policies (h_api H))) V st \<and> servable (h_ID H) (snd (snd (snd st)))"

text \<open>Both sides share one policy service; no other request commits while one waits.\<close>

definition hilt_env :: "'e hilt \<Rightarrow> dlg set \<Rightarrow> bool" where
  "hilt_env H V \<longleftrightarrow> api_env (h_api H) V \<and> bs_policies (h_buckets H) = a_policies (h_api H) \<and>
     delegate_ok (pa_ucan (h_admin H)) V \<and> pa_meanwhile (h_admin H) = (\<lambda>sw. sw) \<and> pa_service (h_admin H) = h_ID H"

text \<open>A tenant or a key drawn anew is no party there is.\<close>

definition fresh_parties :: "'e hilt \<Rightarrow> draws \<Rightarrow> 'e tenant_world \<Rightarrow> bool" where
  "fresh_parties H D st \<longleftrightarrow>
     (let w = snd (siteOf st) in
      (\<forall>bytes wrap ten genesis. generates (a_tenants (h_api H)) (dr_tenantKey D) (dr_wrapKey D) bytes wrap ten genesis \<longrightarrow>
         map_of (x_keys w) ten = None) \<and>
      (\<forall>key bytes. dr_accessKey D = Some (key, bytes) \<longrightarrow> map_of (x_tenants w) key = None \<and> key \<noteq> h_ID H))"

subsection \<open>Requests to the API\<close>

lemma Provision_tenants:
  assumes m: "g_meanwhile S = (\<lambda>s. s)" and run: "Provision S now gen wgen ext s = (r, s')"
    and t: "map_of (x_tenants (snd s')) t \<noteq> None"
  shows "map_of (x_tenants (snd s)) t \<noteq> None \<or> (\<exists>bytes wrap genesis. generates S gen wgen bytes wrap t genesis)"
proof -
  consider "s' = s" | bytes wrap ten genesis where "generates S gen wgen bytes wrap ten genesis"
      "createTenant S now ext ten genesis bytes wrap s = (r, s')"
    using run by (auto simp: Provision_def generates_def split: sum.splits if_splits option.splits)
  then show ?thesis
  proof cases
    case 2
    let ?s = "writeSecret (WrapVaultKey ten 1) (wk_Bytes (s_formats S) wrap) (writeSecret (TenantKeyPath ten) bytes s)"
    obtain q w where reg: "registerTenant S ext ten genesis (snd ?s) = (q, w)" by force
    have w: "x_tenants w = x_tenants (snd s)" using beyond_sel[OF registerTenant_beyond[OF reg]] by (simp add: writeSecret_def)
    have clean: "x_tenants (snd (runCleanups [cleanupKey a, cleanupKey b] u)) = x_tenants (snd u)"
      "x_tenants (snd (runCleanups [cleanupKey a, cleanupKey b, cleanupWraps c] u)) = x_tenants (snd u)" for a b c and u :: "'a site"
      by (simp_all add: runCleanups_def cleanupKey_def cleanupWraps_def)
    have add: "map_of ts t \<noteq> None \<Longrightarrow> map_of (x_tenants u) t \<noteq> None \<or> t = ten"
      if "tenant_Add now ten ext Active (x_tenants u) = (q, ts)" for u :: "'a backend" and q ts
      using that by (auto simp: tenant_Add_def update_conv' split: if_splits)
    have "map_of (x_tenants (snd s)) t \<noteq> None \<or> t = ten"
      using 2(2) t w reg m
      by (auto simp: createTenant_def recordTenant_def Let_def clean split: if_splits sum.splits prod.splits dest!: add)
    with 2(1) show ?thesis by blast
  qed (use t in simp)
qed

lemma storeGrants_lesser: "alone R \<Longrightarrow> storeGrants R key dels (ds, w) = (r, sw') \<Longrightarrow> lesser (ds, w) sw'"
proof -
  have "lesser (ds, w) sw2" if "Replace [key] (storeNext key dels) (ds, w) = (x, sw2)" for x sw2
    using that by (rule Replace_lesser(1)[rotated]) (auto simp: storeNext_def split: if_splits)
  then show "alone R \<Longrightarrow> storeGrants R key dels (ds, w) = (r, sw') \<Longrightarrow> lesser (ds, w) sw'"
    by (auto simp: storeGrants_def alone_def split: if_splits sum.splits prod.splits)
qed

lemma CreateKey_servable:
  assumes env: "alone (v_rotator S)" and bs: "buckets_ok (x_buckets w)" and ok: "servable service (ds, w)"
    and fr: "\<forall>ten key bytes. tenantOf (x_tenants w) ext = Inr ten \<and> gen = Some (key, bytes) \<longrightarrow>
      freshKey ten key (ps, pol, ds, w) \<and> map_of (x_tenants w) key = None \<and> key \<noteq> service"
    and run: "CreateKey S now gen ent ext nm perms bns prin exp (ps, pol, ds, w) = Some (r, ps', pol', ds', w')"
  shows "servable service (ds', w')"
proof (cases rule: CreateKey_cases[OF bs, where S = S and now = now and gen = gen and ent = ent and ext = ext and nm = nm
      and perms = perms and bns = bns and prin = prin and exp = exp and ps = ps and pol = pol and ds = ds])
  case (1 e)
  with run ok show ?thesis by simp
next
  case (2 ten issuer key bytes secret ids q st')
  let ?i = "newInput key ten nm ids perms prin exp"
  have st': "st' = (ps', pol', ds', w')" using 2(7) run by (auto split: sum.splits)
  have f: "freshKey (in_Tenant ?i) (in_ID ?i) (ps, pol, ds, w)" "map_of (x_tenants w) key = None" "key \<noteq> service"
    using fr 2(1,3) by (auto simp: newInput_def)
  show ?thesis
    using env f(1) 2(6)[unfolded st']
  proof (cases rule: storeKey_cases)
    case (stored ks dels ds2)
    have ks: "map_of ks k = (if k = key then Some (key_record now ?i) else map_of (x_keys w) k)" for k
      using key_add_Inr(3)[OF key_Add_Inr(2)[OF stored(2)]] by (simp add: update_conv' newInput_def)
    have "dlgs_ok (byAudience ds) \<longrightarrow> dlgs_ok (byAudience ds2)"
      using storeGrants_lesser[OF env stored(4)] by (simp add: lesser_def)
    with ok f(2,3) stored(5) show ?thesis by (auto simp: servable_def ks)
  qed (use ok in simp)
qed

lemma ServeAPI_servable:
  assumes env: "hilt_env H V" and ok: "hilt_ok H V st" and fr: "fresh_draws (h_api H) D c st" "fresh_parties H D st"
    and run: "ServeAPI (h_api H) D auth q c st = Some (resp, st')"
  shows "servable (h_ID H) (snd (snd (snd st')))"
proof -
  let ?A = "h_api H" and ?P = "a_policies (h_api H)"
  obtain wk ps pol ds w where st: "st = (wk, ps, pol, ds, w)" by (rule prod_cases5)
  obtain wk' ps' pol' ds' w' where st': "st' = (wk', ps', pol', ds', w')" by (rule prod_cases5)
  have sv: "servable (h_ID H) (ds, w)" and bs: "buckets_ok (x_buckets w)"
    using ok by (simp_all add: hilt_ok_def st api_ok_def)
  have e: "alone (v_rotator ?P)" "s_rotator (a_tenants ?A) = v_rotator ?P" "g_meanwhile (a_tenants ?A) = (\<lambda>s. s)"
    using env by (simp_all add: hilt_env_def api_env_def env_ok_def)
  have "servable (h_ID H) (ds', w')" if h: "handler ?A D q c (wk, ps, pol, ds, w) = Some (resp, wk', ps', pol', ds', w')"
  proof (cases c)
    case (ProvisionTenantRoute t)
    obtain r wk2 w2 where p: "Provision (a_tenants ?A) (dr_now D) (dr_tenantKey D) (dr_wrapKey D) t (wk, w) = (r, wk2, w2)"
      by (rule prod_cases3)
    have "(ds', w') = (ds, w) \<or> (ds', w') = (ds, w2)"
      using h p ProvisionTenantRoute by (auto simp: HandleProvisionTenant_def onSite_def split: if_splits sum.splits prod.splits)
    moreover have "map_of (x_keys w) t' = None" if "map_of (x_tenants w2) t' \<noteq> None" for t'
      using Provision_tenants[OF e(3) p, of t'] that sv fr(2) unfolding fresh_parties_def servable_def st
      by (simp del: not_None_eq) blast
    then have "servable (h_ID H) (ds, w2)"
      using Provision_rest[OF e(3) p] sv by (simp add: servable_def rest_def)
    ultimately show ?thesis using sv by auto
  next
    case (UpdateTenantStatusRoute t b)
    with h sv show ?thesis
      by (auto simp: HandleUpdateTenantStatus_def SetTenantStatus_def onSite_def servable_def tenant_SetStatus_def update_conv'
        split: option.splits sum.splits prod.splits if_splits)
  next
    case (DeleteTenantRoute t)
    then obtain r where "DeleteTenant (a_tenants ?A) (dr_now D) t (wk, ps, pol, ds, w) = Some (r, wk', ps', pol', ds', w')"
      using h by (auto simp: HandleDeleteTenant_def split: option.splits sum.splits)
    from servable_fewer[OF DeleteTenant_fewer[OF _ this] sv] e(1,2) show ?thesis by simp
  next
    case (CreateAccessKeyRoute t b)
    show ?thesis
    proof (cases b)
      case None
      with h CreateAccessKeyRoute sv show ?thesis by (simp add: HandleCreateAccessKey_def)
    next
      case (Some x)
      with CreateAccessKeyRoute h obtain r where "CreateKey ?P (dr_now D) (dr_accessKey D) (dr_entropy D) t (kr_Name x)
          (kr_Permissions x) (kr_Buckets x) (kr_PrincipalID x) (kr_ExpiresAt x) (ps, pol, ds, w) = Some (r, ps', pol', ds', w')"
        by (auto simp: HandleCreateAccessKey_def split: option.splits sum.splits prod.splits)
      from CreateKey_servable[OF e(1) bs sv _ this] fr CreateAccessKeyRoute show ?thesis
        by (auto simp: fresh_draws_def fresh_parties_def st)
    qed
  next
    case (DeleteAccessKeyRoute t k)
    then obtain r where "DeleteKey (v_rotator ?P) (dr_now D) t k (ps, pol, ds, w) = (r, ps', pol', ds', w')"
      using h by (auto simp: HandleDeleteAccessKey_def split: sum.splits prod.splits)
    from servable_lesser[OF DeleteKey_lesser[OF e(1) this] sv] show ?thesis .
  next
    case (CreatePrincipalRoute t p)
    then obtain r where "CreatePrincipal (v_policy ?P) (dr_now D) t p (ps, pol, ds, w) = (r, ps', pol', ds', w')"
      using h by (auto simp: HandleCreatePrincipal_def split: sum.splits prod.splits)
    from CreatePrincipal_snd[OF this] sv show ?thesis by simp
  next
    case (DeletePrincipalRoute t p)
    then obtain r where "DeletePrincipal ?P (dr_alive D) (dr_now D) t p (ps, pol, ds, w) = (r, ps', pol', ds', w')"
      using h by (auto simp: HandleDeletePrincipal_def split: sum.splits prod.splits)
    from servable_lesser[OF DeletePrincipal_lesser[OF e(1) this] sv] show ?thesis .
  qed (use h sv handler_read[OF _ h] in auto)
  then show ?thesis
    using run sv by (cases rule: ServeAPI_cases[of ?A D auth q c st]) (auto simp: st st')
qed

subsection \<open>Commands to the server\<close>

text \<open>The parts of a consistent state, and of what a command leaves.\<close>

lemma hilt_okD:
  assumes "hilt_ok H V (wk, ps, pol, ds, w)"
  shows "Tracking.world_ok (v_policy (a_policies (h_api H))) V (ps, pol, ds, w)"
    and "within (v_policy (a_policies (h_api H))) (ps, pol, ds, w)" and "buckets_ok (x_buckets w)" and "tenants_ok (x_tenants w)"
    and "dlgs_ok (byAudience ds)" and "servable (h_ID H) (ds, w)"
    and "\<forall>t. map_of (x_tenants w) t \<noteq> None \<longrightarrow> map_of (x_keys w) t = None"
  using assms by (auto simp: hilt_ok_def api_ok_def servable_def)

lemma hilt_ok_same_registries:
  assumes "hilt_ok H V (wk, ps, pol, ds, w)"
    and "Tracking.world_ok (v_policy (a_policies (h_api H))) V (ps', pol', ds', w')"
    and "within (v_policy (a_policies (h_api H))) (ps', pol', ds', w')" and "buckets_ok (x_buckets w')"
    and "x_tenants w' = x_tenants w" and "servable (h_ID H) (ds', w')"
  shows "hilt_ok H V (wk, ps', pol', ds', w')"
  using assms by (simp add: hilt_ok_def api_ok_def)

lemma creation_keeps:
  assumes env: "hilt_env H V" and ok: "hilt_ok H V (wk, ps, pol, ds, w)"
  obtains r st' where "CreateBucket (h_buckets H) clock ent gen issuer req (ps, pol, ds, w) = Some (r, st')"
    and "hilt_ok H V (wk, st')"
proof (cases "Authorize (authorizerOf (h_buckets H) (ps, pol, ds, w)) (clock 0) (clock 1) issuer req")
  case (Inl e)
  show thesis by (rule that[of "Inl e" "(ps, pol, ds, w)"]) (use Inl ok in \<open>simp_all add: CreateBucket_def\<close>)
next
  case auth: (Inr ar)
  note s = hilt_okD[OF ok]
  have lib: "bs_policies (h_buckets H) = a_policies (h_api H)" "delegate_ok (r_ucan (v_rotator (a_policies (h_api H)))) V"
    using env by (simp_all add: hilt_env_def api_env_def env_ok_def)
  have "tenant_Get (x_tenants w) (k_Tenant (ar_AccessKey ar)) = Inr (ar_Tenant ar)"
    by (rule Authorize_InrD[OF auth]) (simp add: authorizerOf_def memory_authorizer_def)
  then have "map_of (x_tenants w) (t_ID (ar_Tenant ar)) = Some (ar_Tenant ar)"
    using s(4) by (auto simp: tenant_Get_def mapGet_Inr tenants_ok_def all_records_def)
  with s(7) have "map_of (x_keys w) (t_ID (ar_Tenant ar)) = None" by simp
  from CreateBucket_effect[where S = "h_buckets H" and V = V, unfolded lib(1), OF lib(2) s(1,3,5) auth this, of ent gen]
  obtain r ps' pol' ds' w' where
    run: "CreateBucket (h_buckets H) clock ent gen issuer req (ps, pol, ds, w) = Some (r, ps', pol', ds', w')"
    and out: "creation_outcome (h_buckets H) clock gen ar (ps, pol, ds, w) r (ps', pol', ds', w')"
    and inv: "Tracking.world_ok (v_policy (a_policies (h_api H))) V (ps', pol', ds', w')" "buckets_ok (x_buckets w')" "dlgs_ok (byAudience ds')"
      "\<And>rel. tracks rel (v_policy (a_policies (h_api H))) (ps, pol, ds, w) \<Longrightarrow> tracks rel (v_policy (a_policies (h_api H))) (ps', pol', ds', w')"
    by blast
  have "x_tenants w' = x_tenants w \<and> x_keys w' = x_keys w \<and> x_providers w' = x_providers w"
    using out by (cases r) (auto simp: creation_outcome_def creation_frame_def split: if_splits sum.splits)
  with hilt_ok_same_registries[OF ok inv(1) inv(4)[OF s(2)] inv(2)] inv(3) s(6) have "hilt_ok H V (wk, ps', pol', ds', w')"
    by (simp add: servable_def)
  with run show thesis by (rule that)
qed

lemma removal_keeps:
  assumes env: "hilt_env H V" and ok: "hilt_ok H V (wk, ps, pol, ds, w)"
  obtains r st' where "DeleteBucket (h_buckets H) clock issuer req (ps, pol, ds, w) = Some (r, st')" and "hilt_ok H V (wk, st')"
proof -
  note s = hilt_okD[OF ok]
  have lib: "bs_policies (h_buckets H) = a_policies (h_api H)" "content_addressed V"
    using env by (simp_all add: hilt_env_def api_env_def env_ok_def delegate_ok_def)
  from DeleteBucket_whole[where S = "h_buckets H" and V = V, unfolded lib(1), OF lib(2) s(1,3,5), of clock issuer req]
  obtain r ps' pol' ds' w' where run: "DeleteBucket (h_buckets H) clock issuer req (ps, pol, ds, w) = Some (r, ps', pol', ds', w')"
    and out: "case Authorize (authorizerOf (h_buckets H) (ps, pol, ds, w)) (clock 0) (clock 1) issuer req of
       Inl e \<Rightarrow> r = Inl e \<and> (ps', pol', ds', w') = (ps, pol, ds, w)
     | Inr ar \<Rightarrow> removal_answer (h_buckets H) clock ar (ps, pol, ds, w) r (ps', pol', ds', w')"
    and inv: "Tracking.world_ok (v_policy (a_policies (h_api H))) V (ps', pol', ds', w')" "buckets_ok (x_buckets w')" "dlgs_ok (byAudience ds')"
      "tracks (\<subseteq>) (v_policy (a_policies (h_api H))) (ps, pol, ds, w) \<longrightarrow> tracks (\<subseteq>) (v_policy (a_policies (h_api H))) (ps', pol', ds', w')"
    by (elim exE conjE) (drule spec[of _ "(\<subseteq>)"], simp)
  have removed: "x_tenants w' = x_tenants w \<and> x_keys w' = x_keys w \<and> x_providers w' = x_providers w"
    if "bucket_removed (h_buckets H) now ten b (ps, pol, ds, w) (ps', pol', ds', w')" for now ten b
    using that beyond_sel[of "w\<lparr>x_buckets := bucket_Delete b (x_buckets w)\<rparr>" w'] by (simp add: bucket_removed_def)
  have kept: "x_tenants w' = x_tenants w \<and> x_keys w' = x_keys w \<and> x_providers w' = x_providers w"
    if "bucket_kept (ps, pol, ds, w) (ps', pol', ds', w')"
    using that beyond_sel[of w w'] by (simp add: bucket_kept_def)
  have same: "x_tenants w' = x_tenants w \<and> x_keys w' = x_keys w \<and> x_providers w' = x_providers w"
    using out removed kept by (auto simp: removal_answer_def Let_def split: sum.splits if_splits)
  have "within (v_policy (a_policies (h_api H))) (ps', pol', ds', w')" using inv(4) s(2) by blast
  with hilt_ok_same_registries[OF ok inv(1) _ inv(2)] inv(3) s(6) same have "hilt_ok H V (wk, ps', pol', ds', w')"
    by (simp add: servable_def)
  with run show thesis by (rule that)
qed

lemma policy_keeps:
  assumes env: "hilt_env H V" and ok: "hilt_ok H V (wk, ps, pol, ds, w)"
    and run: "BucketPolicy (h_buckets H) alive clock ent issuer req body (ps, pol, ds, w) = (r, ps', pol', ds', w')"
  shows "hilt_ok H V (wk, ps', pol', ds', w')"
proof -
  note s = hilt_okD[OF ok]
  have lib: "bs_policies (h_buckets H) = a_policies (h_api H)"
    "env_ok (v_policy (a_policies (h_api H))) (v_rotator (a_policies (h_api H))) V"
    using env by (simp_all add: hilt_env_def api_env_def)
  from BucketPolicy_effect[where S = "h_buckets H" and V = V and rel = "(\<subseteq>)", unfolded lib(1), OF lib(2) s(1,3) _ run] s(2)
  have inv: "Tracking.world_ok (v_policy (a_policies (h_api H))) V (ps', pol', ds', w')"
    "within (v_policy (a_policies (h_api H))) (ps', pol', ds', w')" by simp_all
  have less: "lesser (ds, w) (ds', w')"
    by (rule BucketPolicy_lesser[OF _ run]) (use lib in \<open>simp add: env_ok_def\<close>)
  then have "x_tenants w' = x_tenants w" "x_buckets w' = x_buckets w" by (simp_all add: lesser_def)
  with hilt_ok_same_registries[OF ok inv] servable_lesser[OF less s(6)] s(3) show ?thesis by simp
qed

lemma admin_keeps:
  assumes ok: "hilt_ok H V (wk, ps, pol, ds, w)" and reg: "registers (h_ID H) V (ds, w) (ds', w')"
  shows "hilt_ok H V (wk, ps, pol, ds', w')"
proof -
  note s = hilt_okD[OF ok]
  have sub: "\<forall>a. authority ds a \<subseteq> V" using world_okD(5)[OF s(1)] by blast
  have same: "x_tenants w' = x_tenants w" "x_buckets w' = x_buckets w" "x_keys w' = x_keys w"
    "\<forall>a. authority ds' a \<subseteq> V" "\<And>a. a \<noteq> h_ID H \<Longrightarrow> authority ds' a = authority ds a"
    using reg sub by (simp_all add: registers_def)
  have "Tracking.world_ok (v_policy (a_policies (h_api H))) V (ps, pol, ds', w')"
    using s(1) same by (simp add: Tracking.world_ok_def)
  moreover have "within (v_policy (a_policies (h_api H))) (ps, pol, ds', w')"
  proof (rule tracksI)
    fix key p c
    assume k: "map_of (x_keys w') (k_ID key) = Some key" "k_Principal key = Some p"
    have "k_ID key \<noteq> h_ID H" using k(1) s(6) same(3) by (auto simp: servable_def)
    with same(5) have "commandsOver ds' (k_ID key) c = commandsOver ds (k_ID key) c" by (simp add: over_def)
    with tracksD[OF s(2) _ k(2), of c] k(1) same(3)
    show "commandsOver ds' (k_ID key) c \<subseteq> granted (v_policy (a_policies (h_api H))) (policyOf pol (k_Tenant key) c) p" by simp
  qed
  ultimately show ?thesis
    using hilt_ok_same_registries[OF ok] servable_registers[OF reg s(6)] s(3) same by simp
qed

lemma handleCommand_keeps:
  assumes env: "hilt_env H V" and ok: "hilt_ok H V (wk, st)"
  shows "\<exists>r st'. handleCommand H D issuer cmd st = Some (r, st') \<and> hilt_ok H V (wk, st')"
proof -
  obtain ps pol ds w where st: "st = (ps, pol, ds, w)" by (rule prod_cases4)
  note ok = ok[unfolded st]
  note reg = admin_registers[where A = "h_admin H" and V = V]
  have adm: "delegate_ok (pa_ucan (h_admin H)) V" "pa_meanwhile (h_admin H) = (\<lambda>sw. sw)" "pa_service (h_admin H) = h_ID H"
    using env by (simp_all add: hilt_env_def)
  show ?thesis
  proof (cases cmd)
    case (CreateCommand req)
    obtain r st' where "CreateBucket (h_buckets H) (rd_clock D) (rd_nonce D) (rd_key D) issuer req (ps, pol, ds, w) = Some (r, st')"
      and "hilt_ok H V (wk, st')" by (rule creation_keeps[OF env ok])
    then show ?thesis by (cases r; cases st') (auto simp: CreateCommand st NewCreateBucketHandler_def)
  next
    case (DeleteCommand req)
    obtain r st' where "DeleteBucket (h_buckets H) (rd_clock D) issuer req (ps, pol, ds, w) = Some (r, st')"
      and "hilt_ok H V (wk, st')" by (rule removal_keeps[OF env ok])
    then show ?thesis by (cases r) (auto simp: DeleteCommand st NewDeleteBucketHandler_def)
  next
    case (InfoCommand nm key)
    have "InfoBucket (h_buckets H) (\<lambda>_. (ps, pol, ds, w)) issuer nm key \<noteq> None"
      by (auto simp: InfoBucket_def infoSettled_def Let_def listGrants_whole[OF hilt_okD(5)[OF ok]]
        split: sum.splits option.splits prod.splits)
    then obtain q where "InfoBucket (h_buckets H) (\<lambda>_. (ps, pol, ds, w)) issuer nm key = Some q" by blast
    then show ?thesis using ok by (cases q) (auto simp: InfoCommand st NewBucketInfoHandler_def)
  next
    case (PolicyCommand req body)
    obtain r ps' pol' ds' w' where run: "BucketPolicy (h_buckets H) (rd_alive D) (rd_clock D) (rd_rotation D) issuer req body (ps, pol, ds, w) =
        (r, ps', pol', ds', w')" by (rule prod_cases5)
    from policy_keeps[OF env ok run] run show ?thesis by (cases r) (auto simp: PolicyCommand st NewPolicyHandler_def)
  next
    case (AddProviderCommand args)
    obtain r ds' w' where run: "AddProvider (h_admin H) (rd_clock D 0) (rd_key D) (rd_nonce D) args (ds, w) = (r, ds', w')"
      by (rule prod_cases3)
    from admin_keeps[OF ok reg(1)[OF adm(1,2) run, unfolded adm(3)]] run
    show ?thesis by (cases r) (auto simp: AddProviderCommand st NewAddProviderHandler_def onStores_def)
  next
    case (SetNodesCommand prov nodes)
    obtain r ds' w' where run: "SetProviderNodes (h_admin H) (rd_clock D 0) (rd_key D) (rd_nonce D) prov nodes (ds, w) = (r, ds', w')"
      by (rule prod_cases3)
    from admin_keeps[OF ok reg(2)[OF adm(1,2) run, unfolded adm(3)]] run
    show ?thesis by (cases r) (auto simp: SetNodesCommand st NewSetProviderNodesHandler_def onStores_def)
  qed (use ok in \<open>simp_all add: st\<close>)
qed

lemma NewUCANServer_cases:
  obtains (refused) e where "NewUCANServer H D issuer subject cmd st = Some (Failure (Refused e), st)"
      "firstFailure [if is_admin cmd then h_OnlyIssuer H (h_ID H) else h_NotSelfSigned H, h_OnlySubject H (h_ID H)] issuer subject = Some e"
  | (handled) "NewUCANServer H D issuer subject cmd st = handleCommand H D issuer cmd st"
      "firstFailure [if is_admin cmd then h_OnlyIssuer H (h_ID H) else h_NotSelfSigned H, h_OnlySubject H (h_ID H)] issuer subject = None"
  by (cases "firstFailure [if is_admin cmd then h_OnlyIssuer H (h_ID H) else h_NotSelfSigned H, h_OnlySubject H (h_ID H)] issuer subject")
     (simp_all add: NewUCANServer_def)

lemma NewUCANServer_keeps:
  assumes "hilt_env H V" and "hilt_ok H V (wk, st)"
  shows "\<exists>r st'. NewUCANServer H D issuer subject cmd st = Some (r, st') \<and> hilt_ok H V (wk, st')"
  by (cases rule: NewUCANServer_cases[of H D issuer subject cmd st])
     (use assms(2) handleCommand_keeps[OF assms, of D issuer cmd] in auto)

subsection \<open>The life of the process\<close>

text \<open>Requests and commands in any order; \<open>pkg/server\<close> mounts both handlers on one echo server.\<close>

inductive serves :: "'e hilt \<Rightarrow> 'e tenant_world \<Rightarrow> 'e tenant_world \<Rightarrow> bool" for H st where
  started: "serves H st st"
| request: "serves H st st1 \<Longrightarrow> fresh_draws (h_api H) D c st1 \<Longrightarrow> fresh_parties H D st1 \<Longrightarrow>
    ServeAPI (h_api H) D auth q c st1 = Some (resp, st2) \<Longrightarrow> serves H st st2"
| command: "serves H st (wk, st1) \<Longrightarrow> NewUCANServer H R issuer subject cmd st1 = Some (r, st2) \<Longrightarrow> serves H st (wk, st2)"

lemma ServeAPI_whole:
  assumes env: "hilt_env H V" and ok: "hilt_ok H V st" and fr: "fresh_draws (h_api H) D c st" "fresh_parties H D st"
  shows "\<exists>resp st'. ServeAPI (h_api H) D auth q c st = Some (resp, st') \<and> hilt_ok H V st'"
proof -
  have "api_env (h_api H) V" "api_ok (v_policy (a_policies (h_api H))) V st"
    using env ok by (simp_all add: hilt_env_def hilt_ok_def)
  from ServeAPI_keeps[OF this fr(1), of auth q] obtain resp st' where run: "ServeAPI (h_api H) D auth q c st = Some (resp, st')"
    and "api_ok (v_policy (a_policies (h_api H))) V st'" by blast
  with ServeAPI_servable[OF env ok fr run] have "hilt_ok H V st'" by (simp add: hilt_ok_def)
  with run show ?thesis by blast
qed

lemma serves_keeps:
  assumes "hilt_env H V" and "hilt_ok H V st" and "serves H st st'"
  shows "hilt_ok H V st'"
  using assms(3)
proof induction
  case (request st1 D c auth q resp st2)
  from ServeAPI_whole[OF assms(1) request.IH request.hyps(2,3), of auth q] request.hyps(4) show ?case by simp
next
  case (command wk st1 R issuer subject cmd r st2)
  from NewUCANServer_keeps[OF assms(1) command.IH, of R issuer subject cmd] command.hyps(2) show ?case by simp
qed (rule assms(2))

subsection \<open>Who may give a command\<close>

text \<open>What ucantone documents of the checks: the failure of each is of a caller it is not for.\<close>

definition documented_checks :: "'e hilt \<Rightarrow> bool" where
  "documented_checks H \<longleftrightarrow>
     (\<forall>issuer subject.
        (h_NotSelfSigned H issuer subject = None \<longleftrightarrow> issuer \<noteq> subject) \<and>
        (h_OnlySubject H (h_ID H) issuer subject = None \<longleftrightarrow> subject = h_ID H) \<and>
        (h_OnlyIssuer H (h_ID H) issuer subject = None \<longleftrightarrow> issuer = h_ID H))"

definition entitled :: "'e hilt \<Rightarrow> did \<Rightarrow> did \<Rightarrow> rpc_command \<Rightarrow> bool" where
  "entitled H issuer subject cmd \<longleftrightarrow> subject = h_ID H \<and> (is_admin cmd \<longleftrightarrow> issuer = h_ID H)"

fun signedRequest :: "rpc_command \<Rightarrow> s3_request option" where
  "signedRequest (AuthorizeCommand req) = Some req"
| "signedRequest (CreateCommand req) = Some req"
| "signedRequest (DeleteCommand req) = Some req"
| "signedRequest (ListCommand req) = Some req"
| "signedRequest (PolicyCommand req _) = Some req"
| "signedRequest _ = None"

fun is_write :: "rpc_command \<Rightarrow> bool" where
  "is_write (CreateCommand _) = True"
| "is_write (DeleteCommand _) = True"
| "is_write (PolicyCommand _ _) = True"
| "is_write (AddProviderCommand _) = True"
| "is_write (SetNodesCommand _ _) = True"
| "is_write _ = False"

text \<open>The signed request was accepted from this gateway, a provider of a region it was signed for.\<close>

definition vouched :: "'e hilt \<Rightarrow> rpc_draws \<Rightarrow> did \<Rightarrow> 'e Policy_Service.world \<Rightarrow> rpc_command \<Rightarrow> bool" where
  "vouched H D issuer st cmd \<longleftrightarrow>
     (\<forall>req. signedRequest cmd = Some req \<longrightarrow>
        (\<exists>ar. Authorize (authorizerOf (h_buckets H) st) (rd_clock D 0) (rd_clock D 1) issuer req = Inr ar \<and>
           pr_ID (ar_Provider ar) = issuer \<and> t_Status (ar_Tenant ar) \<noteq> Disabled)) \<and>
     (\<forall>nm key. cmd = InfoCommand nm key \<longrightarrow>
        (\<exists>b. bucket_GetByName (x_buckets (snd (snd (snd st)))) nm = Inr b \<and> b_Provider b = issuer))"

lemma firstFailure_checks:
  assumes "documented_checks H"
  shows "firstFailure [if is_admin cmd then h_OnlyIssuer H (h_ID H) else h_NotSelfSigned H, h_OnlySubject H (h_ID H)] issuer subject = None
    \<longleftrightarrow> entitled H issuer subject cmd"
proof -
  note c = assms[unfolded documented_checks_def, THEN spec[of _ issuer], THEN spec[of _ subject]]
  show ?thesis
    using c by (cases "h_NotSelfSigned H issuer subject"; cases "h_OnlySubject H (h_ID H) issuer subject";
      cases "h_OnlyIssuer H (h_ID H) issuer subject") (auto simp: entitled_def)
qed

lemma Authorize_provider:
  assumes "Authorize A now now' issuer req = Inr ar"
  shows "pr_ID (ar_Provider ar) = issuer" "t_Status (ar_Tenant ar) \<noteq> Disabled"
proof -
  show "pr_ID (ar_Provider ar) = issuer"
    by (rule Authorize_InrD[OF assms]) (auto simp: resolveProvider_def dest: resolveLoop_Inr)
  show "t_Status (ar_Tenant ar) \<noteq> Disabled" by (rule Authorize_InrD[OF assms]) simp
qed

lemma handleCommand_read:
  "\<not> is_write cmd \<Longrightarrow> handleCommand H D issuer cmd st = Some (r, st') \<Longrightarrow> st' = st"
  by (cases cmd) auto

lemma handleCommand_unvouched:
  assumes run: "handleCommand H D issuer cmd st = Some (r, st')" and no: "\<not> vouched H D issuer st cmd"
  shows "st' = st \<and> (\<exists>e. r = Failure e)"
proof -
  obtain ps pol ds w where st: "st = (ps, pol, ds, w)" by (rule prod_cases4)
  have auth: "\<exists>e. Authorize (authorizerOf (h_buckets H) st) (rd_clock D 0) (rd_clock D 1) issuer req = Inl e"
    if "signedRequest cmd = Some req" for req
  proof (rule ccontr)
    assume "\<not> ?thesis"
    then obtain ar where "Authorize (authorizerOf (h_buckets H) st) (rd_clock D 0) (rd_clock D 1) issuer req = Inr ar"
      by (cases "Authorize (authorizerOf (h_buckets H) st) (rd_clock D 0) (rd_clock D 1) issuer req") blast+
    with Authorize_provider[OF this] that have "vouched H D issuer st cmd" by (cases cmd) (simp_all add: vouched_def)
    with no show False ..
  qed
  show ?thesis
  proof (cases cmd)
    case (InfoCommand nm key)
    with no have "\<nexists>b. bucket_GetByName (x_buckets w) nm = Inr b \<and> b_Provider b = issuer" by (simp add: vouched_def st)
    with run show ?thesis
      by (auto simp: InfoCommand st NewBucketInfoHandler_def InfoBucket_def split: sum.splits)
  next
    case (AuthorizeCommand req)
    with auth[of req] run show ?thesis by (auto simp: NewAuthorizeRequestHandler_def AuthorizeRequest_def st)
  next
    case (CreateCommand req)
    with auth[of req] run show ?thesis by (auto simp: NewCreateBucketHandler_def CreateBucket_def st)
  next
    case (DeleteCommand req)
    with auth[of req] run show ?thesis by (auto simp: NewDeleteBucketHandler_def DeleteBucket_def st)
  next
    case (ListCommand req)
    with auth[of req] run show ?thesis by (auto simp: NewListBucketsHandler_def ListBuckets_def st)
  next
    case (PolicyCommand req body)
    with auth[of req] run show ?thesis by (auto simp: NewPolicyHandler_def BucketPolicy_def st)
  qed (use no in \<open>simp_all add: vouched_def\<close>)
qed

lemma withBlocks_failure [simp]: "(withBlocks H ok dlgs = Failure (Refused e)) = False"
  by (simp add: withBlocks_def split: option.split)

lemma handleCommand_named:
  assumes "handleCommand H D issuer cmd st = Some (Failure (Refused e), st')"
  shows "errorName e \<noteq> None"
  using assms
  by (cases cmd) (auto dest!: refused_named simp: NewAuthorizeRequestHandler_def NewCreateBucketHandler_def
    NewDeleteBucketHandler_def NewListBucketsHandler_def NewPolicyHandler_def NewBucketInfoHandler_def
    NewAddProviderHandler_def NewSetProviderNodesHandler_def NewListProvidersHandler_def
    split: sum.splits option.splits prod.splits)

subsection \<open>A sample\<close>

definition sample_hilt :: "dlg list hilt" where
  "sample_hilt = \<lparr>h_ID = Did ''hilt'',
     h_NotSelfSigned = (\<lambda>i s. if i = s then Some (Upstream ''SelfSigned'') else None),
     h_OnlySubject = (\<lambda>a i s. if s = a then None else Some (Upstream ''InvalidSubject'')),
     h_OnlyIssuer = (\<lambda>a i s. if i = a then None else Some (Upstream ''InvalidIssuer'')),
     h_SetMetadata = (\<lambda>_. None), h_buckets = policy_requests_service,
     h_admin = \<lparr>pa_ucan = sample_ucan, pa_service = Did ''hilt'', pa_PutRoutingPolicy = (\<lambda>_ _ _ e. (Inr (), e)),
       pa_meanwhile = (\<lambda>sw. sw)\<rparr>, h_api = sample_api\<rparr>"

definition sample_rpc_draws :: rpc_draws where
  "sample_rpc_draws = \<lparr>rd_clock = at_sample, rd_key = None, rd_nonce = [], rd_entropy = (\<lambda>_ _. []),
     rd_rotation = (\<lambda>_ _. []), rd_alive = True\<rparr>"

abbreviation policy_site :: "dlg list Policy_Service.world" where
  "policy_site \<equiv> photos_world [''s3:DeleteBucketPolicy'']"

abbreviation sample_command :: "did \<Rightarrow> (receipt \<times> dlg list Policy_Service.world) option" where
  "sample_command issuer \<equiv> NewUCANServer sample_hilt sample_rpc_draws issuer (Did ''hilt'')
     (PolicyCommand (signed_call ''DELETE'') []) policy_site"

lemma sample_hilt_env: "hilt_env sample_hilt sample_universe" "documented_checks sample_hilt"
  using sample_api_env sample_delegate_ok
  by (simp_all add: hilt_env_def sample_hilt_def documented_checks_def policy_requests_service_def sample_api_def)

lemma sample_hilt_ok: "hilt_ok sample_hilt sample_universe sample_site"
proof -
  obtain r ps pol ds w where run: "WritePolicy sample_service True 0 (\<lambda>_ _. []) (Did ''t'') (Did ''b'') ''photos'' sample_grant []
      Tracking.sample_world = (r, ps, pol, ds, w)" by (rule prod_cases5)
  obtain ps0 pol0 ds0 w0 where s0: "Tracking.sample_world = (ps0, pol0, ds0, w0)" by (rule prod_cases4)
  have "alone (v_rotator sample_service)" by (simp add: sample_service_def sample_rotator_def alone_def)
  from policy_writes_lesser(1)[OF this run[unfolded s0]]
  have less: "lesser (\<lparr>byAudience = [], d_wait = None\<rparr>, snd (snd (snd Tracking.sample_world))) (ds, w)"
    using s0 by (simp add: Tracking.sample_world_def)
  have k: "map_of (x_keys w) a = None" if "a \<noteq> Did ''k''" for a
    using less that by (simp add: lesser_def Tracking.sample_world_def sample_backend_def)
  have site: "snd (snd (snd sample_site)) = (ds, w\<lparr>x_tenants := [(Did ''t'', \<lparr>t_ID = Did ''t'', t_ExternalID = ''ext'', t_Status = Active,
      t_CreatedAt = 0, t_UpdatedAt = 0\<rparr>)]\<rparr>)"
    by (simp add: sample_site_def sample_tenant_world_def run)
  have "dlgs_ok (byAudience ds)" "x_providers w = []"
    using less by (simp_all add: lesser_def Tracking.sample_world_def sample_backend_def dlgs_ok_def)
  then have "servable (Did ''hilt'') (snd (snd (snd sample_site)))"
    by (simp add: site servable_def k providers_ok_def)
  with sample_site_ok show ?thesis by (simp add: hilt_ok_def sample_hilt_def sample_api_def sample_service_def)
qed

lemma no_new_parties: "fresh_parties sample_hilt sample_draws st"
  by (simp add: fresh_parties_def sample_draws_def generates_def Let_def)

lemma sample_command_runs:
  "\<exists>st. sample_command (Did ''p'') = Some (Success (PolicyOK None) [], st) \<and> fst (snd st) = []"
  "sample_command (Did ''hilt'') = Some (Failure (Refused (Upstream ''SelfSigned'')), policy_site)"
proof -
  obtain st where st: "sample_policy_removal = (Inr None, st)" "fst (snd st) = []"
    using sample_policy_removal_ok by (cases sample_policy_removal) auto
  have "NewPolicyHandler sample_hilt sample_rpc_draws (Did ''p'') (signed_call ''DELETE'') [] policy_site = (Success (PolicyOK None) [], st)"
    by (simp add: NewPolicyHandler_def sample_hilt_def sample_rpc_draws_def st(1))
  then have "sample_command (Did ''p'') = Some (Success (PolicyOK None) [], st)"
    by (simp add: NewUCANServer_def) (simp add: sample_hilt_def)
  with st(2) show "\<exists>st. sample_command (Did ''p'') = Some (Success (PolicyOK None) [], st) \<and> fst (snd st) = []" by blast
  show "sample_command (Did ''hilt'') = Some (Failure (Refused (Upstream ''SelfSigned'')), policy_site)"
    by (simp add: NewUCANServer_def) (simp add: sample_hilt_def)
qed

abbreviation sample_registration_command :: rpc_command where
  "sample_registration_command \<equiv> AddProviderCommand \<lparr>add_Provider = Did ''p2'', add_Region = ''us'', add_Nodes = []\<rparr>"

subsection \<open>Properties\<close>





end
